(* ===== verification/Prelude.thy ===== *)
theory Prelude
  imports Complex_Main "HOL-Library.List_Lexorder" "HOL-Library.Char_ord" "HOL-Library.Product_Lexorder"
begin

text \<open>
  Shared vocabulary of the development: the Python exceptions as an error type, results
  as sums with a bind, Python dictionaries as insertion-ordered association lists, the
  list idioms of the source (first-seen de-duplication, \<open>max(..., key=...)\<close>, stable
  \<open>sorted(..., key=...)\<close>), and the collections of facts the component proofs use.
\<close>

named_theorems res_simps \<open>evaluation of the result bind and traversal\<close>
named_theorems dict_simps \<open>lookups and updates of insertion-ordered dictionaries\<close>

section \<open>Exceptions and results\<close>

text \<open>
  One constructor per exception class the modelled code raises. Messages are not
  modelled. \<open>IntegrityError\<close> is what the database driver raises when an insert breaks a
  uniqueness constraint; \<open>InvalidOperation\<close> is the decimal signal.
\<close>

datatype error =
    ValueError
  | TypeError
  | KeyError
  | ZeroDivisionError
  | OverflowError
  | InvalidOperation
  | IntegrityError
  | HonestyInvariantError
  | AttributionNotWiredError
  | MetricGrammarError
  | MetricsNotWiredError
  | IngestNotWiredError
  | ProvenanceWarning
  | PredicateValidationError
  | OutcomeRuleSchemaError
  | WebhookSignatureError
  | RuntimeError
  | ManualCsvError
  | AssertionError
  | MultipleResultsFound
  | IndexError
  | BudgetExceededError
  | GateNotApprovedError
  | GroundTruthUnavailableError
  | JudgeNotValidatedError
  | EvalNotWiredError
  | AuthError
  | JobNotFoundError
  | AdminKeyRequiredError
  | ProviderCostApiError
  | CapabilityDeclarationError
  | DuplicateCapabilityError
  | MissingRegisterError
  | UnknownToolError
  | SecretEncounteredError
  | UnsafePredicateError
  | JSONDecodeError
  | UnicodeDecodeError
  | ValidationError
  | GithubScopeError
  | NotImplementedError
  | AttributeError
  | CsvError

type_synonym 'a res = "error + 'a"

definition res_bind :: "'a res \<Rightarrow> ('a \<Rightarrow> 'b res) \<Rightarrow> 'b res" where
  "res_bind m k = (case m of Inl e \<Rightarrow> Inl e | Inr x \<Rightarrow> k x)"

lemma res_bind_simps [simp, res_simps]:
  "res_bind (Inl e) k = Inl e"
  "res_bind (Inr x) k = k x"
  by (simp_all add: res_bind_def)

lemma res_bind_eq_Inr [simp]:
  "res_bind m k = Inr y \<longleftrightarrow> (\<exists>x. m = Inr x \<and> k x = Inr y)"
  by (cases m) auto

lemma res_bind_eq_Inl:
  "res_bind m k = Inl e \<longleftrightarrow> m = Inl e \<or> (\<exists>x. m = Inr x \<and> k x = Inl e)"
  by (cases m) auto

text \<open>A loop that may raise, collecting one result per element.\<close>

fun res_traverse :: "('a \<Rightarrow> 'b res) \<Rightarrow> 'a list \<Rightarrow> 'b list res" where
  "res_traverse f [] = Inr []"
| "res_traverse f (x # xs) =
     res_bind (f x) (\<lambda>y. res_bind (res_traverse f xs) (\<lambda>ys. Inr (y # ys)))"

lemma res_traverse_Inr_iff:
  "res_traverse f xs = Inr ys \<longleftrightarrow> list_all2 (\<lambda>x y. f x = Inr y) xs ys"
proof (induction xs arbitrary: ys)
  case Nil
  then show ?case by auto
next
  case (Cons x xs)
  then show ?case by (cases ys) auto
qed

lemma res_traverse_member:
  "res_traverse f xs = Inr ys \<Longrightarrow> y \<in> set ys \<Longrightarrow> \<exists>x \<in> set xs. f x = Inr y"
  by (induction xs arbitrary: ys) auto

lemma res_traverse_length: "res_traverse f xs = Inr ys \<Longrightarrow> length ys = length xs"
  by (simp add: res_traverse_Inr_iff list_all2_lengthD)

lemma res_traverse_cong_Inr:
  "(\<And>x. x \<in> set xs \<Longrightarrow> f x = Inr (g x)) \<Longrightarrow> res_traverse f xs = Inr (map g xs)"
  by (induction xs) auto

lemma res_traverse_nth:
  "res_traverse f xs = Inr ys \<Longrightarrow> i < length xs \<Longrightarrow> f (xs ! i) = Inr (ys ! i)"
  by (auto simp: res_traverse_Inr_iff list_all2_conv_all_nth)

section \<open>Insertion-ordered dictionaries\<close>

text \<open>
  A Python \<open>dict\<close> keeps the position of a key's first insertion; assigning an existing
  key replaces the value in place.
\<close>

type_synonym ('k, 'v) dict = "('k \<times> 'v) list"

fun dict_set :: "'k \<Rightarrow> 'v \<Rightarrow> ('k, 'v) dict \<Rightarrow> ('k, 'v) dict" where
  "dict_set k v [] = [(k, v)]"
| "dict_set k v ((k', v') # d) =
     (if k = k' then (k, v) # d else (k', v') # dict_set k v d)"

abbreviation dict_get :: "('k, 'v) dict \<Rightarrow> 'k \<Rightarrow> 'v option" where
  "dict_get d k \<equiv> map_of d k"

lemma option_eqI: "(\<And>m. x = Some m \<longleftrightarrow> y = Some m) \<Longrightarrow> x = y"
  by (cases x; cases y) auto

definition dict_ok :: "('k, 'v) dict \<Rightarrow> bool" where
  "dict_ok d \<longleftrightarrow> distinct (map fst d)"

lemma dict_get_set [simp, dict_simps]:
  "dict_get (dict_set k v d) k' = (if k' = k then Some v else dict_get d k')"
  by (induction d) auto

lemma dict_set_keys [simp, dict_simps]:
  "fst ` set (dict_set k v d) = insert k (fst ` set d)"
proof (induction d)
  case (Cons p d)
  then show ?case by (cases p) auto
qed simp

lemma dict_set_ok [simp, dict_simps]: "dict_ok d \<Longrightarrow> dict_ok (dict_set k v d)"
proof (induction d)
  case Nil
  then show ?case by (simp add: dict_ok_def)
next
  case (Cons p d)
  obtain k' v' where p: "p = (k', v')" by (cases p)
  from Cons have "distinct (map fst (dict_set k v d))" by (simp add: dict_ok_def)
  moreover have "k' \<notin> fst ` set d" using Cons.prems p by (auto simp: dict_ok_def)
  ultimately show ?case using Cons.prems p by (auto simp: dict_ok_def)
qed

lemma dict_ok_Nil [simp]: "dict_ok []"
  by (simp add: dict_ok_def)

lemma dict_get_filter_key:
  "dict_get (filter (\<lambda>(k, v). P k) d) c = (if P c then dict_get d c else None)"
  by (induction d) auto

text \<open>Appending to the list kept under a key, as \<open>setdefault(k, []).append(x)\<close> does.\<close>

definition dict_push :: "'k \<Rightarrow> 'v \<Rightarrow> ('k, 'v list) dict \<Rightarrow> ('k, 'v list) dict" where
  "dict_push k x d =
     dict_set k ((case dict_get d k of None \<Rightarrow> [] | Some xs \<Rightarrow> xs) @ [x]) d"

definition dict_at :: "('k, 'v list) dict \<Rightarrow> 'k \<Rightarrow> 'v list" where
  "dict_at d k = (case dict_get d k of None \<Rightarrow> [] | Some xs \<Rightarrow> xs)"

lemma dict_at_push [simp, dict_simps]:
  "dict_at (dict_push k x d) k' = (if k' = k then dict_at d k @ [x] else dict_at d k')"
  by (auto simp: dict_at_def dict_push_def split: option.splits)

lemma dict_push_ok [simp]: "dict_ok d \<Longrightarrow> dict_ok (dict_push k x d)"
  by (simp add: dict_push_def)

lemma dict_push_keys [simp]: "fst ` set (dict_push k x d) = insert k (fst ` set d)"
  by (simp add: dict_push_def)

lemma dict_at_Nil [simp]: "dict_at [] k = []"
  by (simp add: dict_at_def)

lemma dict_ok_get: "dict_ok d \<Longrightarrow> (k, v) \<in> set d \<Longrightarrow> dict_get d k = Some v"
  by (simp add: dict_ok_def)

section \<open>List idioms\<close>

text \<open>\<open>max(xs, key=f)\<close>: the first element among those with the greatest key.\<close>

fun first_max :: "('a \<Rightarrow> 'b::linorder) \<Rightarrow> 'a \<Rightarrow> 'a list \<Rightarrow> 'a" where
  "first_max f best [] = best"
| "first_max f best (x # xs) = first_max f (if f best < f x then x else best) xs"

lemma first_max_in: "first_max f best xs \<in> insert best (set xs)"
  by (induction xs arbitrary: best) auto

lemma first_max_ge: "x \<in> insert best (set xs) \<Longrightarrow> f x \<le> f (first_max f best xs)"
proof (induction xs arbitrary: best x)
  case Nil
  then show ?case by simp
next
  case (Cons y ys)
  let ?b = "if f best < f y then y else best"
  have "f ?b \<le> f (first_max f ?b ys)" by (rule Cons.IH) simp
  moreover have "f best \<le> f ?b" "f y \<le> f ?b" by auto
  moreover have "x \<in> set ys \<Longrightarrow> f x \<le> f (first_max f ?b ys)" by (rule Cons.IH) simp
  ultimately show ?case using Cons.prems by fastforce
qed

lemma first_max_head: "(\<And>x. x \<in> set xs \<Longrightarrow> f x \<le> f best) \<Longrightarrow> first_max f best xs = best"
  by (induction xs) (force simp: not_less)+

text \<open>\<open>min(xs, key=f)\<close>: the first element among those with the least key.\<close>

fun first_min :: "('a \<Rightarrow> 'b::linorder) \<Rightarrow> 'a \<Rightarrow> 'a list \<Rightarrow> 'a" where
  "first_min f best [] = best"
| "first_min f best (x # xs) = first_min f (if f x < f best then x else best) xs"

lemma first_min_in: "first_min f best xs \<in> insert best (set xs)"
  by (induction xs arbitrary: best) auto

lemma first_min_le: "x \<in> insert best (set xs) \<Longrightarrow> f (first_min f best xs) \<le> f x"
proof (induction xs arbitrary: best x)
  case Nil
  then show ?case by simp
next
  case (Cons y ys)
  let ?b = "if f y < f best then y else best"
  have "f (first_min f ?b ys) \<le> f ?b" by (rule Cons.IH) simp
  moreover have "f ?b \<le> f best" "f ?b \<le> f y" by auto
  moreover have "x \<in> set ys \<Longrightarrow> f (first_min f ?b ys) \<le> f x" by (rule Cons.IH) simp
  ultimately show ?case using Cons.prems by fastforce
qed

text \<open>
  Keeping the first occurrence of every key, as the loops over a \<open>seen\<close> set do.
\<close>

fun dedup_by :: "('a \<Rightarrow> 'k) \<Rightarrow> 'k list \<Rightarrow> 'a list \<Rightarrow> 'a list" where
  "dedup_by f seen [] = []"
| "dedup_by f seen (x # xs) =
     (if f x \<in> set seen then dedup_by f seen xs else x # dedup_by f (f x # seen) xs)"

lemma dedup_by_subset: "set (dedup_by f seen xs) \<subseteq> set xs"
  by (induction f seen xs rule: dedup_by.induct) auto

lemma dedup_by_keys: "f ` set (dedup_by f seen xs) = f ` set xs - set seen"
  by (induction f seen xs rule: dedup_by.induct) auto

lemma dedup_by_distinct: "distinct (map f (dedup_by f seen xs))"
proof (induction f seen xs rule: dedup_by.induct)
  case (2 f seen x xs)
  have "f x \<notin> f ` set (dedup_by f (f x # seen) xs)"
    by (simp add: dedup_by_keys)
  with 2 show ?case by auto
qed simp

lemma sum_list_nonneg_le:
  fixes xs :: "'a::ordered_comm_monoid_add list"
  assumes "\<And>x. x \<in> set xs \<Longrightarrow> 0 \<le> x"
  shows "0 \<le> sum_list xs"
  using assms by (simp add: sum_list_nonneg)

lemma sum_list_update:
  fixes xs :: "'a::ab_group_add list"
  assumes "i < length xs"
  shows "sum_list (xs[i := xs ! i + d]) = sum_list xs + d"
  using assms
proof (induction xs arbitrary: i)
  case (Cons x xs)
  then show ?case by (cases i) (auto simp: algebra_simps)
qed simp

lemma abs_sum_list_bound:
  fixes xs :: "'a::linordered_idom list"
  assumes "\<And>x. x \<in> set xs \<Longrightarrow> \<bar>x\<bar> \<le> c"
  shows "\<bar>sum_list xs\<bar> \<le> of_nat (length xs) * c"
  using assms
proof (induction xs)
  case (Cons x xs)
  have "\<bar>x + sum_list xs\<bar> \<le> \<bar>x\<bar> + \<bar>sum_list xs\<bar>" by (rule abs_triangle_ineq)
  also have "\<dots> \<le> c + of_nat (length xs) * c" using Cons by (intro add_mono) auto
  finally show ?case by (simp add: algebra_simps)
qed simp

end
