(* ===== verification/Rounding.thy ===== *)
theory Rounding
  imports Prelude
begin

text \<open>
  The two number systems the source computes in. Money is \<open>decimal.Decimal\<close> under the
  default context (28 significant decimal digits, ties to even); scores and elapsed
  seconds are IEEE doubles (53 significant bits, ties to even). Both are modelled by
  their exact rational value: an operation computes the exact result and rounds it to
  the context's significant digits. The exponent limits of the two formats (decimal
  exponents beyond 999999, doubles beyond 2 to the 1024 or in the subnormal range) are
  not modelled: amounts and times stay far inside them. Infinities and NaN are not
  modelled either; the money fields refuse them at construction.

  The locale \<open>rounding\<close> is what the money and score computations rely on: exactness on
  representable values, monotonicity, oddness and a relative error bound. It is
  interpreted for both contexts.
\<close>

section \<open>Rounding half to even\<close>

definition half_even :: "rat \<Rightarrow> int" where
  "half_even x = (let f = \<lfloor>x\<rfloor>; d = x - of_int f in
     if d < 1 / 2 then f else if d > 1 / 2 then f + 1 else if even f then f else f + 1)"

lemma half_even_of_int [simp]: "half_even (of_int n) = n"
  by (simp add: half_even_def)

lemma half_even_0 [simp]: "half_even 0 = 0"
  by (simp add: half_even_def)

lemma half_even_cases:
  obtains (down) "half_even x = \<lfloor>x\<rfloor>" "x - of_int \<lfloor>x\<rfloor> \<le> 1 / 2"
  | (up) "half_even x = \<lfloor>x\<rfloor> + 1" "1 / 2 \<le> x - of_int \<lfloor>x\<rfloor>"
proof -
  have "half_even x = \<lfloor>x\<rfloor> \<and> x - of_int \<lfloor>x\<rfloor> \<le> 1 / 2
    \<or> half_even x = \<lfloor>x\<rfloor> + 1 \<and> 1 / 2 \<le> x - of_int \<lfloor>x\<rfloor>"
    by (auto simp: half_even_def Let_def)
  then show thesis using down up by blast
qed

lemma half_even_error: "\<bar>of_int (half_even x) - x\<bar> \<le> 1 / 2"
proof -
  have f: "of_int \<lfloor>x\<rfloor> \<le> x" "x < of_int \<lfloor>x\<rfloor> + 1" by linarith+
  show ?thesis by (cases x rule: half_even_cases) (use f in \<open>auto simp: abs_le_iff\<close>)
qed

lemma half_even_mono: "x \<le> y \<Longrightarrow> half_even x \<le> half_even y"
proof -
  assume xy: "x \<le> y"
  have f: "\<lfloor>x\<rfloor> \<le> \<lfloor>y\<rfloor>" using xy by (rule floor_mono)
  have r: "\<lfloor>z\<rfloor> \<le> half_even z" "half_even z \<le> \<lfloor>z\<rfloor> + 1" for z
    by (cases z rule: half_even_cases; simp)+
  show ?thesis
  proof (cases "\<lfloor>x\<rfloor> = \<lfloor>y\<rfloor>")
    case True
    with xy show ?thesis by (auto simp: half_even_def Let_def)
  next
    case False
    with f have "\<lfloor>x\<rfloor> + 1 \<le> \<lfloor>y\<rfloor>" by simp
    with r(2) [of x] r(1) [of y] show ?thesis by linarith
  qed
qed

lemma half_even_ge: "of_int n \<le> x \<Longrightarrow> n \<le> half_even x"
  using half_even_mono [of "of_int n" x] by simp

lemma half_even_le: "x \<le> of_int n \<Longrightarrow> half_even x \<le> n"
  using half_even_mono [of x "of_int n"] by simp

lemma half_even_minus: "half_even (- x) = - half_even x"
proof (cases "x = of_int \<lfloor>x\<rfloor>")
  case True
  then show ?thesis by (metis half_even_of_int of_int_minus)
next
  case False
  define f where "f = \<lfloor>x\<rfloor>"
  have fx: "of_int f < x" "x < of_int f + 1" using False by (simp_all add: f_def) linarith+
  have "\<lfloor>- x\<rfloor> = - f - 1" using fx by (intro floor_unique) auto
  then show ?thesis using fx by (auto simp: half_even_def Let_def f_def [symmetric])
qed

section \<open>Magnitude\<close>

text \<open>The number of base-\<open>b\<close> digits of a natural number, by repeated division.\<close>

fun ndigits :: "nat \<Rightarrow> nat \<Rightarrow> nat" where
  "ndigits b n = (if b < 2 \<or> n < b then 1 else Suc (ndigits b (n div b)))"

declare ndigits.simps [simp del]

lemma ndigits_bounds:
  assumes "2 \<le> b" "0 < n"
  shows "b ^ (ndigits b n - 1) \<le> n \<and> n < b ^ ndigits b n \<and> 0 < ndigits b n"
  using assms
proof (induction b n rule: ndigits.induct)
  case (1 b n)
  show ?case
  proof (cases "n < b")
    case True
    with 1 show ?thesis by (simp add: ndigits.simps [of b n])
  next
    case False
    let ?m = "n div b" and ?k = "ndigits b (n div b)"
    have "0 < ?m" using False 1 by (simp add: div_greater_zero_iff)
    with False 1 have IH: "b ^ (?k - 1) \<le> ?m" "?m < b ^ ?k" "0 < ?k" by auto
    have e: "ndigits b n = Suc ?k" using False 1 by (simp add: ndigits.simps [of b n])
    have "b ^ ?k = b * b ^ (?k - 1)" using IH(3) by (cases ?k) auto
    also have "\<dots> \<le> b * ?m" using IH(1) by simp
    also have "\<dots> \<le> n" by simp
    finally have lo: "b ^ ?k \<le> n" .
    have "n < b * (?m + 1)" using 1 by (simp add: dividend_less_times_div)
    also have "\<dots> \<le> b * b ^ ?k" using IH(2) by (intro mult_le_mono2) simp
    finally have hi: "n < b ^ Suc ?k" by simp
    show ?thesis using lo hi e by simp
  qed
qed

text \<open>The exponent \<open>e\<close> with \<open>b\<close> to the \<open>e\<close> \<open>\<le> \<bar>x\<bar> <\<close> \<open>b\<close> to the \<open>e + 1\<close>.\<close>

definition magnitude :: "nat \<Rightarrow> rat \<Rightarrow> int" where
  "magnitude b x = (if 1 \<le> \<bar>x\<bar> then int (ndigits b (nat \<lfloor>\<bar>x\<bar>\<rfloor>)) - 1
     else - int (ndigits b (nat (\<lceil>1 / \<bar>x\<bar>\<rceil> - 1))))"

lemma magnitude_ge1:
  assumes b: "2 \<le> b" and x: "1 \<le> (x::rat)"
  shows "of_nat b powi (int (ndigits b (nat \<lfloor>x\<rfloor>)) - 1) \<le> x
    \<and> x < of_nat b powi int (ndigits b (nat \<lfloor>x\<rfloor>))"
proof -
  define n where "n = nat \<lfloor>x\<rfloor>"
  have n0: "0 < n" using x by (simp add: n_def)
  have "rat_of_nat n = of_int \<lfloor>x\<rfloor>" using x by (simp add: n_def of_nat_nat)
  then have fl: "rat_of_nat n \<le> x" "x < rat_of_nat (n + 1)" by simp_all linarith+
  from ndigits_bounds [OF b n0] obtain k where k: "ndigits b n = Suc k"
    and lo: "b ^ k \<le> n" and hi: "n + 1 \<le> b ^ Suc k"
    by (cases "ndigits b n") auto
  have "rat_of_nat b ^ k \<le> rat_of_nat n" using lo by (metis of_nat_le_iff of_nat_power)
  moreover have "rat_of_nat (n + 1) \<le> rat_of_nat b ^ Suc k"
    using hi by (metis of_nat_le_iff of_nat_power)
  ultimately have "rat_of_nat b ^ k \<le> x" "x < rat_of_nat b ^ Suc k" using fl by linarith+
  moreover have "rat_of_nat b powi (int (Suc k) - 1) = rat_of_nat b ^ k" by simp
  moreover have "rat_of_nat b powi int (Suc k) = rat_of_nat b ^ Suc k"
    by (rule power_int_of_nat)
  ultimately show ?thesis unfolding n_def [symmetric] k by simp
qed

lemma magnitude_bounds:
  assumes b: "2 \<le> b" and x: "x \<noteq> 0"
  shows "of_nat b powi magnitude b x \<le> \<bar>x\<bar>"
    and "\<bar>x\<bar> < of_nat b powi (magnitude b x + 1)"
proof -
  have "of_nat b powi magnitude b x \<le> \<bar>x\<bar> \<and> \<bar>x\<bar> < of_nat b powi (magnitude b x + 1)"
  proof (cases "1 \<le> \<bar>x\<bar>")
    case True
    with magnitude_ge1 [OF b True] show ?thesis by (simp add: magnitude_def)
  next
    case False
    define y where "y = 1 / \<bar>x\<bar>"
    define n where "n = nat (\<lceil>y\<rceil> - 1)"
    have y1: "1 < y" using False x by (simp add: y_def)
    then have "1 < \<lceil>y\<rceil>" by simp
    then have n: "rat_of_nat n = of_int \<lceil>y\<rceil> - 1" and n0: "0 < n" by (simp_all add: n_def of_nat_nat)
    have fl: "rat_of_nat n < y" "y \<le> rat_of_nat (n + 1)" using n by simp_all linarith+
    from ndigits_bounds [OF b n0] obtain k where k: "ndigits b n = Suc k"
      and lo: "b ^ k \<le> n" and hi: "n + 1 \<le> b ^ Suc k"
      by (cases "ndigits b n") auto
    have "rat_of_nat b ^ k \<le> rat_of_nat n" using lo by (metis of_nat_le_iff of_nat_power)
    moreover have "rat_of_nat (n + 1) \<le> rat_of_nat b ^ Suc k"
      using hi by (metis of_nat_le_iff of_nat_power)
    ultimately have yb: "rat_of_nat b ^ k < y" "y \<le> rat_of_nat b ^ Suc k" using fl by linarith+
    have m: "magnitude b x = - int (Suc k)"
      using False by (simp add: magnitude_def k [symmetric] n_def y_def)
    have bp: "0 < rat_of_nat b ^ j" for j using b by simp
    have ax: "\<bar>x\<bar> = 1 / y" using x by (simp add: y_def)
    have "1 / rat_of_nat b ^ Suc k \<le> 1 / y" using yb y1 by (intro divide_left_mono) (auto simp: bp)
    moreover have "1 / y < 1 / rat_of_nat b ^ k"
      using yb y1 bp [of k] by (intro divide_strict_left_mono) auto
    ultimately show ?thesis
      unfolding m ax by (auto simp: divide_inverse power_int_def power_inverse nat_add_distrib)
  qed
  then show "of_nat b powi magnitude b x \<le> \<bar>x\<bar>" "\<bar>x\<bar> < of_nat b powi (magnitude b x + 1)"
    by auto
qed

lemma magnitude_less:
  assumes b: "2 \<le> b" and "x \<noteq> 0" "y \<noteq> 0" "\<bar>x\<bar> \<le> \<bar>y\<bar>"
  shows "magnitude b x \<le> magnitude b y"
proof (rule ccontr)
  assume "\<not> magnitude b x \<le> magnitude b y"
  then have "magnitude b y + 1 \<le> magnitude b x" by simp
  then have "rat_of_nat b powi (magnitude b y + 1) \<le> rat_of_nat b powi magnitude b x"
    using b by (intro power_int_increasing) auto
  with magnitude_bounds(1) [OF b assms(2)] magnitude_bounds(2) [OF b assms(3)] assms(4)
  show False by linarith
qed

section \<open>Rounding to significant digits\<close>

definition round_sig :: "nat \<Rightarrow> nat \<Rightarrow> rat \<Rightarrow> rat" where
  "round_sig b p x = (if x = 0 then 0 else
     (let s = of_nat b powi (magnitude b x - int p + 1) in of_int (half_even (x / s)) * s))"

definition representable :: "nat \<Rightarrow> nat \<Rightarrow> rat \<Rightarrow> bool" where
  "representable b p x \<longleftrightarrow> (\<exists>n e. \<bar>n\<bar> \<le> int b ^ p \<and> x = of_int n * of_nat b powi e)"

lemma round_sig_0 [simp]: "round_sig b p 0 = 0"
  by (simp add: round_sig_def)

lemma round_sig_minus: "round_sig b p (- x) = - round_sig b p x"
  by (simp add: round_sig_def magnitude_def half_even_minus Let_def)

text \<open>The scaled significand lies between the two powers of the base.\<close>

lemma scaled_bounds:
  assumes b: "2 \<le> b" and p: "1 \<le> p" and x: "0 < x"
  defines "s \<equiv> of_nat b powi (magnitude b x - int p + 1)"
  shows "of_nat b ^ (p - 1) \<le> x / s" "x / s < of_nat b ^ p" "0 < s"
proof -
  have B: "0 < rat_of_nat b" using b by simp
  then show s0: "0 < s" by (simp add: s_def)
  have "rat_of_nat b ^ (p - 1) * s = of_nat b powi magnitude b x"
    using p B unfolding s_def
    by (subst power_int_of_nat [symmetric], subst power_int_add [symmetric]) auto
  moreover have "rat_of_nat b ^ p * s = of_nat b powi (magnitude b x + 1)"
    using B unfolding s_def
    by (subst power_int_of_nat [symmetric], subst power_int_add [symmetric]) auto
  ultimately show "of_nat b ^ (p - 1) \<le> x / s" "x / s < of_nat b ^ p"
    using magnitude_bounds [OF b, of x] x s0 by (simp_all add: pos_le_divide_eq pos_divide_less_eq)
qed

lemma round_sig_bounds:
  assumes b: "2 \<le> b" and p: "1 \<le> p" and x: "0 < x"
  shows "of_nat b powi magnitude b x \<le> round_sig b p x"
    and "round_sig b p x \<le> of_nat b powi (magnitude b x + 1)"
proof -
  let ?s = "of_nat b powi (magnitude b x - int p + 1) :: rat"
  note sb = scaled_bounds [OF b p x]
  have B: "rat_of_nat b \<noteq> 0" using b by simp
  have "int (b ^ (p - 1)) \<le> half_even (x / ?s)" "half_even (x / ?s) \<le> int (b ^ p)"
    using sb by (auto intro!: half_even_ge half_even_le)
  then have le: "rat_of_nat b ^ (p - 1) \<le> of_int (half_even (x / ?s))"
      "of_int (half_even (x / ?s)) \<le> rat_of_nat b ^ p"
    by (metis of_int_le_iff of_int_of_nat_eq of_nat_power)+
  have "of_nat b powi magnitude b x = rat_of_nat b ^ (p - 1) * ?s"
    using p B by (subst power_int_of_nat [symmetric], subst power_int_add [symmetric]) auto
  also have "\<dots> \<le> of_int (half_even (x / ?s)) * ?s"
    using le(1) sb(3) by (intro mult_right_mono) auto
  finally show "of_nat b powi magnitude b x \<le> round_sig b p x"
    using x by (simp add: round_sig_def Let_def)
  have "of_int (half_even (x / ?s)) * ?s \<le> rat_of_nat b ^ p * ?s"
    using le(2) sb(3) by (intro mult_right_mono) auto
  also have "\<dots> = of_nat b powi (magnitude b x + 1)"
    using B by (subst power_int_of_nat [symmetric], subst power_int_add [symmetric]) auto
  finally show "round_sig b p x \<le> of_nat b powi (magnitude b x + 1)"
    using x by (simp add: round_sig_def Let_def)
qed

lemma round_sig_nonneg: "2 \<le> b \<Longrightarrow> 1 \<le> p \<Longrightarrow> 0 \<le> x \<Longrightarrow> 0 \<le> round_sig b p x"
proof (cases "x = 0")
  case False
  assume a: "2 \<le> b" "1 \<le> p" "0 \<le> x"
  have "0 \<le> rat_of_nat b powi magnitude b x" by simp
  also have "\<dots> \<le> round_sig b p x" using a False by (intro round_sig_bounds) auto
  finally show ?thesis .
qed simp

lemma round_sig_mono_pos:
  assumes b: "2 \<le> b" and p: "1 \<le> p" and x: "0 < x" "x \<le> y"
  shows "round_sig b p x \<le> round_sig b p y"
proof -
  have y: "0 < y" using x by simp
  have le: "magnitude b x \<le> magnitude b y" using x y by (intro magnitude_less [OF b]) auto
  show ?thesis
  proof (cases "magnitude b x = magnitude b y")
    case True
    let ?s = "of_nat b powi (magnitude b y - int p + 1) :: rat"
    have s: "0 < ?s" by (rule scaled_bounds [OF b p y])
    have "half_even (x / ?s) \<le> half_even (y / ?s)"
      using x(2) s by (intro half_even_mono divide_right_mono) auto
    then have "of_int (half_even (x / ?s)) * ?s \<le> of_int (half_even (y / ?s)) * ?s"
      using s by (intro mult_right_mono) auto
    then show ?thesis using x y True by (simp add: round_sig_def Let_def)
  next
    case False
    with le have "rat_of_nat b powi (magnitude b x + 1) \<le> rat_of_nat b powi magnitude b y"
      using b by (intro power_int_increasing) auto
    with round_sig_bounds(2) [OF b p x(1)] round_sig_bounds(1) [OF b p y]
    show ?thesis by linarith
  qed
qed

lemma round_sig_mono:
  assumes b: "2 \<le> b" and p: "1 \<le> p" and xy: "x \<le> y"
  shows "round_sig b p x \<le> round_sig b p y"
proof (cases "0 < x")
  case True
  then show ?thesis by (rule round_sig_mono_pos [OF b p _ xy])
next
  case x: False
  have nx: "round_sig b p x \<le> 0"
    using round_sig_nonneg [OF b p, of "- x"] x by (simp add: round_sig_minus)
  show ?thesis
  proof (cases "0 \<le> y")
    case True
    with nx round_sig_nonneg [OF b p, of y] show ?thesis by linarith
  next
    case False
    have "round_sig b p (- y) \<le> round_sig b p (- x)"
      using False xy by (intro round_sig_mono_pos [OF b p]) auto
    then show ?thesis by (simp add: round_sig_minus)
  qed
qed

lemma round_sig_error_pos:
  assumes b: "2 \<le> b" and p: "1 \<le> p" and x: "0 < x"
  shows "\<bar>round_sig b p x - x\<bar> \<le> x * (of_nat b powi (1 - int p) / 2)"
proof -
  let ?s = "of_nat b powi (magnitude b x - int p + 1) :: rat"
  have B: "rat_of_nat b \<noteq> 0" using b by simp
  have s: "0 < ?s" by (rule scaled_bounds [OF b p x])
  have e: "round_sig b p x - x = (of_int (half_even (x / ?s)) - x / ?s) * ?s"
    using x s b by (simp add: round_sig_def Let_def algebra_simps)
  have "\<bar>round_sig b p x - x\<bar> = \<bar>of_int (half_even (x / ?s)) - x / ?s\<bar> * ?s"
    unfolding e using s by (simp add: abs_mult)
  also have "\<dots> \<le> (1 / 2) * ?s"
    using s half_even_error [of "x / ?s"] by (intro mult_right_mono) auto
  also have "?s = of_nat b powi magnitude b x * of_nat b powi (1 - int p)"
    using B by (subst power_int_add [symmetric]) (auto simp: algebra_simps)
  also have "(1 / 2) * \<dots> \<le> (1 / 2) * (x * of_nat b powi (1 - int p))"
    using magnitude_bounds(1) [OF b, of x] x by (intro mult_left_mono mult_right_mono) auto
  finally show ?thesis by simp
qed

lemma round_sig_error:
  assumes b: "2 \<le> b" and p: "1 \<le> p"
  shows "\<bar>round_sig b p x - x\<bar> \<le> \<bar>x\<bar> * (of_nat b powi (1 - int p) / 2)"
proof (cases x "0 :: rat" rule: linorder_cases)
  case less
  have "\<bar>round_sig b p (- x) - (- x)\<bar> \<le> - x * (of_nat b powi (1 - int p) / 2)"
    by (rule round_sig_error_pos [OF b p]) (use less in simp)
  with less show ?thesis by (simp add: round_sig_minus abs_minus_commute)
next
  case greater
  with round_sig_error_pos [OF b p, of x] show ?thesis by simp
qed simp

lemma representable_minus: "representable b p x \<Longrightarrow> representable b p (- x)"
  unfolding representable_def
proof (elim exE conjE)
  fix n e
  assume "\<bar>n\<bar> \<le> int b ^ p" "x = of_int n * of_nat b powi e"
  then have "\<bar>- n\<bar> \<le> int b ^ p \<and> - x = of_int (- n) * of_nat b powi e" by simp
  then show "\<exists>n e. \<bar>n\<bar> \<le> int b ^ p \<and> - x = of_int n * of_nat b powi e" by blast
qed

text \<open>An integer multiple of the scale is left as it is.\<close>

lemma round_sig_multiple:
  assumes "x \<noteq> 0" "x = of_int m * of_nat b powi (magnitude b x - int p + 1)" "b \<noteq> 0"
  shows "round_sig b p x = x"
proof -
  let ?s = "of_nat b powi (magnitude b x - int p + 1) :: rat"
  have s: "?s \<noteq> 0" using assms(3) by simp
  have "x / ?s = of_int m * ?s / ?s" using assms(2) by (rule arg_cong)
  also have "\<dots> = of_int m" using s by (rule nonzero_mult_div_cancel_right)
  finally have "x / ?s = of_int m" .
  then have "half_even (x / ?s) = m" by simp
  with assms show ?thesis by (simp add: round_sig_def Let_def)
qed

lemma round_sig_representable_pos:
  assumes b: "2 \<le> b" and p: "1 \<le> p" and x: "0 < x"
    and n: "\<bar>n\<bar> \<le> int b ^ p" and xe: "x = of_int n * of_nat b powi e"
  shows "round_sig b p x = x"
proof (cases "magnitude b x - int p + 1 \<le> e")
  case True
  define k where "k = nat (e - (magnitude b x - int p + 1))"
  have "rat_of_nat b powi e = of_nat b powi (int k + (magnitude b x - int p + 1))"
    using True by (simp add: k_def)
  also have "\<dots> = of_int (int b ^ k) * of_nat b powi (magnitude b x - int p + 1)"
    using b by (subst power_int_add) auto
  finally have "x = of_int (n * int b ^ k) * of_nat b powi (magnitude b x - int p + 1)"
    using xe by simp
  then show ?thesis using x b by (intro round_sig_multiple [of x "n * int b ^ k"]) auto
next
  case False
  have B: "1 < rat_of_nat b" using b by simp
  have "rat_of_nat b powi (e + int p) \<le> of_nat b powi magnitude b x"
    using False B by (intro power_int_increasing) auto
  also have "\<dots> \<le> x" using magnitude_bounds(1) [OF b, of x] x by simp
  finally have lo: "rat_of_nat b powi (e + int p) \<le> x" .
  have "rat_of_int n \<le> of_int (int b ^ p)" using n by (subst of_int_le_iff) simp
  then have "x \<le> of_nat b ^ p * of_nat b powi e"
    unfolding xe by (intro mult_right_mono) auto
  also have "\<dots> = rat_of_nat b powi (e + int p)" using B by (subst power_int_add) auto
  finally have xq: "x = rat_of_nat b powi (e + int p)" using lo by simp
  have "magnitude b x = e + int p"
  proof (rule antisym)
    show "magnitude b x \<le> e + int p"
    proof (rule ccontr)
      assume "\<not> magnitude b x \<le> e + int p"
      then have "rat_of_nat b powi (e + int p) < of_nat b powi magnitude b x"
        using B by (intro power_int_strict_increasing) auto
      moreover have "of_nat b powi magnitude b x \<le> x"
        using magnitude_bounds(1) [OF b, of x] x by simp
      ultimately show False using xq by linarith
    qed
    show "e + int p \<le> magnitude b x" using False by simp
  qed
  then have "x = of_nat b powi (int (p - 1) + (magnitude b x - int p + 1))"
    using p xq by (simp add: add.commute)
  also have "\<dots> = of_int (int b ^ (p - 1)) * of_nat b powi (magnitude b x - int p + 1)"
    using B by (subst power_int_add) auto
  finally have "x = of_int (int b ^ (p - 1)) * of_nat b powi (magnitude b x - int p + 1)" .
  then show ?thesis using x b by (intro round_sig_multiple [of x "int b ^ (p - 1)"]) auto
qed

lemma round_sig_representable:
  assumes b: "2 \<le> b" and p: "1 \<le> p" and r: "representable b p x"
  shows "round_sig b p x = x"
proof (cases x "0 :: rat" rule: linorder_cases)
  case less
  then have x: "0 < - x" by simp
  from representable_minus [OF r] obtain n e
    where "\<bar>n\<bar> \<le> int b ^ p" "- x = of_int n * of_nat b powi e" by (auto simp: representable_def)
  then have "round_sig b p (- x) = - x" using round_sig_representable_pos [OF b p x] by blast
  then show ?thesis by (simp add: round_sig_minus)
next
  case greater
  with r round_sig_representable_pos [OF b p] show ?thesis by (auto simp: representable_def)
qed simp

section \<open>What the computations rely on\<close>

text \<open>
  \<open>rnd\<close> is the rounding of a number system, \<open>exact\<close> its representable values and \<open>u\<close>
  its unit roundoff.
\<close>

locale rounding =
  fixes rnd :: "rat \<Rightarrow> rat" and exact :: "rat \<Rightarrow> bool" and u :: rat
  assumes rnd_exact: "exact x \<Longrightarrow> rnd x = x"
    and rnd_mono: "x \<le> y \<Longrightarrow> rnd x \<le> rnd y"
    and rnd_minus: "rnd (- x) = - rnd x"
    and rnd_error: "\<bar>rnd x - x\<bar> \<le> \<bar>x\<bar> * u"
    and u_bounds: "0 \<le> u" "u \<le> 1 / 2"
begin

lemma rnd_0 [simp]: "rnd 0 = 0"
  using rnd_error [of 0] by simp

lemma rnd_nonneg: "0 \<le> x \<Longrightarrow> 0 \<le> rnd x"
  using rnd_mono [of 0 x] by simp

lemma rnd_nonpos: "x \<le> 0 \<Longrightarrow> rnd x \<le> 0"
  using rnd_mono [of x 0] by simp

lemma rnd_abs_upper: "\<bar>rnd x\<bar> \<le> 2 * \<bar>x\<bar>"
proof -
  have "\<bar>rnd x\<bar> \<le> \<bar>x\<bar> + \<bar>x\<bar> * u" using rnd_error [of x] by linarith
  also have "\<bar>x\<bar> * u \<le> \<bar>x\<bar> * 1" using u_bounds by (intro mult_left_mono) auto
  finally show ?thesis by simp
qed

lemma rnd_abs_lower: "\<bar>x\<bar> \<le> 2 * \<bar>rnd x\<bar>"
proof -
  have "\<bar>x\<bar> * u \<le> \<bar>x\<bar> * (1 / 2)" using u_bounds by (intro mult_left_mono) auto
  with rnd_error [of x] show ?thesis by linarith
qed

lemma rnd_eq_0_iff [simp]: "rnd x = 0 \<longleftrightarrow> x = 0"
  using rnd_abs_lower [of x] by auto

lemma rnd_pos: "0 < x \<Longrightarrow> 0 < rnd x"
  using rnd_nonneg [of x] by (simp add: order.order_iff_strict)

text \<open>A running total, each addition rounded, as \<open>sum(xs, zero)\<close> computes it.\<close>

lemma rnd_foldl_nonneg:
  "0 \<le> a \<Longrightarrow> (\<And>x. x \<in> set xs \<Longrightarrow> 0 \<le> x) \<Longrightarrow> 0 \<le> foldl (\<lambda>t x. rnd (t + x)) a xs"
proof (induction xs arbitrary: a)
  case (Cons x xs)
  have "0 \<le> rnd (a + x)" using Cons.prems by (intro rnd_nonneg) auto
  then show ?case using Cons by simp
qed simp

lemma rnd_foldl_ge:
  assumes "exact a" "\<And>z. exact (rnd z)" "0 \<le> a" "\<And>x. x \<in> set xs \<Longrightarrow> 0 \<le> x"
  shows "a \<le> foldl (\<lambda>t x. rnd (t + x)) a xs"
  using assms
proof (induction xs arbitrary: a)
  case (Cons x xs)
  have "a = rnd a" using Cons.prems by (simp add: rnd_exact)
  also have "\<dots> \<le> rnd (a + x)" using Cons.prems by (intro rnd_mono) auto
  also have "\<dots> \<le> foldl (\<lambda>t x. rnd (t + x)) (rnd (a + x)) xs"
    using Cons.prems by (intro Cons.IH) (auto intro: rnd_nonneg)
  finally show ?case by simp
qed simp

text \<open>When every running total is representable, the rounded sum is the exact sum.\<close>

lemma rnd_foldl_exact:
  assumes "\<And>k. k \<le> length xs \<Longrightarrow> exact (a + sum_list (take k xs))"
  shows "foldl (\<lambda>t x. rnd (t + x)) a xs = a + sum_list xs"
  using assms
proof (induction xs arbitrary: a)
  case (Cons x xs)
  have "exact (a + x)" using Cons.prems [of 1] by simp
  then have "rnd (a + x) = a + x" by (rule rnd_exact)
  moreover have "exact (a + x + sum_list (take k xs))" if "k \<le> length xs" for k
    using Cons.prems [of "Suc k"] that by (simp add: add.assoc)
  then have "foldl (\<lambda>t x. rnd (t + x)) (a + x) xs = a + x + sum_list xs" by (rule Cons.IH)
  ultimately show ?case by (simp add: add.assoc)
qed simp

end

section \<open>Decimal\<close>

abbreviation dec_prec :: nat where "dec_prec \<equiv> 28"

definition dec :: "rat \<Rightarrow> rat" where
  "dec x = round_sig 10 dec_prec x"

definition dec_exact :: "rat \<Rightarrow> bool" where
  "dec_exact x \<longleftrightarrow> representable 10 dec_prec x"

definition dec_u :: rat where
  "dec_u = 10 powi (1 - int dec_prec) / 2"

interpretation dec: rounding dec dec_exact dec_u
proof
  show "dec x = x" if "dec_exact x" for x
    using that by (simp add: dec_def dec_exact_def round_sig_representable)
  show "dec x \<le> dec y" if "x \<le> y" for x y
    using that by (simp add: dec_def round_sig_mono)
  show "dec (- x) = - dec x" for x by (simp add: dec_def round_sig_minus)
  show "\<bar>dec x - x\<bar> \<le> \<bar>x\<bar> * dec_u" for x
    using round_sig_error [of 10 dec_prec x] by (simp add: dec_def dec_u_def)
  show "0 \<le> dec_u" "dec_u \<le> 1 / 2" by (simp_all add: dec_u_def power_int_def power_le_one)
qed

lemma representable_round_sig:
  assumes b: "2 \<le> b" and p: "1 \<le> p"
  shows "representable b p (round_sig b p x)"
proof (cases "x = 0")
  case True
  then show ?thesis by (auto simp: representable_def intro: exI [of _ 0])
next
  case False
  have pos: "representable b p (round_sig b p y)" if y: "0 < y" for y
  proof -
    let ?s = "of_nat b powi (magnitude b y - int p + 1) :: rat"
    note sb = scaled_bounds [OF b p y]
    have "0 \<le> y / ?s" using y sb(3) by simp
    then have lo: "0 \<le> half_even (y / ?s)" using half_even_ge [of 0 "y / ?s"] by simp
    have hi: "half_even (y / ?s) \<le> int b ^ p" using sb(2) by (intro half_even_le) simp
    have "round_sig b p y = of_int (half_even (y / ?s)) * ?s"
      using y by (simp add: round_sig_def Let_def)
    moreover have "\<bar>half_even (y / ?s)\<bar> \<le> int b ^ p" using lo hi by simp
    ultimately show ?thesis unfolding representable_def by blast
  qed
  show ?thesis
  proof (cases "0 < x")
    case True
    then show ?thesis by (rule pos)
  next
    case F: False
    with False have "representable b p (round_sig b p (- x))" by (intro pos) simp
    then show ?thesis using representable_minus by (fastforce simp: round_sig_minus)
  qed
qed

lemma dec_exact_dec [simp]: "dec_exact (dec x)"
  by (simp add: dec_exact_def dec_def representable_round_sig)

lemma dec_dec [simp]: "dec (dec x) = dec x"
  by (simp add: dec.rnd_exact)

text \<open>An integer multiple of ten to the minus \<open>k\<close> below 28 digits is exact.\<close>

lemma dec_exact_scaled: "\<bar>n\<bar> \<le> 10 ^ 28 \<Longrightarrow> dec_exact (of_int n / 10 ^ k)"
  unfolding dec_exact_def representable_def
  by (intro exI [of _ n] exI [of _ "- int k"]) (simp add: power_int_minus divide_inverse)

lemma dec_exact_int: "\<bar>n\<bar> \<le> 10 ^ 28 \<Longrightarrow> dec_exact (of_int n)"
  using dec_exact_scaled [of n 0] by simp

text \<open>Arithmetic of the default context, and the comparison-free helpers of the source.\<close>

definition dadd :: "rat \<Rightarrow> rat \<Rightarrow> rat" where "dadd x y = dec (x + y)"
definition dsub :: "rat \<Rightarrow> rat \<Rightarrow> rat" where "dsub x y = dec (x - y)"
definition dmul :: "rat \<Rightarrow> rat \<Rightarrow> rat" where "dmul x y = dec (x * y)"
definition ddiv :: "rat \<Rightarrow> rat \<Rightarrow> rat" where "ddiv x y = dec (x / y)"

definition dsum :: "rat list \<Rightarrow> rat" where
  "dsum xs = foldl dadd 0 xs"

text \<open>
  \<open>x.quantize(Decimal("1E-k"), ROUND_HALF_EVEN)\<close>: the coefficient of the result must fit
  the context precision, otherwise the operation is invalid.
\<close>

definition quantize :: "nat \<Rightarrow> rat \<Rightarrow> rat res" where
  "quantize k x = (let c = half_even (x * 10 ^ k) in
     if 10 ^ dec_prec \<le> \<bar>c\<bar> then Inl InvalidOperation else Inr (of_int c / 10 ^ k))"

text \<open>\<open>quantized k x\<close>: the amount has at most \<open>k\<close> decimal places.\<close>

definition quantized :: "nat \<Rightarrow> rat \<Rightarrow> bool" where
  "quantized k x \<longleftrightarrow> (\<exists>n::int. x = of_int n / 10 ^ k)"

lemma quantizedE:
  assumes "quantized k x" obtains n where "x = of_int n / 10 ^ k"
  using assms by (auto simp: quantized_def)

lemma quantized_add: "quantized k x \<Longrightarrow> quantized k y \<Longrightarrow> quantized k (x + y)"
  unfolding quantized_def by (metis add_divide_distrib of_int_add)

lemma quantized_diff: "quantized k x \<Longrightarrow> quantized k y \<Longrightarrow> quantized k (x - y)"
  unfolding quantized_def by (metis diff_divide_distrib of_int_diff)

lemma quantized_0 [simp]: "quantized k 0"
  unfolding quantized_def by (rule exI [of _ 0]) simp

lemma quantized_sum_list: "(\<And>x. x \<in> set xs \<Longrightarrow> quantized k x) \<Longrightarrow> quantized k (sum_list xs)"
  by (induction xs) (auto intro: quantized_add)

lemma quantize_quantized: "quantize k x = Inr y \<Longrightarrow> quantized k y"
  by (auto simp: quantize_def quantized_def Let_def split: if_splits)

lemma quantize_error: "quantize k x = Inr y \<Longrightarrow> \<bar>y - x\<bar> \<le> 1 / (2 * 10 ^ k)"
proof -
  assume "quantize k x = Inr y"
  then have y: "y = of_int (half_even (x * 10 ^ k)) / 10 ^ k"
    by (auto simp: quantize_def Let_def split: if_splits)
  have "y - x = (of_int (half_even (x * 10 ^ k)) - x * 10 ^ k) / 10 ^ k"
    by (simp add: y diff_divide_distrib)
  then have "\<bar>y - x\<bar> = \<bar>of_int (half_even (x * 10 ^ k)) - x * 10 ^ k\<bar> / 10 ^ k"
    by simp
  also have "\<dots> \<le> (1 / 2) / 10 ^ k"
    by (intro divide_right_mono half_even_error) simp
  finally show ?thesis by simp
qed

lemma quantize_small: "\<bar>x * 10 ^ k\<bar> < 10 ^ 27 \<Longrightarrow> \<exists>y. quantize k x = Inr y"
proof -
  assume a: "\<bar>x * 10 ^ k\<bar> < 10 ^ 27"
  then have "- (10 ^ 27) \<le> half_even (x * 10 ^ k)" "half_even (x * 10 ^ k) \<le> 10 ^ 27"
    using half_even_ge [of "- (10 ^ 27)" "x * 10 ^ k"] half_even_le [of "x * 10 ^ k" "10 ^ 27"]
    by (simp_all add: abs_less_iff)
  then have "\<not> 10 ^ 28 \<le> \<bar>half_even (x * 10 ^ k)\<bar>" by (simp add: abs_le_iff)
  then show ?thesis by (simp add: quantize_def Let_def)
qed

lemma quantized_exact:
  assumes "quantized k x" "\<bar>x\<bar> * 10 ^ k \<le> 10 ^ 28"
  shows "dec_exact x"
proof -
  from assms(1) obtain n where x: "x = of_int n / 10 ^ k" by (rule quantizedE)
  from assms(2) have "rat_of_int \<bar>n\<bar> \<le> of_int (10 ^ 28)" by (simp add: x)
  then have "\<bar>n\<bar> \<le> 10 ^ 28" by (simp only: of_int_le_iff)
  then show ?thesis unfolding x by (rule dec_exact_scaled)
qed

section \<open>Double\<close>

definition dbl :: "rat \<Rightarrow> rat" where
  "dbl x = round_sig 2 53 x"

interpretation dbl: rounding dbl "representable 2 53" "2 powi (1 - 53) / 2"
proof
  show "dbl x = x" if "representable 2 53 x" for x
    using that by (simp add: dbl_def round_sig_representable)
  show "dbl x \<le> dbl y" if "x \<le> y" for x y
    using that by (simp add: dbl_def round_sig_mono)
  show "dbl (- x) = - dbl x" for x by (simp add: dbl_def round_sig_minus)
  show "\<bar>dbl x - x\<bar> \<le> \<bar>x\<bar> * (2 powi (1 - 53) / 2)" for x
    using round_sig_error [of 2 53 x] by (simp add: dbl_def)
  show "0 \<le> (2 powi (1 - 53) / 2 :: rat)" "(2 powi (1 - 53) / 2 :: rat) \<le> 1 / 2"
    by (simp_all add: power_int_def power_le_one)
qed

end
