(* ===== verification/Core_Types.thy ===== *)
theory Core_Types
  imports Rounding
begin

text \<open>
  The typed spine (\<open>packages/core\<close>): the closed vocabularies of \<open>enums.py\<close>, the frozen
  domain models with their construction-time validators, the conservative rollup
  (\<open>rollup.py\<close>), the token vector (\<open>tokens.py\<close>) and the price book (\<open>pricing.py\<close>).

  A model's constructor is a function into \<open>res\<close>: it returns the record, or the error
  the pydantic validator raises. Identifiers are strings, a tenant id is the canonical
  text of its UUID, an instant is the number of microseconds since the epoch (the
  resolution of \<open>datetime\<close>), a duration a number of microseconds, money a rational
  (see \<open>Rounding\<close>), a JSON document a value of \<open>json\<close>.
\<close>

section \<open>Vocabularies\<close>

datatype provenance = Measured | Estimated | Allocated | ProviderReconciled | ManualReconciled

datatype binding_tier = Exact | Deterministic | Candidate | Likely

datatype signal_class = ActionAttempted | OutcomeConfirmed | OutcomeRetracted

datatype causal_evidence = Observational | Holdout | Randomized

datatype capture_granularity = PerAttempt | PerCall

datatype confidence_label = High | Medium | Low | Advisory

datatype allocation_tier = Direct | SharedProportional | FixedOverhead

datatype reconciliation_state = StateProviderReconciled | StateProvisional | StateEstimateOnly

datatype eval_grade = Reliable | Directional

datatype label_source = OutcomeLabel | HumanLabeled | LlmJudge | Reference

datatype token_class = InputUncached | CacheRead | CacheWrite5m | CacheWrite1h | Output | Reasoning

type_synonym tenant_id = string
type_synonym run_id = string
type_synonym outcome_id = string
type_synonym instant = int
type_synonym duration = int
type_synonym entity_key = "string \<times> string"
type_synonym match_key = "string \<times> string \<times> string \<times> string \<times> string"

datatype json =
    JNull
  | JBool bool
  | JInt int
  | JFloat rat
  | JStr string
  | JList "json list"
  | JObj "(string \<times> json) list"

section \<open>The order of trust\<close>

text \<open>\<open>_TIER_ORDER\<close>: least trusted first. The index is the key \<open>min\<close> compares.\<close>

fun tier_index :: "binding_tier \<Rightarrow> nat" where
  "tier_index Likely = 0"
| "tier_index Candidate = 1"
| "tier_index Deterministic = 2"
| "tier_index Exact = 3"

lemma tier_index_inj: "tier_index s = tier_index t \<longleftrightarrow> s = t"
  by (cases s; cases t) auto

instantiation binding_tier :: linorder
begin

definition less_eq_binding_tier :: "binding_tier \<Rightarrow> binding_tier \<Rightarrow> bool" where
  "less_eq_binding_tier s t \<longleftrightarrow> tier_index s \<le> tier_index t"

definition less_binding_tier :: "binding_tier \<Rightarrow> binding_tier \<Rightarrow> bool" where
  "less_binding_tier s t \<longleftrightarrow> tier_index s < tier_index t"

instance
  by standard (auto simp: less_eq_binding_tier_def less_binding_tier_def tier_index_inj)

end

lemmas tier_order_defs = less_eq_binding_tier_def less_binding_tier_def

text \<open>\<open>_CAUSAL_ORDER\<close> of the metrics package: weakest first.\<close>

fun causal_index :: "causal_evidence \<Rightarrow> nat" where
  "causal_index Observational = 0"
| "causal_index Holdout = 1"
| "causal_index Randomized = 2"

lemma causal_index_inj: "causal_index s = causal_index t \<longleftrightarrow> s = t"
  by (cases s; cases t) auto

instantiation causal_evidence :: linorder
begin

definition less_eq_causal_evidence :: "causal_evidence \<Rightarrow> causal_evidence \<Rightarrow> bool" where
  "less_eq_causal_evidence s t \<longleftrightarrow> causal_index s \<le> causal_index t"

definition less_causal_evidence :: "causal_evidence \<Rightarrow> causal_evidence \<Rightarrow> bool" where
  "less_causal_evidence s t \<longleftrightarrow> causal_index s < causal_index t"

instance
  by standard (auto simp: less_eq_causal_evidence_def less_causal_evidence_def causal_index_inj)

end

lemmas causal_order_defs = less_eq_causal_evidence_def less_causal_evidence_def

section \<open>Token vector\<close>

record token_vector =
  tv_input_uncached :: int
  tv_cache_read :: int
  tv_cache_write_5m :: int
  tv_cache_write_1h :: int
  tv_output :: int
  tv_reasoning :: int

definition token_vector_new ::
  "int \<Rightarrow> int \<Rightarrow> int \<Rightarrow> int \<Rightarrow> int \<Rightarrow> int \<Rightarrow> token_vector res" where
  "token_vector_new iu cr c5 c1 out reas =
     (if iu < 0 \<or> cr < 0 \<or> c5 < 0 \<or> c1 < 0 \<or> out < 0 \<or> reas < 0 then Inl ValueError
      else if out < reas then Inl ValueError
      else Inr \<lparr>tv_input_uncached = iu, tv_cache_read = cr, tv_cache_write_5m = c5,
                tv_cache_write_1h = c1, tv_output = out, tv_reasoning = reas\<rparr>)"

definition total_input :: "token_vector \<Rightarrow> int" where
  "total_input t =
     tv_input_uncached t + tv_cache_read t + tv_cache_write_5m t + tv_cache_write_1h t"

definition from_provider ::
  "int \<Rightarrow> int \<Rightarrow> int \<Rightarrow> int \<Rightarrow> int \<Rightarrow> int \<Rightarrow> token_vector res" where
  "from_provider tot cr c5 c1 out reas =
     (let cache_total = cr + c5 + c1 in
      if tot < cache_total then Inl ValueError
      else token_vector_new (tot - cache_total) cr c5 c1 out reas)"

text \<open>The invariants of a token vector.\<close>

definition token_vector_ok :: "token_vector \<Rightarrow> bool" where
  "token_vector_ok t \<longleftrightarrow>
     0 \<le> tv_input_uncached t \<and> 0 \<le> tv_cache_read t \<and> 0 \<le> tv_cache_write_5m t \<and>
     0 \<le> tv_cache_write_1h t \<and> 0 \<le> tv_reasoning t \<and> tv_reasoning t \<le> tv_output t"

lemma token_vector_new_Inr_iff:
  "token_vector_new iu cr c5 c1 out reas = Inr t \<longleftrightarrow>
     token_vector_ok t \<and>
     t = \<lparr>tv_input_uncached = iu, tv_cache_read = cr, tv_cache_write_5m = c5,
          tv_cache_write_1h = c1, tv_output = out, tv_reasoning = reas\<rparr>"
  by (auto simp: token_vector_new_def token_vector_ok_def)

section \<open>Provenance label\<close>

record provenance_label =
  pl_provenance :: provenance
  pl_record_id :: "string option"
  pl_note :: "string option"

definition reconciled_provenance :: "provenance \<Rightarrow> bool" where
  "reconciled_provenance p \<longleftrightarrow> p = ProviderReconciled \<or> p = ManualReconciled"

definition provenance_label_new ::
  "provenance \<Rightarrow> string option \<Rightarrow> string option \<Rightarrow> provenance_label res" where
  "provenance_label_new p r note =
     (if reconciled_provenance p \<and> r = None then Inl ValueError
      else if \<not> reconciled_provenance p \<and> r \<noteq> None then Inl ValueError
      else Inr \<lparr>pl_provenance = p, pl_record_id = r, pl_note = note\<rparr>)"

section \<open>Cost events, runs, outcomes\<close>

record cost_event =
  ce_tenant_id :: tenant_id
  ce_id :: string
  ce_run_id :: run_id
  ce_attempt_id :: string
  ce_provider :: string
  ce_model :: string
  ce_tokens :: token_vector
  ce_granularity :: capture_granularity
  ce_provenance :: provenance_label
  ce_cost_usd :: "rat option"
  ce_is_streaming :: bool
  ce_partial_recovered :: bool
  ce_billing_uncertain_abort :: bool
  ce_provenance_warnings :: "string list"
  ce_occurred_at :: instant
  ce_latency_ms :: "int option"

definition cost_idempotency_key :: "cost_event \<Rightarrow> run_id \<times> string" where
  "cost_idempotency_key e = (ce_run_id e, ce_attempt_id e)"

record run =
  run_tenant_id :: tenant_id
  run_id :: run_id
  run_agent_name :: "string option"
  run_started_at :: instant
  run_ended_at :: "instant option"
  run_entity_keys :: "entity_key list"
  run_experiment :: "string option"
  run_variant :: "string option"
  run_app :: "string option"

record outcome_binding =
  ob_run_id :: "run_id option"
  ob_tier :: "binding_tier option"
  ob_bound_by :: "string option"
  ob_causal_evidence :: causal_evidence

text \<open>\<open>OutcomeBinding(run_id, tier, bound_by)\<close>: the causal evidence defaults to observational.\<close>

definition outcome_binding_default ::
  "run_id option \<Rightarrow> binding_tier option \<Rightarrow> string option \<Rightarrow> outcome_binding" where
  "outcome_binding_default r t b =
     \<lparr>ob_run_id = r, ob_tier = t, ob_bound_by = b, ob_causal_evidence = Observational\<rparr>"

record outcome_event =
  oe_tenant_id :: tenant_id
  oe_id :: outcome_id
  oe_name :: string
  oe_signal_class :: signal_class
  oe_value :: "rat option"
  oe_occurred_at :: instant
  oe_binding :: outcome_binding
  oe_entity_keys :: "entity_key list"
  oe_correlation_id :: "string option"
  oe_source :: string
  oe_raw :: "(string \<times> json) list"

datatype outcome_key = ByCorrelation string | BySource string outcome_id

definition outcome_idempotency_key :: "outcome_event \<Rightarrow> outcome_key" where
  "outcome_idempotency_key e =
     (case oe_correlation_id e of Some c \<Rightarrow> ByCorrelation c | None \<Rightarrow> BySource (oe_source e) (oe_id e))"

section \<open>Attribution results\<close>

record attribution_candidate =
  ac_run_id :: run_id
  ac_tier :: binding_tier
  ac_score :: rat
  ac_rationale :: string

record attribution_result =
  ar_tenant_id :: tenant_id
  ar_outcome_id :: outcome_id
  ar_run_id :: "run_id option"
  ar_tier :: "binding_tier option"
  ar_bound_by :: "string option"
  ar_candidates :: "attribution_candidate list"
  ar_review_required :: bool

definition billing_grade_tier :: "binding_tier \<Rightarrow> bool" where
  "billing_grade_tier t \<longleftrightarrow> t = Exact \<or> t = Deterministic"

definition is_billing_grade_result :: "attribution_result \<Rightarrow> bool" where
  "is_billing_grade_result r =
     (case ar_tier r of None \<Rightarrow> False | Some t \<Rightarrow> billing_grade_tier t)"

lemma billing_grade_tier_iff: "billing_grade_tier t \<longleftrightarrow> Deterministic \<le> t"
  by (cases t) (auto simp: billing_grade_tier_def tier_order_defs)

section \<open>Rollup confidence\<close>

record rollup_confidence =
  rc_minimum_tier :: binding_tier
  rc_distribution :: "(binding_tier, int) dict"

fun least_trusted :: "binding_tier list \<Rightarrow> binding_tier res" where
  "least_trusted [] = Inl ValueError"
| "least_trusted (t # ts) = Inr (first_min tier_index t ts)"

definition rollup_confidence_new ::
  "binding_tier \<Rightarrow> (binding_tier, int) dict \<Rightarrow> rollup_confidence res" where
  "rollup_confidence_new m distr =
     (let present = map fst (filter (\<lambda>(t, n). 0 < n) distr) in
      if present = [] then Inl ValueError
      else res_bind (least_trusted present) (\<lambda>expected.
        if m \<noteq> expected then Inl ValueError
        else Inr \<lparr>rc_minimum_tier = m, rc_distribution = distr\<rparr>))"

definition count_tiers :: "binding_tier list \<Rightarrow> (binding_tier, int) dict" where
  "count_tiers ts = foldl (\<lambda>d t. dict_set t ((case dict_get d t of None \<Rightarrow> 0 | Some n \<Rightarrow> n) + 1) d) [] ts"

definition propagate :: "binding_tier list \<Rightarrow> rollup_confidence res" where
  "propagate ts =
     (if ts = [] then Inl ValueError
      else res_bind (least_trusted ts) (\<lambda>m. rollup_confidence_new m (count_tiers ts)))"

definition rollup_confidence_ok :: "rollup_confidence \<Rightarrow> bool" where
  "rollup_confidence_ok c \<longleftrightarrow>
     (\<exists>n. (rc_minimum_tier c, n) \<in> set (rc_distribution c) \<and> 0 < n) \<and>
     (\<forall>(t, n) \<in> set (rc_distribution c). 0 < n \<longrightarrow> rc_minimum_tier c \<le> t)"

lemma least_trusted_Inr:
  "least_trusted ts = Inr m \<Longrightarrow> m \<in> set ts \<and> (\<forall>t \<in> set ts. m \<le> t)"
proof (cases ts)
  case (Cons t ts')
  assume "least_trusted ts = Inr m"
  with Cons have m: "m = first_min tier_index t ts'" by simp
  show ?thesis
    using first_min_in [of tier_index t ts'] first_min_le [of _ t ts' tier_index]
    by (auto simp: m Cons tier_order_defs)
qed simp

lemma least_trusted_eq_Min: "ts \<noteq> [] \<Longrightarrow> least_trusted ts = Inr (Min (set ts))"
proof -
  assume "ts \<noteq> []"
  then obtain m where m: "least_trusted ts = Inr m" by (cases ts) auto
  from least_trusted_Inr [OF m] have "m = Min (set ts)" by (intro Min_eqI [symmetric]) auto
  with m show ?thesis by simp
qed

text \<open>A constructed confidence satisfies its invariant, and exactly those are constructed.\<close>

lemma rollup_confidence_new_Inr_iff:
  "rollup_confidence_new m distr = Inr c \<longleftrightarrow>
     c = \<lparr>rc_minimum_tier = m, rc_distribution = distr\<rparr> \<and> rollup_confidence_ok c"
proof -
  let ?p = "map fst (filter (\<lambda>(t, n). 0 < n) distr)"
  have set_p: "set ?p = {t. \<exists>n. (t, n) \<in> set distr \<and> 0 < n}" by force
  show ?thesis
  proof (cases "?p = []")
    case True
    then have "\<not> (\<exists>t n. (t, n) \<in> set distr \<and> 0 < n)"
      by (metis (mono_tags, lifting) set_p empty_set mem_Collect_eq empty_iff)
    with True show ?thesis
      by (auto simp: rollup_confidence_new_def Let_def rollup_confidence_ok_def)
  next
    case False
    then have e: "rollup_confidence_new m distr =
        (if m \<noteq> Min (set ?p) then Inl ValueError
         else Inr \<lparr>rc_minimum_tier = m, rc_distribution = distr\<rparr>)"
      unfolding rollup_confidence_new_def Let_def least_trusted_eq_Min [OF False]
      by (simp only: if_False res_bind_simps)
    have "m = Min (set ?p) \<longleftrightarrow> m \<in> set ?p \<and> (\<forall>t \<in> set ?p. m \<le> t)"
      using False by (metis List.finite_set Min_eqI Min_in Min_le set_empty)
    also have "\<dots> \<longleftrightarrow> rollup_confidence_ok \<lparr>rc_minimum_tier = m, rc_distribution = distr\<rparr>"
      unfolding set_p rollup_confidence_ok_def by fastforce
    finally show ?thesis unfolding e by auto
  qed
qed

lemma count_tiers_get:
  "dict_get (count_tiers ts) t = (if t \<in> set ts then Some (int (count_list ts t)) else None)"
proof (induction ts rule: rev_induct)
  case (snoc x xs)
  then show ?case by (auto simp: count_tiers_def count_list_append)
qed (simp add: count_tiers_def)

lemma count_tiers_ok: "dict_ok (count_tiers ts)"
  by (induction ts rule: rev_induct) (simp_all add: count_tiers_def)

lemma count_tiers_mem:
  "(t, n) \<in> set (count_tiers ts) \<longleftrightarrow> t \<in> set ts \<and> n = int (count_list ts t)"
proof -
  have "(t, n) \<in> set (count_tiers ts) \<longleftrightarrow> dict_get (count_tiers ts) t = Some n"
    using dict_ok_get [OF count_tiers_ok] map_of_SomeD by metis
  then show ?thesis unfolding count_tiers_get by auto
qed

lemma propagate_nonempty:
  assumes "ts \<noteq> []"
  shows "propagate ts = Inr \<lparr>rc_minimum_tier = Min (set ts), rc_distribution = count_tiers ts\<rparr>"
proof -
  have "0 < count_list ts t" if "t \<in> set ts" for t
    using that count_list_0_iff [of ts t] by simp
  then have "rollup_confidence_ok \<lparr>rc_minimum_tier = Min (set ts), rc_distribution = count_tiers ts\<rparr>"
    using assms by (auto simp: rollup_confidence_ok_def count_tiers_mem)
  then show ?thesis
    using assms by (simp add: propagate_def least_trusted_eq_Min rollup_confidence_new_Inr_iff)
qed

text \<open>\<open>compose_label\<close>: the weakest contributing axis decides the displayed label.\<close>

definition compose_label ::
  "provenance list \<Rightarrow> binding_tier list \<Rightarrow> signal_class list \<Rightarrow> eval_grade option \<Rightarrow> confidence_label" where
  "compose_label ps ts sigs grade =
     (if grade = Some Directional then Low
      else if Estimated \<in> set ps \<or> Likely \<in> set ts then Low
      else if Allocated \<in> set ps \<or> Candidate \<in> set ts then Medium
      else High)"

fun label_index :: "confidence_label \<Rightarrow> nat" where
  "label_index Advisory = 0"
| "label_index Low = 1"
| "label_index Medium = 2"
| "label_index High = 3"

record run_cost_rollup =
  rr_tenant_id :: tenant_id
  rr_run_id :: run_id
  rr_total_cost_usd :: rat
  rr_by_token_class :: "(token_class, rat) dict"
  rr_provenance_breakdown :: "(provenance, rat) dict"
  rr_confidence :: rollup_confidence

section \<open>Reconciliation and allocation models\<close>

record reconciliation_record =
  rec_tenant_id :: tenant_id
  rec_id :: string
  rec_match_key :: match_key
  rec_estimated_total :: rat
  rec_billed_total :: rat
  rec_proration_factor :: rat
  rec_drift_pct :: rat
  rec_drift_cause_ranked :: "string list"
  rec_created_at :: instant

record provenance_breakdown =
  pb_reconciled_usd :: rat
  pb_provisional_usd :: rat
  pb_estimate_only_usd :: rat

definition total_usd :: "provenance_breakdown \<Rightarrow> rat" where
  "total_usd b = dadd (dadd (pb_reconciled_usd b) (pb_provisional_usd b)) (pb_estimate_only_usd b)"

definition pct_reconciled :: "provenance_breakdown \<Rightarrow> rat" where
  "pct_reconciled b =
     (let t = total_usd b in if t = 0 then 0 else dmul (ddiv (pb_reconciled_usd b) t) 100)"

record drift_alert =
  da_match_key :: match_key
  da_drift_pct :: rat
  da_ranked_causes :: "string list"

definition drift_alert_new :: "match_key \<Rightarrow> rat \<Rightarrow> string list \<Rightarrow> drift_alert res" where
  "drift_alert_new k d causes =
     (if causes = [] then Inl ValueError
      else Inr \<lparr>da_match_key = k, da_drift_pct = d, da_ranked_causes = causes\<rparr>)"

record allocated_line =
  al_tier :: allocation_tier
  al_label :: provenance
  al_amount_usd :: rat
  al_allocation_key :: "string option"
  al_confidence :: confidence_label
  al_sensitivity_pct :: "rat option"
  al_rule_version :: "string option"
  al_quarantined :: bool

text \<open>\<open>AllocatedLine._tier_label_consistency\<close>, in the order of its checks.\<close>

definition allocated_line_check :: "allocated_line \<Rightarrow> allocated_line res" where
  "allocated_line_check l =
     (if al_tier l = Direct \<and> al_label l \<noteq> Measured then Inl ValueError
      else if al_tier l \<noteq> Direct \<and> al_label l \<noteq> Allocated then Inl ValueError
      else if al_tier l = SharedProportional \<and> al_allocation_key l = None then Inl ValueError
      else if al_quarantined l \<noteq> (al_tier l = FixedOverhead) then Inl ValueError
      else Inr l)"

definition allocated_line_ok :: "allocated_line \<Rightarrow> bool" where
  "allocated_line_ok l \<longleftrightarrow>
     (al_label l = (if al_tier l = Direct then Measured else Allocated)) \<and>
     (al_tier l = SharedProportional \<longrightarrow> al_allocation_key l \<noteq> None) \<and>
     (al_quarantined l \<longleftrightarrow> al_tier l = FixedOverhead)"

lemma allocated_line_check_Inr_iff:
  "allocated_line_check l = Inr l' \<longleftrightarrow> l' = l \<and> allocated_line_ok l"
  by (cases "al_tier l") (auto simp: allocated_line_check_def allocated_line_ok_def)

record allocated_rollup =
  arl_tenant_id :: tenant_id
  arl_run_id :: run_id
  arl_lines :: "allocated_line list"
  arl_pct_unallocated :: rat
  arl_confidence :: rollup_confidence
  arl_provenance_breakdown :: provenance_breakdown

section \<open>Price book\<close>

record price_card =
  pc_provider :: string
  pc_model :: string
  pc_usd_per_mtok :: "(token_class, rat) dict"
  pc_effective_from :: instant
  pc_rule_version :: string

definition card_for :: "price_card list \<Rightarrow> string \<Rightarrow> string \<Rightarrow> instant \<Rightarrow> price_card option" where
  "card_for cards prov mdl now =
     (case filter (\<lambda>c. pc_provider c = prov \<and> pc_model c = mdl \<and> pc_effective_from c \<le> now) cards of
        [] \<Rightarrow> None
      | c # cs \<Rightarrow> Some (first_max pc_effective_from c cs))"

section \<open>Evaluation recommendation\<close>

record eval_verdict =
  ev_recommended_model :: "string option"
  ev_incumbent_model :: string
  ev_grade :: eval_grade
  ev_label_source :: label_source

text \<open>\<open>EvalRecommendation._grade_cap_invariant\<close>.\<close>

definition grade_cap_check :: "eval_verdict \<Rightarrow> eval_verdict res" where
  "grade_cap_check v =
     (if ev_grade v = Reliable \<and> ev_label_source v \<noteq> OutcomeLabel \<and> ev_label_source v \<noteq> HumanLabeled
      then Inl ValueError else Inr v)"

section \<open>Properties\<close>

text \<open>
  C9. Aggregation never raises confidence: \<open>RollupConfidence.propagate\<close> succeeds on any
  non-empty list of member tiers; the headline tier is a member and no member is less
  trusted; the distribution counts every member exactly; and its own validator accepts it.
\<close>

theorem propagate_conservative:
  assumes "ts \<noteq> []"
  shows "\<exists>c. propagate ts = Inr c \<and> rollup_confidence_ok c \<and>
     rc_minimum_tier c \<in> set ts \<and> (\<forall>t \<in> set ts. rc_minimum_tier c \<le> t) \<and>
     (\<forall>t. dict_get (rc_distribution c) t =
        (if t \<in> set ts then Some (int (count_list ts t)) else None))"
proof -
  let ?c = "\<lparr>rc_minimum_tier = Min (set ts), rc_distribution = count_tiers ts\<rparr>"
  have p: "propagate ts = Inr ?c" using assms by (rule propagate_nonempty)
  then have "rollup_confidence_ok ?c"
    by (auto simp: propagate_def rollup_confidence_new_Inr_iff split: if_splits)
  with p show ?thesis using assms by (intro exI [of _ ?c]) (auto simp: count_tiers_get)
qed

theorem propagate_conservative_witness:
  "\<exists>c. propagate [Exact, Candidate, Exact] = Inr c \<and> rc_minimum_tier c = Candidate"
proof -
  have "[Exact, Candidate, Exact] \<noteq> []" by simp
  from propagate_conservative [OF this] obtain c
    where c: "propagate [Exact, Candidate, Exact] = Inr c"
      and m: "rc_minimum_tier c \<in> set [Exact, Candidate, Exact]" "rc_minimum_tier c \<le> Candidate"
    by auto
  from m have "rc_minimum_tier c = Candidate" by (auto simp: tier_order_defs)
  with c show ?thesis by blast
qed

text \<open>
  C12. A token vector built from a provider usage object is accepted exactly when no count
  is negative, the cache classes fit in the reported input and reasoning fits in output;
  then the four input classes add up to the reported input, so nothing is priced twice.
\<close>

theorem from_provider_partition:
  "from_provider tot cr c5 c1 out reas = Inr t \<longleftrightarrow>
     0 \<le> cr \<and> 0 \<le> c5 \<and> 0 \<le> c1 \<and> cr + c5 + c1 \<le> tot \<and> 0 \<le> reas \<and> reas \<le> out \<and>
     total_input t = tot \<and> tv_cache_read t = cr \<and> tv_cache_write_5m t = c5 \<and>
     tv_cache_write_1h t = c1 \<and> tv_output t = out \<and> tv_reasoning t = reas"
  by (cases t)
    (auto simp: from_provider_def Let_def token_vector_new_Inr_iff token_vector_ok_def total_input_def)

text \<open>
  The price card in effect: the chosen card belongs to the model, is not from the
  future, and no card of the model already in effect is newer; none is chosen only when
  the model has no card in effect, so a later re-pricing never changes an earlier cost.
\<close>

theorem card_for_latest:
  "case card_for cards prov mdl now of
     None \<Rightarrow> \<not> (\<exists>c \<in> set cards. pc_provider c = prov \<and> pc_model c = mdl \<and> pc_effective_from c \<le> now)
   | Some c \<Rightarrow> c \<in> set cards \<and> pc_provider c = prov \<and> pc_model c = mdl \<and> pc_effective_from c \<le> now \<and>
       \<not> (\<exists>d \<in> set cards. pc_provider d = prov \<and> pc_model d = mdl \<and>
            pc_effective_from d \<le> now \<and> pc_effective_from c < pc_effective_from d)"
proof -
  define P where "P = (\<lambda>c :: price_card. pc_provider c = prov \<and> pc_model c = mdl \<and> pc_effective_from c \<le> now)"
  show ?thesis
  proof (cases "filter P cards")
    case Nil
    then have "\<And>c. c \<in> set cards \<Longrightarrow> \<not> P c" by (simp add: filter_empty_conv)
    with Nil show ?thesis by (auto simp: card_for_def P_def)
  next
    case (Cons c cs)
    let ?m = "first_max pc_effective_from c cs"
    have mem: "d \<in> insert c (set cs) \<longleftrightarrow> d \<in> set cards \<and> P d" for d
      using arg_cong [OF Cons, of set] by auto
    have m: "?m \<in> set cards \<and> P ?m" using first_max_in [of pc_effective_from c cs] mem by blast
    have "\<not> pc_effective_from ?m < pc_effective_from d" if "d \<in> set cards" "P d" for d
      using first_max_ge [of d c cs pc_effective_from] mem that by (simp add: not_less)
    with m Cons show ?thesis by (auto simp: card_for_def P_def)
  qed
qed

text \<open>
  The composed label is conservative: adding contributing provenances, tiers or an
  eval grade never raises it.
\<close>

theorem compose_label_antitone:
  assumes "set ps \<subseteq> set ps'" "set ts \<subseteq> set ts'" "g = None \<or> g' = g"
  shows "label_index (compose_label ps' ts' sigs' g') \<le> label_index (compose_label ps ts sigs g)"
  using assms by (auto simp: compose_label_def)

theorem compose_label_antitone_witness:
  "label_index (compose_label [Measured, Estimated] [Exact] [] None)
     \<le> label_index (compose_label [Measured] [Exact] [] None)
   \<and> compose_label [Measured, Estimated] [Exact] [] None = Low
   \<and> compose_label [Measured] [Exact] [] None = High"
  using compose_label_antitone [of "[Measured]" "[Measured, Estimated]" "[Exact]" "[Exact]" None None "[]" "[]"]
  by (simp add: compose_label_def)

end
