(* ===== verification/Store_Rows.thy ===== *)
theory Store_Rows
  imports Core_Types
begin

text \<open>
  The boundary between the domain models and flat rows (\<open>store/mappers.py\<close>): a row is an
  insertion-ordered dictionary from column names to cells, each \<open>*_to_row\<close> builds one and
  each \<open>row_to_*\<close> reads one back, raising on a missing column, a cell of the wrong kind or
  an unknown enum value. The round-trip lemmas say what survives storage; the outcome
  row has no column for the causal evidence, which comes back as observational.
\<close>

named_theorems row_simps \<open>evaluation of row accessors\<close>

section \<open>Cells and accessors\<close>

datatype cell =
    CNull
  | CStr string
  | CInt int
  | CBool bool
  | CDec rat
  | CTime instant
  | CUuid tenant_id
  | CKeys "string list list"
  | CStrs "string list"
  | CObj "(string \<times> json) list"
  | CList "json list"

type_synonym row = "(string, cell) dict"

text \<open>\<open>row[c]\<close> raises on a missing column; \<open>row.get(c)\<close> gives \<open>None\<close>.\<close>

definition row_at :: "row \<Rightarrow> string \<Rightarrow> cell res" where
  "row_at r c = (case dict_get r c of None \<Rightarrow> Inl KeyError | Some v \<Rightarrow> Inr v)"

definition row_get :: "row \<Rightarrow> string \<Rightarrow> cell" where
  "row_get r c = (case dict_get r c of None \<Rightarrow> CNull | Some v \<Rightarrow> v)"

fun as_str :: "cell \<Rightarrow> string res" where
  "as_str (CStr s) = Inr s"
| "as_str _ = Inl AssertionError"

fun as_opt_str :: "cell \<Rightarrow> string option res" where
  "as_opt_str CNull = Inr None"
| "as_opt_str (CStr s) = Inr (Some s)"
| "as_opt_str _ = Inl AssertionError"

fun as_int :: "cell \<Rightarrow> int res" where
  "as_int (CInt i) = Inr i"
| "as_int _ = Inl AssertionError"

fun as_bool :: "cell \<Rightarrow> bool res" where
  "as_bool (CBool b) = Inr b"
| "as_bool (CInt i) = Inr (i \<noteq> 0)"
| "as_bool _ = Inl AssertionError"

fun optional_int :: "cell \<Rightarrow> int option" where
  "optional_int (CInt i) = Some i"
| "optional_int _ = None"

fun as_decimal :: "cell \<Rightarrow> rat res" where
  "as_decimal (CDec d) = Inr d"
| "as_decimal _ = Inl AssertionError"

fun as_opt_decimal :: "cell \<Rightarrow> rat option res" where
  "as_opt_decimal CNull = Inr None"
| "as_opt_decimal (CDec d) = Inr (Some d)"
| "as_opt_decimal _ = Inl AssertionError"

fun as_dt :: "cell \<Rightarrow> instant res" where
  "as_dt (CTime t) = Inr t"
| "as_dt _ = Inl AssertionError"

fun as_opt_dt :: "cell \<Rightarrow> instant option res" where
  "as_opt_dt CNull = Inr None"
| "as_opt_dt (CTime t) = Inr (Some t)"
| "as_opt_dt _ = Inl AssertionError"

fun as_tenant :: "cell \<Rightarrow> tenant_id res" where
  "as_tenant (CUuid t) = Inr t"
| "as_tenant (CStr t) = Inr t"
| "as_tenant _ = Inl AssertionError"

fun str_tuple_from_json :: "cell \<Rightarrow> string list res" where
  "str_tuple_from_json (CStrs ss) = Inr ss"
| "str_tuple_from_json _ = Inl AssertionError"

fun as_json_obj :: "cell \<Rightarrow> (string \<times> json) list res" where
  "as_json_obj (CObj o') = Inr o'"
| "as_json_obj _ = Inl AssertionError"

fun as_json_list :: "cell \<Rightarrow> json list res" where
  "as_json_list (CList js) = Inr js"
| "as_json_list _ = Inl AssertionError"

definition opt_cell :: "('a \<Rightarrow> cell) \<Rightarrow> 'a option \<Rightarrow> cell" where
  "opt_cell f x = (case x of None \<Rightarrow> CNull | Some v \<Rightarrow> f v)"

lemma opt_cell_simps [row_simps]:
  "as_opt_str (opt_cell CStr x) = Inr x"
  "as_opt_decimal (opt_cell CDec y) = Inr y"
  "as_opt_dt (opt_cell CTime z) = Inr z"
  "optional_int (opt_cell CInt w) = w"
  by (simp_all add: opt_cell_def split: option.splits)

section \<open>Enum values\<close>

fun tier_value :: "binding_tier \<Rightarrow> string" where
  "tier_value Exact = ''exact''"
| "tier_value Deterministic = ''deterministic''"
| "tier_value Candidate = ''candidate''"
| "tier_value Likely = ''likely''"

definition tier_of :: "string \<Rightarrow> binding_tier res" where
  "tier_of s = (if s = ''exact'' then Inr Exact else if s = ''deterministic'' then Inr Deterministic
     else if s = ''candidate'' then Inr Candidate else if s = ''likely'' then Inr Likely
     else Inl ValueError)"

fun signal_value :: "signal_class \<Rightarrow> string" where
  "signal_value ActionAttempted = ''action_attempted''"
| "signal_value OutcomeConfirmed = ''outcome_confirmed''"
| "signal_value OutcomeRetracted = ''outcome_retracted''"

definition signal_of :: "string \<Rightarrow> signal_class res" where
  "signal_of s = (if s = ''action_attempted'' then Inr ActionAttempted
     else if s = ''outcome_confirmed'' then Inr OutcomeConfirmed
     else if s = ''outcome_retracted'' then Inr OutcomeRetracted else Inl ValueError)"

fun provenance_value :: "provenance \<Rightarrow> string" where
  "provenance_value Measured = ''measured''"
| "provenance_value Estimated = ''estimated''"
| "provenance_value Allocated = ''allocated''"
| "provenance_value ProviderReconciled = ''provider_reconciled''"
| "provenance_value ManualReconciled = ''manual_reconciled''"

definition provenance_of :: "string \<Rightarrow> provenance res" where
  "provenance_of s = (if s = ''measured'' then Inr Measured else if s = ''estimated'' then Inr Estimated
     else if s = ''allocated'' then Inr Allocated
     else if s = ''provider_reconciled'' then Inr ProviderReconciled
     else if s = ''manual_reconciled'' then Inr ManualReconciled else Inl ValueError)"

fun granularity_value :: "capture_granularity \<Rightarrow> string" where
  "granularity_value PerAttempt = ''per_attempt''"
| "granularity_value PerCall = ''per_call''"

definition granularity_of :: "string \<Rightarrow> capture_granularity res" where
  "granularity_of s = (if s = ''per_attempt'' then Inr PerAttempt
     else if s = ''per_call'' then Inr PerCall else Inl ValueError)"

lemma tier_roundtrip [row_simps]: "tier_of (tier_value t) = Inr t"
  by (cases t) (simp_all add: tier_of_def)

lemma signal_roundtrip [row_simps]: "signal_of (signal_value s) = Inr s"
  by (cases s) (simp_all add: signal_of_def)

lemma provenance_roundtrip [row_simps]: "provenance_of (provenance_value p) = Inr p"
  by (cases p) (simp_all add: provenance_of_def)

lemma granularity_roundtrip [row_simps]: "granularity_of (granularity_value g) = Inr g"
  by (cases g) (simp_all add: granularity_of_def)

section \<open>Entity keys\<close>

text \<open>
  A frozenset of keys is a list standing for its elements in iteration order. It is
  stored sorted, as a list of two-element lists.
\<close>

definition entity_keys_to_json :: "entity_key list \<Rightarrow> string list list" where
  "entity_keys_to_json ks = map (\<lambda>(k, v). [k, v]) (sort (remdups ks))"

fun pair_of_json :: "string list \<Rightarrow> entity_key res" where
  "pair_of_json [k, v] = Inr (k, v)"
| "pair_of_json _ = Inl AssertionError"

fun entity_keys_from_json :: "cell \<Rightarrow> entity_key list res" where
  "entity_keys_from_json (CKeys items) =
     res_bind (res_traverse pair_of_json items) (\<lambda>ks. Inr (remdups ks))"
| "entity_keys_from_json _ = Inl AssertionError"

definition stored_keys :: "entity_key list \<Rightarrow> entity_key list" where
  "stored_keys ks = sort (remdups ks)"

lemma set_stored_keys [simp]: "set (stored_keys ks) = set ks"
  by (simp add: stored_keys_def)

lemma stored_keys_idem [simp]: "stored_keys (stored_keys ks) = stored_keys ks"
  by (simp add: stored_keys_def distinct_remdups_id sorted_sort_id)

lemma entity_keys_roundtrip [row_simps]:
  "res_traverse pair_of_json (entity_keys_to_json ks) = Inr (stored_keys ks)"
proof -
  have "res_traverse pair_of_json (map (\<lambda>(k, v). [k, v]) xs) = Inr xs" for xs
    by (induction xs) auto
  then show ?thesis by (simp add: entity_keys_to_json_def stored_keys_def)
qed

lemma remdups_stored_keys [simp]: "remdups (stored_keys ks) = stored_keys ks"
  by (simp add: stored_keys_def distinct_remdups_id)

section \<open>Runs\<close>

definition run_to_row :: "tenant_id \<Rightarrow> run \<Rightarrow> row" where
  "run_to_row tid m =
    [(''id'', CStr (run_id m)),
     (''tenant_id'', CUuid tid),
     (''agent_name'', opt_cell CStr (run_agent_name m)),
     (''started_at'', CTime (run_started_at m)),
     (''ended_at'', opt_cell CTime (run_ended_at m)),
     (''entity_keys'', CKeys (entity_keys_to_json (run_entity_keys m))),
     (''experiment'', opt_cell CStr (run_experiment m)),
     (''variant'', opt_cell CStr (run_variant m)),
     (''app'', opt_cell CStr (run_app m))]"

definition row_to_run :: "row \<Rightarrow> run res" where
  "row_to_run r =
     res_bind (res_bind (row_at r ''tenant_id'') as_tenant) (\<lambda>tid.
     res_bind (res_bind (row_at r ''id'') as_str) (\<lambda>i.
     res_bind (res_bind (row_at r ''agent_name'') as_opt_str) (\<lambda>agent.
     res_bind (res_bind (row_at r ''started_at'') as_dt) (\<lambda>started.
     res_bind (res_bind (row_at r ''ended_at'') as_opt_dt) (\<lambda>ended.
     res_bind (res_bind (row_at r ''entity_keys'') entity_keys_from_json) (\<lambda>keys.
     res_bind (as_opt_str (row_get r ''experiment'')) (\<lambda>ex.
     res_bind (as_opt_str (row_get r ''variant'')) (\<lambda>var.
     res_bind (as_opt_str (row_get r ''app'')) (\<lambda>ap.
       Inr \<lparr>run_tenant_id = tid, run_id = i, run_agent_name = agent, run_started_at = started,
            run_ended_at = ended, run_entity_keys = keys, run_experiment = ex,
            run_variant = var, run_app = ap\<rparr>)))))))))"

definition stored_run :: "tenant_id \<Rightarrow> run \<Rightarrow> run" where
  "stored_run tid m = m\<lparr>run_tenant_id := tid, run_entity_keys := stored_keys (run_entity_keys m)\<rparr>"

lemma row_to_run_to_row [row_simps]: "row_to_run (run_to_row tid m) = Inr (stored_run tid m)"
  by (cases m)
    (simp add: row_to_run_def run_to_row_def row_at_def row_get_def row_simps stored_run_def)

section \<open>Cost events\<close>

definition cost_event_to_row :: "tenant_id \<Rightarrow> cost_event \<Rightarrow> row" where
  "cost_event_to_row tid m =
    [(''id'', CStr (ce_id m)),
     (''tenant_id'', CUuid tid),
     (''run_id'', CStr (ce_run_id m)),
     (''attempt_id'', CStr (ce_attempt_id m)),
     (''provider'', CStr (ce_provider m)),
     (''model'', CStr (ce_model m)),
     (''input_uncached'', CInt (tv_input_uncached (ce_tokens m))),
     (''cache_read'', CInt (tv_cache_read (ce_tokens m))),
     (''cache_write_5m'', CInt (tv_cache_write_5m (ce_tokens m))),
     (''cache_write_1h'', CInt (tv_cache_write_1h (ce_tokens m))),
     (''output'', CInt (tv_output (ce_tokens m))),
     (''reasoning'', CInt (tv_reasoning (ce_tokens m))),
     (''capture_granularity'', CStr (granularity_value (ce_granularity m))),
     (''provenance'', CStr (provenance_value (pl_provenance (ce_provenance m)))),
     (''reconciliation_record_id'', opt_cell CStr (pl_record_id (ce_provenance m))),
     (''provenance_note'', opt_cell CStr (pl_note (ce_provenance m))),
     (''cost_usd'', opt_cell CDec (ce_cost_usd m)),
     (''is_streaming'', CBool (ce_is_streaming m)),
     (''partial_recovered'', CBool (ce_partial_recovered m)),
     (''billing_uncertain_abort'', CBool (ce_billing_uncertain_abort m)),
     (''provenance_warnings'', CStrs (ce_provenance_warnings m)),
     (''latency_ms'', opt_cell CInt (ce_latency_ms m)),
     (''occurred_at'', CTime (ce_occurred_at m))]"

definition row_to_tokens :: "row \<Rightarrow> token_vector res" where
  "row_to_tokens r =
     res_bind (res_bind (row_at r ''input_uncached'') as_int) (\<lambda>iu.
     res_bind (res_bind (row_at r ''cache_read'') as_int) (\<lambda>cr.
     res_bind (res_bind (row_at r ''cache_write_5m'') as_int) (\<lambda>c5.
     res_bind (res_bind (row_at r ''cache_write_1h'') as_int) (\<lambda>c1.
     res_bind (res_bind (row_at r ''output'') as_int) (\<lambda>out.
     res_bind (res_bind (row_at r ''reasoning'') as_int) (\<lambda>reas.
       token_vector_new iu cr c5 c1 out reas))))))"

definition row_to_label :: "row \<Rightarrow> provenance_label res" where
  "row_to_label r =
     res_bind (res_bind (res_bind (row_at r ''provenance'') as_str) provenance_of) (\<lambda>p.
     res_bind (res_bind (row_at r ''reconciliation_record_id'') as_opt_str) (\<lambda>rid.
     res_bind (res_bind (row_at r ''provenance_note'') as_opt_str) (\<lambda>note.
       provenance_label_new p rid note)))"

definition row_to_cost_event :: "row \<Rightarrow> cost_event res" where
  "row_to_cost_event r =
     res_bind (res_bind (row_at r ''tenant_id'') as_tenant) (\<lambda>tid.
     res_bind (res_bind (row_at r ''id'') as_str) (\<lambda>i.
     res_bind (res_bind (row_at r ''run_id'') as_str) (\<lambda>rid.
     res_bind (res_bind (row_at r ''attempt_id'') as_str) (\<lambda>att.
     res_bind (res_bind (row_at r ''provider'') as_str) (\<lambda>prov.
     res_bind (res_bind (row_at r ''model'') as_str) (\<lambda>mdl.
     res_bind (row_to_tokens r) (\<lambda>toks.
     res_bind (res_bind (res_bind (row_at r ''capture_granularity'') as_str) granularity_of) (\<lambda>g.
     res_bind (row_to_label r) (\<lambda>lbl.
     res_bind (res_bind (row_at r ''cost_usd'') as_opt_decimal) (\<lambda>cost.
     res_bind (res_bind (row_at r ''is_streaming'') as_bool) (\<lambda>str.
     res_bind (res_bind (row_at r ''partial_recovered'') as_bool) (\<lambda>par.
     res_bind (res_bind (row_at r ''billing_uncertain_abort'') as_bool) (\<lambda>ab.
     res_bind (res_bind (row_at r ''provenance_warnings'') str_tuple_from_json) (\<lambda>warn.
     res_bind (res_bind (row_at r ''occurred_at'') as_dt) (\<lambda>at'.
       Inr \<lparr>ce_tenant_id = tid, ce_id = i, ce_run_id = rid, ce_attempt_id = att, ce_provider = prov,
            ce_model = mdl, ce_tokens = toks, ce_granularity = g, ce_provenance = lbl,
            ce_cost_usd = cost, ce_is_streaming = str, ce_partial_recovered = par,
            ce_billing_uncertain_abort = ab, ce_provenance_warnings = warn, ce_occurred_at = at',
            ce_latency_ms = optional_int (row_get r ''latency_ms'')\<rparr>)))))))))))))))"

text \<open>What every constructed cost event satisfies.\<close>

definition cost_event_ok :: "cost_event \<Rightarrow> bool" where
  "cost_event_ok e \<longleftrightarrow> token_vector_ok (ce_tokens e) \<and>
     (reconciled_provenance (pl_provenance (ce_provenance e)) \<longleftrightarrow> pl_record_id (ce_provenance e) \<noteq> None)"

lemma row_to_tokens_to_row:
  "token_vector_ok (ce_tokens m) \<Longrightarrow> row_to_tokens (cost_event_to_row tid m) = Inr (ce_tokens m)"
  by (cases "ce_tokens m")
    (simp add: row_to_tokens_def cost_event_to_row_def row_at_def token_vector_new_Inr_iff)

lemma row_to_label_to_row:
  "reconciled_provenance (pl_provenance (ce_provenance m)) \<longleftrightarrow> pl_record_id (ce_provenance m) \<noteq> None \<Longrightarrow>
     row_to_label (cost_event_to_row tid m) = Inr (ce_provenance m)"
  by (cases "ce_provenance m")
    (auto simp: row_to_label_def cost_event_to_row_def row_at_def row_simps provenance_label_new_def)

lemma row_to_cost_event_to_row [row_simps]:
  assumes "cost_event_ok m"
  shows "row_to_cost_event (cost_event_to_row tid m) = Inr (m\<lparr>ce_tenant_id := tid\<rparr>)"
proof -
  have t: "row_to_tokens (cost_event_to_row tid m) = Inr (ce_tokens m)"
    and l: "row_to_label (cost_event_to_row tid m) = Inr (ce_provenance m)"
    using assms by (simp_all add: cost_event_ok_def row_to_tokens_to_row row_to_label_to_row)
  show ?thesis
    unfolding row_to_cost_event_def t l
    by (cases m) (simp add: cost_event_to_row_def row_at_def row_get_def row_simps)
qed

section \<open>Outcomes\<close>

definition outcome_event_to_row :: "tenant_id \<Rightarrow> outcome_event \<Rightarrow> row" where
  "outcome_event_to_row tid m =
    [(''id'', CStr (oe_id m)),
     (''tenant_id'', CUuid tid),
     (''name'', CStr (oe_name m)),
     (''signal_class'', CStr (signal_value (oe_signal_class m))),
     (''value'', opt_cell CDec (oe_value m)),
     (''occurred_at'', CTime (oe_occurred_at m)),
     (''bound_run_id'', opt_cell CStr (ob_run_id (oe_binding m))),
     (''bound_tier'', opt_cell (\<lambda>t. CStr (tier_value t)) (ob_tier (oe_binding m))),
     (''bound_by'', opt_cell CStr (ob_bound_by (oe_binding m))),
     (''entity_keys'', CKeys (entity_keys_to_json (oe_entity_keys m))),
     (''correlation_id'', opt_cell CStr (oe_correlation_id m)),
     (''source'', CStr (oe_source m)),
     (''raw'', CObj (oe_raw m))]"

definition opt_tier_of :: "string option \<Rightarrow> binding_tier option res" where
  "opt_tier_of s = (case s of None \<Rightarrow> Inr None | Some v \<Rightarrow> res_bind (tier_of v) (\<lambda>t. Inr (Some t)))"

definition row_to_outcome_event :: "row \<Rightarrow> outcome_event res" where
  "row_to_outcome_event r =
     res_bind (res_bind (row_at r ''bound_run_id'') as_opt_str) (\<lambda>brun.
     res_bind (res_bind (row_at r ''bound_tier'') as_opt_str) (\<lambda>btier.
     res_bind (res_bind (row_at r ''correlation_id'') as_opt_str) (\<lambda>corr.
     res_bind (res_bind (row_at r ''raw'') as_json_obj) (\<lambda>raw.
     res_bind (res_bind (row_at r ''tenant_id'') as_tenant) (\<lambda>tid.
     res_bind (res_bind (row_at r ''id'') as_str) (\<lambda>i.
     res_bind (res_bind (row_at r ''name'') as_str) (\<lambda>nm.
     res_bind (res_bind (res_bind (row_at r ''signal_class'') as_str) signal_of) (\<lambda>sig.
     res_bind (res_bind (row_at r ''value'') as_opt_decimal) (\<lambda>val.
     res_bind (res_bind (row_at r ''occurred_at'') as_dt) (\<lambda>at'.
     res_bind (opt_tier_of btier) (\<lambda>tier.
     res_bind (res_bind (row_at r ''bound_by'') as_opt_str) (\<lambda>by'.
     res_bind (res_bind (row_at r ''entity_keys'') entity_keys_from_json) (\<lambda>keys.
     res_bind (res_bind (row_at r ''source'') as_str) (\<lambda>src.
       Inr \<lparr>oe_tenant_id = tid, oe_id = i, oe_name = nm, oe_signal_class = sig, oe_value = val,
            oe_occurred_at = at', oe_binding = outcome_binding_default brun tier by',
            oe_entity_keys = keys, oe_correlation_id = corr, oe_source = src, oe_raw = raw\<rparr>))))))))))))))"

definition stored_outcome :: "tenant_id \<Rightarrow> outcome_event \<Rightarrow> outcome_event" where
  "stored_outcome tid m =
     m\<lparr>oe_tenant_id := tid, oe_entity_keys := stored_keys (oe_entity_keys m),
        oe_binding := (oe_binding m)\<lparr>ob_causal_evidence := Observational\<rparr>\<rparr>"

lemma opt_tier_roundtrip [row_simps]:
  "as_opt_str (opt_cell (\<lambda>t. CStr (tier_value t)) x) = Inr (map_option tier_value x)"
  "opt_tier_of (map_option tier_value x) = Inr x"
  by (cases x; simp add: opt_cell_def opt_tier_of_def tier_roundtrip)+

lemma row_to_outcome_event_to_row [row_simps]:
  "row_to_outcome_event (outcome_event_to_row tid m) = Inr (stored_outcome tid m)"
  by (cases m; cases "oe_binding m")
    (simp add: row_to_outcome_event_def outcome_event_to_row_def row_at_def row_simps
      stored_outcome_def outcome_binding_default_def)

section \<open>Sample data\<close>

definition sample_cost_event :: cost_event where
  "sample_cost_event = \<lparr>ce_tenant_id = ''t'', ce_id = ''ce1'', ce_run_id = ''r1'', ce_attempt_id = ''a1'',
     ce_provider = ''openai'', ce_model = ''m'',
     ce_tokens = \<lparr>tv_input_uncached = 10, tv_cache_read = 2, tv_cache_write_5m = 0, tv_cache_write_1h = 0,
       tv_output = 5, tv_reasoning = 3\<rparr>,
     ce_granularity = PerAttempt,
     ce_provenance = \<lparr>pl_provenance = Measured, pl_record_id = None, pl_note = None\<rparr>,
     ce_cost_usd = None, ce_is_streaming = False, ce_partial_recovered = False,
     ce_billing_uncertain_abort = False, ce_provenance_warnings = [], ce_occurred_at = 0, ce_latency_ms = Some 12\<rparr>"

lemma sample_cost_event_ok: "cost_event_ok sample_cost_event"
  by (simp add: sample_cost_event_def cost_event_ok_def token_vector_ok_def reconciled_provenance_def)

definition sample_outcome :: outcome_event where
  "sample_outcome = \<lparr>oe_tenant_id = ''t'', oe_id = ''o1'', oe_name = ''resolved'',
     oe_signal_class = OutcomeConfirmed, oe_value = Some 5, oe_occurred_at = 60000000,
     oe_binding = outcome_binding_default None None None,
     oe_entity_keys = [(''ticket'', ''7'')], oe_correlation_id = None, oe_source = ''zendesk'', oe_raw = []\<rparr>"

section \<open>Properties\<close>

text \<open>
  Storing and reading back a cost event returns the event that was written, stamped
  with the tenant of the write, for every event the constructors accept: amounts, token
  classes, provenance and the absent-cost marker survive.
\<close>

theorem cost_event_row_roundtrip:
  assumes "cost_event_ok m"
  shows "row_to_cost_event (cost_event_to_row tid m) = Inr (m\<lparr>ce_tenant_id := tid\<rparr>)"
  using assms by (rule row_to_cost_event_to_row)

theorem cost_event_row_roundtrip_witness:
  "cost_event_ok sample_cost_event \<and>
   row_to_cost_event (cost_event_to_row ''t2'' sample_cost_event) = Inr (sample_cost_event\<lparr>ce_tenant_id := ''t2''\<rparr>)"
  using sample_cost_event_ok cost_event_row_roundtrip [OF sample_cost_event_ok, of "''t2''"] by simp

text \<open>
  Storing and reading back an outcome keeps every field but one: the entity keys come
  back as the same set, and the causal evidence of the binding comes back observational,
  because the row has no column for it. So an outcome whose binding an experiment
  qualified is read back as observational.
\<close>

theorem outcome_row_roundtrip:
  "\<exists>m'. row_to_outcome_event (outcome_event_to_row (oe_tenant_id m) m) = Inr m' \<and>
     set (oe_entity_keys m') = set (oe_entity_keys m) \<and>
     ob_causal_evidence (oe_binding m') = Observational \<and>
     m'\<lparr>oe_entity_keys := oe_entity_keys m, oe_binding := oe_binding m\<rparr> = m \<and>
     (oe_binding m')\<lparr>ob_causal_evidence := ob_causal_evidence (oe_binding m)\<rparr> = oe_binding m"
  by (simp add: row_to_outcome_event_to_row stored_outcome_def)

end
