(* ===== verification/Alias.thy ===== *)
theory Alias
  imports Core_Types "HOL-Library.Transitive_Closure_Table"
begin

text \<open>
  Entity aliasing (\<open>core/alias.py\<close>): the undirected adjacency of the asserted identity
  edges and the work-list walk that collects every key of the same entity. The walk is a
  recursive function with a termination proof; the main result is that it computes
  exactly the equivalence class of the key under the symmetric and transitive closure of
  the asserted edges.
\<close>

record entity_alias =
  ea_source :: entity_key
  ea_target :: entity_key

definition adjacency :: "entity_alias list \<Rightarrow> (entity_key, entity_key list) dict" where
  "adjacency aliases =
     foldl (\<lambda>d a. dict_push (ea_target a) (ea_source a) (dict_push (ea_source a) (ea_target a) d))
       [] aliases"

text \<open>The inner loop: unseen neighbours are marked and pushed on the frontier's top.\<close>

fun visit :: "entity_key list \<Rightarrow> entity_key list \<Rightarrow> entity_key list \<Rightarrow> entity_key list \<times> entity_key list" where
  "visit [] seen frontier = (seen, frontier)"
| "visit (n # ns) seen frontier =
     (if n \<in> set seen then visit ns seen frontier else visit ns (n # seen) (n # frontier))"

lemma visit_seen: "set (fst (visit ns seen frontier)) = set ns \<union> set seen"
  by (induction ns seen frontier rule: visit.induct) auto

lemma visit_frontier:
  "set (snd (visit ns seen frontier)) = set frontier \<union> (set ns - set seen)"
  by (induction ns seen frontier rule: visit.induct) auto

lemma visit_unchanged: "set ns \<subseteq> set seen \<Longrightarrow> visit ns seen frontier = (seen, frontier)"
  by (induction ns) auto

text \<open>The outer loop: pop the frontier's top and visit its neighbours.\<close>

definition known_keys :: "(entity_key, entity_key list) dict \<Rightarrow> entity_key set" where
  "known_keys adj = (\<Union>(k, ns) \<in> set adj. set ns)"

lemma finite_known_keys [simp]: "finite (known_keys adj)"
  by (auto simp: known_keys_def)

lemma dict_at_known: "set (dict_at adj k) \<subseteq> known_keys adj"
  by (cases "dict_get adj k") (force simp: dict_at_def known_keys_def dest: map_of_SomeD)+

function walk :: "(entity_key, entity_key list) dict \<Rightarrow> entity_key list \<Rightarrow> entity_key list \<Rightarrow> entity_key list" where
  "walk adj seen [] = seen"
| "walk adj seen (k # frontier) =
     (let (seen', frontier') = visit (dict_at adj k) seen frontier in walk adj seen' frontier')"
  by pat_completeness auto

termination
proof (relation "measures [\<lambda>(adj, seen, frontier). card (known_keys adj - set seen),
    \<lambda>(adj, seen, frontier). length frontier]", goal_cases)
  case 1
  show ?case by simp
next
  case (2 adj seen k frontier r seen' frontier')
  let ?ns = "dict_at adj k"
  have v: "visit ?ns seen frontier = (seen', frontier')" using 2 by simp
  show ?case
  proof (cases "set ?ns \<subseteq> set seen")
    case True
    with v have "seen' = seen" "frontier' = frontier" by (simp_all add: visit_unchanged)
    then show ?thesis by simp
  next
    case False
    have s: "set seen' = set ?ns \<union> set seen" using visit_seen [of ?ns seen frontier] v by simp
    have "known_keys adj - set seen' \<subset> known_keys adj - set seen"
      using False dict_at_known [of adj k] unfolding s by blast
    then have "card (known_keys adj - set seen') < card (known_keys adj - set seen)"
      by (intro psubset_card_mono) simp_all
    then show ?thesis by simp
  qed
qed

declare walk.simps(2) [simp del]

lemma walk_step:
  "visit (dict_at adj k) seen frontier = (seen', frontier') \<Longrightarrow>
     walk adj seen (k # frontier) = walk adj seen' frontier'"
  by (simp add: walk.simps(2))

definition resolve_aliases :: "entity_key \<Rightarrow> entity_alias list \<Rightarrow> entity_key list" where
  "resolve_aliases key aliases = walk (adjacency aliases) [key] [key]"

section \<open>The abstract specification\<close>

text \<open>Two keys are linked when some asserted edge joins them, in either direction.\<close>

definition linked :: "entity_alias list \<Rightarrow> entity_key \<Rightarrow> entity_key \<Rightarrow> bool" where
  "linked aliases a b \<longleftrightarrow>
     (\<exists>e \<in> set aliases. ea_source e = a \<and> ea_target e = b \<or> ea_source e = b \<and> ea_target e = a)"

lemma linked_sym: "linked aliases a b \<longleftrightarrow> linked aliases b a"
  by (auto simp: linked_def)

lemma adjacency_linked: "b \<in> set (dict_at (adjacency aliases) a) \<longleftrightarrow> linked aliases a b"
proof (induction aliases rule: rev_induct)
  case (snoc e es)
  then show ?case by (auto simp: adjacency_def linked_def)
qed (simp add: adjacency_def linked_def)

lemma same_entity_sym: "(linked aliases)\<^sup>*\<^sup>* a b \<longleftrightarrow> (linked aliases)\<^sup>*\<^sup>* b a"
proof -
  have "symp (linked aliases)" by (rule sympI) (simp add: linked_sym)
  then have "symp (linked aliases)\<^sup>*\<^sup>*" by (rule symp_rtranclp)
  then show ?thesis by (auto dest: sympD)
qed

text \<open>
  The loop invariant: everything seen is reachable, and every edge leaving a seen key
  outside the frontier stays inside the seen keys.
\<close>

lemma visit_sets:
  assumes "visit ns seen frontier = (seen', frontier')"
  shows "set seen' = set ns \<union> set seen" "set frontier' = set frontier \<union> (set ns - set seen)"
  using visit_seen [of ns seen frontier] visit_frontier [of ns seen frontier] assms by simp_all

lemma walk_sound:
  assumes "\<forall>k \<in> set seen. R k" "set frontier \<subseteq> set seen"
    "\<forall>k n. R k \<longrightarrow> n \<in> set (dict_at adj k) \<longrightarrow> R n"
  shows "\<forall>k \<in> set (walk adj seen frontier). R k"
  using assms
proof (induction adj seen frontier rule: walk.induct)
  case (2 adj seen k frontier)
  obtain seen' frontier' where v: "visit (dict_at adj k) seen frontier = (seen', frontier')"
    by (cases "visit (dict_at adj k) seen frontier")
  note sf = visit_sets [OF v]
  have "R k" using "2.prems" by simp
  then have "\<forall>x \<in> set seen'. R x" using "2.prems" unfolding sf by blast
  moreover have "set frontier' \<subseteq> set seen'" using "2.prems"(2) unfolding sf by auto
  ultimately show ?case
    unfolding walk_step [OF v] using "2.IH" [OF v [symmetric] refl] "2.prems"(3) by blast
qed simp

lemma walk_complete:
  assumes "\<forall>k \<in> set seen - set frontier. set (dict_at adj k) \<subseteq> set seen"
  shows "set seen \<subseteq> set (walk adj seen frontier) \<and>
     (\<forall>k \<in> set (walk adj seen frontier). set (dict_at adj k) \<subseteq> set (walk adj seen frontier))"
  using assms
proof (induction adj seen frontier rule: walk.induct)
  case (2 adj seen k frontier)
  obtain seen' frontier' where v: "visit (dict_at adj k) seen frontier = (seen', frontier')"
    by (cases "visit (dict_at adj k) seen frontier")
  note sf = visit_sets [OF v]
  have "\<forall>x \<in> set seen' - set frontier'. set (dict_at adj x) \<subseteq> set seen'"
    using "2.prems" unfolding sf by auto
  with "2.IH" [OF v [symmetric] refl]
  have IH: "set seen' \<subseteq> set (walk adj seen' frontier')"
    "\<forall>k \<in> set (walk adj seen' frontier'). set (dict_at adj k) \<subseteq> set (walk adj seen' frontier')"
    by blast+
  show ?case unfolding walk_step [OF v] using IH sf(1) by blast
qed simp

lemma resolve_aliases_sound: "k \<in> set (resolve_aliases key aliases) \<Longrightarrow> (linked aliases)\<^sup>*\<^sup>* key k"
proof -
  have "\<forall>k \<in> set (resolve_aliases key aliases). (linked aliases)\<^sup>*\<^sup>* key k"
    unfolding resolve_aliases_def
    by (rule walk_sound) (auto simp: adjacency_linked intro: rtranclp.rtrancl_into_rtrancl)
  then show "k \<in> set (resolve_aliases key aliases) \<Longrightarrow> (linked aliases)\<^sup>*\<^sup>* key k" by blast
qed

lemma resolve_aliases_complete: "(linked aliases)\<^sup>*\<^sup>* key k \<Longrightarrow> k \<in> set (resolve_aliases key aliases)"
proof (induction rule: rtranclp_induct)
  have c: "set [key] \<subseteq> set (resolve_aliases key aliases) \<and>
     (\<forall>k \<in> set (resolve_aliases key aliases).
        set (dict_at (adjacency aliases) k) \<subseteq> set (resolve_aliases key aliases))"
    unfolding resolve_aliases_def by (rule walk_complete) simp
  case base
  from c show ?case by simp
  case (step a b)
  from c step show ?case by (auto simp: adjacency_linked [symmetric])
qed

section \<open>Properties\<close>

text \<open>
  C13. Alias resolution computes the identity closure: a key is returned exactly when it
  is the asked key or joined to it by a chain of asserted edges read in either direction.
  The walk terminates on every input, cycles included.
\<close>

theorem resolve_aliases_closure:
  "set (resolve_aliases key aliases) = {k. (linked aliases)\<^sup>*\<^sup>* key k}"
  using resolve_aliases_sound resolve_aliases_complete by blast

text \<open>
  Resolution partitions the keys: asking from either end of an identity gives the
  same class, so no query can see one half of an entity only.
\<close>

theorem resolve_aliases_partition:
  assumes "b \<in> set (resolve_aliases a aliases)"
  shows "set (resolve_aliases b aliases) = set (resolve_aliases a aliases)"
proof -
  have ab: "(linked aliases)\<^sup>*\<^sup>* a b" using assms by (rule resolve_aliases_sound)
  then have ba: "(linked aliases)\<^sup>*\<^sup>* b a" by (simp add: same_entity_sym)
  have "k \<in> set (resolve_aliases b aliases) \<longleftrightarrow> k \<in> set (resolve_aliases a aliases)" for k
    using resolve_aliases_sound resolve_aliases_complete rtranclp_trans [OF ab] rtranclp_trans [OF ba]
    by blast
  then show ?thesis by blast
qed

theorem resolve_aliases_partition_witness:
  "set (resolve_aliases (''lead'', ''8172'')
     [\<lparr>ea_source = (''session'', ''abc''), ea_target = (''lead'', ''8172'')\<rparr>]) =
   set (resolve_aliases (''session'', ''abc'')
     [\<lparr>ea_source = (''session'', ''abc''), ea_target = (''lead'', ''8172'')\<rparr>])"
proof (rule resolve_aliases_partition)
  show "(''lead'', ''8172'') \<in> set (resolve_aliases (''session'', ''abc'')
     [\<lparr>ea_source = (''session'', ''abc''), ea_target = (''lead'', ''8172'')\<rparr>])"
    by code_simp
qed

end
