(* ===== verification/Store.thy ===== *)
theory Store
  imports Store_Rows Alias
begin

text \<open>
  The SQL store (\<open>packages/store\<close>): the tables with their uniqueness constraints
  (\<open>tables.py\<close>), the insert-or-update statement every repository builds
  (\<open>_base.upsert_stmt\<close>), the tenant chokepoint (\<open>tenant_guard.require_tenant\<close>) and the
  repositories for runs, cost events, outcomes, entity aliases, the review queue and the
  append-only reconciliation records.

  A table is the list of its rows in insertion order; SQL promises no order for an
  unordered select and no property here depends on it. A statement that would break a
  uniqueness constraint raises \<open>IntegrityError\<close> and leaves the table as it was. Each
  repository call is one transaction. Columns store the cell they are given: the scale of
  the money columns and the driver are not modelled.

  The locale \<open>row_codec\<close> is the contract between a mapper and the upsert statement; from
  it the insert-or-update of an encoded model is proved once to be the abstract \<open>put\<close> on
  models, and interpreted for every mapper. The locale \<open>run_repository\<close> is what the
  attribution cascade and the metric executor rely on; it is interpreted on the run table.
\<close>

section \<open>Statements\<close>

type_synonym table = "row list"

text \<open>Two rows agree on columns when all are equal and none is null (nulls are distinct).\<close>

definition agree :: "string list \<Rightarrow> row \<Rightarrow> row \<Rightarrow> bool" where
  "agree cs r r' \<longleftrightarrow> (\<forall>c \<in> set cs. row_get r c = row_get r' c \<and> row_get r c \<noteq> CNull)"

fun unique_on :: "string list \<Rightarrow> table \<Rightarrow> bool" where
  "unique_on cs [] = True"
| "unique_on cs (r # rs) = ((\<forall>r' \<in> set rs. \<not> agree cs r r') \<and> unique_on cs rs)"

definition commit :: "string list list \<Rightarrow> table \<Rightarrow> table res" where
  "commit uniques tbl = (if \<forall>cs \<in> set uniques. unique_on cs tbl then Inr tbl else Inl IntegrityError)"

definition insert_row :: "string list list \<Rightarrow> row \<Rightarrow> table \<Rightarrow> table res" where
  "insert_row uniques r tbl = commit uniques (tbl @ [r])"

definition update_cols :: "string list \<Rightarrow> row \<Rightarrow> row" where
  "update_cols conflict values = filter (\<lambda>(c, v). c \<notin> set conflict) values"

definition set_cols :: "row \<Rightarrow> row \<Rightarrow> row" where
  "set_cols upd r = foldl (\<lambda>r' (c, v). dict_set c v r') r upd"

definition upsert_stmt :: "string list list \<Rightarrow> string list \<Rightarrow> row \<Rightarrow> table \<Rightarrow> table res" where
  "upsert_stmt uniques conflict values tbl =
     (if \<exists>r \<in> set tbl. agree conflict values r
      then commit uniques
        (map (\<lambda>r. if agree conflict values r then set_cols (update_cols conflict values) r else r) tbl)
      else insert_row uniques values tbl)"

definition require_tenant :: "tenant_id \<Rightarrow> table \<Rightarrow> table" where
  "require_tenant tid tbl = filter (\<lambda>r. row_get r ''tenant_id'' = CUuid tid) tbl"

section \<open>Upsert of an encoded model\<close>

text \<open>The abstract effect: replace the model with the same tenant and key in place, or append.\<close>

definition put :: "('m \<Rightarrow> 'k) \<Rightarrow> tenant_id \<Rightarrow> 'm \<Rightarrow> (tenant_id \<times> 'm) list \<Rightarrow> (tenant_id \<times> 'm) list" where
  "put key tid m ms =
     (if \<exists>(t, x) \<in> set ms. t = tid \<and> key x = key m
      then map (\<lambda>(t, x). if t = tid \<and> key x = key m then (tid, m) else (t, x)) ms
      else ms @ [(tid, m)])"

lemma put_keys:
  "(\<lambda>(t, x). (t, key x)) ` set (put key tid m ms) = insert (tid, key m) ((\<lambda>(t, x). (t, key x)) ` set ms)"
  by (auto simp: put_def image_iff split: if_splits prod.splits) force+

lemma put_distinct:
  assumes "distinct (map (\<lambda>(t, x). (t, key x)) ms)"
  shows "distinct (map (\<lambda>(t, x). (t, key x)) (put key tid m ms))"
proof (cases "\<exists>(t, x) \<in> set ms. t = tid \<and> key x = key m")
  case True
  have "map (\<lambda>(t, x). (t, key x)) (put key tid m ms) = map (\<lambda>(t, x). (t, key x)) ms"
    using True by (auto simp: put_def)
  with assms show ?thesis by simp
next
  case False
  then have "(tid, key m) \<notin> set (map (\<lambda>(t, x). (t, key x)) ms)" by auto
  with assms False show ?thesis by (auto simp: put_def)
qed

lemma put_mem:
  assumes "distinct (map (\<lambda>(t, x). (t, key x)) ms)"
  shows "(t, x) \<in> set (put key tid m ms) \<longleftrightarrow>
     (t = tid \<and> x = m) \<or> ((t, x) \<in> set ms \<and> \<not> (t = tid \<and> key x = key m))"
  by (auto simp: put_def image_iff split: if_splits prod.splits)

lemma put_idem:
  assumes "distinct (map (\<lambda>(t, x). (t, key x)) ms)"
  shows "put key tid m (put key tid m ms) = put key tid m ms"
proof -
  let ?p = "put key tid m ms"
  have "(tid, m) \<in> set ?p" by (simp add: put_mem [OF assms])
  then have "\<exists>(t, x) \<in> set ?p. t = tid \<and> key x = key m" by blast
  moreover have "map (\<lambda>(t, x). if t = tid \<and> key x = key m then (tid, m) else (t, x)) ?p = ?p"
  proof (rule map_idI)
    fix p assume p: "p \<in> set ?p"
    obtain t x where "p = (t, x)" by fastforce
    with p show "(case p of (t, x) \<Rightarrow> if t = tid \<and> key x = key m then (tid, m) else (t, x)) = p"
      by (auto simp: put_mem [OF assms])
  qed
  ultimately show ?thesis by (subst put_def) simp
qed

text \<open>A single constraint on the conflict columns never fails on an insert-or-update.\<close>

locale row_codec =
  fixes enc :: "tenant_id \<Rightarrow> 'm \<Rightarrow> row" and key :: "'m \<Rightarrow> 'k"
    and conflict :: "string list" and cols :: "string list"
  assumes enc_cols: "map fst (enc t m) = cols"
    and cols_distinct: "distinct cols"
    and enc_agree: "agree conflict (enc t m) (enc t' m') \<longleftrightarrow> t = t' \<and> key m = key m'"
begin

lemma set_cols_keys:
  assumes "fst ` set upd \<subseteq> fst ` set r"
  shows "map fst (set_cols upd r) = map fst r"
  using assms
proof (induction upd arbitrary: r)
  case (Cons cv upd)
  obtain c v where cv: "cv = (c, v)" by (cases cv)
  have "map fst (dict_set c v r) = map fst r" if "c \<in> fst ` set r" for r :: row
    using that by (induction r) (auto, force)
  then have k: "map fst (dict_set c v r) = map fst r" using Cons.prems cv by auto
  moreover have "fst ` set upd \<subseteq> fst ` set (dict_set c v r)" using Cons.prems cv by auto
  ultimately show ?case using Cons.IH [of "dict_set c v r"] by (simp add: set_cols_def cv)
qed (simp add: set_cols_def)

lemma set_cols_get:
  assumes "distinct (map fst upd)"
  shows "dict_get (set_cols upd r) c = (case dict_get upd c of None \<Rightarrow> dict_get r c | Some v \<Rightarrow> Some v)"
  using assms
proof (induction upd arbitrary: r)
  case (Cons cv upd)
  obtain c' v where cv: "cv = (c', v)" by (cases cv)
  have "set_cols (cv # upd) r = set_cols upd (dict_set c' v r)" by (simp add: set_cols_def cv)
  moreover have "c' \<notin> fst ` set upd" using Cons.prems cv by auto
  then have "dict_get upd c' = None" by (simp add: map_of_eq_None_iff)
  ultimately show ?case using Cons cv by (auto split: option.splits)
qed (simp add: set_cols_def)

lemma row_eqI:
  assumes "map fst r = map fst r'" "distinct (map fst r)" "\<And>c. dict_get r c = dict_get r' c"
  shows "r = (r' :: row)"
proof (rule nth_equalityI)
  show len: "length r = length r'" using assms(1) by (metis length_map)
  fix i assume i: "i < length r"
  have f: "fst (r ! i) = fst (r' ! i)" using assms(1) i len by (metis nth_map)
  have "dict_get r (fst (r ! i)) = Some (snd (r ! i))" using assms(2) i by simp
  moreover have "dict_get r' (fst (r' ! i)) = Some (snd (r' ! i))" using assms(1,2) i len by simp
  ultimately have "snd (r ! i) = snd (r' ! i)" using assms(3) f by (metis option.inject)
  with f show "r ! i = r' ! i" by (rule prod_eqI)
qed

lemma set_cols_enc:
  assumes "agree conflict (enc t m) (enc t' m')"
  shows "set_cols (update_cols conflict (enc t m)) (enc t' m') = enc t m"
proof (rule row_eqI)
  let ?u = "update_cols conflict (enc t m)"
  have d: "distinct (map fst (enc t m))" by (simp add: enc_cols cols_distinct)
  then have du: "distinct (map fst ?u)" by (simp add: update_cols_def distinct_map_filter)
  have "fst ` set ?u \<subseteq> set cols" unfolding enc_cols [of t m, symmetric] by (auto simp: update_cols_def)
  moreover have "set cols = fst ` set (enc t' m')" using enc_cols [of t' m'] by (metis list.set_map)
  ultimately have "map fst (set_cols ?u (enc t' m')) = map fst (enc t' m')"
    by (intro set_cols_keys) simp
  then show k: "map fst (set_cols ?u (enc t' m')) = map fst (enc t m)" by (simp add: enc_cols)
  then show "distinct (map fst (set_cols ?u (enc t' m')))" by (simp add: enc_cols cols_distinct)
  fix c
  have none: "dict_get (enc t m) c = None \<longleftrightarrow> dict_get (enc t' m') c = None"
    using enc_cols [of t m] enc_cols [of t' m'] by (metis list.set_map map_of_eq_None_iff)
  have eq: "dict_get (enc t m) c = dict_get (enc t' m') c" if "c \<in> set conflict"
  proof -
    have "row_get (enc t m) c = row_get (enc t' m') c" using that assms by (simp add: agree_def)
    with none show ?thesis
      by (cases "dict_get (enc t m) c"; cases "dict_get (enc t' m') c") (auto simp: row_get_def)
  qed
  show "dict_get (set_cols ?u (enc t' m')) c = dict_get (enc t m) c"
    using none eq unfolding set_cols_get [OF du]
    by (auto simp: update_cols_def dict_get_filter_key split: option.splits)
qed

lemma upsert_put:
  "upsert_stmt uniques conflict (enc t m) (map (\<lambda>(t, x). enc t x) ms) =
     commit uniques (map (\<lambda>(t, x). enc t x) (put key t m ms))"
proof (cases "\<exists>(t', x) \<in> set ms. t' = t \<and> key x = key m")
  case True
  then obtain x where "(t, x) \<in> set ms" "key x = key m" by auto
  then have "enc t x \<in> set (map (\<lambda>(t, x). enc t x) ms)" "agree conflict (enc t m) (enc t x)"
    by (force simp: enc_agree)+
  then have "\<exists>r \<in> set (map (\<lambda>(t, x). enc t x) ms). agree conflict (enc t m) r" by blast
  moreover have "map (\<lambda>r. if agree conflict (enc t m) r then set_cols (update_cols conflict (enc t m)) r else r)
      (map (\<lambda>(t, x). enc t x) ms) = map (\<lambda>(t, x). enc t x) (put key t m ms)"
    using True by (auto simp: put_def enc_agree set_cols_enc)
  ultimately show ?thesis by (simp add: upsert_stmt_def)
next
  case False
  then have "\<not> (\<exists>r \<in> set (map (\<lambda>(t, x). enc t x) ms). agree conflict (enc t m) r)"
    by (auto simp: enc_agree)
  with False show ?thesis by (auto simp: upsert_stmt_def insert_row_def put_def)
qed

lemma unique_conflict:
  "unique_on conflict (map (\<lambda>(t, x). enc t x) ms) \<longleftrightarrow> distinct (map (\<lambda>(t, x). (t, key x)) ms)"
  by (induction ms) (auto simp: enc_agree)

lemma upsert_key_only:
  assumes "distinct (map (\<lambda>(t, x). (t, key x)) ms)"
  shows "upsert_stmt [conflict] conflict (enc t m) (map (\<lambda>(t, x). enc t x) ms) =
     Inr (map (\<lambda>(t, x). enc t x) (put key t m ms))"
  using assms by (simp add: upsert_put commit_def unique_conflict put_distinct)

end

section \<open>Tables and repositories\<close>

datatype review_item = ItemModel attribution_result | ItemJson json

record review_row =
  rq_id :: string
  rq_tenant_id :: tenant_id
  rq_item :: review_item
  rq_enqueued_at :: instant

record db =
  db_run :: table
  db_cost_event :: table
  db_outcome_event :: table
  db_entity_alias :: table
  db_reconciliation :: "reconciliation_record list"
  db_review_queue :: "review_row list"

definition empty_db :: db where
  "empty_db = \<lparr>db_run = [], db_cost_event = [], db_outcome_event = [], db_entity_alias = [],
     db_reconciliation = [], db_review_queue = []\<rparr>"

definition tenant_pk :: "string list" where
  "tenant_pk = [''tenant_id'', ''id'']"

subsection \<open>Runs\<close>

definition run_upsert :: "db \<Rightarrow> tenant_id \<Rightarrow> run \<Rightarrow> db res" where
  "run_upsert d tid m =
     res_bind (upsert_stmt [tenant_pk] tenant_pk (run_to_row tid m) (db_run d))
       (\<lambda>tbl. Inr (d\<lparr>db_run := tbl\<rparr>))"

definition run_get :: "db \<Rightarrow> tenant_id \<Rightarrow> run_id \<Rightarrow> run option res" where
  "run_get d tid i =
     (case filter (\<lambda>r. row_get r ''id'' = CStr i) (require_tenant tid (db_run d)) of
        [] \<Rightarrow> Inr None
      | [r] \<Rightarrow> res_bind (row_to_run r) (\<lambda>m. Inr (Some m))
      | _ \<Rightarrow> Inl MultipleResultsFound)"

definition run_list_by_entity :: "db \<Rightarrow> tenant_id \<Rightarrow> entity_key \<Rightarrow> run list res" where
  "run_list_by_entity d tid k =
     res_bind (res_traverse row_to_run (require_tenant tid (db_run d)))
       (\<lambda>runs. Inr (filter (\<lambda>m. k \<in> set (run_entity_keys m)) runs))"

subsection \<open>Cost events\<close>

definition cost_idem :: "string list" where
  "cost_idem = [''tenant_id'', ''run_id'', ''attempt_id'']"

definition cost_upsert :: "db \<Rightarrow> tenant_id \<Rightarrow> cost_event \<Rightarrow> db res" where
  "cost_upsert d tid m =
     res_bind (upsert_stmt [tenant_pk, cost_idem] cost_idem (cost_event_to_row tid m) (db_cost_event d))
       (\<lambda>tbl. Inr (d\<lparr>db_cost_event := tbl\<rparr>))"

definition cost_list_for_run :: "db \<Rightarrow> tenant_id \<Rightarrow> run_id \<Rightarrow> cost_event list res" where
  "cost_list_for_run d tid i =
     res_traverse row_to_cost_event
       (filter (\<lambda>r. row_get r ''run_id'' = CStr i) (require_tenant tid (db_cost_event d)))"

text \<open>Comparison of a timestamp column with a bound; a null never satisfies it.\<close>

fun cell_in_window :: "instant \<Rightarrow> instant \<Rightarrow> cell \<Rightarrow> bool" where
  "cell_in_window a b (CTime t) \<longleftrightarrow> a \<le> t \<and> t < b"
| "cell_in_window a b _ \<longleftrightarrow> False"

definition cost_list_in_window :: "db \<Rightarrow> tenant_id \<Rightarrow> instant \<Rightarrow> instant \<Rightarrow> cost_event list res" where
  "cost_list_in_window d tid a b =
     res_traverse row_to_cost_event
       (filter (\<lambda>r. cell_in_window a b (row_get r ''occurred_at'')) (require_tenant tid (db_cost_event d)))"

subsection \<open>Outcomes\<close>

definition outcome_correlation :: "string list" where
  "outcome_correlation = [''tenant_id'', ''correlation_id'']"

definition outcome_upsert :: "db \<Rightarrow> tenant_id \<Rightarrow> outcome_event \<Rightarrow> db res" where
  "outcome_upsert d tid m =
     res_bind (upsert_stmt [tenant_pk, outcome_correlation] tenant_pk (outcome_event_to_row tid m)
         (db_outcome_event d))
       (\<lambda>tbl. Inr (d\<lparr>db_outcome_event := tbl\<rparr>))"

definition outcome_get :: "db \<Rightarrow> tenant_id \<Rightarrow> outcome_id \<Rightarrow> outcome_event option res" where
  "outcome_get d tid i =
     (case filter (\<lambda>r. row_get r ''id'' = CStr i) (require_tenant tid (db_outcome_event d)) of
        [] \<Rightarrow> Inr None
      | [r] \<Rightarrow> res_bind (row_to_outcome_event r) (\<lambda>m. Inr (Some m))
      | _ \<Rightarrow> Inl MultipleResultsFound)"

definition outcome_retract :: "db \<Rightarrow> tenant_id \<Rightarrow> outcome_id \<Rightarrow> db res" where
  "outcome_retract d tid i =
     (case filter (\<lambda>r. row_get r ''id'' = CStr i) (require_tenant tid (db_outcome_event d)) of
        [] \<Rightarrow> Inl ValueError
      | [r] \<Rightarrow>
          res_bind (row_at r ''signal_class'') (\<lambda>sig.
            if sig \<noteq> CStr (signal_value OutcomeConfirmed) then Inl ValueError
            else Inr (d\<lparr>db_outcome_event :=
              map (\<lambda>x. if row_get x ''tenant_id'' = CUuid tid \<and> row_get x ''id'' = CStr i
                       then dict_set ''signal_class'' (CStr (signal_value OutcomeRetracted)) x else x)
                (db_outcome_event d)\<rparr>))
      | _ \<Rightarrow> Inl MultipleResultsFound)"

definition outcome_list_unbound :: "db \<Rightarrow> tenant_id \<Rightarrow> outcome_event list res" where
  "outcome_list_unbound d tid =
     res_traverse row_to_outcome_event
       (filter (\<lambda>r. row_get r ''bound_run_id'' = CNull) (require_tenant tid (db_outcome_event d)))"

definition outcome_list_in_window :: "db \<Rightarrow> tenant_id \<Rightarrow> instant \<Rightarrow> instant \<Rightarrow> outcome_event list res" where
  "outcome_list_in_window d tid a b =
     res_traverse row_to_outcome_event
       (filter (\<lambda>r. cell_in_window a b (row_get r ''occurred_at'')) (require_tenant tid (db_outcome_event d)))"

subsection \<open>Entity aliases\<close>

definition alias_row_id :: "entity_alias \<Rightarrow> string" where
  "alias_row_id a =
     ''ea_'' @ fst (ea_source a) @ '':'' @ snd (ea_source a) @ ''>'' @ fst (ea_target a) @ '':'' @ snd (ea_target a)"

definition alias_edge_cols :: "string list" where
  "alias_edge_cols = [''tenant_id'', ''source_type'', ''source_value'', ''target_type'', ''target_value'']"

definition alias_to_row :: "tenant_id \<Rightarrow> entity_alias \<Rightarrow> instant \<Rightarrow> row" where
  "alias_to_row tid a now =
    [(''id'', CStr (alias_row_id a)),
     (''tenant_id'', CUuid tid),
     (''source_type'', CStr (fst (ea_source a))),
     (''source_value'', CStr (snd (ea_source a))),
     (''target_type'', CStr (fst (ea_target a))),
     (''target_value'', CStr (snd (ea_target a))),
     (''created_at'', CTime now)]"

definition alias_append :: "db \<Rightarrow> tenant_id \<Rightarrow> entity_alias \<Rightarrow> instant \<Rightarrow> db res" where
  "alias_append d tid a now =
     res_bind (upsert_stmt [tenant_pk, alias_edge_cols] tenant_pk (alias_to_row tid a now) (db_entity_alias d))
       (\<lambda>tbl. Inr (d\<lparr>db_entity_alias := tbl\<rparr>))"

definition row_to_alias :: "row \<Rightarrow> entity_alias res" where
  "row_to_alias r =
     res_bind (res_bind (row_at r ''source_type'') as_str) (\<lambda>st.
     res_bind (res_bind (row_at r ''source_value'') as_str) (\<lambda>sv.
     res_bind (res_bind (row_at r ''target_type'') as_str) (\<lambda>tt.
     res_bind (res_bind (row_at r ''target_value'') as_str) (\<lambda>tv.
       Inr \<lparr>ea_source = (st, sv), ea_target = (tt, tv)\<rparr>))))"

definition alias_list_all :: "db \<Rightarrow> tenant_id \<Rightarrow> entity_alias list res" where
  "alias_list_all d tid = res_traverse row_to_alias (require_tenant tid (db_entity_alias d))"

subsection \<open>Review queue\<close>

text \<open>A pydantic model is dumped to JSON before it is stored; JSON passes through.\<close>

definition opt_json :: "('a \<Rightarrow> json) \<Rightarrow> 'a option \<Rightarrow> json" where
  "opt_json f x = (case x of None \<Rightarrow> JNull | Some v \<Rightarrow> f v)"

definition candidate_dump :: "attribution_candidate \<Rightarrow> json" where
  "candidate_dump c = JObj [(''run_id'', JStr (ac_run_id c)), (''tier'', JStr (tier_value (ac_tier c))),
     (''score'', JFloat (ac_score c)), (''rationale'', JStr (ac_rationale c))]"

definition result_dump :: "attribution_result \<Rightarrow> json" where
  "result_dump r = JObj
    [(''tenant_id'', JStr (ar_tenant_id r)),
     (''outcome_id'', JStr (ar_outcome_id r)),
     (''run_id'', opt_json JStr (ar_run_id r)),
     (''tier'', opt_json (\<lambda>t. JStr (tier_value t)) (ar_tier r)),
     (''bound_by'', opt_json JStr (ar_bound_by r)),
     (''candidates'', JList (map candidate_dump (ar_candidates r))),
     (''review_required'', JBool (ar_review_required r))]"

fun as_jsonable :: "review_item \<Rightarrow> review_item" where
  "as_jsonable (ItemModel r) = ItemJson (result_dump r)"
| "as_jsonable (ItemJson j) = ItemJson j"

definition review_enqueue :: "db \<Rightarrow> tenant_id \<Rightarrow> review_item \<Rightarrow> string \<Rightarrow> instant \<Rightarrow> db res" where
  "review_enqueue d tid item new_id now =
     (if \<exists>q \<in> set (db_review_queue d). rq_id q = new_id \<and> rq_tenant_id q = tid then Inl IntegrityError
      else Inr (d\<lparr>db_review_queue := db_review_queue d @
        [\<lparr>rq_id = new_id, rq_tenant_id = tid, rq_item = as_jsonable item, rq_enqueued_at = now\<rparr>]\<rparr>))"

definition review_list_pending :: "db \<Rightarrow> tenant_id \<Rightarrow> review_item list" where
  "review_list_pending d tid =
     map rq_item (sort_key (\<lambda>q. (rq_enqueued_at q, rq_id q))
       (filter (\<lambda>q. rq_tenant_id q = tid) (db_review_queue d)))"

subsection \<open>Reconciliation records\<close>

definition recon_append :: "db \<Rightarrow> tenant_id \<Rightarrow> reconciliation_record \<Rightarrow> db res" where
  "recon_append d tid r =
     (if \<exists>q \<in> set (db_reconciliation d). rec_id q = rec_id r \<and> rec_tenant_id q = tid then Inl IntegrityError
      else Inr (d\<lparr>db_reconciliation := db_reconciliation d @ [r\<lparr>rec_tenant_id := tid\<rparr>]\<rparr>))"

text \<open>\<open>ORDER BY created_at DESC\<close>.\<close>

definition newest_first :: "reconciliation_record list \<Rightarrow> reconciliation_record list" where
  "newest_first rs = sort_key (\<lambda>r. - rec_created_at r) rs"

definition recon_list_for_match_key :: "db \<Rightarrow> tenant_id \<Rightarrow> match_key \<Rightarrow> reconciliation_record list" where
  "recon_list_for_match_key d tid k =
     newest_first (filter (\<lambda>r. rec_tenant_id r = tid \<and> rec_match_key r = k) (db_reconciliation d))"

fun drift_alerts_of :: "reconciliation_record list \<Rightarrow> drift_alert list res" where
  "drift_alerts_of [] = Inr []"
| "drift_alerts_of (r # rs) =
     (if 10 < dec \<bar>rec_drift_pct r\<bar> \<and> rec_drift_cause_ranked r \<noteq> []
      then res_bind (drift_alert_new (rec_match_key r) (rec_drift_pct r) (rec_drift_cause_ranked r)) (\<lambda>a.
        res_bind (drift_alerts_of rs) (\<lambda>as. Inr (a # as)))
      else drift_alerts_of rs)"

definition recon_list_drift_alerts :: "db \<Rightarrow> tenant_id \<Rightarrow> drift_alert list res" where
  "recon_list_drift_alerts d tid =
     drift_alerts_of (dedup_by rec_match_key []
       (newest_first (filter (\<lambda>r. rec_tenant_id r = tid) (db_reconciliation d))))"

section \<open>The mappers satisfy the codec contract\<close>

lemma row_get_simps [row_simps]:
  "row_get (run_to_row t m) ''id'' = CStr (run_id m)"
  "row_get (run_to_row t m) ''tenant_id'' = CUuid t"
  "row_get (cost_event_to_row t e) ''id'' = CStr (ce_id e)"
  "row_get (cost_event_to_row t e) ''tenant_id'' = CUuid t"
  "row_get (cost_event_to_row t e) ''run_id'' = CStr (ce_run_id e)"
  "row_get (cost_event_to_row t e) ''attempt_id'' = CStr (ce_attempt_id e)"
  "row_get (cost_event_to_row t e) ''occurred_at'' = CTime (ce_occurred_at e)"
  "row_get (outcome_event_to_row t x) ''id'' = CStr (oe_id x)"
  "row_get (outcome_event_to_row t x) ''tenant_id'' = CUuid t"
  "row_get (outcome_event_to_row t x) ''correlation_id'' = opt_cell CStr (oe_correlation_id x)"
  "row_get (outcome_event_to_row t x) ''bound_run_id'' = opt_cell CStr (ob_run_id (oe_binding x))"
  "row_get (outcome_event_to_row t x) ''occurred_at'' = CTime (oe_occurred_at x)"
  by (simp_all add: row_get_def run_to_row_def cost_event_to_row_def outcome_event_to_row_def)

interpretation run_codec: row_codec run_to_row run_id tenant_pk
  "[''id'', ''tenant_id'', ''agent_name'', ''started_at'', ''ended_at'', ''entity_keys'',
    ''experiment'', ''variant'', ''app'']"
proof
  show "agree tenant_pk (run_to_row t m) (run_to_row t' m') \<longleftrightarrow> t = t' \<and> run_id m = run_id m'"
    for t t' m m' by (auto simp: agree_def tenant_pk_def row_simps)
qed (simp_all add: run_to_row_def)

interpretation cost_codec: row_codec cost_event_to_row cost_idempotency_key cost_idem
  "map fst (cost_event_to_row [] undefined)"
proof
  show "agree cost_idem (cost_event_to_row t m) (cost_event_to_row t' m') \<longleftrightarrow>
      t = t' \<and> cost_idempotency_key m = cost_idempotency_key m'" for t t' m m'
    by (auto simp: agree_def cost_idem_def row_simps cost_idempotency_key_def)
qed (simp_all add: cost_event_to_row_def)

interpretation outcome_codec: row_codec outcome_event_to_row oe_id tenant_pk
  "map fst (outcome_event_to_row [] undefined)"
proof
  show "agree tenant_pk (outcome_event_to_row t m) (outcome_event_to_row t' m') \<longleftrightarrow>
      t = t' \<and> oe_id m = oe_id m'" for t t' m m'
    by (auto simp: agree_def tenant_pk_def row_simps)
qed (simp_all add: outcome_event_to_row_def)

section \<open>Run repository\<close>

text \<open>
  The port the cascade and the executor are written against (\<open>core/repositories.py\<close>):
  reads never fail in a well-formed state, they see one tenant only, and a write is seen
  by every later read under its tenant and id and by no other.
\<close>

locale run_repository =
  fixes invar :: "'s \<Rightarrow> bool"
    and view :: "'s \<Rightarrow> tenant_id \<Rightarrow> run_id \<Rightarrow> run option"
    and get :: "'s \<Rightarrow> tenant_id \<Rightarrow> run_id \<Rightarrow> run option res"
    and list_by_entity :: "'s \<Rightarrow> tenant_id \<Rightarrow> entity_key \<Rightarrow> run list res"
    and upsert :: "'s \<Rightarrow> tenant_id \<Rightarrow> run \<Rightarrow> 's res"
    and normal :: "tenant_id \<Rightarrow> run \<Rightarrow> run"
  assumes get_view: "invar s \<Longrightarrow> get s tid i = Inr (view s tid i)"
    and view_scope: "invar s \<Longrightarrow> view s tid i = Some r \<Longrightarrow> run_id r = i \<and> run_tenant_id r = tid"
    and list_view: "invar s \<Longrightarrow> \<exists>rs. list_by_entity s tid k = Inr rs \<and> distinct (map run_id rs) \<and>
      (\<forall>r. r \<in> set rs \<longleftrightarrow> view s tid (run_id r) = Some r \<and> k \<in> set (run_entity_keys r))"
    and upsert_view: "invar s \<Longrightarrow> \<exists>s'. upsert s tid r = Inr s' \<and> invar s' \<and>
      (\<forall>t i. view s' t i = (if t = tid \<and> i = run_id r then Some (normal tid r) else view s t i))"
    and normal_id: "run_id (normal tid r) = run_id r"
begin

lemma list_mem:
  assumes "invar s" "list_by_entity s tid k = Inr rs" "r \<in> set rs"
  shows "get s tid (run_id r) = Inr (Some r)" "run_tenant_id r = tid" "k \<in> set (run_entity_keys r)"
proof -
  obtain rs' where rs': "list_by_entity s tid k = Inr rs'"
    and mem: "\<forall>r. r \<in> set rs' \<longleftrightarrow> view s tid (run_id r) = Some r \<and> k \<in> set (run_entity_keys r)"
    using list_view [OF assms(1), of tid k] by blast
  from rs' assms(2) have "rs' = rs" by simp
  with mem assms(3) have v: "view s tid (run_id r) = Some r" and k: "k \<in> set (run_entity_keys r)"
    by blast+
  from v show "get s tid (run_id r) = Inr (Some r)" by (simp add: get_view [OF assms(1)])
  from view_scope [OF assms(1) v] show "run_tenant_id r = tid" by simp
  from k show "k \<in> set (run_entity_keys r)" .
qed

lemma upsert_then_get:
  assumes "invar s" "upsert s tid r = Inr s'"
  shows "get s' tid (run_id r) = Inr (Some (normal tid r))"
proof -
  obtain s1 where "upsert s tid r = Inr s1" "invar s1"
    "\<forall>t i. view s1 t i = (if t = tid \<and> i = run_id r then Some (normal tid r) else view s t i)"
    using upsert_view [OF assms(1), of tid r] by blast
  with assms(2) have "invar s'" "view s' tid (run_id r) = Some (normal tid r)" by simp_all
  then show ?thesis by (simp add: get_view)
qed

lemma upsert_other:
  assumes "invar s" "upsert s tid r = Inr s'" "t \<noteq> tid \<or> i \<noteq> run_id r"
  shows "get s' t i = get s t i"
proof -
  obtain s1 where "upsert s tid r = Inr s1" "invar s1"
    "\<forall>t i. view s1 t i = (if t = tid \<and> i = run_id r then Some (normal tid r) else view s t i)"
    using upsert_view [OF assms(1), of tid r] by blast
  with assms(2) have i: "invar s'"
    and v: "\<forall>t i. view s' t i = (if t = tid \<and> i = run_id r then Some (normal tid r) else view s t i)"
    by simp_all
  from v assms(3) have "view s' t i = view s t i" by auto
  then show ?thesis by (simp add: get_view [OF i] get_view [OF assms(1)])
qed

end

text \<open>The state the run table reaches: encoded runs, one per tenant and id.\<close>

definition run_rows :: "(tenant_id \<times> run) list \<Rightarrow> table" where
  "run_rows ms = map (\<lambda>(t, m). run_to_row t m) ms"

definition run_table_ok :: "db \<Rightarrow> bool" where
  "run_table_ok d \<longleftrightarrow> (\<exists>ms. db_run d = run_rows ms \<and> distinct (map (\<lambda>(t, m). (t, run_id m)) ms))"

text \<open>The abstract content of the run table.\<close>

definition run_view :: "db \<Rightarrow> tenant_id \<Rightarrow> run_id \<Rightarrow> run option" where
  "run_view d tid i =
     (case filter (\<lambda>r. row_get r ''tenant_id'' = CUuid tid \<and> row_get r ''id'' = CStr i) (db_run d) of
        [] \<Rightarrow> None
      | r # _ \<Rightarrow> (case row_to_run r of Inl _ \<Rightarrow> None | Inr m \<Rightarrow> Some m))"

lemma filter_key_singleton:
  assumes "distinct (map (\<lambda>(t, m). (t, key m)) ms)" "(tid, m) \<in> set ms"
  shows "filter (\<lambda>(t, x). t = tid \<and> key x = key m) ms = [(tid, m)]"
  using assms
proof (induction ms)
  case (Cons p ms)
  obtain t x where p: "p = (t, x)" by (cases p)
  show ?case
  proof (cases "t = tid \<and> key x = key m")
    case True
    have none: "(t', y) \<in> set ms \<Longrightarrow> \<not> (t' = tid \<and> key y = key m)" for t' y
      using Cons.prems(1) p True by force
    then have "(tid, m) \<notin> set ms" by blast
    then have "x = m" using Cons.prems(2) p True by auto
    moreover have "filter (\<lambda>(t, x). t = tid \<and> key x = key m) ms = []"
      using none by (auto simp: filter_empty_conv)
    ultimately show ?thesis using p True by simp
  next
    case False
    then have "(tid, m) \<in> set ms" using Cons.prems(2) p by auto
    with Cons False p show ?thesis by auto
  qed
qed simp

lemma filter_key_cases:
  assumes "distinct (map (\<lambda>(t, m). (t, key m)) ms)"
  obtains m where "(tid, m) \<in> set ms" "key m = i" "filter (\<lambda>(t, x). t = tid \<and> key x = i) ms = [(tid, m)]"
  | "\<forall>m. (tid, m) \<in> set ms \<longrightarrow> key m \<noteq> i" "filter (\<lambda>(t, x). t = tid \<and> key x = i) ms = []"
proof (cases "\<exists>m. (tid, m) \<in> set ms \<and> key m = i")
  case True
  then obtain m where m: "(tid, m) \<in> set ms" "key m = i" by blast
  with filter_key_singleton [OF assms m(1)] that(1) show ?thesis by blast
next
  case False
  then have "filter (\<lambda>(t, x). t = tid \<and> key x = i) ms = []" by (auto simp: filter_empty_conv)
  with False that(2) show ?thesis by blast
qed

lemma run_rows_filter:
  "filter (\<lambda>r. row_get r ''tenant_id'' = CUuid tid \<and> row_get r ''id'' = CStr i) (run_rows ms) =
     run_rows (filter (\<lambda>(t, m). t = tid \<and> run_id m = i) ms)"
  by (simp add: run_rows_def filter_map o_def case_prod_unfold row_simps)

lemma run_view_rows:
  assumes "db_run d = run_rows ms" "distinct (map (\<lambda>(t, m). (t, run_id m)) ms)"
  shows "run_view d tid i = Some r \<longleftrightarrow> (\<exists>m. (tid, m) \<in> set ms \<and> run_id m = i \<and> r = stored_run tid m)"
  using assms(2)
proof (cases rule: filter_key_cases [of run_id ms tid i])
  case (1 m)
  then have v: "run_view d tid i = Some (stored_run tid m)"
    unfolding run_view_def assms(1) run_rows_filter by (simp add: run_rows_def row_simps)
  have "m' = m" if "(tid, m') \<in> set ms" "run_id m' = i" for m'
    using filter_key_singleton [OF assms(2) that(1)] 1(3) that(2) by simp
  with v 1(1,2) show ?thesis by (metis option.inject)
next
  case 2
  then have "run_view d tid i = None"
    unfolding run_view_def assms(1) run_rows_filter by (simp add: run_rows_def)
  with 2 show ?thesis by auto
qed

lemma stored_run_simps [simp]:
  "run_id (stored_run t m) = run_id m" "run_tenant_id (stored_run t m) = t"
  "set (run_entity_keys (stored_run t m)) = set (run_entity_keys m)"
  by (simp_all add: stored_run_def)

lemma run_get_view:
  assumes "run_table_ok d"
  shows "run_get d tid i = Inr (run_view d tid i)"
proof -
  obtain ms where ms: "db_run d = run_rows ms" "distinct (map (\<lambda>(t, m). (t, run_id m)) ms)"
    using assms by (auto simp: run_table_ok_def)
  have f: "filter (\<lambda>r. row_get r ''id'' = CStr i) (require_tenant tid (db_run d)) =
      run_rows (filter (\<lambda>(t, m). t = tid \<and> run_id m = i) ms)"
    unfolding require_tenant_def filter_filter ms(1) run_rows_filter [symmetric] by (simp add: conj_commute)
  have v: "run_view d tid i = (case run_rows (filter (\<lambda>(t, m). t = tid \<and> run_id m = i) ms) of
        [] \<Rightarrow> None | r # _ \<Rightarrow> (case row_to_run r of Inl _ \<Rightarrow> None | Inr m \<Rightarrow> Some m))"
    unfolding run_view_def ms(1) run_rows_filter ..
  from ms(2) show ?thesis
    by (cases rule: filter_key_cases [of run_id ms tid i])
      (simp_all add: run_get_def f v run_rows_def row_simps)
qed

lemma run_list_view:
  assumes "run_table_ok d"
  shows "\<exists>rs. run_list_by_entity d tid k = Inr rs \<and> distinct (map run_id rs) \<and>
     (\<forall>r. r \<in> set rs \<longleftrightarrow> run_view d tid (run_id r) = Some r \<and> k \<in> set (run_entity_keys r))"
proof -
  obtain ms where ms: "db_run d = run_rows ms" "distinct (map (\<lambda>(t, m). (t, run_id m)) ms)"
    using assms by (auto simp: run_table_ok_def)
  let ?own = "filter (\<lambda>(t, m). t = tid) ms"
  have req: "require_tenant tid (db_run d) = run_rows ?own"
    unfolding require_tenant_def ms(1) run_rows_def
    by (simp add: filter_map o_def case_prod_unfold row_simps)
  have "res_traverse row_to_run (run_rows xs) = Inr (map (\<lambda>(t, m). stored_run t m) xs)" for xs
    by (induction xs) (auto simp: run_rows_def row_simps)
  then have tr: "res_traverse row_to_run (run_rows ?own) = Inr (map (\<lambda>(t, m). stored_run t m) ?own)" .
  let ?all = "map (\<lambda>(t, m). stored_run t m) ?own"
  let ?rs = "filter (\<lambda>m. k \<in> set (run_entity_keys m)) ?all"
  have l: "run_list_by_entity d tid k = Inr ?rs" by (simp add: run_list_by_entity_def req tr)
  have "distinct (map (\<lambda>(t, m). (t, run_id m)) ?own)" using ms(2) by (rule distinct_map_filter)
  moreover have "map (\<lambda>(t, m). (t, run_id m)) ?own = map (Pair tid) (map run_id ?all)" by auto
  ultimately have "distinct (map run_id ?all)" by (metis distinct_map)
  then have dist: "distinct (map run_id ?rs)" by (rule distinct_map_filter)
  have mem: "r \<in> set ?all \<longleftrightarrow> run_view d tid (run_id r) = Some r" for r
  proof -
    have "r \<in> set ?all \<longleftrightarrow> (\<exists>m. (tid, m) \<in> set ms \<and> r = stored_run tid m)" by force
    also have "\<dots> \<longleftrightarrow> (\<exists>m. (tid, m) \<in> set ms \<and> run_id m = run_id r \<and> r = stored_run tid m)"
      by (metis stored_run_simps(1))
    finally show ?thesis unfolding run_view_rows [OF ms] .
  qed
  have "\<forall>r. r \<in> set ?rs \<longleftrightarrow> run_view d tid (run_id r) = Some r \<and> k \<in> set (run_entity_keys r)"
    unfolding set_filter mem_Collect_eq mem by (rule allI) (rule refl)
  with l dist show ?thesis by blast
qed

lemma run_upsert_view:
  assumes "run_table_ok d"
  shows "\<exists>d'. run_upsert d tid r = Inr d' \<and> run_table_ok d' \<and>
     (\<forall>t i. run_view d' t i = (if t = tid \<and> i = run_id r then Some (stored_run tid r) else run_view d t i))"
proof -
  obtain ms where ms: "db_run d = run_rows ms" "distinct (map (\<lambda>(t, m). (t, run_id m)) ms)"
    using assms by (auto simp: run_table_ok_def)
  let ?ms = "put run_id tid r ms"
  let ?d = "d\<lparr>db_run := run_rows ?ms\<rparr>"
  have u: "run_upsert d tid r = Inr ?d"
    using run_codec.upsert_key_only [OF ms(2)] by (simp add: run_upsert_def ms(1) run_rows_def)
  have dm: "distinct (map (\<lambda>(t, m). (t, run_id m)) ?ms)" using ms(2) by (rule put_distinct)
  have v: "run_view ?d t i = Some x \<longleftrightarrow>
      (if t = tid \<and> i = run_id r then x = stored_run tid r else run_view d t i = Some x)" for t i x
    unfolding run_view_rows [OF ms] run_view_rows [of ?d ?ms, OF _ dm, simplified]
    by (auto simp: put_mem [OF ms(2)])
  have "run_view ?d t i = (if t = tid \<and> i = run_id r then Some (stored_run tid r) else run_view d t i)" for t i
    using v [of t i] by (metis (no_types, lifting) not_None_eq)
  moreover have "run_table_ok ?d" using dm by (auto simp: run_table_ok_def)
  ultimately show ?thesis using u by blast
qed

interpretation run_repo: run_repository run_table_ok run_view run_get run_list_by_entity run_upsert stored_run
proof
  fix d tid i r
  assume ok: "run_table_ok d" and v: "run_view d tid i = Some r"
  obtain ms where ms: "db_run d = run_rows ms" "distinct (map (\<lambda>(t, m). (t, run_id m)) ms)"
    using ok by (auto simp: run_table_ok_def)
  show "run_id r = i \<and> run_tenant_id r = tid" using v unfolding run_view_rows [OF ms] by auto
qed (simp_all add: run_get_view run_list_view run_upsert_view)

section \<open>Histories of run writes\<close>

text \<open>A sequence of committed \<open>RunRepository.upsert\<close> calls, stopping at the first error.\<close>

fun run_upserts :: "db \<Rightarrow> (tenant_id \<times> run) list \<Rightarrow> db res" where
  "run_upserts d [] = Inr d"
| "run_upserts d ((tid, r) # ws) = res_bind (run_upsert d tid r) (\<lambda>d'. run_upserts d' ws)"

text \<open>The abstract store: the last write under a tenant and an id.\<close>

fun last_write :: "(tenant_id \<times> run) list \<Rightarrow> tenant_id \<Rightarrow> run_id \<Rightarrow> run option" where
  "last_write [] tid i = None"
| "last_write ((t, r) # ws) tid i =
     (case last_write ws tid i of Some x \<Rightarrow> Some x
      | None \<Rightarrow> if t = tid \<and> run_id r = i then Some r else None)"

lemma empty_db_ok: "run_table_ok empty_db" "run_view empty_db tid i = None"
  by (auto simp: run_table_ok_def empty_db_def run_rows_def run_view_def)

lemma run_upserts_view:
  assumes "run_table_ok d"
  shows "\<exists>d'. run_upserts d ws = Inr d' \<and> run_table_ok d' \<and>
     (\<forall>tid i. run_view d' tid i =
        (case last_write ws tid i of None \<Rightarrow> run_view d tid i | Some r \<Rightarrow> Some (stored_run tid r)))"
  using assms
proof (induction ws arbitrary: d)
  case (Cons w ws)
  obtain t r where w: "w = (t, r)" by (cases w)
  obtain d1 where d1: "run_upsert d t r = Inr d1" "run_table_ok d1"
    and v1: "\<forall>t' i. run_view d1 t' i = (if t' = t \<and> i = run_id r then Some (stored_run t r) else run_view d t' i)"
    using run_upsert_view [OF Cons.prems, of t r] by blast
  obtain d2 where d2: "run_upserts d1 ws = Inr d2" "run_table_ok d2"
    and v2: "\<forall>tid i. run_view d2 tid i =
        (case last_write ws tid i of None \<Rightarrow> run_view d1 tid i | Some r \<Rightarrow> Some (stored_run tid r))"
    using Cons.IH [OF d1(2)] by blast
  have "run_view d2 tid i = (case last_write (w # ws) tid i of
      None \<Rightarrow> run_view d tid i | Some r \<Rightarrow> Some (stored_run tid r))" for tid i
    using v1 v2 w by (cases "last_write ws tid i") auto
  with d1 d2 w show ?case by auto
qed simp

section \<open>Cost events: one row per attempt\<close>

definition cost_rows :: "(tenant_id \<times> cost_event) list \<Rightarrow> table" where
  "cost_rows ms = map (\<lambda>(t, m). cost_event_to_row t m) ms"

definition cost_table_ok :: "db \<Rightarrow> bool" where
  "cost_table_ok d \<longleftrightarrow> (\<exists>ms. db_cost_event d = cost_rows ms \<and>
     (\<forall>(t, m) \<in> set ms. cost_event_ok m) \<and>
     distinct (map (\<lambda>(t, m). (t, cost_idempotency_key m)) ms) \<and>
     distinct (map (\<lambda>(t, m). (t, ce_id m)) ms))"

lemma cost_unique_pk:
  "unique_on tenant_pk (cost_rows ms) \<longleftrightarrow> distinct (map (\<lambda>(t, m). (t, ce_id m)) ms)"
  by (induction ms) (auto simp: cost_rows_def agree_def tenant_pk_def row_simps)

lemma cost_upsert_rows:
  assumes "db_cost_event d = cost_rows ms" "distinct (map (\<lambda>(t, m). (t, cost_idempotency_key m)) ms)"
  shows "cost_upsert d tid e =
     (if distinct (map (\<lambda>(t, m). (t, ce_id m)) (put cost_idempotency_key tid e ms))
      then Inr (d\<lparr>db_cost_event := cost_rows (put cost_idempotency_key tid e ms)\<rparr>)
      else Inl IntegrityError)"
proof -
  have "unique_on cost_idem (cost_rows (put cost_idempotency_key tid e ms))"
    unfolding cost_rows_def cost_codec.unique_conflict using assms(2) by (rule put_distinct)
  moreover have "upsert_stmt [tenant_pk, cost_idem] cost_idem (cost_event_to_row tid e) (db_cost_event d) =
      commit [tenant_pk, cost_idem] (cost_rows (put cost_idempotency_key tid e ms))"
    unfolding assms(1) cost_rows_def by (rule cost_codec.upsert_put)
  ultimately show ?thesis by (simp add: cost_upsert_def commit_def cost_unique_pk)
qed

lemma cost_list_rows:
  assumes "db_cost_event d = cost_rows ms" "\<forall>(t, m) \<in> set ms. cost_event_ok m"
  shows "cost_list_for_run d tid rid =
     Inr (map (\<lambda>(t, m). m\<lparr>ce_tenant_id := t\<rparr>) (filter (\<lambda>(t, m). t = tid \<and> ce_run_id m = rid) ms))"
proof -
  have f: "filter (\<lambda>r. row_get r ''run_id'' = CStr rid) (require_tenant tid (db_cost_event d)) =
      cost_rows (filter (\<lambda>(t, m). t = tid \<and> ce_run_id m = rid) ms)"
    unfolding assms(1) require_tenant_def cost_rows_def
    by (simp add: filter_map o_def case_prod_unfold row_simps conj_commute)
  have "res_traverse row_to_cost_event (cost_rows xs) = Inr (map (\<lambda>(t, m). m\<lparr>ce_tenant_id := t\<rparr>) xs)"
    if "\<forall>(t, m) \<in> set xs. cost_event_ok m" for xs
    using that by (induction xs) (auto simp: cost_rows_def row_simps)
  then show ?thesis unfolding cost_list_for_run_def f using assms(2) by auto
qed

lemma cost_attempts_distinct:
  assumes "distinct (map (\<lambda>(t, m). (t, cost_idempotency_key m)) ms)"
  shows "distinct (map ce_attempt_id (map (\<lambda>(t, m). m\<lparr>ce_tenant_id := t\<rparr>)
     (filter (\<lambda>(t, m). t = tid \<and> ce_run_id m = rid) ms)))"
  using assms by (induction ms) (auto simp: cost_idempotency_key_def image_iff)

lemma cost_events_put:
  assumes "distinct (map (\<lambda>(t, m). (t, cost_idempotency_key m)) ms)"
  shows "set (map (\<lambda>(t, m). m\<lparr>ce_tenant_id := t\<rparr>)
       (filter (\<lambda>(t, m). t = tid \<and> ce_run_id m = ce_run_id e) (put cost_idempotency_key tid e ms))) =
     insert (e\<lparr>ce_tenant_id := tid\<rparr>) {x \<in> set (map (\<lambda>(t, m). m\<lparr>ce_tenant_id := t\<rparr>)
       (filter (\<lambda>(t, m). t = tid \<and> ce_run_id m = ce_run_id e) ms)). ce_attempt_id x \<noteq> ce_attempt_id e}"
    (is "?l = ?r")
proof -
  have own: "set (map (\<lambda>(t, m). m\<lparr>ce_tenant_id := t\<rparr>) (filter (\<lambda>(t, m). t = tid \<and> ce_run_id m = ce_run_id e) xs)) =
      (\<lambda>m. m\<lparr>ce_tenant_id := tid\<rparr>) ` {m. (tid, m) \<in> set xs \<and> ce_run_id m = ce_run_id e}" for xs
    by force
  have "{m. (tid, m) \<in> set (put cost_idempotency_key tid e ms) \<and> ce_run_id m = ce_run_id e} =
      insert e {m. (tid, m) \<in> set ms \<and> ce_run_id m = ce_run_id e \<and> ce_attempt_id m \<noteq> ce_attempt_id e}"
    by (auto simp: put_mem [OF assms] cost_idempotency_key_def)
  then have "?l = (\<lambda>m. m\<lparr>ce_tenant_id := tid\<rparr>) `
      insert e {m. (tid, m) \<in> set ms \<and> ce_run_id m = ce_run_id e \<and> ce_attempt_id m \<noteq> ce_attempt_id e}"
    unfolding own by simp
  also have "\<dots> = ?r" unfolding own by (auto simp del: image_insert)
  finally show ?thesis .
qed

section \<open>Outcomes\<close>

definition outcome_rows :: "(tenant_id \<times> outcome_event) list \<Rightarrow> table" where
  "outcome_rows ms = map (\<lambda>(t, m). outcome_event_to_row t m) ms"

definition outcome_table_ok :: "db \<Rightarrow> bool" where
  "outcome_table_ok d \<longleftrightarrow>
     (\<exists>ms. db_outcome_event d = outcome_rows ms \<and> distinct (map (\<lambda>(t, m). (t, oe_id m)) ms))"

definition retracted :: "outcome_event \<Rightarrow> outcome_event" where
  "retracted m = m\<lparr>oe_signal_class := OutcomeRetracted\<rparr>"

lemma outcome_rows_filter:
  "filter (\<lambda>r. row_get r ''id'' = CStr i) (require_tenant tid (outcome_rows ms)) =
     outcome_rows (filter (\<lambda>(t, m). t = tid \<and> oe_id m = i) ms)"
  by (simp add: outcome_rows_def require_tenant_def filter_map o_def case_prod_unfold row_simps conj_commute)

lemma outcome_get_cases:
  assumes "db_outcome_event d = outcome_rows ms" "distinct (map (\<lambda>(t, m). (t, oe_id m)) ms)"
  obtains m where "(tid, m) \<in> set ms" "oe_id m = i"
      "filter (\<lambda>(t, m). t = tid \<and> oe_id m = i) ms = [(tid, m)]"
      "outcome_get d tid i = Inr (Some (stored_outcome tid m))"
  | "\<forall>m. (tid, m) \<in> set ms \<longrightarrow> oe_id m \<noteq> i"
      "filter (\<lambda>(t, m). t = tid \<and> oe_id m = i) ms = []" "outcome_get d tid i = Inr None"
  using assms(2)
  by (cases rule: filter_key_cases [of oe_id ms tid i])
    (simp_all add: outcome_get_def assms(1) outcome_rows_filter, simp_all add: outcome_rows_def row_simps)

lemma outcome_get_mem:
  assumes "db_outcome_event d = outcome_rows ms" "distinct (map (\<lambda>(t, m). (t, oe_id m)) ms)" "(tid, m) \<in> set ms"
  shows "outcome_get d tid (oe_id m) = Inr (Some (stored_outcome tid m))"
  unfolding outcome_get_def assms(1) outcome_rows_filter filter_key_singleton [OF assms(2,3)]
  by (simp add: outcome_rows_def row_simps)

lemma outcome_retract_rows:
  "map (\<lambda>x. if row_get x ''tenant_id'' = CUuid tid \<and> row_get x ''id'' = CStr i
            then dict_set ''signal_class'' (CStr (signal_value OutcomeRetracted)) x else x) (outcome_rows ms) =
   outcome_rows (map (\<lambda>(t, m). (t, if t = tid \<and> oe_id m = i then retracted m else m)) ms)"
proof -
  have "dict_set ''signal_class'' (CStr (signal_value OutcomeRetracted)) (outcome_event_to_row t m) =
      outcome_event_to_row t (retracted m)" for t m
    by (simp add: outcome_event_to_row_def retracted_def)
  then show ?thesis by (auto simp: outcome_rows_def row_simps)
qed

lemma outcome_retract_eq:
  assumes "db_outcome_event d = outcome_rows ms" "distinct (map (\<lambda>(t, m). (t, oe_id m)) ms)"
  shows "outcome_retract d tid i =
     (case outcome_get d tid i of
        Inr (Some x) \<Rightarrow> if oe_signal_class x \<noteq> OutcomeConfirmed then Inl ValueError
          else Inr (d\<lparr>db_outcome_event :=
            outcome_rows (map (\<lambda>(t, m). (t, if t = tid \<and> oe_id m = i then retracted m else m)) ms)\<rparr>)
      | _ \<Rightarrow> Inl ValueError)"
proof (cases rule: outcome_get_cases [OF assms, of tid i])
  case (1 m)
  have sig: "row_at (outcome_event_to_row tid m) ''signal_class'' = Inr (CStr (signal_value (oe_signal_class m)))"
    by (simp add: row_at_def outcome_event_to_row_def)
  have inj: "signal_value s = signal_value OutcomeConfirmed \<longleftrightarrow> s = OutcomeConfirmed" for s
    by (cases s) simp_all
  have one: "filter (\<lambda>r. row_get r ''id'' = CStr i) (require_tenant tid (db_outcome_event d)) =
      [outcome_event_to_row tid m]"
    unfolding assms(1) outcome_rows_filter 1(3) by (simp add: outcome_rows_def)
  have "oe_signal_class (stored_outcome tid m) = oe_signal_class m" by (simp add: stored_outcome_def)
  then show ?thesis
    unfolding outcome_retract_def one 1(4)
    by (simp add: sig inj assms(1) outcome_retract_rows del: signal_value.simps)
next
  case 2
  then show ?thesis
    unfolding outcome_retract_def assms(1) outcome_rows_filter 2(2,3) by (simp add: outcome_rows_def)
qed

lemma retract_effect:
  assumes rows: "db_outcome_event d = outcome_rows ms" and dis: "distinct (map (\<lambda>(t, m). (t, oe_id m)) ms)"
    and d': "db_outcome_event d' = outcome_rows (map (\<lambda>(t, m). (t, if t = tid \<and> oe_id m = i then retracted m else m)) ms)"
  shows "outcome_table_ok d'"
    and "outcome_get d tid i = Inr (Some x) \<Longrightarrow> outcome_get d' tid i = Inr (Some (retracted x))"
    and "(t, j) \<noteq> (tid, i) \<Longrightarrow> outcome_get d' t j = outcome_get d t j"
proof -
  let ?g = "\<lambda>(t, m). (t, if t = tid \<and> oe_id m = i then retracted m else m)"
  have id: "oe_id (retracted m) = oe_id m" for m by (simp add: retracted_def)
  have "map (\<lambda>(t, m). (t, oe_id m)) (map ?g ms) = map (\<lambda>(t, m). (t, oe_id m)) ms" by (auto simp: id)
  then have dis': "distinct (map (\<lambda>(t, m). (t, oe_id m)) (map ?g ms))" using dis by metis
  then show "outcome_table_ok d'" using d' by (auto simp: outcome_table_ok_def)
  have f: "filter (\<lambda>(t, m). t = t' \<and> oe_id m = j) (map ?g ms) = map ?g (filter (\<lambda>(t, m). t = t' \<and> oe_id m = j) ms)" for t' j
    by (induction ms) (auto simp: id)
  have get: "outcome_get e t' j = (case filter (\<lambda>(t, m). t = t' \<and> oe_id m = j) xs of
      [] \<Rightarrow> Inr None | [(t, m)] \<Rightarrow> Inr (Some (stored_outcome t m)) | _ \<Rightarrow> Inl MultipleResultsFound)"
    if "db_outcome_event e = outcome_rows xs" for e t' j xs
    unfolding outcome_get_def that outcome_rows_filter
    by (auto simp: outcome_rows_def row_simps split: list.splits)
  show "outcome_get d' tid i = Inr (Some (retracted x))" if "outcome_get d tid i = Inr (Some x)"
    using that
    by (cases rule: outcome_get_cases [OF rows dis, of tid i])
      (auto simp: get [OF d'] f stored_outcome_def retracted_def)
  show "outcome_get d' t j = outcome_get d t j" if "(t, j) \<noteq> (tid, i)"
    using that
    by (cases rule: outcome_get_cases [OF rows dis, of t j]) (auto simp: get [OF d'] f)
qed

section \<open>Properties\<close>

text \<open>
  C11. The run table refines a map from tenant and id to the last write: any sequence of
  upserts commits, a later read returns the last run written under that tenant and id and
  nothing written under another tenant, and the entity query returns exactly the tenant's
  current runs that carry the key, each once.
\<close>

theorem run_store_refines_last_write:
  "\<exists>d. run_upserts empty_db ws = Inr d \<and>
     (\<forall>tid i. run_get d tid i = Inr (map_option (stored_run tid) (last_write ws tid i))) \<and>
     (\<forall>tid k. \<exists>rs. run_list_by_entity d tid k = Inr rs \<and> distinct (map run_id rs) \<and>
        (\<forall>r. r \<in> set rs \<longleftrightarrow>
          map_option (stored_run tid) (last_write ws tid (run_id r)) = Some r \<and> k \<in> set (run_entity_keys r)))"
proof -
  obtain d where d: "run_upserts empty_db ws = Inr d" "run_table_ok d"
    and v: "\<forall>tid i. run_view d tid i =
        (case last_write ws tid i of None \<Rightarrow> run_view empty_db tid i | Some r \<Rightarrow> Some (stored_run tid r))"
    using run_upserts_view [OF empty_db_ok(1)] by blast
  have w: "run_view d tid i = map_option (stored_run tid) (last_write ws tid i)" for tid i
    using v by (simp add: empty_db_ok(2) split: option.splits)
  have l: "\<exists>rs. run_list_by_entity d tid k = Inr rs \<and> distinct (map run_id rs) \<and>
        (\<forall>r. r \<in> set rs \<longleftrightarrow> run_view d tid (run_id r) = Some r \<and> k \<in> set (run_entity_keys r))" for tid k
    by (rule run_repo.list_view [OF d(2)])
  show ?thesis
    by (intro exI [of _ d] conjI allI d(1) l [unfolded w]) (simp add: run_repo.get_view [OF d(2)] w)
qed

text \<open>
  C23. A cost event is recorded once per attempt: a committed upsert leaves, for the run
  of the event, exactly the events that were there under other attempts and the new one;
  sending the same event again changes nothing, so a retried delivery is never counted
  twice.
\<close>

theorem cost_upsert_once:
  assumes "cost_table_ok d" "cost_event_ok e" "cost_upsert d tid e = Inr d'"
  shows "cost_table_ok d' \<and> cost_upsert d' tid e = Inr d' \<and>
     (\<exists>es es'. cost_list_for_run d tid (ce_run_id e) = Inr es \<and>
        cost_list_for_run d' tid (ce_run_id e) = Inr es' \<and> distinct (map ce_attempt_id es') \<and>
        set es' = insert (e\<lparr>ce_tenant_id := tid\<rparr>) {x \<in> set es. ce_attempt_id x \<noteq> ce_attempt_id e})"
proof -
  obtain ms where rows: "db_cost_event d = cost_rows ms" and ok: "\<forall>(t, m) \<in> set ms. cost_event_ok m"
    and dk: "distinct (map (\<lambda>(t, m). (t, cost_idempotency_key m)) ms)"
    using assms(1) by (auto simp: cost_table_ok_def)
  let ?ms = "put cost_idempotency_key tid e ms"
  from assms(3) have did: "distinct (map (\<lambda>(t, m). (t, ce_id m)) ?ms)"
    and d': "d' = d\<lparr>db_cost_event := cost_rows ?ms\<rparr>"
    unfolding cost_upsert_rows [OF rows dk] by (auto split: if_splits)
  have dk': "distinct (map (\<lambda>(t, m). (t, cost_idempotency_key m)) ?ms)" using dk by (rule put_distinct)
  have ok': "\<forall>(t, m) \<in> set ?ms. cost_event_ok m" using ok assms(2) by (auto simp: put_mem [OF dk])
  have rows': "db_cost_event d' = cost_rows ?ms" by (simp add: d')
  have t': "cost_table_ok d'" using did dk' ok' rows' unfolding cost_table_ok_def by blast
  have "put cost_idempotency_key tid e ?ms = ?ms" by (rule put_idem [OF dk])
  with did have "cost_upsert d' tid e = Inr (d'\<lparr>db_cost_event := cost_rows ?ms\<rparr>)"
    unfolding cost_upsert_rows [OF rows' dk'] by simp
  then have again: "cost_upsert d' tid e = Inr d'" by (simp add: d')
  let ?es = "\<lambda>xs. map (\<lambda>(t, m). m\<lparr>ce_tenant_id := t\<rparr>) (filter (\<lambda>(t, m). t = tid \<and> ce_run_id m = ce_run_id e) xs)"
  have "set (?es ?ms) = insert (e\<lparr>ce_tenant_id := tid\<rparr>) {x \<in> set (?es ms). ce_attempt_id x \<noteq> ce_attempt_id e}"
    by (rule cost_events_put [OF dk])
  moreover have "distinct (map ce_attempt_id (?es ?ms))" by (rule cost_attempts_distinct [OF dk'])
  ultimately show ?thesis
    using t' again cost_list_rows [OF rows ok] cost_list_rows [OF rows' ok'] by blast
qed

lemma cost_upsert_sample:
  "cost_table_ok empty_db"
  "cost_upsert empty_db ''t'' sample_cost_event =
     Inr (empty_db\<lparr>db_cost_event := [cost_event_to_row ''t'' sample_cost_event]\<rparr>)"
proof -
  have rows: "db_cost_event empty_db = cost_rows []" by (simp add: empty_db_def cost_rows_def)
  then show "cost_table_ok empty_db" by (auto simp: cost_table_ok_def)
  show "cost_upsert empty_db ''t'' sample_cost_event =
     Inr (empty_db\<lparr>db_cost_event := [cost_event_to_row ''t'' sample_cost_event]\<rparr>)"
    using cost_upsert_rows [OF rows] by (simp add: put_def cost_rows_def)
qed

theorem cost_upsert_once_witness:
  "\<exists>d'. cost_upsert empty_db ''t'' sample_cost_event = Inr d' \<and>
     cost_upsert d' ''t'' sample_cost_event = Inr d'"
  using cost_upsert_once [OF cost_upsert_sample(1) sample_cost_event_ok cost_upsert_sample(2)]
    cost_upsert_sample(2) by blast

lemma outcome_retract_effect:
  assumes "outcome_table_ok d"
  shows "case outcome_get d tid i of
       Inl _ \<Rightarrow> False
     | Inr None \<Rightarrow> outcome_retract d tid i = Inl ValueError
     | Inr (Some x) \<Rightarrow>
         if oe_signal_class x = OutcomeConfirmed
         then \<exists>d'. outcome_retract d tid i = Inr d' \<and> outcome_table_ok d' \<and>
           outcome_get d' tid i = Inr (Some (x\<lparr>oe_signal_class := OutcomeRetracted\<rparr>)) \<and>
           (\<forall>t j. (t, j) = (tid, i) \<or> outcome_get d' t j = outcome_get d t j) \<and>
           outcome_retract d' tid i = Inl ValueError
         else outcome_retract d tid i = Inl ValueError"
proof -
  obtain ms where ms: "db_outcome_event d = outcome_rows ms" "distinct (map (\<lambda>(t, m). (t, oe_id m)) ms)"
    using assms by (auto simp: outcome_table_ok_def)
  note eq = outcome_retract_eq [OF ms, of tid i]
  show ?thesis
  proof (cases rule: outcome_get_cases [OF ms, of tid i])
    case (1 m)
    let ?x = "stored_outcome tid m"
    let ?ms = "map (\<lambda>(t, m). (t, if t = tid \<and> oe_id m = i then retracted m else m)) ms"
    let ?d = "d\<lparr>db_outcome_event := outcome_rows ?ms\<rparr>"
    have rows': "db_outcome_event ?d = outcome_rows ?ms" by simp
    note eff = retract_effect [OF ms rows']
    show ?thesis
    proof (cases "oe_signal_class ?x = OutcomeConfirmed")
      case True
      have g: "outcome_get ?d tid i = Inr (Some (retracted ?x))" by (rule eff(2) [OF 1(4)])
      obtain ns where ns: "db_outcome_event ?d = outcome_rows ns" "distinct (map (\<lambda>(t, m). (t, oe_id m)) ns)"
        using eff(1) by (auto simp: outcome_table_ok_def)
      have again: "outcome_retract ?d tid i = Inl ValueError"
        unfolding outcome_retract_eq [OF ns] g by (simp add: retracted_def)
      have r: "outcome_retract d tid i = Inr ?d" using True by (simp add: eq 1(4))
      show ?thesis
        using True r g eff(1,3) again unfolding 1(4) by (auto simp: retracted_def)
    next
      case False
      then show ?thesis by (simp add: eq 1(4))
    qed
  next
    case 2
    then show ?thesis by (simp add: eq)
  qed
qed

text \<open>
  Retraction is a one-way tombstone: an unknown outcome, or one that is not confirmed,
  raises and writes nothing; a confirmed one becomes retracted in place, every other
  outcome of every tenant reads back as before, and a second retraction of it raises.
\<close>

theorem outcome_retract_tombstone:
  assumes "outcome_table_ok d"
  shows "case outcome_get d tid i of
       Inl _ \<Rightarrow> False
     | Inr None \<Rightarrow> outcome_retract d tid i = Inl ValueError
     | Inr (Some x) \<Rightarrow>
         if oe_signal_class x = OutcomeConfirmed
         then \<exists>d'. outcome_retract d tid i = Inr d' \<and> outcome_table_ok d' \<and>
           outcome_get d' tid i = Inr (Some (x\<lparr>oe_signal_class := OutcomeRetracted\<rparr>)) \<and>
           (\<forall>t j. (t, j) = (tid, i) \<or> outcome_get d' t j = outcome_get d t j) \<and>
           outcome_retract d' tid i = Inl ValueError
         else outcome_retract d tid i = Inl ValueError"
  by (rule outcome_retract_effect [OF assms])

theorem outcome_retract_tombstone_witness:
  "\<exists>d'. outcome_retract (empty_db\<lparr>db_outcome_event := [outcome_event_to_row ''t'' sample_outcome]\<rparr>) ''t'' ''o1'' = Inr d' \<and>
     outcome_retract d' ''t'' ''o1'' = Inl ValueError"
proof -
  let ?d = "empty_db\<lparr>db_outcome_event := [outcome_event_to_row ''t'' sample_outcome]\<rparr>"
  have rows: "db_outcome_event ?d = outcome_rows [(''t'', sample_outcome)]" by (simp add: outcome_rows_def)
  then have "outcome_table_ok ?d" unfolding outcome_table_ok_def by force
  from outcome_retract_tombstone [OF this, of "''t''" "''o1''"] show ?thesis
    using outcome_get_mem [OF rows, of "''t''" sample_outcome]
    by (auto simp: stored_outcome_def sample_outcome_def)
qed

text \<open>
  The identifier of an alias row does not determine the edge: two different edges
  whose values contain the separators share one, and the second append replaces the
  first, whose link is then lost to every later resolution.
\<close>

theorem alias_append_collision:
  "alias_list_all empty_db ''t'' = Inr [] \<and>
   (\<exists>d1 d2. alias_append empty_db ''t''
        \<lparr>ea_source = (''s'', ''1>t:2''), ea_target = (''u'', ''3'')\<rparr> 0 = Inr d1 \<and>
      alias_append d1 ''t'' \<lparr>ea_source = (''s'', ''1''), ea_target = (''t'', ''2>u:3'')\<rparr> 1 = Inr d2 \<and>
      alias_list_all d1 ''t'' = Inr [\<lparr>ea_source = (''s'', ''1>t:2''), ea_target = (''u'', ''3'')\<rparr>] \<and>
      alias_list_all d2 ''t'' = Inr [\<lparr>ea_source = (''s'', ''1''), ea_target = (''t'', ''2>u:3'')\<rparr>])"
  by (simp add: alias_append_def alias_list_all_def upsert_stmt_def insert_row_def commit_def agree_def
      alias_to_row_def alias_row_id_def tenant_pk_def alias_edge_cols_def row_get_def empty_db_def
      require_tenant_def row_to_alias_def row_at_def set_cols_def update_cols_def)

text \<open>
  The reconciliation log is append-only: a committed append keeps every record of every
  tenant, adds the new one under the writing tenant, and a read of a match key returns that
  tenant's records of that key, newest first; an append that would reuse an id fails and
  writes nothing.
\<close>

theorem recon_append_only:
  "case recon_append d tid r of
     Inl e \<Rightarrow> e = IntegrityError \<and> (\<exists>q \<in> set (db_reconciliation d). rec_id q = rec_id r \<and> rec_tenant_id q = tid)
   | Inr d' \<Rightarrow>
       set (recon_list_for_match_key d' tid (rec_match_key r)) =
         insert (r\<lparr>rec_tenant_id := tid\<rparr>) (set (recon_list_for_match_key d tid (rec_match_key r))) \<and>
       (\<forall>t k. (t, k) = (tid, rec_match_key r) \<or> recon_list_for_match_key d' t k = recon_list_for_match_key d t k) \<and>
       (\<forall>t k. sorted_wrt (\<lambda>a b. rec_created_at b \<le> rec_created_at a) (recon_list_for_match_key d' t k))"
proof -
  have desc: "sorted_wrt (\<lambda>a b. rec_created_at b \<le> rec_created_at a) (newest_first rs)" for rs
    using sorted_sort_key [of "\<lambda>r. - rec_created_at r" rs]
    by (simp add: newest_first_def sorted_map sorted_wrt_iff_nth_less)
  show ?thesis
    by (auto simp: recon_append_def recon_list_for_match_key_def desc) (auto simp: newest_first_def)
qed

end
