(* ===== verification/Python_Text.thy ===== *)
theory Python_Text
  imports Rounding
begin

text \<open>
  The string operations of the language the source uses: decimal numerals and zero
  padding, \<open>str.strip\<close>, \<open>str.split\<close> and \<open>str.partition\<close> on a one-character separator,
  the text of a \<open>timedelta\<close> and of an aware UTC \<open>datetime\<close>, and fixed-point formatting of
  a float. A string is the list of its UTF-8 bytes; whitespace is the ASCII whitespace.
\<close>

section \<open>Numerals\<close>

definition digit :: "nat \<Rightarrow> char" where
  "digit n = char_of (48 + n mod 10)"

fun show_nat :: "nat \<Rightarrow> string" where
  "show_nat n = (if n < 10 then [digit n] else show_nat (n div 10) @ [digit n])"

declare show_nat.simps [simp del]

definition show_int :: "int \<Rightarrow> string" where
  "show_int i = (if i < 0 then ''-'' @ show_nat (nat (- i)) else show_nat (nat i))"

definition zero_pad :: "nat \<Rightarrow> string \<Rightarrow> string" where
  "zero_pad k s = replicate (k - length s) (CHR ''0'') @ s"

text \<open>\<open>format(x, '.kf')\<close>: the exact value of the float, rounded half to even.\<close>

definition show_fixed :: "nat \<Rightarrow> rat \<Rightarrow> string" where
  "show_fixed k x =
     (let c = half_even (x * 10 ^ k); a = nat \<bar>c\<bar>;
          body = show_nat (a div 10 ^ k) @ (if k = 0 then [] else ''.'' @ zero_pad k (show_nat (a mod 10 ^ k)))
      in if x < 0 then ''-'' @ body else body)"

lemma digit_not_hash: "digit n \<noteq> CHR ''#''"
proof -
  have "of_char (digit n) = 48 + n mod 10" by (simp add: digit_def)
  moreover have "of_char (CHR ''#'') = (35 :: nat)" by simp
  ultimately have "of_char (digit n) \<noteq> (of_char (CHR ''#'') :: nat)" by linarith
  then show ?thesis by metis
qed

lemma show_nat_no_hash: "CHR ''#'' \<notin> set (show_nat n)"
proof (induction n rule: show_nat.induct)
  case (1 n)
  then show ?case by (subst show_nat.simps) (simp add: digit_not_hash [symmetric])
qed

lemma digit_inj: "m < 10 \<Longrightarrow> n < 10 \<Longrightarrow> digit m = digit n \<longleftrightarrow> m = n"
proof -
  assume "m < 10" "n < 10"
  then have "of_char (digit m) = 48 + m" "of_char (digit n) = 48 + n" by (simp_all add: digit_def)
  then show ?thesis by (metis add_left_cancel)
qed

lemma show_nat_inj: "show_nat m = show_nat n \<Longrightarrow> m = n"
proof (induction m arbitrary: n rule: show_nat.induct)
  case (1 m)
  have last: "last (show_nat k) = digit (k mod 10)" for k
    by (subst show_nat.simps) (simp add: digit_def)
  have butlast: "butlast (show_nat k) = (if k < 10 then [] else show_nat (k div 10))" for k
    by (subst show_nat.simps) simp
  have ne: "show_nat k \<noteq> []" for k by (subst show_nat.simps) simp
  have "digit (m mod 10) = digit (n mod 10)" using 1(2) last by metis
  then have lastd: "m mod 10 = n mod 10" using digit_inj by simp
  have b: "(if m < 10 then [] else show_nat (m div 10)) = (if n < 10 then [] else show_nat (n div 10))"
    using 1(2) butlast by metis
  show ?case
  proof (cases "m < 10")
    case True
    then have "n < 10" using b ne [of "n div 10"] by (auto split: if_splits)
    with True lastd show ?thesis by simp
  next
    case False
    then have "\<not> n < 10" using b ne [of "m div 10"] by (auto split: if_splits)
    with False b have "m div 10 = n div 10" using 1(1) [OF False] by simp
    with lastd show ?thesis by (metis div_mult_mod_eq)
  qed
qed

section \<open>Signs and exponents of decimal literals\<close>

definition is_digit :: "char \<Rightarrow> bool" where
  "is_digit c \<longleftrightarrow> (let n = of_char c :: nat in 48 \<le> n \<and> n \<le> 57)"

definition digits_value :: "string \<Rightarrow> nat" where
  "digits_value ds = foldl (\<lambda>a c. a * 10 + (of_char c - 48)) 0 ds"

definition take_sign :: "string \<Rightarrow> bool \<times> string" where
  "take_sign s = (case s of
     [] \<Rightarrow> (False, [])
   | c # cs \<Rightarrow> if c = CHR ''-'' then (True, cs) else if c = CHR ''+'' then (False, cs) else (False, s))"

text \<open>The scaling exponent after the digits: absent, or a letter and a signed numeral.\<close>

definition parse_exponent :: "string \<Rightarrow> int option" where
  "parse_exponent s = (case s of
     [] \<Rightarrow> Some 0
   | c # cs \<Rightarrow>
       if c = CHR ''e'' \<or> c = CHR ''E''
       then (case take_sign cs of (neg, ds) \<Rightarrow>
         if ds \<noteq> [] \<and> list_all is_digit ds
         then Some (if neg then - int (digits_value ds) else int (digits_value ds)) else None)
       else None)"


section \<open>Whitespace, split and partition\<close>

definition is_space :: "char \<Rightarrow> bool" where
  "is_space c \<longleftrightarrow> (let n = of_char c :: nat in n = 32 \<or> (9 \<le> n \<and> n \<le> 13) \<or> (28 \<le> n \<and> n \<le> 31))"

definition lstrip :: "string \<Rightarrow> string" where
  "lstrip s = dropWhile is_space s"

definition strip :: "string \<Rightarrow> string" where
  "strip s = rev (lstrip (rev (lstrip s)))"

text \<open>\<open>str.lower\<close> on ASCII text, and \<open>str.split\<close> without a separator.\<close>

definition lower_char :: "char \<Rightarrow> char" where
  "lower_char c = (if CHR ''A'' \<le> c \<and> c \<le> CHR ''Z'' then char_of (of_char c + 32 :: nat) else c)"

definition lower :: "string \<Rightarrow> string" where
  "lower s = map lower_char s"

fun split_ws :: "string \<Rightarrow> string \<Rightarrow> string list" where
  "split_ws w [] = (if w = [] then [] else [w])"
| "split_ws w (x # xs) =
     (if is_space x then (if w = [] then split_ws [] xs else w # split_ws [] xs)
      else split_ws (w @ [x]) xs)"

definition py_split :: "string \<Rightarrow> string list" where
  "py_split s = split_ws [] s"

fun split_on :: "char \<Rightarrow> string \<Rightarrow> string list" where
  "split_on c [] = [[]]"
| "split_on c (x # xs) =
     (if x = c then [] # split_on c xs
      else (case split_on c xs of [] \<Rightarrow> [[x]] | w # ws \<Rightarrow> (x # w) # ws))"

fun partition_on :: "char \<Rightarrow> string \<Rightarrow> string \<times> bool \<times> string" where
  "partition_on c [] = ([], False, [])"
| "partition_on c (x # xs) =
     (if x = c then ([], True, xs)
      else (case partition_on c xs of (a, found, b) \<Rightarrow> (x # a, found, b)))"

fun join_with :: "string \<Rightarrow> string list \<Rightarrow> string" where
  "join_with sep [] = []"
| "join_with sep [w] = w"
| "join_with sep (w # ws) = w @ sep @ join_with sep ws"

text \<open>
  \<open>Decimal(text)\<close> for a finite numeral; \<open>None\<close> is a conversion syntax error or one of the
  special values, which the callers reject alike.
\<close>

definition parse_decimal :: "string \<Rightarrow> rat option" where
  "parse_decimal text =
     (case take_sign (filter (\<lambda>c. c \<noteq> CHR ''_'') (strip text)) of (neg, u) \<Rightarrow>
        let whole = takeWhile is_digit u; r = dropWhile is_digit u;
            (fr, r') = (case r of
               c # v \<Rightarrow> if c = CHR ''.'' then (takeWhile is_digit v, dropWhile is_digit v) else ([], r)
             | [] \<Rightarrow> ([], []))
        in if whole = [] \<and> fr = [] then None
           else (case parse_exponent r' of None \<Rightarrow> None
             | Some e \<Rightarrow>
                 let v = of_nat (digits_value (whole @ fr)) * 10 powi (e - int (length fr))
                 in Some (if neg then - v else v)))"

text \<open>A word no strip changes.\<close>

definition stripped :: "string \<Rightarrow> bool" where
  "stripped s \<longleftrightarrow> s = [] \<or> (\<not> is_space (hd s) \<and> \<not> is_space (last s))"

lemma strip_stripped: "stripped s \<Longrightarrow> strip s = s"
proof (cases s)
  case (Cons c cs)
  assume "stripped s"
  then have "\<not> is_space c" using Cons by (simp add: stripped_def)
  have "hd (rev s) = last s" using Cons by (simp only: hd_rev)
  then have "\<not> is_space (hd (rev s))" using \<open>stripped s\<close> Cons by (simp add: stripped_def)
  have "dropWhile is_space s = s" using \<open>\<not> is_space c\<close> Cons by simp
  moreover have "dropWhile is_space (rev s) = rev s"
    using \<open>\<not> is_space (hd (rev s))\<close> Cons by (cases "rev s") auto
  ultimately show ?thesis by (simp add: strip_def lstrip_def)
qed (simp add: strip_def lstrip_def)

lemma split_on_nonempty [simp]: "split_on c s \<noteq> []"
  by (induction s) (auto split: list.splits)

lemma split_on_none: "c \<notin> set s \<Longrightarrow> split_on c s = [s]"
  by (induction s) auto

lemma split_on_append: "c \<notin> set w \<Longrightarrow> split_on c (w @ c # s) = w # split_on c s"
  by (induction w) auto

lemma split_on_no_sep: "w \<in> set (split_on c s) \<Longrightarrow> c \<notin> set w"
  by (induction s arbitrary: w) (auto split: if_splits list.splits)

lemma split_join:
  assumes "ws \<noteq> []" "\<And>w. w \<in> set ws \<Longrightarrow> c \<notin> set w"
  shows "split_on c (join_with [c] ws) = ws"
  using assms by (induction "[c]" ws rule: join_with.induct) (auto simp: split_on_none split_on_append)

lemma partition_on_append: "c \<notin> set a \<Longrightarrow> partition_on c (a @ c # b) = (a, True, b)"
  by (induction a) auto

section \<open>Durations and instants\<close>

definition day_us :: int where "day_us = 86400000000"

text \<open>\<open>str(timedelta)\<close>.\<close>

definition clock_text :: "int \<Rightarrow> string" where
  "clock_text secs = show_int (secs div 3600) @ '':'' @ zero_pad 2 (show_int (secs div 60 mod 60))
     @ '':'' @ zero_pad 2 (show_int (secs mod 60))"

definition micros_text :: "int \<Rightarrow> string" where
  "micros_text us = (if us = 0 then [] else ''.'' @ zero_pad 6 (show_int us))"

definition show_timedelta :: "int \<Rightarrow> string" where
  "show_timedelta d =
     (let days = d div day_us; us = d mod day_us in
      (if days = 0 then [] else show_int days @ '' day'' @ (if \<bar>days\<bar> = 1 then [] else ''s'') @ '', '')
      @ clock_text (us div 1000000) @ micros_text (us mod 1000000))"

text \<open>\<open>timedelta.total_seconds()\<close>: microseconds divided by a million as a float.\<close>

definition total_seconds :: "int \<Rightarrow> rat" where
  "total_seconds d = dbl (of_int d / 1000000)"

lemma total_seconds_mono: "d \<le> e \<Longrightarrow> total_seconds d \<le> total_seconds e"
  unfolding total_seconds_def by (rule dbl.rnd_mono) (simp add: divide_right_mono)

lemma total_seconds_0 [simp]: "total_seconds 0 = 0"
  by (simp add: total_seconds_def)

lemma total_seconds_pos_iff: "0 < total_seconds d \<longleftrightarrow> 0 < d"
proof
  assume "0 < total_seconds d"
  then show "0 < d" using total_seconds_mono [of d 0] by fastforce
next
  assume "0 < d"
  then show "0 < total_seconds d" unfolding total_seconds_def by (intro dbl.rnd_pos) simp
qed

text \<open>
  \<open>timedelta(seconds=x)\<close> for a non-negative float: the whole seconds are exact, the
  fraction is scaled in floating point and rounded half to even; more than 999999999 days
  overflow.
\<close>

definition timedelta_seconds :: "rat \<Rightarrow> int res" where
  "timedelta_seconds x =
     (let us = \<lfloor>x\<rfloor> * 1000000 + half_even (dbl (frac x * 1000000)) in
      if 999999999 < us div day_us then Inl OverflowError else Inr us)"

text \<open>The civil date of a day count since 1970-01-01 (proleptic Gregorian calendar).\<close>

definition civil_date :: "int \<Rightarrow> int \<times> int \<times> int" where
  "civil_date days =
     (let z = days + 719468; era = z div 146097; doe = z mod 146097;
          yoe = (doe - doe div 1460 + doe div 36524 - doe div 146096) div 365;
          doy = doe - (365 * yoe + yoe div 4 - yoe div 100);
          mp = (5 * doy + 2) div 153;
          d = doy - (153 * mp + 2) div 5 + 1;
          m = (if mp < 10 then mp + 3 else mp - 9)
      in (yoe + era * 400 + (if m \<le> 2 then 1 else 0), m, d))"

definition date_text :: "int \<Rightarrow> string" where
  "date_text days = (case civil_date days of (y, m, d) \<Rightarrow>
     zero_pad 4 (show_int y) @ ''-'' @ zero_pad 2 (show_int m) @ ''-'' @ zero_pad 2 (show_int d))"

definition isoformat :: "int \<Rightarrow> string" where
  "isoformat t =
     (let us = t mod day_us; secs = us div 1000000 in
      date_text (t div day_us) @ ''T'' @ zero_pad 2 (show_int (secs div 3600)) @ '':''
      @ zero_pad 2 (show_int (secs div 60 mod 60)) @ '':'' @ zero_pad 2 (show_int (secs mod 60))
      @ micros_text (us mod 1000000) @ ''+00:00'')"

section \<open>Substitution and UUIDs\<close>

text \<open>\<open>s.replace(old, new)\<close> for a non-empty \<open>old\<close>: left to right, without overlap.\<close>

function replace_str :: "string \<Rightarrow> string \<Rightarrow> string \<Rightarrow> string" where
  "replace_str old new [] = []"
| "replace_str old new (c # cs) =
     (if take (length old) (c # cs) = old then new @ replace_str old new (drop (length old - 1) cs)
      else c # replace_str old new cs)"
  by pat_completeness auto
termination by (relation "measure (\<lambda>(old, new, s). length s)") auto

lemma replace_str_id: "old \<noteq> [] \<Longrightarrow> hd old \<notin> set s \<Longrightarrow> replace_str old new s = s"
  by (induction old new s rule: replace_str.induct) (auto simp: take_Cons split: nat.splits)

definition is_hex :: "char \<Rightarrow> bool" where
  "is_hex c \<longleftrightarrow> is_digit c \<or> c \<in> set ''abcdefABCDEF''"

definition hex_digit :: "int \<Rightarrow> char" where
  "hex_digit d = ''0123456789abcdef'' ! nat d"

definition hex_value :: "char \<Rightarrow> int" where
  "hex_value c = (if is_digit c then of_char c - 48 else of_char (lower_char c) - 87)"

definition hexes_value :: "string \<Rightarrow> int" where
  "hexes_value = foldl (\<lambda>n c. 16 * n + hex_value c) 0"

text \<open>
  \<open>int(text, 16)\<close>: surrounding whitespace, a sign, an optional \<open>0x\<close> (after which one
  underscore may stand), hexadecimal digits with single underscores between them.
\<close>

definition parse_hex :: "string \<Rightarrow> int option" where
  "parse_hex text = (case take_sign (strip text) of (neg, u) \<Rightarrow>
     let prefixed = take 2 u = ''0x'' \<or> take 2 u = ''0X'';
         v = (if prefixed then (if take 1 (drop 2 u) = ''_'' then drop 3 u else drop 2 u) else u);
         parts = split_on CHR ''_'' v; n = hexes_value (concat parts) in
     if list_all (\<lambda>p. p \<noteq> [] \<and> list_all is_hex p) parts then Some (if neg then - n else n) else None)"

fun hex_text :: "nat \<Rightarrow> int \<Rightarrow> string" where
  "hex_text 0 n = []"
| "hex_text (Suc w) n = hex_text w (n div 16) @ [hex_digit (n mod 16)]"

text \<open>\<open>str(uuid)\<close>: 32 lower-case hexadecimal digits in groups of 8, 4, 4, 4 and 12.\<close>

definition uuid_text :: "int \<Rightarrow> string" where
  "uuid_text n = (let h = hex_text 32 n in
     take 8 h @ ''-'' @ take 4 (drop 8 h) @ ''-'' @ take 4 (drop 12 h) @ ''-'' @ take 4 (drop 16 h) @ ''-'' @ drop 20 h)"

text \<open>\<open>UUID(text)\<close>; a UUID is represented by its text.\<close>

definition parse_uuid :: "string \<Rightarrow> string res" where
  "parse_uuid text =
     (let brace = (\<lambda>c. c = CHR ''{'' \<or> c = CHR ''}'');
          h0 = replace_str ''uuid:'' [] (replace_str ''urn:'' [] text);
          h = filter (\<lambda>c. c \<noteq> CHR ''-'') (rev (dropWhile brace (rev (dropWhile brace h0)))) in
      if length h \<noteq> 32 then Inl ValueError
      else case parse_hex h of
        None \<Rightarrow> Inl ValueError
      | Some n \<Rightarrow> if n < 0 \<or> 2 ^ 128 \<le> n then Inl ValueError else Inr (uuid_text n))"

lemma is_hex_distinct:
  "is_hex c \<Longrightarrow> c \<notin> set ''-+_{}xXun \<newline>''" "is_hex c \<Longrightarrow> \<not> is_space c"
  by (auto simp: is_hex_def is_digit_def is_space_def Let_def)

lemma less_16_cases:
  assumes "0 \<le> d" "d < (16::int)"
  shows "d \<in> set [0,1,2,3,4,5,6,7,8,9,10,11,12,13,14,15]"
  using assms by simp presburger

lemma hex_digit_ok:
  assumes "0 \<le> d" "d < 16"
  shows "is_hex (hex_digit d)" "hex_value (hex_digit d) = d"
  using less_16_cases [OF assms]
  by (auto simp: hex_digit_def is_hex_def is_digit_def hex_value_def lower_char_def)

lemma hex_text_length [simp]: "length (hex_text w n) = w"
  by (induction w arbitrary: n) auto

lemma hex_text_hex: "c \<in> set (hex_text w n) \<Longrightarrow> is_hex c"
  by (induction w arbitrary: n) (auto simp: hex_digit_ok)

lemma hexes_value_snoc: "hexes_value (s @ [c]) = 16 * hexes_value s + hex_value c"
  by (simp add: hexes_value_def)

lemma hexes_value_text: "0 \<le> n \<Longrightarrow> hexes_value (hex_text w n) = n mod 16 ^ w"
proof (induction w arbitrary: n)
  case 0
  then show ?case by (simp add: hexes_value_def)
next
  case (Suc w)
  have "n mod (16 * 16 ^ w) = 16 * (n div 16 mod 16 ^ w) + n mod 16"
    by (rule zmod_zmult2_eq) simp
  then show ?case using Suc by (simp add: hexes_value_snoc hex_digit_ok)
qed

lemma parse_hex_digits:
  assumes "s \<noteq> []" "\<And>c. c \<in> set s \<Longrightarrow> is_hex c"
  shows "parse_hex s = Some (hexes_value s)"
proof -
  have st: "stripped s" using assms is_hex_distinct(2) by (simp add: stripped_def)
  have no: "CHR ''-'' \<notin> set s" "CHR ''+'' \<notin> set s" "CHR ''_'' \<notin> set s" "CHR ''x'' \<notin> set s" "CHR ''X'' \<notin> set s"
    using assms(2) is_hex_distinct(1) by force+
  have "take_sign s = (False, s)" using no(1,2) by (auto simp: take_sign_def split: list.splits)
  moreover have "split_on CHR ''_'' s = [s]" using no(3) by (rule split_on_none)
  moreover have "take 2 s \<noteq> ''0x''" "take 2 s \<noteq> ''0X''"
    using no(4,5) set_take_subset [of 2 s] by auto
  ultimately show ?thesis using assms strip_stripped [OF st] by (simp add: parse_hex_def list_all_iff Let_def)
qed

text \<open>The text of a UUID reads back as the same UUID.\<close>

lemma parse_uuid_text:
  assumes "0 \<le> n" "n < 2 ^ 128"
  shows "parse_uuid (uuid_text n) = Inr (uuid_text n)"
proof -
  let ?h = "hex_text 32 n" and ?u = "uuid_text n"
  have len: "length ?h = 32" by simp
  have u: "set ?u \<subseteq> insert CHR ''-'' (set ?h)"
    unfolding uuid_text_def Let_def by (auto dest!: in_set_takeD in_set_dropD)
  have chars: "c = CHR ''-'' \<or> is_hex c" if "c \<in> set ?u" for c using u that hex_text_hex by blast
  then have "CHR ''u'' \<notin> set ?u" and nb: "\<forall>c \<in> set ?u. c \<noteq> CHR ''{'' \<and> c \<noteq> CHR ''}''"
    using is_hex_distinct(1) by fastforce+
  then have "replace_str ''uuid:'' [] (replace_str ''urn:'' [] ?u) = ?u" by (simp add: replace_str_id)
  moreover have "dropWhile (\<lambda>c. c = CHR ''{'' \<or> c = CHR ''}'') s = s" if "set s \<subseteq> set ?u" for s
    using that nb by (cases s) auto
  moreover have "filter (\<lambda>c. c \<noteq> CHR ''-'') ?u = ?h"
  proof -
    have keep: "filter (\<lambda>c. c \<noteq> CHR ''-'') s = s" if "set s \<subseteq> set ?h" for s
      using that hex_text_hex is_hex_distinct(1) by (fastforce simp: filter_id_conv)
    have "?h = take 8 ?h @ take 4 (drop 8 ?h) @ take 4 (drop 12 ?h) @ take 4 (drop 16 ?h) @ drop 20 ?h"
      using append_take_drop_id [of 8 ?h] append_take_drop_id [of 4 "drop 8 ?h"]
        append_take_drop_id [of 4 "drop 12 ?h"] append_take_drop_id [of 4 "drop 16 ?h"] by simp
    moreover have "set (take i (drop j ?h)) \<subseteq> set ?h" "set (drop j ?h) \<subseteq> set ?h" "set (take i ?h) \<subseteq> set ?h" for i j
      by (auto dest!: in_set_takeD in_set_dropD)
    ultimately show ?thesis unfolding uuid_text_def Let_def by (simp add: keep)
  qed
  moreover have "parse_hex ?h = Some n"
  proof -
    have "?h \<noteq> []" using len by fastforce
    moreover have "n mod 16 ^ 32 = n" using assms by simp
    moreover have "parse_hex ?h = Some (hexes_value ?h)" using calculation(1) hex_text_hex by (rule parse_hex_digits)
    ultimately show ?thesis by (simp only: hexes_value_text [OF assms(1)])
  qed
  ultimately show ?thesis using assms len by (simp add: parse_uuid_def Let_def)
qed

end
