(* ===== verification/Baggage.thy ===== *)
theory Baggage
  imports Core_Types Python_Text
begin

text \<open>
  The run id on the W3C \<open>baggage\<close> header: the producer that stamps it on an outbound call
  (\<open>outcomes/instrument/baggage.py\<close>), the ingress parser
  (\<open>attribution/binding/baggage_header.py\<close>) and the per-request signals with their scope
  (\<open>attribution/capabilities.py\<close>). The two ends are written in different packages and
  share only the key of \<open>core/wire.py\<close>; C14 is that they agree.
\<close>

definition BAGGAGE_RUN_ID_KEY :: string where
  "BAGGAGE_RUN_ID_KEY = ''valuemaxx.run_id''"

section \<open>Producer\<close>

definition starts_with :: "string \<Rightarrow> string \<Rightarrow> bool" where
  "starts_with p s \<longleftrightarrow> take (length p) s = p"

text \<open>The surviving members of an existing header value; anything but a string has none.\<close>

definition kept_members :: "json option \<Rightarrow> string list" where
  "kept_members existing = (case existing of
     Some (JStr s) \<Rightarrow>
       if strip s = [] then []
       else map strip (filter (\<lambda>m. strip m \<noteq> [] \<and> \<not> starts_with (BAGGAGE_RUN_ID_KEY @ ''='') (strip m))
         (split_on (CHR '','') s))
   | _ \<Rightarrow> [])"

definition with_run_id_member :: "json option \<Rightarrow> run_id \<Rightarrow> string" where
  "with_run_id_member existing rid = join_with '','' (kept_members existing @ [BAGGAGE_RUN_ID_KEY @ ''='' @ rid])"

fun shallow_copy_headers :: "json option \<Rightarrow> (string, json) dict" where
  "shallow_copy_headers (Some (JObj hs)) = hs"
| "shallow_copy_headers _ = []"

definition merge_baggage :: "(string, json) dict \<Rightarrow> run_id \<Rightarrow> (string, json) dict" where
  "merge_baggage kwargs rid =
     (let headers = shallow_copy_headers (dict_get kwargs ''headers'');
          headers' = dict_set ''baggage'' (JStr (with_run_id_member (dict_get headers ''baggage'') rid)) headers
      in dict_set ''headers'' (JObj headers') kwargs)"

text \<open>The keyword arguments the wrapped call receives.\<close>

definition baggage_wrapper :: "run_id option \<Rightarrow> (string, json) dict \<Rightarrow> (string, json) dict" where
  "baggage_wrapper active kwargs = (case active of None \<Rightarrow> kwargs | Some rid \<Rightarrow> merge_baggage kwargs rid)"

section \<open>Ingress parser\<close>

definition parse_member :: "(string, string) dict \<Rightarrow> string \<Rightarrow> (string, string) dict" where
  "parse_member parsed member =
     (case partition_on (CHR ''='') (strip member) of (k, found, v) \<Rightarrow>
        if \<not> found then parsed
        else if strip k = [] then parsed
        else dict_set (strip k) (strip v) parsed)"

definition parse_baggage_header :: "string option \<Rightarrow> (string, string) dict" where
  "parse_baggage_header raw = (case raw of
     None \<Rightarrow> []
   | Some s \<Rightarrow> if strip s = [] then [] else foldl parse_member [] (split_on (CHR '','') s))"

section \<open>Request signals\<close>

record request_signals =
  rs_baggage :: "(string, string) dict option"
  rs_echoed_run_id :: "run_id option"

definition no_signals :: request_signals where
  "no_signals = \<lparr>rs_baggage = None, rs_echoed_run_id = None\<rparr>"

text \<open>\<open>attribution_request_scope(baggage=..., echoed_run_id=...)\<close>: an empty map is no map.\<close>

definition request_scope :: "string option \<Rightarrow> run_id option \<Rightarrow> request_signals" where
  "request_scope baggage echoed =
     (let parsed = (case baggage of None \<Rightarrow> [] | Some s \<Rightarrow> if s = [] then [] else parse_baggage_header (Some s))
      in \<lparr>rs_baggage = (if parsed = [] then None else Some parsed), rs_echoed_run_id = echoed\<rparr>)"

definition carried_run_id :: "request_signals \<Rightarrow> run_id option" where
  "carried_run_id sig =
     (case rs_echoed_run_id sig of Some r \<Rightarrow> Some r
      | None \<Rightarrow> (case rs_baggage sig of None \<Rightarrow> None
          | Some m \<Rightarrow> (case dict_get m BAGGAGE_RUN_ID_KEY of None \<Rightarrow> None
              | Some v \<Rightarrow> if v = [] then None else Some v)))"

section \<open>The two ends agree\<close>

text \<open>An identifier that can ride a list header.\<close>

definition header_safe :: "string \<Rightarrow> bool" where
  "header_safe s \<longleftrightarrow> CHR '','' \<notin> set s \<and> stripped s"

lemma set_strip: "set (strip s) \<subseteq> set s"
  by (auto simp: strip_def lstrip_def dest!: set_dropWhileD)

lemma kept_members_no_sep: "w \<in> set (kept_members e) \<Longrightarrow> CHR '','' \<notin> set w"
  using split_on_no_sep set_strip
  by (fastforce simp: kept_members_def split: option.splits json.splits if_splits)

lemma split_produced:
  assumes "header_safe rid"
  shows "split_on (CHR '','') (with_run_id_member e rid) = kept_members e @ [BAGGAGE_RUN_ID_KEY @ ''='' @ rid]"
  unfolding with_run_id_member_def
  using assms kept_members_no_sep
  by (intro split_join) (auto simp: header_safe_def BAGGAGE_RUN_ID_KEY_def)

lemma strip_run_id_member:
  assumes "header_safe rid"
  shows "strip (BAGGAGE_RUN_ID_KEY @ ''='' @ rid) = BAGGAGE_RUN_ID_KEY @ ''='' @ rid"
proof (rule strip_stripped)
  show "stripped (BAGGAGE_RUN_ID_KEY @ ''='' @ rid)"
    using assms by (cases "rid = []")
      (auto simp: stripped_def header_safe_def BAGGAGE_RUN_ID_KEY_def is_space_def)
qed

lemma key_no_eq: "CHR ''='' \<notin> set BAGGAGE_RUN_ID_KEY"
  by (simp add: BAGGAGE_RUN_ID_KEY_def)

lemma strip_key: "strip BAGGAGE_RUN_ID_KEY = BAGGAGE_RUN_ID_KEY"
  by (rule strip_stripped) (simp add: stripped_def BAGGAGE_RUN_ID_KEY_def is_space_def)

lemma parse_run_id_member:
  assumes "header_safe rid"
  shows "parse_member d (BAGGAGE_RUN_ID_KEY @ ''='' @ rid) = dict_set BAGGAGE_RUN_ID_KEY rid d"
proof -
  have "partition_on (CHR ''='') (BAGGAGE_RUN_ID_KEY @ ''='' @ rid) = (BAGGAGE_RUN_ID_KEY, True, rid)"
    using partition_on_append [OF key_no_eq, of rid] by simp
  moreover have "strip rid = rid" using assms by (simp add: header_safe_def strip_stripped)
  ultimately show ?thesis
    unfolding parse_member_def strip_run_id_member [OF assms] by (simp add: strip_key) (simp add: BAGGAGE_RUN_ID_KEY_def)
qed

lemma parse_nonblank:
  assumes "strip s \<noteq> []"
  shows "parse_baggage_header (Some s) = foldl parse_member [] (split_on (CHR '','') s)"
  using assms by (simp add: parse_baggage_header_def)

lemma strip_blank_split: "strip s = [] \<Longrightarrow> w \<in> set (split_on c s) \<Longrightarrow> strip w = []"
proof -
  have sp: "strip x = [] \<longleftrightarrow> (\<forall>c \<in> set x. is_space c)" for x
  proof
    assume "strip x = []"
    then have "\<forall>c \<in> set (dropWhile is_space x). is_space c"
      by (simp add: strip_def lstrip_def dropWhile_eq_Nil_conv)
    then have "dropWhile is_space x = []" by (metis hd_dropWhile hd_in_set)
    then show "\<forall>c \<in> set x. is_space c" by (simp add: dropWhile_eq_Nil_conv)
  qed (simp add: strip_def lstrip_def dropWhile_eq_Nil_conv [THEN iffD2])
  have "w \<in> set (split_on c s) \<Longrightarrow> set w \<subseteq> set s" for w
    by (induction s arbitrary: w) (fastforce split: if_splits list.splits)+
  then show "strip s = [] \<Longrightarrow> w \<in> set (split_on c s) \<Longrightarrow> strip w = []" unfolding sp by blast
qed

lemma parse_produced:
  assumes "header_safe rid"
  shows "parse_baggage_header (Some (with_run_id_member e rid)) =
     dict_set BAGGAGE_RUN_ID_KEY rid (foldl parse_member [] (kept_members e))"
proof -
  have "strip (with_run_id_member e rid) \<noteq> []"
  proof
    assume "strip (with_run_id_member e rid) = []"
    then have "strip (BAGGAGE_RUN_ID_KEY @ ''='' @ rid) = []"
      by (rule strip_blank_split [where c = "CHR '',''"]) (simp add: split_produced [OF assms])
    then show False unfolding strip_run_id_member [OF assms] by simp
  qed
  then show ?thesis
    by (simp add: parse_nonblank split_produced [OF assms] parse_run_id_member [OF assms, simplified])
qed

lemma strip_strip [simp]: "strip (strip s) = strip s"
proof (rule strip_stripped)
  have l: "lstrip x = [] \<or> \<not> is_space (hd (lstrip x))" for x
    using hd_dropWhile [of is_space x] by (auto simp: lstrip_def)
  have r: "last (lstrip x) = last x" if "lstrip x \<noteq> []" for x
    using that by (metis lstrip_def dropWhile_eq_drop last_drop drop_eq_Nil not_le)
  have e: "strip s \<noteq> [] \<Longrightarrow> lstrip (rev (lstrip s)) \<noteq> []" by (simp add: strip_def)
  show "stripped (strip s)"
    using l [of s] l [of "rev (lstrip s)"] r [of "rev (lstrip s)"] e
    by (auto simp: stripped_def strip_def hd_rev last_rev) (auto simp: lstrip_def last_rev)
qed

lemma parse_member_strip: "parse_member d (strip m) = parse_member d m"
  by (simp add: parse_member_def)

lemma parse_member_blank: "strip m = [] \<Longrightarrow> parse_member d m = d"
  by (simp add: parse_member_def)

lemma parse_member_other:
  assumes "dict_get d k = dict_get d' k"
  shows "dict_get (parse_member d m) k = dict_get (parse_member d' m) k"
  using assms by (auto simp: parse_member_def split: prod.splits)

lemma parse_member_stale:
  assumes "starts_with (BAGGAGE_RUN_ID_KEY @ ''='') (strip m)" "k \<noteq> BAGGAGE_RUN_ID_KEY"
  shows "dict_get (parse_member d m) k = dict_get d k"
proof -
  let ?p = "BAGGAGE_RUN_ID_KEY @ ''=''"
  have "strip m = BAGGAGE_RUN_ID_KEY @ CHR ''='' # drop (length ?p) (strip m)"
    using assms(1) append_take_drop_id [of "length ?p" "strip m"] by (simp add: starts_with_def)
  then have "partition_on (CHR ''='') (strip m) = (BAGGAGE_RUN_ID_KEY, True, drop (length ?p) (strip m))"
    using partition_on_append [of "CHR ''=''" BAGGAGE_RUN_ID_KEY]
    by (metis key_no_eq)
  moreover have "strip BAGGAGE_RUN_ID_KEY = BAGGAGE_RUN_ID_KEY" by (rule strip_key)
  ultimately show ?thesis using assms(2) by (simp add: parse_member_def)
qed

lemma parse_kept:
  assumes "k \<noteq> BAGGAGE_RUN_ID_KEY" "dict_get d k = dict_get d' k"
  shows "dict_get (foldl parse_member d
       (map strip (filter (\<lambda>m. strip m \<noteq> [] \<and> \<not> starts_with (BAGGAGE_RUN_ID_KEY @ ''='') (strip m)) ms))) k =
     dict_get (foldl parse_member d' ms) k"
  using assms(2)
proof (induction ms arbitrary: d d')
  case (Cons m ms)
  show ?case
  proof (cases "strip m = [] \<or> starts_with (BAGGAGE_RUN_ID_KEY @ ''='') (strip m)")
    case True
    then have "dict_get (parse_member d' m) k = dict_get d' k"
      using parse_member_blank parse_member_stale [OF _ assms(1)] by metis
    with Cons.prems have "dict_get d k = dict_get (parse_member d' m) k" by simp
    from Cons.IH [OF this] True show ?thesis by auto
  next
    case False
    have "dict_get (parse_member d m) k = dict_get (parse_member d' m) k"
      using Cons.prems by (rule parse_member_other)
    with False Cons.IH show ?thesis by (simp add: parse_member_strip)
  qed
qed simp

lemma kept_parse:
  assumes "k \<noteq> BAGGAGE_RUN_ID_KEY"
  shows "dict_get (foldl parse_member [] (kept_members (Some (JStr s)))) k =
     dict_get (parse_baggage_header (Some s)) k"
  using parse_kept [OF assms, of "[]" "[]"] by (simp add: kept_members_def parse_baggage_header_def)

section \<open>Properties\<close>

text \<open>
  C13. Whatever \<open>baggage\<close> header the host already sends, the ingress reads the stamped run
  id from the value the producer builds, and every other key reads exactly as in the
  host's own header: nothing is lost and a stale run id never wins.
\<close>

theorem baggage_roundtrip:
  assumes "header_safe rid"
  shows "dict_get (parse_baggage_header (Some (with_run_id_member (Some (JStr s)) rid))) k =
     (if k = BAGGAGE_RUN_ID_KEY then Some rid else dict_get (parse_baggage_header (Some s)) k)"
  using kept_parse [of k s] by (simp add: parse_produced [OF assms])

theorem baggage_roundtrip_witness:
  "header_safe ''r1'' \<and>
   dict_get (parse_baggage_header (Some (with_run_id_member (Some (JStr ''a=1, valuemaxx.run_id=old'')) ''r1'')))
     BAGGAGE_RUN_ID_KEY = Some ''r1''"
proof -
  have s: "header_safe ''r1''" by (simp add: header_safe_def stripped_def is_space_def)
  with baggage_roundtrip [OF s, of "''a=1, valuemaxx.run_id=old''" BAGGAGE_RUN_ID_KEY] show ?thesis by simp
qed

end
