(* ===== verification/Cascade.thy ===== *)
theory Cascade
  imports Store Baggage
begin

text \<open>
  The binding cascade (\<open>packages/attribution\<close>): the resolver framework (\<open>resolver.py\<close>), the
  five tiers (\<open>binding/t1..t4\<close>, \<open>inference/t5_semantic.py\<close>), the label mapping
  (\<open>confidence/scoring.py\<close>) and \<open>Cascade.bind\<close> (\<open>cascade.py\<close>).

  The cascade is written against ports: the run repository's two reads and the review
  queue's write are fields of \<open>cascade\<close>, applied to an abstract state \<open>'s\<close>, with the
  injected judge, the windows and the value of the ambient context variable. Distances
  and scores are binary floats. A set of entity keys is a list in its iteration order.
\<close>

section \<open>Resolver framework\<close>

record resolve_context =
  cx_tenant_id :: tenant_id
  cx_outcome_id :: outcome_id
  cx_occurred_at :: instant
  cx_entity_keys :: "entity_key list"
  cx_ambient_run_id :: "run_id option"
  cx_baggage :: "(string, string) dict"
  cx_echoed_run_id :: "run_id option"
  cx_content :: string
  cx_entity_window :: "duration option"

record resolve_outcome =
  ro_candidates :: "attribution_candidate list"
  ro_ambiguous :: bool

definition matched :: "resolve_outcome \<Rightarrow> bool" where
  "matched o' \<longleftrightarrow> 0 < length (ro_candidates o')"

definition no_match :: resolve_outcome where
  "no_match = \<lparr>ro_candidates = [], ro_ambiguous = False\<rparr>"

definition candidate :: "binding_tier \<Rightarrow> run_id \<Rightarrow> rat \<Rightarrow> string \<Rightarrow> attribution_candidate" where
  "candidate t rid score why = \<lparr>ac_run_id = rid, ac_tier = t, ac_score = score, ac_rationale = why\<rparr>"

definition matched_outcome :: "attribution_candidate list \<Rightarrow> bool \<Rightarrow> resolve_outcome" where
  "matched_outcome cs amb = \<lparr>ro_candidates = cs, ro_ambiguous = amb\<rparr>"

text \<open>\<open>Resolver.resolve\<close>: a candidate of a foreign tier is refused.\<close>

definition resolve :: "binding_tier \<Rightarrow> resolve_outcome res \<Rightarrow> resolve_outcome res" where
  "resolve t produced = res_bind produced (\<lambda>o'.
     if \<exists>c \<in> set (ro_candidates o'). ac_tier c \<noteq> t then Inl HonestyInvariantError else Inr o')"

section \<open>Deterministic tiers\<close>

definition ambient_resolve :: "run_id option \<Rightarrow> resolve_context \<Rightarrow> resolve_outcome res" where
  "ambient_resolve active ctx =
     (case (case cx_ambient_run_id ctx of Some r \<Rightarrow> Some r | None \<Rightarrow> active) of
        None \<Rightarrow> Inr no_match
      | Some r \<Rightarrow> Inr (matched_outcome [candidate Exact r 1 ''ambient contextvar run_id''] False))"

definition baggage_resolve :: "resolve_context \<Rightarrow> resolve_outcome res" where
  "baggage_resolve ctx =
     (case dict_get (cx_baggage ctx) BAGGAGE_RUN_ID_KEY of
        None \<Rightarrow> Inr no_match
      | Some raw \<Rightarrow> if strip raw = [] then Inr no_match
          else Inr (matched_outcome [candidate Exact raw 1 ''W3C baggage run_id''] False))"

definition roundtrip_resolve :: "resolve_context \<Rightarrow> resolve_outcome res" where
  "roundtrip_resolve ctx =
     (case cx_echoed_run_id ctx of
        None \<Rightarrow> Inr no_match
      | Some r \<Rightarrow> Inr (matched_outcome
          [candidate Deterministic r 1 ''round-tripped run_id echoed in outcome metadata''] False))"

section \<open>Entity match\<close>

definition default_epsilon_seconds :: rat where
  "default_epsilon_seconds = 1"

definition run_distance :: "resolve_context \<Rightarrow> run \<Rightarrow> rat" where
  "run_distance ctx r = \<bar>total_seconds (run_started_at r - cx_occurred_at ctx)\<bar>"

definition window_for :: "duration \<Rightarrow> resolve_context \<Rightarrow> duration" where
  "window_for window ctx = (case cx_entity_window ctx of
     None \<Rightarrow> window | Some w \<Rightarrow> if total_seconds w \<le> 0 then window else w)"

definition within_window :: "duration \<Rightarrow> resolve_context \<Rightarrow> run \<Rightarrow> bool" where
  "within_window window ctx r \<longleftrightarrow> run_distance ctx r \<le> total_seconds (window_for window ctx)"

text \<open>
  The runs sharing any entity key that pass the window test, each id once, in the order
  they are first seen.
\<close>

definition sharing_runs ::
  "(tenant_id \<Rightarrow> entity_key \<Rightarrow> run list res) \<Rightarrow> resolve_context \<Rightarrow> (run \<Rightarrow> bool) \<Rightarrow> run list res" where
  "sharing_runs by_entity ctx eligible =
     res_bind (res_traverse (\<lambda>k. by_entity (cx_tenant_id ctx) k) (cx_entity_keys ctx))
       (\<lambda>rss. Inr (dedup_by run_id [] (filter eligible (concat rss))))"

definition matching_runs ::
  "(tenant_id \<Rightarrow> entity_key \<Rightarrow> run list res) \<Rightarrow> duration \<Rightarrow> resolve_context \<Rightarrow> run list res" where
  "matching_runs by_entity window ctx = sharing_runs by_entity ctx (within_window window ctx)"

definition proximity_score :: "rat \<Rightarrow> rat \<Rightarrow> rat res" where
  "proximity_score window_seconds distance =
     (if window_seconds = 0 then Inl ZeroDivisionError
      else Inr (dbl (1 - dbl (distance / window_seconds))))"

definition score_run :: "duration \<Rightarrow> resolve_context \<Rightarrow> run \<Rightarrow> (run \<times> rat \<times> rat) res" where
  "score_run window ctx r =
     (let distance = run_distance ctx r in
      res_bind (proximity_score (total_seconds (window_for window ctx)) distance)
        (\<lambda>score. Inr (r, distance, score)))"

fun is_ambiguous :: "rat \<Rightarrow> (run \<times> rat \<times> rat) list \<Rightarrow> bool" where
  "is_ambiguous eps ((_, closest, _) # (_, second, _) # _) \<longleftrightarrow> \<bar>dbl (closest - second)\<bar> < eps"
| "is_ambiguous eps _ \<longleftrightarrow> False"

definition plus_minus :: string where "plus_minus = [CHR 0xC2, CHR 0xB1]"
definition delta_sign :: string where "delta_sign = [CHR 0xCE, CHR 0x94]"

definition entity_rationale :: "duration \<Rightarrow> rat \<Rightarrow> string" where
  "entity_rationale window distance =
     ''entity-match within '' @ plus_minus @ show_timedelta window @ '' ('' @ delta_sign @ ''='' @
       show_fixed 0 distance @ ''s)''"

definition entity_resolve ::
  "(tenant_id \<Rightarrow> entity_key \<Rightarrow> run list res) \<Rightarrow> duration \<Rightarrow> rat \<Rightarrow> resolve_context \<Rightarrow> resolve_outcome res" where
  "entity_resolve by_entity window eps ctx =
     res_bind (matching_runs by_entity window ctx) (\<lambda>runs.
       if runs = [] then Inr no_match
       else res_bind (res_traverse (score_run window ctx) runs) (\<lambda>scored0.
         let scored = sort_key (\<lambda>(r, distance, score). distance) scored0 in
         Inr (matched_outcome
           (map (\<lambda>(r, distance, score).
              candidate Candidate (run_id r) score (entity_rationale (window_for window ctx) distance)) scored)
           (is_ambiguous eps scored))))"

section \<open>Semantic inference\<close>

type_synonym judge = "string \<Rightarrow> string \<Rightarrow> string \<Rightarrow> rat res"

definition default_threshold :: rat where
  "default_threshold = 1 / 2"

definition rubric :: string where
  "rubric = ''Given the outcome's content and a candidate agent run (its agent, time, and '' @
     ''entity keys), score 0..1 how likely this run produced this outcome. This is an '' @
     ''advisory, review-queued inference and must never be treated as billing-grade.''"

definition run_summary :: "run \<Rightarrow> string" where
  "run_summary r =
     (let agent = (case run_agent_name r of None \<Rightarrow> ''unknown-agent''
            | Some a \<Rightarrow> if a = [] then ''unknown-agent'' else a);
          keys = join_with '', '' (map (\<lambda>(k, v). k @ ''='' @ v) (sort (remdups (run_entity_keys r))))
      in ''run '' @ run_id r @ '' (agent='' @ agent @ '', started_at='' @ isoformat (run_started_at r) @ '', '' @
         keys @ '')'')"

definition candidate_runs ::
  "(tenant_id \<Rightarrow> entity_key \<Rightarrow> run list res) \<Rightarrow> duration \<Rightarrow> resolve_context \<Rightarrow> run list res" where
  "candidate_runs by_entity window ctx =
     sharing_runs by_entity ctx (\<lambda>r. run_distance ctx r \<le> total_seconds window)"

fun judge_runs :: "judge \<Rightarrow> rat \<Rightarrow> resolve_context \<Rightarrow> run list \<Rightarrow> attribution_candidate list res" where
  "judge_runs grade thr ctx [] = Inr []"
| "judge_runs grade thr ctx (r # rs) =
     res_bind (grade (cx_content ctx) (run_summary r) rubric) (\<lambda>score.
     res_bind (judge_runs grade thr ctx rs) (\<lambda>cs.
       Inr (if thr \<le> score
            then candidate Likely (run_id r) score
              (''semantic inference (judge score '' @ show_fixed 2 score @ '')'') # cs
            else cs)))"

definition semantic_resolve ::
  "(tenant_id \<Rightarrow> entity_key \<Rightarrow> run list res) \<Rightarrow> judge option \<Rightarrow> duration \<Rightarrow> rat \<Rightarrow> resolve_context
     \<Rightarrow> resolve_outcome res" where
  "semantic_resolve by_entity judge window thr ctx =
     (case judge of
        None \<Rightarrow> Inr no_match
      | Some grade \<Rightarrow>
          res_bind (candidate_runs by_entity window ctx) (\<lambda>runs.
          res_bind (judge_runs grade thr ctx runs) (\<lambda>cs.
            if cs = [] then Inr no_match else Inr (matched_outcome cs False))))"

section \<open>Confidence label\<close>

fun label_for :: "binding_tier \<Rightarrow> confidence_label" where
  "label_for Exact = High"
| "label_for Deterministic = High"
| "label_for Candidate = Medium"
| "label_for Likely = Advisory"

section \<open>The cascade\<close>

record 's cascade =
  cs_get :: "'s \<Rightarrow> tenant_id \<Rightarrow> run_id \<Rightarrow> run option res"
  cs_list_by_entity :: "'s \<Rightarrow> tenant_id \<Rightarrow> entity_key \<Rightarrow> run list res"
  cs_enqueue :: "'s \<Rightarrow> tenant_id \<Rightarrow> attribution_result \<Rightarrow> 's res"
  cs_judge :: "judge option"
  cs_entity_window :: duration
  cs_semantic_window :: "duration option"
  cs_active_run_id :: "run_id option"

definition semantic_window :: "'s cascade \<Rightarrow> duration" where
  "semantic_window cs = (case cs_semantic_window cs of Some w \<Rightarrow> w | None \<Rightarrow> cs_entity_window cs)"

definition deterministic_tiers ::
  "run_id option \<Rightarrow> (string \<times> binding_tier \<times> (resolve_context \<Rightarrow> resolve_outcome res)) list" where
  "deterministic_tiers active =
     [(''AmbientContextResolver'', Exact, ambient_resolve active),
      (''BaggageResolver'', Exact, baggage_resolve),
      (''RoundTripResolver'', Deterministic, roundtrip_resolve)]"

fun bind_deterministic ::
  "(tenant_id \<Rightarrow> run_id \<Rightarrow> run option res) \<Rightarrow> resolve_context
     \<Rightarrow> (string \<times> binding_tier \<times> (resolve_context \<Rightarrow> resolve_outcome res)) list
     \<Rightarrow> attribution_result option res" where
  "bind_deterministic get ctx [] = Inr None"
| "bind_deterministic get ctx ((name, tier, f) # rest) =
     res_bind (resolve tier (f ctx)) (\<lambda>o'.
       case ro_candidates o' of
         [] \<Rightarrow> bind_deterministic get ctx rest
       | c # _ \<Rightarrow>
           res_bind (get (cx_tenant_id ctx) (ac_run_id c)) (\<lambda>found.
             case found of
               None \<Rightarrow> bind_deterministic get ctx rest
             | Some _ \<Rightarrow> Inr (Some
                 \<lparr>ar_tenant_id = cx_tenant_id ctx, ar_outcome_id = cx_outcome_id ctx,
                  ar_run_id = Some (ac_run_id c), ar_tier = Some (ac_tier c), ar_bound_by = Some name,
                  ar_candidates = ro_candidates o', ar_review_required = False\<rparr>)))"

text \<open>\<open>max(candidates, key=score)\<close> of a non-empty tuple.\<close>

fun top_candidate :: "attribution_candidate list \<Rightarrow> attribution_candidate res" where
  "top_candidate [] = Inl ValueError"
| "top_candidate (c # cs) = Inr (first_max ac_score c cs)"

definition advisory_result :: "resolve_context \<Rightarrow> string \<Rightarrow> resolve_outcome \<Rightarrow> attribution_result res" where
  "advisory_result ctx name o' =
     (if ro_ambiguous o'
      then Inr \<lparr>ar_tenant_id = cx_tenant_id ctx, ar_outcome_id = cx_outcome_id ctx,
             ar_run_id = None, ar_tier = None, ar_bound_by = Some name,
             ar_candidates = ro_candidates o', ar_review_required = True\<rparr>
      else res_bind (top_candidate (ro_candidates o')) (\<lambda>top.
        Inr \<lparr>ar_tenant_id = cx_tenant_id ctx, ar_outcome_id = cx_outcome_id ctx,
             ar_run_id = Some (ac_run_id top), ar_tier = Some (ac_tier top), ar_bound_by = Some name,
             ar_candidates = ro_candidates o', ar_review_required = True\<rparr>))"

definition unbound_result :: "resolve_context \<Rightarrow> attribution_result" where
  "unbound_result ctx =
     \<lparr>ar_tenant_id = cx_tenant_id ctx, ar_outcome_id = cx_outcome_id ctx, ar_run_id = None, ar_tier = None,
      ar_bound_by = None, ar_candidates = [], ar_review_required = True\<rparr>"

definition enqueue_result :: "'s cascade \<Rightarrow> 's \<Rightarrow> attribution_result \<Rightarrow> (attribution_result \<times> 's) res" where
  "enqueue_result cs s r = res_bind (cs_enqueue cs s (ar_tenant_id r) r) (\<lambda>s'. Inr (r, s'))"

definition bind_advisory :: "'s cascade \<Rightarrow> 's \<Rightarrow> resolve_context \<Rightarrow> (attribution_result \<times> 's) res" where
  "bind_advisory cs s ctx =
     res_bind (resolve Candidate
         (entity_resolve (cs_list_by_entity cs s) (cs_entity_window cs) default_epsilon_seconds ctx)) (\<lambda>entity.
       if matched entity
       then res_bind (advisory_result ctx ''EntityMatchResolver'' entity) (enqueue_result cs s)
       else res_bind (resolve Likely
           (semantic_resolve (cs_list_by_entity cs s) (cs_judge cs) (semantic_window cs) default_threshold ctx))
         (\<lambda>semantic.
           if matched semantic
           then res_bind (advisory_result ctx ''SemanticInferenceResolver'' semantic) (enqueue_result cs s)
           else enqueue_result cs s (unbound_result ctx)))"

text \<open>
  \<open>_declared_window\<close>: a positive number of seconds in \<open>raw\<close>. An int is converted to the
  nearest float first.
\<close>

definition declared_window :: "outcome_event \<Rightarrow> duration option res" where
  "declared_window e =
     (case dict_get (oe_raw e) ''entity_window_seconds'' of
        Some (JInt i) \<Rightarrow> if 0 < i then res_bind (timedelta_seconds (dbl (of_int i))) (\<lambda>w. Inr (Some w)) else Inr None
      | Some (JFloat x) \<Rightarrow> if 0 < x then res_bind (timedelta_seconds x) (\<lambda>w. Inr (Some w)) else Inr None
      | _ \<Rightarrow> Inr None)"

definition resolve_context_of ::
  "outcome_event \<Rightarrow> run_id option \<Rightarrow> (string, string) dict option \<Rightarrow> run_id option \<Rightarrow> resolve_context res" where
  "resolve_context_of e ambient baggage echoed =
     res_bind (declared_window e) (\<lambda>w.
       Inr \<lparr>cx_tenant_id = oe_tenant_id e, cx_outcome_id = oe_id e, cx_occurred_at = oe_occurred_at e,
            cx_entity_keys = oe_entity_keys e, cx_ambient_run_id = ambient,
            cx_baggage = (case baggage of None \<Rightarrow> [] | Some b \<Rightarrow> b), cx_echoed_run_id = echoed,
            cx_content = (case dict_get (oe_raw e) ''content'' of Some (JStr t) \<Rightarrow> t | _ \<Rightarrow> []),
            cx_entity_window = w\<rparr>)"

definition cascade_bind ::
  "'s cascade \<Rightarrow> 's \<Rightarrow> outcome_event \<Rightarrow> run_id option \<Rightarrow> (string, string) dict option \<Rightarrow> run_id option
     \<Rightarrow> (attribution_result \<times> 's) res" where
  "cascade_bind cs s e ambient baggage echoed =
     res_bind (resolve_context_of e ambient baggage echoed) (\<lambda>ctx.
     res_bind (bind_deterministic (cs_get cs s) ctx (deterministic_tiers (cs_active_run_id cs))) (\<lambda>det.
       case det of Some r \<Rightarrow> Inr (r, s) | None \<Rightarrow> bind_advisory cs s ctx))"

section \<open>Resolvers keep their tier\<close>

lemmas resolver_defs = ambient_resolve_def baggage_resolve_def roundtrip_resolve_def no_match_def
  matched_outcome_def candidate_def

lemma resolve_Inr_iff:
  "resolve t p = Inr o' \<longleftrightarrow> p = Inr o' \<and> (\<forall>c \<in> set (ro_candidates o'). ac_tier c = t)"
  by (auto simp: resolve_def split: if_splits)

lemma resolve_deterministic [simp]:
  "resolve Exact (ambient_resolve active ctx) = ambient_resolve active ctx"
  "resolve Exact (baggage_resolve ctx) = baggage_resolve ctx"
  "resolve Deterministic (roundtrip_resolve ctx) = roundtrip_resolve ctx"
  by (auto simp: resolve_def resolver_defs split: option.splits)

lemma entity_resolve_tier:
  "entity_resolve by_entity w eps ctx = Inr o' \<Longrightarrow> c \<in> set (ro_candidates o') \<Longrightarrow> ac_tier c = Candidate"
  by (auto simp: entity_resolve_def no_match_def matched_outcome_def candidate_def Let_def split: if_splits)

lemma resolve_entity [simp]:
  "resolve Candidate (entity_resolve by_entity w eps ctx) = entity_resolve by_entity w eps ctx"
  using entity_resolve_tier [of by_entity w eps ctx]
  by (cases "entity_resolve by_entity w eps ctx") (auto simp: resolve_def)

lemma judge_runs_tier: "judge_runs g thr ctx rs = Inr cs \<Longrightarrow> c \<in> set cs \<Longrightarrow> ac_tier c = Likely"
  by (induction rs arbitrary: cs) (auto simp: candidate_def split: if_splits)

lemma semantic_resolve_tier:
  "semantic_resolve by_entity j w thr ctx = Inr o' \<Longrightarrow> c \<in> set (ro_candidates o') \<Longrightarrow> ac_tier c = Likely"
  by (auto simp: semantic_resolve_def no_match_def matched_outcome_def dest: judge_runs_tier
      split: option.splits if_splits)

lemma resolve_semantic [simp]:
  "resolve Likely (semantic_resolve by_entity j w thr ctx) = semantic_resolve by_entity j w thr ctx"
  using semantic_resolve_tier [of by_entity j w thr ctx]
  by (cases "semantic_resolve by_entity j w thr ctx") (auto simp: resolve_def)

lemma top_candidate_mem: "top_candidate cs = Inr c \<Longrightarrow> c \<in> set cs"
  using first_max_in by (cases cs) fastforce+

lemma advisory_result_facts:
  assumes "advisory_result ctx name o' = Inr r" "\<forall>c \<in> set (ro_candidates o'). ac_tier c = t"
  shows "ar_review_required r" "ar_tenant_id r = cx_tenant_id ctx" "ar_outcome_id r = cx_outcome_id ctx"
    "ar_tier r = None \<and> ar_run_id r = None \<or> ar_tier r = Some t \<and> ar_run_id r \<noteq> None"
    "ar_candidates r = ro_candidates o'" "ar_bound_by r = Some name"
  using assms top_candidate_mem by (auto simp: advisory_result_def split: if_splits)

section \<open>Entity match finds the nearest run\<close>

context run_repository
begin

lemma list_all_keys:
  assumes "invar s"
  shows "\<exists>rss. res_traverse (\<lambda>k. list_by_entity s tid k) ks = Inr rss \<and>
     (\<forall>r. r \<in> set (concat rss) \<longleftrightarrow> view s tid (run_id r) = Some r \<and> set ks \<inter> set (run_entity_keys r) \<noteq> {})"
proof (induction ks)
  case (Cons k ks)
  obtain rss where rss: "res_traverse (\<lambda>k. list_by_entity s tid k) ks = Inr rss"
    "\<forall>r. r \<in> set (concat rss) \<longleftrightarrow> view s tid (run_id r) = Some r \<and> set ks \<inter> set (run_entity_keys r) \<noteq> {}"
    using Cons by blast
  obtain rs where rs: "list_by_entity s tid k = Inr rs"
    "\<forall>r. r \<in> set rs \<longleftrightarrow> view s tid (run_id r) = Some r \<and> k \<in> set (run_entity_keys r)"
    using list_view [OF assms, of tid k] by blast
  have "\<forall>r. r \<in> set (concat (rs # rss)) \<longleftrightarrow>
      view s tid (run_id r) = Some r \<and> set (k # ks) \<inter> set (run_entity_keys r) \<noteq> {}"
    using rss(2) rs(2) by (simp del: set_concat) blast
  moreover have "res_traverse (\<lambda>k. list_by_entity s tid k) (k # ks) = Inr (rs # rss)"
    using rs(1) rss(1) by simp
  ultimately show ?case by blast
qed simp

lemma sharing_runs_total:
  assumes "invar s"
  shows "\<exists>runs. sharing_runs (list_by_entity s) ctx P = Inr runs \<and> distinct (map run_id runs) \<and>
     (\<forall>r. r \<in> set runs \<longleftrightarrow> view s (cx_tenant_id ctx) (run_id r) = Some r \<and>
        set (cx_entity_keys ctx) \<inter> set (run_entity_keys r) \<noteq> {} \<and> P r)"
proof -
  let ?v = "view s (cx_tenant_id ctx)"
  obtain rss where rss: "res_traverse (\<lambda>k. list_by_entity s (cx_tenant_id ctx) k) (cx_entity_keys ctx) = Inr rss"
    and mem: "\<forall>r. r \<in> set (concat rss) \<longleftrightarrow>
      ?v (run_id r) = Some r \<and> set (cx_entity_keys ctx) \<inter> set (run_entity_keys r) \<noteq> {}"
    using list_all_keys [OF assms] by blast
  let ?all = "filter P (concat rss)"
  let ?runs = "dedup_by run_id [] ?all"
  have sub: "set ?runs \<subseteq> set ?all" by (rule dedup_by_subset)
  have "set ?all \<subseteq> set ?runs"
  proof
    fix r assume r: "r \<in> set ?all"
    then have "run_id r \<in> run_id ` set ?runs" by (simp add: dedup_by_keys del: set_concat)
    then obtain r' where r': "r' \<in> set ?runs" "run_id r' = run_id r" by force
    have "?v (run_id r) = Some r" "?v (run_id r') = Some r'" using r r'(1) sub mem by auto
    with r' show "r \<in> set ?runs" by simp
  qed
  with sub have "set ?runs = set ?all" by blast
  then have "\<forall>r. r \<in> set ?runs \<longleftrightarrow> ?v (run_id r) = Some r \<and>
      set (cx_entity_keys ctx) \<inter> set (run_entity_keys r) \<noteq> {} \<and> P r"
    using mem by simp
  moreover have "sharing_runs (list_by_entity s) ctx P = Inr ?runs" by (simp add: sharing_runs_def rss)
  ultimately show ?thesis using dedup_by_distinct by blast
qed

end

lemma run_distance_nonneg [simp]: "0 \<le> run_distance ctx r"
  by (simp add: run_distance_def)

lemma total_seconds_minus: "total_seconds (- d) = - total_seconds d"
  by (simp add: total_seconds_def dbl_def round_sig_minus)

lemma total_seconds_abs: "\<bar>total_seconds d\<bar> = total_seconds \<bar>d\<bar>"
proof (cases "0 \<le> d")
  case True
  then show ?thesis using total_seconds_mono [OF True] by simp
next
  case False
  then have "0 \<le> total_seconds (- d)" using total_seconds_mono [of 0 "- d"] by simp
  with False show ?thesis by (simp add: total_seconds_minus)
qed

lemma run_distance_abs: "run_distance ctx r = total_seconds \<bar>run_started_at r - cx_occurred_at ctx\<bar>"
  by (simp add: run_distance_def total_seconds_abs)

text \<open>The score falls as the distance grows.\<close>

lemma proximity_score_antitone:
  assumes "proximity_score w d = Inr x" "proximity_score w e = Inr y" "d \<le> e" "0 < w"
  shows "y \<le> x"
proof -
  have "dbl (d / w) \<le> dbl (e / w)" using assms(3,4) by (intro dbl.rnd_mono divide_right_mono) auto
  then show ?thesis using assms by (auto simp: proximity_score_def intro!: dbl.rnd_mono split: if_splits)
qed

lemma entity_resolve_matched:
  assumes "entity_resolve by_entity w eps ctx = Inr o'" "matched o'"
  obtains runs scored where "matching_runs by_entity w ctx = Inr runs"
    "set scored = (\<lambda>r. (r, run_distance ctx r, dbl (1 - dbl (run_distance ctx r / total_seconds (window_for w ctx))))) ` set runs"
    "length scored = length runs" "sorted (map (\<lambda>(r, distance, score). distance) scored)"
    "distinct (map run_id runs) \<Longrightarrow> distinct (map (\<lambda>(r, distance, score). run_id r) scored)"
    "total_seconds (window_for w ctx) \<noteq> 0" "scored \<noteq> []"
    "ro_candidates o' = map (\<lambda>(r, distance, score).
        candidate Candidate (run_id r) score (entity_rationale (window_for w ctx) distance)) scored"
    "ro_ambiguous o' = is_ambiguous eps scored"
proof -
  obtain runs where runs: "matching_runs by_entity w ctx = Inr runs" using assms(1) by (auto simp: entity_resolve_def)
  with assms have ne: "runs \<noteq> []" by (auto simp: entity_resolve_def matched_def no_match_def)
  let ?W = "total_seconds (window_for w ctx)"
  let ?f = "\<lambda>r. (r, run_distance ctx r, dbl (1 - dbl (run_distance ctx r / ?W)))"
  obtain sc0 where sc0: "res_traverse (score_run w ctx) runs = Inr sc0"
    using assms(1) ne by (auto simp: entity_resolve_def runs)
  have W: "?W \<noteq> 0"
    using sc0 ne by (cases runs) (auto simp: score_run_def proximity_score_def Let_def)
  then have "score_run w ctx r = Inr (?f r)" for r by (simp add: score_run_def proximity_score_def Let_def)
  then have sc: "sc0 = map ?f runs" using sc0 res_traverse_cong_Inr [of runs "score_run w ctx" ?f] by simp
  let ?s = "sort_key (\<lambda>(r, distance, score). distance) sc0"
  have "length ?s = length runs" by (simp add: sc)
  with ne have sne: "?s \<noteq> []" by (metis length_0_conv)
  show ?thesis
  proof (rule that [of runs ?s])
    show "distinct (map (\<lambda>(r, distance, score). run_id r) ?s)" if "distinct (map run_id runs)"
    proof -
      have "distinct (map (\<lambda>(r, distance, score). run_id r) sc0)" using that by (simp add: sc o_def)
      then show ?thesis by (simp add: distinct_map)
    qed
  qed (use runs W ne sne assms(1) in \<open>auto simp: sc entity_resolve_def sc0 matched_outcome_def Let_def\<close>)
qed

lemma matching_runs_within:
  "matching_runs by_entity w ctx = Inr runs \<Longrightarrow> r \<in> set runs \<Longrightarrow> within_window w ctx r"
  using dedup_by_subset by (fastforce simp: matching_runs_def sharing_runs_def)

lemma entity_window_pos:
  assumes "matching_runs by_entity w ctx = Inr runs" "r \<in> set runs" "total_seconds (window_for w ctx) \<noteq> 0"
  shows "0 < total_seconds (window_for w ctx)"
proof -
  have "0 \<le> total_seconds (window_for w ctx)"
    using order_trans [OF run_distance_nonneg [of ctx r]] matching_runs_within [OF assms(1,2)]
    unfolding within_window_def by blast
  with assms(3) show ?thesis by simp
qed

lemma entity_nearest:
  assumes res: "entity_resolve by_entity w eps ctx = Inr o'" "matched o'" "\<not> ro_ambiguous o'"
    and top: "top_candidate (ro_candidates o') = Inr c"
    and runs: "matching_runs by_entity w ctx = Inr runs" "distinct (map run_id runs)" and eps: "0 < eps"
  shows "\<exists>r \<in> set runs. ac_run_id c = run_id r \<and> (\<forall>r' \<in> set runs. run_id r' \<noteq> run_id r \<longrightarrow>
     \<bar>run_started_at r - cx_occurred_at ctx\<bar> < \<bar>run_started_at r' - cx_occurred_at ctx\<bar>)"
proof -
  let ?W = "total_seconds (window_for w ctx)"
  let ?x = "\<lambda>r. dbl (1 - dbl (run_distance ctx r / ?W))"
  let ?c = "\<lambda>(r, distance, score). candidate Candidate (run_id r) score (entity_rationale (window_for w ctx) distance)"
  obtain scored where sc: "set scored = (\<lambda>r. (r, run_distance ctx r, ?x r)) ` set runs"
    "sorted (map (\<lambda>(r, distance, score). distance) scored)" "?W \<noteq> 0" "scored \<noteq> []"
    "ro_candidates o' = map ?c scored" "ro_ambiguous o' = is_ambiguous eps scored"
    using runs by (cases rule: entity_resolve_matched [OF res(1,2)]) auto
  obtain r rest where cons: "scored = (r, run_distance ctx r, ?x r) # rest" "r \<in> set runs"
    using sc(1,4) by (cases scored) auto
  have rest: "\<exists>r' \<in> set runs. p = (r', run_distance ctx r', ?x r') \<and> run_distance ctx r \<le> run_distance ctx r'"
    if "p \<in> set rest" for p
  proof -
    have "p \<in> (\<lambda>r. (r, run_distance ctx r, ?x r)) ` set runs"
      using that cons(1) unfolding sc(1) [symmetric] by simp
    then obtain r' where "r' \<in> set runs" "p = (r', run_distance ctx r', ?x r')" by blast
    moreover have "run_distance ctx r \<le> (case p of (r, distance, score) \<Rightarrow> distance)"
      using that sc(2) unfolding cons(1) by auto
    ultimately show ?thesis by auto
  qed
  have W: "0 < ?W" by (rule entity_window_pos [OF runs(1) cons(2) sc(3)])
  have score: "proximity_score ?W (run_distance ctx y) = Inr (?x y)" for y
    using W by (simp add: proximity_score_def)
  have "first_max ac_score (?c (r, run_distance ctx r, ?x r)) (map ?c rest) = ?c (r, run_distance ctx r, ?x r)"
  proof (rule first_max_head)
    fix y assume "y \<in> set (map ?c rest)"
    then obtain r' where "y = ?c (r', run_distance ctx r', ?x r')" "run_distance ctx r \<le> run_distance ctx r'"
      using rest by fastforce
    then show "ac_score y \<le> ac_score (?c (r, run_distance ctx r, ?x r))"
      using proximity_score_antitone [OF score score _ W] by (simp add: candidate_def)
  qed
  then have c: "ac_run_id c = run_id r" using top by (auto simp: sc(5) cons(1) candidate_def)
  have far: "run_distance ctx r < run_distance ctx r'" if "r' \<in> set runs" "run_id r' \<noteq> run_id r" for r'
  proof -
    have in_rest: "(r', run_distance ctx r', ?x r') \<in> set rest" using that sc(1) cons(1) by auto
    then obtain p rest' where rest': "rest = p # rest'" by (cases rest) auto
    then obtain r2 where r2: "p = (r2, run_distance ctx r2, ?x r2)" "run_distance ctx r \<le> run_distance ctx r2"
      using rest [of p] by auto
    have "run_distance ctx r2 \<le> run_distance ctx r'" using sc(2) in_rest cons(1) rest' r2(1) by auto
    moreover have "run_distance ctx r \<noteq> run_distance ctx r2"
      using res(3) eps unfolding sc(6) cons(1) rest' r2(1) by auto
    ultimately show ?thesis using r2(2) by simp
  qed
  have "\<bar>run_started_at r - cx_occurred_at ctx\<bar> < \<bar>run_started_at r' - cx_occurred_at ctx\<bar>"
    if "r' \<in> set runs" "run_id r' \<noteq> run_id r" for r'
    using far [OF that] total_seconds_mono unfolding run_distance_abs by (meson not_le)
  with c cons(2) show ?thesis by blast
qed

section \<open>Shape of a bound result\<close>

lemma bind_deterministic_Some:
  assumes "bind_deterministic get ctx ts = Inr (Some r)" "\<forall>(n, t, f) \<in> set ts. billing_grade_tier t"
  shows "is_billing_grade_result r \<and> \<not> ar_review_required r \<and> ar_tenant_id r = cx_tenant_id ctx \<and>
     ar_outcome_id r = cx_outcome_id ctx \<and>
     (\<exists>rid x. ar_run_id r = Some rid \<and> get (cx_tenant_id ctx) rid = Inr (Some x))"
  using assms
proof (induction ts)
  case (Cons p ts)
  obtain n t f where p: "p = (n, t, f)" by (cases p) auto
  from Cons.prems(1) obtain o' where o': "resolve t (f ctx) = Inr o'" by (auto simp: p)
  show ?case
  proof (cases "ro_candidates o'")
    case Nil
    with Cons o' p show ?thesis by auto
  next
    case (Cons c cs)
    have t: "ac_tier c = t" "billing_grade_tier t"
      using o' Cons Cons.prems(2) p unfolding resolve_Inr_iff by auto
    from Cons.prems(1) Cons o' p obtain fnd where fnd: "get (cx_tenant_id ctx) (ac_run_id c) = Inr fnd" by auto
    show ?thesis
    proof (cases fnd)
      case None
      with Cons Cons.prems Cons.IH o' p fnd show ?thesis by auto
    next
      case (Some x)
      with Cons Cons.prems(1) o' p fnd t show ?thesis by (auto simp: is_billing_grade_result_def)
    qed
  qed
qed simp

lemma deterministic_tiers_grade: "\<forall>(n, t, f) \<in> set (deterministic_tiers a). billing_grade_tier t"
  by (simp add: deterministic_tiers_def billing_grade_tier_def)

lemmas bind_advisory_unfold = bind_advisory_def [unfolded resolve_entity resolve_semantic]

lemma bind_advisory_Inr:
  assumes "bind_advisory cs s ctx = Inr (r, s')"
  shows "ar_review_required r \<and> \<not> is_billing_grade_result r \<and> ar_tenant_id r = cx_tenant_id ctx \<and>
     ar_outcome_id r = cx_outcome_id ctx \<and> cs_enqueue cs s (cx_tenant_id ctx) r = Inr s'"
proof -
  obtain ent where ent: "entity_resolve (cs_list_by_entity cs s) (cs_entity_window cs) default_epsilon_seconds ctx = Inr ent"
    using assms by (auto simp: bind_advisory_unfold)
  have adv: "ar_review_required x \<and> \<not> is_billing_grade_result x \<and> ar_tenant_id x = cx_tenant_id ctx \<and>
      ar_outcome_id x = cx_outcome_id ctx"
    if "advisory_result ctx n o' = Inr x" "\<forall>c \<in> set (ro_candidates o'). ac_tier c = t" "\<not> billing_grade_tier t" for n o' t x
    using advisory_result_facts [OF that(1,2)] that(3) by (auto simp: is_billing_grade_result_def)
  show ?thesis
  proof (cases "matched ent")
    case True
    then obtain x where x: "advisory_result ctx ''EntityMatchResolver'' ent = Inr x" "enqueue_result cs s x = Inr (r, s')"
      using assms ent by (auto simp: bind_advisory_unfold)
    have "\<forall>c \<in> set (ro_candidates ent). ac_tier c = Candidate" using entity_resolve_tier [OF ent] by blast
    from adv [OF x(1) this] x(2) show ?thesis by (auto simp: enqueue_result_def billing_grade_tier_def)
  next
    case False
    then obtain sem where sem: "semantic_resolve (cs_list_by_entity cs s) (cs_judge cs) (semantic_window cs) default_threshold ctx = Inr sem"
      using assms ent by (auto simp: bind_advisory_unfold)
    show ?thesis
    proof (cases "matched sem")
      case True
      then obtain x where x: "advisory_result ctx ''SemanticInferenceResolver'' sem = Inr x" "enqueue_result cs s x = Inr (r, s')"
        using assms ent sem False by (auto simp: bind_advisory_unfold)
      have "\<forall>c \<in> set (ro_candidates sem). ac_tier c = Likely" using semantic_resolve_tier [OF sem] by blast
      from adv [OF x(1) this] x(2) show ?thesis by (auto simp: enqueue_result_def billing_grade_tier_def)
    next
      case False2: False
      then have "enqueue_result cs s (unbound_result ctx) = Inr (r, s')"
        using assms ent sem False by (auto simp: bind_advisory_unfold)
      then show ?thesis by (auto simp: enqueue_result_def unbound_result_def is_billing_grade_result_def)
    qed
  qed
qed

lemma resolve_context_of_Inr:
  assumes "resolve_context_of e ambient baggage echoed = Inr ctx"
  shows "cx_tenant_id ctx = oe_tenant_id e" "cx_outcome_id ctx = oe_id e" "cx_occurred_at ctx = oe_occurred_at e"
    "cx_entity_keys ctx = oe_entity_keys e" "cx_ambient_run_id ctx = ambient" "cx_echoed_run_id ctx = echoed"
    "cx_baggage ctx = (case baggage of None \<Rightarrow> [] | Some b \<Rightarrow> b)"
  using assms by (auto simp: resolve_context_of_def)

text \<open>The deterministic signals that are present, in tier order.\<close>

definition ambient_signal :: "run_id option \<Rightarrow> resolve_context \<Rightarrow> run_id option" where
  "ambient_signal active ctx = (case cx_ambient_run_id ctx of Some r \<Rightarrow> Some r | None \<Rightarrow> active)"

definition baggage_signal :: "resolve_context \<Rightarrow> run_id option" where
  "baggage_signal ctx = (case dict_get (cx_baggage ctx) BAGGAGE_RUN_ID_KEY of
     None \<Rightarrow> None | Some r \<Rightarrow> if strip r = [] then None else Some r)"

definition carried_signals :: "run_id option \<Rightarrow> resolve_context \<Rightarrow> (string \<times> binding_tier \<times> run_id) list" where
  "carried_signals active ctx =
     map (\<lambda>(n, t, x). (n, t, the x)) (filter (\<lambda>(n, t, x). x \<noteq> None)
       [(''AmbientContextResolver'', Exact, ambient_signal active ctx),
        (''BaggageResolver'', Exact, baggage_signal ctx),
        (''RoundTripResolver'', Deterministic, cx_echoed_run_id ctx)])"

definition signal_outcome :: "binding_tier \<Rightarrow> string \<Rightarrow> run_id option \<Rightarrow> resolve_outcome" where
  "signal_outcome t why x = (case x of None \<Rightarrow> no_match | Some i \<Rightarrow> matched_outcome [candidate t i 1 why] False)"

lemma deterministic_signals:
  "ambient_resolve active ctx = Inr (signal_outcome Exact ''ambient contextvar run_id'' (ambient_signal active ctx))"
  "baggage_resolve ctx = Inr (signal_outcome Exact ''W3C baggage run_id'' (baggage_signal ctx))"
  "roundtrip_resolve ctx =
     Inr (signal_outcome Deterministic ''round-tripped run_id echoed in outcome metadata'' (cx_echoed_run_id ctx))"
  by (auto simp: ambient_resolve_def baggage_resolve_def roundtrip_resolve_def signal_outcome_def
      ambient_signal_def baggage_signal_def split: option.splits)

definition deterministic_result :: "resolve_context \<Rightarrow> string \<Rightarrow> binding_tier \<Rightarrow> run_id \<Rightarrow> string \<Rightarrow> attribution_result" where
  "deterministic_result ctx n t i why =
     \<lparr>ar_tenant_id = cx_tenant_id ctx, ar_outcome_id = cx_outcome_id ctx, ar_run_id = Some i, ar_tier = Some t,
      ar_bound_by = Some n, ar_candidates = [candidate t i 1 why], ar_review_required = False\<rparr>"

lemma bind_deterministic_step:
  assumes "f ctx = Inr (signal_outcome t why x)" "\<And>i. get (cx_tenant_id ctx) i = Inr (v i)"
  shows "bind_deterministic get ctx ((n, t, f) # rest) =
     (case x of None \<Rightarrow> bind_deterministic get ctx rest
      | Some i \<Rightarrow> if v i = None then bind_deterministic get ctx rest
          else Inr (Some (deterministic_result ctx n t i why)))"
  using assms
  by (auto simp: signal_outcome_def resolve_def no_match_def matched_outcome_def candidate_def
      deterministic_result_def split: option.splits)

lemma bind_deterministic_find:
  assumes "\<And>i. get (cx_tenant_id ctx) i = Inr (v i)"
  shows "\<exists>why. bind_deterministic get ctx (deterministic_tiers active) =
     (case find (\<lambda>(n, t, i). v i \<noteq> None) (carried_signals active ctx) of
        None \<Rightarrow> Inr None | Some (n, t, i) \<Rightarrow> Inr (Some (deterministic_result ctx n t i why)))"
proof -
  have step: "bind_deterministic get ctx ((n, t, f) # rest) =
     (case x of None \<Rightarrow> bind_deterministic get ctx rest
      | Some i \<Rightarrow> if v i = None then bind_deterministic get ctx rest
          else Inr (Some (deterministic_result ctx n t i why)))"
    if "f ctx = Inr (signal_outcome t why x)" for n t f rest why x
    using that assms by (rule bind_deterministic_step)
  show ?thesis
    unfolding deterministic_tiers_def carried_signals_def
      step [of "ambient_resolve active", OF deterministic_signals(1)]
      step [of baggage_resolve, OF deterministic_signals(2)]
      step [of roundtrip_resolve, OF deterministic_signals(3)]
    by (cases "ambient_signal active ctx"; cases "baggage_signal ctx"; cases "cx_echoed_run_id ctx") auto
qed

lemma cascade_bind_honest_aux:
  assumes "cascade_bind cs s e ambient baggage echoed = Inr (r, s')"
  shows "ar_tenant_id r = oe_tenant_id e \<and> ar_outcome_id r = oe_id e \<and>
     (if ar_review_required r
      then \<not> is_billing_grade_result r \<and> cs_enqueue cs s (oe_tenant_id e) r = Inr s'
      else is_billing_grade_result r \<and> s' = s \<and>
        (\<exists>rid x. ar_run_id r = Some rid \<and> cs_get cs s (oe_tenant_id e) rid = Inr (Some x)))"
proof -
  obtain ctx det where ctx: "resolve_context_of e ambient baggage echoed = Inr ctx"
    and det: "bind_deterministic (cs_get cs s) ctx (deterministic_tiers (cs_active_run_id cs)) = Inr det"
    using assms by (auto simp: cascade_bind_def)
  note fields = resolve_context_of_Inr [OF ctx]
  show ?thesis
  proof (cases det)
    case None
    then have "bind_advisory cs s ctx = Inr (r, s')" using assms ctx det by (simp add: cascade_bind_def)
    from bind_advisory_Inr [OF this] show ?thesis by (simp add: fields)
  next
    case (Some x)
    then have "x = r" "s' = s" using assms ctx det by (simp_all add: cascade_bind_def)
    have "bind_deterministic (cs_get cs s) ctx (deterministic_tiers (cs_active_run_id cs)) = Inr (Some r)"
      using det Some \<open>x = r\<close> by simp
    from bind_deterministic_Some [OF this deterministic_tiers_grade] \<open>s' = s\<close> show ?thesis
      by (auto simp: fields)
  qed
qed

section \<open>Properties\<close>

text \<open>
  C1. The honesty axis of a binding. A result that needs no review is billing-grade and
  names a run the repository confirmed at bind time, and nothing was queued. Every other
  result is marked for review, is never billing-grade, and is the value handed to the
  tenant's review queue, once.
\<close>

theorem cascade_bind_honest:
  assumes "cascade_bind cs s e ambient baggage echoed = Inr (r, s')"
  shows "ar_tenant_id r = oe_tenant_id e \<and> ar_outcome_id r = oe_id e \<and>
     (if ar_review_required r
      then \<not> is_billing_grade_result r \<and> cs_enqueue cs s (oe_tenant_id e) r = Inr s'
      else is_billing_grade_result r \<and> s' = s \<and>
        (\<exists>rid x. ar_run_id r = Some rid \<and> cs_get cs s (oe_tenant_id e) rid = Inr (Some x)))"
  using assms by (rule cascade_bind_honest_aux)

definition sample_cascade :: "attribution_result list cascade" where
  "sample_cascade = \<lparr>cs_get = (\<lambda>s tid i. Inr None), cs_list_by_entity = (\<lambda>s tid k. Inr []),
     cs_enqueue = (\<lambda>s tid r. Inr (s @ [r])), cs_judge = None, cs_entity_window = 3600000000,
     cs_semantic_window = None, cs_active_run_id = None\<rparr>"

theorem cascade_bind_honest_witness:
  "\<exists>r. cascade_bind sample_cascade [] sample_outcome (Some ''ghost'') None None = Inr (r, [r]) \<and>
     ar_review_required r \<and> \<not> is_billing_grade_result r"
proof -
  have "\<exists>r s'. cascade_bind sample_cascade [] sample_outcome (Some ''ghost'') None None = Inr (r, s') \<and>
      ar_review_required r"
    by (simp add: cascade_bind_def resolve_context_of_def declared_window_def sample_outcome_def
        bind_deterministic_step sample_cascade_def deterministic_tiers_def resolver_defs resolve_def
        bind_advisory_def entity_resolve_def matching_runs_def sharing_runs_def semantic_resolve_def
        matched_def enqueue_result_def unbound_result_def)
  then obtain r s' where r: "cascade_bind sample_cascade [] sample_outcome (Some ''ghost'') None None = Inr (r, s')"
    "ar_review_required r" by blast
  from cascade_bind_honest [OF r(1)] r show ?thesis by (auto simp: sample_cascade_def)
qed

end
