(* ===== verification/Attribution.thy ===== *)
theory Attribution
  imports Cascade
begin

text \<open>
  The attribution capabilities (\<open>attribution/capabilities.py\<close>) over the SQL store: the
  late-bound runtime, first-sight registration of a caller-supplied run, the
  \<open>bind_outcome\<close> handler that composes it with the cascade and the write of the outcome,
  and the \<open>list_review_queue\<close> lookup.

  The runtime's repositories are those of \<open>Store\<close>; the identifier and the clock reading of
  an enqueue are arguments. A raise ends the handler with the error; writes already
  committed by then are not part of the returned value.
\<close>

section \<open>Runtime\<close>

record attribution_runtime =
  rt_entity_window :: duration
  rt_judge :: "judge option"
  rt_semantic_window :: "duration option"
  rt_outcome_repo :: bool

text \<open>What a request carries beside its body: transport signals, the ambient run, the
  identifier and the time a review item would get.\<close>

record request =
  rq_signals :: request_signals
  rq_active_run_id :: "run_id option"
  rq_new_id :: string
  rq_now :: instant

definition require_runtime :: "attribution_runtime option \<Rightarrow> attribution_runtime res" where
  "require_runtime holder = (case holder of None \<Rightarrow> Inl AttributionNotWiredError | Some rt \<Rightarrow> Inr rt)"

definition runtime_cascade :: "attribution_runtime \<Rightarrow> request \<Rightarrow> db cascade" where
  "runtime_cascade rt q =
     \<lparr>cs_get = run_get, cs_list_by_entity = run_list_by_entity,
      cs_enqueue = (\<lambda>d tid r. review_enqueue d tid (ItemModel r) (rq_new_id q) (rq_now q)),
      cs_judge = rt_judge rt, cs_entity_window = rt_entity_window rt,
      cs_semantic_window = rt_semantic_window rt, cs_active_run_id = rq_active_run_id q\<rparr>"

section \<open>Handlers\<close>

text \<open>\<open>outcome.binding.run_id or _carried_run_id(...)\<close>: an empty string counts as absent.\<close>

definition asserted_run_id :: "request_signals \<Rightarrow> outcome_event \<Rightarrow> run_id option" where
  "asserted_run_id sig e = (case ob_run_id (oe_binding e) of
     Some r \<Rightarrow> if r = [] then carried_run_id sig else Some r
   | None \<Rightarrow> carried_run_id sig)"

definition first_sight_run :: "outcome_event \<Rightarrow> run_id \<Rightarrow> run" where
  "first_sight_run e rid =
     \<lparr>run_tenant_id = oe_tenant_id e, run_id = rid, run_agent_name = None, run_started_at = oe_occurred_at e,
      run_ended_at = None, run_entity_keys = oe_entity_keys e, run_experiment = None, run_variant = None,
      run_app = None\<rparr>"

definition ensure_run_exists :: "db \<Rightarrow> request_signals \<Rightarrow> outcome_event \<Rightarrow> db res" where
  "ensure_run_exists d sig e =
     (case asserted_run_id sig e of
        None \<Rightarrow> Inr d
      | Some rid \<Rightarrow>
          res_bind (run_get d (oe_tenant_id e) rid) (\<lambda>found.
            case found of Some _ \<Rightarrow> Inr d | None \<Rightarrow> run_upsert d (oe_tenant_id e) (first_sight_run e rid)))"

definition bound_outcome :: "outcome_event \<Rightarrow> attribution_result \<Rightarrow> outcome_event" where
  "bound_outcome e r =
     e\<lparr>oe_binding := outcome_binding_default (ar_run_id r) (ar_tier r) (ar_bound_by r)\<rparr>"

definition persist :: "attribution_runtime \<Rightarrow> db \<Rightarrow> outcome_event \<Rightarrow> attribution_result \<Rightarrow> db res" where
  "persist rt d e r =
     (if rt_outcome_repo rt then outcome_upsert d (oe_tenant_id e) (bound_outcome e r) else Inr d)"

definition bind_outcome_handler ::
  "attribution_runtime option \<Rightarrow> request \<Rightarrow> db \<Rightarrow> outcome_event \<Rightarrow> (attribution_result \<times> db) res" where
  "bind_outcome_handler holder q d e =
     res_bind (require_runtime holder) (\<lambda>rt.
     res_bind (ensure_run_exists d (rq_signals q) e) (\<lambda>d1.
     res_bind (cascade_bind (runtime_cascade rt q) d1 e (ob_run_id (oe_binding e))
         (rs_baggage (rq_signals q)) (rs_echoed_run_id (rq_signals q))) (\<lambda>(r, d2).
     res_bind (persist rt d2 e r) (\<lambda>d3. Inr (r, d3)))))"

fun first_pending :: "outcome_id \<Rightarrow> review_item list \<Rightarrow> attribution_result res" where
  "first_pending i [] = Inl AttributionNotWiredError"
| "first_pending i (ItemModel r # items) = (if ar_outcome_id r = i then Inr r else first_pending i items)"
| "first_pending i (ItemJson j # items) = first_pending i items"

definition pending_for :: "db \<Rightarrow> outcome_event \<Rightarrow> attribution_result res" where
  "pending_for d e = first_pending (oe_id e) (review_list_pending d (oe_tenant_id e))"

definition list_review_queue_handler ::
  "attribution_runtime option \<Rightarrow> db \<Rightarrow> outcome_event \<Rightarrow> attribution_result res" where
  "list_review_queue_handler holder d e = res_bind (require_runtime holder) (\<lambda>_. pending_for d e)"

section \<open>Store effects of the handler\<close>

lemma cascade_ports [simp]:
  "cs_get (runtime_cascade rt q) = run_get"
  "cs_list_by_entity (runtime_cascade rt q) = run_list_by_entity"
  "cs_entity_window (runtime_cascade rt q) = rt_entity_window rt"
  "cs_active_run_id (runtime_cascade rt q) = rq_active_run_id q"
  "cs_enqueue (runtime_cascade rt q) d tid r = review_enqueue d tid (ItemModel r) (rq_new_id q) (rq_now q)"
  by (simp_all add: runtime_cascade_def)

lemma outcome_upsert_rows:
  assumes "db_outcome_event d = outcome_rows ms" "distinct (map (\<lambda>(t, m). (t, oe_id m)) ms)"
  shows "outcome_upsert d tid e =
     (if unique_on outcome_correlation (outcome_rows (put oe_id tid e ms))
      then Inr (d\<lparr>db_outcome_event := outcome_rows (put oe_id tid e ms)\<rparr>) else Inl IntegrityError)"
proof -
  have "unique_on tenant_pk (outcome_rows (put oe_id tid e ms))"
    unfolding outcome_rows_def outcome_codec.unique_conflict using assms(2) by (rule put_distinct)
  moreover have "upsert_stmt [tenant_pk, outcome_correlation] tenant_pk (outcome_event_to_row tid e) (db_outcome_event d) =
      commit [tenant_pk, outcome_correlation] (outcome_rows (put oe_id tid e ms))"
    unfolding assms(1) outcome_rows_def by (rule outcome_codec.upsert_put)
  ultimately show ?thesis by (simp add: outcome_upsert_def commit_def)
qed

lemma outcome_upsert_get:
  assumes "outcome_table_ok d"
  shows "outcome_upsert d tid e = Inl IntegrityError \<or>
     (\<exists>d'. outcome_upsert d tid e = Inr d' \<and> outcome_table_ok d' \<and> db_run d' = db_run d \<and>
        db_review_queue d' = db_review_queue d \<and> outcome_get d' tid (oe_id e) = Inr (Some (stored_outcome tid e)))"
proof -
  obtain ms where ms: "db_outcome_event d = outcome_rows ms" "distinct (map (\<lambda>(t, m). (t, oe_id m)) ms)"
    using assms by (auto simp: outcome_table_ok_def)
  let ?d = "d\<lparr>db_outcome_event := outcome_rows (put oe_id tid e ms)\<rparr>"
  have dm: "distinct (map (\<lambda>(t, m). (t, oe_id m)) (put oe_id tid e ms))" using ms(2) by (rule put_distinct)
  then have ok: "outcome_table_ok ?d" by (auto simp: outcome_table_ok_def)
  have "outcome_get ?d tid (oe_id e) = Inr (Some (stored_outcome tid e))"
    by (rule outcome_get_mem [OF _ dm]) (simp_all add: put_mem [OF ms(2)])
  with ok show ?thesis by (simp add: outcome_upsert_rows [OF ms])
qed

lemma run_table_ok_cong: "db_run d' = db_run d \<Longrightarrow> run_table_ok d' = run_table_ok d"
  by (simp add: run_table_ok_def)

lemma run_get_cong: "db_run d' = db_run d \<Longrightarrow> run_get d' tid i = run_get d tid i"
  by (simp add: run_get_def)

lemma ensure_run_exists_effect:
  assumes "run_table_ok d"
  shows "\<exists>d1. ensure_run_exists d sig e = Inr d1 \<and> run_table_ok d1 \<and>
     db_outcome_event d1 = db_outcome_event d \<and> db_review_queue d1 = db_review_queue d \<and>
     (\<forall>rid. asserted_run_id sig e = Some rid \<longrightarrow> run_view d1 (oe_tenant_id e) rid =
        (case run_view d (oe_tenant_id e) rid of
           Some x \<Rightarrow> Some x | None \<Rightarrow> Some (stored_run (oe_tenant_id e) (first_sight_run e rid)))) \<and>
     (\<forall>t i. t \<noteq> oe_tenant_id e \<or> asserted_run_id sig e \<noteq> Some i \<longrightarrow> run_view d1 t i = run_view d t i)"
proof (cases "asserted_run_id sig e")
  case None
  with assms show ?thesis by (auto simp: ensure_run_exists_def)
next
  case (Some rid)
  show ?thesis
  proof (cases "run_view d (oe_tenant_id e) rid")
    case None
    obtain d1 where d1: "run_upsert d (oe_tenant_id e) (first_sight_run e rid) = Inr d1" "run_table_ok d1"
      "\<forall>t i. run_view d1 t i = (if t = oe_tenant_id e \<and> i = run_id (first_sight_run e rid)
         then Some (stored_run (oe_tenant_id e) (first_sight_run e rid)) else run_view d t i)"
      using run_repo.upsert_view [OF assms] by blast
    moreover have "db_outcome_event d1 = db_outcome_event d" "db_review_queue d1 = db_review_queue d"
      using d1(1) by (auto simp: run_upsert_def)
    ultimately show ?thesis
      using Some None by (auto simp: ensure_run_exists_def run_repo.get_view [OF assms] first_sight_run_def)
  next
    case s2: (Some x)
    with Some assms show ?thesis by (auto simp: ensure_run_exists_def run_repo.get_view)
  qed
qed

lemma review_enqueue_frame:
  assumes "review_enqueue d tid item i now = Inr d'"
  shows "db_run d' = db_run d" "db_outcome_event d' = db_outcome_event d"
  using assms by (auto simp: review_enqueue_def split: if_splits)

lemma cascade_bind_frame:
  assumes "cascade_bind (runtime_cascade rt q) d e a b c = Inr (r, d')"
  shows "db_run d' = db_run d" "db_outcome_event d' = db_outcome_event d"
  using cascade_bind_honest_aux [OF assms] review_enqueue_frame by (auto split: if_splits)

lemma handler_Inr:
  assumes "run_table_ok d" "bind_outcome_handler (Some rt) q d e = Inr (r, d')"
  obtains d1 d2 where "ensure_run_exists d (rq_signals q) e = Inr d1" "run_table_ok d1"
    "cascade_bind (runtime_cascade rt q) d1 e (ob_run_id (oe_binding e)) (rs_baggage (rq_signals q))
       (rs_echoed_run_id (rq_signals q)) = Inr (r, d2)"
    "persist rt d2 e r = Inr d'" "db_outcome_event d2 = db_outcome_event d" "db_run d2 = db_run d1"
proof -
  obtain d1 where d1: "ensure_run_exists d (rq_signals q) e = Inr d1" "run_table_ok d1"
    "db_outcome_event d1 = db_outcome_event d"
    using ensure_run_exists_effect [OF assms(1)] by blast
  from assms(2) d1 obtain d2 where d2: "cascade_bind (runtime_cascade rt q) d1 e (ob_run_id (oe_binding e))
      (rs_baggage (rq_signals q)) (rs_echoed_run_id (rq_signals q)) = Inr (r, d2)" "persist rt d2 e r = Inr d'"
    by (auto simp: bind_outcome_handler_def require_runtime_def)
  with d1 cascade_bind_frame [OF d2(1)] that show ?thesis by simp
qed

text \<open>The runs the entity tier may bind: current, of the tenant, sharing a key, in the window.\<close>

definition eligible_run :: "db \<Rightarrow> duration \<Rightarrow> resolve_context \<Rightarrow> run \<Rightarrow> bool" where
  "eligible_run d w ctx x \<longleftrightarrow> run_get d (cx_tenant_id ctx) (run_id x) = Inr (Some x) \<and>
     set (cx_entity_keys ctx) \<inter> set (run_entity_keys x) \<noteq> {} \<and> within_window w ctx x"

lemma matching_runs_eligible:
  assumes "run_table_ok d"
  shows "\<exists>runs. matching_runs (run_list_by_entity d) w ctx = Inr runs \<and> distinct (map run_id runs) \<and>
     (\<forall>x. x \<in> set runs \<longleftrightarrow> eligible_run d w ctx x)"
  using run_repo.sharing_runs_total [OF assms, of ctx "within_window w ctx"]
  unfolding matching_runs_def eligible_run_def run_repo.get_view [OF assms] by simp

lemma bind_advisory_candidate:
  assumes "bind_advisory cs s ctx = Inr (r, s')" "ar_tier r = Some Candidate"
  obtains ent c where "entity_resolve (cs_list_by_entity cs s) (cs_entity_window cs) default_epsilon_seconds ctx = Inr ent"
    "matched ent" "\<not> ro_ambiguous ent" "top_candidate (ro_candidates ent) = Inr c" "ar_run_id r = Some (ac_run_id c)"
proof -
  obtain ent where ent: "entity_resolve (cs_list_by_entity cs s) (cs_entity_window cs) default_epsilon_seconds ctx = Inr ent"
    using assms(1) by (auto simp: bind_advisory_unfold)
  have "matched ent"
  proof (rule ccontr)
    assume nm: "\<not> matched ent"
    then obtain sem where sem: "semantic_resolve (cs_list_by_entity cs s) (cs_judge cs) (semantic_window cs) default_threshold ctx = Inr sem"
      using assms(1) ent by (auto simp: bind_advisory_unfold)
    have "\<forall>c \<in> set (ro_candidates sem). ac_tier c = Likely" using semantic_resolve_tier [OF sem] by blast
    then have "ar_tier r \<noteq> Some Candidate"
      using assms(1) ent sem nm advisory_result_facts(4)
      by (fastforce simp: bind_advisory_unfold enqueue_result_def unbound_result_def split: if_splits)
    with assms(2) show False by simp
  qed
  with assms ent show ?thesis
    by (auto simp: bind_advisory_unfold enqueue_result_def advisory_result_def intro!: that split: if_splits)
qed

lemma timedelta_overflow:
  assumes "86400000000000 \<le> x"
  shows "timedelta_seconds x = Inl OverflowError"
proof -
  have "86400000000000 \<le> \<lfloor>x\<rfloor>" using assms by (simp add: le_floor_iff)
  moreover have "0 \<le> half_even (dbl (frac x * 1000000))"
    using half_even_ge [of 0 "dbl (frac x * 1000000)"] dbl.rnd_nonneg [of "frac x * 1000000"] by simp
  ultimately have "1000000000 * day_us \<le> \<lfloor>x\<rfloor> * 1000000 + half_even (dbl (frac x * 1000000))"
    unfolding day_us_def by linarith
  then have "1000000000 * day_us div day_us \<le> (\<lfloor>x\<rfloor> * 1000000 + half_even (dbl (frac x * 1000000))) div day_us"
    by (rule zdiv_mono1) (simp add: day_us_def)
  then have "1000000000 \<le> (\<lfloor>x\<rfloor> * 1000000 + half_even (dbl (frac x * 1000000))) div day_us"
    by (simp add: day_us_def)
  then show ?thesis by (simp add: timedelta_seconds_def Let_def)
qed

lemma cascade_live_aux:
  assumes "run_table_ok d" "resolve_context_of e ambient baggage echoed = Inr ctx"
  shows "case find (\<lambda>(n, t, i). run_get d (oe_tenant_id e) i \<noteq> Inr None) (carried_signals (rq_active_run_id q) ctx) of
       Some (n, t, i) \<Rightarrow> \<exists>r. cascade_bind (runtime_cascade rt q) d e ambient baggage echoed = Inr (r, d) \<and>
         ar_run_id r = Some i \<and> ar_tier r = Some t \<and> ar_bound_by r = Some n
     | None \<Rightarrow> cascade_bind (runtime_cascade rt q) d e ambient baggage echoed =
         bind_advisory (runtime_cascade rt q) d ctx"
proof -
  let ?v = "run_view d (oe_tenant_id e)"
  have tid: "cx_tenant_id ctx = oe_tenant_id e" using assms(2) by (simp add: resolve_context_of_Inr)
  have get: "run_get d (cx_tenant_id ctx) i = Inr (?v i)" for i
    by (simp add: run_repo.get_view [OF assms(1)] tid)
  obtain why where w: "bind_deterministic (run_get d) ctx (deterministic_tiers (rq_active_run_id q)) =
      (case find (\<lambda>(n, t, i). ?v i \<noteq> None) (carried_signals (rq_active_run_id q) ctx) of
         None \<Rightarrow> Inr None | Some (n, t, i) \<Rightarrow> Inr (Some (deterministic_result ctx n t i why)))"
    using bind_deterministic_find [of "run_get d" ctx ?v, OF get] by blast
  have eq: "(\<lambda>(n, t, i). run_get d (oe_tenant_id e) i \<noteq> Inr None) = (\<lambda>(n :: string, t :: binding_tier, i). ?v i \<noteq> None)"
    by (simp add: run_repo.get_view [OF assms(1)])
  show ?thesis
    unfolding eq by (auto simp: cascade_bind_def assms(2) w deterministic_result_def split: option.splits)
qed

lemma first_pending_json:
  "\<forall>x \<in> set items. \<exists>j. x = ItemJson j \<Longrightarrow> first_pending i items = Inl AttributionNotWiredError"
  by (induction i items rule: first_pending.induct) auto

definition queue_json :: "db \<Rightarrow> bool" where
  "queue_json d \<longleftrightarrow> (\<forall>x \<in> set (db_review_queue d). \<exists>j. rq_item x = ItemJson j)"

lemma queue_json_cong: "db_review_queue d' = db_review_queue d \<Longrightarrow> queue_json d' = queue_json d"
  by (simp add: queue_json_def)

lemma review_enqueue_json: "review_enqueue d tid item i now = Inr d' \<Longrightarrow> queue_json d \<Longrightarrow> queue_json d'"
  by (cases item) (auto simp: review_enqueue_def queue_json_def split: if_splits)

lemma handler_queue_json:
  assumes "\<forall>x \<in> set (db_review_queue d). \<exists>j. rq_item x = ItemJson j"
    "bind_outcome_handler (Some rt) q d e = Inr (r, d')"
  shows "\<forall>x \<in> set (db_review_queue d'). \<exists>j. rq_item x = ItemJson j"
proof -
  obtain d1 d2 where h: "ensure_run_exists d (rq_signals q) e = Inr d1" "persist rt d2 e r = Inr d'"
    "cascade_bind (runtime_cascade rt q) d1 e (ob_run_id (oe_binding e)) (rs_baggage (rq_signals q))
       (rs_echoed_run_id (rq_signals q)) = Inr (r, d2)"
    using assms(2) by (auto simp: bind_outcome_handler_def require_runtime_def)
  have "db_review_queue d1 = db_review_queue d"
    using h(1) by (auto simp: ensure_run_exists_def run_upsert_def split: option.splits)
  then have "queue_json d1" using assms(1) by (simp add: queue_json_def)
  then have "queue_json d2"
    using cascade_bind_honest_aux [OF h(3)] review_enqueue_json by (auto split: if_splits)
  moreover have "db_review_queue d' = db_review_queue d2"
    using h(2) by (auto simp: persist_def outcome_upsert_def split: if_splits)
  ultimately show ?thesis by (simp add: queue_json_def)
qed

section \<open>Sample data\<close>

definition sample_run :: "run_id \<Rightarrow> instant \<Rightarrow> run" where
  "sample_run i start = \<lparr>run_tenant_id = ''t'', run_id = i, run_agent_name = Some ''agent'', run_started_at = start,
     run_ended_at = None, run_entity_keys = [(''ticket'', ''7'')], run_experiment = None, run_variant = None,
     run_app = None\<rparr>"

definition sample_db :: db where
  "sample_db = (case run_upserts empty_db [(''t'', sample_run ''r1'' 60000000), (''t'', sample_run ''r2'' 28000000)] of
     Inr d \<Rightarrow> d | Inl _ \<Rightarrow> empty_db)"

definition sample_runtime :: attribution_runtime where
  "sample_runtime = \<lparr>rt_entity_window = 64000000, rt_judge = None, rt_semantic_window = None, rt_outcome_repo = True\<rparr>"

definition sample_request :: request where
  "sample_request = \<lparr>rq_signals = no_signals, rq_active_run_id = None, rq_new_id = ''q1'', rq_now = 0\<rparr>"

definition sample_context :: resolve_context where
  "sample_context = \<lparr>cx_tenant_id = ''t'', cx_outcome_id = ''o1'', cx_occurred_at = 60000000,
     cx_entity_keys = [(''ticket'', ''7'')], cx_ambient_run_id = None, cx_baggage = [], cx_echoed_run_id = None,
     cx_content = [], cx_entity_window = None\<rparr>"

lemma sum_map_InrE:
  assumes "map_sum id (\<lambda>(a, b). f a) m = Inr y"
  obtains a b where "m = Inr (a, b)" "f a = y"
  using assms by (cases m) auto

lemma sample_db_ok: "run_table_ok sample_db" "outcome_table_ok sample_db" "db_review_queue sample_db = []"
proof -
  let ?ws = "[(''t'', sample_run ''r1'' 60000000), (''t'', sample_run ''r2'' 28000000)]"
  obtain d where d: "run_upserts empty_db ?ws = Inr d" "run_table_ok d"
    using run_upserts_view [OF empty_db_ok(1), of ?ws] by blast
  then have e: "sample_db = d" unfolding sample_db_def d(1) by simp
  have "db_outcome_event d = []" "db_review_queue d = []"
    using d(1) by (auto simp: run_upsert_def empty_db_def)
  with d(2) e show "run_table_ok sample_db" "outcome_table_ok sample_db" "db_review_queue sample_db = []"
    by (auto simp: outcome_table_ok_def outcome_rows_def intro!: exI [of _ "[]"])
qed

lemma sample_context_of: "resolve_context_of sample_outcome None None None = Inr sample_context"
  by (simp add: resolve_context_of_def declared_window_def sample_outcome_def sample_context_def)

section \<open>Properties\<close>

text \<open>
  Exact first: the first of the ambient, baggage and echoed run ids that names a run
  the store holds for the tenant decides the binding, with that signal's tier; an id the
  store does not hold is skipped, and the advisory tiers run only when none is left.
\<close>

theorem cascade_first_live_signal:
  assumes "run_table_ok d" "resolve_context_of e ambient baggage echoed = Inr ctx"
  shows "case find (\<lambda>(n, t, i). run_get d (oe_tenant_id e) i \<noteq> Inr None) (carried_signals (rq_active_run_id q) ctx) of
       Some (n, t, i) \<Rightarrow> \<exists>r. cascade_bind (runtime_cascade rt q) d e ambient baggage echoed = Inr (r, d) \<and>
         ar_run_id r = Some i \<and> ar_tier r = Some t \<and> ar_bound_by r = Some n
     | None \<Rightarrow> cascade_bind (runtime_cascade rt q) d e ambient baggage echoed =
         bind_advisory (runtime_cascade rt q) d ctx"
  using assms by (rule cascade_live_aux)

theorem cascade_first_live_signal_witness:
  "\<exists>r. cascade_bind (runtime_cascade sample_runtime sample_request) sample_db sample_outcome (Some ''ghost'') None (Some ''r2'') =
     Inr (r, sample_db) \<and> ar_run_id r = Some ''r2'' \<and> ar_tier r = Some Deterministic"
proof -
  have ctx: "resolve_context_of sample_outcome (Some ''ghost'') None (Some ''r2'') =
      Inr (sample_context\<lparr>cx_ambient_run_id := Some ''ghost'', cx_echoed_run_id := Some ''r2''\<rparr>)"
    by (simp add: resolve_context_of_def declared_window_def sample_outcome_def sample_context_def)
  have f: "find (\<lambda>(n, t, i). run_get sample_db (oe_tenant_id sample_outcome) i \<noteq> Inr None)
      (carried_signals (rq_active_run_id sample_request)
        (sample_context\<lparr>cx_ambient_run_id := Some ''ghost'', cx_echoed_run_id := Some ''r2''\<rparr>)) =
      Some (''RoundTripResolver'', Deterministic, ''r2'')"
    by code_simp
  from cascade_first_live_signal [OF sample_db_ok(1) ctx, where q = sample_request and rt = sample_runtime]
  show ?thesis unfolding f by auto
qed

text \<open>
  C6. The entity tier never guesses. When it binds a run, that run is current, belongs to
  the tenant, shares an entity key with the outcome and started within its window, and
  every other such run started strictly farther from the outcome.
\<close>

theorem entity_bind_nearest:
  assumes "run_table_ok d" "resolve_context_of e ambient baggage echoed = Inr ctx"
    and "cascade_bind (runtime_cascade rt q) d e ambient baggage echoed = Inr (r, d')" "ar_tier r = Some Candidate"
  shows "\<exists>x. ar_run_id r = Some (run_id x) \<and> eligible_run d (rt_entity_window rt) ctx x \<and>
     (\<forall>y. eligible_run d (rt_entity_window rt) ctx y \<and> run_id y \<noteq> run_id x \<longrightarrow>
        \<bar>run_started_at x - oe_occurred_at e\<bar> < \<bar>run_started_at y - oe_occurred_at e\<bar>)"
proof -
  obtain det where det: "bind_deterministic (run_get d) ctx (deterministic_tiers (rq_active_run_id q)) = Inr det"
    using assms(2,3) by (auto simp: cascade_bind_def)
  have "det = None"
  proof (rule ccontr)
    assume "det \<noteq> None"
    then obtain x where "det = Some x" by blast
    with assms(2,3) det have "bind_deterministic (run_get d) ctx (deterministic_tiers (rq_active_run_id q)) = Inr (Some r)"
      by (simp add: cascade_bind_def)
    from bind_deterministic_Some [OF this deterministic_tiers_grade] assms(4) show False
      by (simp add: is_billing_grade_result_def billing_grade_tier_def)
  qed
  then have adv: "bind_advisory (runtime_cascade rt q) d ctx = Inr (r, d')"
    using assms(2,3) det by (simp add: cascade_bind_def)
  obtain ent c where ent: "entity_resolve (run_list_by_entity d) (rt_entity_window rt) default_epsilon_seconds ctx = Inr ent"
    "matched ent" "\<not> ro_ambiguous ent" "top_candidate (ro_candidates ent) = Inr c" "ar_run_id r = Some (ac_run_id c)"
    using bind_advisory_candidate [OF adv assms(4)] by auto
  obtain runs where runs: "matching_runs (run_list_by_entity d) (rt_entity_window rt) ctx = Inr runs"
    "distinct (map run_id runs)" and mem: "\<forall>x. x \<in> set runs \<longleftrightarrow> eligible_run d (rt_entity_window rt) ctx x"
    using matching_runs_eligible [OF assms(1)] by blast
  have "0 < default_epsilon_seconds" by (simp add: default_epsilon_seconds_def)
  from entity_nearest [OF ent(1-4) runs this] mem ent(5) resolve_context_of_Inr(3) [OF assms(2)]
  show ?thesis by metis
qed

theorem entity_bind_nearest_witness:
  "\<exists>r d'. cascade_bind (runtime_cascade sample_runtime sample_request) sample_db sample_outcome None None None = Inr (r, d') \<and>
     (\<exists>x. ar_run_id r = Some (run_id x) \<and> eligible_run sample_db 64000000 sample_context x)"
proof -
  have "map_sum id (\<lambda>(r, d'). ar_tier r)
      (cascade_bind (runtime_cascade sample_runtime sample_request) sample_db sample_outcome None None None) = Inr (Some Candidate)"
    by code_simp
  then obtain r d' where
    b: "cascade_bind (runtime_cascade sample_runtime sample_request) sample_db sample_outcome None None None = Inr (r, d')"
    and t: "ar_tier r = Some Candidate"
    by (rule sum_map_InrE)
  have w: "rt_entity_window sample_runtime = 64000000" by (simp add: sample_runtime_def)
  from entity_bind_nearest [OF sample_db_ok(1) sample_context_of b t] b show ?thesis unfolding w by blast
qed

lemma handler_binds_asserted:
  assumes "run_table_ok d" "outcome_table_ok d" "ob_run_id (oe_binding e) = Some rid" "rid \<noteq> []"
  shows "case bind_outcome_handler (Some rt) q d e of
       Inl err \<Rightarrow> (err = OverflowError \<and> declared_window e = Inl OverflowError) \<or>
         (err = IntegrityError \<and> rt_outcome_repo rt)
     | Inr (r, d') \<Rightarrow> ar_run_id r = Some rid \<and> ar_tier r = Some Exact \<and> \<not> ar_review_required r \<and>
         (\<exists>x. run_get d' (oe_tenant_id e) rid = Inr (Some x) \<and>
            (run_get d (oe_tenant_id e) rid = Inr (Some x) \<or>
             run_get d (oe_tenant_id e) rid = Inr None \<and> x = stored_run (oe_tenant_id e) (first_sight_run e rid)))"
proof -
  let ?t = "oe_tenant_id e" and ?sig = "rq_signals q" and ?b = "rs_baggage (rq_signals q)"
    and ?ec = "rs_echoed_run_id (rq_signals q)"
  have asr: "asserted_run_id ?sig e = Some rid" using assms(3,4) by (simp add: asserted_run_id_def)
  obtain d1 where d1: "ensure_run_exists d ?sig e = Inr d1" "run_table_ok d1" "db_outcome_event d1 = db_outcome_event d"
    and v1: "run_view d1 ?t rid = (case run_view d ?t rid of Some x \<Rightarrow> Some x
       | None \<Rightarrow> Some (stored_run ?t (first_sight_run e rid)))"
    using ensure_run_exists_effect [OF assms(1), of ?sig e] asr by blast
  show ?thesis
  proof (cases "resolve_context_of e (Some rid) ?b ?ec")
    case (Inl err)
    then have w: "declared_window e = Inl err" by (auto simp: resolve_context_of_def res_bind_eq_Inl)
    then have "err = OverflowError"
      by (auto simp: declared_window_def timedelta_seconds_def res_bind_eq_Inl Let_def split: option.splits json.splits if_splits)
    with w Inl d1 assms(3) show ?thesis by (simp add: bind_outcome_handler_def require_runtime_def cascade_bind_def)
  next
    case (Inr ctx)
    obtain x where x: "run_view d1 ?t rid = Some x" using v1 by (auto split: option.splits)
    have "cx_ambient_run_id ctx = Some rid" by (rule resolve_context_of_Inr(5) [OF Inr])
    then have "find (\<lambda>(n, t, i). run_get d1 ?t i \<noteq> Inr None) (carried_signals (rq_active_run_id q) ctx) =
        Some (''AmbientContextResolver'', Exact, rid)"
      using x by (simp add: carried_signals_def ambient_signal_def run_repo.get_view [OF d1(2)])
    then obtain r where r: "cascade_bind (runtime_cascade rt q) d1 e (Some rid) ?b ?ec = Inr (r, d1)"
      "ar_run_id r = Some rid" "ar_tier r = Some Exact"
      using cascade_live_aux [OF d1(2) Inr, where q = q and rt = rt] by auto
    have rev: "\<not> ar_review_required r"
      using cascade_bind_honest_aux [OF r(1)] r(3) by (auto simp: is_billing_grade_result_def billing_grade_tier_def split: if_splits)
    have run: "run_get d' ?t rid = Inr (Some x)" if "db_run d' = db_run d1" for d'
      by (simp add: run_get_cong [OF that] run_repo.get_view [OF d1(2)] x)
    have old: "run_get d ?t rid = Inr (Some x) \<or>
        run_get d ?t rid = Inr None \<and> x = stored_run ?t (first_sight_run e rid)"
      using v1 x by (auto simp: run_repo.get_view [OF assms(1)] split: option.splits)
    have "outcome_table_ok d1" using assms(2) d1(3) by (simp add: outcome_table_ok_def)
    from outcome_upsert_get [OF this, of ?t "bound_outcome e r"]
    have "persist rt d1 e r = Inl IntegrityError \<and> rt_outcome_repo rt \<or>
        (\<exists>d'. persist rt d1 e r = Inr d' \<and> db_run d' = db_run d1)"
      by (auto simp: persist_def)
    then show ?thesis
      using r rev run old d1(1) assms(3) by (auto simp: bind_outcome_handler_def require_runtime_def)
  qed
qed

text \<open>
  C5. Order independence: an outcome that names its run binds exactly to that run, whether
  or not the run's cost spans have been ingested yet, and leaves the run registered for
  the tenant; an already known run is kept as it is. The only errors are an overflowing
  window hint and the outcome table's uniqueness constraint.
\<close>

theorem bind_outcome_exact:
  assumes "run_table_ok d" "outcome_table_ok d" "ob_run_id (oe_binding e) = Some rid" "rid \<noteq> []"
  shows "case bind_outcome_handler (Some rt) q d e of
       Inl err \<Rightarrow> (err = OverflowError \<and> declared_window e = Inl OverflowError) \<or>
         (err = IntegrityError \<and> rt_outcome_repo rt)
     | Inr (r, d') \<Rightarrow> ar_run_id r = Some rid \<and> ar_tier r = Some Exact \<and> \<not> ar_review_required r \<and>
         (\<exists>x. run_get d' (oe_tenant_id e) rid = Inr (Some x) \<and>
            (run_get d (oe_tenant_id e) rid = Inr (Some x) \<or>
             run_get d (oe_tenant_id e) rid = Inr None \<and> x = stored_run (oe_tenant_id e) (first_sight_run e rid)))"
  using assms by (rule handler_binds_asserted)

theorem bind_outcome_exact_witness:
  "\<exists>r d'. bind_outcome_handler (Some (sample_runtime\<lparr>rt_outcome_repo := False\<rparr>)) sample_request empty_db
       (sample_outcome\<lparr>oe_binding := outcome_binding_default (Some ''new'') None None\<rparr>) = Inr (r, d') \<and>
     ar_run_id r = Some ''new'' \<and> ar_tier r = Some Exact"
proof -
  let ?e = "sample_outcome\<lparr>oe_binding := outcome_binding_default (Some ''new'') None None\<rparr>"
  let ?rt = "sample_runtime\<lparr>rt_outcome_repo := False\<rparr>"
  have "outcome_table_ok empty_db" by (auto simp: outcome_table_ok_def empty_db_def outcome_rows_def intro!: exI [of _ "[]"])
  moreover have "ob_run_id (oe_binding ?e) = Some ''new''" by (simp add: outcome_binding_default_def)
  moreover have "declared_window ?e = Inr None" by (simp add: declared_window_def sample_outcome_def)
  ultimately show ?thesis
    using bind_outcome_exact [OF empty_db_ok(1), of ?e "''new''" ?rt sample_request]
    by (cases "bind_outcome_handler (Some ?rt) sample_request empty_db ?e") auto
qed

lemma handler_persists:
  assumes "run_table_ok d" "outcome_table_ok d" "rt_outcome_repo rt"
    and "bind_outcome_handler (Some rt) q d e = Inr (r, d')"
  shows "outcome_get d' (oe_tenant_id e) (oe_id e) = Inr (Some (stored_outcome (oe_tenant_id e) (bound_outcome e r)))"
    and "\<not> ar_review_required r \<longleftrightarrow> ar_tier r = Some Exact \<or> ar_tier r = Some Deterministic"
proof -
  obtain d1 d2 where h: "cascade_bind (runtime_cascade rt q) d1 e (ob_run_id (oe_binding e)) (rs_baggage (rq_signals q))
       (rs_echoed_run_id (rq_signals q)) = Inr (r, d2)"
    "persist rt d2 e r = Inr d'" "db_outcome_event d2 = db_outcome_event d"
    using handler_Inr [OF assms(1,4)] by metis
  have ok: "outcome_table_ok d2" using assms(2) h(3) by (simp add: outcome_table_ok_def)
  have up: "outcome_upsert d2 (oe_tenant_id e) (bound_outcome e r) = Inr d'"
    using h(2) assms(3) by (simp add: persist_def)
  show "outcome_get d' (oe_tenant_id e) (oe_id e) = Inr (Some (stored_outcome (oe_tenant_id e) (bound_outcome e r)))"
    using outcome_upsert_get [OF ok, of "oe_tenant_id e" "bound_outcome e r"] up by (auto simp: bound_outcome_def)
  show "\<not> ar_review_required r \<longleftrightarrow> ar_tier r = Some Exact \<or> ar_tier r = Some Deterministic"
    using cascade_bind_honest_aux [OF h(1)]
    by (auto simp: is_billing_grade_result_def billing_grade_tier_def split: if_splits option.splits)
qed

text \<open>A handler writes under the tenant of its outcome and no other.\<close>

lemma put_other_tenant: "t \<noteq> tid \<Longrightarrow> filter (\<lambda>p. fst p = t) (put key tid m ms) = filter (\<lambda>p. fst p = t) ms"
proof -
  assume "t \<noteq> tid"
  then have "filter (\<lambda>p. fst p = t) (map (\<lambda>(t, x). if t = tid \<and> key x = key m then (tid, m) else (t, x)) ms) =
      filter (\<lambda>p. fst p = t) ms"
    by (induction ms) auto
  with \<open>t \<noteq> tid\<close> show ?thesis by (simp add: put_def)
qed

lemma outcome_upsert_other:
  assumes "outcome_table_ok d" "outcome_upsert d tid e = Inr d'" "t \<noteq> tid"
  shows "require_tenant t (db_outcome_event d') = require_tenant t (db_outcome_event d)"
proof -
  obtain ms where ms: "db_outcome_event d = outcome_rows ms" "distinct (map (\<lambda>(t, m). (t, oe_id m)) ms)"
    using assms(1) by (auto simp: outcome_table_ok_def)
  have "db_outcome_event d' = outcome_rows (put oe_id tid e ms)"
    using assms(2) by (auto simp: outcome_upsert_rows [OF ms] split: if_splits)
  moreover have "require_tenant t (outcome_rows xs) = outcome_rows (filter (\<lambda>p. fst p = t) xs)" for xs
    by (simp add: outcome_rows_def require_tenant_def filter_map o_def case_prod_unfold row_simps)
  ultimately show ?thesis using ms(1) put_other_tenant [OF assms(3), of oe_id e ms] by simp
qed

lemma handler_other_tenants:
  assumes "run_table_ok d" "outcome_table_ok d" "bind_outcome_handler holder q d e = Inr (r, d')" "t \<noteq> oe_tenant_id e"
  shows "run_get d' t i = run_get d t i" "outcome_get d' t o' = outcome_get d t o'"
    "review_list_pending d' t = review_list_pending d t"
proof -
  obtain rt where rt: "holder = Some rt" using assms(3) by (cases holder) (auto simp: bind_outcome_handler_def require_runtime_def)
  obtain d1 d2 where h: "ensure_run_exists d (rq_signals q) e = Inr d1" "run_table_ok d1"
    "cascade_bind (runtime_cascade rt q) d1 e (ob_run_id (oe_binding e)) (rs_baggage (rq_signals q))
       (rs_echoed_run_id (rq_signals q)) = Inr (r, d2)"
    "persist rt d2 e r = Inr d'" "db_outcome_event d2 = db_outcome_event d" "db_run d2 = db_run d1"
    using handler_Inr [OF assms(1)] assms(3) unfolding rt by metis
  have e1: "run_view d1 t i = run_view d t i" "db_review_queue d1 = db_review_queue d"
    using ensure_run_exists_effect [OF assms(1), of "rq_signals q" e] h(1) assms(4) by auto
  have p: "db_run d' = db_run d2" "db_review_queue d' = db_review_queue d2"
    using h(4) by (auto simp: persist_def outcome_upsert_def split: if_splits)
  have "run_get d' t i = run_get d1 t i" using p(1) h(6) by (simp add: run_get_def)
  then show "run_get d' t i = run_get d t i" using e1(1) by (simp add: run_repo.get_view [OF h(2)] run_repo.get_view [OF assms(1)])
  have "outcome_table_ok d2" using assms(2) h(5) by (simp add: outcome_table_ok_def)
  then have "require_tenant t (db_outcome_event d') = require_tenant t (db_outcome_event d2)"
    using h(4) outcome_upsert_other [OF _ _ assms(4)] by (auto simp: persist_def split: if_splits)
  then show "outcome_get d' t o' = outcome_get d t o'" by (simp add: outcome_get_def h(5))
  have "filter (\<lambda>x. rq_tenant_id x = t) (db_review_queue d2) = filter (\<lambda>x. rq_tenant_id x = t) (db_review_queue d1)"
    using cascade_bind_honest_aux [OF h(3)] assms(4) by (auto simp: review_enqueue_def split: if_splits)
  then show "review_list_pending d' t = review_list_pending d t" by (simp add: review_list_pending_def p(2) e1(2))
qed

text \<open>
  The stored binding is the system's, not the caller's: whatever run, tier and binder
  the submitted outcome claims, after a successful bind the outcome row carries exactly the
  run, tier and binder of the returned result, and its tier is billing-grade exactly when
  no review is required.
\<close>

theorem bind_outcome_persists_result:
  assumes "run_table_ok d" "outcome_table_ok d" "rt_outcome_repo rt"
    and "bind_outcome_handler (Some rt) q d e = Inr (r, d')"
  shows "\<exists>x. outcome_get d' (oe_tenant_id e) (oe_id e) = Inr (Some x) \<and>
     oe_binding x = outcome_binding_default (ar_run_id r) (ar_tier r) (ar_bound_by r) \<and>
     (\<not> ar_review_required r \<longleftrightarrow>
        ob_tier (oe_binding x) = Some Exact \<or> ob_tier (oe_binding x) = Some Deterministic)"
  using handler_persists [OF assms] by (auto simp: stored_outcome_def bound_outcome_def outcome_binding_default_def)

theorem bind_outcome_persists_result_witness:
  "\<exists>r d' x. bind_outcome_handler (Some sample_runtime) sample_request sample_db
       (sample_outcome\<lparr>oe_binding := outcome_binding_default (Some ''r1'') (Some Likely) (Some ''me'')\<rparr>) = Inr (r, d') \<and>
     outcome_get d' ''t'' ''o1'' = Inr (Some x) \<and> ob_tier (oe_binding x) = ar_tier r"
proof -
  let ?e = "sample_outcome\<lparr>oe_binding := outcome_binding_default (Some ''r1'') (Some Likely) (Some ''me'')\<rparr>"
  have "map_sum id (\<lambda>(r, d'). ()) (bind_outcome_handler (Some sample_runtime) sample_request sample_db ?e) = Inr ()"
    by code_simp
  then obtain r d' where b: "bind_outcome_handler (Some sample_runtime) sample_request sample_db ?e = Inr (r, d')"
    by (cases "bind_outcome_handler (Some sample_runtime) sample_request sample_db ?e") auto
  have "rt_outcome_repo sample_runtime" by (simp add: sample_runtime_def)
  from bind_outcome_persists_result [OF sample_db_ok(1,2) this b] b show ?thesis
    by (auto simp: sample_outcome_def outcome_binding_default_def)
qed

text \<open>
  The review lookup does not find what the handler queued: the SQL review queue
  stores the JSON dump of a result, the lookup accepts only result objects, so after any
  bind the lookup for the same outcome raises.
\<close>

theorem review_lookup_misses:
  assumes "\<forall>x \<in> set (db_review_queue d). \<exists>j. rq_item x = ItemJson j"
    and "bind_outcome_handler (Some rt) q d e = Inr (r, d')"
  shows "list_review_queue_handler (Some rt) d' e = Inl AttributionNotWiredError"
  using first_pending_json handler_queue_json [OF assms]
  by (auto simp: list_review_queue_handler_def require_runtime_def pending_for_def review_list_pending_def)

theorem review_lookup_misses_witness:
  "\<exists>r d'. bind_outcome_handler (Some sample_runtime) sample_request empty_db sample_outcome = Inr (r, d') \<and>
     length (review_list_pending d' ''t'') = 1 \<and>
     list_review_queue_handler (Some sample_runtime) d' sample_outcome = Inl AttributionNotWiredError"
proof -
  have "map_sum id (\<lambda>(r, d'). length (review_list_pending d' ''t''))
      (bind_outcome_handler (Some sample_runtime) sample_request empty_db sample_outcome) = Inr 1"
    by code_simp
  then obtain r d' where b: "bind_outcome_handler (Some sample_runtime) sample_request empty_db sample_outcome = Inr (r, d')"
    and n: "length (review_list_pending d' ''t'') = 1"
    by (cases "bind_outcome_handler (Some sample_runtime) sample_request empty_db sample_outcome") auto
  have "\<forall>x \<in> set (db_review_queue empty_db). \<exists>j. rq_item x = ItemJson j" by (simp add: empty_db_def)
  from review_lookup_misses [OF this b] b n show ?thesis by blast
qed

text \<open>
  A window hint of a billion days or more is not ignored: building the window
  overflows and the bind raises, whatever the stores hold.
\<close>

theorem huge_window_raises:
  assumes "dict_get (oe_raw e) ''entity_window_seconds'' = Some (JFloat x)" "86400000000000 \<le> x"
  shows "cascade_bind cs s e ambient baggage echoed = Inl OverflowError"
  using assms timedelta_overflow [OF assms(2)] by (simp add: cascade_bind_def resolve_context_of_def declared_window_def)

theorem huge_window_raises_witness:
  "cascade_bind sample_cascade [] (sample_outcome\<lparr>oe_raw := [(''entity_window_seconds'', JFloat (10 ^ 15))]\<rparr>) None None None =
     Inl OverflowError"
  by (rule huge_window_raises [where x = "10 ^ 15"]) simp_all

end
