(* ===== verification/Money_Split.thy ===== *)
theory Money_Split
  imports Core_Types
begin

text \<open>
  The largest-remainder split both money packages use: \<open>prorate\<close>
  (\<open>reconciliation/proration.py\<close>) and \<open>allocate\<close> (\<open>allocation/_allocator.py\<close>) round every
  ideal share to ten decimal places and hand the residue out one unit at a time in an
  order they choose. The shared pass is \<open>settle\<close>; the locale \<open>largest_remainder\<close> states
  what it needs of the order (a permutation of the positions) and proves once that the
  parts then add up to the total exactly and that no part is moved by more than one unit.
  All arithmetic is that of the default decimal context, so exactness is a theorem with
  bounds and not an assumption; the last section bounds how far the rounded sum, factor
  and product of an ideal share are from the true proportion.
\<close>

section \<open>Sorting and handing out\<close>

text \<open>\<open>sorted(xs, key=f, reverse=r)\<close>: stable in both directions.\<close>

definition sorted_by :: "('a \<Rightarrow> 'b::linorder) \<Rightarrow> bool \<Rightarrow> 'a list \<Rightarrow> 'a list" where
  "sorted_by f r xs = (if r then rev (sort_key f (rev xs)) else sort_key f xs)"

lemma set_sorted_by [simp]: "set (sorted_by f r xs) = set xs"
  by (simp add: sorted_by_def)

lemma distinct_sorted_by [simp]: "distinct (sorted_by f r xs) = distinct xs"
  by (simp add: sorted_by_def)

definition ulp :: rat where "ulp = 1 / 10 ^ 10"

text \<open>\<open>for k in range(n): result[order[k % len(order)]] += direction\<close>, from step \<open>k\<close> on.\<close>

fun hand_out :: "rat \<Rightarrow> nat list \<Rightarrow> nat \<Rightarrow> nat \<Rightarrow> rat list \<Rightarrow> rat list" where
  "hand_out dir order k 0 result = result"
| "hand_out dir order k (Suc n) result =
     (let idx = order ! (k mod length order) in
      hand_out dir order (Suc k) n (result[idx := dadd (result ! idx) dir]))"

definition settle :: "(bool \<Rightarrow> rat list \<Rightarrow> nat list) \<Rightarrow> rat \<Rightarrow> rat list \<Rightarrow> rat list \<Rightarrow> rat list" where
  "settle rank amount exact floored =
     (let residue = dsub amount (dsum floored);
          steps = half_even (ddiv residue ulp)
      in if steps = 0 then floored
         else let direction = (if 0 < steps then ulp else - ulp);
                  remainders = map2 dsub exact floored
              in hand_out direction (rank (0 < steps) remainders) 0 (nat \<bar>steps\<bar>) floored)"

definition quantize_all :: "rat list \<Rightarrow> rat list res" where
  "quantize_all xs = res_traverse (quantize 10) xs"

section \<open>Exactness\<close>

text \<open>The amounts for which ten decimal places fit the 28 digits of the context.\<close>

definition money_ok :: "rat \<Rightarrow> bool" where
  "money_ok x \<longleftrightarrow> quantized 10 x \<and> \<bar>x\<bar> \<le> 10 ^ 18"

lemma money_exact: "money_ok x \<Longrightarrow> dec x = x"
  unfolding money_ok_def by (intro dec.rnd_exact quantized_exact [of 10]) auto

lemma dsum_exact:
  assumes "\<And>x. x \<in> set xs \<Longrightarrow> quantized 10 x" "(\<Sum>x\<leftarrow>xs. \<bar>x\<bar>) \<le> 10 ^ 18"
  shows "dsum xs = sum_list xs"
proof -
  have "foldl (\<lambda>t x. dec (t + x)) 0 xs = 0 + sum_list xs"
  proof (rule dec.rnd_foldl_exact)
    fix k
    have "\<bar>sum_list (take k xs)\<bar> \<le> (\<Sum>x\<leftarrow>take k xs. \<bar>x\<bar>)"
      by (induction "take k xs" arbitrary: k xs) (auto simp: sum_list_abs)
    also have "\<dots> \<le> (\<Sum>x\<leftarrow>xs. \<bar>x\<bar>)"
    proof -
      have "(\<Sum>x\<leftarrow>xs. \<bar>x\<bar>) = (\<Sum>x\<leftarrow>take k xs. \<bar>x\<bar>) + (\<Sum>x\<leftarrow>drop k xs. \<bar>x\<bar>)"
        by (metis append_take_drop_id map_append sum_list_append)
      moreover have "0 \<le> (\<Sum>x\<leftarrow>drop k xs. \<bar>x\<bar>)" by (rule sum_list_nonneg) auto
      ultimately show ?thesis by simp
    qed
    finally have "\<bar>sum_list (take k xs)\<bar> \<le> 10 ^ 18" using assms(2) by simp
    moreover have "quantized 10 (sum_list (take k xs))"
      using assms(1) by (intro quantized_sum_list) (auto dest: in_set_takeD)
    ultimately show "dec_exact (0 + sum_list (take k xs))" by (intro quantized_exact [of 10]) auto
  qed
  then show ?thesis by (simp add: dsum_def dadd_def [abs_def])
qed

lemma quantized_ulp: "quantized 10 x \<longleftrightarrow> (\<exists>n::int. x = of_int n * ulp)"
  by (simp add: quantized_def ulp_def)

lemma hand_out_sum:
  assumes "dir = ulp \<or> dir = - ulp" "\<And>i. i \<in> set order \<Longrightarrow> i < length result" "order \<noteq> []"
    and "\<And>x. x \<in> set result \<Longrightarrow> quantized 10 x \<and> \<bar>x\<bar> + of_nat n * ulp \<le> 10 ^ 18"
  shows "sum_list (hand_out dir order k n result) = sum_list result + of_nat n * dir \<and>
     length (hand_out dir order k n result) = length result"
  using assms(2,4)
proof (induction n arbitrary: k result)
  case (Suc n)
  let ?i = "order ! (k mod length order)"
  let ?x = "result ! ?i"
  have i: "?i < length result" using Suc.prems(1) assms(3) by simp
  have dq: "quantized 10 dir" "\<bar>dir\<bar> = ulp"
    using assms(1) unfolding quantized_ulp by (auto simp: ulp_def intro: exI [of _ 1] exI [of _ "-1"])
  have x: "quantized 10 ?x" "\<bar>?x\<bar> + of_nat (Suc n) * ulp \<le> 10 ^ 18" using Suc.prems(2) i by auto
  have abs: "\<bar>?x + dir\<bar> + of_nat n * ulp \<le> \<bar>?x\<bar> + of_nat (Suc n) * ulp"
    using abs_triangle_ineq [of ?x dir] dq(2) by (simp add: algebra_simps)
  have q: "quantized 10 (?x + dir)" using x(1) dq(1) by (rule quantized_add)
  have u: "0 \<le> of_nat n * ulp" by (simp add: ulp_def)
  have "money_ok (?x + dir)" using q abs x(2) u by (auto simp: money_ok_def)
  then have e: "dadd ?x dir = ?x + dir" by (simp add: dadd_def money_exact)
  let ?r = "result[?i := ?x + dir]"
  have "quantized 10 y \<and> \<bar>y\<bar> + of_nat n * ulp \<le> 10 ^ 18" if "y \<in> set ?r" for y
  proof -
    from that consider "y = ?x + dir" | "y \<in> set result" using set_update_subset_insert by fastforce
    then show ?thesis
    proof cases
      case 2
      have "of_nat n * ulp \<le> of_nat (Suc n) * ulp" by (simp add: ulp_def divide_right_mono)
      then show ?thesis using Suc.prems(2) [OF 2] by linarith
    qed (use q abs x(2) in auto)
  qed
  with Suc.IH [of ?r "Suc k"] Suc.prems(1)
  have "sum_list (hand_out dir order (Suc k) n ?r) = sum_list ?r + of_nat n * dir \<and>
      length (hand_out dir order (Suc k) n ?r) = length ?r" by simp
  then show ?case using sum_list_update [OF i, of dir] by (simp add: e Let_def algebra_simps)
qed simp

lemma hand_out_near:
  assumes "dir = ulp \<or> dir = - ulp" "distinct order" "set order = {..<length result}" "k + n \<le> length order"
    and "\<And>x. x \<in> set result \<Longrightarrow> quantized 10 x \<and> \<bar>x\<bar> + of_nat n * ulp \<le> 10 ^ 18" "i < length result"
  shows "(i \<in> set (take k order) \<longrightarrow> hand_out dir order k n result ! i = result ! i) \<and>
    \<bar>hand_out dir order k n result ! i - result ! i\<bar> \<le> ulp"
  using assms(3-6)
proof (induction n arbitrary: k result)
  case (Suc n)
  have k: "k < length order" using Suc.prems(2) by simp
  let ?i = "order ! k"
  let ?x = "result ! ?i"
  have i: "?i < length result" using Suc.prems(1) nth_mem [OF k] by auto
  have dq: "quantized 10 dir" "\<bar>dir\<bar> = ulp"
    using assms(1) unfolding quantized_ulp by (auto simp: ulp_def intro: exI [of _ 1] exI [of _ "-1"])
  have x: "quantized 10 ?x" "\<bar>?x\<bar> + of_nat (Suc n) * ulp \<le> 10 ^ 18" using Suc.prems(3) i by auto
  have abs: "\<bar>?x + dir\<bar> + of_nat n * ulp \<le> \<bar>?x\<bar> + of_nat (Suc n) * ulp"
    using abs_triangle_ineq [of ?x dir] dq(2) by (simp add: algebra_simps)
  have q: "quantized 10 (?x + dir)" using x(1) dq(1) by (rule quantized_add)
  have u: "0 \<le> of_nat n * ulp" by (simp add: ulp_def)
  have "money_ok (?x + dir)" using q abs x(2) u by (auto simp: money_ok_def)
  then have e: "dadd ?x dir = ?x + dir" by (simp add: dadd_def money_exact)
  let ?r = "result[?i := ?x + dir]"
  have r: "quantized 10 y \<and> \<bar>y\<bar> + of_nat n * ulp \<le> 10 ^ 18" if "y \<in> set ?r" for y
  proof -
    from that consider "y = ?x + dir" | "y \<in> set result" using set_update_subset_insert by fastforce
    then show ?thesis
    proof cases
      case 2
      have "of_nat n * ulp \<le> of_nat (Suc n) * ulp" by (simp add: ulp_def divide_right_mono)
      then show ?thesis using Suc.prems(3) [OF 2] by linarith
    qed (use q abs x(2) in auto)
  qed
  have h: "hand_out dir order k (Suc n) result = hand_out dir order (Suc k) n ?r"
    using k by (simp add: e Let_def)
  have taken: "set (take (Suc k) order) = insert ?i (set (take k order))"
    using k by (simp add: take_Suc_conv_app_nth)
  have "?i \<notin> set (take k order)"
    using assms(2) k by (auto simp: in_set_conv_nth nth_eq_iff_index_eq)
  moreover have ih: "(i \<in> set (take (Suc k) order) \<longrightarrow> hand_out dir order (Suc k) n ?r ! i = ?r ! i) \<and>
      \<bar>hand_out dir order (Suc k) n ?r ! i - ?r ! i\<bar> \<le> ulp"
    using Suc.prems(1,2,4) r by (intro Suc.IH) auto
  ultimately show ?case
    unfolding h using ih Suc.prems(4) dq(2) by (cases "i = ?i") (auto simp: taken)
qed (simp add: ulp_def)

lemma quantize_all_error:
  assumes "quantize_all xs = Inr fl"
  shows "length fl = length xs" "i < length xs \<Longrightarrow> \<bar>fl ! i - xs ! i\<bar> \<le> ulp / 2"
    "\<bar>sum_list fl - sum_list xs\<bar> \<le> of_nat (length xs) * (ulp / 2)"
proof -
  have a: "list_all2 (\<lambda>x y. quantize 10 x = Inr y) xs fl"
    using assms unfolding quantize_all_def res_traverse_Inr_iff .
  show "length fl = length xs" using a by (simp add: list_all2_lengthD)
  show "i < length xs \<Longrightarrow> \<bar>fl ! i - xs ! i\<bar> \<le> ulp / 2"
    using list_all2_nthD [OF a, of i] quantize_error by (fastforce simp: ulp_def)
  show "\<bar>sum_list fl - sum_list xs\<bar> \<le> of_nat (length xs) * (ulp / 2)"
    using a
  proof (induction rule: list_all2_induct)
    case (Cons x xs y ys)
    have "\<bar>y - x\<bar> \<le> ulp / 2" using quantize_error [OF Cons.hyps(1)] by (simp add: ulp_def)
    then have "\<bar>sum_list ys - sum_list xs\<bar> + \<bar>y - x\<bar> \<le> of_nat (length xs) * (ulp / 2) + ulp / 2"
      using Cons.IH by (intro add_mono)
    moreover have "\<bar>sum_list (y # ys) - sum_list (x # xs)\<bar> \<le> \<bar>sum_list ys - sum_list xs\<bar> + \<bar>y - x\<bar>" by simp
    ultimately show ?case by (simp add: distrib_right)
  qed simp
qed

locale largest_remainder =
  fixes rank :: "bool \<Rightarrow> rat list \<Rightarrow> nat list"
  assumes rank_positions: "set (rank up rem) = {..<length rem}"
    and rank_distinct: "distinct (rank up rem)"
begin

lemma settle_quantized:
  assumes "quantize_all exact = Inr floored" "x \<in> set floored"
  shows "quantized 10 x"
  using assms unfolding quantize_all_def res_traverse_Inr_iff
  by (auto simp: list_all2_conv_all_nth in_set_conv_nth dest: quantize_quantized)

lemma settle_steps:
  assumes fl: "quantize_all exact = Inr floored"
    and q: "quantized 10 t" and bound: "\<bar>t\<bar> + (\<Sum>x\<leftarrow>floored. \<bar>x\<bar>) \<le> 10 ^ 17"
  shows "\<exists>n. half_even (ddiv (dsub t (dsum floored)) ulp) = n \<and> t - sum_list floored = of_int n * ulp"
proof -
  note fq = settle_quantized [OF fl]
  have ds: "dsum floored = sum_list floored" using fq bound by (intro dsum_exact) auto
  let ?r = "t - sum_list floored"
  have rq: "quantized 10 ?r" using q fq by (intro quantized_diff quantized_sum_list)
  have rb: "\<bar>?r\<bar> \<le> 10 ^ 17"
    using bound sum_list_abs [of floored] by linarith
  then have re: "dsub t (dsum floored) = ?r" using rq by (simp add: dsub_def ds money_exact money_ok_def)
  obtain n :: int where n: "?r = of_int n * ulp" using rq unfolding quantized_ulp by blast
  then have "\<bar>n\<bar> \<le> 10 ^ 27" using rb by (simp add: ulp_def abs_mult flip: of_int_abs)
  then have "dec_exact (of_int n)" by (intro dec_exact_int) auto
  moreover have "?r / ulp = of_int n" using n by (simp add: ulp_def)
  ultimately show ?thesis using n by (simp add: re ddiv_def dec.rnd_exact)
qed

lemma settle_sum:
  assumes fl: "quantize_all exact = Inr floored" and ne: "exact \<noteq> []"
    and q: "quantized 10 t" and bound: "\<bar>t\<bar> + (\<Sum>x\<leftarrow>floored. \<bar>x\<bar>) \<le> 10 ^ 17"
  shows "sum_list (settle rank t exact floored) = t \<and> length (settle rank t exact floored) = length exact"
proof -
  have len: "length floored = length exact" using quantize_all_error(1) [OF fl] .
  have fq: "quantized 10 x" if "x \<in> set floored" for x using settle_quantized [OF fl that] .
  obtain n :: int where steps: "half_even (ddiv (dsub t (dsum floored)) ulp) = n" and n: "t - sum_list floored = of_int n * ulp"
    using settle_steps [OF fl q bound] by blast
  show ?thesis
  proof (cases "n = 0")
    case True
    then have "settle rank t exact floored = floored" unfolding settle_def Let_def steps by simp
    with True n len show ?thesis by simp
  next
    case False
    let ?dir = "if 0 < n then ulp else - ulp"
    let ?ord = "rank (0 < n) (map2 dsub exact floored)"
    have ord: "set ?ord = {..<length floored}" using len by (simp add: rank_positions)
    have "?ord \<noteq> []" using ord ne len by (metis lessThan_0 lessThan_empty_iff list.set(1) length_0_conv)
    moreover have "\<bar>x\<bar> + of_nat (nat \<bar>n\<bar>) * ulp \<le> 10 ^ 18" if "x \<in> set floored" for x
    proof -
      have "\<bar>x\<bar> \<le> (\<Sum>x\<leftarrow>floored. \<bar>x\<bar>)" using that by (intro member_le_sum_list) auto
      moreover have "of_nat (nat \<bar>n\<bar>) * ulp = \<bar>t - sum_list floored\<bar>" unfolding n by (simp add: ulp_def abs_mult)
      ultimately show ?thesis using bound sum_list_abs [of floored] by simp
    qed
    ultimately have "sum_list (hand_out ?dir ?ord 0 (nat \<bar>n\<bar>) floored) = sum_list floored + of_nat (nat \<bar>n\<bar>) * ?dir \<and>
        length (hand_out ?dir ?ord 0 (nat \<bar>n\<bar>) floored) = length floored"
      using ord fq by (intro hand_out_sum) auto
    moreover have "of_nat (nat \<bar>n\<bar>) * ?dir = t - sum_list floored" unfolding n by auto
    ultimately show ?thesis unfolding settle_def Let_def steps using False len by simp
  qed
qed

lemma settle_near:
  assumes fl: "quantize_all exact = Inr floored" and ne: "exact \<noteq> []"
    and q: "quantized 10 t" and bound: "\<bar>t\<bar> + (\<Sum>x\<leftarrow>floored. \<bar>x\<bar>) \<le> 10 ^ 17"
    and near: "\<bar>sum_list exact - t\<bar> \<le> ulp / 2" and i: "i < length exact"
  shows "\<bar>settle rank t exact floored ! i - exact ! i\<bar> \<le> 3 / 2 * ulp"
proof -
  note err = quantize_all_error [OF fl]
  obtain n :: int where steps: "half_even (ddiv (dsub t (dsum floored)) ulp) = n" and n: "t - sum_list floored = of_int n * ulp"
    using settle_steps [OF fl q bound] by blast
  have fq: "quantized 10 x" if "x \<in> set floored" for x using settle_quantized [OF fl that] .
  have "\<bar>of_int n * ulp\<bar> \<le> of_nat (length exact) * (ulp / 2) + ulp / 2"
    unfolding n [symmetric] using err(3) near by linarith
  also have "\<dots> \<le> of_nat (length exact) * ulp"
    using ne by (cases exact) (simp_all add: ulp_def field_simps)
  finally have "\<bar>of_int n :: rat\<bar> \<le> of_nat (length exact)" by (simp add: ulp_def abs_mult divide_le_eq)
  then have "of_int \<bar>n\<bar> \<le> (of_int (int (length exact)) :: rat)" by simp
  then have nl: "nat \<bar>n\<bar> \<le> length exact" by (simp only: of_int_le_iff nat_le_iff)
  have f: "\<bar>floored ! i - exact ! i\<bar> \<le> ulp / 2" using err(2) [OF i] .
  show ?thesis
  proof (cases "n = 0")
    case True
    then have "settle rank t exact floored = floored" unfolding settle_def Let_def steps by simp
    with f show ?thesis by (simp add: ulp_def)
  next
    case False
    let ?dir = "if 0 < n then ulp else - ulp"
    let ?ord = "rank (0 < n) (map2 dsub exact floored)"
    have ord: "set ?ord = {..<length floored}" using err(1) by (simp add: rank_positions)
    then have len: "length ?ord = length floored" using rank_distinct by (metis card_lessThan distinct_card)
    have "\<bar>x\<bar> + of_nat (nat \<bar>n\<bar>) * ulp \<le> 10 ^ 18" if "x \<in> set floored" for x
    proof -
      have "\<bar>x\<bar> \<le> (\<Sum>x\<leftarrow>floored. \<bar>x\<bar>)" using that by (intro member_le_sum_list) auto
      moreover have "of_nat (nat \<bar>n\<bar>) * ulp = \<bar>t - sum_list floored\<bar>" unfolding n by (simp add: ulp_def abs_mult)
      ultimately show ?thesis using bound sum_list_abs [of floored] by simp
    qed
    then have "\<bar>hand_out ?dir ?ord 0 (nat \<bar>n\<bar>) floored ! i - floored ! i\<bar> \<le> ulp"
      using ord fq nl len err(1) i by (intro hand_out_near [THEN conjunct2]) (auto simp: rank_distinct)
    then have "\<bar>settle rank t exact floored ! i - floored ! i\<bar> \<le> ulp"
      unfolding settle_def Let_def steps using False by simp
    with f show ?thesis by linarith
  qed
qed

end

section \<open>Bounds on the ideal shares\<close>

lemma elem_le_dsum:
  assumes "\<And>x. x \<in> set xs \<Longrightarrow> 0 \<le> x" "x \<in> set xs"
  shows "x \<le> 2 * dsum xs"
proof -
  obtain ys zs where xs: "xs = ys @ x # zs" using assms(2) by (meson split_list)
  let ?p = "foldl (\<lambda>t x. dec (t + x)) 0 ys"
  have p: "0 \<le> ?p" using assms(1) xs by (intro dec.rnd_foldl_nonneg) auto
  have x: "0 \<le> x" using assms by auto
  have "x \<le> 2 * \<bar>dec x\<bar>" using dec.rnd_abs_lower [of x] x by simp
  also have "\<bar>dec x\<bar> = dec x" using dec.rnd_nonneg [OF x] by simp
  also have "dec x \<le> dec (?p + x)" using p by (intro dec.rnd_mono) simp
  also have "dec (?p + x) \<le> foldl (\<lambda>t x. dec (t + x)) (dec (?p + x)) zs"
    using assms(1) xs p x by (intro dec.rnd_foldl_ge) (auto intro: dec.rnd_nonneg)
  finally show ?thesis by (simp add: dsum_def dadd_def [abs_def] xs)
qed

lemma dmul_bound: "\<bar>dmul x y\<bar> \<le> 2 * (\<bar>x\<bar> * \<bar>y\<bar>)"
  using dec.rnd_abs_upper [of "x * y"] by (simp add: dmul_def abs_mult)

lemma ddiv_bound: "\<bar>ddiv x y\<bar> \<le> 2 * (\<bar>x\<bar> / \<bar>y\<bar>)"
  using dec.rnd_abs_upper [of "x / y"] by (simp add: ddiv_def)

text \<open>Both ways of computing a share stay below eight times the amount.\<close>

lemma share_bound:
  assumes w: "\<And>x. x \<in> set ws \<Longrightarrow> 0 \<le> x" "x \<in> set ws" and s: "0 < dsum ws" and t: "0 \<le> t"
  shows "\<bar>dmul x (ddiv t (dsum ws))\<bar> \<le> 8 * t" "\<bar>ddiv (dmul t x) (dsum ws)\<bar> \<le> 8 * t"
proof -
  have x: "0 \<le> x" "x \<le> 2 * dsum ws" using w elem_le_dsum by auto
  have "x * t \<le> (2 * dsum ws) * t" using x t by (intro mult_right_mono)
  then have r: "x * (t / dsum ws) \<le> 2 * t" using s by (simp add: divide_le_eq algebra_simps)
  have "\<bar>dmul x (ddiv t (dsum ws))\<bar> \<le> 2 * (\<bar>x\<bar> * \<bar>ddiv t (dsum ws)\<bar>)" by (rule dmul_bound)
  also have "\<dots> \<le> 2 * (\<bar>x\<bar> * (2 * (\<bar>t\<bar> / \<bar>dsum ws\<bar>)))"
    by (intro mult_left_mono ddiv_bound) auto
  also have "\<dots> = 4 * (x * (t / dsum ws))" using x t s by simp
  finally show "\<bar>dmul x (ddiv t (dsum ws))\<bar> \<le> 8 * t" using r by linarith
  have "\<bar>ddiv (dmul t x) (dsum ws)\<bar> \<le> 2 * (\<bar>dmul t x\<bar> / \<bar>dsum ws\<bar>)" by (rule ddiv_bound)
  also have "\<dots> \<le> 2 * ((2 * (\<bar>t\<bar> * \<bar>x\<bar>)) / \<bar>dsum ws\<bar>)"
    by (intro mult_left_mono divide_right_mono dmul_bound) auto
  also have "\<dots> = 4 * (x * (t / dsum ws))" using x t s by (simp add: mult.commute)
  finally show "\<bar>ddiv (dmul t x) (dsum ws)\<bar> \<le> 8 * t" using r by linarith
qed

lemma quantize_all_total:
  assumes "\<And>x. x \<in> set xs \<Longrightarrow> \<bar>x\<bar> \<le> 8 * 10 ^ 11" "length xs \<le> 10 ^ 5"
  shows "\<exists>fl. quantize_all xs = Inr fl \<and> (\<Sum>x\<leftarrow>fl. \<bar>x\<bar>) \<le> 9 * 10 ^ 16"
proof -
  have one: "\<exists>y. quantize 10 x = Inr y \<and> \<bar>y\<bar> \<le> 9 * 10 ^ 11" if "x \<in> set xs" for x
  proof -
    have "\<bar>x * 10 ^ 10\<bar> < 10 ^ 27" using assms(1) [OF that] by (simp add: abs_mult)
    then obtain y where y: "quantize 10 x = Inr y" using quantize_small by blast
    have "\<bar>y - x\<bar> \<le> 1" using quantize_error [OF y] by simp
    with assms(1) [OF that] have "\<bar>y\<bar> \<le> 9 * 10 ^ 11" by simp
    with y show ?thesis by blast
  qed
  have "\<exists>fl. quantize_all ys = Inr fl \<and> (\<forall>y \<in> set fl. \<bar>y\<bar> \<le> 9 * 10 ^ 11)" if "set ys \<subseteq> set xs" for ys
    using that
  proof (induction ys)
    case (Cons y ys)
    then obtain fl where fl: "quantize_all ys = Inr fl" "\<forall>y \<in> set fl. \<bar>y\<bar> \<le> 9 * 10 ^ 11" by auto
    obtain z where "quantize 10 y = Inr z" "\<bar>z\<bar> \<le> 9 * 10 ^ 11" using one [of y] Cons.prems by auto
    with fl show ?case by (auto simp: quantize_all_def)
  qed (simp add: quantize_all_def)
  then obtain fl where fl: "quantize_all xs = Inr fl" and b: "\<forall>y \<in> set fl. \<bar>y\<bar> \<le> 9 * 10 ^ 11" by blast
  have "(\<Sum>x\<leftarrow>fl. \<bar>x\<bar>) \<le> of_nat (length (map abs fl)) * (9 * 10 ^ 11)"
  proof -
    have "\<bar>sum_list (map abs fl)\<bar> \<le> of_nat (length (map abs fl)) * (9 * 10 ^ 11)"
      using b by (intro abs_sum_list_bound) auto
    then show ?thesis by linarith
  qed
  also have "\<dots> \<le> 10 ^ 5 * (9 * 10 ^ 11)"
  proof -
    have "length fl = length xs" using fl by (simp add: quantize_all_def res_traverse_length)
    then have "(of_nat (length fl) :: rat) \<le> of_nat (10 ^ 5)" using assms(2) by (simp only: of_nat_le_iff)
    then show ?thesis by simp
  qed
  finally have "(\<Sum>x\<leftarrow>fl. \<bar>x\<bar>) \<le> 9 * 10 ^ 16" by simp
  with fl show ?thesis by blast
qed

section \<open>How far a share is from its proportion\<close>

lemma dec_error: "\<bar>dec x - x\<bar> \<le> \<bar>x\<bar> * (5 / 10 ^ 28)"
proof -
  have "dec_u = 5 / 10 ^ 28" by (simp add: dec_u_def power_int_def power_one_over)
  then show ?thesis using dec.rnd_error [of x] by (simp only:)
qed

lemma dsum_error:
  assumes "\<And>x. x \<in> set xs \<Longrightarrow> 0 \<le> x" "length xs \<le> 10 ^ 5"
  shows "\<bar>dsum xs - sum_list xs\<bar> \<le> of_nat (length xs) * (sum_list xs / 10 ^ 27)"
  using assms
proof (induction xs rule: rev_induct)
  case (snoc x xs)
  define D S where "D = dsum xs" and "S = sum_list xs"
  have s: "0 \<le> S" "0 \<le> x" unfolding S_def using snoc.prems(1) by (auto intro: sum_list_nonneg)
  have n: "(of_nat (length xs) :: rat) \<le> of_nat (10 ^ 5)" using snoc.prems(2) by (simp only: of_nat_le_iff) simp
  have ih: "\<bar>D - S\<bar> \<le> of_nat (length xs) * (S / 10 ^ 27)" unfolding D_def S_def using snoc by simp
  also have "\<dots> \<le> of_nat (10 ^ 5) * (S / 10 ^ 27)" using n s by (intro mult_right_mono) auto
  also have "\<dots> \<le> S" using s by simp
  finally have near: "\<bar>D - S\<bar> \<le> S" .
  have "\<bar>D + x\<bar> \<le> 2 * (S + x)" using s near by (simp add: abs_le_iff)
  moreover have "\<bar>dec (D + x) - (D + x)\<bar> \<le> \<bar>D + x\<bar> * (5 / 10 ^ 28)"
    by (rule dec_error)
  ultimately have "\<bar>dec (D + x) - (D + x)\<bar> \<le> (S + x) / 10 ^ 27" by simp
  with ih have "\<bar>D - S\<bar> + \<bar>dec (D + x) - (D + x)\<bar> \<le> of_nat (length xs) * (S / 10 ^ 27) + (S + x) / 10 ^ 27"
    by (rule add_mono)
  moreover have "\<bar>dec (D + x) - (S + x)\<bar> \<le> \<bar>D - S\<bar> + \<bar>dec (D + x) - (D + x)\<bar>" by simp
  ultimately have "\<bar>dec (D + x) - (S + x)\<bar> \<le> of_nat (length xs) * (S / 10 ^ 27) + (S + x) / 10 ^ 27" by (rule order_trans [rotated])
  also have "\<dots> \<le> of_nat (length xs) * ((S + x) / 10 ^ 27) + (S + x) / 10 ^ 27"
    using s by (intro add_right_mono mult_left_mono divide_right_mono) auto
  finally show ?case by (simp add: dsum_def dadd_def D_def S_def algebra_simps add_divide_distrib)
qed (simp add: dsum_def)

lemma ideal_share_error:
  assumes "0 \<le> e" "0 \<le> b" "0 < t"
  shows "\<bar>dmul e (ddiv b t) - e * (b / t)\<bar> \<le> e * (b / t) * (2 / 10 ^ 27)"
proof -
  define f p where "f = ddiv b t" and "p = b / t"
  note u = dec_error
  have p: "0 \<le> p" using assms by (simp add: p_def)
  then have f: "\<bar>f - p\<bar> \<le> p * (5 / 10 ^ 28)" using u [of p] by (simp add: f_def ddiv_def p_def)
  have "p * (5 / 10 ^ 28) \<le> p" using p by simp
  then have f2: "f \<le> 2 * p" using abs_le_D1 [OF f] by linarith
  have "0 \<le> f" unfolding f_def ddiv_def using assms by (intro dec.rnd_nonneg divide_nonneg_nonneg) auto
  then have "\<bar>dmul e f - e * f\<bar> \<le> e * f * (5 / 10 ^ 28)" using u [of "e * f"] assms(1) by (simp add: dmul_def)
  also have "\<dots> \<le> e * (2 * p) * (5 / 10 ^ 28)"
    using f2 assms(1) by (intro mult_right_mono mult_left_mono) auto
  finally have a: "\<bar>dmul e f - e * f\<bar> \<le> e * p * (10 / 10 ^ 28)" by simp
  have "\<bar>e * f - e * p\<bar> = e * \<bar>f - p\<bar>" using assms(1) by (simp add: abs_mult right_diff_distrib [symmetric])
  also have "\<dots> \<le> e * (p * (5 / 10 ^ 28))" using f assms(1) by (rule mult_left_mono)
  finally have "\<bar>dmul e f - e * p\<bar> \<le> e * p * (10 / 10 ^ 28) + e * (p * (5 / 10 ^ 28))" using a by linarith
  also have "\<dots> \<le> e * p * (2 / 10 ^ 27)" using assms(1) p by (simp add: mult_nonneg_nonneg)
  finally show ?thesis by (simp add: f_def p_def)
qed

text \<open>The summed estimates against their exact sum, for up to a hundred thousand of them.\<close>

lemma dsum_near:
  assumes pos: "\<And>e. e \<in> set es \<Longrightarrow> 0 \<le> e" and len: "length es \<le> 10 ^ 5" and t: "0 < dsum es"
  shows "\<bar>dsum es - sum_list es\<bar> \<le> sum_list es / 10 ^ 22" "0 < sum_list es" "sum_list es \<le> 2 * dsum es"
proof -
  have S0: "0 \<le> sum_list es" using pos by (intro sum_list_nonneg)
  have n: "(of_nat (length es) :: rat) \<le> of_nat (10 ^ 5)" using len by (simp only: of_nat_le_iff)
  have "\<bar>dsum es - sum_list es\<bar> \<le> of_nat (length es) * (sum_list es / 10 ^ 27)" using dsum_error [OF pos len] .
  also have "\<dots> \<le> of_nat (10 ^ 5) * (sum_list es / 10 ^ 27)" using n S0 by (intro mult_right_mono) auto
  finally show near: "\<bar>dsum es - sum_list es\<bar> \<le> sum_list es / 10 ^ 22" by simp
  then show "0 < sum_list es" using t S0 by (cases "sum_list es = 0") simp_all
  have "sum_list es / 10 ^ 22 \<le> sum_list es / 2" using S0 by simp
  then show "sum_list es \<le> 2 * dsum es" using abs_le_D2 [OF near] by linarith
qed

lemma reciprocal_gap:
  assumes near: "\<bar>T - S\<bar> \<le> S / 10 ^ 22" and pos: "0 < T" "0 < S" "S \<le> 2 * T"
  shows "\<bar>1 / T - 1 / (S :: rat)\<bar> \<le> 2 / 10 ^ 22 / S"
proof -
  have "1 / T - 1 / S = (S - T) / (T * S)" using pos by (simp add: diff_frac_eq)
  then have "\<bar>1 / T - 1 / S\<bar> = \<bar>T - S\<bar> / (T * S)" using pos by (simp add: abs_minus_commute)
  also have "\<dots> \<le> (S / 10 ^ 22) / (T * S)" using near pos by (intro divide_right_mono) auto
  also have "\<dots> = (1 / 10 ^ 22) / T" using pos by simp
  also have "\<dots> \<le> (1 / 10 ^ 22) / (S / 2)" using pos by (intro divide_left_mono) auto
  finally show ?thesis by simp
qed

lemma ideal_share_near:
  assumes near: "\<bar>T - S\<bar> \<le> S / 10 ^ 22" and pos: "0 < T" "0 < S" "S \<le> 2 * T"
    and e: "0 \<le> e" and b: "0 \<le> b" "b \<le> 10 ^ 11"
  shows "\<bar>dmul e (ddiv b T) - b * e / S\<bar> \<le> e / S * (3 / 10 ^ 11)"
proof -
  have eb: "0 \<le> e * b" using e b(1) by simp
  have "e * (b / T) \<le> e * (b / (S / 2))"
    using e b(1) pos by (intro mult_left_mono divide_left_mono) auto
  then have "e * (b / T) * (2 / 10 ^ 27) \<le> e * (b / (S / 2)) * (2 / 10 ^ 27)" by (rule mult_right_mono) simp
  also have "e * (b / (S / 2)) * (2 / 10 ^ 27) = e * b / S * (4 / 10 ^ 27)" by (simp add: mult.commute)
  finally have "e * (b / T) * (2 / 10 ^ 27) \<le> e * b / S * (4 / 10 ^ 27)" .
  with ideal_share_error [OF e b(1) pos(1)] have 1: "\<bar>dmul e (ddiv b T) - e * (b / T)\<bar> \<le> e * b / S * (4 / 10 ^ 27)"
    by linarith
  have "e * (b / T) - b * e / S = (e * b) * (1 / T - 1 / S)" by (simp add: algebra_simps)
  then have "\<bar>e * (b / T) - b * e / S\<bar> = (e * b) * \<bar>1 / T - 1 / S\<bar>" using e b(1) by (simp add: abs_mult)
  also have "\<dots> \<le> (e * b) * (2 / 10 ^ 22 / S)" using reciprocal_gap [OF near pos] eb by (rule mult_left_mono)
  finally have "\<bar>dmul e (ddiv b T) - b * e / S\<bar> \<le> e * b / S * (4 / 10 ^ 27) + e * b / S * (2 / 10 ^ 22)"
    using 1 by (simp add: field_simps)
  also have "\<dots> \<le> e * b / S * (3 / 10 ^ 22)" using eb pos by (simp add: field_simps)
  also have "\<dots> \<le> e * 10 ^ 11 / S * (3 / 10 ^ 22)"
    using e b(2) pos by (intro mult_right_mono divide_right_mono mult_left_mono) auto
  finally show ?thesis by simp
qed

lemma ideal_shares:
  assumes pos: "\<And>e. e \<in> set es \<Longrightarrow> 0 \<le> e" and len: "length es \<le> 10 ^ 5" and t: "0 < dsum es"
    and b: "0 \<le> b" "b \<le> 10 ^ 11"
  shows "e \<in> set es \<Longrightarrow> \<bar>dmul e (ddiv b (dsum es)) - b * e / sum_list es\<bar> \<le> ulp / 2"
    "\<bar>sum_list (map (\<lambda>e. dmul e (ddiv b (dsum es))) es) - b\<bar> \<le> ulp / 2"
proof -
  note S = dsum_near [OF pos len t]
  let ?S = "sum_list es" and ?T = "dsum es"
  have each: "\<bar>dmul e (ddiv b ?T) - b * e / ?S\<bar> \<le> e / ?S * (3 / 10 ^ 11)" if "e \<in> set es" for e
    using S(1) t S(2,3) pos [OF that] b by (rule ideal_share_near)
  show "\<bar>dmul e (ddiv b ?T) - b * e / ?S\<bar> \<le> ulp / 2" if e: "e \<in> set es" for e
  proof -
    have "e \<le> ?S" using pos e by (intro member_le_sum_list) auto
    then have "e / ?S \<le> 1" using S(2) by simp
    then have "e / ?S * (3 / 10 ^ 11) \<le> 1 * (3 / 10 ^ 11)" by (rule mult_right_mono) simp
    with each [OF e] show ?thesis by (simp add: ulp_def)
  qed
  have "\<bar>sum_list (map (\<lambda>e. dmul e (ddiv b ?T)) xs) - b * sum_list xs / ?S\<bar> \<le> sum_list xs / ?S * (3 / 10 ^ 11)"
    if "set xs \<subseteq> set es" for xs
    using that
  proof (induction xs)
    case (Cons x xs)
    have "\<bar>dmul x (ddiv b ?T) - b * x / ?S\<bar> \<le> x / ?S * (3 / 10 ^ 11)" using Cons.prems by (intro each) simp
    moreover have "\<bar>sum_list (map (\<lambda>e. dmul e (ddiv b ?T)) xs) - b * sum_list xs / ?S\<bar> \<le> sum_list xs / ?S * (3 / 10 ^ 11)"
      using Cons by simp
    moreover have "b * (x + sum_list xs) / ?S = b * x / ?S + b * sum_list xs / ?S"
      "(x + sum_list xs) / ?S * (3 / 10 ^ 11) = x / ?S * (3 / 10 ^ 11) + sum_list xs / ?S * (3 / 10 ^ 11)"
      by (simp_all add: add_divide_distrib distrib_left distrib_right)
    ultimately show ?case unfolding list.map sum_list.Cons by linarith
  qed simp
  from this [of es] S(2) show "\<bar>sum_list (map (\<lambda>e. dmul e (ddiv b ?T)) es) - b\<bar> \<le> ulp / 2"
    by (simp add: ulp_def)
qed

end
