(* ===== verification/Reconciliation.thy ===== *)
theory Reconciliation
  imports Money_Split Store Python_Text
begin

text \<open>
  Reconciliation (\<open>packages/reconciliation\<close>): proration of an invoice over estimates
  (\<open>proration.py\<close>), drift classification (\<open>drift.py\<close>), match keys (\<open>matcher.py\<close>), the
  mixed-state breakdown (\<open>query.py\<close>), the validated upload row (\<open>schemas.py\<close>) and the
  additive true-up (\<open>service.py\<close>) over the append-only log of \<open>Store\<close>. The clock and the id
  generator are functions of a call counter.
\<close>

section \<open>Proration\<close>

definition prorate_rank :: "bool \<Rightarrow> rat list \<Rightarrow> nat list" where
  "prorate_rank up remainders = sorted_by (\<lambda>i. (remainders ! i, - int i)) up [0..<length remainders]"

definition proration_factor :: "rat list \<Rightarrow> rat \<Rightarrow> rat res" where
  "proration_factor estimates billed =
     (let tot = dsum estimates in
      if tot = 0 then (if billed = 0 then Inr 0 else Inl ValueError) else Inr (ddiv billed tot))"

definition prorate :: "rat list \<Rightarrow> rat \<Rightarrow> rat list res" where
  "prorate estimates billed =
     (if estimates = [] then Inl ValueError
      else let tot = dsum estimates in
        if tot = 0 then (if billed = 0 then Inr (map (\<lambda>_. 0) estimates) else Inl ValueError)
        else let factor = ddiv billed tot; exact = map (\<lambda>e. dmul e factor) estimates in
          res_bind (quantize_all exact) (\<lambda>floored. Inr (settle prorate_rank billed exact floored)))"

section \<open>Drift\<close>

definition KNOWN_CAUSES :: "string list" where
  "KNOWN_CAUSES = [''cache_mispricing'', ''negotiated_rate'', ''batch_discount'', ''credits'', ''tax'']"

definition DRIFT_THRESHOLD_PCT :: rat where "DRIFT_THRESHOLD_PCT = 10"

definition OVERBILL_RANK :: "string list" where
  "OVERBILL_RANK = [''cache_mispricing'', ''tax'', ''negotiated_rate'', ''batch_discount'', ''credits'']"

definition UNDERBILL_RANK :: "string list" where
  "UNDERBILL_RANK = [''negotiated_rate'', ''batch_discount'', ''credits'', ''cache_mispricing'', ''tax'']"

definition drift_pct :: "rat \<Rightarrow> rat \<Rightarrow> rat" where
  "drift_pct estimated billed =
     (if estimated = 0 then (if billed = 0 then 0 else if dsub billed estimated < 0 then - 100 else 100)
      else dmul (ddiv (dsub billed estimated) estimated) 100)"

definition rank_causes :: "rat \<Rightarrow> string list" where
  "rank_causes drift = (if drift < 0 then UNDERBILL_RANK else OVERBILL_RANK)"

definition classify_drift :: "match_key \<Rightarrow> rat \<Rightarrow> rat \<Rightarrow> drift_alert option res" where
  "classify_drift k estimated billed =
     (if estimated < 0 then Inl ValueError
      else let drift = drift_pct estimated billed in
        if dec \<bar>drift\<bar> \<le> DRIFT_THRESHOLD_PCT then Inr None
        else res_bind (drift_alert_new k drift (rank_causes drift)) (\<lambda>a. Inr (Some a)))"

section \<open>Match keys\<close>

definition match_key_of :: "string \<Rightarrow> string \<Rightarrow> string \<Rightarrow> string \<Rightarrow> string \<Rightarrow> string" where
  "match_key_of provider project model token_class day =
     join_with ''|'' [provider, project, model, token_class, day]"

definition parse_match_key :: "string \<Rightarrow> match_key res" where
  "parse_match_key key = (case split_on (CHR ''|'') key of
     [a, b, c, d, e] \<Rightarrow> Inr (a, b, c, d, e) | _ \<Rightarrow> Inl ValueError)"

definition group_by_match_key :: "('a \<Rightarrow> 'k) \<Rightarrow> 'a list \<Rightarrow> ('k, 'a list) dict" where
  "group_by_match_key key items = foldl (\<lambda>d x. dict_push (key x) x d) [] items"

section \<open>Manual rows\<close>

record manual_row =
  mr_tenant_id :: tenant_id
  mr_match_key :: match_key
  mr_billed_usd :: rat
  mr_provenance :: provenance

definition manual_row_check :: "manual_row \<Rightarrow> manual_row res" where
  "manual_row_check r =
     (if mr_provenance r \<noteq> ManualReconciled then Inl ValueError
      else if mr_billed_usd r < 0 then Inl ValueError else Inr r)"

section \<open>Breakdown\<close>

record cost_slice =
  sl_state :: reconciliation_state
  sl_amount :: rat

record reconciliation_view =
  rv_breakdown :: provenance_breakdown
  rv_drift_alerts :: "drift_alert list"

fun add_slices :: "provenance_breakdown \<Rightarrow> cost_slice list \<Rightarrow> provenance_breakdown res" where
  "add_slices b [] = Inr b"
| "add_slices b (s # ss) =
     (if sl_amount s < 0 then Inl ValueError
      else add_slices
        (case sl_state s of
           StateProviderReconciled \<Rightarrow> b\<lparr>pb_reconciled_usd := dadd (pb_reconciled_usd b) (sl_amount s)\<rparr>
         | StateProvisional \<Rightarrow> b\<lparr>pb_provisional_usd := dadd (pb_provisional_usd b) (sl_amount s)\<rparr>
         | StateEstimateOnly \<Rightarrow> b\<lparr>pb_estimate_only_usd := dadd (pb_estimate_only_usd b) (sl_amount s)\<rparr>) ss)"

definition build_breakdown :: "cost_slice list \<Rightarrow> drift_alert list \<Rightarrow> reconciliation_view res" where
  "build_breakdown slices alerts =
     res_bind (add_slices \<lparr>pb_reconciled_usd = 0, pb_provisional_usd = 0, pb_estimate_only_usd = 0\<rparr> slices)
       (\<lambda>b. Inr \<lparr>rv_breakdown = b, rv_drift_alerts = alerts\<rparr>)"

section \<open>Additive true-up\<close>

record estimate_row =
  er_request_id :: string
  er_match_key :: match_key
  er_estimated_usd :: rat

record reconciliation_outcome =
  ro_record :: reconciliation_record
  ro_reconciled_by_request :: "(string, rat) dict"
  ro_provenance :: provenance_label
  ro_drift_alert :: "drift_alert option"

text \<open>A dict comprehension: a repeated key keeps its first position and its last value.\<close>

definition dict_of_pairs :: "('k \<times> 'v) list \<Rightarrow> ('k, 'v) dict" where
  "dict_of_pairs ps = foldl (\<lambda>d (k, v). dict_set k v d) [] ps"

definition reconcile_match_key ::
  "db \<Rightarrow> tenant_id \<Rightarrow> match_key \<Rightarrow> estimate_row list \<Rightarrow> rat \<Rightarrow> string \<Rightarrow> instant
     \<Rightarrow> (reconciliation_outcome \<times> db) res" where
  "reconcile_match_key d tid k rows billed new_id now =
     (let ests = map er_estimated_usd rows; estimated_total = dsum ests in
      res_bind (prorate ests billed) (\<lambda>shares.
      res_bind (proration_factor ests billed) (\<lambda>factor.
      res_bind (classify_drift k estimated_total billed) (\<lambda>drift.
      let record = \<lparr>rec_tenant_id = tid, rec_id = new_id, rec_match_key = k,
             rec_estimated_total = estimated_total, rec_billed_total = billed, rec_proration_factor = factor,
             rec_drift_pct = drift_pct estimated_total billed,
             rec_drift_cause_ranked = (case drift of None \<Rightarrow> [] | Some a \<Rightarrow> da_ranked_causes a),
             rec_created_at = now\<rparr> in
      res_bind (recon_append d tid record) (\<lambda>d'.
      res_bind (provenance_label_new ProviderReconciled (Some new_id) None) (\<lambda>label.
        Inr (\<lparr>ro_record = record,
              ro_reconciled_by_request = dict_of_pairs (zip (map er_request_id rows) shares),
              ro_provenance = label, ro_drift_alert = drift\<rparr>, d')))))))"

fun reconcile_groups ::
  "db \<Rightarrow> tenant_id \<Rightarrow> (match_key, estimate_row list) dict \<Rightarrow> (match_key, rat) dict
     \<Rightarrow> (nat \<Rightarrow> string) \<Rightarrow> (nat \<Rightarrow> instant) \<Rightarrow> nat \<Rightarrow> (reconciliation_outcome list \<times> db) res" where
  "reconcile_groups d tid [] billed_totals gen_id now n = Inr ([], d)"
| "reconcile_groups d tid ((k, rows) # groups) billed_totals gen_id now n =
     (case dict_get billed_totals k of
        None \<Rightarrow> reconcile_groups d tid groups billed_totals gen_id now n
      | Some billed \<Rightarrow>
          res_bind (reconcile_match_key d tid k rows billed (gen_id n) (now n)) (\<lambda>(o', d').
          res_bind (reconcile_groups d' tid groups billed_totals gen_id now (Suc n)) (\<lambda>(os, d'').
            Inr (o' # os, d''))))"

definition reconcile_day ::
  "db \<Rightarrow> tenant_id \<Rightarrow> estimate_row list \<Rightarrow> (match_key, rat) dict
     \<Rightarrow> (nat \<Rightarrow> string) \<Rightarrow> (nat \<Rightarrow> instant) \<Rightarrow> (reconciliation_outcome list \<times> db) res" where
  "reconcile_day d tid rows billed_totals gen_id now =
     reconcile_groups d tid (group_by_match_key er_match_key rows) billed_totals gen_id now 0"

section \<open>Exact proration\<close>

interpretation prorate_split: largest_remainder prorate_rank
  by unfold_locales (simp_all add: prorate_rank_def atLeast0LessThan)

definition prorate_domain :: "rat list \<Rightarrow> rat \<Rightarrow> bool" where
  "prorate_domain estimates billed \<longleftrightarrow>
     estimates \<noteq> [] \<and> length estimates \<le> 10 ^ 5 \<and> (\<forall>e \<in> set estimates. 0 \<le> e) \<and> 0 < dsum estimates \<and>
     quantized 10 billed \<and> 0 \<le> billed \<and> billed \<le> 10 ^ 11"

lemma prorate_near:
  assumes "prorate_domain estimates billed"
  shows "\<exists>shares. prorate estimates billed = Inr shares \<and> length shares = length estimates \<and> sum_list shares = billed \<and>
    list_all2 (\<lambda>e s. \<bar>s - billed * e / sum_list estimates\<bar> \<le> 2 / 10 ^ 10) estimates shares"
proof -
  note d = assms [unfolded prorate_domain_def]
  let ?ideal = "\<lambda>e. dmul e (ddiv billed (dsum estimates))"
  let ?ex = "map ?ideal estimates"
  let ?fair = "\<lambda>e. billed * e / sum_list estimates"
  have "\<bar>x\<bar> \<le> 8 * 10 ^ 11" if "x \<in> set ?ex" for x
    using that share_bound(1) [of estimates] d by fastforce
  then obtain fl where fl: "quantize_all ?ex = Inr fl" "(\<Sum>x\<leftarrow>fl. \<bar>x\<bar>) \<le> 9 * 10 ^ 16"
    using quantize_all_total [of ?ex] d by auto
  let ?shares = "settle prorate_rank billed ?ex fl"
  have dom: "?ex \<noteq> []" "quantized 10 billed" "\<bar>billed\<bar> + (\<Sum>x\<leftarrow>fl. \<bar>x\<bar>) \<le> 10 ^ 17"
    using fl(2) d by auto
  have sum: "sum_list ?shares = billed \<and> length ?shares = length ?ex"
    using fl(1) dom by (rule prorate_split.settle_sum)
  have es: "\<And>e. e \<in> set estimates \<Longrightarrow> 0 \<le> e" "length estimates \<le> 10 ^ 5" "0 < dsum estimates" "0 \<le> billed" "billed \<le> 10 ^ 11"
    using d by auto
  note ideal = ideal_shares [OF es]
  have "\<bar>?shares ! i - ?fair (estimates ! i)\<bar> \<le> 2 / 10 ^ 10" if i: "i < length estimates" for i
  proof -
    have "\<bar>?shares ! i - ?ex ! i\<bar> \<le> 3 / 2 * ulp"
      by (rule prorate_split.settle_near [OF fl(1) dom ideal(2)]) (simp_all add: i)
    moreover have "\<bar>?ex ! i - ?fair (estimates ! i)\<bar> \<le> ulp / 2"
      using i ideal(1) [of "estimates ! i"] by simp
    moreover have "\<bar>?shares ! i - ?fair (estimates ! i)\<bar> \<le> \<bar>?shares ! i - ?ex ! i\<bar> + \<bar>?ex ! i - ?fair (estimates ! i)\<bar>"
      using abs_triangle_ineq [of "?shares ! i - ?ex ! i" "?ex ! i - ?fair (estimates ! i)"] by (simp only: diff_add_cancel add_diff_eq)
    ultimately have "\<bar>?shares ! i - ?fair (estimates ! i)\<bar> \<le> 3 / 2 * ulp + ulp / 2"
      by (meson add_mono order_trans)
    then show ?thesis by (simp add: ulp_def)
  qed
  then have "list_all2 (\<lambda>e s. \<bar>s - ?fair e\<bar> \<le> 2 / 10 ^ 10) estimates ?shares"
    using sum by (simp add: list_all2_conv_all_nth)
  moreover have "prorate estimates billed = Inr ?shares" using fl(1) d by (simp add: prorate_def Let_def)
  ultimately show ?thesis using sum by auto
qed

lemma prorate_sum:
  assumes "prorate_domain estimates billed"
  shows "\<exists>shares. prorate estimates billed = Inr shares \<and> length shares = length estimates \<and> sum_list shares = billed"
  using prorate_near [OF assms] by blast

section \<open>Drift\<close>

lemma rank_causes_known: "set (rank_causes x) = set KNOWN_CAUSES" "distinct (rank_causes x)" "rank_causes x \<noteq> []"
  by (auto simp: rank_causes_def OVERBILL_RANK_def UNDERBILL_RANK_def KNOWN_CAUSES_def)

lemma dec_abs_drift: "dec \<bar>drift_pct e b\<bar> = \<bar>drift_pct e b\<bar>"
proof -
  have "dec_exact (drift_pct e b)"
    using dec_exact_int [of 0] dec_exact_int [of 100] dec_exact_int [of "- 100"]
    by (auto simp: drift_pct_def dmul_def)
  then have "dec_exact \<bar>drift_pct e b\<bar>"
    by (simp add: dec_exact_def representable_minus abs_if)
  then show ?thesis by (rule dec.rnd_exact)
qed

section \<open>Keys and groups\<close>

lemma parse_match_key_Inr:
  "parse_match_key key = Inr (a, b, c, d, e) \<longleftrightarrow> split_on (CHR ''|'') key = [a, b, c, d, e]"
  by (auto simp: parse_match_key_def split: list.splits)

lemma join_split: "join_with [c] (split_on c s) = s"
proof (induction s)
  case (Cons x xs)
  have ne: "split_on c xs \<noteq> []" by simp
  have cons: "join_with [c] ([] # ws) = c # join_with [c] ws" if "ws \<noteq> []" for ws
    using that by (cases ws) auto
  have head: "join_with [c] ((x # w) # ws) = x # join_with [c] (w # ws)" for w ws
    by (cases ws) auto
  from Cons ne show ?case by (cases "split_on c xs") (auto simp: cons head)
qed simp

lemma group_at: "dict_at (group_by_match_key key items) k = filter (\<lambda>x. key x = k) items"
  by (induction items rule: rev_induct) (auto simp: group_by_match_key_def)

lemma group_ok: "dict_ok (group_by_match_key key items)"
  by (induction items rule: rev_induct) (auto simp: group_by_match_key_def)

lemma group_keys: "fst ` set (group_by_match_key key items) = key ` set items"
  by (induction items rule: rev_induct) (auto simp: group_by_match_key_def)

lemma group_mem:
  assumes "(k, xs) \<in> set (group_by_match_key key items)"
  shows "xs = filter (\<lambda>x. key x = k) items" "xs \<noteq> []"
proof -
  have "dict_get (group_by_match_key key items) k = Some xs" by (rule dict_ok_get [OF group_ok assms])
  then show x: "xs = filter (\<lambda>x. key x = k) items"
    using group_at [of key items k] by (simp add: dict_at_def)
  have "k \<in> key ` set items" using assms group_keys [of key items] by force
  then show "xs \<noteq> []" unfolding x by (auto simp: filter_empty_conv)
qed

lemma dict_of_pairs_distinct: "distinct (map fst ps) \<Longrightarrow> dict_of_pairs ps = ps"
proof (induction ps rule: rev_induct)
  case (snoc p ps)
  obtain k v where p: "p = (k, v)" by (cases p)
  have "dict_set k v qs = qs @ [(k, v)]" if "k \<notin> fst ` set qs" for qs :: "('a \<times> 'b) list"
    using that by (induction qs) auto
  with snoc p show ?case by (simp add: dict_of_pairs_def)
qed (simp add: dict_of_pairs_def)

lemma dec_less_0: "dec x < 0 \<longleftrightarrow> x < 0"
  using dec.rnd_nonneg [of x] dec.rnd_nonpos [of x] dec.rnd_eq_0_iff [of x] by linarith

lemma drift_pct_sign:
  assumes "0 \<le> e"
  shows "drift_pct e b < 0 \<longleftrightarrow> b < e"
proof (cases "e = 0")
  case False
  with assms have "0 < e" by simp
  then show ?thesis by (simp add: drift_pct_def dmul_def ddiv_def dsub_def dec_less_0 mult_less_0_iff divide_less_0_iff)
qed (auto simp: drift_pct_def dsub_def dec_less_0)

section \<open>The true-up appends\<close>

lemma recon_append_Inr:
  assumes "recon_append d tid r = Inr d'" "rec_tenant_id r = tid"
  shows "db_reconciliation d' = db_reconciliation d @ [r]" "db_cost_event d' = db_cost_event d"
  using assms by (auto simp: recon_append_def split: if_splits)

lemma reconcile_match_key_Inr:
  assumes "reconcile_match_key d tid k rows billed i now = Inr (o', d')"
  shows "db_reconciliation d' = db_reconciliation d @ [ro_record o']" "db_cost_event d' = db_cost_event d"
    "rec_match_key (ro_record o') = k" "rec_billed_total (ro_record o') = billed"
    "rec_tenant_id (ro_record o') = tid" "rec_id (ro_record o') = i"
    "\<exists>shares. prorate (map er_estimated_usd rows) billed = Inr shares \<and>
       ro_reconciled_by_request o' = dict_of_pairs (zip (map er_request_id rows) shares)"
  using assms recon_append_Inr by (fastforce simp: reconcile_match_key_def Let_def)+

lemma prorate_length:
  assumes "prorate es b = Inr shares" shows "length shares = length es"
proof -
  have h: "length (hand_out dir ord k n xs) = length xs" for dir ord k n xs
    by (induction n arbitrary: k xs) (auto simp: Let_def)
  show ?thesis
    using assms
    by (auto simp: prorate_def Let_def settle_def h quantize_all_def dest!: res_traverse_length split: if_splits)
qed

lemma reconcile_groups_Inr:
  assumes "reconcile_groups d tid gs bt gen now n = Inr (os, d')"
  shows "db_reconciliation d' = db_reconciliation d @ map ro_record os \<and> db_cost_event d' = db_cost_event d \<and>
     map (\<lambda>o'. rec_match_key (ro_record o')) os = filter (\<lambda>k. dict_get bt k \<noteq> None) (map fst gs) \<and>
     (\<forall>o' \<in> set os. \<exists>rows. (rec_match_key (ro_record o'), rows) \<in> set gs \<and>
        dict_get bt (rec_match_key (ro_record o')) = Some (rec_billed_total (ro_record o')) \<and>
        (\<exists>shares. prorate (map er_estimated_usd rows) (rec_billed_total (ro_record o')) = Inr shares \<and>
           ro_reconciled_by_request o' = dict_of_pairs (zip (map er_request_id rows) shares)))"
  using assms
proof (induction d tid gs bt gen now n arbitrary: os d' rule: reconcile_groups.induct)
  case (2 d tid k rows gs bt gen now n)
  show ?case
  proof (cases "dict_get bt k")
    case None
    with 2 show ?thesis by fastforce
  next
    case (Some billed)
    then obtain o1 d1 os1 where o1: "reconcile_match_key d tid k rows billed (gen n) (now n) = Inr (o1, d1)"
      and os1: "reconcile_groups d1 tid gs bt gen now (Suc n) = Inr (os1, d')" "os = o1 # os1"
      using 2(3) by auto
    note f = reconcile_match_key_Inr [OF o1]
    have "db_reconciliation d' = db_reconciliation d1 @ map ro_record os1 \<and> db_cost_event d' = db_cost_event d1 \<and>
       map (\<lambda>o'. rec_match_key (ro_record o')) os1 = filter (\<lambda>k. dict_get bt k \<noteq> None) (map fst gs) \<and>
       (\<forall>o' \<in> set os1. \<exists>rows. (rec_match_key (ro_record o'), rows) \<in> set gs \<and>
          dict_get bt (rec_match_key (ro_record o')) = Some (rec_billed_total (ro_record o')) \<and>
          (\<exists>shares. prorate (map er_estimated_usd rows) (rec_billed_total (ro_record o')) = Inr shares \<and>
             ro_reconciled_by_request o' = dict_of_pairs (zip (map er_request_id rows) shares)))"
      using 2(2) Some o1 os1(1) by blast
    then show ?thesis using f Some os1(2) by fastforce
  qed
qed simp

section \<open>Breakdown\<close>

definition state_total :: "reconciliation_state \<Rightarrow> cost_slice list \<Rightarrow> rat" where
  "state_total st ss = sum_list (map sl_amount (filter (\<lambda>s. sl_state s = st) ss))"

lemma state_total_nonneg: "\<forall>s \<in> set ss. 0 \<le> sl_amount s \<Longrightarrow> 0 \<le> state_total st ss"
  by (auto simp: state_total_def intro!: sum_list_nonneg)

lemma state_total_sum:
  "state_total StateProviderReconciled ss + state_total StateProvisional ss + state_total StateEstimateOnly ss =
     sum_list (map sl_amount ss)"
proof (induction ss)
  case (Cons s ss)
  then show ?case by (cases "sl_state s") (auto simp: state_total_def)
qed (simp add: state_total_def)

lemma add_slices_exact:
  assumes "\<forall>s \<in> set ss. 0 \<le> sl_amount s \<and> quantized 10 (sl_amount s)"
    and "0 \<le> pb_reconciled_usd b" "0 \<le> pb_provisional_usd b" "0 \<le> pb_estimate_only_usd b"
    and "quantized 10 (pb_reconciled_usd b)" "quantized 10 (pb_provisional_usd b)" "quantized 10 (pb_estimate_only_usd b)"
    and "pb_reconciled_usd b + pb_provisional_usd b + pb_estimate_only_usd b + sum_list (map sl_amount ss) \<le> 10 ^ 18"
  shows "add_slices b ss = Inr \<lparr>pb_reconciled_usd = pb_reconciled_usd b + state_total StateProviderReconciled ss,
     pb_provisional_usd = pb_provisional_usd b + state_total StateProvisional ss,
     pb_estimate_only_usd = pb_estimate_only_usd b + state_total StateEstimateOnly ss\<rparr>"
  using assms
proof (induction ss arbitrary: b)
  case (Cons s ss)
  have s: "0 \<le> sl_amount s" "quantized 10 (sl_amount s)" using Cons.prems(1) by auto
  have rest: "0 \<le> sum_list (map sl_amount ss)" using Cons.prems(1) by (auto intro!: sum_list_nonneg)
  have e: "dadd x (sl_amount s) = x + sl_amount s" if "0 \<le> x" "quantized 10 x" "x + sl_amount s \<le> 10 ^ 18" for x
    using that s by (simp add: dadd_def money_exact money_ok_def quantized_add)
  show ?case
  proof (cases "sl_state s")
    case StateProviderReconciled
    have "dadd (pb_reconciled_usd b) (sl_amount s) = pb_reconciled_usd b + sl_amount s"
      using Cons.prems rest by (intro e) auto
    with Cons StateProviderReconciled s rest show ?thesis by (simp add: state_total_def quantized_add add_ac)
  next
    case StateProvisional
    have "dadd (pb_provisional_usd b) (sl_amount s) = pb_provisional_usd b + sl_amount s"
      using Cons.prems rest by (intro e) auto
    with Cons StateProvisional s rest show ?thesis by (simp add: state_total_def quantized_add add_ac)
  next
    case StateEstimateOnly
    have "dadd (pb_estimate_only_usd b) (sl_amount s) = pb_estimate_only_usd b + sl_amount s"
      using Cons.prems rest by (intro e) auto
    with Cons StateEstimateOnly s rest show ?thesis by (simp add: state_total_def quantized_add add_ac)
  qed
qed (simp add: state_total_def)

lemma add_slices_negative: "\<exists>s \<in> set ss. sl_amount s < 0 \<Longrightarrow> add_slices b ss = Inl ValueError"
  by (induction ss arbitrary: b) auto

section \<open>Properties\<close>

text \<open>
  C3. Proration is proportional and exact: for non-negative estimates with a positive
  total and an invoice in storage precision, the reconciled shares exist, one per
  estimate, each within two units of the tenth decimal of the estimate's proportional
  share of the invoice, and they add up to the invoice to the last unit, in spite of the
  rounding of the estimated total, of the factor, of every product and of every share.
  (Up to a hundred thousand estimates and a hundred billion dollars, the 28 digits of the
  decimal context lose nothing.)
\<close>

theorem prorate_sums_to_invoice:
  assumes "prorate_domain estimates billed"
  shows "\<exists>shares. prorate estimates billed = Inr shares \<and> length shares = length estimates \<and> sum_list shares = billed \<and>
    list_all2 (\<lambda>e s. \<bar>s - billed * e / sum_list estimates\<bar> \<le> 2 / 10 ^ 10) estimates shares"
  using assms by (rule prorate_near)

lemma sample_prorate_domain: "prorate_domain [1, 1, 1] 10"
proof -
  have "dsum [1, 1, 1] = (3 :: rat)" by code_simp
  moreover have "quantized 10 10" unfolding quantized_def by (rule exI [of _ "10 ^ 11"]) simp
  ultimately show ?thesis by (simp add: prorate_domain_def)
qed

theorem prorate_sums_to_invoice_witness:
  "prorate_domain [1, 1, 1] 10 \<and> (\<exists>shares. prorate [1, 1, 1] 10 = Inr shares \<and> sum_list shares = 10 \<and>
     list_all2 (\<lambda>e s. \<bar>s - 10 * e / sum_list [1, 1, 1]\<bar> \<le> 2 / 10 ^ 10) [1, 1, 1] shares)"
  using prorate_sums_to_invoice [OF sample_prorate_domain] sample_prorate_domain by blast

text \<open>
  An invoice finer than the storage unit is not distributed exactly: half a unit
  billed on one request reconciles to nothing.
\<close>

theorem prorate_loses_subunit:
  "prorate [1] (5 / 10 ^ 11) = Inr [0]"
proof -
  define b :: rat where "b = 5 / 10 ^ 11"
  have half: "half_even (1 / 2) = 0" by code_simp
  have d1: "dec 1 = 1" using dec_exact_int [of 1] by (simp add: dec.rnd_exact)
  have db: "dec b = b" unfolding b_def using dec_exact_scaled [of 5 11] by (intro dec.rnd_exact) simp
  have q: "quantize 10 b = Inr 0" unfolding b_def using half by (simp add: quantize_def)
  have "b / ulp = 1 / 2" by (simp add: b_def ulp_def)
  moreover have "dec (1 / 2) = 1 / 2" using dec_exact_scaled [of 5 1] by (intro dec.rnd_exact) simp
  ultimately have r: "half_even (dec (b / ulp)) = 0" using half by (simp only:)
  have "prorate [1] b = Inr [0]"
    using d1 db q r by (simp add: prorate_def dsum_def dadd_def ddiv_def dmul_def dsub_def quantize_all_def settle_def)
  then show ?thesis by (simp add: b_def)
qed

text \<open>
  Drift is flagged exactly when the relative gap exceeds ten percent: a negative
  estimate raises; a gap within tolerance gives no alert; otherwise the alert carries the
  key, the signed drift and all causes of the catalogue, each once, led by the discount
  causes exactly when the invoice is below the estimate.
\<close>

theorem classify_drift_spec:
  "case classify_drift k estimated billed of
     Inl err \<Rightarrow> err = ValueError \<and> estimated < 0
   | Inr None \<Rightarrow> 0 \<le> estimated \<and> \<bar>drift_pct estimated billed\<bar> \<le> 10
   | Inr (Some a) \<Rightarrow> 0 \<le> estimated \<and> 10 < \<bar>drift_pct estimated billed\<bar> \<and> da_match_key a = k \<and>
       da_drift_pct a = drift_pct estimated billed \<and>
       set (da_ranked_causes a) = set KNOWN_CAUSES \<and> distinct (da_ranked_causes a) \<and>
       (hd (da_ranked_causes a) = ''negotiated_rate'' \<longleftrightarrow> billed < estimated)"
proof (cases "estimated < 0")
  case False
  then have e: "0 \<le> estimated" by simp
  let ?x = "drift_pct estimated billed"
  have hd: "hd (rank_causes ?x) = ''negotiated_rate'' \<longleftrightarrow> billed < estimated"
    unfolding drift_pct_sign [OF e, symmetric] by (simp add: rank_causes_def OVERBILL_RANK_def UNDERBILL_RANK_def)
  show ?thesis
    using False e hd rank_causes_known [of ?x]
    by (simp add: classify_drift_def Let_def dec_abs_drift DRIFT_THRESHOLD_PCT_def drift_alert_new_def)
qed (simp add: classify_drift_def)

text \<open>
  The text form of a match key is lossless: a key parses to five parts exactly when it
  is the text built from them and none contains the separator.
\<close>

theorem match_key_roundtrip:
  "parse_match_key key = Inr (a, b, c, d, e) \<longleftrightarrow>
     key = match_key_of a b c d e \<and> CHR ''|'' \<notin> set (a @ b @ c @ d @ e)"
proof
  assume "parse_match_key key = Inr (a, b, c, d, e)"
  then have sp: "split_on (CHR ''|'') key = [a, b, c, d, e]" by (simp add: parse_match_key_Inr)
  then have "key = match_key_of a b c d e" unfolding match_key_of_def by (metis join_split)
  moreover have "CHR ''|'' \<notin> set (a @ b @ c @ d @ e)"
    using split_on_no_sep [of _ "CHR ''|''" key] unfolding sp by auto
  ultimately show "key = match_key_of a b c d e \<and> CHR ''|'' \<notin> set (a @ b @ c @ d @ e)" ..
next
  assume k: "key = match_key_of a b c d e \<and> CHR ''|'' \<notin> set (a @ b @ c @ d @ e)"
  then have "split_on (CHR ''|'') (join_with ''|'' [a, b, c, d, e]) = [a, b, c, d, e]" by (intro split_join) auto
  with k show "parse_match_key key = Inr (a, b, c, d, e)" by (simp add: parse_match_key_Inr match_key_of_def)
qed

lemma reconcile_match_key_sums:
  assumes "prorate_domain (map er_estimated_usd rows) billed" "distinct (map er_request_id rows)"
    and "\<not> (\<exists>q \<in> set (db_reconciliation d). rec_id q = new_id \<and> rec_tenant_id q = tid)"
  shows "\<exists>o' d'. reconcile_match_key d tid k rows billed new_id now = Inr (o', d') \<and>
     db_reconciliation d' = db_reconciliation d @ [ro_record o'] \<and> db_cost_event d' = db_cost_event d \<and>
     rec_match_key (ro_record o') = k \<and> rec_billed_total (ro_record o') = billed \<and>
     map fst (ro_reconciled_by_request o') = map er_request_id rows \<and>
     sum_list (map snd (ro_reconciled_by_request o')) = billed \<and>
     ro_provenance o' = \<lparr>pl_provenance = ProviderReconciled, pl_record_id = Some (rec_id (ro_record o')), pl_note = None\<rparr>"
proof -
  let ?es = "map er_estimated_usd rows"
  obtain shares where sh: "prorate ?es billed = Inr shares" "length shares = length rows" "sum_list shares = billed"
    using prorate_sum [OF assms(1)] by auto
  have pos: "0 < dsum ?es" using assms(1) by (simp add: prorate_domain_def)
  then have fac: "proration_factor ?es billed = Inr (ddiv billed (dsum ?es))" by (simp add: proration_factor_def Let_def)
  obtain dr where dr: "classify_drift k (dsum ?es) billed = Inr dr"
    using pos rank_causes_known(3) by (cases "classify_drift k (dsum ?es) billed")
      (auto simp: classify_drift_def Let_def drift_alert_new_def split: if_splits)
  have "\<exists>o' d'. reconcile_match_key d tid k rows billed new_id now = Inr (o', d') \<and>
      ro_provenance o' = \<lparr>pl_provenance = ProviderReconciled, pl_record_id = Some (rec_id (ro_record o')), pl_note = None\<rparr>"
    using assms(3) unfolding reconcile_match_key_def Let_def sh(1) fac dr
    by (simp add: recon_append_def provenance_label_new_def reconciled_provenance_def)
  then obtain o' d' where r: "reconcile_match_key d tid k rows billed new_id now = Inr (o', d')"
    and p: "ro_provenance o' = \<lparr>pl_provenance = ProviderReconciled, pl_record_id = Some (rec_id (ro_record o')), pl_note = None\<rparr>"
    by blast
  note f = reconcile_match_key_Inr [OF r]
  have "ro_reconciled_by_request o' = zip (map er_request_id rows) shares"
    using f(7) sh(1,2) assms(2) by (auto simp: dict_of_pairs_distinct)
  then have "map fst (ro_reconciled_by_request o') = map er_request_id rows"
    "sum_list (map snd (ro_reconciled_by_request o')) = billed" using sh(2,3) by simp_all
  with r p f(1-4) show ?thesis by blast
qed

text \<open>
  C10. A true-up is additive and exact: one record for the key is appended to the log, cost
  events are untouched, the reconciled values of the requests add up to the invoice, and
  the provenance label points at the appended record.
\<close>

theorem reconcile_match_key_exact:
  assumes "prorate_domain (map er_estimated_usd rows) billed" "distinct (map er_request_id rows)"
    and "\<not> (\<exists>q \<in> set (db_reconciliation d). rec_id q = new_id \<and> rec_tenant_id q = tid)"
  shows "\<exists>o' d'. reconcile_match_key d tid k rows billed new_id now = Inr (o', d') \<and>
     db_reconciliation d' = db_reconciliation d @ [ro_record o'] \<and> db_cost_event d' = db_cost_event d \<and>
     rec_match_key (ro_record o') = k \<and> rec_billed_total (ro_record o') = billed \<and>
     map fst (ro_reconciled_by_request o') = map er_request_id rows \<and>
     sum_list (map snd (ro_reconciled_by_request o')) = billed \<and>
     ro_provenance o' = \<lparr>pl_provenance = ProviderReconciled, pl_record_id = Some (rec_id (ro_record o')), pl_note = None\<rparr>"
  by (rule reconcile_match_key_sums [OF assms])

text \<open>
  A day's true-up covers exactly the keys with an invoice: one record per match key
  that has both estimates and a billed total, each key once, all appended after the
  records already there; every request under such a key gets a reconciled value, requests
  under other keys stay provisional, and no cost event changes.
\<close>

theorem reconcile_day_covers:
  assumes "reconcile_day d tid rows billed_totals gen_id now = Inr (os, d')"
  shows "db_reconciliation d' = db_reconciliation d @ map ro_record os \<and> db_cost_event d' = db_cost_event d \<and>
     distinct (map (\<lambda>o'. rec_match_key (ro_record o')) os) \<and>
     (\<lambda>o'. rec_match_key (ro_record o')) ` set os = {k \<in> er_match_key ` set rows. dict_get billed_totals k \<noteq> None} \<and>
     (\<forall>o' \<in> set os. fst ` set (ro_reconciled_by_request o') =
        er_request_id ` {r \<in> set rows. er_match_key r = rec_match_key (ro_record o')})"
proof -
  let ?g = "group_by_match_key er_match_key rows"
  note f = reconcile_groups_Inr [OF assms [unfolded reconcile_day_def]]
  have keys: "map (\<lambda>o'. rec_match_key (ro_record o')) os = filter (\<lambda>k. dict_get billed_totals k \<noteq> None) (map fst ?g)"
    using f by blast
  have dis: "distinct (map (\<lambda>o'. rec_match_key (ro_record o')) os)"
    unfolding keys using group_ok [of er_match_key rows] by (simp add: dict_ok_def)
  have img: "(\<lambda>o'. rec_match_key (ro_record o')) ` set os = {k \<in> er_match_key ` set rows. dict_get billed_totals k \<noteq> None}"
    using arg_cong [OF keys, of set] group_keys [of er_match_key rows] by auto
  have "fst ` set (ro_reconciled_by_request o') = er_request_id ` {r \<in> set rows. er_match_key r = rec_match_key (ro_record o')}"
    if o': "o' \<in> set os" for o'
  proof -
    obtain rs shares where rs: "(rec_match_key (ro_record o'), rs) \<in> set ?g"
      "prorate (map er_estimated_usd rs) (rec_billed_total (ro_record o')) = Inr shares"
      "ro_reconciled_by_request o' = dict_of_pairs (zip (map er_request_id rs) shares)"
      using f o' by blast
    have "length shares = length rs" using prorate_length [OF rs(2)] by simp
    moreover have "fst ` set (dict_of_pairs ps) = fst ` set ps" for ps :: "(string \<times> rat) list"
    proof (induction ps rule: rev_induct)
      case (snoc p ps)
      then show ?case by (cases p) (simp add: dict_of_pairs_def)
    qed (simp add: dict_of_pairs_def)
    ultimately have "fst ` set (ro_reconciled_by_request o') = er_request_id ` set rs"
      unfolding rs(3) by (metis length_map list.set_map map_fst_zip)
    then show ?thesis using group_mem(1) [OF rs(1)] by auto
  qed
  with f dis img show ?thesis by blast
qed

text \<open>
  The breakdown of a window never mixes states: with a negative amount it raises;
  otherwise every state's figure is the exact sum of its own slices, the three add up to
  the window total, and the open drift alerts are carried along.
\<close>

theorem build_breakdown_partition:
  assumes "\<forall>s \<in> set slices. quantized 10 (sl_amount s)" "(\<Sum>s\<leftarrow>slices. sl_amount s) \<le> 10 ^ 18"
  shows "if \<exists>s \<in> set slices. sl_amount s < 0 then build_breakdown slices alerts = Inl ValueError
     else \<exists>v. build_breakdown slices alerts = Inr v \<and> rv_drift_alerts v = alerts \<and>
       pb_reconciled_usd (rv_breakdown v) = state_total StateProviderReconciled slices \<and>
       pb_provisional_usd (rv_breakdown v) = state_total StateProvisional slices \<and>
       pb_estimate_only_usd (rv_breakdown v) = state_total StateEstimateOnly slices \<and>
       total_usd (rv_breakdown v) = (\<Sum>s\<leftarrow>slices. sl_amount s)"
proof (cases "\<exists>s \<in> set slices. sl_amount s < 0")
  case False
  then have nn: "\<forall>s \<in> set slices. 0 \<le> sl_amount s" by auto
  let ?b = "\<lparr>pb_reconciled_usd = state_total StateProviderReconciled slices,
     pb_provisional_usd = state_total StateProvisional slices, pb_estimate_only_usd = state_total StateEstimateOnly slices\<rparr>"
  have b: "build_breakdown slices alerts = Inr \<lparr>rv_breakdown = ?b, rv_drift_alerts = alerts\<rparr>"
    using assms nn by (simp add: build_breakdown_def add_slices_exact)
  have q: "quantized 10 (state_total st slices)" for st
    using assms(1) by (auto simp: state_total_def intro!: quantized_sum_list)
  note n = state_total_nonneg [OF nn]
  let ?r = "state_total StateProviderReconciled slices" and ?p = "state_total StateProvisional slices"
    and ?e = "state_total StateEstimateOnly slices"
  have qs: "quantized 10 (?r + ?p)" "quantized 10 (?r + ?p + ?e)" by (intro quantized_add q)+
  have "money_ok (?r + ?p)" "money_ok (?r + ?p + ?e)"
    using n [of StateProviderReconciled] n [of StateProvisional] n [of StateEstimateOnly] assms(2)
      state_total_sum [of slices] qs unfolding money_ok_def by linarith+
  then have "total_usd ?b = ?r + ?p + ?e" by (simp add: total_usd_def dadd_def money_exact)
  then have "total_usd ?b = (\<Sum>s\<leftarrow>slices. sl_amount s)" by (simp add: state_total_sum)
  with False b show ?thesis by auto
qed (simp add: build_breakdown_def add_slices_negative)

definition sample_key :: match_key where
  "sample_key = (''openai'', ''p'', ''m'', ''output'', ''2026-01-01'')"

definition sample_estimates :: "estimate_row list" where
  "sample_estimates = [\<lparr>er_request_id = ''a'', er_match_key = sample_key, er_estimated_usd = 1\<rparr>,
     \<lparr>er_request_id = ''b'', er_match_key = sample_key, er_estimated_usd = 1\<rparr>,
     \<lparr>er_request_id = ''c'', er_match_key = sample_key, er_estimated_usd = 1\<rparr>]"

lemma sample_reconcile:
  "prorate_domain (map er_estimated_usd sample_estimates) 10" "distinct (map er_request_id sample_estimates)"
  "\<not> (\<exists>q \<in> set (db_reconciliation empty_db). rec_id q = ''x'' \<and> rec_tenant_id q = ''t'')"
  using sample_prorate_domain by (simp_all add: sample_estimates_def empty_db_def)

theorem reconcile_match_key_exact_witness:
  "\<exists>o' d'. reconcile_match_key empty_db ''t'' sample_key sample_estimates 10 ''x'' 0 = Inr (o', d') \<and>
     sum_list (map snd (ro_reconciled_by_request o')) = 10"
  using reconcile_match_key_exact [OF sample_reconcile, of sample_key 0] by blast

theorem build_breakdown_partition_witness:
  "\<exists>v. build_breakdown [\<lparr>sl_state = StateProvisional, sl_amount = 2\<rparr>, \<lparr>sl_state = StateEstimateOnly, sl_amount = 3\<rparr>] [] = Inr v \<and>
     total_usd (rv_breakdown v) = 5"
proof -
  have q: "quantized 10 2" "quantized 10 3"
    unfolding quantized_def by (rule exI [of _ "2 * 10 ^ 10"], simp) (rule exI [of _ "3 * 10 ^ 10"], simp)
  have a: "\<forall>s \<in> set [\<lparr>sl_state = StateProvisional, sl_amount = 2\<rparr>, \<lparr>sl_state = StateEstimateOnly, sl_amount = 3\<rparr>].
      quantized 10 (sl_amount s)" using q by simp
  show ?thesis using build_breakdown_partition [OF a, of "[]"] by auto
qed

theorem reconcile_day_covers_witness:
  "\<exists>os d'. reconcile_day empty_db ''t'' [\<lparr>er_request_id = ''a'', er_match_key = sample_key, er_estimated_usd = 0\<rparr>]
       [(sample_key, 0)] (\<lambda>n. ''x'') (\<lambda>n. 0) = Inr (os, d') \<and>
     (\<lambda>o'. rec_match_key (ro_record o')) ` set os = {sample_key}"
proof -
  let ?r = "reconcile_day empty_db ''t'' [\<lparr>er_request_id = ''a'', er_match_key = sample_key, er_estimated_usd = 0\<rparr>]
       [(sample_key, 0)] (\<lambda>n. ''x'') (\<lambda>n. 0)"
  have "\<exists>os d'. ?r = Inr (os, d')"
    by (simp add: reconcile_day_def group_by_match_key_def dict_push_def reconcile_match_key_def prorate_def dsum_def
        dadd_def proration_factor_def classify_drift_def drift_pct_def DRIFT_THRESHOLD_PCT_def recon_append_def
        empty_db_def provenance_label_new_def reconciled_provenance_def Let_def)
  then obtain os d' where r: "?r = Inr (os, d')" by blast
  from reconcile_day_covers [OF r] r show ?thesis by auto
qed

end
