(* ===== verification/Allocation.thy ===== *)
theory Allocation
  imports Money_Split Store Python_Text
begin

text \<open>
  Cost allocation (\<open>packages/allocation\<close>): the shared-cost declarations (\<open>config.py\<close>), the
  exact splitter (\<open>_allocator.py\<close>), the three tiers (\<open>tier1.py\<close>, \<open>tier2.py\<close>, \<open>tier3.py\<close>), the
  rollup with its honesty anchor (\<open>rollup.py\<close>), the service (\<open>service.py\<close>) and the SQL
  table its lines are replaced in (\<open>store/repositories/allocation.py\<close>).

  The YAML parser is third-party: \<open>load_shared_costs\<close> takes the document it returns, with
  mapping keys as text. Every rejection of a declaration is a \<open>ValueError\<close>, as in the code.
\<close>

section \<open>Declared shared costs\<close>

record shared_cost_input =
  sc_name :: string
  sc_amount_usd :: rat
  sc_tier :: allocation_tier
  sc_allocation_key :: "string option"
  sc_is_idle_gpu :: bool
  sc_rule_version :: "string option"
  sc_sensitivity_pct :: "rat option"

definition shared_cost_check :: "shared_cost_input \<Rightarrow> shared_cost_input res" where
  "shared_cost_check i =
     (if sc_tier i = Direct then Inl ValueError
      else if sc_tier i = SharedProportional \<and> sc_allocation_key i = None then Inl ValueError
      else if sc_amount_usd i < 0 then Inl ValueError
      else Inr i)"

record shared_costs_config =
  cfg_tenant_id :: tenant_id
  cfg_inputs :: "shared_cost_input list"

definition is_tier1_only :: "shared_costs_config \<Rightarrow> bool" where
  "is_tier1_only c \<longleftrightarrow> length (cfg_inputs c) = 0"

definition inputs_for_tier :: "shared_costs_config \<Rightarrow> allocation_tier \<Rightarrow> shared_cost_input list" where
  "inputs_for_tier c t = filter (\<lambda>i. sc_tier i = t) (cfg_inputs c)"

fun allocation_tier_value :: "allocation_tier \<Rightarrow> string" where
  "allocation_tier_value Direct = ''direct''"
| "allocation_tier_value SharedProportional = ''shared_proportional''"
| "allocation_tier_value FixedOverhead = ''fixed_overhead''"

definition allocation_tier_of :: "string \<Rightarrow> allocation_tier res" where
  "allocation_tier_of s = (if s = ''direct'' then Inr Direct
     else if s = ''shared_proportional'' then Inr SharedProportional
     else if s = ''fixed_overhead'' then Inr FixedOverhead else Inl ValueError)"

text \<open>A YAML scalar as money: text or an integer (a boolean is an integer), never a float.\<close>

fun to_decimal :: "json \<Rightarrow> rat res" where
  "to_decimal (JStr s) = (case parse_decimal s of None \<Rightarrow> Inl ValueError | Some d \<Rightarrow> Inr d)"
| "to_decimal (JInt i) = Inr (of_int i)"
| "to_decimal (JBool b) = Inr (if b then 1 else 0)"
| "to_decimal _ = Inl ValueError"

text \<open>Fields of the strict model: absent fields take the default, null is allowed where optional.\<close>

fun opt_str_field :: "json option \<Rightarrow> string option res" where
  "opt_str_field None = Inr None"
| "opt_str_field (Some JNull) = Inr None"
| "opt_str_field (Some (JStr s)) = Inr (Some s)"
| "opt_str_field _ = Inl ValueError"

fun bool_field :: "json option \<Rightarrow> bool res" where
  "bool_field None = Inr False"
| "bool_field (Some (JBool b)) = Inr b"
| "bool_field _ = Inl ValueError"

fun str_field :: "json option \<Rightarrow> string res" where
  "str_field (Some (JStr s)) = Inr s"
| "str_field _ = Inl ValueError"

fun opt_decimal_field :: "json option \<Rightarrow> rat option res" where
  "opt_decimal_field None = Inr None"
| "opt_decimal_field (Some JNull) = Inr None"
| "opt_decimal_field (Some v) = res_bind (to_decimal v) (\<lambda>d. Inr (Some d))"

fun decimal_field :: "json option \<Rightarrow> rat res" where
  "decimal_field None = Inl ValueError"
| "decimal_field (Some v) = to_decimal v"

definition shared_cost_fields :: "string list" where
  "shared_cost_fields = [''name'', ''amount_usd'', ''tier'', ''allocation_key'', ''is_idle_gpu'', ''rule_version'',
     ''sensitivity_pct'']"

fun parse_input :: "json \<Rightarrow> shared_cost_input res" where
  "parse_input (JObj data) =
     res_bind (str_field (dict_get data ''tier'')) (\<lambda>tier_raw.
     res_bind (allocation_tier_of tier_raw) (\<lambda>tier.
     res_bind (decimal_field (dict_get data ''amount_usd'')) (\<lambda>amount.
     res_bind (opt_decimal_field (dict_get data ''sensitivity_pct'')) (\<lambda>sens.
     res_bind (if fst ` set data \<subseteq> set shared_cost_fields then Inr () else Inl ValueError) (\<lambda>_.
     res_bind (str_field (dict_get data ''name'')) (\<lambda>nm.
     res_bind (opt_str_field (dict_get data ''allocation_key'')) (\<lambda>key.
     res_bind (bool_field (dict_get data ''is_idle_gpu'')) (\<lambda>idle.
     res_bind (opt_str_field (dict_get data ''rule_version'')) (\<lambda>rule.
       shared_cost_check \<lparr>sc_name = nm, sc_amount_usd = amount, sc_tier = tier, sc_allocation_key = key,
         sc_is_idle_gpu = idle, sc_rule_version = rule, sc_sensitivity_pct = sens\<rparr>)))))))))"
| "parse_input _ = Inl ValueError"

text \<open>\<open>load_shared_costs\<close> on the parsed document; a blank text is the null document.\<close>

definition load_shared_costs :: "(string \<Rightarrow> json) \<Rightarrow> string \<Rightarrow> tenant_id \<Rightarrow> shared_costs_config res" where
  "load_shared_costs safe_load text tid =
     (case (if strip text = [] then JNull else safe_load text) of
        JNull \<Rightarrow> Inr \<lparr>cfg_tenant_id = tid, cfg_inputs = []\<rparr>
      | JObj body \<Rightarrow>
          (case (case dict_get body ''shared_costs'' of None \<Rightarrow> JList [] | Some v \<Rightarrow> v) of
             JList items \<Rightarrow> res_bind (res_traverse parse_input items)
               (\<lambda>inputs. Inr \<lparr>cfg_tenant_id = tid, cfg_inputs = inputs\<rparr>)
           | _ \<Rightarrow> Inl ValueError)
      | _ \<Rightarrow> Inl ValueError)"

section \<open>Splitting an amount\<close>

definition allocate_rank :: "bool \<Rightarrow> rat list \<Rightarrow> nat list" where
  "allocate_rank up remainders = sorted_by (\<lambda>i. (remainders ! i, i)) up [0..<length remainders]"

definition allocate :: "rat \<Rightarrow> (string, rat) dict \<Rightarrow> (string, rat) dict res" where
  "allocate amount weights =
     (let keys = map fst weights; ws = map snd weights in
      if keys = [] then Inr []
      else let weight_total = dsum ws in
        if weight_total = 0
        then (if amount = 0 then Inr (map (\<lambda>k. (k, 0)) keys) else Inl ValueError)
        else let exact = map (\<lambda>w. ddiv (dmul amount w) weight_total) ws in
          res_bind (quantize_all exact) (\<lambda>floored.
            Inr (zip keys (settle allocate_rank amount exact floored))))"

section \<open>Tiers\<close>

record tier1_result =
  t1_lines :: "allocated_line list"
  t1_measured_total :: rat
  t1_unmeasured_event_count :: int

definition direct_line :: "rat \<Rightarrow> allocated_line res" where
  "direct_line cost = allocated_line_check
     \<lparr>al_tier = Direct, al_label = Measured, al_amount_usd = cost, al_allocation_key = None,
      al_confidence = High, al_sensitivity_pct = None, al_rule_version = None, al_quarantined = False\<rparr>"

fun direct_loop :: "tier1_result \<Rightarrow> cost_event list \<Rightarrow> tier1_result res" where
  "direct_loop acc [] = Inr acc"
| "direct_loop acc (e # es) =
     (case ce_cost_usd e of
        None \<Rightarrow> direct_loop (acc\<lparr>t1_unmeasured_event_count := t1_unmeasured_event_count acc + 1\<rparr>) es
      | Some cost \<Rightarrow>
          res_bind (direct_line cost) (\<lambda>l.
            direct_loop (acc\<lparr>t1_measured_total := dadd (t1_measured_total acc) cost,
              t1_lines := t1_lines acc @ [l]\<rparr>) es))"

definition direct_lines :: "cost_event list \<Rightarrow> tier1_result res" where
  "direct_lines events =
     direct_loop \<lparr>t1_lines = [], t1_measured_total = 0, t1_unmeasured_event_count = 0\<rparr> events"

definition tier2_lines :: "shared_cost_input \<Rightarrow> (string, rat) dict \<Rightarrow> allocated_line list res" where
  "tier2_lines shared weights =
     (if sc_allocation_key shared = None then Inl ValueError
      else if weights = [] then Inr []
      else res_bind (allocate (sc_amount_usd shared) weights) (\<lambda>parts.
        res_traverse (\<lambda>amount. allocated_line_check
          \<lparr>al_tier = SharedProportional, al_label = Allocated, al_amount_usd = amount,
           al_allocation_key = sc_allocation_key shared, al_confidence = Medium,
           al_sensitivity_pct = sc_sensitivity_pct shared, al_rule_version = sc_rule_version shared,
           al_quarantined = False\<rparr>) (map snd parts)))"

record tier3_result =
  t3_lines :: "allocated_line list"
  t3_fixed_overhead_in_unit_usd :: rat
  t3_quarantined_idle_usd :: rat

fun tier3_loop :: "tier3_result \<Rightarrow> shared_cost_input list \<Rightarrow> tier3_result res" where
  "tier3_loop acc [] = Inr acc"
| "tier3_loop acc (s # ss) =
     res_bind (allocated_line_check
       \<lparr>al_tier = FixedOverhead, al_label = Allocated, al_amount_usd = sc_amount_usd s, al_allocation_key = None,
        al_confidence = Low, al_sensitivity_pct = sc_sensitivity_pct s, al_rule_version = sc_rule_version s,
        al_quarantined = True\<rparr>) (\<lambda>l.
     let acc' = acc\<lparr>t3_lines := t3_lines acc @ [l]\<rparr> in
     tier3_loop
       (if sc_is_idle_gpu s
        then acc'\<lparr>t3_quarantined_idle_usd := dadd (t3_quarantined_idle_usd acc') (sc_amount_usd s)\<rparr>
        else acc'\<lparr>t3_fixed_overhead_in_unit_usd := dadd (t3_fixed_overhead_in_unit_usd acc') (sc_amount_usd s)\<rparr>) ss)"

definition tier3_lines :: "shared_cost_input list \<Rightarrow> tier3_result res" where
  "tier3_lines inputs =
     tier3_loop \<lparr>t3_lines = [], t3_fixed_overhead_in_unit_usd = 0, t3_quarantined_idle_usd = 0\<rparr> inputs"

section \<open>Rollup\<close>

fun label_to_tier :: "confidence_label \<Rightarrow> binding_tier" where
  "label_to_tier High = Exact"
| "label_to_tier Medium = Candidate"
| "label_to_tier Low = Likely"
| "label_to_tier Advisory = Likely"

definition lines_confidence :: "allocated_line list \<Rightarrow> rollup_confidence res" where
  "lines_confidence lines =
     (if lines = [] then rollup_confidence_new Exact [(Exact, 1)]
      else propagate (map (\<lambda>l. label_to_tier (al_confidence l)) lines))"

definition build_rollup ::
  "tenant_id \<Rightarrow> run_id \<Rightarrow> tier1_result \<Rightarrow> allocated_line list \<Rightarrow> tier3_result \<Rightarrow> rat \<Rightarrow> allocated_rollup res" where
  "build_rollup tid rid tier1 tier2 tier3 true_cost =
     (let lines = t1_lines tier1 @ tier2 @ t3_lines tier3;
          measured = t1_measured_total tier1;
          allocated = dadd (dsum (map al_amount_usd tier2)) (t3_fixed_overhead_in_unit_usd tier3);
          accounted = dadd measured allocated in
      res_bind
        (if true_cost \<le> 0 then Inr 0
         else let unallocated = max (dsub true_cost accounted) 0 in
           res_bind (quantize 10 (dmul (ddiv unallocated true_cost) 100)) (\<lambda>p. Inr (dec p)))
        (\<lambda>pct.
      res_bind (lines_confidence lines) (\<lambda>conf.
        Inr \<lparr>arl_tenant_id = tid, arl_run_id = rid, arl_lines = lines, arl_pct_unallocated = pct,
             arl_confidence = conf,
             arl_provenance_breakdown = \<lparr>pb_reconciled_usd = measured, pb_provisional_usd = 0,
               pb_estimate_only_usd = allocated\<rparr>\<rparr>)))"

section \<open>Service\<close>

definition allocate_run ::
  "tenant_id \<Rightarrow> run_id \<Rightarrow> cost_event list \<Rightarrow> shared_costs_config \<Rightarrow> (string, rat) dict \<Rightarrow> rat \<Rightarrow> allocated_rollup res" where
  "allocate_run tid rid events config weights true_cost =
     res_bind (direct_lines events) (\<lambda>tier1.
     res_bind (res_traverse (\<lambda>s. tier2_lines s weights) (inputs_for_tier config SharedProportional)) (\<lambda>t2.
     res_bind (tier3_lines (inputs_for_tier config FixedOverhead)) (\<lambda>tier3.
       build_rollup tid rid tier1 (concat t2) tier3 true_cost)))"

section \<open>Stored lines\<close>

fun confidence_value :: "confidence_label \<Rightarrow> string" where
  "confidence_value High = ''high''"
| "confidence_value Medium = ''medium''"
| "confidence_value Low = ''low''"
| "confidence_value Advisory = ''advisory''"

definition confidence_of :: "string \<Rightarrow> confidence_label res" where
  "confidence_of s = (if s = ''high'' then Inr High else if s = ''medium'' then Inr Medium
     else if s = ''low'' then Inr Low else if s = ''advisory'' then Inr Advisory else Inl ValueError)"

definition line_row_id :: "run_id \<Rightarrow> nat \<Rightarrow> string" where
  "line_row_id rid n = rid @ ''#'' @ show_nat n"

definition allocation_line_to_row :: "tenant_id \<Rightarrow> run_id \<Rightarrow> nat \<Rightarrow> allocated_line \<Rightarrow> row" where
  "allocation_line_to_row tid rid n l =
    [(''id'', CStr (line_row_id rid n)),
     (''tenant_id'', CUuid tid),
     (''run_id'', CStr rid),
     (''ordinal'', CInt (int n)),
     (''tier'', CStr (allocation_tier_value (al_tier l))),
     (''label'', CStr (provenance_value (al_label l))),
     (''amount_usd'', CDec (al_amount_usd l)),
     (''allocation_key'', opt_cell CStr (al_allocation_key l)),
     (''confidence'', CStr (confidence_value (al_confidence l))),
     (''sensitivity_pct'', opt_cell CDec (al_sensitivity_pct l)),
     (''rule_version'', opt_cell CStr (al_rule_version l)),
     (''quarantined'', CBool (al_quarantined l))]"

definition row_to_allocation_line :: "row \<Rightarrow> allocated_line res" where
  "row_to_allocation_line r =
     res_bind (res_bind (res_bind (row_at r ''tier'') as_str) allocation_tier_of) (\<lambda>tier.
     res_bind (res_bind (res_bind (row_at r ''label'') as_str) provenance_of) (\<lambda>label.
     res_bind (res_bind (row_at r ''amount_usd'') as_decimal) (\<lambda>amount.
     res_bind (res_bind (row_at r ''allocation_key'') as_opt_str) (\<lambda>key.
     res_bind (res_bind (res_bind (row_at r ''confidence'') as_str) confidence_of) (\<lambda>conf.
     res_bind (res_bind (row_at r ''sensitivity_pct'') as_opt_decimal) (\<lambda>sens.
     res_bind (res_bind (row_at r ''rule_version'') as_opt_str) (\<lambda>rule.
     res_bind (res_bind (row_at r ''quarantined'') as_bool) (\<lambda>qu.
       allocated_line_check \<lparr>al_tier = tier, al_label = label, al_amount_usd = amount, al_allocation_key = key,
         al_confidence = conf, al_sensitivity_pct = sens, al_rule_version = rule, al_quarantined = qu\<rparr>))))))))"

definition line_rows :: "tenant_id \<Rightarrow> run_id \<Rightarrow> allocated_line list \<Rightarrow> table" where
  "line_rows tid rid lines = map (\<lambda>(n, l). allocation_line_to_row tid rid n l) (enumerate 0 lines)"

text \<open>Delete the run's rows, then insert the new ones, in one transaction.\<close>

definition upsert_lines :: "table \<Rightarrow> tenant_id \<Rightarrow> run_id \<Rightarrow> allocated_line list \<Rightarrow> table res" where
  "upsert_lines tbl tid rid lines =
     commit [tenant_pk]
       (filter (\<lambda>r. \<not> (row_get r ''tenant_id'' = CUuid tid \<and> row_get r ''run_id'' = CStr rid)) tbl
        @ line_rows tid rid lines)"

fun cell_int :: "cell \<Rightarrow> int" where
  "cell_int (CInt i) = i"
| "cell_int _ = 0"

definition lines_list_for_run :: "table \<Rightarrow> tenant_id \<Rightarrow> run_id \<Rightarrow> allocated_line list res" where
  "lines_list_for_run tbl tid rid =
     res_traverse row_to_allocation_line
       (sort_key (\<lambda>r. cell_int (row_get r ''ordinal''))
         (filter (\<lambda>r. row_get r ''run_id'' = CStr rid) (require_tenant tid tbl)))"

definition persist_rollup :: "table \<Rightarrow> tenant_id \<Rightarrow> run_id \<Rightarrow> allocated_rollup \<Rightarrow> table res" where
  "persist_rollup tbl tid rid rollup = upsert_lines tbl tid rid (arl_lines rollup)"

section \<open>Exact split\<close>

interpretation allocate_split: largest_remainder allocate_rank
  by unfold_locales (simp_all add: allocate_rank_def atLeast0LessThan)

definition allocate_domain :: "rat \<Rightarrow> (string, rat) dict \<Rightarrow> bool" where
  "allocate_domain amount weights \<longleftrightarrow>
     weights \<noteq> [] \<and> length weights \<le> 10 ^ 5 \<and> (\<forall>w \<in> set (map snd weights). 0 \<le> w) \<and>
     0 < dsum (map snd weights) \<and> quantized 10 amount \<and> 0 \<le> amount \<and> amount \<le> 10 ^ 11"

lemma allocate_sum:
  assumes "allocate_domain amount weights"
  shows "\<exists>parts. allocate amount weights = Inr parts \<and> map fst parts = map fst weights \<and>
     sum_list (map snd parts) = amount"
proof -
  note d = assms [unfolded allocate_domain_def]
  let ?ws = "map snd weights"
  let ?ex = "map (\<lambda>w. ddiv (dmul amount w) (dsum ?ws)) ?ws"
  have "\<bar>x\<bar> \<le> 8 * 10 ^ 11" if x: "x \<in> set ?ex" for x
  proof -
    obtain w where w: "w \<in> set ?ws" "x = ddiv (dmul amount w) (dsum ?ws)" using x by auto
    have nn: "\<And>v. v \<in> set ?ws \<Longrightarrow> 0 \<le> v" using d by blast
    have "\<bar>x\<bar> \<le> 8 * amount" unfolding w(2) using nn w(1) d by (intro share_bound(2)) auto
    then show ?thesis using d by linarith
  qed
  then obtain fl where fl: "quantize_all ?ex = Inr fl" "(\<Sum>x\<leftarrow>fl. \<bar>x\<bar>) \<le> 9 * 10 ^ 16"
    using quantize_all_total [of ?ex] d by auto
  have s: "sum_list (settle allocate_rank amount ?ex fl) = amount \<and> length (settle allocate_rank amount ?ex fl) = length ?ex"
    using fl d by (intro allocate_split.settle_sum) auto
  then have "allocate amount weights = Inr (zip (map fst weights) (settle allocate_rank amount ?ex fl))"
    using fl(1) d by (simp add: allocate_def Let_def)
  with s show ?thesis by simp
qed

section \<open>Shape of the lines\<close>

lemma direct_loop_Inr:
  assumes "direct_loop acc es = Inr r"
  shows "\<exists>new. t1_lines r = t1_lines acc @ new \<and>
     map al_amount_usd new = map the (filter (\<lambda>c. c \<noteq> None) (map ce_cost_usd es)) \<and>
     (\<forall>l \<in> set new. allocated_line_ok l \<and> al_tier l = Direct \<and> al_confidence l = High) \<and>
     t1_measured_total r = foldl dadd (t1_measured_total acc) (map al_amount_usd new) \<and>
     t1_unmeasured_event_count r = t1_unmeasured_event_count acc + int (length (filter (\<lambda>e. ce_cost_usd e = None) es))"
  using assms
proof (induction es arbitrary: acc)
  case (Cons e es)
  show ?case
  proof (cases "ce_cost_usd e")
    case None
    with Cons.prems Cons.IH [of "acc\<lparr>t1_unmeasured_event_count := t1_unmeasured_event_count acc + 1\<rparr>"]
    show ?thesis by auto
  next
    case (Some c)
    then obtain l where l: "direct_line c = Inr l" using Cons.prems by auto
    let ?acc = "acc\<lparr>t1_measured_total := dadd (t1_measured_total acc) c, t1_lines := t1_lines acc @ [l]\<rparr>"
    have "direct_loop ?acc es = Inr r" using Cons.prems Some l by simp
    then obtain new where new: "t1_lines r = t1_lines acc @ [l] @ new"
      "map al_amount_usd new = map the (filter (\<lambda>c. c \<noteq> None) (map ce_cost_usd es))"
      "\<forall>l \<in> set new. allocated_line_ok l \<and> al_tier l = Direct \<and> al_confidence l = High"
      "t1_measured_total r = foldl dadd (dadd (t1_measured_total acc) c) (map al_amount_usd new)"
      "t1_unmeasured_event_count r = t1_unmeasured_event_count acc + int (length (filter (\<lambda>e. ce_cost_usd e = None) es))"
      using Cons.IH [of ?acc] by auto
    have lf: "allocated_line_ok l" "al_tier l = Direct" "al_confidence l = High" "al_amount_usd l = c"
      using l by (auto simp: direct_line_def allocated_line_check_Inr_iff)
    show ?thesis by (rule exI [of _ "l # new"]) (use new lf Some in auto)
  qed
qed (auto intro: exI [of _ "[]"])

lemma direct_loop_total: "\<exists>r. direct_loop acc es = Inr r"
  by (induction es arbitrary: acc)
    (auto simp: direct_line_def allocated_line_check_def split: option.splits)

lemma tier2_lines_Inr:
  assumes "tier2_lines s ws = Inr ls" "l \<in> set ls"
  shows "allocated_line_ok l \<and> al_tier l = SharedProportional \<and> al_confidence l = Medium"
proof (cases "ws = []")
  case False
  then obtain parts :: "(string \<times> rat) list" where "res_traverse (\<lambda>amount. allocated_line_check
          \<lparr>al_tier = SharedProportional, al_label = Allocated, al_amount_usd = amount,
           al_allocation_key = sc_allocation_key s, al_confidence = Medium,
           al_sensitivity_pct = sc_sensitivity_pct s, al_rule_version = sc_rule_version s,
           al_quarantined = False\<rparr>) (map snd parts) = Inr ls"
    using assms(1) by (auto simp: tier2_lines_def split: if_splits)
  then show ?thesis using assms(2)
    by (auto simp: res_traverse_Inr_iff list_all2_conv_all_nth in_set_conv_nth allocated_line_check_Inr_iff)
qed (use assms in \<open>auto simp: tier2_lines_def split: if_splits\<close>)

text \<open>Tier 3: the unit overhead depends on the non-idle inputs only.\<close>

definition in_unit_total :: "rat \<Rightarrow> shared_cost_input list \<Rightarrow> rat" where
  "in_unit_total a ss = foldl dadd a (map sc_amount_usd (filter (\<lambda>s. \<not> sc_is_idle_gpu s) ss))"

lemma tier3_loop_Inr:
  "\<exists>r. tier3_loop acc ss = Inr r \<and> t3_fixed_overhead_in_unit_usd r = in_unit_total (t3_fixed_overhead_in_unit_usd acc) ss \<and>
     (\<exists>new. t3_lines r = t3_lines acc @ new \<and> map al_amount_usd new = map sc_amount_usd ss \<and>
        (\<forall>l \<in> set new. allocated_line_ok l \<and> al_tier l = FixedOverhead \<and> al_confidence l = Low))"
proof (induction ss arbitrary: acc)
  case (Cons s ss)
  let ?l = "\<lparr>al_tier = FixedOverhead, al_label = Allocated, al_amount_usd = sc_amount_usd s, al_allocation_key = None,
        al_confidence = Low, al_sensitivity_pct = sc_sensitivity_pct s, al_rule_version = sc_rule_version s,
        al_quarantined = True\<rparr>"
  have ok: "allocated_line_ok ?l" by (simp add: allocated_line_ok_def)
  let ?a = "acc\<lparr>t3_lines := t3_lines acc @ [?l]\<rparr>"
  let ?acc = "if sc_is_idle_gpu s
        then ?a\<lparr>t3_quarantined_idle_usd := dadd (t3_quarantined_idle_usd ?a) (sc_amount_usd s)\<rparr>
        else ?a\<lparr>t3_fixed_overhead_in_unit_usd := dadd (t3_fixed_overhead_in_unit_usd ?a) (sc_amount_usd s)\<rparr>"
  have step: "tier3_loop acc (s # ss) = tier3_loop ?acc ss"
    using ok by (simp add: allocated_line_check_Inr_iff [THEN iffD2] Let_def)
  obtain r new where r: "tier3_loop ?acc ss = Inr r"
    "t3_fixed_overhead_in_unit_usd r = in_unit_total (t3_fixed_overhead_in_unit_usd ?acc) ss"
    "t3_lines r = t3_lines ?acc @ new" "map al_amount_usd new = map sc_amount_usd ss"
    "\<forall>l \<in> set new. allocated_line_ok l \<and> al_tier l = FixedOverhead \<and> al_confidence l = Low"
    using Cons.IH [of ?acc] by blast
  have "t3_lines ?acc = t3_lines acc @ [?l]" by simp
  moreover have "in_unit_total (t3_fixed_overhead_in_unit_usd ?acc) ss = in_unit_total (t3_fixed_overhead_in_unit_usd acc) (s # ss)"
    by (simp add: in_unit_total_def)
  ultimately show ?case unfolding step using r ok
    by (intro exI [of _ r] conjI exI [of _ "?l # new"]) auto
qed (simp add: in_unit_total_def)

lemma build_rollup_Inr:
  assumes "build_rollup tid rid t1 t2 t3 tc = Inr r"
  shows "arl_lines r = t1_lines t1 @ t2 @ t3_lines t3" "lines_confidence (arl_lines r) = Inr (arl_confidence r)"
    "pb_reconciled_usd (arl_provenance_breakdown r) = t1_measured_total t1"
  using assms by (auto simp: build_rollup_def Let_def)

lemma allocate_run_Inr:
  assumes "allocate_run tid rid events config weights tc = Inr r"
  obtains t1 t2 t3 where "direct_lines events = Inr t1"
    "res_traverse (\<lambda>s. tier2_lines s weights) (inputs_for_tier config SharedProportional) = Inr t2"
    "tier3_lines (inputs_for_tier config FixedOverhead) = Inr t3" "build_rollup tid rid t1 (concat t2) t3 tc = Inr r"
  using assms by (auto simp: allocate_run_def)

lemma tier2_all_lines:
  assumes "res_traverse (\<lambda>s. tier2_lines s weights) ss = Inr t2" "l \<in> set (concat t2)"
  shows "allocated_line_ok l \<and> al_tier l = SharedProportional \<and> al_confidence l = Medium"
proof -
  obtain ls where ls: "ls \<in> set t2" "l \<in> set ls" using assms(2) by auto
  then obtain i where i: "i < length t2" "t2 ! i = ls" by (auto simp: in_set_conv_nth)
  with res_traverse_nth [OF assms(1), of i] res_traverse_length [OF assms(1)]
  have "tier2_lines (ss ! i) weights = Inr ls" by simp
  from tier2_lines_Inr [OF this ls(2)] show ?thesis .
qed

definition lines_headline :: "allocated_line list \<Rightarrow> binding_tier" where
  "lines_headline ls = (if \<exists>l \<in> set ls. al_tier l = FixedOverhead then Likely
     else if \<exists>l \<in> set ls. al_tier l = SharedProportional then Candidate else Exact)"

lemma lines_headline_Min:
  assumes "ls \<noteq> []"
    and "\<forall>l \<in> set ls. al_confidence l = (case al_tier l of Direct \<Rightarrow> High | SharedProportional \<Rightarrow> Medium | FixedOverhead \<Rightarrow> Low)"
  shows "Min (set (map (\<lambda>l. label_to_tier (al_confidence l)) ls)) = lines_headline ls"
proof (rule Min_eqI)
  let ?ts = "map (\<lambda>l. label_to_tier (al_confidence l)) ls"
  have t: "label_to_tier (al_confidence l) =
      (case al_tier l of Direct \<Rightarrow> Exact | SharedProportional \<Rightarrow> Candidate | FixedOverhead \<Rightarrow> Likely)"
    if "l \<in> set ls" for l using assms(2) that by (cases "al_tier l") auto
  show "lines_headline ls \<le> y" if y: "y \<in> set ?ts" for y
  proof -
    obtain l where l: "l \<in> set ls" "y = label_to_tier (al_confidence l)" using y by auto
    then show ?thesis using t [OF l(1)] by (cases "al_tier l") (auto simp: lines_headline_def tier_order_defs)
  qed
  obtain l0 where "l0 \<in> set ls \<and> lines_headline ls = label_to_tier (al_confidence l0)"
  proof (cases "\<exists>l \<in> set ls. al_tier l = FixedOverhead")
    case True
    then obtain l where l: "l \<in> set ls" "al_tier l = FixedOverhead" by blast
    show ?thesis by (rule that [of l]) (use l t [of l] True in \<open>simp add: lines_headline_def\<close>)
  next
    case noF: False
    show ?thesis
    proof (cases "\<exists>l \<in> set ls. al_tier l = SharedProportional")
      case True
      then obtain l where l: "l \<in> set ls" "al_tier l = SharedProportional" by blast
      show ?thesis by (rule that [of l]) (use l t [of l] True noF in \<open>simp add: lines_headline_def\<close>)
    next
      case False
      have h: "hd ls \<in> set ls" using assms(1) by simp
      with noF False have d: "al_tier (hd ls) = Direct" by (metis allocation_tier.exhaust)
      show ?thesis by (rule that [of "hd ls"]) (use h d t [OF h] noF False in \<open>simp add: lines_headline_def\<close>)
    qed
  qed
  then show "lines_headline ls \<in> set ?ts" by auto
qed simp

lemma lines_confidence_Inr:
  assumes "lines_confidence ls = Inr c"
    and "\<forall>l \<in> set ls. al_confidence l = (case al_tier l of Direct \<Rightarrow> High | SharedProportional \<Rightarrow> Medium | FixedOverhead \<Rightarrow> Low)"
  shows "rollup_confidence_ok c \<and> rc_minimum_tier c = lines_headline ls"
proof (cases "ls = []")
  case True
  then show ?thesis using assms(1)
    by (auto simp: lines_confidence_def rollup_confidence_new_Inr_iff lines_headline_def)
next
  case False
  let ?ts = "map (\<lambda>l. label_to_tier (al_confidence l)) ls"
  have p: "propagate ?ts = Inr c" using assms(1) False by (simp add: lines_confidence_def)
  then have "rollup_confidence_ok c"
    by (auto simp: propagate_def rollup_confidence_new_Inr_iff split: if_splits)
  moreover have "rc_minimum_tier c = Min (set ?ts)" using p propagate_nonempty [of ?ts] False by auto
  ultimately show ?thesis using lines_headline_Min [OF False assms(2)] by simp
qed

lemma allocate_run_lines:
  assumes "allocate_run tid rid events config weights tc = Inr r" "l \<in> set (arl_lines r)"
  shows "allocated_line_ok l \<and>
     al_confidence l = (case al_tier l of Direct \<Rightarrow> High | SharedProportional \<Rightarrow> Medium | FixedOverhead \<Rightarrow> Low)"
proof -
  obtain t1 t2 t3 where t: "direct_lines events = Inr t1"
    "res_traverse (\<lambda>s. tier2_lines s weights) (inputs_for_tier config SharedProportional) = Inr t2"
    "tier3_lines (inputs_for_tier config FixedOverhead) = Inr t3" "build_rollup tid rid t1 (concat t2) t3 tc = Inr r"
    by (rule allocate_run_Inr [OF assms(1)])
  consider "l \<in> set (t1_lines t1)" | "l \<in> set (concat t2)" | "l \<in> set (t3_lines t3)"
    using assms(2) build_rollup_Inr(1) [OF t(4)] by auto
  then show ?thesis
  proof cases
    case 1
    with direct_loop_Inr [OF t(1) [unfolded direct_lines_def]] show ?thesis by auto
  next
    case 2
    from tier2_all_lines [OF t(2) 2] show ?thesis by simp
  next
    case 3
    let ?z = "\<lparr>t3_lines = [], t3_fixed_overhead_in_unit_usd = 0, t3_quarantined_idle_usd = 0\<rparr>"
    obtain x where "tier3_loop ?z (inputs_for_tier config FixedOverhead) = Inr x"
      "\<exists>new. t3_lines x = t3_lines ?z @ new \<and>
        (\<forall>l \<in> set new. allocated_line_ok l \<and> al_tier l = FixedOverhead \<and> al_confidence l = Low)"
      using tier3_loop_Inr [of ?z "inputs_for_tier config FixedOverhead"] by blast
    with t(3) 3 show ?thesis by (auto simp: tier3_lines_def)
  qed
qed

text \<open>The unit figures of a rollup, as a function of what they are computed from.\<close>

definition unallocated_pct :: "rat \<Rightarrow> rat \<Rightarrow> rat res" where
  "unallocated_pct accounted true_cost =
     (if true_cost \<le> 0 then Inr 0
      else res_bind (quantize 10 (dmul (ddiv (max (dsub true_cost accounted) 0) true_cost) 100)) (\<lambda>p. Inr (dec p)))"

lemma build_rollup_pct:
  assumes "build_rollup tid rid t1 t2 t3 tc = Inr r"
  shows "unallocated_pct (dadd (t1_measured_total t1)
      (dadd (dsum (map al_amount_usd t2)) (t3_fixed_overhead_in_unit_usd t3))) tc = Inr (arl_pct_unallocated r)"
    "pb_estimate_only_usd (arl_provenance_breakdown r) =
       dadd (dsum (map al_amount_usd t2)) (t3_fixed_overhead_in_unit_usd t3)"
  using assms by (auto simp: build_rollup_def unallocated_pct_def Let_def split: if_splits)

lemma quantize_mono: "quantize k x = Inr y \<Longrightarrow> a \<le> x \<Longrightarrow> quantized k a \<Longrightarrow> a \<le> y"
  and quantize_mono_le: "quantize k x = Inr y \<Longrightarrow> x \<le> a \<Longrightarrow> quantized k a \<Longrightarrow> y \<le> a"
proof -
  show "a \<le> y" if "quantize k x = Inr y" "a \<le> x" and qa: "quantized k a"
  proof -
    obtain n where n: "a = of_int n / 10 ^ k" using qa by (rule quantizedE)
    have "of_int n \<le> x * 10 ^ k" using that(2) n by (simp add: divide_le_eq)
    then have "n \<le> half_even (x * 10 ^ k)" by (rule half_even_ge)
    then show ?thesis using that(1) n by (auto simp: quantize_def Let_def divide_right_mono split: if_splits)
  qed
  show "y \<le> a" if "quantize k x = Inr y" "x \<le> a" and qa: "quantized k a"
  proof -
    obtain n where n: "a = of_int n / 10 ^ k" using qa by (rule quantizedE)
    have "x * 10 ^ k \<le> of_int n" using that(2) n by (simp add: le_divide_eq)
    then have "half_even (x * 10 ^ k) \<le> n" by (rule half_even_le)
    then show ?thesis using that(1) n by (auto simp: quantize_def Let_def divide_right_mono split: if_splits)
  qed
qed

lemma unallocated_pct_bounds:
  assumes "unallocated_pct acc tc = Inr p" "0 \<le> acc" "dec_exact tc"
  shows "0 \<le> p \<and> p \<le> 100 \<and> (tc \<le> acc \<longrightarrow> p = 0)"
proof (cases "tc \<le> 0")
  case False
  let ?u = "max (dsub tc acc) 0"
  have "dec (tc - acc) \<le> dec tc" using assms(2) by (intro dec.rnd_mono) simp
  then have u: "0 \<le> ?u" "?u \<le> tc" using assms(3) False by (simp_all add: dsub_def dec.rnd_exact)
  then have "dec (?u / tc) \<le> dec 1" "0 \<le> dec (?u / tc)"
    using False by (auto intro!: dec.rnd_mono dec.rnd_nonneg)
  moreover have d: "dec 1 = 1" "dec 100 = 100"
    using dec_exact_int [of 1] dec_exact_int [of 100] by (simp_all add: dec.rnd_exact)
  ultimately have v: "0 \<le> dec (?u / tc) * 100" "dec (?u / tc) * 100 \<le> 100" by simp_all
  then have w: "0 \<le> dmul (ddiv ?u tc) 100" "dmul (ddiv ?u tc) 100 \<le> 100"
    using dec.rnd_mono [OF v(2)] d by (auto simp: dmul_def ddiv_def intro!: dec.rnd_nonneg)
  obtain q where q: "quantize 10 (dmul (ddiv ?u tc) 100) = Inr q" "p = dec q"
    using assms(1) False by (auto simp: unallocated_pct_def)
  have q100: "quantized 10 100" unfolding quantized_def by (rule exI [of _ "10 ^ 12"]) simp
  have "0 \<le> q" "q \<le> 100" using quantize_mono [OF q(1) w(1)] quantize_mono_le [OF q(1) w(2) q100] by auto
  then have "0 \<le> p" "p \<le> 100" using dec.rnd_nonneg [of q] dec.rnd_mono [of q 100] d q(2) by auto
  moreover have "p = 0" if "tc \<le> acc"
  proof -
    have "?u = 0" using that dec.rnd_nonpos [of "tc - acc"] by (simp add: dsub_def)
    then have "dmul (ddiv ?u tc) 100 = 0" by (simp add: dmul_def ddiv_def)
    then show ?thesis using q by (simp add: quantize_def)
  qed
  ultimately show ?thesis by blast
qed (use assms in \<open>auto simp: unallocated_pct_def\<close>)

lemma dsum_nonneg: "(\<And>x. x \<in> set xs \<Longrightarrow> 0 \<le> x) \<Longrightarrow> 0 \<le> a \<Longrightarrow> 0 \<le> foldl dadd a xs"
  using dec.rnd_foldl_nonneg [of a xs] by (simp add: dadd_def [abs_def])

section \<open>Stored lines are replaced as a whole\<close>

lemma line_row_id_inj: "line_row_id r n = line_row_id r' n' \<longleftrightarrow> r = r' \<and> n = n'"
proof
  assume eq: "line_row_id r n = line_row_id r' n'"
  have tw: "takeWhile (\<lambda>c. c \<noteq> CHR ''#'') (rev (line_row_id s m)) = rev (show_nat m)" for s m
  proof -
    have "\<And>c. c \<in> set (rev (show_nat m)) \<Longrightarrow> c \<noteq> CHR ''#''" using show_nat_no_hash [of m] by auto
    then have "takeWhile (\<lambda>c. c \<noteq> CHR ''#'') (rev (show_nat m) @ CHR ''#'' # rev s) =
        rev (show_nat m) @ takeWhile (\<lambda>c. c \<noteq> CHR ''#'') (CHR ''#'' # rev s)"
      by (rule takeWhile_append2)
    then show ?thesis by (simp add: line_row_id_def)
  qed
  from eq have "rev (show_nat n) = rev (show_nat n')" using tw by metis
  then have "n = n'" by (simp add: show_nat_inj)
  with eq show "r = r' \<and> n = n'" by (simp add: line_row_id_def)
qed simp

lemma allocation_enum_roundtrips [row_simps]:
  "allocation_tier_of (allocation_tier_value t) = Inr t" "confidence_of (confidence_value c) = Inr c"
  by (cases t; simp add: allocation_tier_of_def) (cases c; simp add: confidence_of_def)

lemma line_row_get [row_simps]:
  "row_get (allocation_line_to_row t r n l) ''id'' = CStr (line_row_id r n)"
  "row_get (allocation_line_to_row t r n l) ''tenant_id'' = CUuid t"
  "row_get (allocation_line_to_row t r n l) ''run_id'' = CStr r"
  "row_get (allocation_line_to_row t r n l) ''ordinal'' = CInt (int n)"
  by (simp_all add: row_get_def allocation_line_to_row_def)

lemma row_to_allocation_line_to_row [row_simps]:
  "allocated_line_ok l \<Longrightarrow> row_to_allocation_line (allocation_line_to_row t r n l) = Inr l"
  by (cases l) (simp add: row_to_allocation_line_def allocation_line_to_row_def row_at_def row_simps
      allocated_line_check_Inr_iff)

type_synonym stored_line = "tenant_id \<times> run_id \<times> nat \<times> allocated_line"

definition stored_rows :: "stored_line list \<Rightarrow> table" where
  "stored_rows ms = map (\<lambda>(t, r, n, l). allocation_line_to_row t r n l) ms"

definition line_table_ok :: "table \<Rightarrow> bool" where
  "line_table_ok tbl \<longleftrightarrow> (\<exists>ms. tbl = stored_rows ms \<and> distinct (map (\<lambda>(t, r, n, l). (t, r, n)) ms) \<and>
     (\<forall>(t, r, n, l) \<in> set ms. allocated_line_ok l))"

definition new_lines :: "tenant_id \<Rightarrow> run_id \<Rightarrow> allocated_line list \<Rightarrow> stored_line list" where
  "new_lines tid rid lines = map (\<lambda>(n, l). (tid, rid, n, l)) (enumerate 0 lines)"

lemma line_rows_stored: "line_rows tid rid lines = stored_rows (new_lines tid rid lines)"
  by (simp add: line_rows_def stored_rows_def new_lines_def case_prod_unfold o_def)

lemma stored_rows_unique:
  "unique_on tenant_pk (stored_rows ms) \<longleftrightarrow> distinct (map (\<lambda>(t, r, n, l). (t, r, n)) ms)"
proof (induction ms)
  case (Cons m ms)
  obtain t r n l where m: "m = (t, r, n, l)" by (cases m) auto
  have "(\<forall>row \<in> set (stored_rows ms). \<not> agree tenant_pk (allocation_line_to_row t r n l) row) \<longleftrightarrow>
      (\<forall>(t', r', n', l') \<in> set ms. (t, r, n) \<noteq> (t', r', n'))"
    by (auto simp: stored_rows_def agree_def tenant_pk_def row_simps line_row_id_inj)
  also have "\<dots> \<longleftrightarrow> (t, r, n) \<notin> set (map (\<lambda>(t, r, n, l). (t, r, n)) ms)" by force
  finally show ?case using Cons by (simp add: m stored_rows_def)
qed (simp add: stored_rows_def)

lemma stored_rows_filter:
  "filter (\<lambda>row. P (row_get row ''tenant_id'') (row_get row ''run_id'')) (stored_rows ms) =
     stored_rows (filter (\<lambda>(t, r, n, l). P (CUuid t) (CStr r)) ms)"
  by (induction ms) (auto simp: stored_rows_def row_simps)

lemma lines_list_stored:
  assumes "\<forall>(t, r, n, l) \<in> set ms. allocated_line_ok l"
  shows "lines_list_for_run (stored_rows ms) tid rid =
     Inr (map (\<lambda>(t, r, n, l). l) (sort_key (\<lambda>(t, r, n, l). int n) (filter (\<lambda>(t, r, n, l). t = tid \<and> r = rid) ms)))"
proof -
  have f: "filter (\<lambda>r. row_get r ''run_id'' = CStr rid) (require_tenant tid (stored_rows ms)) =
      stored_rows (filter (\<lambda>(t, r, n, l). t = tid \<and> r = rid) ms)"
    using stored_rows_filter [of "\<lambda>a b. a = CUuid tid \<and> b = CStr rid" ms]
    by (simp add: require_tenant_def conj_commute)
  have ins: "insort_key (\<lambda>r. cell_int (row_get r ''ordinal'')) (allocation_line_to_row t r n l) (stored_rows xs) =
      stored_rows (insort_key (\<lambda>(t, r, n, l). int n) (t, r, n, l) xs)" for t r n l xs
    by (induction xs) (auto simp: stored_rows_def row_simps)
  have s: "sort_key (\<lambda>r. cell_int (row_get r ''ordinal'')) (stored_rows xs) =
      stored_rows (sort_key (\<lambda>(t, r, n, l). int n) xs)" for xs
  proof (induction xs)
    case (Cons x xs)
    obtain t r n l where x: "x = (t, r, n, l)" by (cases x) auto
    show ?case using ins [of t r n l] Cons by (simp add: x stored_rows_def)
  qed (simp add: stored_rows_def)
  have tr: "res_traverse row_to_allocation_line (stored_rows xs) = Inr (map (\<lambda>(t, r, n, l). l) xs)"
    if "\<forall>(t, r, n, l) \<in> set xs. allocated_line_ok l" for xs
    using that by (induction xs) (auto simp: stored_rows_def row_simps)
  show ?thesis unfolding lines_list_for_run_def f s using assms by (intro tr) auto
qed

lemma new_lines_facts:
  "filter (\<lambda>(t, r, n, l). t = tid \<and> r = rid) (new_lines tid rid lines) = new_lines tid rid lines"
  "sort_key (\<lambda>(t, r, n, l). int n) (new_lines tid rid lines) = new_lines tid rid lines"
  "map (\<lambda>(t, r, n, l). l) (new_lines tid rid lines) = lines"
  "distinct (map (\<lambda>(t, r, n, l). (t, r, n)) (new_lines tid rid lines))"
proof -
  show "filter (\<lambda>(t, r, n, l). t = tid \<and> r = rid) (new_lines tid rid lines) = new_lines tid rid lines"
    by (auto simp: new_lines_def filter_id_conv)
  have k: "map (\<lambda>(t, r, n, l). int n) (new_lines tid rid lines) = map int [0..<length lines]"
  proof -
    have "map (\<lambda>(t, r, n, l). int n) (new_lines tid rid lines) = map int (map fst (enumerate 0 lines))"
      unfolding new_lines_def map_map by (rule map_cong) auto
    also have "map fst (enumerate 0 lines) = [0..<length lines]" by (simp add: enumerate_eq_zip)
    finally show ?thesis .
  qed
  then have "sorted (map (\<lambda>(t, r, n, l). int n) (new_lines tid rid lines))"
    by (simp add: sorted_map sorted_wrt_map sorted_wrt_mono_rel [OF _ sorted_wrt_upt])
  then show "sort_key (\<lambda>(t, r, n, l). int n) (new_lines tid rid lines) = new_lines tid rid lines"
    by (rule sort_key_id_if_sorted)
  show "map (\<lambda>(t, r, n, l). l) (new_lines tid rid lines) = lines"
  proof -
    have "map (\<lambda>(t, r, n, l). l) (new_lines tid rid lines) = map snd (enumerate 0 lines)"
      by (simp add: new_lines_def case_prod_unfold o_def)
    then show ?thesis by simp
  qed
  show "distinct (map (\<lambda>(t, r, n, l). (t, r, n)) (new_lines tid rid lines))"
  proof -
    have "map (\<lambda>(t, r, n, l). (t, r, n)) (new_lines tid rid lines) = map (\<lambda>n. (tid, rid, n)) (map fst (enumerate 0 lines))"
      unfolding new_lines_def map_map by (rule map_cong) auto
    then show ?thesis by (simp add: enumerate_eq_zip distinct_map inj_on_def)
  qed
qed

lemma allocate_run_amounts:
  assumes "allocate_run tid rid events config weights true_cost = Inr r"
  shows "arl_tenant_id r = tid \<and> arl_run_id r = rid"
    and "map al_amount_usd (filter (\<lambda>l. al_label l = Measured) (arl_lines r)) =
       map the (filter (\<lambda>c. c \<noteq> None) (map ce_cost_usd events))"
    and "map al_amount_usd (filter (\<lambda>l. al_tier l = FixedOverhead) (arl_lines r)) =
       map sc_amount_usd (filter (\<lambda>s. sc_tier s = FixedOverhead) (cfg_inputs config))"
    and "arl_provenance_breakdown r =
      \<lparr>pb_reconciled_usd = dsum (map the (filter (\<lambda>c. c \<noteq> None) (map ce_cost_usd events))), pb_provisional_usd = 0,
       pb_estimate_only_usd = dadd (dsum (map al_amount_usd (filter (\<lambda>l. al_tier l = SharedProportional) (arl_lines r))))
         (dsum (map sc_amount_usd (filter (\<lambda>s. sc_tier s = FixedOverhead \<and> \<not> sc_is_idle_gpu s) (cfg_inputs config))))\<rparr>"
    and "unallocated_pct (dadd (pb_reconciled_usd (arl_provenance_breakdown r)) (pb_estimate_only_usd (arl_provenance_breakdown r)))
      true_cost = Inr (arl_pct_unallocated r)"
proof -
  obtain t1 t2 t3 where t: "direct_lines events = Inr t1"
    "res_traverse (\<lambda>s. tier2_lines s weights) (inputs_for_tier config SharedProportional) = Inr t2"
    "tier3_lines (inputs_for_tier config FixedOverhead) = Inr t3" "build_rollup tid rid t1 (concat t2) t3 true_cost = Inr r"
    by (rule allocate_run_Inr [OF assms])
  note lines = build_rollup_Inr [OF t(4)]
  have one: "map al_amount_usd (t1_lines t1) = map the (filter (\<lambda>c. c \<noteq> None) (map ce_cost_usd events))"
    "\<forall>l \<in> set (t1_lines t1). al_label l = Measured \<and> al_tier l = Direct"
    "t1_measured_total t1 = dsum (map al_amount_usd (t1_lines t1))"
    using direct_loop_Inr [OF t(1) [unfolded direct_lines_def]] by (auto simp: allocated_line_ok_def dsum_def)
  have two: "\<forall>l \<in> set (concat t2). al_label l \<noteq> Measured \<and> al_tier l = SharedProportional"
    using tier2_all_lines [OF t(2)] by (auto simp: allocated_line_ok_def)
  have three: "\<forall>l \<in> set (t3_lines t3). al_label l \<noteq> Measured \<and> al_tier l = FixedOverhead"
    "map al_amount_usd (t3_lines t3) = map sc_amount_usd (inputs_for_tier config FixedOverhead)"
    "t3_fixed_overhead_in_unit_usd t3 = in_unit_total 0 (inputs_for_tier config FixedOverhead)"
    using t(3) tier3_loop_Inr [of "\<lparr>t3_lines = [], t3_fixed_overhead_in_unit_usd = 0, t3_quarantined_idle_usd = 0\<rparr>"
      "inputs_for_tier config FixedOverhead"]
    by (auto simp: tier3_lines_def allocated_line_ok_def)
  have "filter (\<lambda>l. al_label l = Measured) (arl_lines r) = t1_lines t1"
    "filter (\<lambda>l. al_tier l = SharedProportional) (arl_lines r) = concat t2"
    "filter (\<lambda>l. al_tier l = FixedOverhead) (arl_lines r) = t3_lines t3"
    using one(2) two three(1) unfolding lines(1) filter_append
    by (simp_all add: filter_id_conv [THEN iffD2] filter_empty_conv [THEN iffD2])
  note parts = this
  show "arl_tenant_id r = tid \<and> arl_run_id r = rid"
    using t(4) by (auto simp: build_rollup_def Let_def)
  show "map al_amount_usd (filter (\<lambda>l. al_label l = Measured) (arl_lines r)) =
       map the (filter (\<lambda>c. c \<noteq> None) (map ce_cost_usd events))" unfolding parts by (rule one(1))
  show "map al_amount_usd (filter (\<lambda>l. al_tier l = FixedOverhead) (arl_lines r)) =
       map sc_amount_usd (filter (\<lambda>s. sc_tier s = FixedOverhead) (cfg_inputs config))"
    unfolding parts three(2) by (simp add: inputs_for_tier_def)
  have "pb_provisional_usd (arl_provenance_breakdown r) = 0" using t(4) by (auto simp: build_rollup_def Let_def)
  then show "arl_provenance_breakdown r =
      \<lparr>pb_reconciled_usd = dsum (map the (filter (\<lambda>c. c \<noteq> None) (map ce_cost_usd events))), pb_provisional_usd = 0,
       pb_estimate_only_usd = dadd (dsum (map al_amount_usd (filter (\<lambda>l. al_tier l = SharedProportional) (arl_lines r))))
         (dsum (map sc_amount_usd (filter (\<lambda>s. sc_tier s = FixedOverhead \<and> \<not> sc_is_idle_gpu s) (cfg_inputs config))))\<rparr>"
    using build_rollup_pct(2) [OF t(4)] lines(3)
    by (simp add: parts one three(3) in_unit_total_def inputs_for_tier_def dsum_def conj_commute)
  show "unallocated_pct (dadd (pb_reconciled_usd (arl_provenance_breakdown r)) (pb_estimate_only_usd (arl_provenance_breakdown r)))
      true_cost = Inr (arl_pct_unallocated r)"
    using build_rollup_pct [OF t(4)] lines(3) by simp
qed

section \<open>Properties\<close>

text \<open>
  A shared amount is split exactly: for non-negative weights with a positive total and
  an amount in storage precision, every consumer gets one part and the parts add up to the
  amount to the last unit (up to a hundred thousand consumers and a hundred billion
  dollars).
\<close>

theorem allocate_sums_to_amount:
  assumes "allocate_domain amount weights"
  shows "\<exists>parts. allocate amount weights = Inr parts \<and> map fst parts = map fst weights \<and>
     sum_list (map snd parts) = amount"
  using assms by (rule allocate_sum)

lemma sample_allocate_domain: "allocate_domain 10 [(''a'', 1), (''b'', 1), (''c'', 1)]"
proof -
  have "dsum [1, 1, 1] = (3 :: rat)" by code_simp
  moreover have "quantized 10 10" unfolding quantized_def by (rule exI [of _ "10 ^ 11"]) simp
  ultimately show ?thesis by (simp add: allocate_domain_def)
qed

theorem allocate_sums_to_amount_witness:
  "\<exists>parts. allocate 10 [(''a'', 1), (''b'', 1), (''c'', 1)] = Inr parts \<and> sum_list (map snd parts) = 10"
  using allocate_sums_to_amount [OF sample_allocate_domain] by blast

text \<open>
  C8. A rollup never passes an allocated figure off as a measured one. Every line carries
  the label its tier demands; the measured lines are the events with a known cost, one
  line each with that cost, and the overhead lines the configured overhead inputs. The
  measured total is the sum of the measured lines alone; the allocated total is that of
  the proportional lines plus the overhead that is not idle capacity; nothing is counted
  as provisional, and the published unallocated percentage is the one computed from
  those two totals and the true cost. The headline confidence is exact only when all
  lines are measured, candidate once a proportional line is present, likely once fixed
  overhead is.
\<close>

theorem allocate_run_honest:
  assumes "allocate_run tid rid events config weights true_cost = Inr r"
  shows "(\<forall>l \<in> set (arl_lines r). allocated_line_ok l) \<and>
     map al_amount_usd (filter (\<lambda>l. al_label l = Measured) (arl_lines r)) =
       map the (filter (\<lambda>c. c \<noteq> None) (map ce_cost_usd events)) \<and>
     map al_amount_usd (filter (\<lambda>l. al_tier l = FixedOverhead) (arl_lines r)) =
       map sc_amount_usd (filter (\<lambda>s. sc_tier s = FixedOverhead) (cfg_inputs config)) \<and>
     arl_provenance_breakdown r =
       \<lparr>pb_reconciled_usd = dsum (map the (filter (\<lambda>c. c \<noteq> None) (map ce_cost_usd events))), pb_provisional_usd = 0,
        pb_estimate_only_usd = dadd (dsum (map al_amount_usd (filter (\<lambda>l. al_tier l = SharedProportional) (arl_lines r))))
          (dsum (map sc_amount_usd (filter (\<lambda>s. sc_tier s = FixedOverhead \<and> \<not> sc_is_idle_gpu s) (cfg_inputs config))))\<rparr> \<and>
     unallocated_pct (dadd (pb_reconciled_usd (arl_provenance_breakdown r)) (pb_estimate_only_usd (arl_provenance_breakdown r)))
       true_cost = Inr (arl_pct_unallocated r) \<and>
     rollup_confidence_ok (arl_confidence r) \<and>
     rc_minimum_tier (arl_confidence r) = lines_headline (arl_lines r)"
proof -
  obtain t1 t2 t3 where "build_rollup tid rid t1 (concat t2) t3 true_cost = Inr r" by (rule allocate_run_Inr [OF assms])
  note lines = build_rollup_Inr [OF this]
  have "rollup_confidence_ok (arl_confidence r) \<and> rc_minimum_tier (arl_confidence r) = lines_headline (arl_lines r)"
    using lines(2) allocate_run_lines [OF assms] by (intro lines_confidence_Inr) auto
  with allocate_run_amounts(2-5) [OF assms] allocate_run_lines [OF assms] show ?thesis by simp
qed

text \<open>
  The honesty anchor is a percentage: for a true cost within the precision of the
  decimal context and a non-negative accounted figure, the unallocated share lies between
  zero and a hundred, and is zero once the lines account for the true cost.
\<close>

theorem pct_unallocated_range:
  assumes "allocate_run tid rid events config weights true_cost = Inr r" "dec_exact true_cost"
    and "0 \<le> dadd (pb_reconciled_usd (arl_provenance_breakdown r)) (pb_estimate_only_usd (arl_provenance_breakdown r))"
  shows "0 \<le> arl_pct_unallocated r \<and> arl_pct_unallocated r \<le> 100 \<and>
     (true_cost \<le> dadd (pb_reconciled_usd (arl_provenance_breakdown r)) (pb_estimate_only_usd (arl_provenance_breakdown r)) \<longrightarrow>
        arl_pct_unallocated r = 0)"
proof -
  obtain t1 t2 t3 where t: "build_rollup tid rid t1 (concat t2) t3 true_cost = Inr r"
    by (rule allocate_run_Inr [OF assms(1)])
  have "unallocated_pct (dadd (pb_reconciled_usd (arl_provenance_breakdown r)) (pb_estimate_only_usd (arl_provenance_breakdown r)))
      true_cost = Inr (arl_pct_unallocated r)"
    using build_rollup_pct [OF t] build_rollup_Inr(3) [OF t] by simp
  from unallocated_pct_bounds [OF this assms(3,2)] show ?thesis .
qed

text \<open>
  Idle capacity is quarantined: two configurations that differ only in idle fixed
  overhead give the same unallocated share and the same measured and allocated dollars.
\<close>

theorem idle_overhead_quarantined:
  assumes "allocate_run tid rid events config weights true_cost = Inr r"
    and "allocate_run tid rid events config' weights true_cost = Inr r'"
    and "filter (\<lambda>i. \<not> (sc_tier i = FixedOverhead \<and> sc_is_idle_gpu i)) (cfg_inputs config) =
      filter (\<lambda>i. \<not> (sc_tier i = FixedOverhead \<and> sc_is_idle_gpu i)) (cfg_inputs config')"
  shows "arl_pct_unallocated r = arl_pct_unallocated r' \<and> arl_provenance_breakdown r = arl_provenance_breakdown r'"
proof -
  let ?busy = "\<lambda>c. filter (\<lambda>i. \<not> (sc_tier i = FixedOverhead \<and> sc_is_idle_gpu i)) (cfg_inputs c)"
  have shared: "inputs_for_tier c SharedProportional = filter (\<lambda>i. sc_tier i = SharedProportional) (?busy c)" for c
    by (auto simp: inputs_for_tier_def intro!: filter_cong)
  have unit: "filter (\<lambda>s. \<not> sc_is_idle_gpu s) (inputs_for_tier c FixedOverhead) =
      filter (\<lambda>s. \<not> sc_is_idle_gpu s \<and> sc_tier s = FixedOverhead) (?busy c)" for c
    by (auto simp: inputs_for_tier_def intro!: filter_cong)
  have t3: "t3_fixed_overhead_in_unit_usd x = foldl dadd 0 (map sc_amount_usd (filter (\<lambda>s. \<not> sc_is_idle_gpu s \<and> sc_tier s = FixedOverhead) (?busy c)))"
    if "tier3_lines (inputs_for_tier c FixedOverhead) = Inr x" for c x
    using that tier3_loop_Inr [of "\<lparr>t3_lines = [], t3_fixed_overhead_in_unit_usd = 0, t3_quarantined_idle_usd = 0\<rparr>"
        "inputs_for_tier c FixedOverhead"]
    by (auto simp: tier3_lines_def in_unit_total_def unit)
  obtain t1 t2 t3x where a: "direct_lines events = Inr t1"
    "res_traverse (\<lambda>s. tier2_lines s weights) (inputs_for_tier config SharedProportional) = Inr t2"
    "tier3_lines (inputs_for_tier config FixedOverhead) = Inr t3x" "build_rollup tid rid t1 (concat t2) t3x true_cost = Inr r"
    by (rule allocate_run_Inr [OF assms(1)])
  obtain u1 u2 u3 where b: "direct_lines events = Inr u1"
    "res_traverse (\<lambda>s. tier2_lines s weights) (inputs_for_tier config' SharedProportional) = Inr u2"
    "tier3_lines (inputs_for_tier config' FixedOverhead) = Inr u3" "build_rollup tid rid u1 (concat u2) u3 true_cost = Inr r'"
    by (rule allocate_run_Inr [OF assms(2)])
  have "u1 = t1" using a(1) b(1) by simp
  moreover have "u2 = t2" using a(2) b(2) unfolding shared assms(3) by simp
  moreover have "t3_fixed_overhead_in_unit_usd u3 = t3_fixed_overhead_in_unit_usd t3x"
    unfolding t3 [OF a(3)] t3 [OF b(3)] assms(3) ..
  ultimately show ?thesis using a(4) b(4) by (auto simp: build_rollup_def Let_def)
qed

text \<open>
  Stored lines are replaced as a whole: writing a run's lines always commits, reading
  them back gives exactly those lines in their order, and the lines of every other run of
  every tenant are as before. The surrogate ids never collide, whatever the run ids hold.
\<close>

theorem upsert_lines_replaces:
  assumes "line_table_ok tbl" "\<forall>l \<in> set lines. allocated_line_ok l"
  shows "\<exists>tbl'. upsert_lines tbl tid rid lines = Inr tbl' \<and> line_table_ok tbl' \<and>
     lines_list_for_run tbl' tid rid = Inr lines \<and>
     (\<forall>t r. (t, r) = (tid, rid) \<or> lines_list_for_run tbl' t r = lines_list_for_run tbl t r)"
proof -
  obtain ms where ms: "tbl = stored_rows ms" "distinct (map (\<lambda>(t, r, n, l). (t, r, n)) ms)"
    "\<forall>(t, r, n, l) \<in> set ms. allocated_line_ok l"
    using assms(1) by (auto simp: line_table_ok_def)
  let ?keep = "filter (\<lambda>(t, r, n, l). \<not> (t = tid \<and> r = rid)) ms"
  let ?new = "new_lines tid rid lines"
  let ?ms = "?keep @ ?new"
  have set_new: "set ?new \<subseteq> {(t, r, n, l). t = tid \<and> r = rid \<and> l \<in> set lines}"
    by (auto simp: new_lines_def in_set_enumerate_eq)
  have "filter (\<lambda>r. \<not> (row_get r ''tenant_id'' = CUuid tid \<and> row_get r ''run_id'' = CStr rid)) tbl = stored_rows ?keep"
    unfolding ms(1) using stored_rows_filter [of "\<lambda>a b. \<not> (a = CUuid tid \<and> b = CStr rid)" ms] by simp
  then have app: "upsert_lines tbl tid rid lines = commit [tenant_pk] (stored_rows ?ms)"
    by (simp add: upsert_lines_def line_rows_stored) (simp add: stored_rows_def)
  have dis: "distinct (map (\<lambda>(t, r, n, l). (t, r, n)) ?ms)"
  proof -
    have "distinct (map (\<lambda>(t, r, n, l). (t, r, n)) ?keep)" using ms(2) by (rule distinct_map_filter)
    moreover have "set (map (\<lambda>(t, r, n, l). (t, r, n)) ?keep) \<inter> set (map (\<lambda>(t, r, n, l). (t, r, n)) ?new) = {}"
      using set_new by force
    ultimately show ?thesis using new_lines_facts(4) by simp
  qed
  have ok: "\<forall>(t, r, n, l) \<in> set ?ms. allocated_line_ok l" using ms(3) set_new assms(2) by fastforce
  have c: "upsert_lines tbl tid rid lines = Inr (stored_rows ?ms)"
    using dis by (simp add: app commit_def stored_rows_unique)
  have fnew: "filter (\<lambda>(t, r, n, l). t = tid \<and> r = rid) ?ms = ?new"
    using new_lines_facts(1) by (auto simp: filter_empty_conv)
  have own: "lines_list_for_run (stored_rows ?ms) tid rid = Inr lines"
    unfolding lines_list_stored [OF ok] fnew new_lines_facts(2,3) ..
  have "lines_list_for_run (stored_rows ?ms) t r = lines_list_for_run tbl t r" if "(t, r) \<noteq> (tid, rid)" for t r
  proof -
    have "filter (\<lambda>(t', r', n, l). t' = t \<and> r' = r) ?new = []" using set_new that by (fastforce simp: filter_empty_conv)
    moreover have "filter (\<lambda>(t', r', n, l). t' = t \<and> r' = r) ?keep = filter (\<lambda>(t', r', n, l). t' = t \<and> r' = r) ms"
      using that by (auto intro!: filter_cong)
    ultimately have "filter (\<lambda>(t', r', n, l). t' = t \<and> r' = r) ?ms = filter (\<lambda>(t', r', n, l). t' = t \<and> r' = r) ms" by simp
    then show ?thesis unfolding ms(1) lines_list_stored [OF ok] lines_list_stored [OF ms(3)] by simp
  qed
  with c own dis ok show ?thesis unfolding line_table_ok_def by blast
qed

definition sample_config :: "bool \<Rightarrow> shared_costs_config" where
  "sample_config idle = \<lparr>cfg_tenant_id = ''t'', cfg_inputs = (if idle then
     [\<lparr>sc_name = ''gpu'', sc_amount_usd = 7, sc_tier = FixedOverhead, sc_allocation_key = None,
       sc_is_idle_gpu = True, sc_rule_version = None, sc_sensitivity_pct = None\<rparr>] else [])\<rparr>"

lemma sample_allocate_run: "\<exists>r. allocate_run ''t'' ''r1'' [sample_cost_event] (sample_config idle) [] 0 = Inr r \<and>
    pb_reconciled_usd (arl_provenance_breakdown r) = 0 \<and> pb_estimate_only_usd (arl_provenance_breakdown r) = 0"
proof -
  have conf: "\<exists>c. lines_confidence ls = Inr c" for ls
  proof (cases "ls = []")
    case True
    then show ?thesis
      by (auto simp: lines_confidence_def rollup_confidence_new_Inr_iff rollup_confidence_ok_def tier_order_defs)
  qed (simp add: lines_confidence_def propagate_nonempty)
  obtain c where "lines_confidence (if idle then
      [\<lparr>al_tier = FixedOverhead, al_label = Allocated, al_amount_usd = 7, al_allocation_key = None,
        al_confidence = Low, al_sensitivity_pct = None, al_rule_version = None, al_quarantined = True\<rparr>] else []) = Inr c"
    using conf by blast
  then show ?thesis
    by (cases idle) (simp_all add: allocate_run_def direct_lines_def sample_cost_event_def inputs_for_tier_def
      sample_config_def tier3_lines_def build_rollup_def dsum_def dadd_def allocated_line_check_def)
qed

theorem allocate_run_honest_witness:
  "\<exists>r. allocate_run ''t'' ''r1'' [sample_cost_event] (sample_config True) [] 0 = Inr r \<and>
     rc_minimum_tier (arl_confidence r) = lines_headline (arl_lines r)"
  using sample_allocate_run [of True] allocate_run_honest by blast

theorem pct_unallocated_range_witness:
  "\<exists>r. allocate_run ''t'' ''r1'' [sample_cost_event] (sample_config True) [] 0 = Inr r \<and> arl_pct_unallocated r \<le> 100"
proof -
  obtain r where r: "allocate_run ''t'' ''r1'' [sample_cost_event] (sample_config True) [] 0 = Inr r"
    and z: "pb_reconciled_usd (arl_provenance_breakdown r) = 0" "pb_estimate_only_usd (arl_provenance_breakdown r) = 0"
    using sample_allocate_run by blast
  have "dec_exact 0" using dec_exact_int [of 0] by simp
  moreover have "0 \<le> dadd (pb_reconciled_usd (arl_provenance_breakdown r)) (pb_estimate_only_usd (arl_provenance_breakdown r))"
    by (simp add: z dadd_def)
  ultimately show ?thesis using pct_unallocated_range [OF r] r by blast
qed

theorem idle_overhead_quarantined_witness:
  "\<exists>r r'. allocate_run ''t'' ''r1'' [sample_cost_event] (sample_config True) [] 0 = Inr r \<and>
     allocate_run ''t'' ''r1'' [sample_cost_event] (sample_config False) [] 0 = Inr r' \<and>
     arl_provenance_breakdown r = arl_provenance_breakdown r'"
proof -
  obtain r r' where r: "allocate_run ''t'' ''r1'' [sample_cost_event] (sample_config True) [] 0 = Inr r"
    "allocate_run ''t'' ''r1'' [sample_cost_event] (sample_config False) [] 0 = Inr r'"
    using sample_allocate_run by blast
  have "filter (\<lambda>i. \<not> (sc_tier i = FixedOverhead \<and> sc_is_idle_gpu i)) (cfg_inputs (sample_config True)) =
      filter (\<lambda>i. \<not> (sc_tier i = FixedOverhead \<and> sc_is_idle_gpu i)) (cfg_inputs (sample_config False))"
    by (simp add: sample_config_def)
  from idle_overhead_quarantined [OF r this] r show ?thesis by blast
qed

definition sample_line :: allocated_line where
  "sample_line = \<lparr>al_tier = Direct, al_label = Measured, al_amount_usd = 3, al_allocation_key = None,
     al_confidence = High, al_sensitivity_pct = None, al_rule_version = None, al_quarantined = False\<rparr>"

theorem upsert_lines_replaces_witness:
  "\<exists>tbl'. upsert_lines [] ''t'' ''r#1'' [sample_line, sample_line] = Inr tbl' \<and>
     lines_list_for_run tbl' ''t'' ''r#1'' = Inr [sample_line, sample_line]"
proof -
  have "line_table_ok []" by (auto simp: line_table_ok_def stored_rows_def)
  moreover have "\<forall>l \<in> set [sample_line, sample_line]. allocated_line_ok l"
    by (simp add: sample_line_def allocated_line_ok_def)
  ultimately show ?thesis using upsert_lines_replaces by blast
qed

end
