(* ===== verification/Metrics_Grammar.thy ===== *)
theory Metrics_Grammar
  imports Core_Types Python_Text "HOL-Library.Sublist"
begin

text \<open>
  The metric language (\<open>packages/metrics\<close>, \<open>grammar.py\<close> and \<open>compiler.py\<close>): a metric
  definition is checked token by token against closed allowlists and compiled to a query
  plan. The measures and dimensions are datatypes; their text is what a definition holds.

  The lemmas characterise what the validator accepts: exactly the definitions over the
  allowlists, where a cost numerator comes with the verified denominator only. The
  marker scan adds nothing for measures and dimensions (no allowlisted token contains a
  marker) and decides for filter values. The compiler is total on accepted definitions.
\<close>

section \<open>Vocabulary\<close>

datatype dimension = Provider | Model | AgentName | OutcomeName | Tenant

fun dimension_value :: "dimension \<Rightarrow> string" where
  "dimension_value Provider = ''provider''"
| "dimension_value Model = ''model''"
| "dimension_value AgentName = ''agent_name''"
| "dimension_value OutcomeName = ''outcome_name''"
| "dimension_value Tenant = ''tenant''"

definition all_dimensions :: "dimension list" where
  "all_dimensions = [Provider, Model, AgentName, OutcomeName, Tenant]"

datatype measure_token = TotalCostUsd | AttemptCount | OutcomeCount | VerifiedOutcomeCount

fun measure_value :: "measure_token \<Rightarrow> string" where
  "measure_value TotalCostUsd = ''total_cost_usd''"
| "measure_value AttemptCount = ''attempt_count''"
| "measure_value OutcomeCount = ''outcome_count''"
| "measure_value VerifiedOutcomeCount = ''verified_outcome_count''"

text \<open>\<open>Measure(text)\<close>: the member with that value, or \<open>ValueError\<close>.\<close>

definition measure_of :: "string \<Rightarrow> measure_token res" where
  "measure_of s =
     (if s = ''total_cost_usd'' then Inr TotalCostUsd else if s = ''attempt_count'' then Inr AttemptCount
      else if s = ''outcome_count'' then Inr OutcomeCount
      else if s = ''verified_outcome_count'' then Inr VerifiedOutcomeCount else Inl ValueError)"

definition NUMERATOR_TOKENS :: "string list" where
  "NUMERATOR_TOKENS = map measure_value [TotalCostUsd, AttemptCount, OutcomeCount]"

definition DENOMINATOR_TOKENS :: "string list" where
  "DENOMINATOR_TOKENS = map measure_value [AttemptCount, OutcomeCount, VerifiedOutcomeCount]"

definition ALLOWED_FILTER_FIELDS :: "string list" where
  "ALLOWED_FILTER_FIELDS = map dimension_value all_dimensions"

definition ALLOWED_DIMENSIONS :: "string list" where
  "ALLOWED_DIMENSIONS = map dimension_value all_dimensions"

text \<open>
  \<open>^[A-Za-z0-9 ._:/\-]+$\<close> under \<open>re.match\<close>: one or more allowed characters up to the end of
  the text, where \<open>$\<close> also matches before one final newline.
\<close>

definition filter_char :: "char \<Rightarrow> bool" where
  "filter_char c \<longleftrightarrow>
     (CHR ''A'' \<le> c \<and> c \<le> CHR ''Z'') \<or> (CHR ''a'' \<le> c \<and> c \<le> CHR ''z'') \<or> (CHR ''0'' \<le> c \<and> c \<le> CHR ''9'') \<or>
     c \<in> set '' ._:/-''"

definition filter_value_re :: "string \<Rightarrow> bool" where
  "filter_value_re s \<longleftrightarrow>
     (let body = takeWhile filter_char s; rest = dropWhile filter_char s in
      body \<noteq> [] \<and> (rest = [] \<or> rest = [CHR 0x0A]))"

definition FORBIDDEN_MARKERS :: "string list" where
  "FORBIDDEN_MARKERS =
     [''eval'', ''exec'', ''__'', '';'', ''--'', [CHR 0x27], [CHR 0x22], ''('', '')'', ''/*'']"

record metric_definition =
  md_name :: string
  md_numerator :: string
  md_denominator :: string
  md_filters :: "(string, string) dict"
  md_group_by :: "string list"

section \<open>Validation\<close>

definition reject_free_text :: "string \<Rightarrow> unit res" where
  "reject_free_text token =
     (if \<exists>marker \<in> set FORBIDDEN_MARKERS. sublist marker (lower token) then Inl MetricGrammarError else Inr ())"

definition validate_numerator :: "string \<Rightarrow> unit res" where
  "validate_numerator numerator =
     res_bind (reject_free_text numerator) (\<lambda>_.
       if numerator \<notin> set NUMERATOR_TOKENS then Inl MetricGrammarError else Inr ())"

definition validate_denominator :: "string \<Rightarrow> unit res" where
  "validate_denominator denominator =
     res_bind (reject_free_text denominator) (\<lambda>_.
       if denominator \<notin> set DENOMINATOR_TOKENS then Inl MetricGrammarError else Inr ())"

definition validate_cost_per_outcome :: "string \<Rightarrow> string \<Rightarrow> unit res" where
  "validate_cost_per_outcome numerator denominator =
     (if numerator = measure_value TotalCostUsd \<and> denominator \<noteq> measure_value VerifiedOutcomeCount
      then Inl MetricGrammarError else Inr ())"

fun validate_filters :: "(string, string) dict \<Rightarrow> unit res" where
  "validate_filters [] = Inr ()"
| "validate_filters ((field, value) # rest) =
     (if field \<notin> set ALLOWED_FILTER_FIELDS then Inl MetricGrammarError
      else if \<not> filter_value_re value then Inl MetricGrammarError
      else res_bind (reject_free_text value) (\<lambda>_. validate_filters rest))"

fun validate_group_by :: "string list \<Rightarrow> unit res" where
  "validate_group_by [] = Inr ()"
| "validate_group_by (dimension # rest) =
     res_bind (reject_free_text dimension) (\<lambda>_.
       if dimension \<notin> set ALLOWED_DIMENSIONS then Inl MetricGrammarError else validate_group_by rest)"

definition validate_definition :: "metric_definition \<Rightarrow> metric_definition res" where
  "validate_definition d =
     res_bind (validate_numerator (md_numerator d)) (\<lambda>_.
     res_bind (validate_denominator (md_denominator d)) (\<lambda>_.
     res_bind (validate_cost_per_outcome (md_numerator d) (md_denominator d)) (\<lambda>_.
     res_bind (validate_filters (md_filters d)) (\<lambda>_.
     res_bind (validate_group_by (md_group_by d)) (\<lambda>_. Inr d)))))"

section \<open>Compilation\<close>

datatype join_strategy = BillingGradeOutcomes | AllOutcomes

record query_plan =
  qp_name :: string
  qp_numerator :: measure_token
  qp_denominator :: measure_token
  qp_filters :: "(string \<times> string) list"
  qp_group_by :: "string list"
  qp_join_strategy :: join_strategy

definition join_strategy_for :: "measure_token \<Rightarrow> join_strategy" where
  "join_strategy_for m = (if m = VerifiedOutcomeCount then BillingGradeOutcomes else AllOutcomes)"

definition compile_plan :: "metric_definition \<Rightarrow> query_plan res" where
  "compile_plan d =
     res_bind (validate_definition d) (\<lambda>_.
     res_bind (measure_of (md_numerator d)) (\<lambda>numerator.
     res_bind (measure_of (md_denominator d)) (\<lambda>denominator.
       Inr \<lparr>qp_name = md_name d, qp_numerator = numerator, qp_denominator = denominator,
            qp_filters = sort (md_filters d), qp_group_by = md_group_by d,
            qp_join_strategy = join_strategy_for denominator\<rparr>)))"

section \<open>What the validator accepts\<close>

lemma sublist_step [code]:
  "sublist xs [] \<longleftrightarrow> xs = []"
  "sublist xs (y # ys) \<longleftrightarrow> prefix xs (y # ys) \<or> sublist xs ys"
  by (simp_all add: sublist_Cons_right)

lemma measure_of_value [simp]: "measure_of (measure_value m) = Inr m"
  by (cases m) (simp_all add: measure_of_def)

lemma measure_of_Inr_iff: "measure_of s = Inr m \<longleftrightarrow> s = measure_value m"
  by (cases m) (auto simp: measure_of_def)

lemma reject_free_text_measure [simp]: "reject_free_text (measure_value m) = Inr ()"
proof (cases m)
  case TotalCostUsd
  have "reject_free_text ''total_cost_usd'' = Inr ()" by code_simp
  then show ?thesis by (simp add: TotalCostUsd)
next
  case AttemptCount
  have "reject_free_text ''attempt_count'' = Inr ()" by code_simp
  then show ?thesis by (simp add: AttemptCount)
next
  case OutcomeCount
  have "reject_free_text ''outcome_count'' = Inr ()" by code_simp
  then show ?thesis by (simp add: OutcomeCount)
next
  case VerifiedOutcomeCount
  have "reject_free_text ''verified_outcome_count'' = Inr ()" by code_simp
  then show ?thesis by (simp add: VerifiedOutcomeCount)
qed

lemma reject_free_text_dimension [simp]: "reject_free_text (dimension_value m) = Inr ()"
proof (cases m)
  case Provider
  have "reject_free_text ''provider'' = Inr ()" by code_simp
  then show ?thesis by (simp add: Provider)
next
  case Model
  have "reject_free_text ''model'' = Inr ()" by code_simp
  then show ?thesis by (simp add: Model)
next
  case AgentName
  have "reject_free_text ''agent_name'' = Inr ()" by code_simp
  then show ?thesis by (simp add: AgentName)
next
  case OutcomeName
  have "reject_free_text ''outcome_name'' = Inr ()" by code_simp
  then show ?thesis by (simp add: OutcomeName)
next
  case Tenant
  have "reject_free_text ''tenant'' = Inr ()" by code_simp
  then show ?thesis by (simp add: Tenant)
qed

lemma reject_free_text_cases: "reject_free_text s = Inr () \<or> reject_free_text s = Inl MetricGrammarError"
  by (simp add: reject_free_text_def)

text \<open>The reference grammar, over the typed vocabulary.\<close>

definition plain_value :: "string \<Rightarrow> bool" where
  "plain_value v \<longleftrightarrow> filter_value_re v \<and> (\<forall>m \<in> set FORBIDDEN_MARKERS. \<not> sublist m (lower v))"

definition definition_allowed :: "metric_definition \<Rightarrow> measure_token \<Rightarrow> measure_token \<Rightarrow> bool" where
  "definition_allowed d n m \<longleftrightarrow>
     md_numerator d = measure_value n \<and> md_denominator d = measure_value m \<and>
     n \<noteq> VerifiedOutcomeCount \<and> m \<noteq> TotalCostUsd \<and> (n = TotalCostUsd \<longrightarrow> m = VerifiedOutcomeCount) \<and>
     (\<forall>(f, v) \<in> set (md_filters d). f \<in> range dimension_value \<and> plain_value v) \<and>
     set (md_group_by d) \<subseteq> range dimension_value"

lemma range_dimension_value: "range dimension_value = set ALLOWED_DIMENSIONS"
proof -
  have "UNIV = set all_dimensions" using dimension.exhaust by (auto simp: all_dimensions_def)
  then show ?thesis by (simp only: ALLOWED_DIMENSIONS_def set_map)
qed

lemma validate_numerator_iff:
  "validate_numerator s = Inr () \<longleftrightarrow> (\<exists>n. s = measure_value n \<and> n \<noteq> VerifiedOutcomeCount)"
  "validate_numerator s = Inr () \<or> validate_numerator s = Inl MetricGrammarError"
proof -
  have "s \<in> set NUMERATOR_TOKENS \<longleftrightarrow> (\<exists>n. s = measure_value n \<and> n \<noteq> VerifiedOutcomeCount)"
  proof
    assume "\<exists>n. s = measure_value n \<and> n \<noteq> VerifiedOutcomeCount"
    then obtain n where "s = measure_value n" "n \<noteq> VerifiedOutcomeCount" by blast
    then show "s \<in> set NUMERATOR_TOKENS" by (cases n) (simp_all add: NUMERATOR_TOKENS_def)
  qed (auto simp: NUMERATOR_TOKENS_def simp del: measure_value.simps)
  then show "validate_numerator s = Inr () \<longleftrightarrow> (\<exists>n. s = measure_value n \<and> n \<noteq> VerifiedOutcomeCount)"
    by (auto simp: validate_numerator_def)
  show "validate_numerator s = Inr () \<or> validate_numerator s = Inl MetricGrammarError"
    using reject_free_text_cases [of s] by (auto simp: validate_numerator_def)
qed

lemma validate_denominator_iff:
  "validate_denominator s = Inr () \<longleftrightarrow> (\<exists>n. s = measure_value n \<and> n \<noteq> TotalCostUsd)"
  "validate_denominator s = Inr () \<or> validate_denominator s = Inl MetricGrammarError"
proof -
  have "s \<in> set DENOMINATOR_TOKENS \<longleftrightarrow> (\<exists>n. s = measure_value n \<and> n \<noteq> TotalCostUsd)"
  proof
    assume "\<exists>n. s = measure_value n \<and> n \<noteq> TotalCostUsd"
    then obtain n where "s = measure_value n" "n \<noteq> TotalCostUsd" by blast
    then show "s \<in> set DENOMINATOR_TOKENS" by (cases n) (simp_all add: DENOMINATOR_TOKENS_def)
  qed (auto simp: DENOMINATOR_TOKENS_def simp del: measure_value.simps)
  then show "validate_denominator s = Inr () \<longleftrightarrow> (\<exists>n. s = measure_value n \<and> n \<noteq> TotalCostUsd)"
    by (auto simp: validate_denominator_def)
  show "validate_denominator s = Inr () \<or> validate_denominator s = Inl MetricGrammarError"
    using reject_free_text_cases [of s] by (auto simp: validate_denominator_def)
qed

lemma validate_filters_iff:
  "validate_filters fs = Inr () \<longleftrightarrow> (\<forall>(f, v) \<in> set fs. f \<in> range dimension_value \<and> plain_value v)"
  "validate_filters fs = Inr () \<or> validate_filters fs = Inl MetricGrammarError"
  by (induction fs rule: validate_filters.induct)
    (auto simp: range_dimension_value ALLOWED_FILTER_FIELDS_def ALLOWED_DIMENSIONS_def plain_value_def
      reject_free_text_def split: if_splits)

lemma validate_group_by_iff:
  "validate_group_by ds = Inr () \<longleftrightarrow> set ds \<subseteq> range dimension_value"
  "validate_group_by ds = Inr () \<or> validate_group_by ds = Inl MetricGrammarError"
proof (induction ds rule: validate_group_by.induct)
  case (2 d rest)
  show "validate_group_by (d # rest) = Inr () \<longleftrightarrow> set (d # rest) \<subseteq> range dimension_value"
    using 2(1) by (auto simp: range_dimension_value [symmetric])
  show "validate_group_by (d # rest) = Inr () \<or> validate_group_by (d # rest) = Inl MetricGrammarError"
    using 2(2) reject_free_text_cases [of d] by auto
qed simp_all


lemma validate_cost_iff:
  "validate_cost_per_outcome (measure_value n) (measure_value m) =
     (if n = TotalCostUsd \<longrightarrow> m = VerifiedOutcomeCount then Inr () else Inl MetricGrammarError)"
  by (cases n; cases m) (simp_all add: validate_cost_per_outcome_def)

lemma validate_definition_Inr:
  assumes "definition_allowed d n m"
  shows "validate_definition d = Inr d"
proof -
  have "validate_numerator (md_numerator d) = Inr ()" "validate_denominator (md_denominator d) = Inr ()"
    using assms by (auto simp: definition_allowed_def validate_numerator_iff validate_denominator_iff)
  moreover have "validate_cost_per_outcome (md_numerator d) (md_denominator d) = Inr ()"
    using assms by (simp add: definition_allowed_def validate_cost_iff)
  moreover have "validate_filters (md_filters d) = Inr ()" "validate_group_by (md_group_by d) = Inr ()"
    using assms by (simp_all add: definition_allowed_def validate_filters_iff validate_group_by_iff)
  ultimately show ?thesis by (simp add: validate_definition_def)
qed

lemma validate_definition_allowed:
  assumes "validate_definition d = Inr d'"
  shows "\<exists>n m. definition_allowed d n m"
proof -
  have v: "validate_numerator (md_numerator d) = Inr ()" "validate_denominator (md_denominator d) = Inr ()"
    "validate_cost_per_outcome (md_numerator d) (md_denominator d) = Inr ()"
    "validate_filters (md_filters d) = Inr ()" "validate_group_by (md_group_by d) = Inr ()"
    using assms by (auto simp: validate_definition_def)
  obtain n where n: "md_numerator d = measure_value n" "n \<noteq> VerifiedOutcomeCount"
    using v(1) unfolding validate_numerator_iff by blast
  obtain m where m: "md_denominator d = measure_value m" "m \<noteq> TotalCostUsd"
    using v(2) unfolding validate_denominator_iff by blast
  have "n = TotalCostUsd \<longrightarrow> m = VerifiedOutcomeCount"
    using v(3) unfolding n m validate_cost_iff by (simp split: if_splits)
  then have "definition_allowed d n m"
    using n m v(4,5) unfolding definition_allowed_def validate_filters_iff validate_group_by_iff by blast
  then show ?thesis by blast
qed

lemma validate_definition_Inl:
  assumes "validate_definition d = Inl e"
  shows "e = MetricGrammarError"
proof -
  have "validate_cost_per_outcome (md_numerator d) (md_denominator d) = Inr () \<or>
      validate_cost_per_outcome (md_numerator d) (md_denominator d) = Inl MetricGrammarError"
    by (simp add: validate_cost_per_outcome_def)
  then show ?thesis
    using assms validate_numerator_iff(2) [of "md_numerator d"] validate_denominator_iff(2) [of "md_denominator d"]
      validate_filters_iff(2) [of "md_filters d"] validate_group_by_iff(2) [of "md_group_by d"]
    by (auto simp: validate_definition_def)
qed

definition plan_for :: "metric_definition \<Rightarrow> measure_token \<Rightarrow> measure_token \<Rightarrow> query_plan" where
  "plan_for d n m = \<lparr>qp_name = md_name d, qp_numerator = n, qp_denominator = m, qp_filters = sort (md_filters d),
     qp_group_by = md_group_by d, qp_join_strategy = join_strategy_for m\<rparr>"

lemma compile_plan_allowed: "definition_allowed d n m \<Longrightarrow> compile_plan d = Inr (plan_for d n m)"
  using validate_definition_Inr [of d n m]
  by (simp add: compile_plan_def plan_for_def definition_allowed_def)

lemma compile_plan_Inr:
  assumes "compile_plan d = Inr p"
  obtains n m where "definition_allowed d n m" "p = plan_for d n m"
proof -
  obtain d' where "validate_definition d = Inr d'" using assms by (auto simp: compile_plan_def)
  then obtain n m where "definition_allowed d n m" using validate_definition_allowed by blast
  with compile_plan_allowed [OF this] assms that show thesis by simp
qed

text \<open>
  C14. Equivalence of the validator and compiler with the reference grammar: a definition
  compiles exactly when its measures, filters and dimensions come from the allowlists and
  a cost numerator is paired with the verified denominator; the plan then carries those
  measures and the sorted filters, and any other definition raises \<open>MetricGrammarError\<close>,
  never another error.
\<close>

theorem compile_plan_grammar:
  "(\<exists>n m. definition_allowed d n m \<and> compile_plan d = Inr (plan_for d n m)) \<or>
   ((\<nexists>n m. definition_allowed d n m) \<and> compile_plan d = Inl MetricGrammarError)"
proof (cases "\<exists>n m. definition_allowed d n m")
  case True
  then show ?thesis using compile_plan_allowed by blast
next
  case False
  have "\<exists>e. validate_definition d = Inl e"
    using False validate_definition_allowed by (cases "validate_definition d") auto
  then have "compile_plan d = Inl MetricGrammarError"
    using validate_definition_Inl by (auto simp: compile_plan_def)
  with False show ?thesis by blast
qed

definition sample_metric :: metric_definition where
  "sample_metric = \<lparr>md_name = ''cpo'', md_numerator = ''total_cost_usd'', md_denominator = ''verified_outcome_count'',
     md_filters = [(''provider'', ''openai'')], md_group_by = [''outcome_name'']\<rparr>"

theorem compile_plan_grammar_witness:
  "\<exists>n m. definition_allowed sample_metric n m \<and> compile_plan sample_metric = Inr (plan_for sample_metric n m)"
proof -
  have "map_sum id (\<lambda>p. ()) (compile_plan sample_metric) = Inr ()" by code_simp
  then have "\<exists>p. compile_plan sample_metric = Inr p" by (cases "compile_plan sample_metric") auto
  with compile_plan_grammar [of sample_metric] show ?thesis by auto
qed

text \<open>A filter value with a final newline passes the check for plain scalar tokens.\<close>

lemma filter_newline_accepted:
  "validate_filters [(''provider'', ''openai'' @ [CHR 0x0A])] = Inr ()"
  by code_simp

end
