(* ===== verification/Metrics_Executor.thy ===== *)
theory Metrics_Executor
  imports Metrics_Grammar Store
begin

text \<open>
  The metric engine (\<open>packages/metrics\<close>, \<open>propagation.py\<close>, \<open>schemas.py\<close>, \<open>executor.py\<close> and
  \<open>capabilities.py\<close>). The executor reads cost events through the injected repository, and
  runs through an optional one: the ports are records of functions into results, bound to
  the SQL store by \<open>store_executor\<close>. A Python set that is only tested for membership is a
  list here; where the code iterates over a set to count, the list has no repetitions.
  Sums and products of money are the rounded operations of \<open>Rounding\<close>.

  The lemmas show what a cell counts: the denominator is exactly the confirmed outcomes
  bound at a billing-grade tier, every other outcome of the group is in one exclusion
  count, a retraction always raises the re-emit flag, a ratio is published exactly when the
  denominator is positive, and the confidence and causal evidence of a cell are the
  weakest of its members.
\<close>

section \<open>Propagation\<close>

fun propagate_causal_evidence :: "causal_evidence list \<Rightarrow> causal_evidence" where
  "propagate_causal_evidence [] = Observational"
| "propagate_causal_evidence (c # cs) = first_min causal_index c cs"

definition is_billing_grade :: "binding_tier \<Rightarrow> bool" where
  "is_billing_grade tier \<longleftrightarrow> tier \<in> {Exact, Deterministic}"

record denominator_breakdown =
  dbk_verified_count :: int
  dbk_advisory_excluded_count :: int
  dbk_attempted_excluded_count :: int
  dbk_retracted_excluded_count :: int
  dbk_tier_distribution :: "(binding_tier, int) dict"

text \<open>\<open>counter[key] += 1\<close>.\<close>

definition counter_add :: "'k \<Rightarrow> ('k, int) dict \<Rightarrow> ('k, int) dict" where
  "counter_add k c = dict_set k ((case dict_get c k of None \<Rightarrow> 0 | Some n \<Rightarrow> n) + 1) c"

definition denominator_step :: "denominator_breakdown \<Rightarrow> outcome_event \<Rightarrow> denominator_breakdown" where
  "denominator_step b e =
     (let signal = oe_signal_class e; tier = ob_tier (oe_binding e) in
      if signal = ActionAttempted
      then b\<lparr>dbk_attempted_excluded_count := dbk_attempted_excluded_count b + 1\<rparr>
      else let b1 = (case tier of None \<Rightarrow> b
              | Some t \<Rightarrow> b\<lparr>dbk_tier_distribution := counter_add t (dbk_tier_distribution b)\<rparr>) in
        if signal = OutcomeRetracted
        then b1\<lparr>dbk_retracted_excluded_count := dbk_retracted_excluded_count b1 + 1\<rparr>
        else if (case tier of None \<Rightarrow> False | Some t \<Rightarrow> is_billing_grade t)
        then b1\<lparr>dbk_verified_count := dbk_verified_count b1 + 1\<rparr>
        else b1\<lparr>dbk_advisory_excluded_count := dbk_advisory_excluded_count b1 + 1\<rparr>)"

definition denominator_outcomes :: "outcome_event list \<Rightarrow> denominator_breakdown" where
  "denominator_outcomes outcomes =
     foldl denominator_step
       \<lparr>dbk_verified_count = 0, dbk_advisory_excluded_count = 0, dbk_attempted_excluded_count = 0,
        dbk_retracted_excluded_count = 0, dbk_tier_distribution = []\<rparr> outcomes"

section \<open>Ports and results\<close>

type_synonym group_key = "(string \<times> string) list"

record metric_window =
  mw_start :: instant
  mw_end :: instant

record run_port =
  rp_get :: "tenant_id \<Rightarrow> run_id \<Rightarrow> run option res"
  rp_list_by_entity :: "tenant_id \<Rightarrow> entity_key \<Rightarrow> run list res"

record metric_executor =
  mx_list_in_window :: "tenant_id \<Rightarrow> instant \<Rightarrow> instant \<Rightarrow> cost_event list res"
  mx_run_repo :: "run_port option"

record metric_cell =
  mc_group_key :: group_key
  mc_numerator_value :: rat
  mc_denominator_value :: int
  mc_value :: "rat option"
  mc_confidence :: rollup_confidence
  mc_advisory_excluded_count :: int
  mc_retracted_excluded_count :: int
  mc_shared_attribution_count :: int
  mc_causal_evidence :: causal_evidence

record metric_result =
  mr_name :: string
  mr_cells :: "metric_cell list"
  mr_requires_reemit :: bool

section \<open>Filters and group keys\<close>

definition UNKNOWN_AGENT :: string where "UNKNOWN_AGENT = ''unknown''"

definition handled_dimensions :: "dimension list" where
  "handled_dimensions = [Provider, Model, AgentName, Tenant] @ [OutcomeName]"

fun cost_matches_filters :: "cost_event \<Rightarrow> (string \<times> string) list \<Rightarrow> bool" where
  "cost_matches_filters e [] \<longleftrightarrow> True"
| "cost_matches_filters e ((field, value) # rest) \<longleftrightarrow>
     (if field = ''provider'' \<and> ce_provider e \<noteq> value then False
      else if field = ''model'' \<and> ce_model e \<noteq> value then False
      else cost_matches_filters e rest)"

fun cost_group_key :: "cost_event \<Rightarrow> string list \<Rightarrow> (run_id, string) dict \<Rightarrow> string \<Rightarrow> group_key" where
  "cost_group_key e [] agents tenant_value = []"
| "cost_group_key e (dimension # rest) agents tenant_value =
     (if dimension = dimension_value Provider then [(dimension, ce_provider e)]
      else if dimension = dimension_value Model then [(dimension, ce_model e)]
      else if dimension = dimension_value AgentName
      then [(dimension, case dict_get agents (ce_run_id e) of None \<Rightarrow> UNKNOWN_AGENT | Some a \<Rightarrow> a)]
      else if dimension = dimension_value Tenant then [(dimension, tenant_value)]
      else []) @ cost_group_key e rest agents tenant_value"

fun outcome_group_key :: "outcome_event \<Rightarrow> string list \<Rightarrow> group_key" where
  "outcome_group_key e [] = []"
| "outcome_group_key e (dimension # rest) =
     (if dimension = dimension_value OutcomeName then [(dimension, oe_name e)] else []) @ outcome_group_key e rest"

text \<open>\<open>dict(record_key)\<close>: the last pair of a repeated field wins.\<close>

definition matches_key :: "group_key \<Rightarrow> group_key \<Rightarrow> bool" where
  "matches_key record_key cell_key \<longleftrightarrow>
     (if record_key = [] then True
      else let rec = foldl (\<lambda>d (f, v). dict_set f v d) [] record_key in
        list_all (\<lambda>(field, value). dict_get rec field \<noteq> None \<longrightarrow> dict_get rec field = Some value) cell_key)"

definition resolve_agents ::
  "metric_executor \<Rightarrow> tenant_id \<Rightarrow> query_plan \<Rightarrow> cost_event list \<Rightarrow> (run_id, string) dict res" where
  "resolve_agents ex tid plan events =
     (if dimension_value AgentName \<notin> set (qp_group_by plan) then Inr []
      else case mx_run_repo ex of None \<Rightarrow> Inr []
      | Some repo \<Rightarrow> res_traverse (\<lambda>i. res_bind (rp_get repo tid i) (\<lambda>r.
          Inr (i, case r of None \<Rightarrow> UNKNOWN_AGENT
            | Some r \<Rightarrow> (case run_agent_name r of None \<Rightarrow> UNKNOWN_AGENT | Some a \<Rightarrow> a))))
          (remdups (map ce_run_id events)))"

definition group_keys ::
  "query_plan \<Rightarrow> cost_event list \<Rightarrow> outcome_event list \<Rightarrow> (run_id, string) dict \<Rightarrow> string \<Rightarrow> group_key list" where
  "group_keys plan events outcomes agents tenant_value =
     (if qp_group_by plan = [] then [[]]
      else let keys = dedup_by (\<lambda>k. k) [] (filter (\<lambda>k. k \<noteq> [])
          (map (\<lambda>e. cost_group_key e (qp_group_by plan) agents tenant_value) events @
           map (\<lambda>e. outcome_group_key e (qp_group_by plan)) outcomes)) in
        if keys = [] then [[]] else keys)"

section \<open>Producing runs\<close>

text \<open>The test \<open>_numerator_events\<close> and \<open>_outcomes_per_run\<close> share.\<close>

definition counted :: "outcome_event \<Rightarrow> bool" where
  "counted e \<longleftrightarrow> oe_signal_class e = OutcomeConfirmed \<and>
     (case ob_tier (oe_binding e) of None \<Rightarrow> False | Some t \<Rightarrow> is_billing_grade t)"

definition runs_for_entities ::
  "run_port option \<Rightarrow> tenant_id \<Rightarrow> outcome_event list \<Rightarrow> entity_alias list \<Rightarrow> run_id list res" where
  "runs_for_entities run_repo tid outcomes aliases =
     (case run_repo of None \<Rightarrow> Inr []
      | Some repo \<Rightarrow> res_bind
          (res_traverse (\<lambda>key. res_bind (rp_list_by_entity repo tid key) (\<lambda>rs. Inr (map run_id rs)))
            (concat (map (\<lambda>ek. resolve_aliases ek aliases) (concat (map oe_entity_keys outcomes)))))
          (\<lambda>ids. Inr (concat ids)))"

definition cost_over_verified :: "query_plan \<Rightarrow> bool" where
  "cost_over_verified plan \<longleftrightarrow> qp_numerator plan = TotalCostUsd \<and> qp_denominator plan = VerifiedOutcomeCount"

definition producing_runs ::
  "outcome_event list \<Rightarrow> run_port option \<Rightarrow> tenant_id \<Rightarrow> entity_alias list \<Rightarrow> run_id list res" where
  "producing_runs outcomes run_repo tid aliases =
     (let cs = filter counted outcomes in
      res_bind (runs_for_entities run_repo tid (filter (\<lambda>e. ob_run_id (oe_binding e) = None) cs) aliases)
        (\<lambda>by_entity. Inr (List.map_filter (\<lambda>e. ob_run_id (oe_binding e)) cs @ by_entity)))"

definition numerator_events ::
  "query_plan \<Rightarrow> cost_event list \<Rightarrow> outcome_event list \<Rightarrow> run_port option \<Rightarrow> tenant_id \<Rightarrow> entity_alias list
    \<Rightarrow> cost_event list res" where
  "numerator_events plan events outcomes run_repo tid aliases =
     (if \<not> cost_over_verified plan then Inr events
      else res_bind (producing_runs outcomes run_repo tid aliases) (\<lambda>producing.
        if producing = [] then Inr events
        else Inr (filter (\<lambda>e. ce_run_id e \<in> set producing) events)))"

fun count_outcomes ::
  "run_port option \<Rightarrow> tenant_id \<Rightarrow> entity_alias list \<Rightarrow> (run_id, int) dict \<Rightarrow> outcome_event list
    \<Rightarrow> (run_id, int) dict res" where
  "count_outcomes run_repo tid aliases counts [] = Inr counts"
| "count_outcomes run_repo tid aliases counts (e # es) =
     (if oe_signal_class e \<noteq> OutcomeConfirmed then count_outcomes run_repo tid aliases counts es
      else if (case ob_tier (oe_binding e) of None \<Rightarrow> True | Some t \<Rightarrow> \<not> is_billing_grade t)
      then count_outcomes run_repo tid aliases counts es
      else case ob_run_id (oe_binding e) of
        Some i \<Rightarrow> count_outcomes run_repo tid aliases (counter_add i counts) es
      | None \<Rightarrow> res_bind (runs_for_entities run_repo tid [e] aliases) (\<lambda>ids.
          count_outcomes run_repo tid aliases (foldl (\<lambda>c i. counter_add i c) counts (remdups ids)) es))"

definition outcomes_per_run ::
  "query_plan \<Rightarrow> outcome_event list \<Rightarrow> run_port option \<Rightarrow> tenant_id \<Rightarrow> entity_alias list \<Rightarrow> (run_id, int) dict res" where
  "outcomes_per_run plan outcomes run_repo tid aliases =
     (if \<not> cost_over_verified plan then Inr []
      else res_bind (count_outcomes run_repo tid aliases [] outcomes) (\<lambda>counts.
        Inr (filter (\<lambda>(i, n). 1 < n) counts)))"

definition attribution_shares ::
  "query_plan \<Rightarrow> outcome_event list \<Rightarrow> run_port option \<Rightarrow> tenant_id \<Rightarrow> entity_alias list \<Rightarrow> (run_id, rat) dict res" where
  "attribution_shares plan outcomes run_repo tid aliases =
     (if dimension_value OutcomeName \<notin> set (qp_group_by plan) then Inr []
      else res_bind (outcomes_per_run plan outcomes run_repo tid aliases) (\<lambda>ns.
        Inr (map (\<lambda>(i, n). (i, ddiv 1 (of_int n))) ns)))"

section \<open>Cells\<close>

definition confirmed_count :: "outcome_event list \<Rightarrow> int" where
  "confirmed_count outcomes = int (length (filter (\<lambda>e. oe_signal_class e = OutcomeConfirmed) outcomes))"

definition share_of :: "(run_id, rat) dict \<Rightarrow> run_id \<Rightarrow> rat" where
  "share_of shares i = (case dict_get shares i of None \<Rightarrow> 1 | Some s \<Rightarrow> s)"

definition cost_loop :: "(run_id, rat) dict \<Rightarrow> cost_event list \<Rightarrow> rat" where
  "cost_loop shares events =
     foldl (\<lambda>t e. case ce_cost_usd e of None \<Rightarrow> t | Some c \<Rightarrow> dadd t (dmul c (share_of shares (ce_run_id e)))) 0 events"

definition numerator_value ::
  "measure_token \<Rightarrow> cost_event list \<Rightarrow> outcome_event list \<Rightarrow> (run_id, rat) dict \<Rightarrow> rat" where
  "numerator_value m events outcomes shares =
     (if m = TotalCostUsd then cost_loop shares events
      else if m = AttemptCount then of_nat (length events)
      else of_int (confirmed_count outcomes))"

definition denominator_value ::
  "measure_token \<Rightarrow> cost_event list \<Rightarrow> outcome_event list \<Rightarrow> denominator_breakdown \<Rightarrow> int" where
  "denominator_value m events outcomes b =
     (if m = VerifiedOutcomeCount then dbk_verified_count b
      else if m = OutcomeCount then confirmed_count outcomes
      else int (length events))"

definition ratio :: "rat \<Rightarrow> int \<Rightarrow> rat option res" where
  "ratio n k = (if k = 0 then Inr None else res_bind (quantize 2 (ddiv n (of_int k))) (\<lambda>v. Inr (Some v)))"

definition confidence :: "(binding_tier, int) dict \<Rightarrow> rollup_confidence res" where
  "confidence distr =
     (let tiers = concat (map (\<lambda>(t, n). replicate (nat n) t) distr) in
      if tiers = [] then rollup_confidence_new Likely [(Likely, 1)] else propagate tiers)"

definition build_cell ::
  "metric_executor \<Rightarrow> query_plan \<Rightarrow> group_key \<Rightarrow> cost_event list \<Rightarrow> outcome_event list \<Rightarrow> (run_id, string) dict
    \<Rightarrow> string \<Rightarrow> tenant_id \<Rightarrow> entity_alias list \<Rightarrow> (run_id, rat) dict \<Rightarrow> (run_id, int) dict \<Rightarrow> metric_cell res" where
  "build_cell ex plan key events outcomes agents tenant_value tid aliases shares overlapping =
     (let cell_events = filter (\<lambda>e. matches_key (cost_group_key e (qp_group_by plan) agents tenant_value) key) events;
          cell_outcomes = filter (\<lambda>e. matches_key (outcome_group_key e (qp_group_by plan)) key) outcomes in
      res_bind (numerator_events plan cell_events cell_outcomes (mx_run_repo ex) tid aliases) (\<lambda>nevents.
      let numerator = numerator_value (qp_numerator plan) nevents cell_outcomes shares;
          breakdown = denominator_outcomes cell_outcomes;
          denominator = denominator_value (qp_denominator plan) cell_events cell_outcomes breakdown in
      res_bind (ratio numerator denominator) (\<lambda>value.
      res_bind (confidence (dbk_tier_distribution breakdown)) (\<lambda>conf.
        Inr \<lparr>mc_group_key = key, mc_numerator_value = numerator, mc_denominator_value = denominator,
             mc_value = value, mc_confidence = conf,
             mc_advisory_excluded_count = dbk_advisory_excluded_count breakdown,
             mc_retracted_excluded_count = dbk_retracted_excluded_count breakdown,
             mc_shared_attribution_count = int (length (filter (\<lambda>e. dict_get overlapping (ce_run_id e) \<noteq> None) nevents)),
             mc_causal_evidence = propagate_causal_evidence (map (\<lambda>e. ob_causal_evidence (oe_binding e)) cell_outcomes)\<rparr>))))"

definition run_plan ::
  "metric_executor \<Rightarrow> tenant_id \<Rightarrow> query_plan \<Rightarrow> metric_window \<Rightarrow> outcome_event list \<Rightarrow> entity_alias list
    \<Rightarrow> metric_result res" where
  "run_plan ex tid plan window outcomes aliases =
     res_bind (mx_list_in_window ex tid (mw_start window) (mw_end window)) (\<lambda>all_events.
     let events = filter (\<lambda>e. cost_matches_filters e (qp_filters plan)) all_events in
     res_bind (resolve_agents ex tid plan events) (\<lambda>agents.
     res_bind (attribution_shares plan outcomes (mx_run_repo ex) tid aliases) (\<lambda>shares.
     res_bind (outcomes_per_run plan outcomes (mx_run_repo ex) tid aliases) (\<lambda>overlapping.
     res_bind (res_traverse (\<lambda>key. build_cell ex plan key events outcomes agents tid tid aliases shares overlapping)
         (group_keys plan events outcomes agents tid)) (\<lambda>cells.
       Inr \<lparr>mr_name = qp_name plan, mr_cells = cells,
            mr_requires_reemit = (\<exists>c \<in> set cells. 0 < mc_retracted_excluded_count c)\<rparr>)))))"

section \<open>The capability\<close>

text \<open>
  The candidate outcomes are a fixed sequence, a provider called with the tenant, or a
  provider called with nothing (calling it with the tenant raises \<open>TypeError\<close> first).
\<close>

datatype outcome_source =
    StaticOutcomes "outcome_event list"
  | TenantProvider "tenant_id \<Rightarrow> outcome_event list res"
  | NullaryProvider "outcome_event list res"

record metric_runtime =
  mrt_tenant_id :: tenant_id
  mrt_executor :: metric_executor
  mrt_window :: metric_window
  mrt_outcomes :: outcome_source

fun resolve_outcomes :: "outcome_source \<Rightarrow> tenant_id \<Rightarrow> outcome_event list res" where
  "resolve_outcomes (StaticOutcomes es) tid = Inr es"
| "resolve_outcomes (TenantProvider p) tid = p tid"
| "resolve_outcomes (NullaryProvider p) tid = p"

text \<open>The holders of the registered registries; \<open>None\<close> inside is a holder not yet bound.\<close>

type_synonym 'r holders = "'r \<Rightarrow> metric_runtime option option"

definition register_metrics :: "'r \<Rightarrow> 'r holders \<Rightarrow> 'r holders" where
  "register_metrics r hs = (if hs r = None then hs(r := Some None) else hs)"

definition bind_metric_runtime :: "'r \<Rightarrow> metric_runtime \<Rightarrow> 'r holders \<Rightarrow> 'r holders res" where
  "bind_metric_runtime r rt hs = (if hs r = None then Inl MetricsNotWiredError else Inr (hs(r := Some (Some rt))))"

definition require_metric_runtime :: "metric_runtime option \<Rightarrow> metric_runtime res" where
  "require_metric_runtime h = (case h of None \<Rightarrow> Inl MetricsNotWiredError | Some rt \<Rightarrow> Inr rt)"

definition run_metric_handler ::
  "metric_runtime option \<Rightarrow> tenant_id option \<Rightarrow> metric_definition \<Rightarrow> metric_result res" where
  "run_metric_handler holder active_tenant d =
     res_bind (require_metric_runtime holder) (\<lambda>rt.
     res_bind (compile_plan d) (\<lambda>plan.
     let tenant = (case active_tenant of None \<Rightarrow> mrt_tenant_id rt | Some t \<Rightarrow> t) in
     res_bind (resolve_outcomes (mrt_outcomes rt) tenant) (\<lambda>outcomes.
       run_plan (mrt_executor rt) tenant plan (mrt_window rt) outcomes [])))"

text \<open>The ports over the SQL store, as the server wires them.\<close>

definition store_executor :: "db \<Rightarrow> metric_executor" where
  "store_executor d = \<lparr>mx_list_in_window = cost_list_in_window d,
     mx_run_repo = Some \<lparr>rp_get = run_get d, rp_list_by_entity = run_list_by_entity d\<rparr>\<rparr>"

definition WINDOW_START :: instant where "WINDOW_START = 0"

definition WINDOW_END :: instant where "WINDOW_END = 253402214400000000"

definition server_metric_runtime :: "db \<Rightarrow> tenant_id \<Rightarrow> metric_runtime" where
  "server_metric_runtime d fallback =
     \<lparr>mrt_tenant_id = fallback, mrt_executor = store_executor d,
      mrt_window = \<lparr>mw_start = WINDOW_START, mw_end = WINDOW_END\<rparr>,
      mrt_outcomes = TenantProvider (\<lambda>tenant. outcome_list_in_window d tenant WINDOW_START WINDOW_END)\<rparr>"

section \<open>What a cell counts\<close>

lemma causal_evidence_Min: "cs \<noteq> [] \<Longrightarrow> propagate_causal_evidence cs = Min (set cs)"
proof (cases cs)
  case (Cons c cs')
  have "first_min causal_index c cs' = Min (insert c (set cs'))"
  proof (rule Min_eqI [symmetric])
    show "first_min causal_index c cs' \<in> insert c (set cs')" by (rule first_min_in)
    show "first_min causal_index c cs' \<le> y" if "y \<in> insert c (set cs')" for y
      using first_min_le [OF that, of causal_index] by (simp add: causal_order_defs)
  qed simp
  with Cons show ?thesis by simp
qed simp

definition settled_tiers :: "outcome_event list \<Rightarrow> binding_tier list" where
  "settled_tiers es = List.map_filter (\<lambda>e. if oe_signal_class e = ActionAttempted then None else ob_tier (oe_binding e)) es"

text \<open>The loop over the outcomes counts each in exactly one class.\<close>

lemma counter_add_count: "counter_add t (count_tiers ts) = count_tiers (ts @ [t])"
  by (simp add: counter_add_def count_tiers_def)

lemma denominator_outcomes_counts:
  "denominator_outcomes es =
     \<lparr>dbk_verified_count = int (length (filter counted es)),
      dbk_advisory_excluded_count = int (length (filter (\<lambda>e. oe_signal_class e = OutcomeConfirmed \<and> \<not> counted e) es)),
      dbk_attempted_excluded_count = int (length (filter (\<lambda>e. oe_signal_class e = ActionAttempted) es)),
      dbk_retracted_excluded_count = int (length (filter (\<lambda>e. oe_signal_class e = OutcomeRetracted) es)),
      dbk_tier_distribution = count_tiers (settled_tiers es)\<rparr>"
proof (induction es rule: rev_induct)
  case Nil
  then show ?case by (simp add: denominator_outcomes_def settled_tiers_def count_tiers_def List.map_filter_simps)
next
  case (snoc e es)
  have "denominator_outcomes (es @ [e]) = denominator_step (denominator_outcomes es) e"
    by (simp add: denominator_outcomes_def)
  also have "\<dots> = \<lparr>dbk_verified_count = int (length (filter counted (es @ [e]))),
      dbk_advisory_excluded_count = int (length (filter (\<lambda>e. oe_signal_class e = OutcomeConfirmed \<and> \<not> counted e) (es @ [e]))),
      dbk_attempted_excluded_count = int (length (filter (\<lambda>e. oe_signal_class e = ActionAttempted) (es @ [e]))),
      dbk_retracted_excluded_count = int (length (filter (\<lambda>e. oe_signal_class e = OutcomeRetracted) (es @ [e]))),
      dbk_tier_distribution = count_tiers (settled_tiers (es @ [e]))\<rparr>"
    unfolding snoc.IH denominator_step_def settled_tiers_def
    by (cases "oe_signal_class e"; cases "ob_tier (oe_binding e)")
      (simp_all add: Let_def counted_def counter_add_count List.map_filter_def)
  finally show ?case .
qed

lemma length_filter_split:
  "length xs = length (filter P xs) + length (filter (\<lambda>x. Q x \<and> \<not> P x) xs) +
     length (filter (\<lambda>x. \<not> Q x \<and> \<not> P x) xs)"
  by (induction xs) auto

definition expand_counts :: "(binding_tier, int) dict \<Rightarrow> binding_tier list" where
  "expand_counts d = concat (map (\<lambda>(t, n). replicate (nat n) t) d)"

lemma count_list_replicate: "count_list (replicate n x) y = (if x = y then n else 0)"
  by (induction n) auto

lemma expand_counts_count:
  "dict_ok d \<Longrightarrow> count_list (expand_counts d) t = (case dict_get d t of None \<Rightarrow> 0 | Some n \<Rightarrow> nat n)"
proof (induction d)
  case (Cons p d)
  obtain t' n where p: "p = (t', n)" by fastforce
  have "dict_ok d" "dict_get d t' = None"
    using Cons.prems p by (auto simp: dict_ok_def map_of_eq_None_iff)
  with Cons.IH p show ?case
    by (auto simp: expand_counts_def count_list_append count_list_replicate)
qed (simp add: expand_counts_def)

lemma expand_count_tiers: "count_list (expand_counts (count_tiers ts)) t = count_list ts t"
  using count_list_0_iff [of ts t] by (auto simp: expand_counts_count [OF count_tiers_ok] count_tiers_get)

lemma expand_count_tiers_set: "set (expand_counts (count_tiers ts)) = set ts"
  using expand_count_tiers [of ts] by (metis count_list_0_iff subsetI subset_antisym)

text \<open>The confidence of a cell: least trusted settled tier, with every settled tier counted.\<close>

lemma confidence_settled:
  "\<exists>c. confidence (count_tiers ts) = Inr c \<and>
     rc_minimum_tier c = (if ts = [] then Likely else Min (set ts)) \<and>
     (ts \<noteq> [] \<longrightarrow> (\<forall>t. dict_get (rc_distribution c) t = dict_get (count_tiers ts) t))"
proof (cases "ts = []")
  case True
  have "rollup_confidence_new Likely [(Likely, 1)] = Inr \<lparr>rc_minimum_tier = Likely, rc_distribution = [(Likely, 1)]\<rparr>"
    by (simp add: rollup_confidence_new_def)
  with True show ?thesis by (simp add: confidence_def count_tiers_def)
next
  case False
  let ?ex = "expand_counts (count_tiers ts)"
  have "?ex \<noteq> []" using expand_count_tiers_set [of ts] False by auto
  then have "confidence (count_tiers ts) = Inr \<lparr>rc_minimum_tier = Min (set ?ex), rc_distribution = count_tiers ?ex\<rparr>"
    using propagate_nonempty [of ?ex] by (simp add: confidence_def Let_def expand_counts_def [symmetric])
  moreover have "dict_get (count_tiers ?ex) t = dict_get (count_tiers ts) t" for t
    by (simp add: count_tiers_get expand_count_tiers expand_count_tiers_set)
  ultimately show ?thesis using False by (simp add: expand_count_tiers_set)
qed

definition cell_outcomes :: "query_plan \<Rightarrow> group_key \<Rightarrow> outcome_event list \<Rightarrow> outcome_event list" where
  "cell_outcomes plan key outcomes = filter (\<lambda>e. matches_key (outcome_group_key e (qp_group_by plan)) key) outcomes"

text \<open>What a published cell says about the outcomes of its group.\<close>

definition cell_honest :: "query_plan \<Rightarrow> outcome_event list \<Rightarrow> metric_cell \<Rightarrow> bool" where
  "cell_honest plan outcomes c \<longleftrightarrow>
     (let es = cell_outcomes plan (mc_group_key c) outcomes in
      (qp_denominator plan = VerifiedOutcomeCount \<longrightarrow> mc_denominator_value c = int (length (filter counted es))) \<and>
      mc_retracted_excluded_count c = int (length (filter (\<lambda>e. oe_signal_class e = OutcomeRetracted) es)) \<and>
      mc_advisory_excluded_count c = int (length (filter (\<lambda>e. oe_signal_class e = OutcomeConfirmed \<and> \<not> counted e) es)) \<and>
      (mc_value c = None \<longleftrightarrow> mc_denominator_value c = 0) \<and>
      (\<forall>v. mc_value c = Some v \<longrightarrow>
         \<bar>v - dec (mc_numerator_value c / of_int (mc_denominator_value c))\<bar> \<le> 1 / 200) \<and>
      rc_minimum_tier (mc_confidence c) = (if settled_tiers es = [] then Likely else Min (set (settled_tiers es))) \<and>
      (es \<noteq> [] \<longrightarrow> mc_causal_evidence c = Min ((\<lambda>e. ob_causal_evidence (oe_binding e)) ` set es)) \<and>
      (es = [] \<longrightarrow> mc_causal_evidence c = Observational))"

lemma ratio_Inr:
  assumes "ratio n k = Inr v"
  shows "v = None \<longleftrightarrow> k = 0" "v = Some w \<Longrightarrow> \<bar>w - dec (n / of_int k)\<bar> \<le> 1 / 200"
  using assms quantize_error [of 2 "ddiv n (of_int k)"] by (auto simp: ratio_def ddiv_def split: if_splits)

lemma build_cell_honest:
  assumes "build_cell ex plan key events outcomes agents tv tid aliases shares overlapping = Inr c"
  shows "cell_honest plan outcomes c" "mc_group_key c = key"
proof -
  let ?es = "cell_outcomes plan key outcomes"
  obtain nev v conf n where
    c: "mc_group_key c = key" "mc_numerator_value c = n" "mc_value c = v" "mc_confidence c = conf"
       "mc_advisory_excluded_count c = dbk_advisory_excluded_count (denominator_outcomes ?es)"
       "mc_retracted_excluded_count c = dbk_retracted_excluded_count (denominator_outcomes ?es)"
       "mc_causal_evidence c = propagate_causal_evidence (map (\<lambda>e. ob_causal_evidence (oe_binding e)) ?es)"
       "mc_denominator_value c = denominator_value (qp_denominator plan)
          (filter (\<lambda>e. matches_key (cost_group_key e (qp_group_by plan) agents tv) key) events) ?es (denominator_outcomes ?es)"
    and r: "ratio n (mc_denominator_value c) = Inr v"
    and conf: "confidence (dbk_tier_distribution (denominator_outcomes ?es)) = Inr conf"
    using assms unfolding build_cell_def Let_def cell_outcomes_def [symmetric] by fastforce
  have "rc_minimum_tier conf = (if settled_tiers ?es = [] then Likely else Min (set (settled_tiers ?es)))"
    using conf confidence_settled [of "settled_tiers ?es"] by (auto simp: denominator_outcomes_counts)
  moreover have "?es \<noteq> [] \<Longrightarrow> mc_causal_evidence c = Min ((\<lambda>e. ob_causal_evidence (oe_binding e)) ` set ?es)"
    using causal_evidence_Min [of "map (\<lambda>e. ob_causal_evidence (oe_binding e)) ?es"] by (simp add: c)
  moreover have "?es = [] \<Longrightarrow> mc_causal_evidence c = Observational" by (simp add: c)
  ultimately show "cell_honest plan outcomes c"
    unfolding cell_honest_def Let_def c(1)
    using ratio_Inr [OF r] by (auto simp: c denominator_outcomes_counts denominator_value_def)
qed (use assms in \<open>auto simp: build_cell_def Let_def\<close>)

section \<open>Every outcome reaches a cell\<close>

lemma foldl_dict_set_get:
  "dict_get (foldl (\<lambda>d (f, v). dict_set f v d) d0 ps) f =
     (case map_of (rev ps) f of None \<Rightarrow> dict_get d0 f | Some v \<Rightarrow> Some v)"
proof (induction ps rule: rev_induct)
  case (snoc p ps)
  then show ?case by (cases p) auto
qed simp

lemma matches_key_refl:
  assumes "\<And>f v w. (f, v) \<in> set k \<Longrightarrow> (f, w) \<in> set k \<Longrightarrow> v = w"
  shows "matches_key k k"
proof -
  have "map_of (rev k) f = Some v" if "(f, v) \<in> set k" for f v
  proof -
    have "f \<in> fst ` set (rev k)" using that by force
    then obtain w where w: "map_of (rev k) f = Some w"
      by (metis map_of_eq_None_iff not_None_eq)
    then have "(f, w) \<in> set k" using map_of_SomeD by fastforce
    with assms that w show ?thesis by blast
  qed
  then show ?thesis by (auto simp: matches_key_def Let_def foldl_dict_set_get list_all_iff)
qed

lemma outcome_group_key_mem:
  "(f, v) \<in> set (outcome_group_key e ds) \<Longrightarrow> f = dimension_value OutcomeName \<and> v = oe_name e"
  by (induction e ds rule: outcome_group_key.induct) (auto split: if_splits)

lemma outcome_key_matches: "matches_key (outcome_group_key e ds) (outcome_group_key e ds)"
  by (rule matches_key_refl) (use outcome_group_key_mem in blast)

lemma cost_group_key_mem:
  "(f, v) \<in> set (cost_group_key e ds agents tv) \<Longrightarrow>
     v = (if f = dimension_value Provider then ce_provider e
          else if f = dimension_value Model then ce_model e
          else if f = dimension_value AgentName
          then (case dict_get agents (ce_run_id e) of None \<Rightarrow> UNKNOWN_AGENT | Some a \<Rightarrow> a)
          else tv)"
proof (induction ds)
  case (Cons d ds)
  then show ?case by (cases "(f, v) \<in> set (cost_group_key e ds agents tv)") (simp_all split: if_splits)
qed simp

lemma cost_key_matches: "matches_key (cost_group_key e ds agents tv) (cost_group_key e ds agents tv)"
proof (rule matches_key_refl)
  fix f v w
  assume "(f, v) \<in> set (cost_group_key e ds agents tv)" "(f, w) \<in> set (cost_group_key e ds agents tv)"
  from this [THEN cost_group_key_mem] show "v = w" by (rule trans [OF _ sym])
qed

lemma group_keys_nonempty: "group_keys plan events outcomes agents tv \<noteq> []"
  by (simp add: group_keys_def Let_def)

lemma group_keys_distinct: "distinct (group_keys plan events outcomes agents tv)"
proof -
  have "distinct (dedup_by (\<lambda>k. k) [] ks)" for ks :: "group_key list"
    using dedup_by_distinct [of "\<lambda>k. k" "[]" ks] by simp
  then show ?thesis unfolding group_keys_def Let_def by auto
qed

lemma group_keys_mem:
  assumes "k \<noteq> []"
    and "k \<in> (\<lambda>e. cost_group_key e (qp_group_by plan) agents tv) ` set events \<union>
           (\<lambda>e. outcome_group_key e (qp_group_by plan)) ` set outcomes"
  shows "k \<in> set (group_keys plan events outcomes agents tv)"
proof -
  let ?l = "filter (\<lambda>k. k \<noteq> []) (map (\<lambda>e. cost_group_key e (qp_group_by plan) agents tv) events @
           map (\<lambda>e. outcome_group_key e (qp_group_by plan)) outcomes)"
  have "k \<in> set (dedup_by (\<lambda>k. k) [] ?l)"
    using dedup_by_keys [of "\<lambda>k. k" "[]" ?l] assms by auto
  moreover have "qp_group_by plan \<noteq> []" using assms by auto
  ultimately show ?thesis unfolding group_keys_def Let_def by auto
qed

lemma outcome_in_cell:
  assumes "e \<in> set outcomes"
  shows "\<exists>k \<in> set (group_keys plan events outcomes agents tv). e \<in> set (cell_outcomes plan k outcomes)"
proof (cases "outcome_group_key e (qp_group_by plan) = []")
  case True
  obtain k where "k \<in> set (group_keys plan events outcomes agents tv)"
    using group_keys_nonempty by (meson list.set_sel(1))
  with True assms show ?thesis by (auto simp: cell_outcomes_def matches_key_def)
next
  case False
  then have "outcome_group_key e (qp_group_by plan) \<in> set (group_keys plan events outcomes agents tv)"
    using assms by (intro group_keys_mem) auto
  with assms outcome_key_matches show ?thesis unfolding cell_outcomes_def by fastforce
qed

lemma run_plan_Inr:
  assumes "run_plan ex tid plan window outcomes aliases = Inr r"
  obtains evs agents shares overlapping where
    "mx_list_in_window ex tid (mw_start window) (mw_end window) = Inr evs"
    "attribution_shares plan outcomes (mx_run_repo ex) tid aliases = Inr shares"
    "res_traverse (\<lambda>key. build_cell ex plan key (filter (\<lambda>e. cost_matches_filters e (qp_filters plan)) evs)
        outcomes agents tid tid aliases shares overlapping)
       (group_keys plan (filter (\<lambda>e. cost_matches_filters e (qp_filters plan)) evs) outcomes agents tid) = Inr (mr_cells r)"
    "mr_requires_reemit r = (\<exists>c \<in> set (mr_cells r). 0 < mc_retracted_excluded_count c)" "mr_name r = qp_name plan"
  using assms unfolding run_plan_def Let_def by (auto intro: that)

lemma traverse_cells:
  assumes "res_traverse f ks = Inr cs" "\<And>k c. f k = Inr c \<Longrightarrow> P c \<and> g c = k"
  shows "\<forall>c \<in> set cs. P c" "map g cs = ks"
proof -
  from assms(1) have l: "list_all2 (\<lambda>k c. f k = Inr c) ks cs" by (simp add: res_traverse_Inr_iff)
  then have "list_all2 (\<lambda>k c. P c \<and> g c = k) ks cs" by (rule list_all2_mono) (use assms(2) in blast)
  then show "\<forall>c \<in> set cs. P c" "map g cs = ks"
    by (induction ks cs rule: list_all2_induct) auto
qed

text \<open>
  C2. A metric result is honest: one cell per group key; in each cell a verified denominator
  is exactly the number of confirmed outcomes bound at a billing-grade tier, advisory and
  retracted outcomes are in their own counts, a value is published exactly when the
  denominator is not zero and lies within half a cent of the ratio, the headline tier is
  the least trusted settled tier and the causal evidence the weakest of the members. The
  result asks for a re-emit exactly when some candidate outcome was retracted: no outcome is
  dropped by the grouping.
\<close>

theorem metric_cells_honest:
  assumes "run_plan ex tid plan window outcomes aliases = Inr r"
  shows "(\<forall>c \<in> set (mr_cells r). cell_honest plan outcomes c) \<and> distinct (map mc_group_key (mr_cells r)) \<and>
     (mr_requires_reemit r \<longleftrightarrow> (\<exists>e \<in> set outcomes. oe_signal_class e = OutcomeRetracted))"
proof -
  from assms obtain evs agents shares overlapping where
    t: "res_traverse (\<lambda>key. build_cell ex plan key (filter (\<lambda>e. cost_matches_filters e (qp_filters plan)) evs)
        outcomes agents tid tid aliases shares overlapping)
       (group_keys plan (filter (\<lambda>e. cost_matches_filters e (qp_filters plan)) evs) outcomes agents tid) = Inr (mr_cells r)"
    and re: "mr_requires_reemit r = (\<exists>c \<in> set (mr_cells r). 0 < mc_retracted_excluded_count c)"
    by (elim run_plan_Inr)
  have honest: "\<forall>c \<in> set (mr_cells r). cell_honest plan outcomes c"
    by (rule traverse_cells(1) [OF t, where g = mc_group_key]) (rule conjI, erule build_cell_honest(1), erule build_cell_honest(2))
  have keys: "map mc_group_key (mr_cells r) =
      group_keys plan (filter (\<lambda>e. cost_matches_filters e (qp_filters plan)) evs) outcomes agents tid"
    by (rule traverse_cells(2) [OF t, where P = "cell_honest plan outcomes"]) (rule conjI, erule build_cell_honest(1), erule build_cell_honest(2))
  have "0 < mc_retracted_excluded_count c \<longleftrightarrow>
      (\<exists>e \<in> set (cell_outcomes plan (mc_group_key c) outcomes). oe_signal_class e = OutcomeRetracted)"
    if "c \<in> set (mr_cells r)" for c
    using honest that by (auto simp: cell_honest_def Let_def length_greater_0_conv filter_empty_conv)
  then have "mr_requires_reemit r \<longleftrightarrow> (\<exists>c \<in> set (mr_cells r).
      \<exists>e \<in> set (cell_outcomes plan (mc_group_key c) outcomes). oe_signal_class e = OutcomeRetracted)"
    unfolding re by (metis (no_types, lifting))
  also have "\<dots> \<longleftrightarrow> (\<exists>k \<in> set (map mc_group_key (mr_cells r)).
      \<exists>e \<in> set (cell_outcomes plan k outcomes). oe_signal_class e = OutcomeRetracted)" by auto
  also have "\<dots> \<longleftrightarrow> (\<exists>e \<in> set outcomes. oe_signal_class e = OutcomeRetracted)"
    unfolding keys using outcome_in_cell by (fastforce simp: cell_outcomes_def)
  finally show ?thesis using honest keys group_keys_distinct by simp
qed


definition retracted_sample :: outcome_event where
  "retracted_sample = sample_outcome\<lparr>oe_id := ''o2'', oe_signal_class := OutcomeRetracted\<rparr>"

theorem metric_cells_honest_witness:
  "\<exists>r. run_plan (store_executor empty_db) ''t'' (plan_for sample_metric TotalCostUsd VerifiedOutcomeCount)
        \<lparr>mw_start = 0, mw_end = 10\<rparr> [sample_outcome, retracted_sample] [] = Inr r \<and> mr_requires_reemit r"
proof -
  let ?p = "run_plan (store_executor empty_db) ''t'' (plan_for sample_metric TotalCostUsd VerifiedOutcomeCount)
        \<lparr>mw_start = 0, mw_end = 10\<rparr> [sample_outcome, retracted_sample] []"
  have "map_sum id (\<lambda>r. ()) ?p = Inr ()" by code_simp
  then obtain r where r: "?p = Inr r" by (cases ?p) auto
  have "oe_signal_class retracted_sample = OutcomeRetracted" by (simp add: retracted_sample_def)
  with metric_cells_honest [OF r] r show ?thesis by auto
qed

section \<open>Tenant isolation\<close>

text \<open>Two executors that answer alike for one tenant.\<close>

definition same_ports :: "tenant_id \<Rightarrow> metric_executor \<Rightarrow> metric_executor \<Rightarrow> bool" where
  "same_ports tid ex ex' \<longleftrightarrow> mx_list_in_window ex tid = mx_list_in_window ex' tid \<and>
     rel_option (\<lambda>p p'. rp_get p tid = rp_get p' tid \<and> rp_list_by_entity p tid = rp_list_by_entity p' tid)
       (mx_run_repo ex) (mx_run_repo ex')"

lemma same_ports_entities:
  "same_ports tid ex ex' \<Longrightarrow>
     runs_for_entities (mx_run_repo ex) tid es aliases = runs_for_entities (mx_run_repo ex') tid es aliases"
  unfolding same_ports_def by (auto simp: runs_for_entities_def elim!: option.rel_cases)

lemma same_ports_count:
  "same_ports tid ex ex' \<Longrightarrow>
     count_outcomes (mx_run_repo ex) tid aliases cs es = count_outcomes (mx_run_repo ex') tid aliases cs es"
  by (induction es arbitrary: cs) (simp_all add: same_ports_entities split: option.split)

lemma same_ports_shares:
  assumes "same_ports tid ex ex'"
  shows "outcomes_per_run plan es (mx_run_repo ex) tid aliases = outcomes_per_run plan es (mx_run_repo ex') tid aliases"
    "attribution_shares plan es (mx_run_repo ex) tid aliases = attribution_shares plan es (mx_run_repo ex') tid aliases"
  by (simp_all only: outcomes_per_run_def attribution_shares_def same_ports_count [OF assms])

lemma same_ports_agents:
  "same_ports tid ex ex' \<Longrightarrow> resolve_agents ex tid plan es = resolve_agents ex' tid plan es"
  unfolding same_ports_def by (auto simp: resolve_agents_def elim!: option.rel_cases)

lemma same_ports_cell:
  assumes "same_ports tid ex ex'"
  shows "build_cell ex plan key events es agents tv tid aliases shares ov =
     build_cell ex' plan key events es agents tv tid aliases shares ov"
  by (simp only: build_cell_def numerator_events_def producing_runs_def same_ports_entities [OF assms])

lemma same_ports_run:
  assumes "same_ports tid ex ex'"
  shows "run_plan ex tid plan window es aliases = run_plan ex' tid plan window es aliases"
proof -
  have "mx_list_in_window ex tid = mx_list_in_window ex' tid" using assms by (simp add: same_ports_def)
  then show ?thesis
    by (simp only: run_plan_def same_ports_shares [OF assms] same_ports_agents [OF assms] same_ports_cell [OF assms])
qed

text \<open>The rows of a tenant in the tables a metric reads.\<close>

definition tenant_rows :: "tenant_id \<Rightarrow> db \<Rightarrow> table \<times> table \<times> table" where
  "tenant_rows tid d =
     (require_tenant tid (db_run d), require_tenant tid (db_cost_event d), require_tenant tid (db_outcome_event d))"

lemma same_ports_store: "tenant_rows tid d = tenant_rows tid d' \<Longrightarrow> same_ports tid (store_executor d) (store_executor d')"
  by (simp add: tenant_rows_def same_ports_def store_executor_def fun_eq_iff run_get_def run_list_by_entity_def
      cost_list_in_window_def)

text \<open>
  C4. Tenant isolation of \<open>run_metric\<close> as the server wires it: the answer for the
  authenticated tenant is a function of that tenant's own runs, cost events and outcomes.
  Two databases that hold the same rows for the tenant give the same answer or the same
  error, whatever they hold for other tenants and whatever the startup tenant is; the
  recorded entity aliases are not among the inputs.
\<close>

theorem run_metric_tenant_isolation:
  assumes "tenant_rows t d = tenant_rows t d'"
  shows "run_metric_handler (Some (server_metric_runtime d fb)) (Some t) md =
     run_metric_handler (Some (server_metric_runtime d' fb')) (Some t) md"
proof -
  have "outcome_list_in_window d t = outcome_list_in_window d' t"
    using assms by (simp add: tenant_rows_def outcome_list_in_window_def fun_eq_iff)
  then show ?thesis
    by (simp add: run_metric_handler_def require_metric_runtime_def server_metric_runtime_def
        same_ports_run [OF same_ports_store [OF assms]])
qed

definition other_tenant_db :: db where
  "other_tenant_db = empty_db\<lparr>db_cost_event := [cost_event_to_row ''other'' sample_cost_event]\<rparr>"

theorem run_metric_tenant_isolation_witness:
  "other_tenant_db \<noteq> empty_db \<and>
     run_metric_handler (Some (server_metric_runtime other_tenant_db ''other'')) (Some ''t'') sample_metric =
     run_metric_handler (Some (server_metric_runtime empty_db ''t'')) (Some ''t'') sample_metric"
proof -
  have "tenant_rows ''t'' other_tenant_db = tenant_rows ''t'' empty_db"
    by (simp add: tenant_rows_def other_tenant_db_def empty_db_def require_tenant_def cost_event_to_row_def row_get_def)
  moreover have "other_tenant_db \<noteq> empty_db" by (simp add: other_tenant_db_def empty_db_def)
  ultimately show ?thesis using run_metric_tenant_isolation by blast
qed

section \<open>Two outcomes of one name\<close>

text \<open>One event of ten dollars, whose run produced the same outcome twice.\<close>

definition repeat_executor :: metric_executor where
  "repeat_executor = \<lparr>mx_list_in_window = (\<lambda>_ _ _. Inr [sample_cost_event\<lparr>ce_run_id := ''r'', ce_cost_usd := Some 10\<rparr>]),
     mx_run_repo = None\<rparr>"

definition repeat_outcome :: "outcome_id \<Rightarrow> outcome_event" where
  "repeat_outcome i = sample_outcome\<lparr>oe_id := i, oe_name := ''sale'', oe_signal_class := OutcomeConfirmed,
     oe_binding := outcome_binding_default (Some ''r'') (Some Exact) None\<rparr>"

text \<open>
  The even split of a run's cost divides by the number of outcomes the run produced,
  not by the number of cells they fall into. Grouped by outcome name, a run that produced
  the same outcome twice reaches one cell with half its cost, and the other half is in no
  cell: the single column sums to five of the ten dollars spent.
\<close>

theorem repeated_outcome_halves_cost:
  "map_sum id (\<lambda>r. map (\<lambda>c. (mc_group_key c, mc_numerator_value c, mc_denominator_value c)) (mr_cells r))
     (run_plan repeat_executor ''t'' (plan_for (sample_metric\<lparr>md_filters := []\<rparr>) TotalCostUsd VerifiedOutcomeCount)
        \<lparr>mw_start = 0, mw_end = 10\<rparr> [repeat_outcome ''a'', repeat_outcome ''b''] []) =
   Inr [([(''outcome_name'', ''sale'')], 5, 2)]"
  by code_simp

end
