(* ===== verification/Outcome_Predicate.thy ===== *)
theory Outcome_Predicate
  imports Core_Types Python_Text "HOL-Library.Sublist"
begin

text \<open>
  The predicate language of outcome rules (\<open>packages/outcomes\<close>, \<open>predicate.py\<close>): the
  allowlist over the parsed expression and the interpreter that walks it.

  A value is what the interpreter meets in a namespace: JSON data, numbers, strings, lists,
  mappings with text keys, or an opaque host object, which is truthy and equal only to
  itself. Floats are rationals rounded as doubles (no infinities or NaN). The two
  operations that leave this package are fields of \<open>py_host\<close>: reading an attribute of a
  value that is not a mapping, and \<open>str\<close> of a value other than text, an integer, a boolean
  or \<open>None\<close>. The parser \<open>ast.parse\<close> is a parameter of the compiled forms; its result is a
  syntax tree in which every construct the package does not name is \<open>OtherNode\<close>.

  The main lemma is non-interference: an accepted expression reads nothing but the
  allowlisted roots of its namespace and never an attribute whose name starts with two
  underscores, whatever the host objects offer there.
\<close>

section \<open>Values\<close>

datatype pval =
    PNone
  | PBool bool
  | PInt int
  | PFloat rat
  | PStr string
  | PList "pval list"
  | PMap "(string \<times> pval) list"
  | PHost nat

record py_host =
  ph_attr :: "pval \<Rightarrow> string \<Rightarrow> pval option"
  ph_str :: "pval \<Rightarrow> string"

text \<open>\<open>isinstance(v, (int, float))\<close>, with the number; a boolean is an integer.\<close>

fun num_of :: "pval \<Rightarrow> rat option" where
  "num_of (PBool b) = Some (if b then 1 else 0)"
| "num_of (PInt i) = Some (of_int i)"
| "num_of (PFloat q) = Some q"
| "num_of _ = None"

fun int_of :: "pval \<Rightarrow> int option" where
  "int_of (PBool b) = Some (if b then 1 else 0)"
| "int_of (PInt i) = Some i"
| "int_of _ = None"

fun truthy :: "pval \<Rightarrow> bool" where
  "truthy PNone = False"
| "truthy (PBool b) = b"
| "truthy (PInt i) = (i \<noteq> 0)"
| "truthy (PFloat q) = (q \<noteq> 0)"
| "truthy (PStr s) = (s \<noteq> [])"
| "truthy (PList xs) = (xs \<noteq> [])"
| "truthy (PMap m) = (m \<noteq> [])"
| "truthy (PHost h) = True"

text \<open>
  \<open>==\<close>: numbers by value, lists by position, mappings by key. Equality is syntactic equality
  of normal forms with one numeric constructor and mappings in key order.
\<close>

fun norm_val :: "pval \<Rightarrow> pval" where
  "norm_val (PBool b) = PFloat (if b then 1 else 0)"
| "norm_val (PInt i) = PFloat (of_int i)"
| "norm_val (PList xs) = PList (map norm_val xs)"
| "norm_val (PMap m) = PMap (sort_key fst (map (\<lambda>(k, v). (k, norm_val v)) m))"
| "norm_val v = v"

definition py_eq :: "pval \<Rightarrow> pval \<Rightarrow> bool" where
  "py_eq a b \<longleftrightarrow> norm_val a = norm_val b"

fun str_of :: "py_host \<Rightarrow> pval \<Rightarrow> string" where
  "str_of h PNone = ''None''"
| "str_of h (PBool b) = (if b then ''True'' else ''False'')"
| "str_of h (PInt i) = show_int i"
| "str_of h (PStr s) = s"
| "str_of h v = ph_str h v"

section \<open>Syntax trees\<close>

datatype py_unary = UNot | UUSub | UUAdd | UOther
datatype py_binary = BAdd | BSub | BMult | BDiv | BMod | BOther
datatype py_compare = CEq | CNotEq | CLt | CLtE | CGt | CGtE | CIn | CNotIn | COther

datatype py_ast =
    Constant pval
  | Name string
  | Attribute py_ast string
  | Subscript py_ast py_ast
  | Sequence "py_ast list"
  | BoolAnd "py_ast list"
  | BoolOr "py_ast list"
  | Unary py_unary py_ast
  | Binary py_binary py_ast py_ast
  | Compare py_ast "(py_compare \<times> py_ast) list"
  | OtherNode "py_ast list"

definition ALLOWED_ROOTS :: "string list" where
  "ALLOWED_ROOTS = [''args'', ''kwargs'', ''result'', ''data'', ''instance'', ''event'']"

fun const_name :: "string \<Rightarrow> pval option" where
  "const_name s = (if s = ''True'' then Some (PBool True) else if s = ''False'' then Some (PBool False)
     else if s = ''None'' then Some PNone else None)"

definition dunder :: "string \<Rightarrow> bool" where
  "dunder s \<longleftrightarrow> prefix ''__'' s"

text \<open>\<open>_validate_tree\<close>: every node of the tree passes; which node fails first does not matter.\<close>

fun allowed_tree :: "py_ast \<Rightarrow> bool" where
  "allowed_tree (Constant v) = True"
| "allowed_tree (Name s) = (s \<in> set ALLOWED_ROOTS \<or> const_name s \<noteq> None)"
| "allowed_tree (Attribute e a) = (\<not> dunder a \<and> allowed_tree e)"
| "allowed_tree (Subscript e k) = (allowed_tree e \<and> allowed_tree k)"
| "allowed_tree (Sequence es) = list_all allowed_tree es"
| "allowed_tree (BoolAnd es) = list_all allowed_tree es"
| "allowed_tree (BoolOr es) = list_all allowed_tree es"
| "allowed_tree (Unary op e) = (op \<noteq> UOther \<and> allowed_tree e)"
| "allowed_tree (Binary op a b) = (op \<noteq> BOther \<and> allowed_tree a \<and> allowed_tree b)"
| "allowed_tree (Compare a cs) = (allowed_tree a \<and> list_all (\<lambda>(op, e). op \<noteq> COther \<and> allowed_tree e) cs)"
| "allowed_tree (OtherNode es) = False"

definition validate_tree :: "py_ast \<Rightarrow> unit res" where
  "validate_tree e = (if allowed_tree e then Inr () else Inl PredicateValidationError)"

section \<open>Operators\<close>

definition order_vals :: "pval \<Rightarrow> pval \<Rightarrow> int res" where
  "order_vals a b =
     (case (num_of a, num_of b) of
        (Some x, Some y) \<Rightarrow> Inr (if x < y then - 1 else if x = y then 0 else 1)
      | _ \<Rightarrow> (case (a, b) of
          (PStr s, PStr t) \<Rightarrow> Inr (if s < t then - 1 else if s = t then 0 else 1)
        | _ \<Rightarrow> Inl PredicateValidationError))"

text \<open>
  Arithmetic of two numbers: integers stay integers except under \<open>/\<close>; otherwise both are
  doubles and the result is rounded. \<open>%\<close> takes the sign of the divisor.
\<close>

definition arith :: "py_binary \<Rightarrow> pval \<Rightarrow> pval \<Rightarrow> pval res" where
  "arith op a b =
     (case (num_of a, num_of b) of
        (Some x, Some y) \<Rightarrow>
          (case (int_of a, int_of b) of
             (Some i, Some j) \<Rightarrow>
               (case op of BAdd \<Rightarrow> Inr (PInt (i + j)) | BSub \<Rightarrow> Inr (PInt (i - j)) | BMult \<Rightarrow> Inr (PInt (i * j))
                | BDiv \<Rightarrow> if j = 0 then Inl ZeroDivisionError else Inr (PFloat (dbl (x / y)))
                | BMod \<Rightarrow> if j = 0 then Inl ZeroDivisionError else Inr (PInt (i mod j))
                | BOther \<Rightarrow> Inl KeyError)
           | _ \<Rightarrow>
               let u = dbl x; v = dbl y in
               (case op of BAdd \<Rightarrow> Inr (PFloat (dbl (u + v))) | BSub \<Rightarrow> Inr (PFloat (dbl (u - v)))
                | BMult \<Rightarrow> Inr (PFloat (dbl (u * v)))
                | BDiv \<Rightarrow> if v = 0 then Inl ZeroDivisionError else Inr (PFloat (dbl (u / v)))
                | BMod \<Rightarrow> if v = 0 then Inl ZeroDivisionError else Inr (PFloat (dbl (u - v * of_int \<lfloor>u / v\<rfloor>)))
                | BOther \<Rightarrow> Inl KeyError))
      | _ \<Rightarrow> Inl (if op = BOther then KeyError else PredicateValidationError))"

fun contains :: "pval \<Rightarrow> pval \<Rightarrow> bool" where
  "contains (PStr s) item = (case item of PStr t \<Rightarrow> sublist t s | _ \<Rightarrow> False)"
| "contains (PList xs) item = list_ex (\<lambda>x. py_eq item x) xs"
| "contains _ item = False"

definition compare_vals :: "py_compare \<Rightarrow> pval \<Rightarrow> pval \<Rightarrow> bool res" where
  "compare_vals op a b =
     (case op of
        CEq \<Rightarrow> Inr (py_eq a b)
      | CNotEq \<Rightarrow> Inr (\<not> py_eq a b)
      | CLt \<Rightarrow> res_bind (order_vals a b) (\<lambda>c. Inr (c < 0))
      | CLtE \<Rightarrow> res_bind (order_vals a b) (\<lambda>c. Inr (c \<le> 0))
      | CGt \<Rightarrow> res_bind (order_vals a b) (\<lambda>c. Inr (0 < c))
      | CGtE \<Rightarrow> res_bind (order_vals a b) (\<lambda>c. Inr (0 \<le> c))
      | CIn \<Rightarrow> Inr (contains b a)
      | CNotIn \<Rightarrow> Inr (\<not> contains b a)
      | COther \<Rightarrow> Inl KeyError)"

section \<open>Interpreter\<close>

text \<open>\<open>container.get(key)\<close>: a list or mapping as key is unhashable; only text keys are present.\<close>

fun mapping_get :: "(string \<times> pval) list \<Rightarrow> pval \<Rightarrow> pval res" where
  "mapping_get m (PStr k) = Inr (case dict_get m k of None \<Rightarrow> PNone | Some v \<Rightarrow> v)"
| "mapping_get m (PList _) = Inl TypeError"
| "mapping_get m (PMap _) = Inl TypeError"
| "mapping_get m _ = Inr PNone"

definition read_field :: "py_host \<Rightarrow> pval \<Rightarrow> string \<Rightarrow> pval res" where
  "read_field h c key =
     (if dunder key then Inl PredicateValidationError
      else case c of
        PMap m \<Rightarrow> mapping_get m (PStr key)
      | _ \<Rightarrow> Inr (case ph_attr h c key of None \<Rightarrow> PNone | Some v \<Rightarrow> v))"

definition eval_unary :: "py_unary \<Rightarrow> pval \<Rightarrow> pval res" where
  "eval_unary op v =
     (if op = UNot then Inr (PBool (\<not> truthy v))
      else case (int_of v, num_of v) of
        (Some i, _) \<Rightarrow> Inr (PInt (if op = UUSub then - i else i))
      | (None, Some q) \<Rightarrow> Inr (PFloat (if op = UUSub then - q else q))
      | _ \<Rightarrow> Inl PredicateValidationError)"

fun eval_node :: "py_host \<Rightarrow> (string, pval) dict \<Rightarrow> py_ast \<Rightarrow> pval res"
  and eval_nodes :: "py_host \<Rightarrow> (string, pval) dict \<Rightarrow> py_ast list \<Rightarrow> pval list res"
  and eval_compare :: "py_host \<Rightarrow> (string, pval) dict \<Rightarrow> pval \<Rightarrow> (py_compare \<times> py_ast) list \<Rightarrow> bool res" where
  "eval_node h ns (Constant v) = Inr v"
| "eval_node h ns (Name s) =
     (case const_name s of Some v \<Rightarrow> Inr v | None \<Rightarrow> Inr (case dict_get ns s of None \<Rightarrow> PNone | Some v \<Rightarrow> v))"
| "eval_node h ns (Attribute e a) = res_bind (eval_node h ns e) (\<lambda>c. read_field h c a)"
| "eval_node h ns (Subscript e k) =
     res_bind (eval_node h ns e) (\<lambda>c. res_bind (eval_node h ns k) (\<lambda>key.
       case c of PMap m \<Rightarrow> mapping_get m key | _ \<Rightarrow> read_field h c (str_of h key)))"
| "eval_node h ns (Sequence es) = res_bind (eval_nodes h ns es) (\<lambda>vs. Inr (PList vs))"
| "eval_node h ns (BoolAnd es) = res_bind (eval_nodes h ns es) (\<lambda>vs. Inr (PBool (list_all truthy vs)))"
| "eval_node h ns (BoolOr es) = res_bind (eval_nodes h ns es) (\<lambda>vs. Inr (PBool (list_ex truthy vs)))"
| "eval_node h ns (Unary op e) = res_bind (eval_node h ns e) (eval_unary op)"
| "eval_node h ns (Binary op a b) =
     (if op = BOther then Inl KeyError
      else res_bind (eval_node h ns a) (\<lambda>x. res_bind (eval_node h ns b) (\<lambda>y. arith op x y)))"
| "eval_node h ns (Compare a cs) =
     res_bind (eval_node h ns a) (\<lambda>x. res_bind (eval_compare h ns x cs) (\<lambda>b. Inr (PBool b)))"
| "eval_node h ns (OtherNode es) = Inl PredicateValidationError"
| "eval_nodes h ns [] = Inr []"
| "eval_nodes h ns (e # es) = res_bind (eval_node h ns e) (\<lambda>v. res_bind (eval_nodes h ns es) (\<lambda>vs. Inr (v # vs)))"
| "eval_compare h ns left [] = Inr True"
| "eval_compare h ns left ((op, e) # rest) =
     res_bind (eval_node h ns e) (\<lambda>right. res_bind (compare_vals op left right) (\<lambda>ok.
       if ok then eval_compare h ns right rest else Inr False))"

section \<open>Compiled forms\<close>

text \<open>\<open>parse\<close> is \<open>ast.parse(expr, mode="eval")\<close>; \<open>None\<close> is its \<open>SyntaxError\<close>.\<close>

definition parse_expr :: "(string \<Rightarrow> py_ast option) \<Rightarrow> string \<Rightarrow> py_ast res" where
  "parse_expr parse expr =
     (case parse expr of None \<Rightarrow> Inl PredicateValidationError
      | Some e \<Rightarrow> res_bind (validate_tree e) (\<lambda>_. Inr e))"

definition compile_expr :: "(string \<Rightarrow> py_ast option) \<Rightarrow> py_host \<Rightarrow> string \<Rightarrow> ((string, pval) dict \<Rightarrow> pval res) res" where
  "compile_expr parse h expr = res_bind (parse_expr parse expr) (\<lambda>e. Inr (\<lambda>ns. eval_node h ns e))"

definition compile_predicate :: "(string \<Rightarrow> py_ast option) \<Rightarrow> py_host \<Rightarrow> string \<Rightarrow> ((string, pval) dict \<Rightarrow> bool res) res" where
  "compile_predicate parse h expr =
     res_bind (parse_expr parse expr) (\<lambda>e. Inr (\<lambda>ns. res_bind (eval_node h ns e) (\<lambda>v. Inr (truthy v))))"

definition safe_validate :: "(string \<Rightarrow> py_ast option) \<Rightarrow> string \<Rightarrow> unit res" where
  "safe_validate parse expr = res_bind (parse_expr parse expr) (\<lambda>_. Inr ())"

section \<open>Non-interference\<close>

text \<open>Hosts that agree on every attribute whose name does not start with two underscores.\<close>

definition same_public :: "py_host \<Rightarrow> py_host \<Rightarrow> bool" where
  "same_public h h' \<longleftrightarrow> ph_str h = ph_str h' \<and> (\<forall>v a. dunder a \<or> ph_attr h v a = ph_attr h' v a)"

definition same_roots :: "(string, pval) dict \<Rightarrow> (string, pval) dict \<Rightarrow> bool" where
  "same_roots ns ns' \<longleftrightarrow> (\<forall>r \<in> set ALLOWED_ROOTS. dict_get ns r = dict_get ns' r)"

lemma str_of_public: "same_public h h' \<Longrightarrow> str_of h v = str_of h' v"
  by (cases v) (simp_all add: same_public_def)

lemma read_field_public: "same_public h h' \<Longrightarrow> read_field h c k = read_field h' c k"
proof -
  assume s: "same_public h h'"
  have "\<not> dunder k \<Longrightarrow> ph_attr h c k = ph_attr h' c k" using s unfolding same_public_def by blast
  then show ?thesis by (cases c) (simp_all add: read_field_def)
qed

lemma eval_public:
  assumes "same_public h h'" "same_roots ns ns'"
  shows "allowed_tree e \<Longrightarrow> eval_node h ns e = eval_node h' ns' e"
    and "list_all allowed_tree es \<Longrightarrow> eval_nodes h ns es = eval_nodes h' ns' es"
    and "list_all (\<lambda>(op, e). op \<noteq> COther \<and> allowed_tree e) cs \<Longrightarrow> eval_compare h ns left cs = eval_compare h' ns' left cs"
  using assms
proof (induction h ns e and h ns es and h ns left cs rule: eval_node_eval_nodes_eval_compare.induct)
  case (2 h ns s)
  then show ?case by (auto simp: same_roots_def split: option.splits)
next
  case (15 h ns left op e rest)
  have "eval_node h ns e = eval_node h' ns' e" using 15 by simp
  moreover have "eval_compare h ns v rest = eval_compare h' ns' v rest" for v
    by (rule 15(2) [of True]) (use 15 in simp_all)
  ultimately show ?case by (simp cong: if_cong)
qed (simp_all add: read_field_public str_of_public cong: pval.case_cong)


text \<open>
  C17. Non-interference of the predicate language: an expression that passes the allowlist
  evaluates to the same result or the same error under any two hosts that agree outside
  dunder attributes (those whose name starts with two underscores, the ones the validator
  refuses; a name with a single underscore is read like any other) and any two namespaces
  that agree on the allowlisted roots. So an accepted predicate can reach neither a dunder
  attribute nor a name of the environment.
\<close>

theorem predicate_noninterference:
  assumes "same_public h h'" "same_roots ns ns'"
  shows "rel_sum (=) (\<lambda>f g. f ns = g ns') (compile_expr parse h expr) (compile_expr parse h' expr) \<and>
     rel_sum (=) (\<lambda>f g. f ns = g ns') (compile_predicate parse h expr) (compile_predicate parse h' expr)"
proof (cases "parse_expr parse expr")
  case (Inr e)
  then have "allowed_tree e"
    by (auto simp: parse_expr_def validate_tree_def split: option.splits if_splits)
  with Inr show ?thesis
    by (simp add: compile_expr_def compile_predicate_def eval_public(1) [OF assms])
qed (simp add: compile_expr_def compile_predicate_def)

definition secret_host :: "string \<Rightarrow> py_host" where
  "secret_host s = \<lparr>ph_attr = (\<lambda>v a. if a = ''__class__'' then Some (PStr s) else None), ph_str = (\<lambda>_. [])\<rparr>"

text \<open>A parser that reads one text as an attribute access on \<open>result\<close>.\<close>

definition sample_parse :: "string \<Rightarrow> py_ast option" where
  "sample_parse s = Some (Compare (Attribute (Name ''result'') s) [(CEq, Constant (PStr ''paid''))])"

theorem predicate_noninterference_witness:
  "rel_sum (=) (\<lambda>f g. f [(''result'', PHost 0)] = g [(''result'', PHost 0), (''os'', PHost 1)])
     (compile_predicate sample_parse (secret_host ''a'') ''status'')
     (compile_predicate sample_parse (secret_host ''b'') ''status'') \<and>
   compile_predicate sample_parse (secret_host ''a'') ''__class__'' = Inl PredicateValidationError"
proof -
  have "same_public (secret_host ''a'') (secret_host ''b'')"
    by (simp add: same_public_def secret_host_def dunder_def)
  moreover have "same_roots [(''result'', PHost 0)] [(''result'', PHost 0), (''os'', PHost 1)]"
    by (simp add: same_roots_def ALLOWED_ROOTS_def)
  moreover have "compile_predicate sample_parse (secret_host ''a'') ''__class__'' = Inl PredicateValidationError"
    by (simp add: compile_predicate_def parse_expr_def sample_parse_def validate_tree_def dunder_def)
  ultimately show ?thesis using predicate_noninterference by blast
qed

section \<open>Evaluation of boolean operators\<close>

text \<open>
  C40. The operands of \<open>and\<close> are all evaluated: a guard does not protect the operand after
  it. With \<open>data\<close> holding no amount, \<open>data.amount != None and data.amount > 5\<close> raises
  instead of being false.
\<close>

theorem guarded_predicate_raises:
  "eval_node h [(''data'', PMap [])]
     (BoolAnd [Compare (Attribute (Name ''data'') ''amount'') [(CNotEq, Constant PNone)],
               Compare (Attribute (Name ''data'') ''amount'') [(CGt, Constant (PInt 5))]]) =
   Inl PredicateValidationError"
  by (simp add: read_field_def dunder_def compare_vals_def py_eq_def order_vals_def)

end
