(* ===== verification/Outcome_Rules.thy ===== *)
theory Outcome_Rules
  imports Outcome_Predicate Store
begin

text \<open>
  Outcome rules and their runtime (\<open>packages/outcomes\<close>): the system-owned signal class
  (\<open>signal.py\<close>), the rule schema and its loader (\<open>schema.py\<close>, \<open>loader.py\<close>), the emitter
  (\<open>instrument/emitter.py\<close>), the wrapper around a host function
  (\<open>instrument/functions.py\<close>), the injection of the run id into an outbound call
  (\<open>instrument/injection.py\<close>) and the webhook receiver (\<open>webhook.py\<close>).

  Parameters, because the code is outside the package: the YAML reader (\<open>None\<close> for a
  \<open>YAMLError\<close>), the JSON reader (\<open>None\<close> for unreadable text), the parser of expressions,
  the host objects, the digest of the signature, the binding of call arguments to parameter
  names, and the importability of a patch target. A generated id and the current time are
  arguments. An emission is a step of a repository given by its \<open>upsert\<close>.

  The lemmas show the honesty rules: a function or HTTP match is never confirmed, a request
  that fails verification is rejected without reading its body, only an echoed run id is
  bound deterministically, the wrapped host call keeps its result and its errors, and an id
  injected on the way out is the id recovered from the echo.
\<close>

section \<open>Signal class\<close>

definition AUTHORITATIVE_KINDS :: "string list" where
  "AUTHORITATIVE_KINDS = [''webhook'', ''orm_save'', ''status_transition'']"

definition NON_AUTHORITATIVE_KINDS :: "string list" where
  "NON_AUTHORITATIVE_KINDS = [''function'', ''http'']"

definition parse_declared :: "string \<Rightarrow> signal_class res" where
  "parse_declared declared =
     res_bind (signal_of declared) (\<lambda>c. if c = OutcomeRetracted then Inl ValueError else Inr c)"

definition map_signal :: "string \<Rightarrow> string \<Rightarrow> string res" where
  "map_signal match_kind declared =
     (if match_kind \<notin> set (AUTHORITATIVE_KINDS @ NON_AUTHORITATIVE_KINDS) then Inl ValueError
      else res_bind (parse_declared declared) (\<lambda>c.
        if c = OutcomeConfirmed \<and> match_kind \<in> set AUTHORITATIVE_KINDS
        then Inr (signal_value OutcomeConfirmed) else Inr (signal_value ActionAttempted)))"

section \<open>Rules\<close>

definition MATCH_KINDS :: "string list" where
  "MATCH_KINDS = [''function'', ''http'', ''orm_save'', ''status_transition'', ''webhook'']"

record match_spec =
  ms_function :: "string option"
  ms_http :: "string option"
  ms_orm_save :: "string option"
  ms_status_transition :: "string option"
  ms_webhook :: "string option"
  ms_when :: "string option"
  ms_event :: "string option"

definition kind_fields :: "match_spec \<Rightarrow> (string \<times> string option) list" where
  "kind_fields m = zip MATCH_KINDS [ms_function m, ms_http m, ms_orm_save m, ms_status_transition m, ms_webhook m]"

definition match_spec_check :: "match_spec \<Rightarrow> match_spec res" where
  "match_spec_check m =
     (if length (filter (\<lambda>(k, v). v \<noteq> None) (kind_fields m)) \<noteq> 1 then Inl OutcomeRuleSchemaError else Inr m)"

definition match_kind :: "match_spec \<Rightarrow> string res" where
  "match_kind m =
     (case find (\<lambda>(k, v). v \<noteq> None) (kind_fields m) of None \<Rightarrow> Inl OutcomeRuleSchemaError | Some (k, _) \<Rightarrow> Inr k)"

definition match_target :: "match_spec \<Rightarrow> string res" where
  "match_target m =
     (case find (\<lambda>(k, v). v \<noteq> None) (kind_fields m) of Some (_, Some t) \<Rightarrow> Inr t | _ \<Rightarrow> Inl OutcomeRuleSchemaError)"

record run_id_injection =
  ri_sdk_call :: string
  ri_inject_into :: string
  ri_webhook_event :: string
  ri_extract_from :: string

record outcome_rule =
  or_name :: string
  or_match :: match_spec
  or_value :: "string option"
  or_bind :: "(string, string) dict"
  or_signal :: string
  or_run_id_injection :: "run_id_injection option"

section \<open>Loader\<close>

fun as_mapping :: "json option \<Rightarrow> (string \<times> json) list res" where
  "as_mapping (Some (JObj m)) = Inr m"
| "as_mapping _ = Inl OutcomeRuleSchemaError"

fun as_text :: "json \<Rightarrow> string res" where
  "as_text (JStr s) = Inr s"
| "as_text _ = Inl OutcomeRuleSchemaError"

text \<open>\<open>mapping.get(key)\<close>, where an explicit null is like an absent key.\<close>

definition present :: "(string \<times> json) list \<Rightarrow> string \<Rightarrow> json option" where
  "present m k = (case dict_get m k of None \<Rightarrow> None | Some v \<Rightarrow> if v = JNull then None else Some v)"

definition opt_text :: "(string \<times> json) list \<Rightarrow> string \<Rightarrow> string option res" where
  "opt_text m k = (case present m k of None \<Rightarrow> Inr None | Some v \<Rightarrow> res_bind (as_text v) (\<lambda>s. Inr (Some s)))"

definition build_match :: "(string \<Rightarrow> unit res) \<Rightarrow> json option \<Rightarrow> match_spec res" where
  "build_match validate raw =
     res_bind (as_mapping raw) (\<lambda>m.
     res_bind (opt_text m ''function'') (\<lambda>f. res_bind (opt_text m ''http'') (\<lambda>ht.
     res_bind (opt_text m ''orm_save'') (\<lambda>os. res_bind (opt_text m ''status_transition'') (\<lambda>st.
     res_bind (opt_text m ''webhook'') (\<lambda>wh. res_bind (opt_text m ''when'') (\<lambda>when.
     res_bind (opt_text m ''event'') (\<lambda>ev.
     res_bind (case when of None \<Rightarrow> Inr () | Some w \<Rightarrow> validate w) (\<lambda>_.
       match_spec_check \<lparr>ms_function = f, ms_http = ht, ms_orm_save = os, ms_status_transition = st,
         ms_webhook = wh, ms_when = when, ms_event = ev\<rparr>)))))))))"

definition build_bind :: "(string \<Rightarrow> unit res) \<Rightarrow> json option \<Rightarrow> (string, string) dict res" where
  "build_bind validate raw =
     (case raw of None \<Rightarrow> Inr []
      | Some v \<Rightarrow> res_bind (as_mapping (Some v)) (\<lambda>m.
          res_traverse (\<lambda>(k, e). res_bind (as_text e) (\<lambda>s. res_bind (validate s) (\<lambda>_. Inr (k, s)))) m))"

definition build_injection :: "json option \<Rightarrow> run_id_injection option res" where
  "build_injection raw =
     (case raw of None \<Rightarrow> Inr None
      | Some v \<Rightarrow> res_bind (as_mapping (Some v)) (\<lambda>m.
          case (dict_get m ''sdk_call'', dict_get m ''inject_into'', dict_get m ''webhook_event'', dict_get m ''extract_from'') of
            (Some a, Some b, Some c, Some d) \<Rightarrow>
              res_bind (as_text a) (\<lambda>a'. res_bind (as_text b) (\<lambda>b'. res_bind (as_text c) (\<lambda>c'. res_bind (as_text d) (\<lambda>d'.
                Inr (Some \<lparr>ri_sdk_call = a', ri_inject_into = b', ri_webhook_event = c', ri_extract_from = d'\<rparr>)))))
          | _ \<Rightarrow> Inl OutcomeRuleSchemaError))"

definition validated_expr :: "(string \<Rightarrow> unit res) \<Rightarrow> json option \<Rightarrow> string option res" where
  "validated_expr validate raw =
     (case raw of None \<Rightarrow> Inr None
      | Some v \<Rightarrow> res_bind (as_text v) (\<lambda>s. res_bind (validate s) (\<lambda>_. Inr (Some s))))"

definition validated_signal :: "json \<Rightarrow> string \<Rightarrow> string res" where
  "validated_signal raw kind =
     res_bind (as_text raw) (\<lambda>declared.
       case map_signal kind declared of Inl _ \<Rightarrow> Inl OutcomeRuleSchemaError | Inr _ \<Rightarrow> Inr declared)"

definition build_rule :: "(string \<Rightarrow> unit res) \<Rightarrow> json \<Rightarrow> outcome_rule res" where
  "build_rule validate raw =
     res_bind (as_mapping (Some raw)) (\<lambda>rule.
     case dict_get rule ''name'' of
       Some (JStr name) \<Rightarrow>
         if name = [] then Inl OutcomeRuleSchemaError
         else res_bind (build_match validate (dict_get rule ''match'')) (\<lambda>m.
           res_bind (validated_expr validate (present rule ''value'')) (\<lambda>value.
           res_bind (build_bind validate (present rule ''bind'')) (\<lambda>bind.
           res_bind (match_kind m) (\<lambda>kind.
           res_bind (validated_signal (case dict_get rule ''signal'' of None \<Rightarrow> JStr ''action_attempted'' | Some s \<Rightarrow> s) kind) (\<lambda>signal.
           res_bind (build_injection (present rule ''run_id_injection'')) (\<lambda>injection.
             Inr \<lparr>or_name = name, or_match = m, or_value = value, or_bind = bind, or_signal = signal,
                  or_run_id_injection = injection\<rparr>))))))
     | _ \<Rightarrow> Inl OutcomeRuleSchemaError)"

definition load_rules :: "(string \<Rightarrow> json option) \<Rightarrow> (string \<Rightarrow> unit res) \<Rightarrow> string \<Rightarrow> outcome_rule list res" where
  "load_rules safe_load validate text =
     (case safe_load text of None \<Rightarrow> Inl OutcomeRuleSchemaError
      | Some doc \<Rightarrow> res_bind (as_mapping (Some doc)) (\<lambda>m.
          case dict_get m ''outcomes'' of
            Some (JList raws) \<Rightarrow> res_traverse (build_rule validate) raws
          | _ \<Rightarrow> Inl OutcomeRuleSchemaError))"

section \<open>Emitter\<close>

text \<open>A decimal: a finite amount, or an infinity or NaN, which no event accepts.\<close>

datatype money = Finite rat | Special

definition special_decimal :: "string \<Rightarrow> bool" where
  "special_decimal text =
     (let u = map (\<lambda>c. if CHR ''A'' \<le> c \<and> c \<le> CHR ''Z'' then char_of (of_char c + 32 :: nat) else c)
          (snd (take_sign (filter (\<lambda>c. c \<noteq> CHR ''_'') (strip text)))) in
      u = ''inf'' \<or> u = ''infinity'' \<or>
      (prefix ''nan'' u \<and> list_all is_digit (drop 3 u)) \<or> (prefix ''snan'' u \<and> list_all is_digit (drop 4 u)))"

fun coerce_money :: "py_host \<Rightarrow> pval \<Rightarrow> money option res" where
  "coerce_money h (PInt i) = Inr (Some (Finite (of_int i)))"
| "coerce_money h (PStr s) =
     Inr (case parse_decimal s of Some q \<Rightarrow> Some (Finite q) | None \<Rightarrow> if special_decimal s then Some Special else None)"
| "coerce_money h (PFloat q) =
     (case parse_decimal (ph_str h (PFloat q)) of Some r \<Rightarrow> Inr (Some (Finite r)) | None \<Rightarrow> Inl InvalidOperation)"
| "coerce_money h _ = Inr None"

record emit_request =
  eq_tenant_id :: tenant_id
  eq_name :: string
  eq_match_kind :: string
  eq_declared_signal :: string
  eq_value :: "money option"
  eq_entity_keys :: "entity_key list"
  eq_correlation_id :: "string option"
  eq_source :: string
  eq_run_id :: "run_id option"
  eq_raw :: "(string \<times> json) list"
  eq_binding_tier :: "binding_tier option"
  eq_bound_by :: "string option"

definition build_outcome :: "emit_request \<Rightarrow> outcome_id \<Rightarrow> instant \<Rightarrow> outcome_event res" where
  "build_outcome q new_id now =
     res_bind (map_signal (eq_match_kind q) (eq_declared_signal q)) (\<lambda>s.
     res_bind (signal_of s) (\<lambda>signal.
     res_bind (case eq_value q of None \<Rightarrow> Inr None | Some (Finite v) \<Rightarrow> Inr (Some v) | Some Special \<Rightarrow> Inl ValueError) (\<lambda>value.
       Inr \<lparr>oe_tenant_id = eq_tenant_id q, oe_id = new_id, oe_name = eq_name q, oe_signal_class = signal,
            oe_value = value, oe_occurred_at = now,
            oe_binding = outcome_binding_default (eq_run_id q) (eq_binding_tier q) (eq_bound_by q),
            oe_entity_keys = eq_entity_keys q, oe_correlation_id = eq_correlation_id q,
            oe_source = eq_source q, oe_raw = eq_raw q\<rparr>)))"

definition emit ::
  "('s \<Rightarrow> tenant_id \<Rightarrow> outcome_event \<Rightarrow> 's res) \<Rightarrow> 's \<Rightarrow> emit_request \<Rightarrow> outcome_id \<Rightarrow> instant \<Rightarrow> outcome_id option \<times> 's" where
  "emit upsert st q new_id now =
     (case res_bind (build_outcome q new_id now) (\<lambda>e. res_bind (upsert st (eq_tenant_id q) e) (\<lambda>st'. Inr (oe_id e, st'))) of
        Inl _ \<Rightarrow> (None, st)
      | Inr (i, st') \<Rightarrow> (Some i, st'))"

section \<open>Wrapped host functions\<close>

definition IN_PROCESS_KINDS :: "string list" where
  "IN_PROCESS_KINDS = [''function'', ''http'', ''orm_save'', ''status_transition'']"

text \<open>The environment of the package: parser, host objects, and argument binding.\<close>

record outcome_env =
  en_parse :: "string \<Rightarrow> py_ast option"
  en_host :: py_host
  en_bind_partial :: "pval list \<Rightarrow> (string, pval) dict \<Rightarrow> (string, pval) dict option"

record compiled_rule =
  cr_rule :: outcome_rule
  cr_predicate :: "((string, pval) dict \<Rightarrow> bool res) option"
  cr_value :: "((string, pval) dict \<Rightarrow> pval res) option"
  cr_bind :: "(string \<times> ((string, pval) dict \<Rightarrow> pval res)) list"

definition compile_opt :: "('a \<Rightarrow> 'b res) \<Rightarrow> 'a option \<Rightarrow> 'b option res" where
  "compile_opt f x = (case x of None \<Rightarrow> Inr None | Some a \<Rightarrow> res_bind (f a) (\<lambda>b. Inr (Some b)))"

definition make_wrapper :: "outcome_env \<Rightarrow> outcome_rule \<Rightarrow> compiled_rule res" where
  "make_wrapper env rule =
     res_bind (compile_opt (compile_predicate (en_parse env) (en_host env)) (ms_when (or_match rule))) (\<lambda>p.
     res_bind (compile_opt (compile_expr (en_parse env) (en_host env)) (or_value rule)) (\<lambda>v.
     res_bind (res_traverse (\<lambda>(k, e). res_bind (compile_expr (en_parse env) (en_host env) e) (\<lambda>f. Inr (k, f))) (or_bind rule)) (\<lambda>b.
       Inr \<lparr>cr_rule = rule, cr_predicate = p, cr_value = v, cr_bind = b\<rparr>)))"

definition build_namespace :: "outcome_env \<Rightarrow> pval list \<Rightarrow> (string, pval) dict \<Rightarrow> pval \<Rightarrow> (string, pval) dict" where
  "build_namespace env args kwargs result =
     (let bound = (case en_bind_partial env args kwargs of Some b \<Rightarrow> b
        | None \<Rightarrow> foldl (\<lambda>d (k, v). dict_set k v d)
            (map (\<lambda>(i, v). (''_'' @ show_nat i, v)) (enumerate 0 args)) kwargs) in
      [(''args'', PMap bound), (''kwargs'', PMap kwargs), (''result'', result)])"

definition entity_keys_of ::
  "py_host \<Rightarrow> (string, pval) dict \<Rightarrow> (string \<times> ((string, pval) dict \<Rightarrow> pval res)) list \<Rightarrow> entity_key list res" where
  "entity_keys_of h ns binds =
     res_traverse (\<lambda>(name, f). res_bind (f ns) (\<lambda>v. Inr (name, str_of h v))) binds"

text \<open>\<open>_maybe_emit\<close>: an error before the emission propagates to the guard of the wrapper.\<close>

definition maybe_emit ::
  "outcome_env \<Rightarrow> ('s \<Rightarrow> tenant_id \<Rightarrow> outcome_event \<Rightarrow> 's res) \<Rightarrow> tenant_id \<Rightarrow> run_id option \<Rightarrow> outcome_id \<Rightarrow> instant
    \<Rightarrow> compiled_rule \<Rightarrow> pval list \<Rightarrow> (string, pval) dict \<Rightarrow> pval \<Rightarrow> 's \<Rightarrow> 's res" where
  "maybe_emit env upsert tid active new_id now cr args kwargs result st =
     (let ns = build_namespace env args kwargs result in
      res_bind (case cr_predicate cr of None \<Rightarrow> Inr True | Some p \<Rightarrow> p ns) (\<lambda>go.
      if \<not> go then Inr st
      else res_bind (case cr_value cr of None \<Rightarrow> Inr None
             | Some f \<Rightarrow> res_bind (f ns) (coerce_money (en_host env))) (\<lambda>value.
        res_bind (entity_keys_of (en_host env) ns (cr_bind cr)) (\<lambda>keys.
        res_bind (match_kind (or_match (cr_rule cr))) (\<lambda>kind.
        res_bind (match_target (or_match (cr_rule cr))) (\<lambda>target.
          Inr (snd (emit upsert st
            \<lparr>eq_tenant_id = tid, eq_name = or_name (cr_rule cr), eq_match_kind = kind,
             eq_declared_signal = or_signal (cr_rule cr), eq_value = value, eq_entity_keys = keys,
             eq_correlation_id = None, eq_source = target, eq_run_id = active, eq_raw = [],
             eq_binding_tier = None, eq_bound_by = None\<rparr> new_id now))))))))"

text \<open>The wrapper: the host call first (its error propagates), then the guarded emission.\<close>

definition call_wrapped ::
  "outcome_env \<Rightarrow> ('s \<Rightarrow> tenant_id \<Rightarrow> outcome_event \<Rightarrow> 's res) \<Rightarrow> tenant_id \<Rightarrow> run_id option \<Rightarrow> outcome_id \<Rightarrow> instant
    \<Rightarrow> compiled_rule \<Rightarrow> (pval list \<Rightarrow> (string, pval) dict \<Rightarrow> pval res) \<Rightarrow> pval list \<Rightarrow> (string, pval) dict \<Rightarrow> 's
    \<Rightarrow> pval res \<times> 's" where
  "call_wrapped env upsert tid active new_id now cr wrapped args kwargs st =
     (case wrapped args kwargs of
        Inl e \<Rightarrow> (Inl e, st)
      | Inr result \<Rightarrow>
          (case maybe_emit env upsert tid active new_id now cr args kwargs result st of
             Inl _ \<Rightarrow> (Inr result, st)
           | Inr st' \<Rightarrow> (Inr result, st')))"

fun install_loop ::
  "outcome_env \<Rightarrow> (string \<Rightarrow> bool) \<Rightarrow> string list \<Rightarrow> string list \<Rightarrow> outcome_rule list \<Rightarrow> (string list \<times> string list) res" where
  "install_loop env resolvable installed unresolved [] = Inr (installed, unresolved)"
| "install_loop env resolvable installed unresolved (rule # rules) =
     res_bind (match_kind (or_match rule)) (\<lambda>kind.
     if kind \<notin> set IN_PROCESS_KINDS then install_loop env resolvable installed unresolved rules
     else res_bind (match_target (or_match rule)) (\<lambda>target.
       if \<not> resolvable target then install_loop env resolvable installed (unresolved @ [target]) rules
       else res_bind (make_wrapper env rule) (\<lambda>_.
         install_loop env resolvable (installed @ [target]) unresolved rules)))"

definition install_function_rules ::
  "outcome_env \<Rightarrow> (string \<Rightarrow> bool) \<Rightarrow> outcome_rule list \<Rightarrow> (string list \<times> string list) res" where
  "install_function_rules env resolvable rules = install_loop env resolvable [] [] rules"

section \<open>Injection of the run id\<close>

fun shallow_copy_node :: "pval option \<Rightarrow> (string, pval) dict" where
  "shallow_copy_node (Some (PMap m)) = m"
| "shallow_copy_node _ = []"

fun merge_path :: "(string, pval) dict \<Rightarrow> string list \<Rightarrow> run_id \<Rightarrow> (string, pval) dict" where
  "merge_path kwargs [] rid = kwargs"
| "merge_path kwargs [leaf] rid = dict_set leaf (PStr rid) kwargs"
| "merge_path kwargs (segment # rest) rid =
     dict_set segment (PMap (merge_path (shallow_copy_node (dict_get kwargs segment)) rest rid)) kwargs"

text \<open>The keyword arguments the wrapped call receives.\<close>

definition injection_wrapper :: "string \<Rightarrow> run_id option \<Rightarrow> (string, pval) dict \<Rightarrow> (string, pval) dict" where
  "injection_wrapper inject_into active kwargs =
     (case active of None \<Rightarrow> kwargs | Some rid \<Rightarrow> merge_path kwargs (split_on (CHR ''.'') inject_into) rid)"

section \<open>Webhook receiver\<close>

datatype extracted_via = Echo | EntityFallback

record webhook_security =
  wse_signing_secret :: string
  wse_ingest_key :: string

record webhook_request =
  wq_source :: string
  wq_body :: string
  wq_signature :: string
  wq_ingest_key :: string

record webhook_result =
  wr_verified :: bool
  wr_source :: string
  wr_event_type :: string
  wr_run_id :: "run_id option"
  wr_extracted_via :: "extracted_via option"
  wr_payload :: "(string \<times> json) list"

fun pval_of_json :: "json \<Rightarrow> pval" where
  "pval_of_json JNull = PNone"
| "pval_of_json (JBool b) = PBool b"
| "pval_of_json (JInt i) = PInt i"
| "pval_of_json (JFloat q) = PFloat q"
| "pval_of_json (JStr s) = PStr s"
| "pval_of_json (JList xs) = PList (map pval_of_json xs)"
| "pval_of_json (JObj m) = PMap (map (\<lambda>(k, v). (k, pval_of_json v)) m)"

definition is_ascii :: "string \<Rightarrow> bool" where
  "is_ascii s \<longleftrightarrow> list_all (\<lambda>c. of_char c < (128::nat)) s"

text \<open>\<open>hmac.compare_digest\<close> on text: it refuses anything but ASCII with a \<open>TypeError\<close>.\<close>

definition compare_digest :: "string \<Rightarrow> string \<Rightarrow> bool res" where
  "compare_digest a b = (if \<not> is_ascii a \<or> \<not> is_ascii b then Inl TypeError else Inr (a = b))"

definition verify :: "(string \<Rightarrow> string \<Rightarrow> string) \<Rightarrow> webhook_request \<Rightarrow> webhook_security \<Rightarrow> unit res" where
  "verify digest q sec =
     res_bind (compare_digest (digest (wse_signing_secret sec) (wq_body q)) (wq_signature q)) (\<lambda>sig_ok.
     res_bind (compare_digest (wse_ingest_key sec) (wq_ingest_key q)) (\<lambda>key_ok.
       if \<not> (sig_ok \<and> key_ok) then Inl WebhookSignatureError else Inr ()))"

definition parse_body :: "(string \<Rightarrow> json option) \<Rightarrow> string \<Rightarrow> (string \<times> json) list res" where
  "parse_body loads body = (case loads body of Some (JObj m) \<Rightarrow> Inr m | _ \<Rightarrow> Inl WebhookSignatureError)"

definition event_type :: "(string \<times> json) list \<Rightarrow> string" where
  "event_type payload = (case dict_get payload ''type'' of Some (JStr s) \<Rightarrow> s | _ \<Rightarrow> [])"

definition webhook_namespace :: "(string \<times> json) list \<Rightarrow> (string, pval) dict" where
  "webhook_namespace payload =
     [(''data'', case dict_get payload ''data'' of None \<Rightarrow> PNone | Some v \<Rightarrow> pval_of_json v)]"

definition extract_run_id ::
  "outcome_env \<Rightarrow> outcome_rule \<Rightarrow> (string \<times> json) list \<Rightarrow> (run_id option \<times> extracted_via) res" where
  "extract_run_id env rule payload =
     (case or_run_id_injection rule of None \<Rightarrow> Inr (None, EntityFallback)
      | Some spec \<Rightarrow> res_bind (compile_expr (en_parse env) (en_host env) (ri_extract_from spec)) (\<lambda>f.
          res_bind (f (webhook_namespace payload)) (\<lambda>raw.
            case raw of PStr s \<Rightarrow> if s \<noteq> [] then Inr (Some s, Echo) else Inr (None, EntityFallback)
            | _ \<Rightarrow> Inr (None, EntityFallback))))"

definition webhook_emit_request ::
  "outcome_env \<Rightarrow> outcome_rule \<Rightarrow> (string \<times> json) list \<Rightarrow> run_id option \<Rightarrow> extracted_via \<Rightarrow> tenant_id \<Rightarrow> string
    \<Rightarrow> emit_request res" where
  "webhook_emit_request env rule payload rid via tid source =
     (let ns = webhook_namespace payload; compile = compile_expr (en_parse env) (en_host env) in
      res_bind (case or_value rule of None \<Rightarrow> Inr PNone | Some e \<Rightarrow> res_bind (compile e) (\<lambda>f. f ns)) (\<lambda>value.
      res_bind (res_traverse (\<lambda>(name, e). res_bind (compile e) (\<lambda>f. res_bind (f ns) (\<lambda>v. Inr (name, str_of (en_host env) v))))
          (or_bind rule)) (\<lambda>keys.
      res_bind (coerce_money (en_host env) value) (\<lambda>money.
        let echoed = via = Echo \<and> rid \<noteq> None in
        Inr \<lparr>eq_tenant_id = tid, eq_name = or_name rule, eq_match_kind = ''webhook'',
             eq_declared_signal = or_signal rule, eq_value = money, eq_entity_keys = keys,
             eq_correlation_id = (if echoed then rid else None), eq_source = source, eq_run_id = rid,
             eq_raw = payload,
             eq_binding_tier = Some (if echoed then Deterministic else Candidate),
             eq_bound_by = Some (if echoed then ''t3_webhook_echo'' else ''t4_entity_pending'')\<rparr>))))"

definition receive_webhook ::
  "outcome_env \<Rightarrow> (string \<Rightarrow> string \<Rightarrow> string) \<Rightarrow> (string \<Rightarrow> json option)
    \<Rightarrow> ('s \<Rightarrow> tenant_id \<Rightarrow> outcome_event \<Rightarrow> 's res) \<Rightarrow> outcome_rule \<Rightarrow> webhook_security \<Rightarrow> tenant_id
    \<Rightarrow> outcome_id \<Rightarrow> instant \<Rightarrow> webhook_request \<Rightarrow> 's \<Rightarrow> (webhook_result \<times> 's) res" where
  "receive_webhook env digest loads upsert rule sec tid new_id now q st =
     res_bind (verify digest q sec) (\<lambda>_.
     res_bind (parse_body loads (wq_body q)) (\<lambda>payload.
     let result = \<lparr>wr_verified = True, wr_source = wq_source q, wr_event_type = event_type payload, wr_run_id = None,
            wr_extracted_via = None, wr_payload = payload\<rparr> in
     if (case ms_event (or_match rule) of None \<Rightarrow> False | Some ev \<Rightarrow> event_type payload \<noteq> ev) then Inr (result, st)
     else res_bind (extract_run_id env rule payload) (\<lambda>(rid, via).
       res_bind (webhook_emit_request env rule payload rid via tid (wq_source q)) (\<lambda>eq.
         Inr (result\<lparr>wr_run_id := rid, wr_extracted_via := Some via\<rparr>, snd (emit upsert st eq new_id now))))))"

section \<open>Signal class of an emitted outcome\<close>

lemma map_signal_Inr:
  assumes "map_signal kind declared = Inr s"
  shows "s = signal_value (if declared = signal_value OutcomeConfirmed \<and> kind \<in> set AUTHORITATIVE_KINDS
      then OutcomeConfirmed else ActionAttempted)"
proof -
  obtain c where c: "signal_of declared = Inr c" "c \<noteq> OutcomeRetracted"
    using assms by (auto simp: map_signal_def parse_declared_def split: if_splits)
  then have "declared = signal_value c"
    by (auto simp: signal_of_def split: if_splits)
  moreover have "signal_value c = signal_value OutcomeConfirmed \<longleftrightarrow> c = OutcomeConfirmed" by (cases c) auto
  ultimately show ?thesis
    using assms c by (auto simp: map_signal_def parse_declared_def split: if_splits)
qed

lemma signal_of_value [simp]: "signal_of (signal_value c) = Inr c"
  by (cases c) (simp_all add: signal_of_def)

lemma build_outcome_Inr:
  assumes "build_outcome q new_id now = Inr e"
  shows "oe_signal_class e = (if eq_declared_signal q = signal_value OutcomeConfirmed \<and> eq_match_kind q \<in> set AUTHORITATIVE_KINDS
      then OutcomeConfirmed else ActionAttempted)"
    and "oe_id e = new_id" "oe_name e = eq_name q" "oe_entity_keys e = eq_entity_keys q"
    "oe_correlation_id e = eq_correlation_id q" "oe_tenant_id e = eq_tenant_id q"
    "oe_binding e = outcome_binding_default (eq_run_id q) (eq_binding_tier q) (eq_bound_by q)"
proof -
  obtain s where s: "map_signal (eq_match_kind q) (eq_declared_signal q) = Inr s" "signal_of s = Inr (oe_signal_class e)"
    and rest: "oe_id e = new_id" "oe_name e = eq_name q" "oe_entity_keys e = eq_entity_keys q"
    "oe_correlation_id e = eq_correlation_id q" "oe_tenant_id e = eq_tenant_id q"
    "oe_binding e = outcome_binding_default (eq_run_id q) (eq_binding_tier q) (eq_bound_by q)"
    using assms by (auto simp: build_outcome_def)
  from s(2) map_signal_Inr [OF s(1)] show "oe_signal_class e =
      (if eq_declared_signal q = signal_value OutcomeConfirmed \<and> eq_match_kind q \<in> set AUTHORITATIVE_KINDS
      then OutcomeConfirmed else ActionAttempted)" by (simp split: if_splits)
  show "oe_id e = new_id" "oe_name e = eq_name q" "oe_entity_keys e = eq_entity_keys q"
    "oe_correlation_id e = eq_correlation_id q" "oe_tenant_id e = eq_tenant_id q"
    "oe_binding e = outcome_binding_default (eq_run_id q) (eq_binding_tier q) (eq_bound_by q)"
    by (fact rest)+
qed

lemma emit_cases:
  obtains (dropped) "emit upsert st q new_id now = (None, st)"
  | (stored) e st' where "build_outcome q new_id now = Inr e" "upsert st (eq_tenant_id q) e = Inr st'"
      "emit upsert st q new_id now = (Some new_id, st')"
proof (cases "res_bind (build_outcome q new_id now) (\<lambda>e. res_bind (upsert st (eq_tenant_id q) e) (\<lambda>st'. Inr (oe_id e, st')))")
  case (Inl e)
  then show thesis using dropped by (simp add: emit_def)
next
  case (Inr p)
  then obtain e st' where e: "build_outcome q new_id now = Inr e" "upsert st (eq_tenant_id q) e = Inr st'" "p = (oe_id e, st')"
    by auto
  then have "emit upsert st q new_id now = (Some new_id, st')"
    using Inr build_outcome_Inr(2) [OF e(1)] by (simp add: emit_def)
  with e show thesis using stored by blast
qed

section \<open>The wrapped host call\<close>

lemma maybe_emit_Inr:
  assumes "maybe_emit env upsert tid active new_id now cr args kwargs result st = Inr st'"
  shows "st' = st \<or> (\<exists>e. upsert st tid e = Inr st' \<and> ob_run_id (oe_binding e) = active \<and> ob_tier (oe_binding e) = None \<and>
     (\<forall>k. match_kind (or_match (cr_rule cr)) = Inr k \<and> k \<in> set NON_AUTHORITATIVE_KINDS \<longrightarrow> oe_signal_class e = ActionAttempted))"
proof (cases "st' = st")
  case False
  then obtain q k where q: "st' = snd (emit upsert st q new_id now)" "eq_tenant_id q = tid" "eq_run_id q = active"
    "eq_binding_tier q = None" "eq_match_kind q = k" "match_kind (or_match (cr_rule cr)) = Inr k"
    using assms unfolding maybe_emit_def Let_def by (fastforce split: if_splits)
  from q(1) False show ?thesis
  proof (cases rule: emit_cases [of upsert st q new_id now])
    case (stored e st2)
    have "k \<in> set NON_AUTHORITATIVE_KINDS \<Longrightarrow> k \<notin> set AUTHORITATIVE_KINDS"
      by (auto simp: NON_AUTHORITATIVE_KINDS_def AUTHORITATIVE_KINDS_def)
    then show ?thesis
      using stored q build_outcome_Inr(1,7) [OF stored(1)]
      by (intro disjI2 exI [of _ e]) (auto simp: outcome_binding_default_def)
  qed simp
qed simp

text \<open>
  C16. The instrumented call is transparent and fails open: the caller of a wrapped function
  always gets exactly the host's result or the host's exception, whatever the rule, the
  expressions or the repository do. An exception of the host records nothing; otherwise at
  most one outcome is stored, under the ambient run, and a function or HTTP match is never
  stored as confirmed.
\<close>

theorem wrapped_call_transparent:
  "fst (call_wrapped env upsert tid active new_id now cr wrapped args kwargs st) = wrapped args kwargs \<and>
   (case wrapped args kwargs of
      Inl _ \<Rightarrow> snd (call_wrapped env upsert tid active new_id now cr wrapped args kwargs st) = st
    | Inr _ \<Rightarrow> snd (call_wrapped env upsert tid active new_id now cr wrapped args kwargs st) = st \<or>
        (\<exists>e. upsert st tid e = Inr (snd (call_wrapped env upsert tid active new_id now cr wrapped args kwargs st)) \<and>
          ob_run_id (oe_binding e) = active \<and> ob_tier (oe_binding e) = None \<and>
          (\<forall>k. match_kind (or_match (cr_rule cr)) = Inr k \<and> k \<in> set NON_AUTHORITATIVE_KINDS \<longrightarrow>
             oe_signal_class e = ActionAttempted)))"
proof (cases "wrapped args kwargs")
  case (Inr result)
  show ?thesis
  proof (cases "maybe_emit env upsert tid active new_id now cr args kwargs result st")
    case (Inr st')
    from maybe_emit_Inr [OF this] show ?thesis
      using Inr \<open>wrapped args kwargs = Inr result\<close> by (simp add: call_wrapped_def)
  qed (use Inr in \<open>simp add: call_wrapped_def\<close>)
qed (simp add: call_wrapped_def)


text \<open>A rule on a function match that declares a confirmed outcome, and a host that returns.\<close>

definition sample_env :: outcome_env where
  "sample_env = \<lparr>en_parse = (\<lambda>s. Some (foldl Attribute (Name ''data'') (tl (split_on (CHR ''.'') s)))),
     en_host = \<lparr>ph_attr = (\<lambda>v a. None), ph_str = (\<lambda>v. [])\<rparr>, en_bind_partial = (\<lambda>args kwargs. None)\<rparr>"

definition function_rule :: outcome_rule where
  "function_rule = \<lparr>or_name = ''shipped'',
     or_match = \<lparr>ms_function = Some ''app.ship'', ms_http = None, ms_orm_save = None, ms_status_transition = None,
       ms_webhook = None, ms_when = None, ms_event = None\<rparr>,
     or_value = None, or_bind = [], or_signal = ''outcome_confirmed'', or_run_id_injection = None\<rparr>"

definition sample_compiled :: compiled_rule where
  "sample_compiled = \<lparr>cr_rule = function_rule, cr_predicate = None, cr_value = None, cr_bind = []\<rparr>"

theorem wrapped_call_transparent_witness:
  "\<exists>e d. outcome_upsert empty_db ''t'' e = Inr d \<and> d \<noteq> empty_db \<and> oe_signal_class e = ActionAttempted \<and>
     call_wrapped sample_env outcome_upsert ''t'' (Some ''r'') ''o'' 5 sample_compiled (\<lambda>_ _. Inr (PInt 1)) [] [] empty_db =
       (Inr (PInt 1), d)"
proof -
  let ?c = "call_wrapped sample_env outcome_upsert ''t'' (Some ''r'') ''o'' 5 sample_compiled (\<lambda>_ _. Inr (PInt 1)) [] [] empty_db"
  have ne: "length (db_outcome_event (snd ?c)) = 1" by code_simp
  then have "snd ?c \<noteq> empty_db" by (auto simp: empty_db_def)
  moreover have k: "match_kind (or_match (cr_rule sample_compiled)) = Inr ''function''"
    "''function'' \<in> set NON_AUTHORITATIVE_KINDS"
    by (simp_all add: sample_compiled_def function_rule_def match_kind_def kind_fields_def MATCH_KINDS_def NON_AUTHORITATIVE_KINDS_def)
  moreover have t: "fst ?c = Inr (PInt 1)" "snd ?c = empty_db \<or> (\<exists>e. outcome_upsert empty_db ''t'' e = Inr (snd ?c) \<and>
      (\<forall>k. match_kind (or_match (cr_rule sample_compiled)) = Inr k \<and> k \<in> set NON_AUTHORITATIVE_KINDS \<longrightarrow>
        oe_signal_class e = ActionAttempted))"
    using wrapped_call_transparent [of sample_env outcome_upsert "''t''" "Some ''r''" "''o''" 5 sample_compiled
        "\<lambda>_ _. Inr (PInt 1)" "[]" "[]" empty_db] by auto
  ultimately obtain e where "outcome_upsert empty_db ''t'' e = Inr (snd ?c)" "oe_signal_class e = ActionAttempted"
    using k by blast
  moreover have "?c = (Inr (PInt 1), snd ?c)" using t(1) by (metis prod.collapse)
  ultimately show ?thesis using \<open>snd ?c \<noteq> empty_db\<close> by blast
qed

section \<open>Webhooks\<close>

lemma verify_Inr: "verify digest q sec = Inr () \<longleftrightarrow>
    is_ascii (wq_signature q) \<and> is_ascii (wq_ingest_key q) \<and>
    wq_signature q = digest (wse_signing_secret sec) (wq_body q) \<and> wq_ingest_key q = wse_ingest_key sec"
  by (auto simp: verify_def compare_digest_def)

lemma verify_Inl: "verify digest q sec = Inl e \<Longrightarrow> e = WebhookSignatureError \<or> e = TypeError"
  by (auto simp: verify_def compare_digest_def res_bind_eq_Inl split: if_splits)

text \<open>
  C15. A webhook is verified before anything else happens: unless the signature is the digest
  of the body under the signing secret and the ingest key is the configured one, the
  receiver raises, and the outcome is the same whatever the body parser, the rule or the
  expressions would have done with it.
\<close>

theorem webhook_verified_first:
  assumes "wq_signature q \<noteq> digest (wse_signing_secret sec) (wq_body q) \<or> wq_ingest_key q \<noteq> wse_ingest_key sec"
  shows "\<exists>e. e \<in> {WebhookSignatureError, TypeError} \<and>
     (\<forall>env loads upsert rule new_id now. receive_webhook env digest loads upsert rule sec tid new_id now q st = Inl e)"
proof -
  have "verify digest q sec \<noteq> Inr ()" using assms by (auto simp: verify_Inr)
  then obtain e where e: "verify digest q sec = Inl e" by (cases "verify digest q sec") auto
  with verify_Inl [OF this] show ?thesis by (auto simp: receive_webhook_def)
qed

definition sample_security :: webhook_security where
  "sample_security = \<lparr>wse_signing_secret = ''s'', wse_ingest_key = ''k''\<rparr>"

theorem webhook_verified_first_witness:
  "\<exists>e. e \<in> {WebhookSignatureError, TypeError} \<and>
     (\<forall>env loads rule new_id now.
        receive_webhook env (\<lambda>a b. a @ b) loads outcome_upsert rule sample_security ''t'' new_id now
          \<lparr>wq_source = ''stripe'', wq_body = ''b'', wq_signature = ''forged'', wq_ingest_key = ''k''\<rparr> empty_db = Inl e)"
  using webhook_verified_first [of "\<lparr>wq_source = ''stripe'', wq_body = ''b'', wq_signature = ''forged'', wq_ingest_key = ''k''\<rparr>"
      "\<lambda>a b. a @ b" sample_security "''t''" empty_db]
  by (fastforce simp: sample_security_def)

lemma extract_run_id_Inr:
  assumes "extract_run_id env rule payload = Inr (rid, via)"
  shows "(via = Echo \<and> (\<exists>i. rid = Some i \<and> i \<noteq> [])) \<or> (via = EntityFallback \<and> rid = None)"
proof (cases "or_run_id_injection rule")
  case None
  then show ?thesis using assms by (simp add: extract_run_id_def)
next
  case (Some spec)
  then obtain f raw where "compile_expr (en_parse env) (en_host env) (ri_extract_from spec) = Inr f"
    "f (webhook_namespace payload) = Inr raw"
    using assms by (auto simp: extract_run_id_def)
  with Some show ?thesis using assms by (cases raw) (auto simp: extract_run_id_def split: if_splits)
qed

lemma webhook_emit_request_Inr:
  assumes "webhook_emit_request env rule payload rid via tid source = Inr q"
  shows "eq_tenant_id q = tid" "eq_name q = or_name rule" "eq_match_kind q = ''webhook''" "eq_declared_signal q = or_signal rule"
    "eq_run_id q = rid" "eq_binding_tier q = Some (if via = Echo \<and> rid \<noteq> None then Deterministic else Candidate)"
    "eq_correlation_id q = (if via = Echo \<and> rid \<noteq> None then rid else None)"
  using assms by (auto simp: webhook_emit_request_def Let_def)

lemma receive_webhook_Inr:
  assumes "receive_webhook env digest loads upsert rule sec tid new_id now q st = Inr (r, st')"
  obtains (ignored) "st' = st" "wr_run_id r = None" "wr_extracted_via r = None"
  | (bound) payload eq via where
      "extract_run_id env rule payload = Inr (wr_run_id r, via)" "wr_extracted_via r = Some via" "wr_payload r = payload"
      "webhook_emit_request env rule payload (wr_run_id r) via tid (wq_source q) = Inr eq"
      "st' = snd (emit upsert st eq new_id now)"
  using assms unfolding receive_webhook_def Let_def by (fastforce split: if_splits)

text \<open>
  A webhook binding is labelled as what it is. When the receiver returns, it either left
  the repository as it was, or stored one outcome under the rule's name: bound
  deterministically to a non-empty run id that the payload echoed, or, without an echo, as a
  candidate without a run. It is confirmed exactly when the rule declares it so.
\<close>

theorem webhook_binding_honest:
  assumes "receive_webhook env digest loads upsert rule sec tid new_id now q st = Inr (r, st')"
  shows "st' = st \<or> (\<exists>e. upsert st tid e = Inr st' \<and> oe_name e = or_name rule \<and>
     ob_run_id (oe_binding e) = wr_run_id r \<and>
     (if wr_extracted_via r = Some Echo
      then ob_tier (oe_binding e) = Some Deterministic \<and> wr_run_id r \<noteq> None \<and> wr_run_id r \<noteq> Some []
      else ob_tier (oe_binding e) = Some Candidate \<and> wr_run_id r = None) \<and>
     oe_signal_class e = (if or_signal rule = ''outcome_confirmed'' then OutcomeConfirmed else ActionAttempted))"
  using assms
proof (cases rule: receive_webhook_Inr)
  case (bound payload eq via)
  note x = extract_run_id_Inr [OF bound(1)] and w = webhook_emit_request_Inr [OF bound(4)]
  show ?thesis
  proof (cases rule: emit_cases [of upsert st eq new_id now])
    case dropped
    then show ?thesis using bound(5) by simp
  next
    case (stored e st2)
    have "upsert st tid e = Inr st'" using stored bound(5) w(1) by simp
    moreover have "oe_name e = or_name rule" using build_outcome_Inr(3) [OF stored(1)] w(2) by simp
    moreover have "oe_signal_class e = (if or_signal rule = ''outcome_confirmed'' then OutcomeConfirmed else ActionAttempted)"
      using build_outcome_Inr(1) [OF stored(1)] w(3,4) by (simp add: AUTHORITATIVE_KINDS_def)
    moreover have "oe_binding e = outcome_binding_default (wr_run_id r)
        (Some (if via = Echo \<and> wr_run_id r \<noteq> None then Deterministic else Candidate)) (eq_bound_by eq)"
      using build_outcome_Inr(7) [OF stored(1)] w(5,6) by simp
    ultimately show ?thesis
      using x bound(2) by (intro disjI2 exI [of _ e]) (auto simp: outcome_binding_default_def)
  qed
qed simp


text \<open>A webhook rule whose echo path is the metadata of the object, and a delivery that echoes.\<close>

definition echo_rule :: "string \<Rightarrow> outcome_rule" where
  "echo_rule name = \<lparr>or_name = name,
     or_match = \<lparr>ms_function = None, ms_http = None, ms_orm_save = None, ms_status_transition = None,
       ms_webhook = Some ''stripe'', ms_when = None, ms_event = None\<rparr>,
     or_value = None, or_bind = [(''customer_id'', ''data.object.customer'')], or_signal = ''outcome_confirmed'',
     or_run_id_injection = Some \<lparr>ri_sdk_call = ''stripe.Session.create'', ri_inject_into = ''metadata.run_id'',
       ri_webhook_event = ''paid'', ri_extract_from = ''data.object.metadata.run_id''\<rparr>\<rparr>"

definition echo_loads :: "string \<Rightarrow> json option" where
  "echo_loads body = Some (JObj [(''type'', JStr ''paid''),
     (''data'', JObj [(''object'', JObj [(''metadata'', JObj [(''run_id'', JStr body)])])])])"

definition signed_request :: "string \<Rightarrow> webhook_request" where
  "signed_request body = \<lparr>wq_source = ''stripe'', wq_body = body, wq_signature = ''s'' @ body, wq_ingest_key = ''k''\<rparr>"

definition deliver :: "string \<Rightarrow> outcome_id \<Rightarrow> string \<Rightarrow> db \<Rightarrow> (webhook_result \<times> db) res" where
  "deliver name new_id body d =
     receive_webhook sample_env (\<lambda>a b. a @ b) echo_loads outcome_upsert (echo_rule name) sample_security ''t'' new_id 7
       (signed_request body) d"

theorem webhook_binding_honest_witness:
  "\<exists>r d e. deliver ''order_paid'' ''o1'' ''r1'' empty_db = Inr (r, d) \<and> outcome_upsert empty_db ''t'' e = Inr d \<and>
     ob_run_id (oe_binding e) = Some ''r1'' \<and> ob_tier (oe_binding e) = Some Deterministic"
proof -
  have "map_sum id (\<lambda>(r, d). (wr_extracted_via r, wr_run_id r, length (db_outcome_event d)))
      (deliver ''order_paid'' ''o1'' ''r1'' empty_db) = Inr (Some Echo, Some ''r1'', 1)" by code_simp
  then obtain r d where d: "deliver ''order_paid'' ''o1'' ''r1'' empty_db = Inr (r, d)"
    and r: "wr_extracted_via r = Some Echo" "wr_run_id r = Some ''r1''" "length (db_outcome_event d) = 1"
    by (cases "deliver ''order_paid'' ''o1'' ''r1'' empty_db") auto
  have "d \<noteq> empty_db" using r(3) by (auto simp: empty_db_def)
  with webhook_binding_honest [OF d [unfolded deliver_def]] r d show ?thesis by auto
qed

section \<open>Echoed runs as correlation ids\<close>

lemma unique_on_snoc: "unique_on cs (xs @ [y]) \<Longrightarrow> x \<in> set xs \<Longrightarrow> \<not> agree cs x y"
  by (induction xs) auto

text \<open>A correlation id that another row of the tenant holds makes the insert fail.\<close>

lemma correlation_taken:
  assumes "r \<in> set (db_outcome_event d)" "row_get r ''tenant_id'' = CUuid tid" "row_get r ''correlation_id'' = CStr i"
    and "\<forall>r \<in> set (db_outcome_event d). row_get r ''tenant_id'' = CUuid tid \<longrightarrow> row_get r ''id'' \<noteq> CStr (oe_id e)"
    and "oe_correlation_id e = Some i"
  shows "outcome_upsert d tid e = Inl IntegrityError"
proof -
  let ?r = "outcome_event_to_row tid e"
  have id: "row_get ?r ''id'' = CStr (oe_id e)" and t: "row_get ?r ''tenant_id'' = CUuid tid"
    and c: "row_get ?r ''correlation_id'' = CStr i"
    using assms(5) by (simp_all add: outcome_event_to_row_def row_get_def opt_cell_def)
  have "\<not> (\<exists>r \<in> set (db_outcome_event d). agree tenant_pk ?r r)"
    using assms(4) id t by (auto simp: agree_def tenant_pk_def)
  moreover have "\<not> unique_on outcome_correlation (db_outcome_event d @ [?r])"
  proof
    assume "unique_on outcome_correlation (db_outcome_event d @ [?r])"
    then have "\<not> agree outcome_correlation r ?r" using assms(1) by (rule unique_on_snoc)
    then show False using assms(2,3) t c by (auto simp: agree_def outcome_correlation_def)
  qed
  ultimately show ?thesis
    by (simp add: outcome_upsert_def upsert_stmt_def insert_row_def commit_def)
qed


text \<open>
  Two outcomes of one run cannot both arrive by webhook. The echoed run id is used as the
  correlation id, which is unique per tenant, so once an outcome of the run is stored, the
  echo of any other outcome of that run, under whatever rule, is verified, reported as
  bound to the run, and not stored: the insert fails and the emitter swallows the failure.
\<close>

theorem echo_second_outcome_dropped:
  assumes "row \<in> set (db_outcome_event d)" "row_get row ''tenant_id'' = CUuid tid" "row_get row ''correlation_id'' = CStr i"
    and "\<forall>r \<in> set (db_outcome_event d). row_get r ''tenant_id'' = CUuid tid \<longrightarrow> row_get r ''id'' \<noteq> CStr new_id"
    and "receive_webhook env digest loads outcome_upsert rule sec tid new_id now q d = Inr (r, d')"
    and "wr_extracted_via r = Some Echo" "wr_run_id r = Some i"
  shows "d' = d \<and> wr_verified r"
proof -
  have v: "wr_verified r"
    using assms(5) by (auto simp: receive_webhook_def Let_def split: if_splits)
  from assms(5) have "d' = d"
  proof (cases rule: receive_webhook_Inr)
    case (bound payload eq via)
    note w = webhook_emit_request_Inr [OF bound(4)]
    have c: "eq_correlation_id eq = Some i" using w(7) bound(2) assms(6,7) by simp
    show ?thesis
    proof (cases rule: emit_cases [of outcome_upsert d eq new_id now])
      case (stored e st2)
      have "outcome_upsert d tid e = Inl IntegrityError"
        using assms(1-4) build_outcome_Inr(2,5) [OF stored(1)] c by (intro correlation_taken) auto
      with stored w(1) show ?thesis by simp
    qed (simp add: bound)
  qed simp
  with v show ?thesis by simp
qed

theorem echo_second_outcome_dropped_witness:
  "\<exists>r1 r2 d. deliver ''order_paid'' ''o1'' ''r1'' empty_db = Inr (r1, d) \<and> d \<noteq> empty_db \<and>
     deliver ''invoice_paid'' ''o2'' ''r1'' d = Inr (r2, d) \<and> wr_verified r2"
proof -
  have "map_sum id (\<lambda>(r, d). map (\<lambda>r. (row_get r ''id'', row_get r ''tenant_id'', row_get r ''correlation_id'')) (db_outcome_event d))
      (deliver ''order_paid'' ''o1'' ''r1'' empty_db) = Inr [(CStr ''o1'', CUuid ''t'', CStr ''r1'')]" by code_simp
  then obtain r1 d where d: "deliver ''order_paid'' ''o1'' ''r1'' empty_db = Inr (r1, d)"
    and rows: "map (\<lambda>r. (row_get r ''id'', row_get r ''tenant_id'', row_get r ''correlation_id'')) (db_outcome_event d) =
      [(CStr ''o1'', CUuid ''t'', CStr ''r1'')]"
    by (cases "deliver ''order_paid'' ''o1'' ''r1'' empty_db") auto
  have "map_sum id (\<lambda>(r, d). (wr_extracted_via r, wr_run_id r))
      (res_bind (deliver ''order_paid'' ''o1'' ''r1'' empty_db) (\<lambda>(r, d). deliver ''invoice_paid'' ''o2'' ''r1'' d)) =
      Inr (Some Echo, Some ''r1'')" by code_simp
  then obtain r2 d2 where d2: "deliver ''invoice_paid'' ''o2'' ''r1'' d = Inr (r2, d2)"
    "wr_extracted_via r2 = Some Echo" "wr_run_id r2 = Some ''r1''"
    using d by (cases "deliver ''invoice_paid'' ''o2'' ''r1'' d") auto
  obtain row where row: "db_outcome_event d = [row]" "row_get row ''id'' = CStr ''o1''"
    "row_get row ''tenant_id'' = CUuid ''t''" "row_get row ''correlation_id'' = CStr ''r1''"
    using rows by (cases "db_outcome_event d") auto
  have "d2 = d \<and> wr_verified r2"
    using row d2 by (intro echo_second_outcome_dropped [OF _ _ _ _ d2(1) [unfolded deliver_def]]) auto
  moreover have "d \<noteq> empty_db" using row(1) by (auto simp: empty_db_def)
  ultimately show ?thesis using d d2(1) by blast
qed


section \<open>The round trip of an injected run id\<close>

lemma eval_chain:
  "eval_node h ns (foldl Attribute e segs) = foldl (\<lambda>r a. res_bind r (\<lambda>c. read_field h c a)) (eval_node h ns e) segs"
  by (induction segs arbitrary: e) simp_all

lemma allowed_chain: "allowed_tree (foldl Attribute e segs) \<longleftrightarrow> allowed_tree e \<and> list_all (\<lambda>a. \<not> dunder a) segs"
  by (induction segs arbitrary: e) auto

lemma merge_path_read:
  "segs \<noteq> [] \<Longrightarrow> list_all (\<lambda>a. \<not> dunder a) segs \<Longrightarrow>
     foldl (\<lambda>r a. res_bind r (\<lambda>c. read_field h c a)) (Inr (PMap (merge_path kwargs segs rid))) segs = Inr (PStr rid)"
  by (induction kwargs segs rid rule: merge_path.induct) (simp_all add: read_field_def)

lemma merge_path_sibling:
  "dict_get (merge_path kwargs segs rid) k = dict_get kwargs k \<or> (\<exists>rest. segs = k # rest)"
  by (cases "(kwargs, segs, rid)" rule: merge_path.cases) auto

text \<open>
  The injected run id survives the round trip: when the vendor echoes the keyword
  arguments of the wrapped call below some prefix of the payload, and the rule's extraction
  path is that prefix followed by the injection path, the receiver recovers exactly the run
  that was active when the call was made. Injection leaves every keyword argument alone but
  the first segment of its path.
\<close>

theorem injection_roundtrip:
  assumes "or_run_id_injection rule = Some spec" "rid \<noteq> []"
    and "en_parse env (ri_extract_from spec) =
      Some (foldl Attribute (Name ''data'') (pre @ split_on (CHR ''.'') (ri_inject_into spec)))"
    and "list_all (\<lambda>a. \<not> dunder a) (pre @ split_on (CHR ''.'') (ri_inject_into spec))"
    and "eval_node (en_host env) (webhook_namespace payload) (foldl Attribute (Name ''data'') pre) =
      Inr (PMap (injection_wrapper (ri_inject_into spec) (Some rid) kwargs))"
  shows "extract_run_id env rule payload = Inr (Some rid, Echo) \<and>
     (\<forall>k. k = hd (split_on (CHR ''.'') (ri_inject_into spec)) \<or>
       dict_get (injection_wrapper (ri_inject_into spec) (Some rid) kwargs) k = dict_get kwargs k)"
proof
  let ?segs = "split_on (CHR ''.'') (ri_inject_into spec)"
  let ?e = "foldl Attribute (Name ''data'') (pre @ ?segs)"
  have "allowed_tree ?e"
    using assms(4) unfolding allowed_chain by (simp add: ALLOWED_ROOTS_def)
  then have c: "compile_expr (en_parse env) (en_host env) (ri_extract_from spec) = Inr (\<lambda>ns. eval_node (en_host env) ns ?e)"
    using assms(3) by (simp add: compile_expr_def parse_expr_def validate_tree_def)
  have "eval_node (en_host env) (webhook_namespace payload) ?e =
      foldl (\<lambda>r a. res_bind r (\<lambda>c. read_field (en_host env) c a)) (Inr (PMap (merge_path kwargs ?segs rid))) ?segs"
    using assms(5) by (simp only: foldl_append eval_chain injection_wrapper_def option.case)
  also have "\<dots> = Inr (PStr rid)" using assms(4) by (intro merge_path_read) auto
  finally show "extract_run_id env rule payload = Inr (Some rid, Echo)"
    using assms(1,2) c by (simp add: extract_run_id_def)
  show "\<forall>k. k = hd ?segs \<or> dict_get (injection_wrapper (ri_inject_into spec) (Some rid) kwargs) k = dict_get kwargs k"
    using merge_path_sibling [of kwargs ?segs rid] unfolding injection_wrapper_def option.case by (metis list.sel(1))
qed

theorem injection_roundtrip_witness:
  "extract_run_id sample_env (echo_rule ''order_paid'') [(''data'', JObj [(''object'', JObj [(''amount'', JInt 5),
       (''metadata'', JObj [(''run_id'', JStr ''r9'')])])])] = Inr (Some ''r9'', Echo) \<and>
   injection_wrapper ''metadata.run_id'' (Some ''r9'') [(''amount'', PInt 5)] =
     [(''amount'', PInt 5), (''metadata'', PMap [(''run_id'', PStr ''r9'')])]"
proof -
  let ?p = "[(''data'', JObj [(''object'', JObj [(''amount'', JInt 5), (''metadata'', JObj [(''run_id'', JStr ''r9'')])])])]"
  have w: "injection_wrapper ''metadata.run_id'' (Some ''r9'') [(''amount'', PInt 5)] =
      [(''amount'', PInt 5), (''metadata'', PMap [(''run_id'', PStr ''r9'')])]"
    by code_simp
  have "extract_run_id sample_env (echo_rule ''order_paid'') ?p = Inr (Some ''r9'', Echo) \<and>
      (\<forall>k. k = hd (split_on (CHR ''.'') ''metadata.run_id'') \<or>
        dict_get (injection_wrapper ''metadata.run_id'' (Some ''r9'') [(''amount'', PInt 5)]) k = dict_get [(''amount'', PInt 5)] k)"
    using injection_roundtrip [where pre = "[''object'']" and rule = "echo_rule ''order_paid''" and env = sample_env and payload = ?p
        and rid = "''r9''" and kwargs = "[(''amount'', PInt 5)]" and spec = "\<lparr>ri_sdk_call = ''stripe.Session.create'',
          ri_inject_into = ''metadata.run_id'', ri_webhook_event = ''paid'', ri_extract_from = ''data.object.metadata.run_id''\<rparr>"]
    by (simp add: w echo_rule_def sample_env_def dunder_def webhook_namespace_def read_field_def)
  with w show ?thesis by blast
qed

section \<open>Absent data\<close>

text \<open>
  C39. A rule whose bind path is absent from the payload does not leave the entity key out: it
  binds the string \<open>None\<close>. Deliveries about different customers that lack the field all
  carry the same entity key.
\<close>

theorem missing_bind_is_None:
  "map_sum id (\<lambda>(r, d). map (\<lambda>r. row_get r ''entity_keys'') (db_outcome_event d))
     (deliver ''order_paid'' ''o1'' ''r1'' empty_db) = Inr [CKeys [[''customer_id'', ''None'']]]"
  by code_simp

text \<open>A signature that is not ASCII escapes the documented verification error.\<close>

lemma non_ascii_signature_type_error:
  "receive_webhook env digest loads upsert rule sec tid new_id now
     \<lparr>wq_source = src, wq_body = b, wq_signature = [CHR 0xE9], wq_ingest_key = k\<rparr> st = Inl TypeError"
  by (simp add: receive_webhook_def verify_def compare_digest_def is_ascii_def)


section \<open>Loaded rules install\<close>

definition expr_ok :: "(string \<Rightarrow> py_ast option) \<Rightarrow> string \<Rightarrow> bool" where
  "expr_ok parse s \<longleftrightarrow> (\<exists>e. parse_expr parse s = Inr e)"

definition rule_ok :: "(string \<Rightarrow> py_ast option) \<Rightarrow> outcome_rule \<Rightarrow> bool" where
  "rule_ok parse r \<longleftrightarrow> or_name r \<noteq> [] \<and> length (filter (\<lambda>(k, v). v \<noteq> None) (kind_fields (or_match r))) = 1 \<and>
     pred_option (expr_ok parse) (ms_when (or_match r)) \<and> pred_option (expr_ok parse) (or_value r) \<and>
     (\<forall>(k, e) \<in> set (or_bind r). expr_ok parse e) \<and>
     (or_signal r = signal_value ActionAttempted \<or> or_signal r = signal_value OutcomeConfirmed)"

lemma safe_validate_iff: "safe_validate parse s = Inr () \<longleftrightarrow> expr_ok parse s"
  by (auto simp: safe_validate_def expr_ok_def)

lemma match_spec_check_Inr:
  "match_spec_check m = Inr m' \<longleftrightarrow> m' = m \<and> length (filter (\<lambda>(k, v). v \<noteq> None) (kind_fields m)) = 1"
  by (auto simp: match_spec_check_def)

lemma build_match_Inr:
  assumes "build_match (safe_validate parse) raw = Inr m"
  shows "length (filter (\<lambda>(k, v). v \<noteq> None) (kind_fields m)) = 1" "pred_option (expr_ok parse) (ms_when m)"
  using assms unfolding build_match_def
  by (auto simp: match_spec_check_Inr safe_validate_iff pred_option_def split: option.splits)

lemma validated_expr_Inr:
  "validated_expr (safe_validate parse) raw = Inr v \<Longrightarrow> pred_option (expr_ok parse) v"
  by (auto simp: validated_expr_def safe_validate_iff split: option.splits)

lemma build_bind_Inr:
  assumes "build_bind (safe_validate parse) raw = Inr b"
  shows "\<forall>(k, e) \<in> set b. expr_ok parse e"
proof (cases raw)
  case (Some v)
  then obtain m where t: "res_traverse (\<lambda>(k, e). res_bind (as_text e) (\<lambda>s. res_bind (safe_validate parse s) (\<lambda>_. Inr (k, s)))) m = Inr b"
    using assms by (auto simp: build_bind_def)
  show ?thesis
  proof safe
    fix k e assume "(k, e) \<in> set b"
    then obtain n where n: "n < length m" "b ! n = (k, e)"
      using res_traverse_length [OF t] by (auto simp: in_set_conv_nth)
    from res_traverse_nth [OF t n(1)] n(2) show "expr_ok parse e"
      by (auto simp: safe_validate_iff split: prod.splits)
  qed
qed (use assms in \<open>simp add: build_bind_def\<close>)

lemma validated_signal_Inr:
  assumes "validated_signal raw kind = Inr s"
  shows "s = signal_value ActionAttempted \<or> s = signal_value OutcomeConfirmed"
proof -
  obtain d where d: "as_text raw = Inr d" "(case map_signal kind d of Inl _ \<Rightarrow> Inl OutcomeRuleSchemaError | Inr _ \<Rightarrow> Inr d) = Inr s"
    using assms by (auto simp: validated_signal_def)
  then obtain t where "map_signal kind s = Inr t" by (cases "map_signal kind d") auto
  then obtain c where c: "signal_of s = Inr c" "c \<noteq> OutcomeRetracted"
    by (auto simp: map_signal_def parse_declared_def split: if_splits)
  then have "s = signal_value c" by (auto simp: signal_of_def split: if_splits)
  with c(2) show ?thesis by (cases c) auto
qed

lemma build_rule_ok:
  assumes "build_rule (safe_validate parse) raw = Inr r"
  shows "rule_ok parse r"
proof -
  obtain rule where rule: "as_mapping (Some raw) = Inr rule"
    using assms by (auto simp: build_rule_def)
  obtain j where j: "dict_get rule ''name'' = Some j"
    using assms rule by (cases "dict_get rule ''name''") (simp_all add: build_rule_def)
  obtain name where rule: "as_mapping (Some raw) = Inr rule" "dict_get rule ''name'' = Some (JStr name)" "name \<noteq> []"
    using assms rule j by (cases j) (simp_all add: build_rule_def split: if_splits)
  with assms obtain m val binds kind sig injection where
    "build_match (safe_validate parse) (dict_get rule ''match'') = Inr m"
    "validated_expr (safe_validate parse) (present rule ''value'') = Inr val"
    "build_bind (safe_validate parse) (present rule ''bind'') = Inr binds"
    "validated_signal (case dict_get rule ''signal'' of None \<Rightarrow> JStr ''action_attempted'' | Some s \<Rightarrow> s) kind = Inr sig"
    "r = \<lparr>or_name = name, or_match = m, or_value = val, or_bind = binds, or_signal = sig, or_run_id_injection = injection\<rparr>"
    by (simp add: build_rule_def) blast
  then show ?thesis
    using build_match_Inr validated_expr_Inr build_bind_Inr validated_signal_Inr rule(3)
    by (simp add: rule_ok_def)
qed

lemma load_rules_ok:
  assumes "load_rules safe_load (safe_validate parse) text = Inr rules" "r \<in> set rules"
  shows "rule_ok parse r"
proof -
  obtain raws where t: "res_traverse (build_rule (safe_validate parse)) raws = Inr rules"
  proof (cases "safe_load text")
    case (Some doc)
    then obtain m where m: "as_mapping (Some doc) = Inr m" using assms(1) by (auto simp: load_rules_def)
    then obtain j where j: "dict_get m ''outcomes'' = Some j"
      using assms(1) Some by (cases "dict_get m ''outcomes''") (simp_all add: load_rules_def)
    then show thesis using that assms(1) Some m by (cases j) (simp_all add: load_rules_def)
  qed (use assms(1) in \<open>simp add: load_rules_def\<close>)
  from assms(2) obtain n where n: "n < length raws" "rules ! n = r"
    using res_traverse_length [OF t] by (auto simp: in_set_conv_nth)
  from build_rule_ok [OF res_traverse_nth [OF t n(1)]] n(2) show ?thesis by simp
qed


lemma find_SomeD: "find P xs = Some x \<Longrightarrow> x \<in> set xs \<and> P x"
  by (induction xs) (auto split: if_splits)

lemma one_kind:
  assumes "length (filter (\<lambda>(k, v). v \<noteq> None) (kind_fields m)) = 1"
  obtains k t where "match_kind m = Inr k" "match_target m = Inr t" "(k, Some t) \<in> set (kind_fields m)" "k \<in> set MATCH_KINDS"
proof -
  let ?P = "\<lambda>(k :: string, v :: string option). v \<noteq> None"
  have "filter ?P (kind_fields m) \<noteq> []" using assms by (metis length_0_conv zero_neq_one)
  then have "find ?P (kind_fields m) \<noteq> None" unfolding find_None_iff filter_empty_conv by blast
  then obtain p where p: "find ?P (kind_fields m) = Some p" by blast
  then have mem: "p \<in> set (kind_fields m)" "snd p \<noteq> None"
    using find_SomeD [OF p] by (simp_all add: case_prod_unfold)
  obtain k t where kt: "p = (k, Some t)" using mem(2) by (cases p) auto
  have "k \<in> set MATCH_KINDS" using mem(1) kt unfolding kind_fields_def by (auto dest: set_zip_leftD)
  with p kt mem(1) show thesis by (intro that [of k t]) (simp_all add: match_kind_def match_target_def)
qed

lemma compile_opt_ok: "(\<And>a. x = Some a \<Longrightarrow> \<exists>b. f a = Inr b) \<Longrightarrow> \<exists>y. compile_opt f x = Inr y"
  by (cases x) (auto simp: compile_opt_def)

lemma make_wrapper_ok: "rule_ok (en_parse env) r \<Longrightarrow> \<exists>c. make_wrapper env r = Inr c \<and> cr_rule c = r"
proof -
  assume ok: "rule_ok (en_parse env) r"
  have c: "\<exists>f. compile_expr (en_parse env) (en_host env) e = Inr f" "\<exists>f. compile_predicate (en_parse env) (en_host env) e = Inr f"
    if "expr_ok (en_parse env) e" for e
    using that by (auto simp: expr_ok_def compile_expr_def compile_predicate_def)
  obtain p where p: "compile_opt (compile_predicate (en_parse env) (en_host env)) (ms_when (or_match r)) = Inr p"
    using compile_opt_ok [of "ms_when (or_match r)"] ok c(2) unfolding rule_ok_def by (metis option.pred_inject(2))
  obtain v where v: "compile_opt (compile_expr (en_parse env) (en_host env)) (or_value r) = Inr v"
    using compile_opt_ok [of "or_value r"] ok c(1) unfolding rule_ok_def by (metis option.pred_inject(2))
  define f where "f = (\<lambda>(k, e). res_bind (compile_expr (en_parse env) (en_host env) e) (\<lambda>f. Inr (k :: string, f)))"
  have "f x = Inr (projr (f x))" if "x \<in> set (or_bind r)" for x
  proof -
    have "expr_ok (en_parse env) (snd x)" using ok that by (auto simp: rule_ok_def)
    then obtain g where "compile_expr (en_parse env) (en_host env) (snd x) = Inr g" using c(1) by blast
    then show ?thesis by (simp add: f_def case_prod_unfold)
  qed
  then have "res_traverse f (or_bind r) = Inr (map (\<lambda>x. projr (f x)) (or_bind r))" by (rule res_traverse_cong_Inr)
  with p v show ?thesis by (simp add: make_wrapper_def f_def)
qed

definition in_process :: "outcome_rule \<Rightarrow> bool" where
  "in_process r \<longleftrightarrow> (\<exists>k \<in> set IN_PROCESS_KINDS. match_kind (or_match r) = Inr k)"

definition target_of :: "outcome_rule \<Rightarrow> string" where
  "target_of r = (case match_target (or_match r) of Inr t \<Rightarrow> t | Inl _ \<Rightarrow> [])"

lemma install_loop_ok:
  assumes "\<And>r. r \<in> set rules \<Longrightarrow> rule_ok (en_parse env) r"
  shows "install_loop env resolvable ins unr rules =
     Inr (ins @ filter resolvable (map target_of (filter in_process rules)),
          unr @ filter (\<lambda>t. \<not> resolvable t) (map target_of (filter in_process rules)))"
  using assms
proof (induction rules arbitrary: ins unr)
  case (Cons r rules)
  obtain k t where kt: "match_kind (or_match r) = Inr k" "match_target (or_match r) = Inr t"
  proof -
    have "rule_ok (en_parse env) r" by (rule Cons.prems) simp
    then show thesis using one_kind [of "or_match r"] that unfolding rule_ok_def by blast
  qed
  obtain c where c: "make_wrapper env r = Inr c" using make_wrapper_ok [of env r] Cons.prems by auto
  have "in_process r \<longleftrightarrow> k \<in> set IN_PROCESS_KINDS" "target_of r = t" using kt by (auto simp: in_process_def target_of_def)
  then show ?case using kt c Cons.IH Cons.prems by simp
qed simp

text \<open>
  What loads can be installed, and nothing is dropped silently: for every document the
  loader accepts, installation raises no error and reports the target of every in-process
  rule, in document order, as installed when it is importable and as unresolved otherwise.
  Every loaded rule has exactly one match kind, validated expressions, and a declared signal
  that is never a retraction.
\<close>

theorem loaded_rules_install:
  assumes "load_rules safe_load (safe_validate (en_parse env)) text = Inr rules"
  shows "install_function_rules env resolvable rules =
     Inr (filter resolvable (map target_of (filter in_process rules)),
          filter (\<lambda>t. \<not> resolvable t) (map target_of (filter in_process rules))) \<and>
     (\<forall>r \<in> set rules. rule_ok (en_parse env) r)"
  using install_loop_ok [of rules env] load_rules_ok [OF assms] by (simp add: install_function_rules_def)

theorem loaded_rules_install_witness:
  "\<exists>rules. load_rules (\<lambda>_. Some (JObj [(''outcomes'', JList [JObj [(''name'', JStr ''shipped''),
        (''match'', JObj [(''function'', JStr ''app.ship'')]), (''value'', JStr ''data.total'')]])]))
      (safe_validate (en_parse sample_env)) ''doc'' = Inr rules \<and>
     install_function_rules sample_env (\<lambda>t. t = ''app.ship'') rules = Inr ([''app.ship''], [])"
proof -
  let ?l = "load_rules (\<lambda>_. Some (JObj [(''outcomes'', JList [JObj [(''name'', JStr ''shipped''),
        (''match'', JObj [(''function'', JStr ''app.ship'')]), (''value'', JStr ''data.total'')]])]))
      (safe_validate (en_parse sample_env)) ''doc''"
  have "map_sum id (map (\<lambda>r. (match_kind (or_match r), match_target (or_match r)))) ?l = Inr [(Inr ''function'', Inr ''app.ship'')]"
    by code_simp
  then obtain rules where l: "?l = Inr rules"
    and k: "map (\<lambda>r. (match_kind (or_match r), match_target (or_match r))) rules = [(Inr ''function'', Inr ''app.ship'')]"
    by (cases ?l) auto
  then obtain r where r: "rules = [r]" "match_kind (or_match r) = Inr ''function''" "match_target (or_match r) = Inr ''app.ship''"
    by (cases rules) auto
  have "in_process r" "target_of r = ''app.ship''" using r by (simp_all add: in_process_def target_of_def IN_PROCESS_KINDS_def)
  with loaded_rules_install [OF l, of "\<lambda>t. t = ''app.ship''"] l r(1) show ?thesis by auto
qed

end
