(* ===== verification/Outcome_Repository.thy ===== *)
theory Outcome_Repository
  imports Outcome_Rules
begin

text \<open>
  Retraction of a recorded outcome (\<open>packages/outcomes\<close>, \<open>retraction.py\<close>) over the outcome
  repository port, and the in-memory repository of the package (\<open>repository.py\<close>).

  The locale \<open>outcome_repository\<close> is what retraction relies on: reads succeed, and retracting
  a confirmed outcome flips that outcome and nothing else. It is interpreted for the SQL
  repository and for the in-memory one, so the lifecycle of a retraction is proved once and
  holds for both.
\<close>

section \<open>Retraction\<close>

datatype retraction_result = Retracted | AlreadyRetracted | NotConfirmed | NotFound

definition retract_outcome ::
  "('s \<Rightarrow> tenant_id \<Rightarrow> outcome_id \<Rightarrow> outcome_event option res) \<Rightarrow> ('s \<Rightarrow> tenant_id \<Rightarrow> outcome_id \<Rightarrow> 's res)
    \<Rightarrow> 's \<Rightarrow> tenant_id \<Rightarrow> outcome_id \<Rightarrow> (retraction_result \<times> 's) res" where
  "retract_outcome get retract st tid i =
     res_bind (get st tid i) (\<lambda>existing.
       case existing of None \<Rightarrow> Inr (NotFound, st)
       | Some e \<Rightarrow>
           if oe_signal_class e = OutcomeRetracted then Inr (AlreadyRetracted, st)
           else if oe_signal_class e \<noteq> OutcomeConfirmed then Inr (NotConfirmed, st)
           else res_bind (retract st tid i) (\<lambda>st'. Inr (Retracted, st')))"

section \<open>In-memory repository\<close>

type_synonym outcome_memory = "tenant_id \<Rightarrow> (outcome_key, outcome_event) dict"

definition mem_upsert :: "outcome_memory \<Rightarrow> tenant_id \<Rightarrow> outcome_event \<Rightarrow> outcome_memory res" where
  "mem_upsert st tid e = Inr (st(tid := dict_set (outcome_idempotency_key e) e (st tid)))"

definition mem_get :: "outcome_memory \<Rightarrow> tenant_id \<Rightarrow> outcome_id \<Rightarrow> outcome_event option res" where
  "mem_get st tid i = Inr (find (\<lambda>e. oe_id e = i) (map snd (st tid)))"

fun retract_first :: "outcome_id \<Rightarrow> (outcome_key, outcome_event) dict \<Rightarrow> (outcome_key, outcome_event) dict" where
  "retract_first i [] = []"
| "retract_first i ((k, e) # d) =
     (if oe_id e \<noteq> i then (k, e) # retract_first i d
      else if oe_signal_class e = OutcomeConfirmed then (k, e\<lparr>oe_signal_class := OutcomeRetracted\<rparr>) # d
      else (k, e) # d)"

definition mem_retract :: "outcome_memory \<Rightarrow> tenant_id \<Rightarrow> outcome_id \<Rightarrow> outcome_memory res" where
  "mem_retract st tid i = Inr (st(tid := retract_first i (st tid)))"

definition mem_list_unbound :: "outcome_memory \<Rightarrow> tenant_id \<Rightarrow> outcome_event list res" where
  "mem_list_unbound st tid = Inr (filter (\<lambda>e. ob_run_id (oe_binding e) = None) (map snd (st tid)))"

definition mem_all_for_tenant :: "outcome_memory \<Rightarrow> tenant_id \<Rightarrow> outcome_event list" where
  "mem_all_for_tenant st tid = map snd (st tid)"

text \<open>The repository that always fails, for the emitter's guard.\<close>

definition failing_upsert :: "'s \<Rightarrow> tenant_id \<Rightarrow> outcome_event \<Rightarrow> 's res" where
  "failing_upsert st tid e = Inl RuntimeError"

lemma emit_failing: "emit failing_upsert st q new_id now = (None, st)"
  by (cases rule: emit_cases [of failing_upsert st q new_id now]) (simp_all add: failing_upsert_def)

section \<open>The contract\<close>

locale outcome_repository =
  fixes invar :: "'s \<Rightarrow> bool"
    and get :: "'s \<Rightarrow> tenant_id \<Rightarrow> outcome_id \<Rightarrow> outcome_event option res"
    and retract :: "'s \<Rightarrow> tenant_id \<Rightarrow> outcome_id \<Rightarrow> 's res"
  assumes get_total: "invar s \<Longrightarrow> \<exists>x. get s tid i = Inr x"
    and retract_flips: "invar s \<Longrightarrow> get s tid i = Inr (Some x) \<Longrightarrow> oe_signal_class x = OutcomeConfirmed \<Longrightarrow>
      \<exists>s'. retract s tid i = Inr s' \<and> invar s' \<and> get s' tid i = Inr (Some (x\<lparr>oe_signal_class := OutcomeRetracted\<rparr>)) \<and>
        (\<forall>t j. (t, j) = (tid, i) \<or> get s' t j = get s t j)"
begin

lemma retract_outcome_effect:
  assumes "invar s"
  shows "\<exists>res s'. retract_outcome get retract s tid i = Inr (res, s') \<and> invar s' \<and>
     (res = Retracted \<longleftrightarrow> (\<exists>x. get s tid i = Inr (Some x) \<and> oe_signal_class x = OutcomeConfirmed)) \<and>
     (res = NotFound \<longleftrightarrow> get s tid i = Inr None) \<and>
     (res = Retracted \<or> s' = s) \<and>
     (\<forall>t j. (t, j) = (tid, i) \<or> get s' t j = get s t j) \<and>
     (res = Retracted \<longrightarrow> retract_outcome get retract s' tid i = Inr (AlreadyRetracted, s'))"
proof -
  obtain v where v: "get s tid i = Inr v" using get_total [OF assms] by blast
  show ?thesis
  proof (cases "\<exists>x. v = Some x \<and> oe_signal_class x = OutcomeConfirmed")
    case True
    then obtain x where x: "v = Some x" "oe_signal_class x = OutcomeConfirmed" by blast
    from retract_flips [OF assms v [unfolded x(1)] x(2)] obtain s' where
      s': "retract s tid i = Inr s'" "invar s'" "get s' tid i = Inr (Some (x\<lparr>oe_signal_class := OutcomeRetracted\<rparr>))"
      "\<forall>t j. (t, j) = (tid, i) \<or> get s' t j = get s t j" by blast
    have "retract_outcome get retract s tid i = Inr (Retracted, s')"
      using v x s'(1) by (simp add: retract_outcome_def)
    moreover have "retract_outcome get retract s' tid i = Inr (AlreadyRetracted, s')"
      using s'(3) by (simp add: retract_outcome_def)
    ultimately show ?thesis using s' v x by auto
  next
    case False
    define res where "res = (case v of None \<Rightarrow> NotFound
      | Some x \<Rightarrow> if oe_signal_class x = OutcomeRetracted then AlreadyRetracted else NotConfirmed)"
    have res: "retract_outcome get retract s tid i = Inr (res, s)" "res \<noteq> Retracted" "res = NotFound \<longleftrightarrow> v = None"
      using v False by (auto simp: retract_outcome_def res_def split: option.splits)
    with v False assms show ?thesis by auto
  qed
qed

end

interpretation pg_outcomes: outcome_repository outcome_table_ok outcome_get outcome_retract
proof
  fix s tid i assume "outcome_table_ok s"
  then show "\<exists>x. outcome_get s tid i = Inr x"
    using outcome_retract_effect [of s tid i] by (cases "outcome_get s tid i") auto
next
  fix s tid i x assume "outcome_table_ok s" "outcome_get s tid i = Inr (Some x)" "oe_signal_class x = OutcomeConfirmed"
  then show "\<exists>s'. outcome_retract s tid i = Inr s' \<and> outcome_table_ok s' \<and>
      outcome_get s' tid i = Inr (Some (x\<lparr>oe_signal_class := OutcomeRetracted\<rparr>)) \<and>
      (\<forall>t j. (t, j) = (tid, i) \<or> outcome_get s' t j = outcome_get s t j)"
    using outcome_retract_effect [of s tid i] by auto
qed

lemma retract_first_find:
  "find (\<lambda>e. oe_id e = i) (map snd d) = Some x \<Longrightarrow> oe_signal_class x = OutcomeConfirmed \<Longrightarrow>
     find (\<lambda>e. oe_id e = i) (map snd (retract_first i d)) = Some (x\<lparr>oe_signal_class := OutcomeRetracted\<rparr>)"
  by (induction i d rule: retract_first.induct) (auto split: if_splits)

lemma retract_first_other:
  "j \<noteq> i \<Longrightarrow> find (\<lambda>e. oe_id e = j) (map snd (retract_first i d)) = find (\<lambda>e. oe_id e = j) (map snd d)"
  by (induction i d rule: retract_first.induct) auto

interpretation mem_outcomes: outcome_repository "\<lambda>_. True" mem_get mem_retract
proof
  fix s :: outcome_memory and tid i x
  assume "mem_get s tid i = Inr (Some x)" "oe_signal_class x = OutcomeConfirmed"
  then have "mem_get (s(tid := retract_first i (s tid))) tid i = Inr (Some (x\<lparr>oe_signal_class := OutcomeRetracted\<rparr>))"
    by (simp add: mem_get_def retract_first_find)
  moreover have "\<forall>t j. (t, j) = (tid, i) \<or> mem_get (s(tid := retract_first i (s tid))) t j = mem_get s t j"
  proof (intro allI)
    fix t j
    show "(t, j) = (tid, i) \<or> mem_get (s(tid := retract_first i (s tid))) t j = mem_get s t j"
      using retract_first_other [of j i] by (cases "t = tid") (auto simp: mem_get_def)
  qed
  ultimately show "\<exists>s'. mem_retract s tid i = Inr s' \<and> True \<and>
      mem_get s' tid i = Inr (Some (x\<lparr>oe_signal_class := OutcomeRetracted\<rparr>)) \<and>
      (\<forall>t j. (t, j) = (tid, i) \<or> mem_get s' t j = mem_get s t j)"
    by (simp add: mem_retract_def)
qed (simp add: mem_get_def)

text \<open>
  C29. Retraction over the SQL store is total and idempotent: it reports \<open>Retracted\<close> exactly
  for a confirmed outcome of the tenant and \<open>NotFound\<close> exactly when there is none, changes
  nothing in any other case and no other outcome in any case, and a second retraction
  reports \<open>AlreadyRetracted\<close> and leaves the store as it is.
\<close>

theorem retract_outcome_lifecycle:
  assumes "outcome_table_ok d"
  shows "\<exists>res d'. retract_outcome outcome_get outcome_retract d tid i = Inr (res, d') \<and> outcome_table_ok d' \<and>
     (res = Retracted \<longleftrightarrow> (\<exists>x. outcome_get d tid i = Inr (Some x) \<and> oe_signal_class x = OutcomeConfirmed)) \<and>
     (res = NotFound \<longleftrightarrow> outcome_get d tid i = Inr None) \<and>
     (res = Retracted \<or> d' = d) \<and>
     (\<forall>t j. (t, j) = (tid, i) \<or> outcome_get d' t j = outcome_get d t j) \<and>
     (res = Retracted \<longrightarrow> retract_outcome outcome_get outcome_retract d' tid i = Inr (AlreadyRetracted, d'))"
  by (rule pg_outcomes.retract_outcome_effect [OF assms])

theorem retract_outcome_lifecycle_witness:
  "\<exists>d'. retract_outcome outcome_get outcome_retract
       (empty_db\<lparr>db_outcome_event := [outcome_event_to_row ''t'' sample_outcome]\<rparr>) ''t'' ''o1'' = Inr (Retracted, d') \<and>
     retract_outcome outcome_get outcome_retract d' ''t'' ''o1'' = Inr (AlreadyRetracted, d')"
proof -
  let ?d = "empty_db\<lparr>db_outcome_event := [outcome_event_to_row ''t'' sample_outcome]\<rparr>"
  have rows: "db_outcome_event ?d = outcome_rows [(''t'', sample_outcome)]" by (simp add: outcome_rows_def)
  then have ok: "outcome_table_ok ?d" unfolding outcome_table_ok_def by force
  have "outcome_get ?d ''t'' (oe_id sample_outcome) = Inr (Some (stored_outcome ''t'' sample_outcome))"
    by (rule outcome_get_mem [OF rows]) simp_all
  then have "\<exists>x. outcome_get ?d ''t'' ''o1'' = Inr (Some x) \<and> oe_signal_class x = OutcomeConfirmed"
    by (simp add: stored_outcome_def sample_outcome_def)
  with retract_outcome_lifecycle [OF ok, of "''t''" "''o1''"] show ?thesis by auto
qed

end
