(* ===== verification/Capture_Pricing.thy ===== *)
theory Capture_Pricing
  imports Python_Text Store_Rows "HOL-Library.Sublist"
begin

text \<open>
  Pricing of a captured attempt (\<open>packages/capture\<close>: \<open>pricing.py\<close>, \<open>invariants.py\<close>,
  \<open>default_pricing.py\<close>, \<open>provider_costapi.py\<close>): the per-class cost in decimal arithmetic, the
  refusal to price an attempt whose billing is uncertain, the shipped price book and the
  resolution of a model id to a card. Warnings carry the text the code writes.

  The main lemmas: within the range of real price cards the decimal loop computes the exact
  cost rounded once to a micro-dollar; the card of a dated model id is the most specific
  family in effect; a refused attempt has no cost and says why.
\<close>

section \<open>Cost of a token vector\<close>

fun token_class_value :: "token_class \<Rightarrow> string" where
  "token_class_value InputUncached = ''input_uncached''"
| "token_class_value CacheRead = ''cache_read''"
| "token_class_value CacheWrite5m = ''cache_write_5m''"
| "token_class_value CacheWrite1h = ''cache_write_1h''"
| "token_class_value Output = ''output''"
| "token_class_value Reasoning = ''reasoning''"

text \<open>\<open>getattr(tokens, field)\<close> for the field of a class; the field is spelled like the class.\<close>

fun class_count :: "token_class \<Rightarrow> token_vector \<Rightarrow> int" where
  "class_count InputUncached t = tv_input_uncached t"
| "class_count CacheRead t = tv_cache_read t"
| "class_count CacheWrite5m t = tv_cache_write_5m t"
| "class_count CacheWrite1h t = tv_cache_write_1h t"
| "class_count Output t = tv_output t"
| "class_count Reasoning t = tv_reasoning t"

definition CLASS_FIELDS :: "token_class list" where
  "CLASS_FIELDS = [InputUncached, CacheRead, CacheWrite5m, CacheWrite1h, Output, Reasoning]"

definition unpriced_warning :: "price_card \<Rightarrow> token_class \<Rightarrow> int \<Rightarrow> string" where
  "unpriced_warning pc cls n =
     ''unpriced_token_class: '' @ token_class_value cls @ '' has '' @ show_int n @ '' tokens but ''
     @ pc_provider pc @ ''/'' @ pc_model pc @ '' card has no '' @ token_class_value cls
     @ '' rate (priced $0)''"

fun cost_classes ::
  "token_vector \<Rightarrow> price_card \<Rightarrow> token_class list \<Rightarrow> rat \<Rightarrow> string list \<Rightarrow> rat \<times> string list" where
  "cost_classes t pc [] acc ws = (acc, ws)"
| "cost_classes t pc (cls # rest) acc ws =
     (let n = class_count cls t in
      if n = 0 then cost_classes t pc rest acc ws
      else case dict_get (pc_usd_per_mtok pc) cls of
        None \<Rightarrow> cost_classes t pc rest acc (ws @ [unpriced_warning pc cls n])
      | Some rate \<Rightarrow> cost_classes t pc rest (dadd acc (dmul (ddiv (of_int n) 1000000) rate)) ws)"

definition compute_cost_usd :: "token_vector \<Rightarrow> price_card \<Rightarrow> (rat \<times> string list) res" where
  "compute_cost_usd t pc =
     (case cost_classes t pc CLASS_FIELDS 0 [] of (acc, ws) \<Rightarrow>
        res_bind (quantize 6 acc) (\<lambda>c. Inr (c, ws)))"

section \<open>Billing honesty\<close>

definition NO_CACHE_WRITE_PROVIDERS :: "string list" where
  "NO_CACHE_WRITE_PROVIDERS = [''openai'']"

definition check_invariants :: "token_vector \<Rightarrow> string \<Rightarrow> string list" where
  "check_invariants t prov =
     (if prov \<in> set NO_CACHE_WRITE_PROVIDERS \<and> (tv_cache_write_5m t \<noteq> 0 \<or> tv_cache_write_1h t \<noteq> 0)
      then [''provider_shape: '' @ prov
            @ '' does not bill a distinct cache_write class but the usage object reported cache_write tokens (5m=''
            @ show_int (tv_cache_write_5m t) @ '', 1h='' @ show_int (tv_cache_write_1h t) @ '')'']
      else [])"

definition BILLING_UNCERTAIN :: string where
  "BILLING_UNCERTAIN = ''billing_uncertain_abort''"

definition PROVISIONED_THROUGHPUT_REASON :: string where
  "PROVISIONED_THROUGHPUT_REASON = ''provisioned_throughput''"

definition price_or_abort ::
  "token_vector \<Rightarrow> price_card option \<Rightarrow> bool \<Rightarrow> bool \<Rightarrow> (rat option \<times> string list) res" where
  "price_or_abort t pc uncertain provisioned =
     (if provisioned then
        Inr (None, [BILLING_UNCERTAIN @ '': '' @ PROVISIONED_THROUGHPUT_REASON
          @ '' (per-token rate does not reflect actual spend; refusing token x price)''])
      else if uncertain then
        Inr (None, [BILLING_UNCERTAIN
          @ '': client_abort (attempt may not be metered-billed; refusing token x price)''])
      else case pc of
        None \<Rightarrow> Inr (None, [''no_price_card: no (provider, model) price card available; cannot price this attempt''])
      | Some c \<Rightarrow> res_bind (compute_cost_usd t c) (\<lambda>(cost, ws). Inr (Some cost, ws)))"

definition ptu_cost_event ::
  "token_vector \<Rightarrow> tenant_id \<Rightarrow> string \<Rightarrow> string \<Rightarrow> string \<Rightarrow> string \<Rightarrow> instant \<Rightarrow> cost_event res" where
  "ptu_cost_event t tid prov mdl rid aid now =
     res_bind (price_or_abort t None False True) (\<lambda>(cost, ws).
     res_bind (provenance_label_new Measured None None) (\<lambda>label.
       Inr \<lparr>ce_tenant_id = tid, ce_id = rid @ '':'' @ aid, ce_run_id = rid, ce_attempt_id = aid,
            ce_provider = prov, ce_model = mdl, ce_tokens = t, ce_granularity = PerAttempt,
            ce_provenance = label, ce_cost_usd = cost, ce_is_streaming = False,
            ce_partial_recovered = False, ce_billing_uncertain_abort = True,
            ce_provenance_warnings = ws, ce_occurred_at = now, ce_latency_ms = None\<rparr>))"

section \<open>The shipped price book\<close>

text \<open>\<open>datetime(2026, 1, 1, tzinfo=UTC)\<close> in microseconds.\<close>

definition SNAPSHOT :: instant where
  "SNAPSHOT = 20454 * day_us"

definition RULE_VERSION :: string where
  "RULE_VERSION = ''default-2026-01''"

text \<open>An Anthropic row prices five classes, an OpenAI or Gemini row three.\<close>

definition rates5 :: "rat \<Rightarrow> rat \<Rightarrow> rat \<Rightarrow> rat \<Rightarrow> rat \<Rightarrow> (token_class, rat) dict" where
  "rates5 iu cr w5 w1 out =
     [(InputUncached, iu), (CacheRead, cr), (CacheWrite5m, w5), (CacheWrite1h, w1), (Output, out)]"

definition rates3 :: "rat \<Rightarrow> rat \<Rightarrow> rat \<Rightarrow> (token_class, rat) dict" where
  "rates3 iu cr out = [(InputUncached, iu), (CacheRead, cr), (Output, out)]"

definition CARDS :: "(string \<times> string \<times> (token_class, rat) dict) list" where
  "CARDS =
    [(''anthropic'', ''claude-3-5-haiku'', rates5 (80/100) (8/100) 1 (160/100) 4),
     (''anthropic'', ''claude-3-5-sonnet'', rates5 3 (30/100) (375/100) 6 15),
     (''anthropic'', ''claude-3-7-sonnet'', rates5 3 (30/100) (375/100) 6 15),
     (''anthropic'', ''claude-sonnet-4'', rates5 3 (30/100) (375/100) 6 15),
     (''anthropic'', ''claude-opus-4'', rates5 15 (150/100) (1875/100) 30 75),
     (''anthropic'', ''claude-haiku-4'', rates5 1 (10/100) (125/100) 2 5),
     (''openai'', ''gpt-4.1'', rates3 2 (50/100) 8),
     (''openai'', ''gpt-4.1-mini'', rates3 (40/100) (10/100) (160/100)),
     (''openai'', ''gpt-4.1-nano'', rates3 (10/100) (25/1000) (40/100)),
     (''openai'', ''gpt-4o'', rates3 (250/100) (125/100) 10),
     (''openai'', ''gpt-4o-mini'', rates3 (15/100) (75/1000) (60/100)),
     (''openai'', ''o3'', rates3 2 (50/100) 8),
     (''openai'', ''o4-mini'', rates3 (110/100) (275/1000) (440/100)),
     (''google'', ''gemini-2.5-pro'', rates3 (125/100) (31/100) 10),
     (''google'', ''gemini-2.5-flash'', rates3 (30/100) (75/1000) (250/100)),
     (''google'', ''gemini-2.5-flash-lite'', rates3 (10/100) (25/1000) (40/100)),
     (''google'', ''gemini-2.0-flash'', rates3 (10/100) (25/1000) (40/100))]"

definition default_pricebook :: "price_card list" where
  "default_pricebook = map (\<lambda>(prov, mdl, rates).
     \<lparr>pc_provider = prov, pc_model = mdl, pc_usd_per_mtok = rates, pc_effective_from = SNAPSHOT,
      pc_rule_version = RULE_VERSION\<rparr>) CARDS"

text \<open>The loop that keeps the longest family seen so far.\<close>

fun prefix_card :: "string \<Rightarrow> string \<Rightarrow> instant \<Rightarrow> price_card option \<Rightarrow> price_card list \<Rightarrow> price_card option" where
  "prefix_card prov mdl now best [] = best"
| "prefix_card prov mdl now best (c # cs) =
     (if pc_provider c \<noteq> prov \<or> now < pc_effective_from c then prefix_card prov mdl now best cs
      else if prefix (pc_model c) mdl \<and>
              (case best of None \<Rightarrow> True | Some b \<Rightarrow> length (pc_model b) < length (pc_model c))
      then prefix_card prov mdl now (Some c) cs
      else prefix_card prov mdl now best cs)"

definition resolve_card :: "price_card list \<Rightarrow> string \<Rightarrow> string \<Rightarrow> instant \<Rightarrow> price_card option" where
  "resolve_card book prov mdl now =
     (case card_for book prov mdl now of
        Some c \<Rightarrow> Some c
      | None \<Rightarrow> prefix_card prov mdl now None book)"


section \<open>The loop computes the exact cost\<close>

text \<open>The reference: exact rational cost, and the classes the card leaves out.\<close>

definition class_cost :: "token_vector \<Rightarrow> price_card \<Rightarrow> token_class \<Rightarrow> rat" where
  "class_cost t pc cls = (case dict_get (pc_usd_per_mtok pc) cls of
     None \<Rightarrow> 0 | Some rate \<Rightarrow> of_int (class_count cls t) / 1000000 * rate)"

definition exact_cost :: "token_vector \<Rightarrow> price_card \<Rightarrow> rat" where
  "exact_cost t pc = sum_list (map (class_cost t pc) CLASS_FIELDS)"

definition unpriced :: "token_vector \<Rightarrow> price_card \<Rightarrow> token_class \<Rightarrow> bool" where
  "unpriced t pc cls \<longleftrightarrow> class_count cls t \<noteq> 0 \<and> dict_get (pc_usd_per_mtok pc) cls = None"

text \<open>
  The range of real inputs: rates of at most a million dollars per million tokens with at
  most six decimals, and fewer than a million million tokens of a class.
\<close>

definition card_in_range :: "price_card \<Rightarrow> bool" where
  "card_in_range pc \<longleftrightarrow> (\<forall>(cls, rate) \<in> set (pc_usd_per_mtok pc). quantized 6 rate \<and> \<bar>rate\<bar> \<le> 10 ^ 6)"

definition tokens_in_range :: "token_vector \<Rightarrow> bool" where
  "tokens_in_range t \<longleftrightarrow> list_all (\<lambda>cls. \<bar>class_count cls t\<bar> \<le> 10 ^ 12) CLASS_FIELDS"

lemma quantized_mult:
  "quantized j x \<Longrightarrow> quantized k y \<Longrightarrow> quantized (j + k) (x * y)"
  unfolding quantized_def by (metis of_int_mult power_add times_divide_times_eq)

lemma class_count_range: "tokens_in_range t \<Longrightarrow> \<bar>class_count cls t\<bar> \<le> 10 ^ 12"
  by (cases cls) (auto simp: tokens_in_range_def CLASS_FIELDS_def)

lemma class_cost_exact:
  assumes "tokens_in_range t" "card_in_range pc" "dict_get (pc_usd_per_mtok pc) cls = Some rate"
  shows "dmul (ddiv (of_int (class_count cls t)) 1000000) rate = class_cost t pc cls"
    and "quantized 12 (class_cost t pc cls)" and "\<bar>class_cost t pc cls\<bar> \<le> 10 ^ 12"
proof -
  let ?n = "class_count cls t"
  have n: "\<bar>?n\<bar> \<le> 10 ^ 12" using assms(1) by (rule class_count_range)
  have r: "quantized 6 rate" "\<bar>rate\<bar> \<le> 10 ^ 6"
    using assms(2,3) by (auto simp: card_in_range_def dest!: map_of_SomeD)
  have q: "quantized 6 (of_int ?n / 1000000)" unfolding quantized_def by (intro exI [of _ ?n]) simp
  have "\<bar>?n\<bar> \<le> 10 ^ 28" using n by (rule order_trans) simp
  then have d: "ddiv (of_int ?n) 1000000 = of_int ?n / 1000000"
    using dec_exact_scaled [of ?n 6] by (simp add: ddiv_def dec.rnd_exact)
  have c: "class_cost t pc cls = of_int ?n / 1000000 * rate" using assms(3) by (simp add: class_cost_def)
  show q12: "quantized 12 (class_cost t pc cls)" using quantized_mult [OF q r(1)] by (simp add: c)
  have "rat_of_int \<bar>?n\<bar> \<le> of_int (10 ^ 12)" using n by (simp only: of_int_le_iff)
  then have "\<bar>rat_of_int ?n / 1000000\<bar> \<le> 10 ^ 6" by (simp add: abs_divide)
  then have "\<bar>rat_of_int ?n / 1000000\<bar> * \<bar>rate\<bar> \<le> 10 ^ 6 * 10 ^ 6" using r(2) by (intro mult_mono) auto
  then show b: "\<bar>class_cost t pc cls\<bar> \<le> 10 ^ 12" by (simp add: c abs_mult)
  have "dec_exact (class_cost t pc cls)" using q12 b by (intro quantized_exact [of 12]) auto
  then show "dmul (ddiv (of_int ?n) 1000000) rate = class_cost t pc cls"
    by (simp add: dmul_def d c dec.rnd_exact)
qed

lemma cost_classes_exact:
  assumes "tokens_in_range t" "card_in_range pc"
    and "quantized 12 acc" "\<bar>acc\<bar> + of_nat (length cs) * 10 ^ 12 \<le> 10 ^ 16"
  shows "cost_classes t pc cs acc ws =
    (acc + sum_list (map (class_cost t pc) cs),
     ws @ map (\<lambda>cls. unpriced_warning pc cls (class_count cls t)) (filter (unpriced t pc) cs))"
  using assms(3,4)
proof (induction cs arbitrary: acc ws)
  case (Cons cls cs)
  have rest: "\<bar>acc\<bar> + of_nat (length cs) * 10 ^ 12 \<le> 10 ^ 16" using Cons.prems(2) by (simp add: algebra_simps)
  show ?case
  proof (cases "class_count cls t = 0")
    case True
    then have "class_cost t pc cls = 0" by (simp add: class_cost_def split: option.splits)
    with True Cons.IH [OF Cons.prems(1) rest] show ?thesis by (simp add: unpriced_def)
  next
    case nz: False
    show ?thesis
    proof (cases "dict_get (pc_usd_per_mtok pc) cls")
      case None
      with nz Cons.IH [OF Cons.prems(1) rest] show ?thesis by (simp add: unpriced_def class_cost_def)
    next
      case (Some rate)
      note ex = class_cost_exact [OF assms(1,2) Some]
      have "\<bar>acc + class_cost t pc cls\<bar> \<le> \<bar>acc\<bar> + \<bar>class_cost t pc cls\<bar>" by (rule abs_triangle_ineq)
      then have b: "\<bar>acc + class_cost t pc cls\<bar> + of_nat (length cs) * 10 ^ 12 \<le> 10 ^ 16"
        using ex(3) Cons.prems(2) by (simp add: algebra_simps)
      have q: "quantized 12 (acc + class_cost t pc cls)" using Cons.prems(1) ex(2) by (rule quantized_add)
      have "\<bar>acc + class_cost t pc cls\<bar> \<le> 10 ^ 16" using b by simp
      then have "dec_exact (acc + class_cost t pc cls)" using q by (intro quantized_exact [of 12]) auto
      then have "dadd acc (class_cost t pc cls) = acc + class_cost t pc cls" by (simp add: dadd_def dec.rnd_exact)
      with nz Some ex(1) Cons.IH [OF q b] show ?thesis by (simp add: unpriced_def Let_def)
    qed
  qed
qed simp

lemma exact_cost_bound:
  assumes "tokens_in_range t" "card_in_range pc"
  shows "\<bar>exact_cost t pc\<bar> \<le> 6 * 10 ^ 12"
proof -
  have c: "\<bar>class_cost t pc cls\<bar> \<le> 10 ^ 12" for cls
    using class_cost_exact(3) [OF assms] by (cases "dict_get (pc_usd_per_mtok pc) cls") (auto simp: class_cost_def)
  show ?thesis
    using c [of InputUncached] c [of CacheRead] c [of CacheWrite5m] c [of CacheWrite1h] c [of Output] c [of Reasoning]
    by (simp add: exact_cost_def CLASS_FIELDS_def abs_le_iff)
qed

lemma compute_cost_exact_aux:
  assumes "tokens_in_range t" "card_in_range pc"
  shows "compute_cost_usd t pc =
    Inr (of_int (half_even (exact_cost t pc * 10 ^ 6)) / 10 ^ 6,
         map (\<lambda>cls. unpriced_warning pc cls (class_count cls t)) (filter (unpriced t pc) CLASS_FIELDS))"
proof -
  have "\<bar>exact_cost t pc * 10 ^ 6\<bar> < 10 ^ 27"
    using exact_cost_bound [OF assms] by (simp add: abs_mult)
  then obtain y where y: "quantize 6 (exact_cost t pc) = Inr y" using quantize_small by blast
  then have "y = of_int (half_even (exact_cost t pc * 10 ^ 6)) / 10 ^ 6"
    by (auto simp: quantize_def Let_def split: if_splits)
  moreover have "cost_classes t pc CLASS_FIELDS 0 [] = (exact_cost t pc,
      map (\<lambda>cls. unpriced_warning pc cls (class_count cls t)) (filter (unpriced t pc) CLASS_FIELDS))"
    by (subst cost_classes_exact [OF assms]) (simp_all add: exact_cost_def CLASS_FIELDS_def)
  ultimately show ?thesis using y by (simp add: compute_cost_usd_def)
qed


text \<open>
  C18. On a card and a usage in the range of real prices, \<open>compute_cost_usd\<close> returns the exact
  rational cost rounded once, half to even, to a micro-dollar: the decimal loop adds no error
  of its own. The warnings name exactly the classes with tokens that the card does not
  price, in the order of the classes.
\<close>

theorem compute_cost_exact:
  assumes "tokens_in_range t" "card_in_range pc"
  shows "compute_cost_usd t pc =
    Inr (of_int (half_even (exact_cost t pc * 10 ^ 6)) / 10 ^ 6,
         map (\<lambda>cls. unpriced_warning pc cls (class_count cls t)) (filter (unpriced t pc) CLASS_FIELDS))"
  using assms by (rule compute_cost_exact_aux)

lemma quantized_iff_Ints: "quantized k x \<longleftrightarrow> x * 10 ^ k \<in> \<int>"
  by (auto simp: quantized_def Ints_def field_simps)

text \<open>Every card of the shipped book is in range.\<close>

lemma default_cards_in_range: "pc \<in> set default_pricebook \<Longrightarrow> card_in_range pc"
proof -
  assume "pc \<in> set default_pricebook"
  then have "pc_usd_per_mtok pc \<in> set (map (snd \<circ> snd) CARDS)"
    by (force simp: default_pricebook_def)
  moreover have "\<forall>rates \<in> set (map (snd \<circ> snd) CARDS).
      \<forall>(cls, rate) \<in> set rates. quantized 6 rate \<and> \<bar>rate\<bar> \<le> 10 ^ 6"
    by (simp add: CARDS_def rates5_def rates3_def abs_divide quantized_iff_Ints)
  ultimately show ?thesis unfolding card_in_range_def by blast
qed


text \<open>A usage of a Claude model: 1000 input, 500 output and 10 reasoning tokens.\<close>

definition sample_tokens :: token_vector where
  "sample_tokens = \<lparr>tv_input_uncached = 1000, tv_cache_read = 200, tv_cache_write_5m = 0,
     tv_cache_write_1h = 0, tv_output = 500, tv_reasoning = 10\<rparr>"

lemma sample_tokens_in_range: "tokens_in_range sample_tokens"
  by (simp add: tokens_in_range_def CLASS_FIELDS_def sample_tokens_def)

theorem compute_cost_exact_witness:
  "tokens_in_range sample_tokens \<and> card_in_range (hd default_pricebook) \<and>
   compute_cost_usd sample_tokens (hd default_pricebook) =
     Inr (2816 / 1000000, [unpriced_warning (hd default_pricebook) Reasoning 10])"
proof -
  have r: "tokens_in_range sample_tokens" "card_in_range (hd default_pricebook)"
    by (rule sample_tokens_in_range) (intro default_cards_in_range hd_in_set, simp add: default_pricebook_def CARDS_def)
  have "exact_cost sample_tokens (hd default_pricebook) * 10 ^ 6 = of_int 2816"
    by (simp add: exact_cost_def class_cost_def CLASS_FIELDS_def sample_tokens_def default_pricebook_def CARDS_def
        rates5_def)
  then have "half_even (exact_cost sample_tokens (hd default_pricebook) * 10 ^ 6) = 2816"
    by (simp only: half_even_of_int)
  moreover have "filter (unpriced sample_tokens (hd default_pricebook)) CLASS_FIELDS = [Reasoning]"
    by (simp add: unpriced_def CLASS_FIELDS_def sample_tokens_def default_pricebook_def CARDS_def rates5_def)
  ultimately show ?thesis
    using compute_cost_exact [OF r] r by (simp add: sample_tokens_def)
qed

section \<open>Resolving a model id\<close>

text \<open>A card that may price a model: of its provider, in effect, and named by a prefix of the id.\<close>

definition eligible_card :: "string \<Rightarrow> string \<Rightarrow> instant \<Rightarrow> price_card \<Rightarrow> bool" where
  "eligible_card prov mdl now c \<longleftrightarrow>
     pc_provider c = prov \<and> pc_effective_from c \<le> now \<and> prefix (pc_model c) mdl"

lemma prefix_card_spec:
  "case prefix_card prov mdl now best cs of
     None \<Rightarrow> best = None \<and> (\<forall>c \<in> set cs. \<not> eligible_card prov mdl now c)
   | Some c \<Rightarrow> (Some c = best \<or> c \<in> set cs \<and> eligible_card prov mdl now c) \<and>
       (\<forall>b. best = Some b \<longrightarrow> length (pc_model b) \<le> length (pc_model c)) \<and>
       (\<forall>d \<in> set cs. eligible_card prov mdl now d \<longrightarrow> length (pc_model d) \<le> length (pc_model c))"
proof (induction cs arbitrary: best)
  case Nil
  show ?case by (simp split: option.split)
next
  case (Cons c cs)
  let ?e = "eligible_card prov mdl now"
  consider (skip) "\<not> ?e c" | (take) "?e c" "\<forall>b. best = Some b \<longrightarrow> length (pc_model b) < length (pc_model c)"
    | (keep) b where "?e c" "best = Some b" "length (pc_model c) \<le> length (pc_model b)"
    by (metis not_less)
  then show ?case
  proof cases
    case skip
    then have "prefix_card prov mdl now best (c # cs) = prefix_card prov mdl now best cs"
      by (auto simp: eligible_card_def)
    with skip Cons.IH [of best] show ?thesis by (cases "prefix_card prov mdl now best cs") auto
  next
    case take
    then have e: "prefix_card prov mdl now best (c # cs) = prefix_card prov mdl now (Some c) cs"
      by (auto simp: eligible_card_def split: option.split)
    show ?thesis
    proof (cases "prefix_card prov mdl now (Some c) cs")
      case None
      then show ?thesis using Cons.IH [of "Some c"] by simp
    next
      case (Some x)
      then have x: "x = c \<or> x \<in> set cs \<and> ?e x" "length (pc_model c) \<le> length (pc_model x)"
        "\<forall>d \<in> set cs. ?e d \<longrightarrow> length (pc_model d) \<le> length (pc_model x)"
        using Cons.IH [of "Some c"] by simp_all
      then show ?thesis using Some e take by (simp, fastforce)
    qed
  next
    case keep
    then have e: "prefix_card prov mdl now best (c # cs) = prefix_card prov mdl now best cs"
      by (auto simp: eligible_card_def)
    show ?thesis unfolding e using Cons.IH [of best] keep by (cases "prefix_card prov mdl now best cs") auto
  qed
qed

lemma card_for_Some:
  assumes "card_for book prov mdl now = Some c"
  shows "c \<in> set book \<and> pc_provider c = prov \<and> pc_model c = mdl \<and> pc_effective_from c \<le> now"
proof -
  let ?xs = "filter (\<lambda>c. pc_provider c = prov \<and> pc_model c = mdl \<and> pc_effective_from c \<le> now) book"
  from assms obtain x xs where x: "?xs = x # xs" "c = first_max pc_effective_from x xs"
    by (auto simp: card_for_def split: list.splits)
  then have "c \<in> set ?xs" using first_max_in [of pc_effective_from x xs] by simp
  then show ?thesis by simp
qed

text \<open>
  The resolved card is of the provider, in effect, and the most specific family of the
  model id: no card in effect whose model is a prefix of the id is longer. A model is left
  unpriced exactly when the book has no such card.
\<close>

theorem resolve_card_most_specific:
  "case resolve_card book prov mdl now of
     None \<Rightarrow> \<not> (\<exists>c \<in> set book. eligible_card prov mdl now c)
   | Some c \<Rightarrow> c \<in> set book \<and> eligible_card prov mdl now c \<and>
       \<not> (\<exists>d \<in> set book. eligible_card prov mdl now d \<and> length (pc_model c) < length (pc_model d))"
proof (cases "card_for book prov mdl now")
  case None
  then show ?thesis
    using prefix_card_spec [where best = None and cs = book and prov = prov and mdl = mdl and now = now]
    by (auto simp: resolve_card_def not_less split: option.splits)
next
  case (Some c)
  from card_for_Some [OF this] have c: "c \<in> set book" "eligible_card prov mdl now c" "pc_model c = mdl"
    by (auto simp: eligible_card_def)
  moreover have "\<not> (\<exists>d \<in> set book. eligible_card prov mdl now d \<and> length (pc_model c) < length (pc_model d))"
    using c(3) by (auto simp: eligible_card_def dest: prefix_length_le)
  ultimately show ?thesis using Some by (simp add: resolve_card_def)
qed


text \<open>
  A new price of a family does not reach its dated model ids: when the book lists a card
  of the family and later one that supersedes it, the exact id gets the new card but an id
  with a suffix keeps the old one.
\<close>

theorem superseded_family_price:
  assumes "pc_provider old = prov" "pc_provider new = prov" "pc_model old = fam" "pc_model new = fam"
    and "pc_effective_from old < pc_effective_from new" "pc_effective_from new \<le> now"
    and "dated \<noteq> []"
  shows "resolve_card [old, new] prov fam now = Some new \<and>
         resolve_card [old, new] prov (fam @ dated) now = Some old"
  using assms by (auto simp: resolve_card_def card_for_def)

theorem superseded_family_price_witness:
  "let old = (hd default_pricebook)\<lparr>pc_effective_from := 0\<rparr>; new = hd default_pricebook in
   resolve_card [old, new] ''anthropic'' ''claude-3-5-haiku-20241022'' SNAPSHOT = Some old"
  using superseded_family_price
    [of "(hd default_pricebook)\<lparr>pc_effective_from := 0\<rparr>" "''anthropic''" "hd default_pricebook" "''claude-3-5-haiku''"
      SNAPSHOT "''-20241022''"]
  by (simp add: default_pricebook_def CARDS_def SNAPSHOT_def day_us_def Let_def)

section \<open>Refusals\<close>

text \<open>A price is refused exactly for uncertain billing or a missing card, always with a reason.\<close>

lemma price_or_abort_refuses:
  assumes "price_or_abort t pc uncertain provisioned = Inr (cost, ws)"
  shows "cost = None \<longleftrightarrow> provisioned \<or> uncertain \<or> pc = None" and "cost = None \<Longrightarrow> ws \<noteq> []"
  using assms by (auto simp: price_or_abort_def split: if_splits option.splits)

lemma price_or_abort_total:
  "tokens_in_range t \<Longrightarrow> (\<And>c. pc = Some c \<Longrightarrow> card_in_range c) \<Longrightarrow>
     \<exists>cost ws. price_or_abort t pc uncertain provisioned = Inr (cost, ws)"
  by (cases pc) (auto simp: price_or_abort_def compute_cost_exact_aux)

lemma ptu_cost_event_refused:
  "\<exists>e. ptu_cost_event t tid prov mdl rid aid now = Inr e \<and> ce_cost_usd e = None \<and> ce_tokens e = t \<and>
     ce_billing_uncertain_abort e \<and> ce_provenance_warnings e \<noteq> [] \<and> cost_idempotency_key e = (rid, aid)"
  by (simp add: ptu_cost_event_def price_or_abort_def provenance_label_new_def reconciled_provenance_def
      cost_idempotency_key_def)

end
