(* ===== verification/Capture_Stream.thy ===== *)
theory Capture_Stream
  imports Capture_Pricing Store
begin

text \<open>
  Capture inside the host process (\<open>packages/capture\<close>): the stream accumulators
  (\<open>terminal.py\<close>), the startup self-test (\<open>selftest.py\<close>), the transport wrapper and its
  fail-open guard (\<open>patch.py\<close>, \<open>guard.py\<close>) and the bounded emitter (\<open>emit.py\<close>).

  Streaming events are JSON objects. The host call is its result (a value or an exception),
  the usage extractor, the clock and the id generator are arguments, the ambient run id is
  an argument. The emitter drains into any repository given by its \<open>upsert\<close>.

  The main lemmas: token counts are the terminal reports of the stream and not sums; the
  host sees its own result; no attempt is lost silently, whatever the order of calls and
  drains and whatever fails.
\<close>

section \<open>Reading usage objects\<close>

fun usage_map :: "json option \<Rightarrow> (string \<times> json) list" where
  "usage_map (Some (JObj m)) = m"
| "usage_map _ = []"

fun usage_int :: "json option \<Rightarrow> int" where
  "usage_int (Some (JInt i)) = max i 0"
| "usage_int _ = 0"

lemma usage_int_nonneg [simp]: "0 \<le> usage_int v"
  by (induction v rule: usage_int.induct) auto

type_synonym stream_event = "(string \<times> json) list"

record attempt_observation =
  ao_provider :: string
  ao_model :: string
  ao_tokens :: token_vector
  ao_is_streaming :: bool
  ao_billing_uncertain_abort :: bool
  ao_provisioned_throughput :: bool
  ao_partial_recovered :: bool

section \<open>Anthropic streams\<close>

record anthropic_acc =
  an_cache_read :: int
  an_cache_write_5m :: int
  an_cache_write_1h :: int
  an_input_uncached :: int
  an_output_terminal :: int
  an_thinking_blocks :: int
  an_saw_message_start :: bool
  an_cancelled :: bool

definition anthropic_init :: anthropic_acc where
  "anthropic_init = \<lparr>an_cache_read = 0, an_cache_write_5m = 0, an_cache_write_1h = 0, an_input_uncached = 0,
     an_output_terminal = 0, an_thinking_blocks = 0, an_saw_message_start = False, an_cancelled = False\<rparr>"

definition start_usage :: "stream_event \<Rightarrow> (string \<times> json) list" where
  "start_usage ev = usage_map (dict_get (usage_map (dict_get ev ''message'')) ''usage'')"

definition observe_message_start :: "anthropic_acc \<Rightarrow> stream_event \<Rightarrow> anthropic_acc" where
  "observe_message_start a ev =
     (let u = start_usage ev; cc = usage_map (dict_get u ''cache_creation'') in
      a\<lparr>an_saw_message_start := True,
        an_input_uncached := usage_int (dict_get u ''input_tokens''),
        an_cache_read := usage_int (dict_get u ''cache_read_input_tokens''),
        an_cache_write_5m := usage_int (dict_get cc ''ephemeral_5m_input_tokens''),
        an_cache_write_1h := usage_int (dict_get cc ''ephemeral_1h_input_tokens''),
        an_output_terminal := usage_int (dict_get u ''output_tokens'')\<rparr>)"

definition observe_message_delta :: "anthropic_acc \<Rightarrow> stream_event \<Rightarrow> anthropic_acc" where
  "observe_message_delta a ev =
     (let u = usage_map (dict_get ev ''usage'') in
      if dict_get u ''output_tokens'' \<noteq> None
      then a\<lparr>an_output_terminal := usage_int (dict_get u ''output_tokens'')\<rparr> else a)"

definition is_thinking :: "stream_event \<Rightarrow> bool" where
  "is_thinking ev \<longleftrightarrow> dict_get (usage_map (dict_get ev ''content_block'')) ''type'' = Some (JStr ''thinking'')"

definition anthropic_observe :: "anthropic_acc \<Rightarrow> stream_event \<Rightarrow> anthropic_acc" where
  "anthropic_observe a ev =
     (let ty = dict_get ev ''type'' in
      if ty = Some (JStr ''message_start'') then observe_message_start a ev
      else if ty = Some (JStr ''message_delta'') then observe_message_delta a ev
      else if ty = Some (JStr ''content_block_start'') \<and> is_thinking ev
      then a\<lparr>an_thinking_blocks := an_thinking_blocks a + 1\<rparr>
      else a)"

definition anthropic_cancel :: "anthropic_acc \<Rightarrow> anthropic_acc" where
  "anthropic_cancel a = a\<lparr>an_cancelled := True\<rparr>"

definition anthropic_finalize :: "anthropic_acc \<Rightarrow> token_vector res" where
  "anthropic_finalize a =
     token_vector_new (an_input_uncached a) (an_cache_read a) (an_cache_write_5m a) (an_cache_write_1h a)
       (max (an_output_terminal a) (an_thinking_blocks a)) (an_thinking_blocks a)"

definition anthropic_observation :: "anthropic_acc \<Rightarrow> string \<Rightarrow> string \<Rightarrow> attempt_observation res" where
  "anthropic_observation a prov mdl =
     res_bind (anthropic_finalize a) (\<lambda>t.
       Inr \<lparr>ao_provider = prov, ao_model = mdl, ao_tokens = t, ao_is_streaming = True,
            ao_billing_uncertain_abort = False, ao_provisioned_throughput = False,
            ao_partial_recovered = (an_cancelled a \<or> \<not> an_saw_message_start a)\<rparr>)"

section \<open>OpenAI streams\<close>

record openai_acc =
  oa_include_usage :: bool
  oa_input_total :: int
  oa_cache_read :: int
  oa_output :: int
  oa_saw_usage :: bool
  oa_cancelled :: bool

definition openai_init :: "bool \<Rightarrow> openai_acc" where
  "openai_init inc = \<lparr>oa_include_usage = inc, oa_input_total = 0, oa_cache_read = 0, oa_output = 0,
     oa_saw_usage = False, oa_cancelled = False\<rparr>"

definition openai_observe :: "openai_acc \<Rightarrow> stream_event \<Rightarrow> openai_acc" where
  "openai_observe a chunk = (case dict_get chunk ''usage'' of
     Some (JObj u) \<Rightarrow>
       a\<lparr>oa_saw_usage := True,
         oa_input_total := usage_int (dict_get u ''prompt_tokens''),
         oa_cache_read := usage_int (dict_get (usage_map (dict_get u ''prompt_tokens_details'')) ''cached_tokens''),
         oa_output := usage_int (dict_get u ''completion_tokens'')\<rparr>
   | _ \<Rightarrow> a)"

definition openai_cancel :: "openai_acc \<Rightarrow> openai_acc" where
  "openai_cancel a = a\<lparr>oa_cancelled := True\<rparr>"

definition openai_finalize :: "openai_acc \<Rightarrow> token_vector res" where
  "openai_finalize a =
     (let cr = min (oa_cache_read a) (oa_input_total a) in
      token_vector_new (oa_input_total a - cr) cr 0 0 (oa_output a) 0)"

definition openai_observation :: "openai_acc \<Rightarrow> string \<Rightarrow> string \<Rightarrow> attempt_observation res" where
  "openai_observation a prov mdl =
     res_bind (openai_finalize a) (\<lambda>t.
       Inr \<lparr>ao_provider = prov, ao_model = mdl, ao_tokens = t, ao_is_streaming = True,
            ao_billing_uncertain_abort = False, ao_provisioned_throughput = False,
            ao_partial_recovered = (oa_cancelled a \<or> \<not> oa_saw_usage a)\<rparr>)"

section \<open>The startup self-test\<close>

fun parse_segments :: "string list \<Rightarrow> int list" where
  "parse_segments [] = []"
| "parse_segments (seg # rest) =
     (let ds = takeWhile is_digit seg in
      if ds = [] then [] else int (digits_value ds) # parse_segments rest)"

definition parse_version :: "string \<Rightarrow> int list" where
  "parse_version v = parse_segments (split_on CHR ''.'' v)"

record supported_range =
  sr_floor :: string
  sr_ceiling :: string
  sr_known_good_example :: string

definition range_contains :: "supported_range \<Rightarrow> string \<Rightarrow> bool" where
  "range_contains r v \<longleftrightarrow>
     parse_version (sr_floor r) \<le> parse_version v \<and> parse_version v < parse_version (sr_ceiling r)"

definition KNOWN_GOOD :: "(string, supported_range) dict" where
  "KNOWN_GOOD =
     [(''httpx'', \<lparr>sr_floor = ''0.27.0'', sr_ceiling = ''1.0.0'', sr_known_good_example = ''0.28.1''\<rparr>),
      (''openai'', \<lparr>sr_floor = ''1.0.0'', sr_ceiling = ''2.0.0'', sr_known_good_example = ''1.50.0''\<rparr>),
      (''anthropic'', \<lparr>sr_floor = ''0.30.0'', sr_ceiling = ''1.0.0'', sr_known_good_example = ''0.40.0''\<rparr>)]"

record self_test_result =
  st_granularity :: capture_granularity
  st_warnings :: "string list"

definition version_warning :: "string \<times> string \<Rightarrow> string list" where
  "version_warning pv = (case dict_get KNOWN_GOOD (fst pv) of
     None \<Rightarrow> []
   | Some r \<Rightarrow> if range_contains r (snd pv) then []
       else [fst pv @ '' '' @ snd pv @ '' is outside the tested range ['' @ sr_floor r @ '', '' @ sr_ceiling r
             @ ''); degrading capture to per_call''])"

definition version_selftest :: "(string \<times> string) list \<Rightarrow> bool \<Rightarrow> self_test_result" where
  "version_selftest installed hook =
     (let ws = concat (map version_warning installed)
             @ (if hook then [] else [''transport hook did not take effect (the patch is ineffective); ''
                 @ ''degrading capture to per_call '' @ [CHR 0xE2, CHR 0x80, CHR 0x94] @ '' capture is NOT silently empty''])
      in \<lparr>st_granularity = (if ws = [] then PerAttempt else PerCall), st_warnings = ws\<rparr>)"

section \<open>The bounded emitter\<close>

record emitter =
  em_max_queue :: int
  em_queue :: "cost_event list"
  em_dropped :: int

definition emitter_new :: "int \<Rightarrow> emitter res" where
  "emitter_new bound = (if bound < 0 then Inl ValueError
     else Inr \<lparr>em_max_queue = bound, em_queue = [], em_dropped = 0\<rparr>)"

definition enqueue :: "emitter \<Rightarrow> cost_event \<Rightarrow> emitter" where
  "enqueue em e =
     (if em_max_queue em \<le> int (length (em_queue em)) then em\<lparr>em_dropped := em_dropped em + 1\<rparr>
      else em\<lparr>em_queue := em_queue em @ [e]\<rparr>)"

text \<open>The drain loop over the queue; a write that raises is counted and the loop goes on.\<close>

fun drain_loop ::
  "('s \<Rightarrow> tenant_id \<Rightarrow> cost_event \<Rightarrow> 's res) \<Rightarrow> cost_event list \<Rightarrow> int \<Rightarrow> int \<Rightarrow> 's \<Rightarrow> int \<times> int \<times> 's" where
  "drain_loop ups [] dropped persisted s = (dropped, persisted, s)"
| "drain_loop ups (e # es) dropped persisted s =
     (case ups s (ce_tenant_id e) e of
        Inl _ \<Rightarrow> drain_loop ups es (dropped + 1) persisted s
      | Inr s' \<Rightarrow> drain_loop ups es dropped (persisted + 1) s')"

definition drain ::
  "('s \<Rightarrow> tenant_id \<Rightarrow> cost_event \<Rightarrow> 's res) \<Rightarrow> emitter \<Rightarrow> 's \<Rightarrow> int \<times> emitter \<times> 's" where
  "drain ups em s =
     (case drain_loop ups (em_queue em) (em_dropped em) 0 s of (dropped, persisted, s') \<Rightarrow>
        (persisted, em\<lparr>em_queue := [], em_dropped := dropped\<rparr>, s'))"

section \<open>The transport wrapper\<close>

text \<open>
  What an instrumented client was given, and the state the wrapper mutates: the emitter, the
  drop counter of the guard and the position in the generated ids.
\<close>

record 'r capture_env =
  cv_tenant_id :: tenant_id
  cv_new_id :: "nat \<Rightarrow> string"
  cv_pricebook :: "price_card list option"
  cv_extract :: "'r \<Rightarrow> attempt_observation option res"
  cv_granularity :: capture_granularity

record capture_state =
  cs_emitter :: emitter
  cs_drops :: int
  cs_ids :: nat

definition UNBOUND_RUN_PREFIX :: string where
  "UNBOUND_RUN_PREFIX = ''unbound:''"

definition observation_event ::
  "'r capture_env \<Rightarrow> attempt_observation \<Rightarrow> string \<Rightarrow> string \<Rightarrow> string \<Rightarrow> instant \<Rightarrow> instant \<Rightarrow> cost_event res" where
  "observation_event env ob rid aid eid priced_at now =
     (let pc = (case cv_pricebook env of None \<Rightarrow> None
                | Some book \<Rightarrow> card_for book (ao_provider ob) (ao_model ob) priced_at) in
      res_bind (price_or_abort (ao_tokens ob) pc (ao_billing_uncertain_abort ob) (ao_provisioned_throughput ob))
        (\<lambda>(cost, billing).
      res_bind (provenance_label_new Measured None None) (\<lambda>label.
        Inr \<lparr>ce_tenant_id = cv_tenant_id env, ce_id = eid, ce_run_id = rid, ce_attempt_id = aid,
             ce_provider = ao_provider ob, ce_model = ao_model ob, ce_tokens = ao_tokens ob,
             ce_granularity = cv_granularity env, ce_provenance = label, ce_cost_usd = cost,
             ce_is_streaming = ao_is_streaming ob, ce_partial_recovered = ao_partial_recovered ob,
             ce_billing_uncertain_abort = (ao_billing_uncertain_abort ob \<or> ao_provisioned_throughput ob),
             ce_provenance_warnings = check_invariants (ao_tokens ob) (ao_provider ob) @ billing,
             ce_occurred_at = now, ce_latency_ms = None\<rparr>)))"

definition capture_attempt ::
  "'r capture_env \<Rightarrow> run_id option \<Rightarrow> instant \<Rightarrow> instant \<Rightarrow> 'r \<Rightarrow> string \<Rightarrow> capture_state \<Rightarrow> unit res \<times> capture_state" where
  "capture_attempt env ambient priced_at now response aid st =
     (case cv_extract env response of
        Inl e \<Rightarrow> (Inl e, st)
      | Inr None \<Rightarrow> (Inr (), st)
      | Inr (Some ob) \<Rightarrow>
          let (rid, st1) = (case ambient of
                Some r \<Rightarrow> (r, st)
              | None \<Rightarrow> (UNBOUND_RUN_PREFIX @ cv_new_id env (cs_ids st), st\<lparr>cs_ids := cs_ids st + 1\<rparr>));
              eid = cv_new_id env (cs_ids st1)
          in case observation_event env ob rid aid eid priced_at now of
               Inl e \<Rightarrow> (Inl e, st1)
             | Inr ev \<Rightarrow> (Inr (), st1\<lparr>cs_ids := cs_ids st1 + 1, cs_emitter := enqueue (cs_emitter st1) ev\<rparr>))"

text \<open>The guard: an exception of the capture work is counted and dropped.\<close>

definition guard :: "unit res \<times> capture_state \<Rightarrow> capture_state" where
  "guard r = (case r of (Inl _, st) \<Rightarrow> st\<lparr>cs_drops := cs_drops st + 1\<rparr> | (Inr _, st) \<Rightarrow> st)"

definition send_wrapper ::
  "'r capture_env \<Rightarrow> run_id option \<Rightarrow> instant \<Rightarrow> instant \<Rightarrow> ('e + 'r) \<Rightarrow> capture_state \<Rightarrow> ('e + 'r) \<times> capture_state" where
  "send_wrapper env ambient priced_at now wrapped st =
     (let aid = cv_new_id env (cs_ids st); st1 = st\<lparr>cs_ids := cs_ids st + 1\<rparr> in
      case wrapped of
        Inl e \<Rightarrow> (Inl e, st1)
      | Inr response \<Rightarrow> (Inr response, guard (capture_attempt env ambient priced_at now response aid st1)))"

text \<open>\<open>InstrumentHandle.dropped\<close> and \<open>handle_drain\<close>.\<close>

definition handle_dropped :: "capture_state \<Rightarrow> int" where
  "handle_dropped st = cs_drops st + em_dropped (cs_emitter st)"

definition handle_drain ::
  "('s \<Rightarrow> tenant_id \<Rightarrow> cost_event \<Rightarrow> 's res) \<Rightarrow> capture_state \<Rightarrow> 's \<Rightarrow> int \<times> capture_state \<times> 's" where
  "handle_drain ups st s =
     (case drain ups (cs_emitter st) s of (n, em, s') \<Rightarrow> (n, st\<lparr>cs_emitter := em\<rparr>, s'))"


section \<open>Streams report terminal values\<close>

text \<open>
  The reference reading of a whole Anthropic stream: the cache and input classes of the last
  \<open>message_start\<close>, the last reported output count, the number of thinking blocks.
\<close>

definition is_start :: "stream_event \<Rightarrow> bool" where
  "is_start ev \<longleftrightarrow> dict_get ev ''type'' = Some (JStr ''message_start'')"

definition start_value :: "(stream_event \<Rightarrow> int) \<Rightarrow> stream_event list \<Rightarrow> int" where
  "start_value f evs = (case rev (filter is_start evs) of [] \<Rightarrow> 0 | ev # _ \<Rightarrow> f ev)"

definition output_report :: "stream_event \<Rightarrow> int list" where
  "output_report ev =
     (let u = usage_map (dict_get ev ''usage'') in
      if is_start ev then [usage_int (dict_get (start_usage ev) ''output_tokens'')]
      else if dict_get ev ''type'' = Some (JStr ''message_delta'') \<and> dict_get u ''output_tokens'' \<noteq> None
      then [usage_int (dict_get u ''output_tokens'')] else [])"

definition terminal_output :: "stream_event list \<Rightarrow> int" where
  "terminal_output evs = last (0 # concat (map output_report evs))"

definition thinking_blocks :: "stream_event list \<Rightarrow> int" where
  "thinking_blocks evs =
     int (length (filter (\<lambda>ev. dict_get ev ''type'' = Some (JStr ''content_block_start'') \<and> is_thinking ev) evs))"

definition cache_creation :: "string \<Rightarrow> stream_event \<Rightarrow> int" where
  "cache_creation k ev = usage_int (dict_get (usage_map (dict_get (start_usage ev) ''cache_creation'')) k)"

lemma start_value_snoc [simp]:
  "start_value f (evs @ [ev]) = (if is_start ev then f ev else start_value f evs)"
  by (simp add: start_value_def)

lemma terminal_output_snoc:
  "terminal_output (evs @ [ev]) = (case output_report ev of [] \<Rightarrow> terminal_output evs | r # rs \<Rightarrow> last (r # rs))"
  by (simp add: terminal_output_def split: list.split)

lemma anthropic_fold:
  fixes evs
  defines "a \<equiv> foldl anthropic_observe anthropic_init evs"
  shows "an_output_terminal a = terminal_output evs \<and> an_thinking_blocks a = thinking_blocks evs \<and>
    an_input_uncached a = start_value (\<lambda>ev. usage_int (dict_get (start_usage ev) ''input_tokens'')) evs \<and>
    an_cache_read a = start_value (\<lambda>ev. usage_int (dict_get (start_usage ev) ''cache_read_input_tokens'')) evs \<and>
    an_cache_write_5m a = start_value (cache_creation ''ephemeral_5m_input_tokens'') evs \<and>
    an_cache_write_1h a = start_value (cache_creation ''ephemeral_1h_input_tokens'') evs \<and>
    (an_saw_message_start a \<longleftrightarrow> (\<exists>ev \<in> set evs. is_start ev)) \<and> \<not> an_cancelled a"
  unfolding a_def
proof (induction evs rule: rev_induct)
  case Nil
  then show ?case by (simp add: anthropic_init_def terminal_output_def thinking_blocks_def start_value_def)
next
  case (snoc ev evs)
  show ?case
  proof (cases "is_start ev")
    case True
    with snoc show ?thesis
      by (simp add: anthropic_observe_def is_start_def observe_message_start_def Let_def terminal_output_snoc
          output_report_def thinking_blocks_def cache_creation_def)
  next
    case False
    with snoc show ?thesis
      by (simp add: anthropic_observe_def is_start_def observe_message_delta_def Let_def terminal_output_snoc
          output_report_def thinking_blocks_def)
  qed
qed

lemma start_value_nonneg: "(\<And>ev. 0 \<le> f ev) \<Longrightarrow> 0 \<le> start_value f evs"
  by (simp add: start_value_def split: list.split)

text \<open>
  C24. Whatever events an Anthropic stream delivers, in whatever order, the recorded token
  vector is that of the reference reading: a cache or input class is the one of the last
  \<open>message_start\<close> and the output the last reported count, so repeating or growing reports
  are never added up. The vector is always well-formed, and the attempt is flagged as
  partially recovered exactly when the stream was cancelled or never started.
\<close>

theorem anthropic_stream_terminal:
  fixes evs cancelled prov mdl
  defines "a \<equiv> (if cancelled then anthropic_cancel (foldl anthropic_observe anthropic_init evs)
                else foldl anthropic_observe anthropic_init evs)"
  shows "\<exists>ob. anthropic_observation a prov mdl = Inr ob \<and> token_vector_ok (ao_tokens ob) \<and>
    ao_tokens ob = \<lparr>
      tv_input_uncached = start_value (\<lambda>ev. usage_int (dict_get (start_usage ev) ''input_tokens'')) evs,
      tv_cache_read = start_value (\<lambda>ev. usage_int (dict_get (start_usage ev) ''cache_read_input_tokens'')) evs,
      tv_cache_write_5m = start_value (cache_creation ''ephemeral_5m_input_tokens'') evs,
      tv_cache_write_1h = start_value (cache_creation ''ephemeral_1h_input_tokens'') evs,
      tv_output = max (terminal_output evs) (thinking_blocks evs),
      tv_reasoning = thinking_blocks evs\<rparr> \<and>
    (ao_partial_recovered ob \<longleftrightarrow> (if \<exists>ev \<in> set evs. is_start ev then cancelled else True))"
proof -
  have "0 \<le> cache_creation k ev" for k ev by (simp add: cache_creation_def)
  then have nn: "0 \<le> start_value (cache_creation k) evs" for k by (rule start_value_nonneg)
  have nn': "0 \<le> start_value (\<lambda>ev. usage_int (g ev)) evs" for g by (rule start_value_nonneg) simp
  have "0 \<le> thinking_blocks evs" by (simp add: thinking_blocks_def)
  then show ?thesis
    using anthropic_fold [of evs] nn nn'
    by (auto simp: a_def anthropic_observation_def anthropic_finalize_def anthropic_cancel_def
        token_vector_new_Inr_iff token_vector_ok_def not_less)
qed


text \<open>An OpenAI stream is read from its last usage chunk, and flagged when there is none.\<close>

lemma openai_stream_terminal:
  fixes evs inc
  defines "a \<equiv> foldl openai_observe (openai_init inc) evs"
    and "us \<equiv> concat (map (\<lambda>ev. case dict_get ev ''usage'' of Some (JObj u) \<Rightarrow> [u] | _ \<Rightarrow> []) evs)"
  shows "oa_saw_usage a \<longleftrightarrow> us \<noteq> []"
    and "oa_input_total a = (if us = [] then 0 else usage_int (dict_get (last us) ''prompt_tokens''))"
    and "oa_output a = (if us = [] then 0 else usage_int (dict_get (last us) ''completion_tokens''))"
proof -
  have "(oa_saw_usage a \<longleftrightarrow> us \<noteq> []) \<and>
    oa_input_total a = (if us = [] then 0 else usage_int (dict_get (last us) ''prompt_tokens'')) \<and>
    oa_output a = (if us = [] then 0 else usage_int (dict_get (last us) ''completion_tokens''))"
    unfolding a_def us_def
  proof (induction evs rule: rev_induct)
    case (snoc ev evs)
    show ?case
    proof (cases "\<exists>u. dict_get ev ''usage'' = Some (JObj u)")
      case True
      then show ?thesis by (auto simp: openai_observe_def)
    next
      case False
      then have "openai_observe b ev = b" "(case dict_get ev ''usage'' of Some (JObj u) \<Rightarrow> [u] | _ \<Rightarrow> []) = []" for b
        by (auto simp: openai_observe_def split: option.split json.split)
      with snoc show ?thesis by simp
    qed
  qed (simp add: openai_init_def)
  then show "oa_saw_usage a \<longleftrightarrow> us \<noteq> []"
    "oa_input_total a = (if us = [] then 0 else usage_int (dict_get (last us) ''prompt_tokens''))"
    "oa_output a = (if us = [] then 0 else usage_int (dict_get (last us) ''completion_tokens''))" by blast+
qed

lemma openai_tokens:
  assumes "openai_finalize a = Inr t"
  shows "token_vector_ok t" "total_input t = oa_input_total a" "tv_output t = oa_output a"
  using assms by (auto simp: openai_finalize_def token_vector_new_Inr_iff total_input_def Let_def)

text \<open>The self-test keeps per-attempt capture only when nothing was wrong.\<close>

lemma version_warning_Nil:
  "version_warning pv = [] \<longleftrightarrow> (\<forall>r. dict_get KNOWN_GOOD (fst pv) = Some r \<longrightarrow> range_contains r (snd pv))"
  by (simp add: version_warning_def split: option.split)

lemma version_selftest_degrades:
  "st_granularity (version_selftest installed hook) = PerAttempt \<longleftrightarrow>
     hook \<and> (\<forall>pv \<in> set installed. \<forall>r. dict_get KNOWN_GOOD (fst pv) = Some r \<longrightarrow> range_contains r (snd pv))"
  by (simp add: version_selftest_def Let_def version_warning_Nil)


section \<open>Nothing is lost silently\<close>

text \<open>
  What the emitter relies on: a repository that accepts an event whose id and attempt it has
  not stored yet, and then holds it after the events it held.
\<close>

definition fresh_event :: "(tenant_id \<times> cost_event) list \<Rightarrow> tenant_id \<Rightarrow> cost_event \<Rightarrow> bool" where
  "fresh_event ms tid e \<longleftrightarrow>
     (\<forall>(t, m) \<in> set ms. t = tid \<longrightarrow> ce_id m \<noteq> ce_id e \<and> cost_idempotency_key m \<noteq> cost_idempotency_key e)"

locale cost_sink =
  fixes ups :: "'s \<Rightarrow> tenant_id \<Rightarrow> cost_event \<Rightarrow> 's res"
    and stores :: "'s \<Rightarrow> (tenant_id \<times> cost_event) list \<Rightarrow> bool"
  assumes accepts_fresh:
    "stores s ms \<Longrightarrow> fresh_event ms tid e \<Longrightarrow> \<exists>s'. ups s tid e = Inr s' \<and> stores s' (ms @ [(tid, e)])"
begin

lemma drain_loop_stores:
  assumes "stores s ms" "\<forall>e \<in> set es. ce_tenant_id e = tid"
    and "distinct (map ce_id (map snd ms @ es))" "distinct (map ce_attempt_id (map snd ms @ es))"
  shows "\<exists>s'. drain_loop ups es dropped persisted s = (dropped, persisted + int (length es), s') \<and>
     stores s' (ms @ map (Pair tid) es)"
  using assms
proof (induction es arbitrary: s ms persisted)
  case (Cons e es)
  have fresh: "fresh_event ms tid e"
    using Cons.prems(3,4) by (force simp: fresh_event_def cost_idempotency_key_def)
  then obtain s1 where s1: "ups s (ce_tenant_id e) e = Inr s1" "stores s1 (ms @ [(tid, e)])"
    using accepts_fresh [OF Cons.prems(1) fresh] Cons.prems(2) by auto
  have "\<exists>s2. drain_loop ups es dropped (persisted + 1) s1 = (dropped, persisted + 1 + int (length es), s2) \<and>
      stores s2 ((ms @ [(tid, e)]) @ map (Pair tid) es)"
    by (rule Cons.IH [OF s1(2)]) (use Cons.prems(2-4) in auto)
  with s1 show ?case by auto
qed simp

end

definition cost_table_holds :: "db \<Rightarrow> (tenant_id \<times> cost_event) list \<Rightarrow> bool" where
  "cost_table_holds d ms \<longleftrightarrow> db_cost_event d = cost_rows ms \<and>
     distinct (map (\<lambda>(t, m). (t, cost_idempotency_key m)) ms) \<and> distinct (map (\<lambda>(t, m). (t, ce_id m)) ms)"

interpretation pg_cost: cost_sink cost_upsert cost_table_holds
proof
  fix d ms tid e
  assume h: "cost_table_holds d ms" and f: "fresh_event ms tid e"
  have p: "put cost_idempotency_key tid e ms = ms @ [(tid, e)]"
    using f by (auto simp: put_def fresh_event_def)
  have i: "distinct (map (\<lambda>(t, m). (t, ce_id m)) (ms @ [(tid, e)]))"
    "distinct (map (\<lambda>(t, m). (t, cost_idempotency_key m)) (ms @ [(tid, e)]))"
    using h f by (auto simp: cost_table_holds_def fresh_event_def)
  show "\<exists>d'. cost_upsert d tid e = Inr d' \<and> cost_table_holds d' (ms @ [(tid, e)])"
    using cost_upsert_rows [of d ms tid e] h i by (simp add: p cost_table_holds_def)
qed

text \<open>
  The life of an instrumented client: host calls, each with its own result, ambient run and
  clock readings, interleaved with drains. Two ghost counters are kept beside the state: the
  attempts that produced a response to capture, and the events the drains reported.
\<close>

definition billable :: "'r capture_env \<Rightarrow> ('e + 'r) \<Rightarrow> int" where
  "billable env wrapped = (case wrapped of
     Inl _ \<Rightarrow> 0
   | Inr response \<Rightarrow> (case cv_extract env response of Inr None \<Rightarrow> 0 | _ \<Rightarrow> 1))"

inductive capture_life ::
  "'r capture_env \<Rightarrow> ('s \<Rightarrow> tenant_id \<Rightarrow> cost_event \<Rightarrow> 's res) \<Rightarrow> int \<Rightarrow> 's \<Rightarrow> capture_state \<Rightarrow> 's \<Rightarrow> int \<Rightarrow> int \<Rightarrow> bool"
  for env ups bound s0 where
  life_start: "emitter_new bound = Inr em \<Longrightarrow>
     capture_life env ups bound s0 \<lparr>cs_emitter = em, cs_drops = 0, cs_ids = 0\<rparr> s0 0 0"
| life_send: "capture_life env ups bound s0 st s offered persisted \<Longrightarrow>
     send_wrapper env ambient priced_at now (wrapped :: error + 'r) st = (r, st') \<Longrightarrow>
     capture_life env ups bound s0 st' s (offered + billable env wrapped) persisted"
| life_drain: "capture_life env ups bound s0 st s offered persisted \<Longrightarrow>
     handle_drain ups st s = (k, st', s') \<Longrightarrow>
     capture_life env ups bound s0 st' s' offered (persisted + k)"

inductive_cases capture_life_E: "capture_life env ups bound s0 st s offered persisted"

lemma drain_loop_counts:
  "drain_loop ups es dropped persisted s = (d, p, s') \<Longrightarrow>
     d + p = dropped + persisted + int (length es) \<and> dropped \<le> d \<and> persisted \<le> p"
  by (induction es arbitrary: dropped persisted s) (fastforce split: sum.splits)+

lemma handle_drain_counts:
  assumes "handle_drain ups st s = (k, st', s')"
  shows "em_queue (cs_emitter st') = []" "em_max_queue (cs_emitter st') = em_max_queue (cs_emitter st)"
    and "cs_ids st' = cs_ids st" "0 \<le> k"
    and "handle_dropped st' + k = handle_dropped st + int (length (em_queue (cs_emitter st)))"
    and "handle_dropped st \<le> handle_dropped st'"
  using assms drain_loop_counts
  by (fastforce simp: handle_drain_def drain_def handle_dropped_def split: prod.splits)+

text \<open>
  One host call: its result is the host's own, and exactly a billable response adds one
  event, to the queue if the event could be built and there was room, else to a drop count.
\<close>

lemma enqueue_counts:
  "int (length (em_queue (enqueue em e))) + em_dropped (enqueue em e) = int (length (em_queue em)) + em_dropped em + 1"
  "em_max_queue (enqueue em e) = em_max_queue em" "em_dropped em \<le> em_dropped (enqueue em e)"
  "int (length (em_queue em)) \<le> em_max_queue em \<Longrightarrow> int (length (em_queue (enqueue em e))) \<le> em_max_queue em"
  by (auto simp: enqueue_def)


text \<open>The event of an observation carries the tenant of the client and the ids it was given.\<close>

lemma observation_event_ids:
  "observation_event env ob rid aid eid priced_at now = Inr e \<Longrightarrow>
     ce_tenant_id e = cv_tenant_id env \<and> ce_run_id e = rid \<and> ce_attempt_id e = aid \<and> ce_id e = eid"
  by (auto simp: observation_event_def Let_def split: prod.splits)

text \<open>What one guarded capture does to the state: nothing, a counted drop, or one new event.\<close>

inductive captured :: "'r capture_env \<Rightarrow> string \<Rightarrow> capture_state \<Rightarrow> capture_state \<Rightarrow> int \<Rightarrow> bool" for env aid st where
  captured_none: "captured env aid st st 0"
| captured_drop: "st' = st\<lparr>cs_ids := k, cs_drops := cs_drops st + 1\<rparr> \<Longrightarrow> cs_ids st \<le> k \<Longrightarrow> captured env aid st st' 1"
| captured_event: "st' = st\<lparr>cs_ids := k + 1, cs_emitter := enqueue (cs_emitter st) e\<rparr> \<Longrightarrow> cs_ids st \<le> k \<Longrightarrow>
     ce_tenant_id e = cv_tenant_id env \<Longrightarrow> ce_attempt_id e = aid \<Longrightarrow> ce_id e = cv_new_id env k \<Longrightarrow>
     captured env aid st st' 1"

lemma capture_attempt_captured:
  "captured env aid st (guard (capture_attempt env ambient priced_at now response aid st))
     (billable env (Inr response :: error + 'r))"
proof (cases "cv_extract env response")
  case (Inl e)
  then show ?thesis
    by (auto simp: capture_attempt_def guard_def billable_def intro!: captured_drop [where k = "cs_ids st"])
next
  case (Inr o')
  show ?thesis
  proof (cases o')
    case None
    with Inr show ?thesis by (simp add: capture_attempt_def guard_def billable_def captured_none)
  next
    case (Some ob)
    define rid where "rid = (case ambient of Some r \<Rightarrow> r | None \<Rightarrow> UNBOUND_RUN_PREFIX @ cv_new_id env (cs_ids st))"
    define k where "k = (case ambient of Some r \<Rightarrow> cs_ids st | None \<Rightarrow> cs_ids st + 1)"
    have st1: "(case ambient of Some r \<Rightarrow> (r, st)
        | None \<Rightarrow> (UNBOUND_RUN_PREFIX @ cv_new_id env (cs_ids st), st\<lparr>cs_ids := cs_ids st + 1\<rparr>)) =
        (rid, st\<lparr>cs_ids := k\<rparr>)"
      by (simp add: rid_def k_def split: option.split)
    have k: "cs_ids st \<le> k" by (simp add: k_def split: option.split)
    have b: "billable env (Inr response :: error + 'r) = 1" using Inr Some by (simp add: billable_def)
    show ?thesis
    proof (cases "observation_event env ob rid aid (cv_new_id env k) priced_at now")
      case (Inl e)
      with \<open>cv_extract env response = Inr o'\<close> Some show ?thesis unfolding b
        by (intro captured_drop [OF _ k]) (simp add: capture_attempt_def st1 guard_def)
    next
      case (Inr ev)
      then have "ce_tenant_id ev = cv_tenant_id env" "ce_attempt_id ev = aid" "ce_id ev = cv_new_id env k"
        using observation_event_ids by blast+
      with Inr \<open>cv_extract env response = Inr o'\<close> Some show ?thesis unfolding b
        by (intro captured_event [OF _ k]) (simp_all add: capture_attempt_def st1 guard_def)
    qed
  qed
qed

lemma captured_counts:
  assumes "captured env aid st st' n"
  shows "int (length (em_queue (cs_emitter st'))) + handle_dropped st' =
      int (length (em_queue (cs_emitter st))) + handle_dropped st + n \<and>
    em_max_queue (cs_emitter st') = em_max_queue (cs_emitter st) \<and> handle_dropped st \<le> handle_dropped st' \<and>
    (int (length (em_queue (cs_emitter st))) \<le> em_max_queue (cs_emitter st) \<longrightarrow>
     int (length (em_queue (cs_emitter st'))) \<le> em_max_queue (cs_emitter st))"
  using assms enqueue_counts
  by (cases rule: captured.cases) (fastforce simp: handle_dropped_def)+

lemma send_wrapper_captured:
  assumes "send_wrapper env ambient priced_at now (wrapped :: error + 'r) st = (r, st')"
  shows "r = wrapped \<and> captured env (cv_new_id env (cs_ids st)) (st\<lparr>cs_ids := cs_ids st + 1\<rparr>) st' (billable env wrapped)"
proof (cases wrapped)
  case (Inl e)
  then show ?thesis using assms by (auto simp: send_wrapper_def billable_def intro: captured_none)
next
  case (Inr response)
  then show ?thesis using assms capture_attempt_captured [of env "cv_new_id env (cs_ids st)"]
    by (auto simp: send_wrapper_def Let_def)
qed


lemma capture_life_counts:
  assumes "capture_life env ups bound s0 st s offered persisted"
  shows "em_max_queue (cs_emitter st) = bound \<and> int (length (em_queue (cs_emitter st))) \<le> bound \<and>
    0 \<le> persisted \<and> 0 \<le> handle_dropped st \<and>
    offered = int (length (em_queue (cs_emitter st))) + handle_dropped st + persisted"
  using assms
proof (induction rule: capture_life.induct)
  case (life_start em)
  then show ?case by (auto simp: emitter_new_def handle_dropped_def split: if_splits)
next
  case (life_send st s offered persisted ambient priced_at now wrapped r st')
  have c: "captured env (cv_new_id env (cs_ids st)) (st\<lparr>cs_ids := cs_ids st + 1\<rparr>) st' (billable env wrapped)"
    using send_wrapper_captured [OF life_send.hyps(2)] by blast
  show ?case using captured_counts [OF c] life_send.IH by (auto simp: handle_dropped_def)
next
  case (life_drain st s offered persisted k st' s')
  show ?case using handle_drain_counts [OF life_drain.hyps(2)] life_drain.IH by auto
qed

text \<open>
  C19. However host calls and drains interleave, and whichever extractions, prices or writes
  fail, the queue stays within its bound and every captured attempt is accounted for: the
  billable responses so far are the events queued, those counted as dropped and those the
  drains reported as persisted.
\<close>

theorem capture_conserves:
  assumes "capture_life env ups bound s0 st s offered persisted"
  shows "int (length (em_queue (cs_emitter st))) \<le> bound \<and> 0 \<le> persisted \<and> 0 \<le> handle_dropped st \<and>
    offered = int (length (em_queue (cs_emitter st))) + handle_dropped st + persisted"
  using capture_life_counts [OF assms] by blast

section \<open>Events reach the store once\<close>

text \<open>The ids an event took from the generator, below the current position.\<close>

definition ids_below :: "'r capture_env \<Rightarrow> nat \<Rightarrow> cost_event \<Rightarrow> bool" where
  "ids_below env n e \<longleftrightarrow> ce_tenant_id e = cv_tenant_id env \<and>
     (\<exists>k < n. ce_id e = cv_new_id env k) \<and> (\<exists>k < n. ce_attempt_id e = cv_new_id env k)"

lemma ids_below_mono: "ids_below env n e \<Longrightarrow> n \<le> m \<Longrightarrow> ids_below env m e"
  unfolding ids_below_def by (meson order_less_le_trans)

definition events_fresh :: "'r capture_env \<Rightarrow> nat \<Rightarrow> cost_event list \<Rightarrow> bool" where
  "events_fresh env n es \<longleftrightarrow> (\<forall>e \<in> set es. ids_below env n e) \<and>
     distinct (map ce_id es) \<and> distinct (map ce_attempt_id es)"

lemma events_fresh_mono: "events_fresh env n es \<Longrightarrow> n \<le> m \<Longrightarrow> events_fresh env m es"
  unfolding events_fresh_def using ids_below_mono by blast

lemma events_fresh_snoc:
  assumes "events_fresh env n es" "inj (cv_new_id env)" "ce_tenant_id e = cv_tenant_id env"
    and "ce_attempt_id e = cv_new_id env n" "ce_id e = cv_new_id env k" "n < k" "k < m"
  shows "events_fresh env m (es @ [e])"
proof -
  have new: "ce_id x \<noteq> ce_id e \<and> ce_attempt_id x \<noteq> ce_attempt_id e" if "x \<in> set es" for x
  proof -
    from that assms(1) obtain i j where "i < n" "ce_id x = cv_new_id env i" "j < n" "ce_attempt_id x = cv_new_id env j"
      unfolding events_fresh_def ids_below_def by blast
    then show ?thesis using assms(2,4-6) by (auto dest: injD)
  qed
  from new have "ce_id e \<notin> ce_id ` set es" "ce_attempt_id e \<notin> ce_attempt_id ` set es" by force+
  moreover have "ids_below env m e" using assms(3-7) unfolding ids_below_def by (meson order_less_trans)
  moreover have "events_fresh env m es" using assms by (intro events_fresh_mono [OF assms(1)]) simp
  ultimately show ?thesis by (auto simp: events_fresh_def)
qed

lemma captured_fresh:
  assumes "captured env (cv_new_id env n) (st\<lparr>cs_ids := n + 1\<rparr>) st' b" "inj (cv_new_id env)"
    and "events_fresh env n (stored @ em_queue (cs_emitter st))"
  shows "events_fresh env (cs_ids st') (stored @ em_queue (cs_emitter st'))"
  using assms(1)
proof (cases rule: captured.cases)
  case captured_none
  then show ?thesis using events_fresh_mono [OF assms(3)] by simp
next
  case (captured_drop k)
  then show ?thesis using events_fresh_mono [OF assms(3)] by simp
next
  case (captured_event e k)
  have "events_fresh env (k + 1) ((stored @ em_queue (cs_emitter st)) @ [e])"
    using captured_event by (intro events_fresh_snoc [OF assms(3,2)]) auto
  moreover have "events_fresh env (k + 1) (stored @ em_queue (cs_emitter st))"
    using captured_event by (intro events_fresh_mono [OF assms(3)]) simp
  ultimately show ?thesis using captured_event by (simp add: enqueue_def)
qed

context cost_sink
begin

lemma life_stores:
  assumes "capture_life env ups bound s0 st s offered persisted" "stores s0 []" "inj (cv_new_id env)"
  shows "\<exists>es. stores s (map (Pair (cv_tenant_id env)) es) \<and> int (length es) = persisted \<and>
    events_fresh env (cs_ids st) (es @ em_queue (cs_emitter st))"
  using assms(1)
proof (induction rule: capture_life.induct)
  case (life_start em)
  then show ?case using assms(2) by (auto simp: emitter_new_def events_fresh_def split: if_splits intro!: exI [of _ "[]"])
next
  case (life_send st s offered persisted ambient priced_at now wrapped r st')
  have "captured env (cv_new_id env (cs_ids st)) (st\<lparr>cs_ids := cs_ids st + 1\<rparr>) st' (billable env wrapped)"
    using send_wrapper_captured [OF life_send.hyps(2)] by blast
  with life_send.IH show ?case using captured_fresh [OF _ assms(3)] by blast
next
  case (life_drain st s offered persisted k st' s')
  then obtain es where es: "stores s (map (Pair (cv_tenant_id env)) es)" "int (length es) = persisted"
    and f: "events_fresh env (cs_ids st) (es @ em_queue (cs_emitter st))" by blast
  let ?q = "em_queue (cs_emitter st)" and ?tid = "cv_tenant_id env"
  have t: "\<forall>e \<in> set ?q. ce_tenant_id e = ?tid"
    using f by (auto simp: events_fresh_def ids_below_def)
  have dst: "distinct (map ce_id (map snd (map (Pair ?tid) es) @ ?q))"
    "distinct (map ce_attempt_id (map snd (map (Pair ?tid) es) @ ?q))"
    using f by (simp_all add: events_fresh_def o_def)
  obtain s2 where s2: "drain_loop ups ?q (em_dropped (cs_emitter st)) 0 s = (em_dropped (cs_emitter st), 0 + int (length ?q), s2)"
    "stores s2 (map (Pair ?tid) es @ map (Pair ?tid) ?q)"
    using drain_loop_stores [OF es(1) t dst] by blast
  with life_drain.hyps(2) have "k = int (length ?q)" "s' = s2" "em_queue (cs_emitter st') = []" "cs_ids st' = cs_ids st"
    by (auto simp: handle_drain_def drain_def)
  with s2(2) es(2) f show ?case by (intro exI [of _ "es @ ?q"]) simp
qed

end


text \<open>
  With a generator that does not repeat ids, a client that drains into the SQL cost event
  table stores every persisted event in one row of its tenant: no two captured attempts
  overwrite each other and no write is refused. The rows are as many as the drains reported,
  so that rows, queue and reported drops together are the billable responses.
\<close>

theorem captured_events_stored:
  assumes "capture_life env cost_upsert bound empty_db st d offered persisted" "inj (cv_new_id env)"
  shows "int (length (require_tenant (cv_tenant_id env) (db_cost_event d))) = persisted \<and>
    length (db_cost_event d) = length (require_tenant (cv_tenant_id env) (db_cost_event d)) \<and>
    offered = int (length (db_cost_event d)) + int (length (em_queue (cs_emitter st))) + handle_dropped st"
proof -
  have "cost_table_holds empty_db []" by (simp add: cost_table_holds_def empty_db_def cost_rows_def)
  from pg_cost.life_stores [OF assms(1) this assms(2)]
  obtain es where es: "db_cost_event d = cost_rows (map (Pair (cv_tenant_id env)) es)" "int (length es) = persisted"
    by (auto simp: cost_table_holds_def)
  have "require_tenant (cv_tenant_id env) (db_cost_event d) = db_cost_event d"
    unfolding es(1) by (auto simp: require_tenant_def cost_rows_def filter_id_conv row_simps)
  with es capture_life_counts [OF assms(1)] show ?thesis by (simp add: cost_rows_def)
qed

text \<open>A client whose every response reports the sample usage; one call, then a drain.\<close>

definition sample_capture :: "unit capture_env" where
  "sample_capture = \<lparr>cv_tenant_id = ''t'', cv_new_id = show_nat, cv_pricebook = None,
     cv_extract = (\<lambda>_. Inr (Some \<lparr>ao_provider = ''anthropic'', ao_model = ''claude-opus-4'',
       ao_tokens = sample_tokens, ao_is_streaming = True, ao_billing_uncertain_abort = False,
       ao_provisioned_throughput = False, ao_partial_recovered = False\<rparr>)),
     cv_granularity = PerAttempt\<rparr>"

definition sample_start :: capture_state where
  "sample_start = \<lparr>cs_emitter = \<lparr>em_max_queue = 5, em_queue = [], em_dropped = 0\<rparr>, cs_drops = 0, cs_ids = 0\<rparr>"

definition sample_sent :: capture_state where
  "sample_sent = snd (send_wrapper sample_capture (Some ''r'') SNAPSHOT SNAPSHOT (Inr () :: error + unit) sample_start)"

definition sample_drained :: "int \<times> capture_state \<times> db" where
  "sample_drained = handle_drain cost_upsert sample_sent empty_db"

lemma sample_capture_sent:
  "capture_life sample_capture ups 5 s0 sample_sent s0 1 0"
proof -
  have "capture_life sample_capture ups 5 s0 sample_start s0 0 0"
    unfolding sample_start_def by (rule life_start) (simp add: emitter_new_def)
  then have "capture_life sample_capture ups 5 s0 sample_sent s0
      (0 + billable sample_capture (Inr () :: error + unit)) 0"
    by (rule life_send [where r = "Inr ()"]) (simp add: sample_sent_def send_wrapper_def Let_def)
  then show ?thesis by (simp add: billable_def sample_capture_def)
qed

theorem capture_conserves_witness:
  "capture_life sample_capture cost_upsert 5 empty_db sample_sent empty_db 1 0 \<and>
   int (length (em_queue (cs_emitter sample_sent))) + handle_dropped sample_sent = 1"
  using capture_conserves [OF sample_capture_sent [of cost_upsert empty_db]] sample_capture_sent by auto

lemma sample_drained_counts: "fst sample_drained = 1 \<and> length (db_cost_event (snd (snd sample_drained))) = 1"
  by code_simp

theorem captured_events_stored_witness:
  "inj (cv_new_id sample_capture) \<and> length (db_cost_event (snd (snd sample_drained))) = 1 \<and>
   int (length (em_queue (cs_emitter (fst (snd sample_drained))))) + handle_dropped (fst (snd sample_drained)) = 0"
proof -
  obtain k st d where dr: "sample_drained = (k, st, d)" by (cases sample_drained)
  then have "handle_drain cost_upsert sample_sent empty_db = (k, st, d)" by (simp add: sample_drained_def)
  from life_drain [OF sample_capture_sent [of cost_upsert empty_db] this]
  have life: "capture_life sample_capture cost_upsert 5 empty_db st d 1 (0 + k)" .
  have inj_id: "inj (cv_new_id sample_capture)"
    by (auto simp: sample_capture_def intro: injI show_nat_inj)
  show ?thesis using captured_events_stored [OF life inj_id] sample_drained_counts inj_id by (simp add: dr)
qed

end
