(* ===== verification/Raw_Records.thy ===== *)
theory Raw_Records
  imports Store
begin

text \<open>
  Raw payloads kept for replay (\<open>store/repositories/raw_record.py\<close>): store, fetch, list and
  erase by entity key. A payload is a JSON object; identifiers are ordered by their bytes.

  The main lemma is the erasure contract: erasing an entity key removes exactly the tenant's
  records that carry it, returns their number and leaves every other record readable.
\<close>

section \<open>Operations\<close>

record raw_record =
  rw_id :: string
  rw_payload :: "(string \<times> json) list"
  rw_entity_keys :: "entity_key list"

definition raw_to_row :: "tenant_id \<Rightarrow> raw_record \<Rightarrow> row" where
  "raw_to_row tid m =
    [(''id'', CStr (rw_id m)), (''tenant_id'', CUuid tid), (''payload'', CObj (rw_payload m)),
     (''entity_keys'', CKeys (entity_keys_to_json (rw_entity_keys m)))]"

definition raw_put :: "table \<Rightarrow> tenant_id \<Rightarrow> raw_record \<Rightarrow> table res" where
  "raw_put tbl tid m = upsert_stmt [tenant_pk] tenant_pk (raw_to_row tid m) tbl"

definition raw_get :: "table \<Rightarrow> tenant_id \<Rightarrow> string \<Rightarrow> (string \<times> json) list option res" where
  "raw_get tbl tid i =
     (case filter (\<lambda>r. row_get r ''id'' = CStr i) (require_tenant tid tbl) of
        [] \<Rightarrow> Inr None
      | [r] \<Rightarrow> res_bind (res_bind (row_at r ''payload'') as_json_obj) (\<lambda>p. Inr (Some p))
      | _ \<Rightarrow> Inl MultipleResultsFound)"

definition raw_pair :: "row \<Rightarrow> (string \<times> (string \<times> json) list) res" where
  "raw_pair r =
     res_bind (res_bind (row_at r ''id'') as_str) (\<lambda>i.
     res_bind (res_bind (row_at r ''payload'') as_json_obj) (\<lambda>p. Inr (i, p)))"

definition raw_list_recent :: "table \<Rightarrow> tenant_id \<Rightarrow> nat \<Rightarrow> (string \<times> (string \<times> json) list) list res" where
  "raw_list_recent tbl tid limit =
     res_bind (res_traverse raw_pair (require_tenant tid tbl))
       (\<lambda>ps. Inr (take limit (rev (sort_key fst ps))))"

text \<open>The ids of the scanned rows whose keys contain the erased one.\<close>

fun doomed_ids :: "entity_key \<Rightarrow> row list \<Rightarrow> cell list res" where
  "doomed_ids k [] = Inr []"
| "doomed_ids k (r # rs) =
     res_bind (res_bind (row_at r ''entity_keys'') entity_keys_from_json) (\<lambda>ks.
     res_bind (if k \<in> set ks then res_bind (row_at r ''id'') (\<lambda>i. Inr [i]) else Inr []) (\<lambda>here.
     res_bind (doomed_ids k rs) (\<lambda>rest. Inr (here @ rest))))"

definition raw_erase_by_entity :: "table \<Rightarrow> tenant_id \<Rightarrow> entity_key \<Rightarrow> (int \<times> table) res" where
  "raw_erase_by_entity tbl tid k =
     res_bind (doomed_ids k (require_tenant tid tbl)) (\<lambda>doomed.
       if doomed = [] then Inr (0, tbl)
       else Inr (int (length doomed),
         filter (\<lambda>r. \<not> (row_get r ''tenant_id'' = CUuid tid \<and> row_get r ''id'' \<in> set doomed)) tbl))"

section \<open>The table of raw records\<close>

lemma raw_row_simps [row_simps]:
  "row_get (raw_to_row t m) ''id'' = CStr (rw_id m)" "row_get (raw_to_row t m) ''tenant_id'' = CUuid t"
  "row_at (raw_to_row t m) ''id'' = Inr (CStr (rw_id m))"
  "row_at (raw_to_row t m) ''payload'' = Inr (CObj (rw_payload m))"
  "row_at (raw_to_row t m) ''entity_keys'' = Inr (CKeys (entity_keys_to_json (rw_entity_keys m)))"
  by (simp_all add: raw_to_row_def row_get_def row_at_def)

interpretation raw_codec: row_codec raw_to_row rw_id tenant_pk "[''id'', ''tenant_id'', ''payload'', ''entity_keys'']"
  by unfold_locales (auto simp: raw_to_row_def agree_def tenant_pk_def row_get_def)

definition raw_rows :: "(tenant_id \<times> raw_record) list \<Rightarrow> table" where
  "raw_rows ms = map (\<lambda>(t, m). raw_to_row t m) ms"

definition raw_table_ok :: "table \<Rightarrow> bool" where
  "raw_table_ok tbl \<longleftrightarrow> (\<exists>ms. tbl = raw_rows ms \<and> distinct (map (\<lambda>(t, m). (t, rw_id m)) ms))"

lemma raw_put_rows:
  assumes "distinct (map (\<lambda>(t, m). (t, rw_id m)) ms)"
  shows "raw_put (raw_rows ms) tid m = Inr (raw_rows (put rw_id tid m ms))"
  unfolding raw_put_def raw_rows_def by (rule raw_codec.upsert_key_only [OF assms])

lemma raw_put_ok: "raw_table_ok tbl \<Longrightarrow> \<exists>tbl'. raw_put tbl tid m = Inr tbl' \<and> raw_table_ok tbl'"
  unfolding raw_table_ok_def using raw_put_rows put_distinct by fast

text \<open>The record of a tenant and an id.\<close>

definition raw_at :: "(tenant_id \<times> raw_record) list \<Rightarrow> tenant_id \<Rightarrow> string \<Rightarrow> raw_record option" where
  "raw_at ms tid i = map_option snd (find (\<lambda>(t, m). t = tid \<and> rw_id m = i) ms)"

lemma find_filter: "find P xs = (case filter P xs of [] \<Rightarrow> None | x # _ \<Rightarrow> Some x)"
  by (induction xs) auto

lemma raw_get_rows:
  assumes "distinct (map (\<lambda>(t, m). (t, rw_id m)) ms)"
  shows "raw_get (raw_rows ms) tid i = Inr (map_option rw_payload (raw_at ms tid i))"
proof -
  have f: "filter (\<lambda>r. row_get r ''id'' = CStr i) (require_tenant tid (raw_rows ms)) =
      raw_rows (filter (\<lambda>(t, x). t = tid \<and> rw_id x = i) ms)"
    by (simp add: require_tenant_def raw_rows_def filter_map o_def case_prod_unfold row_simps conj_commute)
  have rows: "raw_rows [] = []" "raw_rows [(t, m)] = [raw_to_row t m]" for t m by (simp_all add: raw_rows_def)
  from assms show ?thesis
    by (cases rule: filter_key_cases [where key = rw_id and tid = tid and i = i])
      (simp_all add: raw_get_def f raw_at_def find_filter rows row_simps)
qed

lemma doomed_ids_rows:
  "doomed_ids k (raw_rows ms) = Inr (map (\<lambda>(t, m). CStr (rw_id m)) (filter (\<lambda>(t, m). k \<in> set (rw_entity_keys m)) ms))"
proof (induction ms)
  case (Cons p ms)
  obtain t m where p: "p = (t, m)" by (cases p)
  from Cons show ?case
    by (cases "k \<in> set (rw_entity_keys m)") (simp_all add: p raw_rows_def row_simps del: res_bind_eq_Inr)
qed (simp add: raw_rows_def)

text \<open>Whether a record of the tenant carries a key.\<close>

definition carries :: "tenant_id \<Rightarrow> entity_key \<Rightarrow> tenant_id \<times> raw_record \<Rightarrow> bool" where
  "carries tid k p \<longleftrightarrow> fst p = tid \<and> k \<in> set (rw_entity_keys (snd p))"

lemma raw_erase_rows:
  assumes "distinct (map (\<lambda>(t, m). (t, rw_id m)) ms)"
  shows "raw_erase_by_entity (raw_rows ms) tid k =
    Inr (int (length (filter (carries tid k) ms)), raw_rows (filter (\<lambda>p. \<not> carries tid k p) ms))"
proof -
  let ?d = "map (\<lambda>(t, m). CStr (rw_id m)) (filter (carries tid k) ms)"
  have "require_tenant tid (raw_rows ms) = raw_rows (filter (\<lambda>(t, m). t = tid) ms)"
    by (simp add: require_tenant_def raw_rows_def filter_map o_def case_prod_unfold row_simps)
  then have d: "doomed_ids k (require_tenant tid (raw_rows ms)) = Inr ?d"
    by (simp add: doomed_ids_rows carries_def [abs_def] case_prod_unfold conj_commute)
  have dead: "CStr (rw_id m) \<in> set ?d \<longleftrightarrow> carries tid k (tid, m)" if "(tid, m) \<in> set ms" for m
  proof
    assume "CStr (rw_id m) \<in> set ?d"
    then obtain x where x: "(tid, x) \<in> set ms" "carries tid k (tid, x)" "rw_id x = rw_id m"
      by (auto simp: carries_def)
    then have "x = m" using assms that by (auto simp: distinct_map inj_on_def)
    with x show "carries tid k (tid, m)" by simp
  next
    assume "carries tid k (tid, m)"
    with that show "CStr (rw_id m) \<in> set ?d" by force
  qed
  have "filter (\<lambda>r. \<not> (row_get r ''tenant_id'' = CUuid tid \<and> row_get r ''id'' \<in> set ?d)) (raw_rows ms) =
      raw_rows (filter (\<lambda>p. \<not> carries tid k p) ms)"
    unfolding raw_rows_def filter_map o_def
  proof (intro arg_cong [where f = "map _"] filter_cong)
    fix p assume "p \<in> set ms"
    moreover obtain t m where "p = (t, m)" by (cases p)
    ultimately show "(\<not> (row_get (case p of (t, m) \<Rightarrow> raw_to_row t m) ''tenant_id'' = CUuid tid \<and>
        row_get (case p of (t, m) \<Rightarrow> raw_to_row t m) ''id'' \<in> set ?d)) = (\<not> carries tid k p)"
      using dead [of m] by (cases "t = tid") (auto simp: row_simps carries_def)
  qed simp
  moreover have "filter (\<lambda>p. \<not> carries tid k p) ms = ms" if "?d = []"
    using that by (simp add: filter_empty_conv filter_id_conv)
  ultimately show ?thesis by (simp add: raw_erase_by_entity_def d)
qed

lemma raw_at_filter:
  "raw_at (filter (\<lambda>p. \<not> carries tid k p) ms) t i =
    (case raw_at ms t i of None \<Rightarrow> None | Some m \<Rightarrow> if carries tid k (t, m) then None else Some m)"
  if "distinct (map (\<lambda>(t, m). (t, rw_id m)) ms)"
  using that
proof (induction ms)
  case (Cons p ms)
  obtain u m where p: "p = (u, m)" by (cases p)
  have none: "raw_at ms u (rw_id m) = None"
    using Cons.prems p by (auto simp: raw_at_def find_None_iff image_iff)
  show ?case
  proof (cases "u = t \<and> rw_id m = i")
    case True
    then show ?thesis using Cons.prems none Cons.IH p by (auto simp: raw_at_def)
  next
    case False
    then show ?thesis using Cons p by (auto simp: raw_at_def)
  qed
qed (simp add: raw_at_def)

text \<open>
  Erasing an entity key never fails. It removes exactly the tenant's records whose keys
  include it, reports how many there were, and every other record, of this tenant or another,
  is fetched as before.
\<close>

theorem raw_erase_exact:
  assumes "tbl = raw_rows ms" "distinct (map (\<lambda>(t, m). (t, rw_id m)) ms)"
  shows "\<exists>tbl'. raw_erase_by_entity tbl tid k = Inr (int (length (filter (carries tid k) ms)), tbl') \<and>
    raw_table_ok tbl' \<and>
    (\<forall>t i. raw_get tbl' t i =
       (case raw_at ms t i of None \<Rightarrow> Inr None
        | Some m \<Rightarrow> if carries tid k (t, m) then Inr None else raw_get tbl t i))"
proof -
  let ?ms = "filter (\<lambda>p. \<not> carries tid k p) ms"
  have d: "distinct (map (\<lambda>(t, m). (t, rw_id m)) ?ms)" using assms(2) by (rule distinct_map_filter)
  then have "raw_table_ok (raw_rows ?ms)" unfolding raw_table_ok_def by blast
  moreover have "raw_get (raw_rows ?ms) t i = (case raw_at ms t i of None \<Rightarrow> Inr None
      | Some m \<Rightarrow> if carries tid k (t, m) then Inr None else raw_get tbl t i)" for t i
    by (simp add: assms(1) raw_get_rows [OF d] raw_get_rows [OF assms(2)] raw_at_filter [OF assms(2)] split: option.split)
  ultimately show ?thesis using raw_erase_rows [OF assms(2)] assms(1) by blast
qed

definition sample_raw :: "(tenant_id \<times> raw_record) list" where
  "sample_raw =
    [(''t'', \<lparr>rw_id = ''a'', rw_payload = [(''prompt'', JStr ''hi'')], rw_entity_keys = [(''user'', ''7'')]\<rparr>),
     (''t'', \<lparr>rw_id = ''b'', rw_payload = [], rw_entity_keys = []\<rparr>),
     (''u'', \<lparr>rw_id = ''a'', rw_payload = [], rw_entity_keys = [(''user'', ''7'')]\<rparr>)]"

theorem raw_erase_exact_witness:
  "\<exists>tbl'. raw_erase_by_entity (raw_rows sample_raw) ''t'' (''user'', ''7'') = Inr (1, tbl') \<and>
     raw_get tbl' ''t'' ''a'' = Inr None \<and> raw_get tbl' ''u'' ''a'' = Inr (Some [])"
  using raw_erase_exact [OF refl, of sample_raw "''t''" "(''user'', ''7'')"]
  by (auto simp: sample_raw_def carries_def raw_at_def raw_get_rows)

end
