(* ===== verification/Capture_Ingest.thy ===== *)
theory Capture_Ingest
  imports Capture_Stream Outcome_Rules Raw_Records
begin

text \<open>
  Spans over the wire (\<open>packages/capture\<close>): the OTLP decoder (\<open>otlp/collector.py\<close>), the
  vendor aliases (\<open>otlp/vendor_aliases.py\<close>), the attribute keys (\<open>otlp/semconv.py\<close>), the
  conversion of a span to a cost event (\<open>otlp/otlp_ingest.py\<close>), the gateway source
  (\<open>gateway.py\<close>) and the two ingest entry points (\<open>capabilities.py\<close>), over the SQL store.

  Span attributes are JSON values by key. The clock is read three times per span (to price,
  to stamp the event, to stamp the run); the readings are a \<open>span_clock\<close>. \<open>str\<close> of a value
  that is not text, a boolean, \<open>None\<close> or an integer is the field \<open>ph_str\<close> of the host.

  The main lemmas: scalar attributes survive the wire; a converted span is honest about its
  tokens, cost and provenance; ingest keeps the tables well-formed and registers the run of
  every span it stores. Four properties record where the code loses data.
\<close>

section \<open>Attribute keys\<close>

abbreviation GEN_AI_SYSTEM :: string where "GEN_AI_SYSTEM \<equiv> ''gen_ai.system''"
abbreviation GEN_AI_REQUEST_MODEL :: string where "GEN_AI_REQUEST_MODEL \<equiv> ''gen_ai.request.model''"
abbreviation GEN_AI_USAGE_INPUT_TOKENS :: string where "GEN_AI_USAGE_INPUT_TOKENS \<equiv> ''gen_ai.usage.input_tokens''"
abbreviation GEN_AI_USAGE_OUTPUT_TOKENS :: string where "GEN_AI_USAGE_OUTPUT_TOKENS \<equiv> ''gen_ai.usage.output_tokens''"
abbreviation AI_MARGIN_CACHE_READ :: string where "AI_MARGIN_CACHE_READ \<equiv> ''ai_margin.usage.cache_read_tokens''"
abbreviation AI_MARGIN_CACHE_WRITE_5M :: string where "AI_MARGIN_CACHE_WRITE_5M \<equiv> ''ai_margin.usage.cache_write_5m_tokens''"
abbreviation AI_MARGIN_CACHE_WRITE_1H :: string where "AI_MARGIN_CACHE_WRITE_1H \<equiv> ''ai_margin.usage.cache_write_1h_tokens''"
abbreviation AI_MARGIN_REASONING :: string where "AI_MARGIN_REASONING \<equiv> ''ai_margin.usage.reasoning_tokens''"
abbreviation AI_MARGIN_LATENCY_MS :: string where "AI_MARGIN_LATENCY_MS \<equiv> ''ai_margin.latency_ms''"
abbreviation AI_MARGIN_EXPERIMENT :: string where "AI_MARGIN_EXPERIMENT \<equiv> ''ai_margin.experiment''"
abbreviation AI_MARGIN_VARIANT :: string where "AI_MARGIN_VARIANT \<equiv> ''ai_margin.variant''"
abbreviation AI_MARGIN_APP :: string where "AI_MARGIN_APP \<equiv> ''ai_margin.app''"
abbreviation AI_MARGIN_RUN_ID :: string where "AI_MARGIN_RUN_ID \<equiv> ''ai_margin.run_id''"
abbreviation AI_MARGIN_ATTEMPT_ID :: string where "AI_MARGIN_ATTEMPT_ID \<equiv> ''ai_margin.attempt_id''"
abbreviation AI_MARGIN_PROVENANCE :: string where "AI_MARGIN_PROVENANCE \<equiv> ''ai_margin.provenance''"
abbreviation AI_MARGIN_CAPTURE_GRANULARITY :: string where "AI_MARGIN_CAPTURE_GRANULARITY \<equiv> ''ai_margin.capture_granularity''"
abbreviation AI_MARGIN_COST_USD :: string where "AI_MARGIN_COST_USD \<equiv> ''ai_margin.cost_usd''"
abbreviation AI_MARGIN_IS_STREAMING :: string where "AI_MARGIN_IS_STREAMING \<equiv> ''ai_margin.is_streaming''"
abbreviation AI_MARGIN_PARTIAL_RECOVERED :: string where "AI_MARGIN_PARTIAL_RECOVERED \<equiv> ''ai_margin.partial_recovered''"

type_synonym attributes = "(string, json) dict"

section \<open>The OTLP decoder\<close>

text \<open>
  \<open>int(text)\<close>: optional sign, decimal digits, single underscores between them, at most 4300
  digits (the interpreter's limit).
\<close>

definition parse_int :: "string \<Rightarrow> int option" where
  "parse_int text = (case take_sign (strip text) of (neg, u) \<Rightarrow>
     let parts = split_on CHR ''_'' u; ds = concat parts in
     if list_all (\<lambda>p. p \<noteq> [] \<and> list_all is_digit p) parts \<and> length ds \<le> 4300
     then Some (if neg then - int (digits_value ds) else int (digits_value ds)) else None)"

fun as_obj_dict :: "json \<Rightarrow> (string \<times> json) list option" where
  "as_obj_dict (JObj m) = Some m"
| "as_obj_dict _ = None"

fun as_obj_list :: "json \<Rightarrow> json list option" where
  "as_obj_list (JList xs) = Some xs"
| "as_obj_list _ = None"

text \<open>\<open>d.get(k)\<close>: \<open>None\<close> for a missing key.\<close>

definition attr_get :: "attributes \<Rightarrow> string \<Rightarrow> json" where
  "attr_get a k = (case dict_get a k of None \<Rightarrow> JNull | Some v \<Rightarrow> v)"

fun int_value :: "json \<Rightarrow> json" where
  "int_value (JInt i) = JInt i"
| "int_value (JStr s) = (case parse_int s of None \<Rightarrow> JNull | Some i \<Rightarrow> JInt i)"
| "int_value _ = JNull"

fun double_value :: "json \<Rightarrow> json" where
  "double_value (JInt i) = JInt i"
| "double_value (JFloat q) = JFloat q"
| "double_value _ = JNull"

fun string_value :: "json \<Rightarrow> json" where
  "string_value (JStr s) = JStr s"
| "string_value _ = JNull"

fun bool_value :: "json \<Rightarrow> json" where
  "bool_value (JBool b) = JBool b"
| "bool_value _ = JNull"

definition coerce_any_value :: "json \<Rightarrow> json" where
  "coerce_any_value v = (case as_obj_dict v of
     None \<Rightarrow> JNull
   | Some av \<Rightarrow>
       (case dict_get av ''stringValue'' of Some sv \<Rightarrow> string_value sv
        | None \<Rightarrow> (case dict_get av ''intValue'' of Some iv \<Rightarrow> int_value iv
        | None \<Rightarrow> (case dict_get av ''doubleValue'' of Some dv \<Rightarrow> double_value dv
        | None \<Rightarrow> (case dict_get av ''boolValue'' of Some bv \<Rightarrow> bool_value bv
        | None \<Rightarrow> JNull)))))"

definition add_attribute :: "attributes \<Rightarrow> json \<Rightarrow> attributes" where
  "add_attribute out raw = (case as_obj_dict raw of
     None \<Rightarrow> out
   | Some attr \<Rightarrow> (case attr_get attr ''key'' of
       JStr k \<Rightarrow> let v = coerce_any_value (attr_get attr ''value'') in if v = JNull then out else dict_set k v out
     | _ \<Rightarrow> out))"

definition attributes_to_map :: "json \<Rightarrow> attributes" where
  "attributes_to_map v = (case as_obj_list v of None \<Rightarrow> [] | Some xs \<Rightarrow> foldl add_attribute [] xs)"

text \<open>One level of the walk: the elements of the list under a key of an object.\<close>

definition children :: "string \<Rightarrow> json \<Rightarrow> json list" where
  "children k v = (case as_obj_dict v of
     None \<Rightarrow> [] | Some m \<Rightarrow> (case as_obj_list (attr_get m k) of None \<Rightarrow> [] | Some xs \<Rightarrow> xs))"

definition span_map :: "json \<Rightarrow> attributes list" where
  "span_map v = (case as_obj_dict v of None \<Rightarrow> [] | Some m \<Rightarrow> [attributes_to_map (attr_get m ''attributes'')])"

definition otlp_json_to_attribute_maps :: "json \<Rightarrow> attributes list" where
  "otlp_json_to_attribute_maps body =
     concat (map (\<lambda>rs. concat (map (\<lambda>ss. concat (map span_map (children ''spans'' ss)))
       (children ''scopeSpans'' rs))) (children ''resourceSpans'' body))"

section \<open>Vendor aliases\<close>

definition VENDOR_TOKEN_ALIASES :: "(string \<times> string list) list" where
  "VENDOR_TOKEN_ALIASES =
    [(GEN_AI_USAGE_INPUT_TOKENS, [''ai.usage.inputTokens'', ''gen_ai.usage.prompt_tokens'', ''llm.token_count.prompt'']),
     (GEN_AI_USAGE_OUTPUT_TOKENS,
       [''ai.usage.outputTokens'', ''gen_ai.usage.completion_tokens'', ''llm.token_count.completion'']),
     (AI_MARGIN_CACHE_READ,
       [''ai.usage.inputTokenDetails.cacheReadTokens'', ''ai.usage.cachedInputTokens'',
        ''gen_ai.usage.cache_read_input_tokens'', ''llm.token_count.prompt_details.cache_read'']),
     (AI_MARGIN_CACHE_WRITE_5M,
       [''ai.usage.inputTokenDetails.cacheWriteTokens'', ''gen_ai.usage.cache_creation_input_tokens'']),
     (AI_MARGIN_REASONING,
       [''ai.usage.outputTokenDetails.reasoningTokens'', ''ai.usage.reasoningTokens'',
        ''llm.token_count.completion_details.reasoning'']),
     (GEN_AI_SYSTEM, [''llm.system'', ''llm.provider'']),
     (GEN_AI_REQUEST_MODEL, [''llm.model_name'', ''gen_ai.response.model''])]"

definition KNOWN_VENDORS :: "string list" where
  "KNOWN_VENDORS = [''anthropic'', ''openai'', ''google'', ''azure'']"

definition normalize_provider :: "string \<Rightarrow> string" where
  "normalize_provider prov = (case partition_on CHR ''.'' prov of (h, _, rest) \<Rightarrow>
     if rest \<noteq> [] \<and> h \<in> set KNOWN_VENDORS then h else prov)"

fun first_alias :: "attributes \<Rightarrow> string list \<Rightarrow> json option" where
  "first_alias a [] = None"
| "first_alias a (k # ks) = (case dict_get a k of Some v \<Rightarrow> Some v | None \<Rightarrow> first_alias a ks)"

definition fill_alias :: "attributes \<Rightarrow> attributes \<Rightarrow> string \<times> string list \<Rightarrow> attributes" where
  "fill_alias a merged ca = (case dict_get merged (fst ca) of
     Some _ \<Rightarrow> merged
   | None \<Rightarrow> (case first_alias a (snd ca) of None \<Rightarrow> merged | Some v \<Rightarrow> dict_set (fst ca) v merged))"

definition apply_vendor_token_aliases :: "attributes \<Rightarrow> attributes" where
  "apply_vendor_token_aliases a = foldl (fill_alias a) a VENDOR_TOKEN_ALIASES"

section \<open>A span as a cost event\<close>

definition json_str :: "py_host \<Rightarrow> json \<Rightarrow> string" where
  "json_str h v = str_of h (pval_of_json v)"

definition int_attr :: "attributes \<Rightarrow> string \<Rightarrow> int" where
  "int_attr a k = (case attr_get a k of JInt i \<Rightarrow> max i 0 | _ \<Rightarrow> 0)"

definition optional_int_attr :: "attributes \<Rightarrow> string \<Rightarrow> int option" where
  "optional_int_attr a k = (case attr_get a k of
     JInt i \<Rightarrow> Some i
   | JFloat q \<Rightarrow> Some (if q < 0 then \<lceil>q\<rceil> else \<lfloor>q\<rfloor>)
   | JStr s \<Rightarrow> parse_int s
   | _ \<Rightarrow> None)"

definition str_attr :: "attributes \<Rightarrow> string \<Rightarrow> string" where
  "str_attr a k = (case attr_get a k of JStr s \<Rightarrow> s | _ \<Rightarrow> [])"

definition bool_attr :: "attributes \<Rightarrow> string \<Rightarrow> bool" where
  "bool_attr a k \<longleftrightarrow> attr_get a k = JBool True"

definition declared_provenance :: "attributes \<Rightarrow> provenance \<Rightarrow> provenance" where
  "declared_provenance a dflt = (case attr_get a AI_MARGIN_PROVENANCE of
     JStr s \<Rightarrow> (case provenance_of s of Inl _ \<Rightarrow> dflt | Inr p \<Rightarrow> p)
   | _ \<Rightarrow> dflt)"

text \<open>\<open>Decimal(str(v))\<close> into a finite field: a special value is refused by the model.\<close>

definition inline_decimal :: "py_host \<Rightarrow> json \<Rightarrow> rat res" where
  "inline_decimal h v = (case parse_decimal (json_str h v) of
     Some q \<Rightarrow> Inr q
   | None \<Rightarrow> if special_decimal (json_str h v) then Inl ValueError else Inl InvalidOperation)"

record span_clock =
  sc_priced :: instant
  sc_occurred :: instant
  sc_started :: instant

definition span_cost ::
  "py_host \<Rightarrow> attributes \<Rightarrow> token_vector \<Rightarrow> string \<Rightarrow> string \<Rightarrow> price_card list option \<Rightarrow> instant \<Rightarrow>
     (rat option \<times> string list) res" where
  "span_cost h a t prov mdl book now =
     (let inline = attr_get a AI_MARGIN_COST_USD in
      if inline \<noteq> JNull then res_bind (inline_decimal h inline) (\<lambda>c. Inr (Some c, []))
      else res_bind (price_or_abort t
             (case book of None \<Rightarrow> None | Some b \<Rightarrow> resolve_card b prov mdl now) False False)
           (\<lambda>(cost, ws). Inr (cost, check_invariants t prov @ ws)))"

definition span_to_cost_event ::
  "py_host \<Rightarrow> attributes \<Rightarrow> tenant_id \<Rightarrow> price_card list option \<Rightarrow> span_clock \<Rightarrow> provenance \<Rightarrow> cost_event res" where
  "span_to_cost_event h attrs tid book clk dflt =
     (let a = apply_vendor_token_aliases attrs;
          prov = normalize_provider (str_attr a GEN_AI_SYSTEM);
          mdl = str_attr a GEN_AI_REQUEST_MODEL;
          gran = (if str_attr a AI_MARGIN_CAPTURE_GRANULARITY \<noteq> granularity_value PerCall then PerAttempt else PerCall)
      in
      res_bind (from_provider (int_attr a GEN_AI_USAGE_INPUT_TOKENS) (int_attr a AI_MARGIN_CACHE_READ)
          (int_attr a AI_MARGIN_CACHE_WRITE_5M) (int_attr a AI_MARGIN_CACHE_WRITE_1H)
          (int_attr a GEN_AI_USAGE_OUTPUT_TOKENS) (int_attr a AI_MARGIN_REASONING)) (\<lambda>t.
      res_bind (span_cost h a t prov mdl book (sc_priced clk)) (\<lambda>(cost, ws).
      res_bind (provenance_label_new (declared_provenance a dflt) None None) (\<lambda>label.
        Inr \<lparr>ce_tenant_id = tid, ce_id = str_attr a AI_MARGIN_RUN_ID @ '':'' @ str_attr a AI_MARGIN_ATTEMPT_ID,
             ce_run_id = str_attr a AI_MARGIN_RUN_ID, ce_attempt_id = str_attr a AI_MARGIN_ATTEMPT_ID,
             ce_provider = prov, ce_model = mdl, ce_tokens = t, ce_granularity = gran,
             ce_provenance = label, ce_cost_usd = cost,
             ce_is_streaming = bool_attr a AI_MARGIN_IS_STREAMING,
             ce_partial_recovered = bool_attr a AI_MARGIN_PARTIAL_RECOVERED,
             ce_billing_uncertain_abort = (cost = None), ce_provenance_warnings = ws,
             ce_occurred_at = sc_occurred clk,
             ce_latency_ms = optional_int_attr a AI_MARGIN_LATENCY_MS\<rparr>))))"

section \<open>The gateway source\<close>

definition openrouter_cost_event :: "py_host \<Rightarrow> attributes \<Rightarrow> tenant_id \<Rightarrow> instant \<Rightarrow> cost_event res" where
  "openrouter_cost_event h response tid now = (case attr_get response ''usage'' of
     JObj u \<Rightarrow>
       if attr_get u ''is_estimate'' = JBool True then Inl ProvenanceWarning
       else if attr_get u ''cost'' = JNull then Inl ProvenanceWarning
       else res_bind (inline_decimal h (attr_get u ''cost'')) (\<lambda>cost.
         res_bind (token_vector_new (int_attr u ''prompt_tokens'') 0 0 0 (int_attr u ''completion_tokens'') 0) (\<lambda>t.
         let gen = str_attr response ''id'' in
         res_bind (provenance_label_new ProviderReconciled (Some (''gateway:openrouter:'' @ gen))
             (Some ''authoritative inline usage.cost (gateway/provider provenance)'')) (\<lambda>label.
         Inr \<lparr>ce_tenant_id = tid, ce_id = ''openrouter:'' @ gen, ce_run_id = str_attr response ''user'',
              ce_attempt_id = gen, ce_provider = ''openrouter'', ce_model = str_attr response ''model'',
              ce_tokens = t, ce_granularity = PerAttempt, ce_provenance = label, ce_cost_usd = Some cost,
              ce_is_streaming = False, ce_partial_recovered = False, ce_billing_uncertain_abort = False,
              ce_provenance_warnings = [], ce_occurred_at = now, ce_latency_ms = None\<rparr>)))
   | _ \<Rightarrow> Inl ProvenanceWarning)"


section \<open>Ingest\<close>

text \<open>
  What an app binds, and the tables a span is written to. The two optional repositories are
  flags; their operations are those of the store.
\<close>

record ingest_runtime =
  ir_pricebook :: "price_card list option"
  ir_default_provenance :: provenance
  ir_run_repo :: bool
  ir_raw_record_repo :: bool

record ingest_store =
  is_db :: db
  is_raw :: table

definition ENTITY_PREFIX :: string where "ENTITY_PREFIX = ''ai_margin.entity.''"

definition PROMPT_KEYS :: "string list" where
  "PROMPT_KEYS = [''ai.prompt'', ''ai.prompt.messages'', ''gen_ai.prompt'']"

definition RESPONSE_KEYS :: "string list" where
  "RESPONSE_KEYS = [''ai.response.text'', ''gen_ai.completion'']"

fun first_text :: "attributes \<Rightarrow> string list \<Rightarrow> string option" where
  "first_text a [] = None"
| "first_text a (k # ks) = (case attr_get a k of
     JStr s \<Rightarrow> if s \<noteq> [] then Some s else first_text a ks
   | _ \<Rightarrow> first_text a ks)"

text \<open>\<open>str(attributes.get(k, ""))\<close>: empty for a missing key, the text of the value otherwise.\<close>

definition text_attr :: "py_host \<Rightarrow> attributes \<Rightarrow> string \<Rightarrow> string" where
  "text_attr h a k = (case dict_get a k of None \<Rightarrow> [] | Some v \<Rightarrow> json_str h v)"

definition opt_str_attr :: "py_host \<Rightarrow> attributes \<Rightarrow> string \<Rightarrow> string option" where
  "opt_str_attr h a k = (let v = attr_get a k in
     if v \<noteq> JNull \<and> json_str h v \<noteq> [] then Some (json_str h v) else None)"

definition span_entity_keys :: "py_host \<Rightarrow> attributes \<Rightarrow> entity_key list" where
  "span_entity_keys h a =
     map (\<lambda>(k, v). (drop (length ENTITY_PREFIX) k, json_str h v))
       (filter (\<lambda>(k, v). prefix ENTITY_PREFIX k \<and> v \<noteq> JNull) a)"

definition replay_sample :: "py_host \<Rightarrow> string \<Rightarrow> attributes \<Rightarrow> raw_record option" where
  "replay_sample h rid a =
     (case (first_text a PROMPT_KEYS, first_text a RESPONSE_KEYS) of
        (Some p, Some r) \<Rightarrow>
          let m = attr_get a GEN_AI_REQUEST_MODEL in
          Some \<lparr>rw_id = ''replay:'' @ rid @ '':'' @ text_attr h a AI_MARGIN_ATTEMPT_ID,
            rw_payload = [(''run_id'', JStr rid), (''model'', if m = JNull then JNull else JStr (json_str h m)),
              (''prompt'', JStr p), (''response'', JStr r)],
            rw_entity_keys = []\<rparr>
      | _ \<Rightarrow> None)"

definition record_replay_sample ::
  "py_host \<Rightarrow> ingest_runtime \<Rightarrow> tenant_id \<Rightarrow> string \<Rightarrow> attributes \<Rightarrow> ingest_store \<Rightarrow> ingest_store res" where
  "record_replay_sample h rt tid rid a st =
     (if \<not> ir_raw_record_repo rt \<or> rid = [] then Inr st
      else case replay_sample h rid a of
        None \<Rightarrow> Inr st
      | Some m \<Rightarrow> res_bind (raw_put (is_raw st) tid m) (\<lambda>tbl. Inr (st\<lparr>is_raw := tbl\<rparr>)))"

definition span_run :: "py_host \<Rightarrow> tenant_id \<Rightarrow> string \<Rightarrow> attributes \<Rightarrow> instant \<Rightarrow> run" where
  "span_run h tid rid a now =
     (let agent = attr_get a ''ai_margin.agent_name'' in
      \<lparr>run_tenant_id = tid, run_id = rid,
       run_agent_name = (if agent = JNull then None else Some (json_str h agent)),
       run_started_at = now, run_ended_at = None, run_entity_keys = span_entity_keys h a,
       run_experiment = opt_str_attr h a AI_MARGIN_EXPERIMENT, run_variant = opt_str_attr h a AI_MARGIN_VARIANT,
       run_app = opt_str_attr h a AI_MARGIN_APP\<rparr>)"

definition register_run ::
  "py_host \<Rightarrow> ingest_runtime \<Rightarrow> tenant_id \<Rightarrow> string \<Rightarrow> attributes \<Rightarrow> instant \<Rightarrow> ingest_store \<Rightarrow> ingest_store res" where
  "register_run h rt tid rid a now st =
     (if \<not> ir_run_repo rt \<or> rid = [] then Inr st
      else res_bind (run_upsert (is_db st) tid (span_run h tid rid a now)) (\<lambda>d. Inr (st\<lparr>is_db := d\<rparr>)))"

text \<open>
  Storing one span. Each write commits on its own, so the state is returned with the error of
  a later write.
\<close>

definition store_span ::
  "py_host \<Rightarrow> ingest_runtime \<Rightarrow> tenant_id \<Rightarrow> attributes \<Rightarrow> span_clock \<Rightarrow> ingest_store \<Rightarrow> unit res \<times> ingest_store" where
  "store_span h rt tid a clk st =
     (let rid = text_attr h a AI_MARGIN_RUN_ID in
      case res_bind (span_to_cost_event h a tid (ir_pricebook rt) clk (ir_default_provenance rt))
             (\<lambda>e. cost_upsert (is_db st) tid e) of
        Inl e \<Rightarrow> (Inl e, st)
      | Inr d \<Rightarrow> let st1 = st\<lparr>is_db := d\<rparr> in
          (case register_run h rt tid rid a (sc_started clk) st1 of
             Inl e \<Rightarrow> (Inl e, st1)
           | Inr st2 \<Rightarrow> (case record_replay_sample h rt tid rid a st2 of
               Inl e \<Rightarrow> (Inl e, st2)
             | Inr st3 \<Rightarrow> (Inr (), st3))))"

record ingest_output =
  io_run_id :: string
  io_attempt_id :: string
  io_accepted :: bool

text \<open>The single-span capability.\<close>

definition ingest_otlp_span ::
  "py_host \<Rightarrow> ingest_runtime option \<Rightarrow> string \<Rightarrow> attributes \<Rightarrow> span_clock \<Rightarrow> ingest_store \<Rightarrow>
     ingest_output res \<times> ingest_store" where
  "ingest_otlp_span h holder tenant a clk st =
     (let out = \<lparr>io_run_id = text_attr h a AI_MARGIN_RUN_ID, io_attempt_id = text_attr h a AI_MARGIN_ATTEMPT_ID,
                 io_accepted = True\<rparr> in
      case holder of
        None \<Rightarrow> (Inr out, st)
      | Some rt \<Rightarrow> (case parse_uuid tenant of
          Inl e \<Rightarrow> (Inl e, st)
        | Inr tid \<Rightarrow> (case store_span h rt tid a clk st of
            (Inl e, st') \<Rightarrow> (Inl e, st')
          | (Inr _, st') \<Rightarrow> (Inr out, st'))))"

definition is_rollup_span :: "attributes \<Rightarrow> bool" where
  "is_rollup_span a \<longleftrightarrow>
     \<not> (truthy (pval_of_json (attr_get a GEN_AI_SYSTEM)) \<or> truthy (pval_of_json (attr_get a ''llm.system'')) \<or>
        truthy (pval_of_json (attr_get a ''llm.provider'')))"

fun ingest_loop ::
  "py_host \<Rightarrow> ingest_runtime \<Rightarrow> tenant_id \<Rightarrow> (attributes \<times> span_clock) list \<Rightarrow> int \<Rightarrow> ingest_store \<Rightarrow> int res \<times> ingest_store" where
  "ingest_loop h rt tid [] n st = (Inr n, st)"
| "ingest_loop h rt tid ((a, clk) # spans) n st =
     (if is_rollup_span a then ingest_loop h rt tid spans n st
      else case store_span h rt tid a clk st of
        (Inl e, st') \<Rightarrow> (Inl e, st')
      | (Inr _, st') \<Rightarrow> ingest_loop h rt tid spans (n + 1) st')"

definition ingest_attribute_maps ::
  "py_host \<Rightarrow> ingest_runtime option option \<Rightarrow> tenant_id \<Rightarrow> (attributes \<times> span_clock) list \<Rightarrow> ingest_store \<Rightarrow>
     int res \<times> ingest_store" where
  "ingest_attribute_maps h holder tid spans st = (case holder of
     Some (Some rt) \<Rightarrow> ingest_loop h rt tid spans 0 st
   | _ \<Rightarrow> (Inl IngestNotWiredError, st))"

text \<open>\<open>POST /v1/traces\<close>: the decoded spans of one request, with the clock readings in order.\<close>

definition collect ::
  "py_host \<Rightarrow> ingest_runtime option option \<Rightarrow> tenant_id \<Rightarrow> json \<Rightarrow> (nat \<Rightarrow> span_clock) \<Rightarrow> ingest_store \<Rightarrow> int res \<times> ingest_store" where
  "collect h holder tid body clk st =
     (let maps = otlp_json_to_attribute_maps body in
      ingest_attribute_maps h holder tid (zip maps (map clk [0..<length maps])) st)"

definition COST_SOURCES :: "string list" where
  "COST_SOURCES = [''client_instrument'', ''otlp_ingest'', ''gateway:openrouter'', ''provider_costapi'']"

definition server_ingest_runtime :: ingest_runtime where
  "server_ingest_runtime = \<lparr>ir_pricebook = Some default_pricebook, ir_default_provenance = Estimated,
     ir_run_repo = True, ir_raw_record_repo = True\<rparr>"

section \<open>Scalar attributes survive the wire\<close>

text \<open>The encoding of the OTLP exporters: integers as decimal text.\<close>

fun any_value :: "json \<Rightarrow> json" where
  "any_value (JStr s) = JObj [(''stringValue'', JStr s)]"
| "any_value (JInt i) = JObj [(''intValue'', JStr (show_int i))]"
| "any_value (JFloat q) = JObj [(''doubleValue'', JFloat q)]"
| "any_value (JBool b) = JObj [(''boolValue'', JBool b)]"
| "any_value _ = JObj []"

definition otlp_span :: "attributes \<Rightarrow> json" where
  "otlp_span a = JObj [(''attributes'', JList (map (\<lambda>(k, v). JObj [(''key'', JStr k), (''value'', any_value v)]) a))]"

definition otlp_request :: "attributes list list list \<Rightarrow> json" where
  "otlp_request rss = JObj [(''resourceSpans'', JList (map (\<lambda>rs.
     JObj [(''scopeSpans'', JList (map (\<lambda>ss. JObj [(''spans'', JList (map otlp_span ss))]) rs))]) rss))]"

fun scalar :: "json \<Rightarrow> bool" where
  "scalar (JInt i) = (\<bar>i\<bar> < 2 ^ 63)"
| "scalar (JStr _) = True"
| "scalar (JFloat _) = True"
| "scalar (JBool _) = True"
| "scalar _ = False"


lemma is_digit_digit [simp]: "is_digit (digit n)"
  by (simp add: is_digit_def digit_def Let_def)

lemma digit_value [simp]: "of_char (digit n) - (48::nat) = n mod 10"
  by (simp add: digit_def)

lemma show_nat_digits: "show_nat n \<noteq> [] \<and> list_all is_digit (show_nat n)"
proof (induction n rule: show_nat.induct)
  case (1 n)
  then show ?case by (subst (1 2) show_nat.simps) simp
qed

lemma digits_value_snoc: "digits_value (ds @ [c]) = digits_value ds * 10 + (of_char c - 48)"
  by (simp add: digits_value_def)

lemma digits_value_show_nat: "digits_value (show_nat n) = n"
proof (induction n rule: show_nat.induct)
  case (1 n)
  show ?case
  proof (cases "n < 10")
    case True
    then show ?thesis by (subst show_nat.simps) (simp add: digits_value_def)
  next
    case False
    with 1 show ?thesis by (subst show_nat.simps) (simp add: digits_value_snoc)
  qed
qed

lemma length_show_nat: "n < 10 ^ Suc k \<Longrightarrow> length (show_nat n) \<le> Suc k"
proof (induction k arbitrary: n)
  case 0
  then show ?case by (subst show_nat.simps) simp
next
  case (Suc k)
  show ?case
  proof (cases "n < 10")
    case False
    have "n div 10 < 10 ^ Suc k" using Suc.prems by (simp add: div_less_iff_less_mult)
    from Suc.IH [OF this] False show ?thesis by (subst show_nat.simps) simp
  qed (subst show_nat.simps, simp)
qed

lemma is_digit_props: "is_digit c \<Longrightarrow> \<not> is_space c \<and> c \<noteq> CHR ''_'' \<and> c \<noteq> CHR ''-'' \<and> c \<noteq> CHR ''+''"
  by (auto simp: is_digit_def is_space_def Let_def)

lemma parse_int_show_int:
  assumes "\<bar>i\<bar> < 2 ^ 63"
  shows "parse_int (show_int i) = Some i"
proof -
  let ?d = "show_nat (nat \<bar>i\<bar>)"
  have d: "?d \<noteq> []" "list_all is_digit ?d" using show_nat_digits by auto
  have "nat \<bar>i\<bar> < 10 ^ Suc 18" using assms by (simp add: nat_less_iff)
  then have len: "length ?d \<le> 4300" using length_show_nat [of "nat \<bar>i\<bar>" 18] by simp
  have dp: "\<not> is_space c \<and> c \<noteq> CHR ''_'' \<and> c \<noteq> CHR ''-'' \<and> c \<noteq> CHR ''+''" if "c \<in> set ?d" for c
    using that d(2) by (auto simp: list_all_iff dest: is_digit_props)
  have sp: "split_on CHR ''_'' ?d = [?d]" using dp by (intro split_on_none) blast
  have st: "stripped (show_int i)"
  proof -
    have "\<not> is_space (hd ?d)" "\<not> is_space (last ?d)" using dp d(1) by auto
    moreover have "\<not> is_space CHR ''-''" by (simp add: is_space_def)
    ultimately show ?thesis using d(1) by (cases "i < 0") (simp_all add: stripped_def show_int_def)
  qed
  have ts: "take_sign (show_int i) = (i < 0, ?d)"
  proof (cases "i < 0")
    case False
    obtain c cs where "?d = c # cs" using d(1) by (cases ?d) auto
    with dp [of c] False show ?thesis by (simp add: take_sign_def show_int_def)
  qed (simp add: take_sign_def show_int_def)
  have "parse_int (show_int i) = Some (if i < 0 then - int (digits_value ?d) else int (digits_value ?d))"
    unfolding parse_int_def strip_stripped [OF st] ts prod.case sp Let_def using d len by simp
  then show ?thesis by (simp add: digits_value_show_nat)
qed

lemma coerce_any_value_scalar: "scalar v \<Longrightarrow> coerce_any_value (any_value v) = v"
  by (cases v) (simp_all add: coerce_any_value_def parse_int_show_int)

lemma scalar_not_null: "scalar v \<Longrightarrow> v \<noteq> JNull"
  by auto

lemma concat_map_concat: "concat (map concat xss) = concat (concat xss)"
  by (induction xss) auto

lemma dict_set_fresh: "k \<notin> fst ` set d \<Longrightarrow> dict_set k v d = d @ [(k, v)]"
  by (induction d) auto

lemma add_attributes:
  assumes "distinct (map fst (out @ a))" "\<forall>v \<in> snd ` set a. scalar v"
  shows "foldl add_attribute out (map (\<lambda>(k, v). JObj [(''key'', JStr k), (''value'', any_value v)]) a) = out @ a"
  using assms
proof (induction a arbitrary: out)
  case (Cons p a)
  obtain k v where p: "p = (k, v)" by (cases p)
  have v: "scalar v" using Cons.prems(2) p by simp
  have "k \<notin> fst ` set out" using Cons.prems(1) p by auto
  then have "add_attribute out (JObj [(''key'', JStr k), (''value'', any_value v)]) = out @ [(k, v)]"
    using scalar_not_null [OF v]
    by (simp add: add_attribute_def attr_get_def coerce_any_value_scalar [OF v] dict_set_fresh)
  with Cons.IH [of "out @ [(k, v)]"] Cons.prems p show ?case by simp
qed simp

text \<open>
  C20. The collector reads back what an exporter sends: every span of a request whose
  attributes are text, booleans, doubles or 64-bit integers under distinct keys is decoded to
  exactly its attributes, in document order, whatever the grouping by resource and scope.
  Integers, which travel as text, come back as integers.
\<close>

theorem otlp_roundtrip:
  assumes "\<forall>a \<in> set (concat (concat rss)). distinct (map fst a) \<and> (\<forall>v \<in> snd ` set a. scalar v)"
  shows "otlp_json_to_attribute_maps (otlp_request rss) = concat (concat rss)"
proof -
  have span: "span_map (otlp_span a) = [a]" if "a \<in> set (concat (concat rss))" for a
  proof -
    have "distinct (map fst ([] @ a))" "\<forall>v \<in> snd ` set a. scalar v" using assms that by auto
    from add_attributes [OF this] show ?thesis
      by (simp add: span_map_def otlp_span_def attributes_to_map_def attr_get_def)
  qed
  have spans: "concat (map span_map (map otlp_span ss)) = ss" if "set ss \<subseteq> set (concat (concat rss))" for ss
    using that span by (induction ss) auto
  have child: "children k (JObj [(k, JList xs)]) = xs" for k xs by (simp add: children_def attr_get_def)
  have scope: "concat (map (\<lambda>ss. concat (map span_map (map otlp_span ss))) rs) = concat rs" if "rs \<in> set rss" for rs
  proof -
    have "map (\<lambda>ss. concat (map span_map (map otlp_span ss))) rs = rs"
      using that by (intro map_idI spans) auto
    then show ?thesis by (simp only:)
  qed
  have eq: "map (\<lambda>rs. concat (map (\<lambda>ss. concat (map span_map (map otlp_span ss))) rs)) rss = map concat rss"
    by (intro map_cong refl scope)
  have "otlp_json_to_attribute_maps (otlp_request rss) =
      concat (map (\<lambda>rs. concat (map (\<lambda>ss. concat (map span_map (map otlp_span ss))) rs)) rss)"
    by (simp add: otlp_json_to_attribute_maps_def otlp_request_def child o_def)
  also have "\<dots> = concat (concat rss)" by (simp only: eq concat_map_concat)
  finally show ?thesis .
qed


text \<open>A span as the SDK sends it: run, attempt, provider, model and usage.\<close>

definition sample_span :: attributes where
  "sample_span = [(AI_MARGIN_RUN_ID, JStr ''r1''), (AI_MARGIN_ATTEMPT_ID, JStr ''a1''),
     (GEN_AI_SYSTEM, JStr ''anthropic.messages''), (GEN_AI_REQUEST_MODEL, JStr ''claude-opus-4-20250514''),
     (GEN_AI_USAGE_INPUT_TOKENS, JInt 1200), (AI_MARGIN_CACHE_READ, JInt 200), (GEN_AI_USAGE_OUTPUT_TOKENS, JInt 500),
     (''ai_margin.entity.deal'', JStr ''d1'')]"

theorem otlp_roundtrip_witness:
  "otlp_json_to_attribute_maps (otlp_request [[[sample_span], []], [[[(GEN_AI_USAGE_INPUT_TOKENS, JInt (- 7))]]]]) =
     [sample_span, [(GEN_AI_USAGE_INPUT_TOKENS, JInt (- 7))]]"
  using otlp_roundtrip [of "[[[sample_span], []], [[[(GEN_AI_USAGE_INPUT_TOKENS, JInt (- 7))]]]]"]
  by (simp add: sample_span_def)


section \<open>A converted span is honest\<close>

text \<open>An attribute the span carries is never replaced by a vendor alias.\<close>

lemma fill_alias_keeps: "dict_get m k = Some v \<Longrightarrow> dict_get (fill_alias a m ca) k = Some v"
  by (auto simp: fill_alias_def split: option.splits)

lemma aliases_keep:
  assumes "dict_get attrs k = Some v"
  shows "dict_get (apply_vendor_token_aliases attrs) k = Some v"
proof -
  have "dict_get (foldl (fill_alias attrs) m cas) k = Some v" if "dict_get m k = Some v" for m cas
    using that by (induction cas arbitrary: m) (simp_all add: fill_alias_keeps)
  then show ?thesis using assms unfolding apply_vendor_token_aliases_def by blast
qed

lemma aliases_other:
  assumes "k \<notin> fst ` set VENDOR_TOKEN_ALIASES"
  shows "dict_get (apply_vendor_token_aliases attrs) k = dict_get attrs k"
proof -
  have "dict_get (foldl (fill_alias attrs) m cas) k = dict_get m k" if "k \<notin> fst ` set cas" for m cas
    using that by (induction cas arbitrary: m) (auto simp: fill_alias_def split: option.splits)
  then show ?thesis using assms unfolding apply_vendor_token_aliases_def by blast
qed

lemma aliases_attr [simp]:
  "attr_get (apply_vendor_token_aliases attrs) AI_MARGIN_PROVENANCE = attr_get attrs AI_MARGIN_PROVENANCE"
  "attr_get (apply_vendor_token_aliases attrs) AI_MARGIN_COST_USD = attr_get attrs AI_MARGIN_COST_USD"
  "attr_get (apply_vendor_token_aliases attrs) AI_MARGIN_RUN_ID = attr_get attrs AI_MARGIN_RUN_ID"
  "attr_get (apply_vendor_token_aliases attrs) AI_MARGIN_ATTEMPT_ID = attr_get attrs AI_MARGIN_ATTEMPT_ID"
  by (simp_all add: attr_get_def aliases_other VENDOR_TOKEN_ALIASES_def)

lemma from_provider_Inr:
  "from_provider tot cr c5 c1 out reas = Inr t \<Longrightarrow> token_vector_ok t \<and> total_input t = tot \<and> tv_output t = out"
  by (auto simp: from_provider_def token_vector_new_Inr_iff total_input_def Let_def split: if_splits)

lemma plain_label_Inr:
  "provenance_label_new p None None = Inr l \<longleftrightarrow>
     \<not> reconciled_provenance p \<and> l = \<lparr>pl_provenance = p, pl_record_id = None, pl_note = None\<rparr>"
  by (auto simp: provenance_label_new_def)

text \<open>Where the recorded cost of a span comes from.\<close>

definition span_card :: "attributes \<Rightarrow> price_card list option \<Rightarrow> instant \<Rightarrow> price_card option" where
  "span_card a book now = (case book of None \<Rightarrow> None
     | Some b \<Rightarrow> resolve_card b (normalize_provider (str_attr a GEN_AI_SYSTEM)) (str_attr a GEN_AI_REQUEST_MODEL) now)"

definition cost_justified ::
  "py_host \<Rightarrow> attributes \<Rightarrow> price_card list option \<Rightarrow> instant \<Rightarrow> cost_event \<Rightarrow> bool" where
  "cost_justified h a book now e \<longleftrightarrow>
     (if attr_get a AI_MARGIN_COST_USD \<noteq> JNull
      then \<exists>q. inline_decimal h (attr_get a AI_MARGIN_COST_USD) = Inr q \<and> ce_cost_usd e = Some q
      else case span_card a book now of
        None \<Rightarrow> ce_cost_usd e = None \<and> ce_provenance_warnings e \<noteq> []
      | Some c \<Rightarrow> \<exists>q ws. compute_cost_usd (ce_tokens e) c = Inr (q, ws) \<and> ce_cost_usd e = Some q \<and>
          set ws \<subseteq> set (ce_provenance_warnings e))"

lemma span_cost_justified:
  assumes "span_cost h a t (normalize_provider (str_attr a GEN_AI_SYSTEM)) (str_attr a GEN_AI_REQUEST_MODEL) book now = Inr (cost, ws)"
    and "ce_tokens e = t" "ce_cost_usd e = cost" "ce_provenance_warnings e = ws"
  shows "cost_justified h a book now e"
proof (cases "attr_get a AI_MARGIN_COST_USD = JNull")
  case True
  with assms(1) obtain ws' where p: "price_or_abort t (span_card a book now) False False = Inr (cost, ws')"
    and ws: "ws = check_invariants t (normalize_provider (str_attr a GEN_AI_SYSTEM)) @ ws'"
    by (auto simp: span_cost_def span_card_def)
  show ?thesis
    using p assms(2-4) True
    by (cases "span_card a book now") (auto simp: cost_justified_def price_or_abort_def ws)
next
  case False
  with assms show ?thesis by (auto simp: span_cost_def cost_justified_def)
qed

lemma span_to_cost_event_Inr:
  assumes "span_to_cost_event h attrs tid book clk dflt = Inr e"
  shows "ce_tenant_id e = tid \<and> token_vector_ok (ce_tokens e) \<and>
    total_input (ce_tokens e) = int_attr (apply_vendor_token_aliases attrs) GEN_AI_USAGE_INPUT_TOKENS \<and>
    provenance_label_new (declared_provenance attrs dflt) None None = Inr (ce_provenance e) \<and>
    (ce_billing_uncertain_abort e \<longleftrightarrow> ce_cost_usd e = None) \<and>
    ce_run_id e = str_attr attrs AI_MARGIN_RUN_ID \<and> ce_attempt_id e = str_attr attrs AI_MARGIN_ATTEMPT_ID \<and>
    ce_id e = ce_run_id e @ '':'' @ ce_attempt_id e \<and>
    cost_justified h (apply_vendor_token_aliases attrs) book (sc_priced clk) e"
proof -
  let ?a = "apply_vendor_token_aliases attrs"
  let ?prov = "normalize_provider (str_attr ?a GEN_AI_SYSTEM)" and ?mdl = "str_attr ?a GEN_AI_REQUEST_MODEL"
  from assms obtain t cost ws label where
    t: "from_provider (int_attr ?a GEN_AI_USAGE_INPUT_TOKENS) (int_attr ?a AI_MARGIN_CACHE_READ)
          (int_attr ?a AI_MARGIN_CACHE_WRITE_5M) (int_attr ?a AI_MARGIN_CACHE_WRITE_1H)
          (int_attr ?a GEN_AI_USAGE_OUTPUT_TOKENS) (int_attr ?a AI_MARGIN_REASONING) = Inr t"
    and c: "span_cost h ?a t ?prov ?mdl book (sc_priced clk) = Inr (cost, ws)"
    and l: "provenance_label_new (declared_provenance ?a dflt) None None = Inr label"
    and e: "ce_tenant_id e = tid" "ce_tokens e = t" "ce_cost_usd e = cost" "ce_provenance_warnings e = ws"
      "ce_provenance e = label" "ce_billing_uncertain_abort e = (cost = None)"
      "ce_run_id e = str_attr ?a AI_MARGIN_RUN_ID" "ce_attempt_id e = str_attr ?a AI_MARGIN_ATTEMPT_ID"
      "ce_id e = str_attr ?a AI_MARGIN_RUN_ID @ '':'' @ str_attr ?a AI_MARGIN_ATTEMPT_ID"
    by (auto simp: span_to_cost_event_def Let_def split: prod.splits)
  from span_cost_justified [OF c e(2-4)] from_provider_Inr [OF t] l e show ?thesis
    by (simp add: declared_provenance_def str_attr_def)
qed


text \<open>
  A span that converts yields an event of the calling tenant with a well-formed token
  vector whose input classes add up to the reported input. Its provenance is the declared or
  the default one and never a reconciled one. Its cost is the inline amount, else the price
  of its tokens on the resolved card, else absent with a reason in the warnings, and the
  billing flag is set exactly when the cost is absent.
\<close>

theorem span_cost_honest:
  assumes "span_to_cost_event h attrs tid book clk dflt = Inr e"
  shows "ce_tenant_id e = tid \<and> token_vector_ok (ce_tokens e) \<and>
    total_input (ce_tokens e) = int_attr (apply_vendor_token_aliases attrs) GEN_AI_USAGE_INPUT_TOKENS \<and>
    pl_provenance (ce_provenance e) = declared_provenance attrs dflt \<and>
    \<not> reconciled_provenance (pl_provenance (ce_provenance e)) \<and>
    (ce_billing_uncertain_abort e \<longleftrightarrow> ce_cost_usd e = None) \<and>
    cost_justified h (apply_vendor_token_aliases attrs) book (sc_priced clk) e"
  using span_to_cost_event_Inr [OF assms] by (simp add: plain_label_Inr)

definition sample_host :: py_host where
  "sample_host = \<lparr>ph_attr = (\<lambda>_ _. None), ph_str = (\<lambda>_. [])\<rparr>"

definition sample_clock :: span_clock where
  "sample_clock = \<lparr>sc_priced = SNAPSHOT, sc_occurred = SNAPSHOT, sc_started = SNAPSHOT\<rparr>"

lemma sample_span_event:
  "map_sum id (\<lambda>e. (ce_cost_usd e, cost_idempotency_key e, total_input (ce_tokens e)))
     (span_to_cost_event sample_host sample_span ''t'' None sample_clock Estimated) =
   Inr (None, (''r1'', ''a1''), 1200)"
  by code_simp

theorem span_cost_honest_witness:
  "\<exists>e. span_to_cost_event sample_host sample_span ''t'' None sample_clock Estimated = Inr e \<and>
     pl_provenance (ce_provenance e) = Estimated \<and> ce_billing_uncertain_abort e \<and> total_input (ce_tokens e) = 1200"
proof -
  obtain e where e: "span_to_cost_event sample_host sample_span ''t'' None sample_clock Estimated = Inr e"
    "ce_cost_usd e = None" "total_input (ce_tokens e) = 1200"
    using sample_span_event by (cases "span_to_cost_event sample_host sample_span ''t'' None sample_clock Estimated") auto
  have "declared_provenance sample_span Estimated = Estimated"
    by (simp add: declared_provenance_def attr_get_def sample_span_def)
  with span_cost_honest [OF e(1)] e show ?thesis by auto
qed

section \<open>Ingest keeps the tables well-formed\<close>

definition ingest_ok :: "ingest_store \<Rightarrow> bool" where
  "ingest_ok st \<longleftrightarrow> run_table_ok (is_db st) \<and> cost_table_ok (is_db st) \<and> raw_table_ok (is_raw st)"

text \<open>The attempts and the runs the store knows, by tenant.\<close>

definition stored_attempts :: "db \<Rightarrow> (tenant_id \<times> run_id \<times> string) set" where
  "stored_attempts d = {(t, r, i). \<exists>row \<in> set (db_cost_event d).
     row_get row ''tenant_id'' = CUuid t \<and> row_get row ''run_id'' = CStr r \<and> row_get row ''attempt_id'' = CStr i}"

definition registered_runs :: "db \<Rightarrow> (tenant_id \<times> run_id) set" where
  "registered_runs d = {(t, r). run_view d t r \<noteq> None}"

lemma stored_attempts_rows:
  "db_cost_event d = cost_rows ms \<Longrightarrow> stored_attempts d = (\<lambda>(t, m). (t, cost_idempotency_key m)) ` set ms"
  by (force simp: stored_attempts_def cost_rows_def row_simps cost_idempotency_key_def)

lemma cost_upsert_attempts:
  assumes "cost_table_ok d" "cost_event_ok e" "cost_upsert d tid e = Inr d'"
  shows "cost_table_ok d'" "stored_attempts d' = insert (tid, cost_idempotency_key e) (stored_attempts d)"
    and "db_run d' = db_run d"
proof -
  obtain ms where ms: "db_cost_event d = cost_rows ms" "\<forall>(t, m) \<in> set ms. cost_event_ok m"
    and k: "distinct (map (\<lambda>(t, m). (t, cost_idempotency_key m)) ms)"
    using assms(1) by (auto simp: cost_table_ok_def)
  let ?p = "put cost_idempotency_key tid e ms"
  from assms(3) cost_upsert_rows [OF ms(1) k, of tid e]
  have d': "d' = d\<lparr>db_cost_event := cost_rows ?p\<rparr>" "distinct (map (\<lambda>(t, m). (t, ce_id m)) ?p)"
    by (auto split: if_splits)
  have "\<forall>(t, m) \<in> set ?p. cost_event_ok m" using ms(2) assms(2) by (auto simp: put_mem [OF k])
  with d' put_distinct [OF k] show "cost_table_ok d'" by (auto simp: cost_table_ok_def)
  show "stored_attempts d' = insert (tid, cost_idempotency_key e) (stored_attempts d)"
    using stored_attempts_rows [of d' ?p] stored_attempts_rows [OF ms(1)] d'(1) by (simp add: put_keys)
  show "db_run d' = db_run d" using d'(1) by simp
qed

lemma run_upsert_registers:
  assumes "run_table_ok d" "run_upsert d tid m = Inr d'"
  shows "run_table_ok d'" "registered_runs d' = insert (tid, run_id m) (registered_runs d)"
    and "db_cost_event d' = db_cost_event d"
proof -
  obtain d1 where "run_upsert d tid m = Inr d1" "run_table_ok d1"
    and v: "\<forall>t i. run_view d1 t i = (if t = tid \<and> i = run_id m then Some (stored_run tid m) else run_view d t i)"
    using run_upsert_view [OF assms(1), of tid m] by blast
  with assms(2) have "d1 = d'" by simp
  with v \<open>run_table_ok d1\<close> show "run_table_ok d'" "registered_runs d' = insert (tid, run_id m) (registered_runs d)"
    by (auto simp: registered_runs_def)
  show "db_cost_event d' = db_cost_event d" using assms(2) by (auto simp: run_upsert_def)
qed


lemma registered_runs_cong: "db_run d = db_run d' \<Longrightarrow> registered_runs d = registered_runs d'"
  by (simp add: registered_runs_def run_view_def)

lemma stored_attempts_cong: "db_cost_event d = db_cost_event d' \<Longrightarrow> stored_attempts d = stored_attempts d'"
  by (simp add: stored_attempts_def)

lemma run_rows_ok_cong: "db_run d = db_run d' \<Longrightarrow> run_table_ok d = run_table_ok d'"
  by (simp add: run_table_ok_def)

lemma cost_table_ok_cong: "db_cost_event d = db_cost_event d' \<Longrightarrow> cost_table_ok d = cost_table_ok d'"
  by (simp add: cost_table_ok_def)

definition span_key :: "attributes \<Rightarrow> run_id \<times> string" where
  "span_key a = (str_attr a AI_MARGIN_RUN_ID, str_attr a AI_MARGIN_ATTEMPT_ID)"

definition span_runs :: "py_host \<Rightarrow> ingest_runtime \<Rightarrow> attributes \<Rightarrow> run_id set" where
  "span_runs h rt a = (if ir_run_repo rt then {text_attr h a AI_MARGIN_RUN_ID} - {[]} else {})"

lemma span_event_ok:
  assumes "span_to_cost_event h a tid book clk dflt = Inr e"
  shows "cost_event_ok e" "cost_idempotency_key e = span_key a"
  using span_to_cost_event_Inr [OF assms]
  by (auto simp: cost_event_ok_def plain_label_Inr cost_idempotency_key_def span_key_def)

lemma register_run_effect:
  assumes "ingest_ok st" "register_run h rt tid (text_attr h a AI_MARGIN_RUN_ID) a now st = Inr st'"
  shows "ingest_ok st'" "stored_attempts (is_db st') = stored_attempts (is_db st)"
    and "registered_runs (is_db st') = registered_runs (is_db st) \<union> {tid} \<times> span_runs h rt a"
proof -
  let ?rid = "text_attr h a AI_MARGIN_RUN_ID"
  have "ingest_ok st' \<and> stored_attempts (is_db st') = stored_attempts (is_db st) \<and>
      registered_runs (is_db st') = registered_runs (is_db st) \<union> {tid} \<times> span_runs h rt a"
  proof (cases "ir_run_repo rt \<and> ?rid \<noteq> []")
    case True
    with assms(2) obtain d where d: "run_upsert (is_db st) tid (span_run h tid ?rid a now) = Inr d" "st' = st\<lparr>is_db := d\<rparr>"
      by (auto simp: register_run_def)
    have ok: "run_table_ok (is_db st)" using assms(1) by (simp add: ingest_ok_def)
    note reg = run_upsert_registers [OF ok d(1)]
    have i: "run_id (span_run h tid ?rid a now) = ?rid" by (simp add: span_run_def Let_def)
    have "{tid} \<times> span_runs h rt a = {(tid, ?rid)}" using True by (auto simp: span_runs_def)
    then show ?thesis
      using assms(1)
      by (simp add: ingest_ok_def d(2) reg(1,2) i cost_table_ok_cong [OF reg(3)] stored_attempts_cong [OF reg(3)])
  next
    case False
    with assms show ?thesis by (auto simp: register_run_def span_runs_def)
  qed
  then show "ingest_ok st'" "stored_attempts (is_db st') = stored_attempts (is_db st)"
    "registered_runs (is_db st') = registered_runs (is_db st) \<union> {tid} \<times> span_runs h rt a" by blast+
qed

lemma record_replay_effect:
  assumes "ingest_ok st"
  shows "\<exists>st'. record_replay_sample h rt tid rid a st = Inr st' \<and> ingest_ok st' \<and> is_db st' = is_db st"
proof (cases "\<not> ir_raw_record_repo rt \<or> rid = []")
  case True
  then show ?thesis using assms by (auto simp: record_replay_sample_def)
next
  case False
  show ?thesis
  proof (cases "replay_sample h rid a")
    case None
    with False assms show ?thesis by (simp add: record_replay_sample_def)
  next
    case (Some m)
    obtain tbl where "raw_put (is_raw st) tid m = Inr tbl" "raw_table_ok tbl"
      using raw_put_ok [of "is_raw st" tid m] assms by (auto simp: ingest_ok_def)
    with False Some assms show ?thesis by (simp add: record_replay_sample_def ingest_ok_def)
  qed
qed

text \<open>One span, stored or refused; nothing is refused after the cost event is written.\<close>

lemma register_run_total:
  "ingest_ok st \<Longrightarrow> \<exists>st'. register_run h rt tid rid a now st = Inr st'"
  using run_upsert_view by (fastforce simp: register_run_def ingest_ok_def)

lemma store_span_effect:
  assumes "ingest_ok st" "store_span h rt tid a clk st = (r, st')"
  shows "ingest_ok st'"
    and "r = Inr () \<Longrightarrow> stored_attempts (is_db st') = insert (tid, span_key a) (stored_attempts (is_db st)) \<and>
      registered_runs (is_db st') = registered_runs (is_db st) \<union> {tid} \<times> span_runs h rt a"
    and "r \<noteq> Inr () \<Longrightarrow> st' = st"
proof -
  let ?rid = "text_attr h a AI_MARGIN_RUN_ID"
  have "ingest_ok st' \<and>
    (if r = Inr () then stored_attempts (is_db st') = insert (tid, span_key a) (stored_attempts (is_db st)) \<and>
       registered_runs (is_db st') = registered_runs (is_db st) \<union> {tid} \<times> span_runs h rt a
     else st' = st)"
  proof (cases "res_bind (span_to_cost_event h a tid (ir_pricebook rt) clk (ir_default_provenance rt))
      (\<lambda>e. cost_upsert (is_db st) tid e)")
    case (Inl x)
    with assms show ?thesis by (auto simp: store_span_def)
  next
    case (Inr d)
    then obtain e where e: "span_to_cost_event h a tid (ir_pricebook rt) clk (ir_default_provenance rt) = Inr e"
      "cost_upsert (is_db st) tid e = Inr d" by auto
    have ok: "cost_table_ok (is_db st)" using assms(1) by (simp add: ingest_ok_def)
    note eff = cost_upsert_attempts [OF ok span_event_ok(1) [OF e(1)] e(2)]
    let ?st1 = "st\<lparr>is_db := d\<rparr>"
    have ok1: "ingest_ok ?st1" using assms(1) eff(1) run_rows_ok_cong [OF eff(3)] by (simp add: ingest_ok_def)
    obtain st2 where st2: "register_run h rt tid ?rid a (sc_started clk) ?st1 = Inr st2"
      using register_run_total [OF ok1] by blast
    note eff2 = register_run_effect [OF ok1 st2]
    obtain st3 where st3: "record_replay_sample h rt tid ?rid a st2 = Inr st3" "ingest_ok st3" "is_db st3 = is_db st2"
      using record_replay_effect [OF eff2(1)] by blast
    have "r = Inr ()" "st' = st3" using assms(2) Inr st2 st3(1) by (auto simp: store_span_def)
    then show ?thesis
      using st3 eff2 eff(2) registered_runs_cong [OF eff(3)] span_event_ok(2) [OF e(1)] by simp
  qed
  then show "ingest_ok st'"
    "r = Inr () \<Longrightarrow> stored_attempts (is_db st') = insert (tid, span_key a) (stored_attempts (is_db st)) \<and>
      registered_runs (is_db st') = registered_runs (is_db st) \<union> {tid} \<times> span_runs h rt a"
    "r \<noteq> Inr () \<Longrightarrow> st' = st" by (auto split: if_splits)
qed


text \<open>The spans of a batch that are not framework rollups.\<close>

definition attempt_spans :: "(attributes \<times> span_clock) list \<Rightarrow> attributes list" where
  "attempt_spans spans = filter (\<lambda>a. \<not> is_rollup_span a) (map fst spans)"

lemma ingest_loop_effect:
  assumes "ingest_ok st" "ingest_loop h rt tid spans n st = (r, st')"
  shows "ingest_ok st' \<and>
    (case r of Inl _ \<Rightarrow> True
     | Inr m \<Rightarrow> m = n + int (length (attempt_spans spans)) \<and>
         stored_attempts (is_db st') = stored_attempts (is_db st) \<union> {tid} \<times> span_key ` set (attempt_spans spans) \<and>
         registered_runs (is_db st') =
           registered_runs (is_db st) \<union> {tid} \<times> \<Union> (span_runs h rt ` set (attempt_spans spans)))"
  using assms
proof (induction spans arbitrary: n st)
  case Nil
  then show ?case by (auto simp: attempt_spans_def)
next
  case (Cons p spans)
  obtain a clk where p: "p = (a, clk)" by (cases p)
  show ?case
  proof (cases "is_rollup_span a")
    case True
    then have sp: "attempt_spans (p # spans) = attempt_spans spans" using p by (simp add: attempt_spans_def)
    have "ingest_loop h rt tid spans n st = (r, st')" using True Cons.prems(2) p by simp
    from Cons.IH [OF Cons.prems(1) this] show ?thesis unfolding sp .
  next
    case False
    obtain q st1 where s: "store_span h rt tid a clk st = (q, st1)" by (cases "store_span h rt tid a clk st")
    note eff = store_span_effect [OF Cons.prems(1) s]
    show ?thesis
    proof (cases q)
      case (Inl e)
      with Cons.prems(2) False p s have "st' = st1" "r = Inl e" by auto
      with eff(1) show ?thesis by simp
    next
      case (Inr u)
      with Cons.prems(2) False p s have l: "ingest_loop h rt tid spans (n + 1) st1 = (r, st')" by simp
      have sp: "attempt_spans (p # spans) = a # attempt_spans spans" using False p by (simp add: attempt_spans_def)
      have e1: "stored_attempts (is_db st1) = insert (tid, span_key a) (stored_attempts (is_db st))"
        "registered_runs (is_db st1) = registered_runs (is_db st) \<union> {tid} \<times> span_runs h rt a"
        using eff(2) Inr by auto
      show ?thesis
        using Cons.IH [OF eff(1) l] by (cases r) (auto simp: sp e1)
    qed
  qed
qed

text \<open>
  C21. A batch that is accepted stores exactly its attempts: afterwards the known attempts are
  those known before and one for the run and attempt id of every span that is not a rollup,
  of the authenticated tenant, and the runs they name are registered. The reported number is
  the number of those spans, no attempt has two rows, and even a batch that fails leaves
  every table well-formed.
\<close>

theorem ingest_batch_exact:
  assumes "ingest_ok st" "ingest_attribute_maps h (Some (Some rt)) tid spans st = (r, st')"
  shows "ingest_ok st' \<and>
    (case r of Inl _ \<Rightarrow> True
     | Inr n \<Rightarrow> n = int (length (attempt_spans spans)) \<and>
         stored_attempts (is_db st') = stored_attempts (is_db st) \<union> {tid} \<times> span_key ` set (attempt_spans spans) \<and>
         registered_runs (is_db st') =
           registered_runs (is_db st) \<union> {tid} \<times> \<Union> (span_runs h rt ` set (attempt_spans spans)))"
  using ingest_loop_effect [OF assms(1), of h rt tid spans 0 r st'] assms(2)
  by (cases r) (simp_all add: ingest_attribute_maps_def)

definition empty_ingest :: ingest_store where
  "empty_ingest = \<lparr>is_db = empty_db, is_raw = []\<rparr>"

lemma empty_ingest_ok: "ingest_ok empty_ingest"
proof -
  have "db_cost_event empty_db = cost_rows []" by (simp add: empty_db_def cost_rows_def)
  then have "cost_table_ok empty_db" unfolding cost_table_ok_def by fastforce
  moreover have "raw_table_ok []" unfolding raw_table_ok_def by (auto simp: raw_rows_def)
  ultimately show ?thesis by (simp add: ingest_ok_def empty_ingest_def empty_db_ok)
qed

definition plain_runtime :: ingest_runtime where
  "plain_runtime = \<lparr>ir_pricebook = None, ir_default_provenance = Measured, ir_run_repo = True, ir_raw_record_repo = True\<rparr>"

lemma sample_ingested:
  "fst (ingest_attribute_maps sample_host (Some (Some plain_runtime)) ''t'' [(sample_span, sample_clock)] empty_ingest) = Inr 1"
  by code_simp

theorem ingest_batch_exact_witness:
  "\<exists>st'. ingest_attribute_maps sample_host (Some (Some plain_runtime)) ''t'' [(sample_span, sample_clock)] empty_ingest = (Inr 1, st') \<and>
     (''t'', ''r1'', ''a1'') \<in> stored_attempts (is_db st') \<and> (''t'', ''r1'') \<in> registered_runs (is_db st')"
proof -
  obtain st' where st': "ingest_attribute_maps sample_host (Some (Some plain_runtime)) ''t'' [(sample_span, sample_clock)]
      empty_ingest = (Inr 1, st')"
    using sample_ingested by (metis prod.collapse)
  have "attempt_spans [(sample_span, sample_clock)] = [sample_span]" "span_key sample_span = (''r1'', ''a1'')"
    "span_runs sample_host plain_runtime sample_span = {''r1''}"
    by (auto simp: attempt_spans_def is_rollup_span_def sample_span_def attr_get_def span_key_def str_attr_def
        span_runs_def plain_runtime_def text_attr_def json_str_def)
  with ingest_batch_exact [OF empty_ingest_ok st'] st' show ?thesis by auto
qed


section \<open>Where ingest loses data\<close>

text \<open>
  A span that declares a reconciled provenance always breaks ingest, although a producer's
  attribute is meant never to: the label needs a reconciliation record that no span can
  carry. The batch stops there, so this span and every later one is lost, whatever they hold.
\<close>

theorem reconciled_span_aborts_batch:
  assumes "attr_get a AI_MARGIN_PROVENANCE = JStr (provenance_value p)" "reconciled_provenance p" "\<not> is_rollup_span a"
  shows "\<exists>err. ingest_attribute_maps h (Some (Some rt)) tid ((a, clk) # later) st = (Inl err, st)"
proof -
  have "\<exists>err. span_to_cost_event h a tid book clk dflt = Inl err" for book dflt
  proof (cases "span_to_cost_event h a tid book clk dflt")
    case (Inr e)
    from span_to_cost_event_Inr [OF Inr] assms(1,2) show ?thesis
      by (simp add: declared_provenance_def provenance_roundtrip plain_label_Inr)
  qed blast
  then obtain err where "span_to_cost_event h a tid (ir_pricebook rt) clk (ir_default_provenance rt) = Inl err" by blast
  then have "store_span h rt tid a clk st = (Inl err, st)" by (simp add: store_span_def)
  with assms(3) show ?thesis by (simp add: ingest_attribute_maps_def)
qed

theorem reconciled_span_aborts_batch_witness:
  "\<exists>err. ingest_attribute_maps sample_host (Some (Some plain_runtime)) ''t''
     [(sample_span @ [(AI_MARGIN_PROVENANCE, JStr ''provider_reconciled'')], sample_clock), (sample_span, sample_clock)]
     empty_ingest = (Inl err, empty_ingest)"
  using reconciled_span_aborts_batch
    [of "sample_span @ [(AI_MARGIN_PROVENANCE, JStr ''provider_reconciled'')]" ProviderReconciled sample_host plain_runtime
      "''t''" sample_clock "[(sample_span, sample_clock)]" empty_ingest]
  by (simp add: sample_span_def attr_get_def reconciled_provenance_def is_rollup_span_def)

text \<open>
  A run id that arrives as a number is read in two ways: the cost event is filed under the
  empty run, while the run that is registered carries the number's text. The registered run
  has no cost and the cost no run an outcome could name.
\<close>

theorem numeric_run_id_split:
  assumes "ingest_ok st" "ir_run_repo rt" "dict_get a AI_MARGIN_RUN_ID = Some (JInt i)"
    and "store_span h rt tid a clk st = (Inr (), st')"
  shows "(tid, show_int i) \<in> registered_runs (is_db st') \<and>
    (tid, [], str_attr a AI_MARGIN_ATTEMPT_ID) \<in> stored_attempts (is_db st') \<and>
    (\<forall>x. (tid, show_int i, x) \<in> stored_attempts (is_db st') \<longleftrightarrow> (tid, show_int i, x) \<in> stored_attempts (is_db st))"
proof -
  have k: "span_key a = ([], str_attr a AI_MARGIN_ATTEMPT_ID)"
    using assms(3) by (simp add: span_key_def str_attr_def attr_get_def)
  have "show_int i \<noteq> []" using show_nat_digits by (simp add: show_int_def)
  then have "span_runs h rt a = {show_int i}"
    using assms(2,3) by (auto simp: span_runs_def text_attr_def json_str_def)
  then show ?thesis
    using store_span_effect(2) [OF assms(1,4)] k \<open>show_int i \<noteq> []\<close> by auto
qed

lemma numeric_span_stored:
  "fst (store_span sample_host plain_runtime ''t'' [(AI_MARGIN_RUN_ID, JInt 42), (GEN_AI_SYSTEM, JStr ''openai'')] sample_clock empty_ingest) = Inr ()"
  by code_simp

theorem numeric_run_id_split_witness:
  "\<exists>st'. store_span sample_host plain_runtime ''t'' [(AI_MARGIN_RUN_ID, JInt 42), (GEN_AI_SYSTEM, JStr ''openai'')] sample_clock empty_ingest
     = (Inr (), st') \<and> (''t'', show_int 42) \<in> registered_runs (is_db st')"
proof -
  obtain st' where st': "store_span sample_host plain_runtime ''t'' [(AI_MARGIN_RUN_ID, JInt 42), (GEN_AI_SYSTEM, JStr ''openai'')]
      sample_clock empty_ingest = (Inr (), st')"
    using numeric_span_stored by (metis prod.collapse)
  have "ir_run_repo plain_runtime" by (simp add: plain_runtime_def)
  from numeric_run_id_split [OF empty_ingest_ok this _ st', of 42] st' show ?thesis by simp
qed

text \<open>
  Spans that carry no run and attempt id, as third-party exporters send them, all share
  one key: however many of them a batch holds, the store keeps one row for all.
\<close>

theorem unlabelled_spans_collapse:
  assumes "\<forall>a \<in> set (map fst spans). str_attr a AI_MARGIN_RUN_ID = [] \<and> str_attr a AI_MARGIN_ATTEMPT_ID = []"
    and "ingest_attribute_maps h (Some (Some rt)) tid spans empty_ingest = (Inr n, st')"
  shows "length (db_cost_event (is_db st')) \<le> 1"
proof -
  note eff = ingest_loop_effect [OF empty_ingest_ok, of h rt tid spans 0 "Inr n" st']
  have l: "ingest_loop h rt tid spans 0 empty_ingest = (Inr n, st')" using assms(2) by (simp add: ingest_attribute_maps_def)
  have none: "stored_attempts (is_db empty_ingest) = {}" by (simp add: stored_attempts_def empty_ingest_def empty_db_def)
  have "span_key ` set (attempt_spans spans) \<subseteq> {([], [])}" using assms(1) by (auto simp: attempt_spans_def span_key_def)
  with eff [OF l] none have sub: "stored_attempts (is_db st') \<subseteq> {(tid, [], [])}" by auto
  obtain ms where ms: "db_cost_event (is_db st') = cost_rows ms"
    and k: "distinct (map (\<lambda>(t, m). (t, cost_idempotency_key m)) ms)"
    using eff [OF l] by (auto simp: ingest_ok_def cost_table_ok_def)
  have "card (set (map (\<lambda>(t, m). (t, cost_idempotency_key m)) ms)) \<le> card {(tid, [] :: string, [] :: string)}"
    using sub stored_attempts_rows [OF ms] by (intro card_mono) auto
  then show ?thesis using distinct_card [OF k] ms by (simp add: cost_rows_def)
qed

definition vercel_span :: "int \<Rightarrow> attributes" where
  "vercel_span n = [(GEN_AI_SYSTEM, JStr ''openai.chat''), (''ai.usage.inputTokens'', JInt n)]"

lemma vercel_spans_accepted:
  "fst (ingest_attribute_maps sample_host (Some (Some plain_runtime)) ''t''
     [(vercel_span 10, sample_clock), (vercel_span 20, sample_clock)] empty_ingest) = Inr 2"
  by code_simp

theorem unlabelled_spans_collapse_witness:
  "\<exists>st'. ingest_attribute_maps sample_host (Some (Some plain_runtime)) ''t''
     [(vercel_span 10, sample_clock), (vercel_span 20, sample_clock)] empty_ingest = (Inr 2, st') \<and>
     length (db_cost_event (is_db st')) \<le> 1"
proof -
  obtain st' where st': "ingest_attribute_maps sample_host (Some (Some plain_runtime)) ''t''
      [(vercel_span 10, sample_clock), (vercel_span 20, sample_clock)] empty_ingest = (Inr 2, st')"
    using vercel_spans_accepted by (metis prod.collapse)
  from unlabelled_spans_collapse [OF _ st'] st' show ?thesis
    by (simp add: vercel_span_def str_attr_def attr_get_def)
qed

end
