(* ===== verification/Eval_Stats.thy ===== *)
theory Eval_Stats
  imports Rounding "HOL-Library.Multiset"
begin

text \<open>
  The closed-form statistics of the model evaluation (\<open>eval/stats.py\<close>) and the
  re-evaluation cadence (\<open>eval/cadence.py\<close>) on doubles: every arithmetic operation of
  the source rounds once. The mathematical library's \<open>pow\<close>, \<open>sqrt\<close>, \<open>log\<close> and
  \<open>erf\<close>, which the standard does not require to be correctly rounded, are the argument
  \<open>lm\<close>; the facts a result needs of them are hypotheses. A literal is the double nearest
  to it.

  Shown: the Wilson interval exists exactly for a possible sample, lies in the unit
  interval and is ordered, whatever the rounding does; the latency percentiles are
  ordered, stay between two neighbouring samples and do not depend on the order of the
  samples; a non-inferiority verdict is decided only on a powered sample.
\<close>

section \<open>Doubles\<close>

definition fadd :: "rat \<Rightarrow> rat \<Rightarrow> rat" where "fadd x y = dbl (x + y)"
definition fsub :: "rat \<Rightarrow> rat \<Rightarrow> rat" where "fsub x y = dbl (x - y)"
definition fmul :: "rat \<Rightarrow> rat \<Rightarrow> rat" where "fmul x y = dbl (x * y)"
definition fdiv :: "rat \<Rightarrow> rat \<Rightarrow> rat" where "fdiv x y = dbl (x / y)"

text \<open>An \<open>int\<close> operand of a float operation is converted first.\<close>

definition fint :: "int \<Rightarrow> rat" where "fint n = dbl (of_int n)"

text \<open>Division with Python's check of the divisor.\<close>

definition fdivide :: "rat \<Rightarrow> rat \<Rightarrow> rat res" where
  "fdivide x y = (if y = 0 then Inl ZeroDivisionError else Inr (fdiv x y))"

abbreviation is_double :: "rat \<Rightarrow> bool" where
  "is_double x \<equiv> representable 2 53 x"

lemma is_double_dbl [simp]: "is_double (dbl x)"
  by (simp add: dbl_def representable_round_sig)

lemma dbl_double: "is_double x \<Longrightarrow> dbl x = x"
  by (rule dbl.rnd_exact)

lemma dbl_dbl [simp]: "dbl (dbl x) = dbl x"
  by (simp add: dbl_double)

lemma is_double_scaled: "\<bar>n\<bar> \<le> 2 ^ 53 \<Longrightarrow> is_double (of_int n / 2 ^ k)"
  unfolding representable_def
  by (intro exI [of _ n] exI [of _ "- int k"]) (simp add: power_int_minus divide_inverse)

lemma is_double_int: "\<bar>n\<bar> \<le> 2 ^ 53 \<Longrightarrow> is_double (of_int n)"
  using is_double_scaled [of n 0] by simp

lemma dbl_1 [simp]: "dbl 1 = 1"
  using is_double_int [of 1] by (simp add: dbl_double)

lemma dbl_unit: "0 \<le> x \<Longrightarrow> x \<le> 1 \<Longrightarrow> 0 \<le> dbl x \<and> dbl x \<le> 1"
  using dbl.rnd_mono [of x 1] dbl.rnd_nonneg [of x] by simp

lemma dbl_le: "x \<le> y \<Longrightarrow> is_double y \<Longrightarrow> dbl x \<le> y"
  using dbl.rnd_mono [of x y] by (simp add: dbl_double)

lemma dbl_ge: "x \<le> y \<Longrightarrow> is_double x \<Longrightarrow> x \<le> dbl y"
  using dbl.rnd_mono [of x y] by (simp add: dbl_double)

lemma fint_pos: "0 < n \<Longrightarrow> 0 < fint n"
  by (simp add: fint_def dbl.rnd_pos)

lemma fint_double_le: "0 \<le> n \<Longrightarrow> fint n \<le> fmul 2 (fint n)"
  unfolding fmul_def by (rule dbl_ge) (simp_all add: fint_def dbl.rnd_nonneg)

record libm =
  m_pow :: "rat \<Rightarrow> rat \<Rightarrow> rat"
  m_sqrt :: "rat \<Rightarrow> rat"
  m_log :: "rat \<Rightarrow> rat"
  m_erf :: "rat \<Rightarrow> rat"

text \<open>\<open>math.sqrt\<close> refuses a negative argument.\<close>

definition fsqrt :: "libm \<Rightarrow> rat \<Rightarrow> rat res" where
  "fsqrt lm x = (if x < 0 then Inl ValueError else Inr (m_sqrt lm x))"

section \<open>Intervals\<close>

type_synonym interval = "rat \<times> rat"

definition z_95 :: rat where "z_95 = dbl (1959963984540054 / 10 ^ 15)"

definition impossible_sample :: int where "impossible_sample = 2 ^ 31"

definition wilson_ci :: "libm \<Rightarrow> int \<Rightarrow> int \<Rightarrow> interval res" where
  "wilson_ci lm successes n =
     (if n \<le> 0 then Inl ValueError
      else if successes < 0 \<or> n < successes then Inl ValueError
      else
        (let z = z_95;
             p = dbl (of_int successes / of_int n);
             z2 = fmul z z;
             denom = fadd 1 (fdiv z2 (fint n));
             center = fdiv (fadd p (fdiv z2 (fmul 2 (fint n)))) denom;
             margin = fmul (fdiv z denom)
               (m_pow lm (fadd (fdiv (fmul p (fsub 1 p)) (fint n))
                               (fdiv z2 (fmul (fmul 4 (fint n)) (fint n)))) (1 / 2));
             low = fsub center margin;
             high = fadd center margin
         in Inr (max 0 low, min 1 high)))"

definition ci_separated :: "interval \<Rightarrow> interval \<Rightarrow> bool" where
  "ci_separated a b \<longleftrightarrow> snd a < fst b \<or> snd b < fst a"

lemma ci_separated_commute: "ci_separated a b = ci_separated b a"
  by (auto simp: ci_separated_def)

section \<open>Percentiles\<close>

record percentiles_t =
  p50 :: rat
  p95 :: rat
  p99 :: rat

definition quantile :: "rat list \<Rightarrow> rat \<Rightarrow> rat" where
  "quantile ordered q =
     (if length ordered = 1 then ordered ! 0
      else
        (let rank = fmul q (fint (int (length ordered - 1)));
             low_idx = nat \<lfloor>rank\<rfloor>
         in if length ordered - 1 \<le> low_idx then last ordered
            else
              (let fr = fsub rank (fint (int low_idx))
               in fadd (ordered ! low_idx)
                    (fmul fr (fsub (ordered ! (low_idx + 1)) (ordered ! low_idx))))))"

definition percentiles :: "rat list \<Rightarrow> percentiles_t res" where
  "percentiles samples =
     (if samples = [] then Inl ValueError
      else
        (let ordered = sort samples
         in Inr \<lparr>p50 = quantile ordered (dbl (1 / 2)),
                 p95 = quantile ordered (dbl (95 / 100)),
                 p99 = quantile ordered (dbl (99 / 100))\<rparr>))"

section \<open>Hysteresis\<close>

text \<open>The result of \<open>relative_improvement\<close> may be an infinity.\<close>

datatype xfloat = Finite rat | PosInf | NegInf

definition relative_improvement :: "rat \<Rightarrow> rat \<Rightarrow> xfloat" where
  "relative_improvement new old =
     (if old = 0 then (if new = 0 then Finite 0 else if 0 < new then PosInf else NegInf)
      else Finite (fdiv (fsub new old) \<bar>old\<bar>))"

definition meets_hysteresis :: "rat \<Rightarrow> rat \<Rightarrow> rat \<Rightarrow> bool" where
  "meets_hysteresis new old threshold =
     (if old = 0 then new \<noteq> 0
      else fsub threshold (dbl (1 / 10 ^ 9)) \<le> fdiv \<bar>fsub new old\<bar> \<bar>old\<bar>)"

definition underperforms_by :: "rat \<Rightarrow> rat \<Rightarrow> rat \<Rightarrow> bool" where
  "underperforms_by candidate incumbent fraction \<longleftrightarrow>
     candidate < fmul incumbent (fsub 1 fraction)"

section \<open>Non-inferiority\<close>

text \<open>Horner's scheme, as the source writes its polynomials: the last addition is outside.\<close>

definition horner :: "rat list \<Rightarrow> rat \<Rightarrow> rat" where
  "horner cs x = (case cs of [] \<Rightarrow> 0 | c # cs' \<Rightarrow> foldl (\<lambda>t c. fadd (fmul t x) c) c cs')"

definition lit :: "int \<Rightarrow> nat \<Rightarrow> rat" where
  "lit m k = dbl (of_int m / 10 ^ k)"

definition quantile_a :: "rat list" where
  "quantile_a = [lit (- 3969683028665376) 14, lit 2209460984245205 13, lit (- 2759285104469687) 13,
     lit 1383577518672690 13, lit (- 3066479806614716) 14, lit 2506628277459239 15]"

definition quantile_b :: "rat list" where
  "quantile_b = [lit (- 5447609879822406) 14, lit 1615858368580409 13, lit (- 1556989798598866) 13,
     lit 6680131188771972 14, lit (- 1328068155288572) 14]"

definition quantile_c :: "rat list" where
  "quantile_c = [lit (- 7784894002430293) 18, lit (- 3223964580411365) 16,
     lit (- 2400758277161838) 15, lit (- 2549732539343734) 15, lit 4374664141464968 15,
     lit 2938163982698783 15]"

definition quantile_d :: "rat list" where
  "quantile_d = [lit 7784695709041462 18, lit 3224671290700398 16, lit 2445134137142996 15,
     lit 3754408661907416 15]"

definition z_quantile :: "libm \<Rightarrow> rat \<Rightarrow> rat res" where
  "z_quantile lm p =
     (if p \<le> 0 \<or> 1 \<le> p then Inl ValueError
      else if p < lit 2425 5 then
        res_bind (fsqrt lm (fmul (- 2) (m_log lm p))) (\<lambda>q.
          fdivide (horner quantile_c q) (horner (quantile_d @ [1]) q))
      else if fsub 1 (lit 2425 5) < p then
        res_bind (fsqrt lm (fmul (- 2) (m_log lm (fsub 1 p)))) (\<lambda>q.
          fdivide (- horner quantile_c q) (horner (quantile_d @ [1]) q))
      else
        (let q = fsub p (dbl (1 / 2)); r = fmul q q
         in fdivide (fmul (horner quantile_a r) q) (horner (quantile_b @ [1]) r)))"

definition normal_cdf :: "libm \<Rightarrow> rat \<Rightarrow> rat" where
  "normal_cdf lm z = fmul (dbl (1 / 2)) (fadd 1 (m_erf lm (fdiv z (m_sqrt lm 2))))"

definition required_sample_size :: "libm \<Rightarrow> rat \<Rightarrow> rat \<Rightarrow> rat \<Rightarrow> rat \<Rightarrow> int res" where
  "required_sample_size lm baseline_rate margin alpha pw =
     (if margin \<le> 0 then Inr impossible_sample
      else
        (let p = min (max baseline_rate (lit 1 6)) (fsub 1 (lit 1 6))
         in res_bind (z_quantile lm (fsub 1 alpha)) (\<lambda>z_a.
            res_bind (z_quantile lm pw) (\<lambda>z_b.
              let s = fadd z_a z_b in
              res_bind (fdivide (fmul (fmul (fmul (m_pow lm s 2) 2) p) (fsub 1 p)) (m_pow lm margin 2))
                (\<lambda>v. Inr \<lceil>v\<rceil>)))))"

record non_inferiority_verdict =
  ni_decided :: bool
  ni_non_inferior :: "bool option"
  ni_p_value :: rat
  ni_candidate_rate :: rat
  ni_incumbent_rate :: rat
  ni_margin :: rat
  ni_n_per_arm :: int

definition ni_undecided :: "rat \<Rightarrow> rat \<Rightarrow> rat \<Rightarrow> rat \<Rightarrow> int \<Rightarrow> non_inferiority_verdict" where
  "ni_undecided p_value p_c p_i margin n =
     \<lparr>ni_decided = False, ni_non_inferior = None, ni_p_value = p_value, ni_candidate_rate = p_c,
      ni_incumbent_rate = p_i, ni_margin = margin, ni_n_per_arm = n\<rparr>"

definition default_power :: rat where "default_power = lit 80 2"

definition non_inferiority ::
  "libm \<Rightarrow> int \<Rightarrow> int \<Rightarrow> int \<Rightarrow> int \<Rightarrow> rat \<Rightarrow> rat \<Rightarrow> non_inferiority_verdict res" where
  "non_inferiority lm candidate_successes candidate_n incumbent_successes incumbent_n margin alpha =
     (if candidate_n \<le> 0 \<or> incumbent_n \<le> 0 then Inr (ni_undecided 1 0 0 margin 0)
      else
        (let p_c = dbl (of_int candidate_successes / of_int candidate_n);
             p_i = dbl (of_int incumbent_successes / of_int incumbent_n);
             n_per_arm = min candidate_n incumbent_n;
             var = fadd (fdiv (fmul p_c (fsub 1 p_c)) (fint candidate_n))
                        (fdiv (fmul p_i (fsub 1 p_i)) (fint incumbent_n))
         in res_bind (fsqrt lm var) (\<lambda>se.
              if se = 0 then Inr (ni_undecided 1 p_c p_i margin n_per_arm)
              else
                (let z = fdiv (fadd (fsub p_c p_i) margin) se;
                     p_value = fsub 1 (normal_cdf lm z)
                 in res_bind (required_sample_size lm p_i margin alpha default_power) (\<lambda>req.
                      if n_per_arm < req then Inr (ni_undecided p_value p_c p_i margin n_per_arm)
                      else
                        Inr \<lparr>ni_decided = True, ni_non_inferior = Some (p_value < alpha),
                             ni_p_value = p_value, ni_candidate_rate = p_c,
                             ni_incumbent_rate = p_i, ni_margin = margin,
                             ni_n_per_arm = n_per_arm\<rparr>)))))"

section \<open>Cadence\<close>

text \<open>A trigger arrives as the enumeration's string value or as an untyped string.\<close>

definition cadence_triggers :: "string list" where
  "cadence_triggers = [''new_model_release'', ''cost_drift'', ''latency_drift'', ''new_agent'']"

definition should_reeval :: "string \<Rightarrow> bool res" where
  "should_reeval trigger = (if trigger \<in> set cadence_triggers then Inr True else Inl ValueError)"

definition surface_switch_if_warranted :: "rat \<Rightarrow> rat option \<Rightarrow> bool" where
  "surface_switch_if_warranted new_parity prior_parity =
     (case prior_parity of
        None \<Rightarrow> True
      | Some old \<Rightarrow> meets_hysteresis new_parity old (lit 15 2))"

section \<open>The Wilson interval\<close>

lemma z_95_pos: "0 < z_95"
  unfolding z_95_def by (rule dbl.rnd_pos) simp

lemma wilson_center_unit:
  assumes p: "0 \<le> p" "p \<le> 1" and n: "0 < n" and z: "0 < z2"
  shows "0 \<le> fdiv (fadd p (fdiv z2 (fmul 2 (fint n)))) (fadd 1 (fdiv z2 (fint n)))
    \<and> fdiv (fadd p (fdiv z2 (fmul 2 (fint n)))) (fadd 1 (fdiv z2 (fint n))) \<le> 1
    \<and> 0 < fadd 1 (fdiv z2 (fint n))"
proof -
  have N: "0 < fint n" using n by (rule fint_pos)
  have N2: "fint n \<le> fmul 2 (fint n)" using n by (simp add: fint_double_le)
  have half: "fdiv z2 (fmul 2 (fint n)) \<le> fdiv z2 (fint n)"
    unfolding fdiv_def using z N N2 by (intro dbl.rnd_mono divide_left_mono) auto
  have pos: "0 \<le> fdiv z2 (fmul 2 (fint n))"
    unfolding fdiv_def using z N N2 by (intro dbl.rnd_nonneg divide_nonneg_nonneg) auto
  have num: "fadd p (fdiv z2 (fmul 2 (fint n))) \<le> fadd 1 (fdiv z2 (fint n))"
    unfolding fadd_def using half p by (intro dbl.rnd_mono) auto
  have num0: "0 \<le> fadd p (fdiv z2 (fmul 2 (fint n)))"
    unfolding fadd_def using pos p by (intro dbl.rnd_nonneg) auto
  have den: "0 < fadd 1 (fdiv z2 (fint n))"
    unfolding fadd_def using pos half by (intro dbl.rnd_pos) auto
  have "0 \<le> fadd p (fdiv z2 (fmul 2 (fint n))) / fadd 1 (fdiv z2 (fint n))
    \<and> fadd p (fdiv z2 (fmul 2 (fint n))) / fadd 1 (fdiv z2 (fint n)) \<le> 1"
    using num num0 den by simp
  then show ?thesis unfolding fdiv_def [of "fadd _ _"] using dbl_unit den by blast
qed

lemma fsub_le_fadd:
  assumes "is_double c" "0 \<le> m"
  shows "fsub c m \<le> c" "c \<le> fadd c m"
  using assms by (auto simp: fsub_def fadd_def intro: dbl_le dbl_ge)

lemma ratio_unit:
  assumes "0 \<le> s" "s \<le> n" "0 < (n::int)"
  shows "0 \<le> dbl (of_int s / of_int n) \<and> dbl (of_int s / of_int n) \<le> 1"
  using assms by (intro dbl_unit) auto

lemma wilson_ci_ok:
  assumes pow: "\<And>x. 0 \<le> x \<Longrightarrow> 0 \<le> m_pow lm x (1 / 2)" and True: "0 < n \<and> 0 \<le> s \<and> s \<le> n"
  shows "\<exists>low high. wilson_ci lm s n = Inr (low, high) \<and> 0 \<le> low \<and> low \<le> high \<and> high \<le> 1"
proof -
  define p where "p = dbl (of_int s / of_int n)"
  define z2 where "z2 = fmul z_95 z_95"
  define denom where "denom = fadd 1 (fdiv z2 (fint n))"
  define center where "center = fdiv (fadd p (fdiv z2 (fmul 2 (fint n)))) denom"
  define var where "var = fadd (fdiv (fmul p (fsub 1 p)) (fint n))
    (fdiv z2 (fmul (fmul 4 (fint n)) (fint n)))"
  define margin where "margin = fmul (fdiv z_95 denom) (m_pow lm var (1 / 2))"
  have p: "0 \<le> p" "p \<le> 1" using ratio_unit [of s n] True by (simp_all add: p_def)
  have z2: "0 < z2" unfolding z2_def fmul_def using z_95_pos by (intro dbl.rnd_pos) simp
  have N: "0 < fint n" using True by (simp add: fint_pos)
  have c: "0 \<le> center" "center \<le> 1" "0 < denom"
    using wilson_center_unit [OF p _ z2, of n] True by (simp_all add: center_def denom_def)
  have "0 \<le> var"
    unfolding var_def fadd_def fdiv_def fmul_def fsub_def using p z2 N
    by (intro dbl.rnd_nonneg add_nonneg_nonneg divide_nonneg_nonneg mult_nonneg_nonneg) auto
  then have m: "0 \<le> margin"
    unfolding margin_def fmul_def fdiv_def using c z_95_pos pow
    by (intro dbl.rnd_nonneg mult_nonneg_nonneg divide_nonneg_nonneg) auto
  have "is_double center" by (simp add: center_def fdiv_def)
  then have lh: "fsub center margin \<le> center" "center \<le> fadd center margin"
    using m by (rule fsub_le_fadd)+
  have "wilson_ci lm s n = Inr (max 0 (fsub center margin), min 1 (fadd center margin))"
    using True by (simp add: wilson_ci_def Let_def p_def z2_def denom_def center_def var_def margin_def)
  moreover have "0 \<le> max 0 (fsub center margin)"
    "max 0 (fsub center margin) \<le> min 1 (fadd center margin)"
    "min 1 (fadd center margin) \<le> 1" using lh c by auto
  ultimately show ?thesis by blast
qed

text \<open>
  C22. The Wilson interval is total on exactly the possible samples: for a positive
  number of trials and a number of successes between none and all of them it returns
  bounds inside the unit interval with the lower not above the upper, through every
  rounding of the computation and for any library power function whose value at a
  non-negative argument is not negative; for any other sample it raises a \<open>ValueError\<close>.
\<close>
theorem wilson_ci_bounds:
  assumes pow: "\<And>x. 0 \<le> x \<Longrightarrow> 0 \<le> m_pow lm x (1 / 2)"
  shows "if 0 < n \<and> 0 \<le> s \<and> s \<le> n
    then \<exists>low high. wilson_ci lm s n = Inr (low, high) \<and> 0 \<le> low \<and> low \<le> high \<and> high \<le> 1
    else wilson_ci lm s n = Inl ValueError"
proof (cases "0 < n \<and> 0 \<le> s \<and> s \<le> n")
  case False
  then show ?thesis by (auto simp: wilson_ci_def)
next
  case True
  then show ?thesis using wilson_ci_ok [OF pow] by simp
qed

text \<open>A library for the witnesses: its square is correctly rounded, the rest is arbitrary.\<close>

definition sample_libm :: libm where
  "sample_libm = \<lparr>m_pow = (\<lambda>x y. if y = 2 then dbl (x * x) else \<bar>x\<bar>), m_sqrt = (\<lambda>x. x),
     m_log = (\<lambda>x. x - 1), m_erf = (\<lambda>x. 0)\<rparr>"

theorem wilson_ci_bounds_witness:
  "(\<forall>x. (0::rat) \<le> m_pow sample_libm x (1 / 2))
   \<and> (\<exists>low high. wilson_ci sample_libm 7 10 = Inr (low, high) \<and> 0 \<le> low \<and> low \<le> high \<and> high \<le> 1)
   \<and> wilson_ci sample_libm 11 10 = Inl ValueError"
  using wilson_ci_bounds [of sample_libm 10 7] wilson_ci_bounds [of sample_libm 10 11]
  by (simp add: sample_libm_def)

section \<open>Interpolation\<close>

lemma is_double_cases:
  assumes "is_double r" "0 \<le> r"
  obtains (int) m where "r = of_int m"
  | (small) n k where "r = of_int n / 2 ^ Suc k" "0 \<le> n" "n \<le> 2 ^ 53"
proof -
  from assms(1) obtain n e where ne: "\<bar>n\<bar> \<le> 2 ^ 53" "r = of_int n * 2 powi e"
    by (auto simp: representable_def)
  have "(0::rat) < 2 powi e" by (simp add: zero_less_power_int)
  then have n0: "0 \<le> n" using assms(2) mult_neg_pos [of "rat_of_int n" "2 powi e"] ne(2)
    by (meson leI le_less_trans less_irrefl of_int_less_0_iff)
  show thesis
  proof (cases "0 \<le> e")
    case True
    then have "r = of_int (n * 2 ^ nat e)" using ne(2) by (simp add: power_int_def)
    then show thesis by (rule int)
  next
    case False
    define k where "k = nat (- e) - 1"
    have k: "nat (- e) = Suc k" using False by (simp add: k_def)
    have "(2::rat) powi e = inverse 2 ^ nat (- e)" using False by (simp only: power_int_def if_False)
    also have "\<dots> = inverse (2 ^ Suc k)" unfolding k by (rule power_inverse)
    finally have "r = of_int n / 2 ^ Suc k" unfolding ne(2) divide_inverse by (rule arg_cong)
    moreover have "n \<le> 2 ^ 53" using ne(1) by linarith
    ultimately show thesis using n0 by (intro small)
  qed
qed

lemma is_double_floor:
  assumes "is_double r" "0 \<le> r"
  shows "is_double (of_int \<lfloor>r\<rfloor>)"
  using assms
proof (cases rule: is_double_cases)
  case (int m)
  then show ?thesis using assms by simp
next
  case (small n k)
  have "(1::rat) \<le> 2 ^ Suc k" by (rule one_le_power) simp
  then have "r \<le> of_int n / 1" unfolding small(1) using small(2) by (intro divide_left_mono) auto
  then have "r \<le> of_int n" by simp
  then have "\<lfloor>r\<rfloor> \<le> n" by linarith
  then have "\<lfloor>r\<rfloor> \<le> 2 ^ 53" using small(3) by (rule order_trans)
  moreover have "0 \<le> \<lfloor>r\<rfloor>" using assms(2) by simp
  ultimately show ?thesis by (intro is_double_int) (simp only: abs_of_nonneg)
qed

text \<open>Above one, the fractional part of a double stays one unit of roundoff below one.\<close>

lemma double_frac_le:
  assumes "is_double r" "1 \<le> r"
  shows "r - of_int \<lfloor>r\<rfloor> \<le> 1 - 1 / 2 ^ 52"
proof -
  have r0: "0 \<le> r" using assms(2) by simp
  from assms(1) r0 show ?thesis
  proof (cases rule: is_double_cases)
    case (int m)
    then show ?thesis by simp
  next
    case (small n k)
    show ?thesis
    proof (cases "k < 52")
      case True
      define j where "j = n * 2 ^ (51 - k) - \<lfloor>r\<rfloor> * 2 ^ 52"
      have e: "(2::rat) ^ 52 = 2 ^ Suc k * 2 ^ (51 - k)" using True by (simp only: power_add [symmetric]) simp
      have j: "of_int j = (r - of_int \<lfloor>r\<rfloor>) * 2 ^ 52"
      proof -
        have "r * 2 ^ 52 = of_int n * 2 ^ (51 - k)" unfolding small(1) e by simp
        then show ?thesis unfolding j_def by (simp add: left_diff_distrib)
      qed
      have "r - of_int \<lfloor>r\<rfloor> < 1" by linarith
      then have "rat_of_int j < of_int (2 ^ 52)" unfolding j by simp
      then have "j \<le> 2 ^ 52 - 1" by (simp only: of_int_less_iff)
      then have "rat_of_int j \<le> of_int (2 ^ 52 - 1)" by (simp only: of_int_le_iff)
      then show ?thesis unfolding j by simp
    next
      case False
      then have "(2::rat) ^ 53 \<le> 2 ^ Suc k" by (intro power_increasing) auto
      moreover have "rat_of_int n \<le> of_int (2 ^ 53)" using small(3) by (simp only: of_int_le_iff)
      ultimately have "rat_of_int n \<le> 2 ^ Suc k" by simp
      then have "r \<le> 1" using small(1) by (simp add: divide_le_eq)
      with assms(2) have "r = 1" by simp
      then show ?thesis by simp
    qed
  qed
qed

definition interpolate :: "rat \<Rightarrow> rat \<Rightarrow> rat \<Rightarrow> rat" where
  "interpolate x y f = fadd x (fmul f (fsub y x))"

lemma interpolate_mono: "x \<le> y \<Longrightarrow> f \<le> g \<Longrightarrow> interpolate x y f \<le> interpolate x y g"
  unfolding interpolate_def fadd_def fmul_def fsub_def
  by (intro dbl.rnd_mono add_left_mono mult_right_mono dbl.rnd_nonneg) auto

lemma interpolate_between:
  assumes xy: "x \<le> y" "is_double x" "is_double y" and f: "0 \<le> f" "f \<le> 1 - 1 / 2 ^ 52"
  shows "x \<le> interpolate x y f" "interpolate x y f \<le> y"
proof -
  let ?u = "1 / 2 ^ 53 :: rat" and ?d = "y - x"
  have up: "dbl z \<le> z * (1 + ?u)" if "0 \<le> z" for z
  proof -
    have "(2::rat) powi (1 - 53) / 2 = ?u" by (simp add: power_int_def power_divide)
    then have "dbl z - z \<le> z * ?u" using dbl.rnd_error [of z] that by (simp only: abs_of_nonneg)
    then show ?thesis by (simp only: distrib_left mult_1_right)
  qed
  have d: "0 \<le> ?d" "0 \<le> dbl ?d" using xy(1) by (simp_all add: dbl.rnd_nonneg)
  have m0: "0 \<le> fmul f (fsub y x)"
    unfolding fmul_def fsub_def using d f(1) by (intro dbl.rnd_nonneg mult_nonneg_nonneg)
  have "f * dbl ?d \<le> (1 - 1 / 2 ^ 52) * (?d * (1 + ?u))"
    using up [OF d(1)] f d(2) by (intro mult_mono) auto
  moreover have "dbl (f * dbl ?d) \<le> (f * dbl ?d) * (1 + ?u)"
    using f d by (intro up mult_nonneg_nonneg)
  ultimately have "dbl (f * dbl ?d) \<le> ((1 - 1 / 2 ^ 52) * (?d * (1 + ?u))) * (1 + ?u)"
    by (elim order_trans) (rule mult_right_mono, assumption, simp)
  also have "\<dots> = ?d * ((1 - 1 / 2 ^ 52) * (1 + ?u) * (1 + ?u))" by (simp add: mult_ac)
  also have "\<dots> \<le> ?d * 1" using d(1) by (intro mult_left_mono) auto
  finally have "x + fmul f (fsub y x) \<le> y" by (simp add: fmul_def fsub_def)
  then show "interpolate x y f \<le> y" unfolding interpolate_def fadd_def using xy(3) by (rule dbl_le)
  show "x \<le> interpolate x y f" unfolding interpolate_def fadd_def using m0 xy(2) by (intro dbl_ge) auto
qed

section \<open>Percentiles are ordered\<close>

text \<open>The quantile in terms of its rank, for the fractions the code asks for.\<close>

definition quantile_rank :: "nat \<Rightarrow> rat \<Rightarrow> rat" where
  "quantile_rank n q = fmul q (fint (int (n - 1)))"

lemma quantile_rank_mono: "q \<le> q' \<Longrightarrow> quantile_rank n q \<le> quantile_rank n q'"
  unfolding quantile_rank_def fmul_def fint_def
  by (intro dbl.rnd_mono mult_right_mono dbl.rnd_nonneg) auto

lemma quantile_rank_nonneg: "0 \<le> q \<Longrightarrow> 0 \<le> quantile_rank n q"
  unfolding quantile_rank_def fmul_def fint_def
  by (intro dbl.rnd_nonneg mult_nonneg_nonneg) auto

definition good_fraction :: "rat \<Rightarrow> bool" where
  "good_fraction q \<longleftrightarrow> is_double q \<and> 1 / 2 \<le> q \<and> q \<le> 1 - 1 / 2 ^ 52"

lemma quantile_rank_frac:
  assumes q: "good_fraction q" and n: "2 \<le> n"
  shows "0 \<le> fsub (quantile_rank n q) (fint \<lfloor>quantile_rank n q\<rfloor>)
    \<and> fsub (quantile_rank n q) (fint \<lfloor>quantile_rank n q\<rfloor>) \<le> 1 - 1 / 2 ^ 52"
proof -
  let ?r = "quantile_rank n q"
  have r: "is_double ?r" "0 \<le> ?r"
    using q quantile_rank_nonneg [of q n] by (auto simp: good_fraction_def) (simp add: quantile_rank_def fmul_def)
  have f: "fint \<lfloor>?r\<rfloor> = of_int \<lfloor>?r\<rfloor>"
    unfolding fint_def by (rule dbl_double [OF is_double_floor [OF r]])
  have hi: "?r - of_int \<lfloor>?r\<rfloor> \<le> 1 - 1 / 2 ^ 52"
  proof (cases "1 \<le> ?r")
    case True
    then show ?thesis by (rule double_frac_le [OF r(1)])
  next
    case False
    have "n - 1 = 1"
    proof (rule ccontr)
      assume "n - 1 \<noteq> 1"
      with n have "2 \<le> int (n - 1)" by linarith
      then have "(2::rat) \<le> of_int (int (n - 1))" by linarith
      moreover have "is_double 2" using is_double_int [of 2] by simp
      ultimately have "2 \<le> fint (int (n - 1))" unfolding fint_def by (rule dbl_ge)
      then have "1 / 2 * 2 \<le> q * fint (int (n - 1))"
        using q unfolding good_fraction_def by (intro mult_mono) auto
      then have "1 \<le> ?r" unfolding quantile_rank_def fmul_def using is_double_int [of 1] by (intro dbl_ge) auto
      with False show False by simp
    qed
    then have "?r = q" using q by (simp add: quantile_rank_def fmul_def fint_def dbl_double good_fraction_def)
    moreover have "\<lfloor>?r\<rfloor> = 0" using False r(2) by linarith
    ultimately show ?thesis using q by (simp add: good_fraction_def)
  qed
  have "is_double (of_int (2 ^ 52 - 1) / 2 ^ 52)" by (rule is_double_scaled) simp
  then have "is_double (1 - 1 / 2 ^ 52)" by (simp add: diff_divide_distrib)
  then have "dbl (?r - of_int \<lfloor>?r\<rfloor>) \<le> 1 - 1 / 2 ^ 52" by (rule dbl_le [OF hi])
  moreover have "0 \<le> dbl (?r - of_int \<lfloor>?r\<rfloor>)" by (rule dbl.rnd_nonneg) linarith
  ultimately show ?thesis by (simp add: fsub_def f)
qed

lemma quantile_cases:
  assumes q: "good_fraction q" and xs: "2 \<le> length xs" "sorted xs" "\<forall>x\<in>set xs. is_double x"
  obtains (last) "quantile xs q = xs ! (length xs - 1)" "length xs - 1 \<le> nat \<lfloor>quantile_rank (length xs) q\<rfloor>"
  | (inner) i f where "i = nat \<lfloor>quantile_rank (length xs) q\<rfloor>" "i + 1 < length xs"
      "f = fsub (quantile_rank (length xs) q) (fint \<lfloor>quantile_rank (length xs) q\<rfloor>)"
      "quantile xs q = interpolate (xs ! i) (xs ! (i + 1)) f"
      "xs ! i \<le> quantile xs q" "quantile xs q \<le> xs ! (i + 1)"
proof (cases "length xs - 1 \<le> nat \<lfloor>quantile_rank (length xs) q\<rfloor>")
  case True
  then have "quantile xs q = xs ! (length xs - 1)"
    using xs(1) last_conv_nth [of xs]
    unfolding quantile_def quantile_rank_def [symmetric] Let_def by (cases xs) auto
  then show thesis using True by (rule last)
next
  case False
  let ?r = "quantile_rank (length xs) q"
  let ?i = "nat \<lfloor>?r\<rfloor>" and ?f = "fsub ?r (fint \<lfloor>?r\<rfloor>)"
  have r0: "0 \<le> ?r" using q by (intro quantile_rank_nonneg) (simp add: good_fraction_def)
  then have i: "int ?i = \<lfloor>?r\<rfloor>" by simp
  have lt: "?i + 1 < length xs" using False by linarith
  have e: "quantile xs q = interpolate (xs ! ?i) (xs ! (?i + 1)) ?f"
    using False xs(1) unfolding quantile_def quantile_rank_def [symmetric] interpolate_def Let_def i by simp
  have f: "0 \<le> ?f" "?f \<le> 1 - 1 / 2 ^ 52" using quantile_rank_frac [OF q xs(1)] by auto
  have "xs ! ?i \<le> xs ! (?i + 1)" using xs(2) lt by (intro sorted_nth_mono) auto
  then have "xs ! ?i \<le> quantile xs q" "quantile xs q \<le> xs ! (?i + 1)"
    unfolding e using lt xs(3) f by (auto intro!: interpolate_between)
  then show thesis using lt e by (intro inner) auto
qed

lemma quantile_mono:
  assumes q: "good_fraction q" "good_fraction q'" "q \<le> q'"
    and xs: "2 \<le> length xs" "sorted xs" "\<forall>x\<in>set xs. is_double x"
  shows "quantile xs q \<le> quantile xs q'"
proof -
  let ?r = "quantile_rank (length xs) q" and ?r' = "quantile_rank (length xs) q'"
  have rr: "?r \<le> ?r'" using q(3) by (rule quantile_rank_mono)
  then have ii: "nat \<lfloor>?r\<rfloor> \<le> nat \<lfloor>?r'\<rfloor>" by (intro nat_mono floor_mono)
  show ?thesis
  proof (cases rule: quantile_cases [OF q(1) xs, case_names last inner])
    case last
    then have "length xs - 1 \<le> nat \<lfloor>?r'\<rfloor>" using ii by simp
    with last show ?thesis by (cases rule: quantile_cases [OF q(2) xs]) auto
  next
    case a: (inner i f)
    show ?thesis
    proof (cases rule: quantile_cases [OF q(2) xs, case_names last inner])
      case last
      have "xs ! (i + 1) \<le> xs ! (length xs - 1)" using a(2) xs(2) by (intro sorted_nth_mono) auto
      with a(6) last(1) show ?thesis by simp
    next
      case b: (inner j g)
      show ?thesis
      proof (cases "i = j")
        case True
        have "0 \<le> ?r" "0 \<le> ?r'" using q by (auto simp: good_fraction_def intro: quantile_rank_nonneg)
        then have "0 \<le> \<lfloor>?r\<rfloor>" "0 \<le> \<lfloor>?r'\<rfloor>" by simp_all
        then have fl: "\<lfloor>?r\<rfloor> = \<lfloor>?r'\<rfloor>" using True a(1) b(1) by (metis eq_nat_nat_iff)
        have "f \<le> g" unfolding a(3) b(3) fl fsub_def using rr by (intro dbl.rnd_mono) auto
        moreover have "xs ! i \<le> xs ! (i + 1)" using a(2) xs(2) by (intro sorted_nth_mono) auto
        ultimately show ?thesis unfolding a(4) b(4) True [symmetric] by (rule interpolate_mono [rotated])
      next
        case False
        then have "i + 1 \<le> j" using ii a(1) b(1) by simp
        then have "xs ! (i + 1) \<le> xs ! j" using b(2) xs(2) by (intro sorted_nth_mono) auto
        with a(6) b(5) show ?thesis by simp
      qed
    qed
  qed
qed

lemma quantile_in_range:
  assumes q: "good_fraction q" and xs: "sorted xs" "\<forall>x\<in>set xs. is_double x" "xs \<noteq> []"
  shows "Min (set xs) \<le> quantile xs q" "quantile xs q \<le> Max (set xs)"
proof -
  have "\<exists>x \<in> set xs. x \<le> quantile xs q" "\<exists>x \<in> set xs. quantile xs q \<le> x"
  proof (atomize (full), cases "2 \<le> length xs")
    case True
    show "(\<exists>x \<in> set xs. x \<le> quantile xs q) \<and> (\<exists>x \<in> set xs. quantile xs q \<le> x)"
      using True by (cases rule: quantile_cases [OF q True xs(1,2)]) (auto intro!: bexI [OF _ nth_mem])
  next
    case False
    with xs(3) have "length xs = 1" using length_0_conv [of xs] by linarith
    then show "(\<exists>x \<in> set xs. x \<le> quantile xs q) \<and> (\<exists>x \<in> set xs. quantile xs q \<le> x)"
      by (auto simp: quantile_def)
  qed
  then show "Min (set xs) \<le> quantile xs q" "quantile xs q \<le> Max (set xs)"
    using xs(3) by (auto simp: Min_le_iff Max_ge_iff)
qed

lemma good_fractions:
  "good_fraction (dbl (1 / 2))" "good_fraction (dbl (95 / 100))" "good_fraction (dbl (99 / 100))"
  "dbl (1 / 2) \<le> dbl (95 / 100)" "dbl (95 / 100) \<le> dbl (99 / 100)"
proof -
  have half: "dbl (1 / 2) = 1 / 2" using is_double_scaled [of 1 1] by (simp add: dbl_double)
  show le: "dbl (1 / 2) \<le> dbl (95 / 100)" "dbl (95 / 100) \<le> dbl (99 / 100)"
    by (intro dbl.rnd_mono; simp)+
  have "is_double (of_int (2 ^ 52 - 1) / 2 ^ 52)" by (rule is_double_scaled) simp
  then have "dbl (99 / 100) \<le> of_int (2 ^ 52 - 1) / 2 ^ 52" by (intro dbl_le) simp_all
  then have hi: "dbl (99 / 100) \<le> 1 - 1 / 2 ^ 52" by simp
  show "good_fraction (dbl (1 / 2))" "good_fraction (dbl (95 / 100))" "good_fraction (dbl (99 / 100))"
    using le hi half unfolding good_fraction_def by auto
qed

text \<open>
  C2. The percentiles of any non-empty list of latencies exist, come out ordered with the
  median not above the 95th and the 95th not above the 99th percentile, and lie between
  the smallest and the largest sample, in double arithmetic; every arrangement of the
  same samples gives the same three values. No sample at all is a \<open>ValueError\<close>.
\<close>
theorem percentiles_ordered:
  assumes "\<And>x. x \<in> set samples \<Longrightarrow> is_double x"
  shows "if samples = [] then percentiles samples = Inl ValueError
    else \<exists>p. percentiles samples = Inr p
      \<and> Min (set samples) \<le> p50 p \<and> p50 p \<le> p95 p \<and> p95 p \<le> p99 p \<and> p99 p \<le> Max (set samples)
      \<and> (\<forall>other. mset other = mset samples \<longrightarrow> percentiles other = Inr p)"
proof (cases "samples = []")
  case True
  then show ?thesis by (simp add: percentiles_def)
next
  case False
  define xs where "xs = sort samples"
  define p where "p = \<lparr>p50 = quantile xs (dbl (1 / 2)), p95 = quantile xs (dbl (95 / 100)),
    p99 = quantile xs (dbl (99 / 100))\<rparr>"
  have xs: "sorted xs" "\<forall>x\<in>set xs. is_double x" "xs \<noteq> []" "set xs = set samples"
    using assms False by (auto simp: xs_def dest: arg_cong [of _ _ set])
  have "percentiles samples = Inr p" using False by (simp add: percentiles_def p_def xs_def Let_def)
  moreover have "percentiles other = Inr p" if "mset other = mset samples" for other
  proof -
    have "sort other = xs" unfolding xs_def using that by (intro properties_for_sort) auto
    moreover have "other \<noteq> []" using that False by auto
    ultimately show ?thesis by (simp add: percentiles_def p_def Let_def)
  qed
  moreover have "Min (set samples) \<le> p50 p \<and> p99 p \<le> Max (set samples)"
    using quantile_in_range [OF good_fractions(1) xs(1-3)] quantile_in_range [OF good_fractions(3) xs(1-3)]
    by (simp add: p_def xs(4))
  moreover have "p50 p \<le> p95 p \<and> p95 p \<le> p99 p"
  proof (cases "2 \<le> length xs")
    case True
    then show ?thesis using quantile_mono [OF good_fractions(1,2,4) True xs(1,2)]
        quantile_mono [OF good_fractions(2,3,5) True xs(1,2)] by (simp add: p_def)
  next
    case False
    with xs(3) have "length xs = 1" using length_0_conv [of xs] by linarith
    then show ?thesis by (simp add: p_def quantile_def)
  qed
  ultimately show ?thesis using False by auto
qed

theorem percentiles_ordered_witness:
  "list_all (\<lambda>x. is_double x) [300, 100, 200] \<and> (\<exists>p. percentiles [300, 100, 200] = Inr p
     \<and> Min {300, 100, 200} \<le> p50 p \<and> p50 p \<le> p95 p \<and> p95 p \<le> p99 p \<and> p99 p \<le> Max {300, 100, 200})"
proof -
  have d: "is_double x" if "x \<in> set [300, 100, 200]" for x
    using that is_double_int [of 300] is_double_int [of 100] is_double_int [of 200] by auto
  then show ?thesis using percentiles_ordered [of "[300, 100, 200]"] by auto
qed

section \<open>Verdicts\<close>

lemma z_quantile_errors: "z_quantile lm p = Inl e \<Longrightarrow> e \<in> {ValueError, ZeroDivisionError}"
  by (auto simp: z_quantile_def fsqrt_def fdivide_def Let_def res_bind_eq_Inl split: if_splits)

lemma required_sample_size_errors:
  "required_sample_size lm r m a w = Inl e \<Longrightarrow> e \<in> {ValueError, ZeroDivisionError}"
  by (auto simp: required_sample_size_def fdivide_def Let_def res_bind_eq_Inl
      dest!: z_quantile_errors split: if_splits)

lemma non_inferiority_decided:
  assumes "non_inferiority lm cs cn ics icn margin alpha = Inr v" "ni_decided v"
  shows "0 < cn" "0 < icn" "ni_n_per_arm v = min cn icn"
    "ni_incumbent_rate v = dbl (of_int ics / of_int icn)"
    "\<exists>req. required_sample_size lm (dbl (of_int ics / of_int icn)) margin alpha default_power = Inr req
       \<and> req \<le> min cn icn"
    "ni_non_inferior v = Some (ni_p_value v < alpha)"
  using assms
  by (auto simp: non_inferiority_def ni_undecided_def Let_def not_less not_le split: if_splits)

text \<open>
  A non-inferiority test that returns keeps its two flags together: there is a
  verdict on inferiority exactly when the test is decided. It is decided only with both
  arms non-empty, a standard error that is not zero and at least the number of units per
  arm that the sample-size formula asks for at the same margin and level, and then it
  reports non-inferior exactly when the p-value is below the level.
\<close>
theorem non_inferiority_powered:
  "case non_inferiority lm cs cn ics icn margin alpha of
     Inl e \<Rightarrow> 0 < cn \<and> 0 < icn \<and> e \<in> {ValueError, ZeroDivisionError}
   | Inr v \<Rightarrow>
       if ni_decided v
       then 0 < cn \<and> 0 < icn \<and> ni_n_per_arm v = min cn icn
         \<and> (\<exists>req. required_sample_size lm (ni_incumbent_rate v) margin alpha default_power = Inr req
             \<and> req \<le> ni_n_per_arm v)
         \<and> ni_non_inferior v = Some (ni_p_value v < alpha)
       else ni_non_inferior v = None"
proof (cases "non_inferiority lm cs cn ics icn margin alpha")
  case (Inl e)
  then show ?thesis
    by (auto simp: non_inferiority_def Let_def res_bind_eq_Inl fsqrt_def not_le
        dest!: required_sample_size_errors split: if_splits)
next
  case (Inr v)
  show ?thesis
  proof (cases "ni_decided v")
    case True
    show ?thesis using Inr True non_inferiority_decided [OF Inr True] by auto
  next
    case False
    with Inr show ?thesis
      by (auto simp: non_inferiority_def ni_undecided_def Let_def split: if_splits)
  qed
qed

end
