(* ===== verification/Eval_Search.thy ===== *)
theory Eval_Search
  imports Eval_Stats
begin

text \<open>
  Successive halving and the cost gate of the model evaluation (\<open>eval/search.py\<close>,
  \<open>eval/costgate.py\<close>). The provider's tokenizer is an argument: two functions of the
  model name and the text. Amounts are decimals, scores are doubles.

  Shown: the smoke stage keeps the best three candidates that are not more than a
  quarter below the incumbent; a winner meets the incumbent's parity with a disjoint
  interval and no qualifying candidate is cheaper; a non-empty frontier has an undominated
  point; an estimate is a non-negative amount in cents. The decisions of the two-phase cost
  gate are modelled as functions; no part of the program composes them into a sequence
  (the service builds its own first-phase approval, see \<open>Eval_Service\<close>).
\<close>

section \<open>Search\<close>

abbreviation smoke_min :: int where "smoke_min \<equiv> 30"
abbreviation smoke_max :: int where "smoke_max \<equiv> 50"
abbreviation confirm_min :: int where "confirm_min \<equiv> 200"
abbreviation confirm_max :: int where "confirm_max \<equiv> 500"
abbreviation max_smoke_survivors :: nat where "max_smoke_survivors \<equiv> 3"

record candidate_score =
  cs_model :: string
  cs_passes :: int
  cs_n :: int
  cs_cost_usd :: rat
  cs_latency_ms_p50 :: rat

definition cs_parity :: "candidate_score \<Rightarrow> rat" where
  "cs_parity c = (if cs_n c \<noteq> 0 then dbl (of_int (cs_passes c) / of_int (cs_n c)) else 0)"

record pareto_point =
  pp_model :: string
  pp_quality :: rat
  pp_cost_usd :: rat
  pp_latency_ms_p50 :: rat
  pp_dominated :: bool

definition smoke_keeps :: "candidate_score \<Rightarrow> candidate_score \<Rightarrow> bool" where
  "smoke_keeps incumbent c \<longleftrightarrow>
     \<not> underperforms_by (cs_parity c) (cs_parity incumbent) (dbl (1 / 4))"

definition smoke_key :: "candidate_score \<Rightarrow> rat \<times> rat \<times> string" where
  "smoke_key c = (- cs_parity c, cs_cost_usd c, cs_model c)"

definition smoke_eval :: "candidate_score \<Rightarrow> candidate_score list \<Rightarrow> candidate_score list res" where
  "smoke_eval incumbent candidates =
     (if list_all (\<lambda>s. smoke_min \<le> cs_n s \<and> cs_n s \<le> smoke_max) (incumbent # candidates)
      then Inr (take max_smoke_survivors (sort_key smoke_key (filter (smoke_keeps incumbent) candidates)))
      else Inl ValueError)"

definition confirmation_eval ::
  "candidate_score \<Rightarrow> candidate_score list \<Rightarrow> candidate_score list res" where
  "confirmation_eval incumbent survivors =
     (if list_all (\<lambda>s. confirm_min \<le> cs_n s \<and> cs_n s \<le> confirm_max) (incumbent # survivors)
      then Inr survivors else Inl ValueError)"

text \<open>The comprehension evaluates a candidate's interval only when its parity is enough.\<close>

definition qualifies ::
  "libm \<Rightarrow> candidate_score \<Rightarrow> interval \<Rightarrow> candidate_score \<Rightarrow> bool res" where
  "qualifies lm incumbent incumbent_ci c =
     (if cs_parity incumbent \<le> cs_parity c
      then res_bind (wilson_ci lm (cs_passes c) (cs_n c)) (\<lambda>ci. Inr (ci_separated ci incumbent_ci))
      else Inr False)"

fun res_filter :: "('a \<Rightarrow> bool res) \<Rightarrow> 'a list \<Rightarrow> 'a list res" where
  "res_filter P [] = Inr []"
| "res_filter P (x # xs) =
     res_bind (P x) (\<lambda>b. res_bind (res_filter P xs) (\<lambda>ys. Inr (if b then x # ys else ys)))"

definition winner_key :: "candidate_score \<Rightarrow> rat \<times> string" where
  "winner_key c = (cs_cost_usd c, cs_model c)"

definition pick_winner ::
  "libm \<Rightarrow> candidate_score \<Rightarrow> candidate_score list \<Rightarrow> candidate_score option res" where
  "pick_winner lm incumbent confirmed =
     res_bind (wilson_ci lm (cs_passes incumbent) (cs_n incumbent)) (\<lambda>incumbent_ci.
     res_bind (res_filter (qualifies lm incumbent incumbent_ci) confirmed) (\<lambda>qualifying.
       Inr (case qualifying of [] \<Rightarrow> None | c # cs \<Rightarrow> Some (first_min winner_key c cs))))"

definition dominates :: "candidate_score \<Rightarrow> candidate_score \<Rightarrow> bool" where
  "dominates a b \<longleftrightarrow>
     (cs_parity b \<le> cs_parity a \<and> cs_cost_usd a \<le> cs_cost_usd b
        \<and> cs_latency_ms_p50 a \<le> cs_latency_ms_p50 b)
     \<and> (cs_parity b < cs_parity a \<or> cs_cost_usd a < cs_cost_usd b
        \<or> cs_latency_ms_p50 a < cs_latency_ms_p50 b)"

text \<open>
  The loop skips the object itself; the position in the list stands for the object's
  identity.
\<close>

definition pareto_frontier :: "candidate_score list \<Rightarrow> pareto_point list" where
  "pareto_frontier scores =
     map (\<lambda>i. let c = scores ! i in
            \<lparr>pp_model = cs_model c, pp_quality = cs_parity c, pp_cost_usd = cs_cost_usd c,
             pp_latency_ms_p50 = cs_latency_ms_p50 c,
             pp_dominated = list_ex (\<lambda>j. j \<noteq> i \<and> dominates (scores ! j) c) [0..<length scores]\<rparr>)
       [0..<length scores]"

definition fully_loaded_oss_cost :: "rat \<Rightarrow> int \<Rightarrow> rat" where
  "fully_loaded_oss_cost monthly_infra_usd monthly_calls =
     (if monthly_calls \<le> 0 then monthly_infra_usd else fdiv monthly_infra_usd (fint monthly_calls))"

section \<open>Cost gate\<close>

datatype cost_gate_phase = Smoke | Confirmation

record cost_estimate =
  est_phase :: cost_gate_phase
  est_provider :: string
  est_model :: string
  est_estimated_usd :: rat
  est_n_cases :: int

record provider_tokenizer =
  count_input_tokens :: "string \<Rightarrow> string \<Rightarrow> int"
  sample_output_tokens :: "string \<Rightarrow> string \<Rightarrow> int"

record phase1_approval =
  p1_estimate :: cost_estimate
  p1_approved :: bool
  p1_auto_approved :: bool

record phase2_approval =
  p2_estimate :: cost_estimate
  p2_approved :: bool

definition default_sample_fraction :: rat where "default_sample_fraction = lit 5 2"

text \<open>
  The cases sampled are the first ones; asking for more than there are is an
  \<open>IndexError\<close>. \<open>round\<close> is to the nearest integer, ties to even.
\<close>

definition sampled_output_tokens ::
  "provider_tokenizer \<Rightarrow> string \<Rightarrow> string list \<Rightarrow> rat \<Rightarrow> int res" where
  "sampled_output_tokens provider model cases sample_fraction =
     (let n = int (length cases);
          sample_size = max 1 \<lceil>fmul (fint n) sample_fraction\<rceil>
      in if n < sample_size then Inl IndexError
         else
           (let sampled = sum_list (map (sample_output_tokens provider model) (take (nat sample_size) cases));
                per_case = dbl (of_int sampled / of_int sample_size)
            in Inr (half_even (fmul per_case (fint n)))))"

definition estimate ::
  "provider_tokenizer \<Rightarrow> string \<Rightarrow> string list \<Rightarrow> rat \<Rightarrow> rat \<Rightarrow> rat \<Rightarrow> cost_gate_phase
   \<Rightarrow> int option \<Rightarrow> string \<Rightarrow> cost_estimate res" where
  "estimate provider model cases input_price output_price sample_fraction phase measured provider_name =
     (let n = int (length cases);
          input_tokens = sum_list (map (count_input_tokens provider model) cases)
      in res_bind
           (case measured of
              Some m \<Rightarrow> Inr (m * n)
            | None \<Rightarrow> if n = 0 then Inr 0 else sampled_output_tokens provider model cases sample_fraction)
           (\<lambda>output_tokens.
             let input_cost = dmul (ddiv (of_int input_tokens) 1000) input_price;
                 output_cost = dmul (ddiv (of_int output_tokens) 1000) output_price
             in res_bind (quantize 2 (dadd input_cost output_cost)) (\<lambda>amount.
                  Inr \<lparr>est_phase = phase, est_provider = provider_name, est_model = model,
                       est_estimated_usd = amount, est_n_cases = n\<rparr>)))"

definition estimate_smoke_cost ::
  "provider_tokenizer \<Rightarrow> string \<Rightarrow> string list \<Rightarrow> rat \<Rightarrow> rat \<Rightarrow> rat \<Rightarrow> string \<Rightarrow> cost_estimate res" where
  "estimate_smoke_cost provider model cases input_price output_price sample_fraction provider_name =
     estimate provider model cases input_price output_price sample_fraction Smoke None provider_name"

definition make_phase1_approval ::
  "cost_estimate \<Rightarrow> rat \<Rightarrow> rat \<Rightarrow> bool \<Rightarrow> phase1_approval res" where
  "make_phase1_approval est budget_usd auto_approve_ceiling_usd manual_approved =
     (if budget_usd < est_estimated_usd est then Inl BudgetExceededError
      else
        (let aa = est_estimated_usd est \<le> auto_approve_ceiling_usd
         in Inr \<lparr>p1_estimate = est, p1_approved = aa \<or> manual_approved, p1_auto_approved = aa\<rparr>))"

definition estimate_full_run_cost ::
  "phase1_approval \<Rightarrow> provider_tokenizer \<Rightarrow> string \<Rightarrow> string list \<Rightarrow> rat \<Rightarrow> rat \<Rightarrow> rat
   \<Rightarrow> int option \<Rightarrow> string \<Rightarrow> cost_estimate res" where
  "estimate_full_run_cost phase1 provider model cases input_price output_price sample_fraction measured provider_name =
     (if \<not> p1_approved phase1 then Inl GateNotApprovedError
      else estimate provider model cases input_price output_price sample_fraction Confirmation measured provider_name)"

definition make_phase2_approval ::
  "phase1_approval \<Rightarrow> cost_estimate \<Rightarrow> rat \<Rightarrow> bool \<Rightarrow> phase2_approval res" where
  "make_phase2_approval phase1 full_run_estimate budget_usd manual_approved =
     (if \<not> p1_approved phase1 then Inl GateNotApprovedError
      else if budget_usd < est_estimated_usd full_run_estimate then Inl BudgetExceededError
      else Inr \<lparr>p2_estimate = full_run_estimate, p2_approved = manual_approved\<rparr>)"

text \<open>The environment is an argument; a missing variable raises.\<close>

record provider_key_ref =
  pk_provider :: string
  pk_secret_ref :: string

definition resolve_provider_key :: "(string \<Rightarrow> string option) \<Rightarrow> provider_key_ref \<Rightarrow> string res" where
  "resolve_provider_key environ ref =
     (case environ (pk_secret_ref ref) of None \<Rightarrow> Inl KeyError | Some s \<Rightarrow> Inr s)"

section \<open>The smoke stage\<close>

lemma smoke_eval_Inr:
  "smoke_eval incumbent candidates = Inr survivors \<longleftrightarrow>
     list_all (\<lambda>s. smoke_min \<le> cs_n s \<and> cs_n s \<le> smoke_max) (incumbent # candidates)
     \<and> survivors = take 3 (sort_key smoke_key (filter (smoke_keeps incumbent) candidates))"
  by (auto simp: smoke_eval_def)

text \<open>In a list sorted by a key, nothing left out by a prefix has a smaller key.\<close>

lemma take_sort_key_le:
  assumes "x \<in> set (take k (sort_key f xs))" "y \<in> set xs" "y \<notin> set (take k (sort_key f xs))"
  shows "f x \<le> f y"
proof -
  let ?s = "sort_key f xs"
  have "y \<in> set (take k ?s @ drop k ?s)" using assms(2) by simp
  then have "y \<in> set (drop k ?s)" using assms(3) by (simp del: append_take_drop_id)
  moreover have "sorted (map f (take k ?s @ drop k ?s))" by simp
  then have "\<forall>x\<in>set (take k ?s). \<forall>y\<in>set (drop k ?s). f x \<le> f y"
    by (simp add: sorted_append del: append_take_drop_id)
  ultimately show ?thesis using assms(1) by blast
qed

text \<open>
  The smoke stage runs exactly when the incumbent and all candidates were measured on
  30 to 50 cases, otherwise it raises. Its survivors are at most three candidates, each
  not more than a quarter below the incumbent; whenever fewer than three survive, every
  such candidate survives, and a candidate that was not eliminated but left out by the
  cap never has a better parity than a survivor.
\<close>
theorem smoke_eval_survivors:
  "case smoke_eval incumbent candidates of
     Inl e \<Rightarrow> e = ValueError
       \<and> list_ex (\<lambda>s. cs_n s < smoke_min \<or> smoke_max < cs_n s) (incumbent # candidates)
   | Inr survivors \<Rightarrow>
       list_all (\<lambda>s. smoke_min \<le> cs_n s \<and> cs_n s \<le> smoke_max) (incumbent # candidates)
       \<and> length survivors = min 3 (length (filter (smoke_keeps incumbent) candidates))
       \<and> set survivors \<subseteq> {c \<in> set candidates. smoke_keeps incumbent c}
       \<and> {(s, c). s \<in> set survivors \<and> c \<in> set candidates - set survivors
            \<and> smoke_keeps incumbent c \<and> cs_parity s < cs_parity c} = {}"
proof (cases "smoke_eval incumbent candidates")
  case (Inl e)
  then show ?thesis by (auto simp: smoke_eval_def list_all_iff list_ex_iff not_le split: if_splits)
next
  case (Inr survivors)
  let ?keep = "filter (smoke_keeps incumbent) candidates"
  from Inr have s: "list_all (\<lambda>s. smoke_min \<le> cs_n s \<and> cs_n s \<le> smoke_max) (incumbent # candidates)"
    "survivors = take 3 (sort_key smoke_key ?keep)" by (simp_all add: smoke_eval_Inr)
  have sub: "set survivors \<subseteq> {c \<in> set candidates. smoke_keeps incumbent c}"
    unfolding s(2) using set_take_subset [of 3 "sort_key smoke_key ?keep"] by auto
  have "cs_parity c \<le> cs_parity x"
    if "x \<in> set survivors" "c \<in> set candidates - set survivors" "smoke_keeps incumbent c" for x c
    using take_sort_key_le [of x 3 smoke_key ?keep c] that unfolding s(2)
    by (auto simp: smoke_key_def less_eq_prod_def)
  then have "{(x, c). x \<in> set survivors \<and> c \<in> set candidates - set survivors
      \<and> smoke_keeps incumbent c \<and> cs_parity x < cs_parity c} = {}" by (auto simp: not_less [symmetric])
  moreover have "length survivors = min 3 (length ?keep)" unfolding s(2) by simp
  ultimately show ?thesis using Inr s(1) sub by simp
qed

section \<open>The winner\<close>

lemma res_filter_Inr:
  "res_filter P xs = Inr ys \<Longrightarrow> set ys = {x \<in> set xs. P x = Inr True}"
  by (induction xs arbitrary: ys) (auto split: if_splits)

lemma res_filter_Inl: "res_filter P xs = Inl e \<Longrightarrow> \<exists>x \<in> set xs. P x = Inl e"
  by (induction xs) (auto simp: res_bind_eq_Inl)

lemma wilson_ci_error: "wilson_ci lm s n = Inl e \<Longrightarrow> e = ValueError"
  by (auto simp: wilson_ci_def Let_def split: if_splits)

text \<open>
  When the confirmation stage names a winner, it is one of the confirmed candidates,
  its parity is at least the incumbent's, its Wilson interval is strictly disjoint from
  the incumbent's, and no candidate that clears both gates is cheaper. When it names
  none, no confirmed candidate clears both gates.
\<close>
theorem pick_winner_correct:
  "case pick_winner lm incumbent confirmed of
     Inl e \<Rightarrow> e = ValueError
   | Inr w \<Rightarrow> \<exists>ici. wilson_ci lm (cs_passes incumbent) (cs_n incumbent) = Inr ici
       \<and> (case w of
            None \<Rightarrow> {c \<in> set confirmed. qualifies lm incumbent ici c = Inr True} = {}
          | Some c \<Rightarrow> c \<in> set confirmed \<and> cs_parity incumbent \<le> cs_parity c
              \<and> (\<exists>ci. wilson_ci lm (cs_passes c) (cs_n c) = Inr ci \<and> ci_separated ci ici)
              \<and> {d \<in> set confirmed. qualifies lm incumbent ici d = Inr True
                    \<and> cs_cost_usd d < cs_cost_usd c} = {})"
proof (cases "pick_winner lm incumbent confirmed")
  case (Inl e)
  then have "e = ValueError"
    by (auto simp: pick_winner_def qualifies_def res_bind_eq_Inl
        dest!: wilson_ci_error res_filter_Inl split: if_splits)
  with Inl show ?thesis by simp
next
  case (Inr w)
  then obtain ici qs where ici: "wilson_ci lm (cs_passes incumbent) (cs_n incumbent) = Inr ici"
    and qs: "res_filter (qualifies lm incumbent ici) confirmed = Inr qs"
    "w = (case qs of [] \<Rightarrow> None | c # cs \<Rightarrow> Some (first_min winner_key c cs))"
    by (auto simp: pick_winner_def)
  note q = res_filter_Inr [OF qs(1)]
  show ?thesis
  proof (cases qs)
    case Nil
    then show ?thesis using Inr ici qs q by simp
  next
    case (Cons x xs)
    let ?m = "first_min winner_key x xs"
    have w: "w = Some ?m" using qs(2) Cons by simp
    have "?m \<in> set qs" using first_min_in [of winner_key x xs] Cons by auto
    then have m: "?m \<in> set confirmed" "qualifies lm incumbent ici ?m = Inr True" using q by auto
    have "winner_key ?m \<le> winner_key d" if "d \<in> set qs" for d
      using first_min_le [of d x xs winner_key] that Cons by auto
    then have "cs_cost_usd ?m \<le> cs_cost_usd d" if "d \<in> set qs" for d
      using that by (fastforce simp: winner_key_def less_eq_prod_def)
    then have "{d \<in> set confirmed. qualifies lm incumbent ici d = Inr True \<and> cs_cost_usd d < cs_cost_usd ?m} = {}"
      using q by (auto simp: not_less)
    with w m ici Inr show ?thesis by (auto simp: qualifies_def split: if_splits)
  qed
qed

section \<open>The frontier\<close>

lemma dominates_irrefl: "\<not> dominates a a"
  by (simp add: dominates_def)

lemma dominates_trans: "dominates a b \<Longrightarrow> dominates b c \<Longrightarrow> dominates a c"
  by (auto simp: dominates_def)

lemma finite_has_undominated:
  assumes "finite S" "S \<noteq> {}"
  shows "\<exists>m \<in> S. \<forall>x \<in> S. \<not> dominates x m"
  using assms
proof (induction rule: finite_ne_induct)
  case (insert x S)
  then obtain m where m: "m \<in> S" "\<forall>y \<in> S. \<not> dominates y m" by blast
  show ?case
  proof (cases "dominates x m")
    case True
    then have "\<forall>y \<in> S. \<not> dominates y x" using m(2) dominates_trans by blast
    then show ?thesis using dominates_irrefl by blast
  next
    case False
    with m show ?thesis by blast
  qed
qed (simp add: dominates_irrefl)

lemma pareto_dominated_iff:
  assumes "i < length scores"
  shows "pp_dominated (pareto_frontier scores ! i) \<longleftrightarrow> (\<exists>a \<in> set scores. dominates a (scores ! i))"
proof -
  have "pp_dominated (pareto_frontier scores ! i)
      \<longleftrightarrow> (\<exists>j<length scores. j \<noteq> i \<and> dominates (scores ! j) (scores ! i))"
    using assms by (auto simp: pareto_frontier_def Let_def list_ex_iff)
  also have "\<dots> \<longleftrightarrow> (\<exists>j<length scores. dominates (scores ! j) (scores ! i))"
    using dominates_irrefl by blast
  finally show ?thesis by (simp add: Bex_set_list_ex list_ex_length)
qed

text \<open>
  The Pareto frontier keeps every score in its place, flags a point exactly when some
  other score dominates it, never flags all the points of a non-empty list, and every
  flagged point is dominated by a point that is not flagged: dropping the flagged points
  loses no best choice.
\<close>
theorem pareto_frontier_undominated:
  "length (pareto_frontier scores) = length scores
   \<and> list_all (\<lambda>i. pp_model (pareto_frontier scores ! i) = cs_model (scores ! i)
        \<and> (if pp_dominated (pareto_frontier scores ! i)
           then \<exists>j<length scores. \<not> pp_dominated (pareto_frontier scores ! j) \<and> dominates (scores ! j) (scores ! i)
           else {a \<in> set scores. dominates a (scores ! i)} = {})) [0..<length scores]"
  unfolding list_all_iff
proof (intro conjI ballI)
  show "length (pareto_frontier scores) = length scores" by (simp add: pareto_frontier_def)
  fix i assume "i \<in> set [0..<length scores]"
  then have i: "i < length scores" by simp
  show "pp_model (pareto_frontier scores ! i) = cs_model (scores ! i)"
    using i by (simp add: pareto_frontier_def Let_def)
  show "if pp_dominated (pareto_frontier scores ! i)
    then \<exists>j<length scores. \<not> pp_dominated (pareto_frontier scores ! j) \<and> dominates (scores ! j) (scores ! i)
    else {a \<in> set scores. dominates a (scores ! i)} = {}"
  proof (cases "pp_dominated (pareto_frontier scores ! i)")
    case False
    then show ?thesis using i by (auto simp: pareto_dominated_iff)
  next
    case True
    let ?S = "{a \<in> set scores. dominates a (scores ! i)}"
    have "?S \<noteq> {}" using True i by (auto simp: pareto_dominated_iff)
    then obtain m where m: "m \<in> ?S" "\<forall>x \<in> ?S. \<not> dominates x m"
      using finite_has_undominated [of ?S] by auto
    then have "\<forall>x \<in> set scores. \<not> dominates x m" using dominates_trans by blast
    moreover obtain j where "j < length scores" "m = scores ! j" using m(1) by (auto simp: in_set_conv_nth)
    ultimately show ?thesis using True m(1) by (auto simp: pareto_dominated_iff)
  qed
qed

section \<open>The gate\<close>

lemma sum_list_map_nonneg: "(\<And>x. x \<in> set xs \<Longrightarrow> (0::int) \<le> f x) \<Longrightarrow> 0 \<le> sum_list (map f xs)"
  by (intro sum_list_nonneg) auto

lemma sampled_output_tokens_total:
  assumes f: "f \<le> 1" and n: "cases \<noteq> []" "int (length cases) \<le> 2 ^ 53"
  shows "\<exists>t. sampled_output_tokens provider model cases f = Inr t"
proof -
  let ?n = "int (length cases)"
  have N: "fint ?n = of_int ?n" unfolding fint_def using n by (intro dbl_double is_double_int) simp
  have "fint ?n * f \<le> of_int ?n" unfolding N using f by (simp add: mult_left_le)
  then have "fmul (fint ?n) f \<le> of_int ?n"
    unfolding fmul_def using n by (intro dbl_le is_double_int) simp_all
  then have "\<lceil>fmul (fint ?n) f\<rceil> \<le> ?n" by (rule ceiling_le)
  moreover have "1 \<le> ?n" using n(1) by (cases cases) auto
  ultimately show ?thesis by (simp add: sampled_output_tokens_def Let_def)
qed

lemma sampled_output_tokens_nonneg:
  assumes "\<And>m t. 0 \<le> sample_output_tokens provider m t"
    and "sampled_output_tokens provider model cases f = Inr t"
  shows "0 \<le> t"
proof -
  let ?k = "max 1 \<lceil>fmul (fint (int (length cases))) f\<rceil>"
  let ?s = "sum_list (map (sample_output_tokens provider model) (take (nat ?k) cases))"
  have t: "t = half_even (fmul (dbl (of_int ?s / of_int ?k)) (fint (int (length cases))))"
    using assms(2) by (auto simp: sampled_output_tokens_def Let_def split: if_splits)
  have "0 \<le> ?s" using assms(1) by (intro sum_list_map_nonneg)
  then have "0 \<le> dbl (of_int ?s / of_int ?k)" by (intro dbl.rnd_nonneg divide_nonneg_nonneg) auto
  moreover have "0 \<le> fint (int (length cases))" unfolding fint_def by (rule dbl.rnd_nonneg) simp
  ultimately have "of_int 0 \<le> fmul (dbl (of_int ?s / of_int ?k)) (fint (int (length cases)))"
    unfolding fmul_def by (simp add: dbl.rnd_nonneg)
  then show ?thesis unfolding t by (rule half_even_ge)
qed

lemma quantize_nonneg: "quantize k x = Inr y \<Longrightarrow> 0 \<le> x \<Longrightarrow> 0 \<le> y"
  using half_even_ge [of 0 "x * 10 ^ k"] by (auto simp: quantize_def Let_def split: if_splits)

text \<open>
  An estimate of either phase for non-negative token counts and prices and a sample
  fraction of at most one fails only when the amount does not fit the decimal context,
  never for lack of cases to sample; the estimate it returns is a non-negative amount of
  whole cents for the whole case set.
\<close>
theorem estimate_nonnegative_cents:
  assumes tok: "\<And>m t. 0 \<le> count_input_tokens provider m t" "\<And>m t. 0 \<le> sample_output_tokens provider m t"
    and pr: "0 \<le> input_price" "0 \<le> output_price" and f: "f \<le> 1"
    and n: "int (length cases) \<le> 2 ^ 53" and m: "list_all (\<lambda>k. 0 \<le> k) (case measured of None \<Rightarrow> [] | Some k \<Rightarrow> [k])"
  shows "case estimate provider model cases input_price output_price f phase measured name of
      Inl e \<Rightarrow> e = InvalidOperation
    | Inr est \<Rightarrow> 0 \<le> est_estimated_usd est \<and> quantized 2 (est_estimated_usd est)
        \<and> est_n_cases est = int (length cases) \<and> est_phase est = phase"
proof -
  let ?out = "case measured of Some k \<Rightarrow> Inr (k * int (length cases))
    | None \<Rightarrow> if int (length cases) = 0 then Inr 0 else sampled_output_tokens provider model cases f"
  let ?in = "sum_list (map (count_input_tokens provider model) cases)"
  have "\<exists>t. ?out = Inr t \<and> 0 \<le> t"
    using sampled_output_tokens_total [OF f _ n, of provider model] m
      sampled_output_tokens_nonneg [OF tok(2), of model cases f]
    by (auto split: option.splits)
  then obtain t where t: "?out = Inr t" "0 \<le> t" by blast
  let ?c = "dadd (dmul (ddiv (of_int ?in) 1000) input_price) (dmul (ddiv (of_int t) 1000) output_price)"
  have i: "0 \<le> ?in" using tok(1) by (intro sum_list_map_nonneg)
  have c: "0 \<le> ?c" unfolding dadd_def dmul_def ddiv_def using i t(2) pr
    by (intro dec.rnd_nonneg add_nonneg_nonneg mult_nonneg_nonneg divide_nonneg_nonneg) auto
  have e: "estimate provider model cases input_price output_price f phase measured name =
    res_bind (quantize 2 ?c) (\<lambda>amount. Inr \<lparr>est_phase = phase, est_provider = name, est_model = model,
      est_estimated_usd = amount, est_n_cases = int (length cases)\<rparr>)"
    unfolding estimate_def Let_def t(1) by simp
  show ?thesis
  proof (cases "quantize 2 ?c")
    case (Inl x)
    then have "x = InvalidOperation" by (auto simp: quantize_def Let_def split: if_splits)
    with Inl show ?thesis unfolding e by simp
  next
    case (Inr y)
    then show ?thesis unfolding e using quantize_nonneg [OF Inr c] quantize_quantized [OF Inr] by simp
  qed
qed

theorem estimate_nonnegative_cents_witness:
  "case estimate \<lparr>count_input_tokens = (\<lambda>m t. int (length t)), sample_output_tokens = (\<lambda>m t. 7)\<rparr>
      ''gpt'' [''hello'', ''world''] (3 / 1000) (15 / 1000) (1 / 20) Smoke None ''openai'' of
     Inl e \<Rightarrow> e = InvalidOperation
   | Inr est \<Rightarrow> 0 \<le> est_estimated_usd est \<and> quantized 2 (est_estimated_usd est)
       \<and> est_n_cases est = int (length [''hello'', ''world'']) \<and> est_phase est = Smoke"
  using estimate_nonnegative_cents
    [where provider = "\<lparr>count_input_tokens = (\<lambda>m t. int (length t)), sample_output_tokens = (\<lambda>m t. 7)\<rparr>"
      and input_price = "3 / 1000" and output_price = "15 / 1000" and f = "1 / 20"
      and cases = "[''hello'', ''world'']" and measured = None and model = "''gpt''" and phase = Smoke
      and name = "''openai''"]
  by simp

end
