(* ===== verification/Eval_Grade.thy ===== *)
theory Eval_Grade
  imports Eval_Search Core_Types
begin

text \<open>
  Grading on the highest honest rung (\<open>eval/grade.py\<close>, \<open>eval/types.py\<close>), the graded cases
  and what ground truth they carry (\<open>eval/cases.py\<close>, \<open>eval/replay.py\<close>) and the
  recommendation artifact (\<open>eval/report.py\<close>, \<open>core/eval/models.py\<close>). The judge, the
  candidate's live call and the decimal text of a double are arguments. The reason of an
  empty case set is which reason it is, the methodology line is the record of what it
  prints; the markdown view is not modelled.

  Shown: a case graded on an outcome label comes from a reconstructible task with labels;
  a case set claims only ground truth that is there; a recommendation always satisfies
  its own validator, and its failures per cohort add up.
\<close>

section \<open>Tasks and rungs\<close>

datatype task_type = Classification | Extraction | DeterministicResolution | Summarization | OpenEnded

definition is_reconstructible_task :: "task_type \<Rightarrow> bool" where
  "is_reconstructible_task t \<longleftrightarrow> t \<in> {Classification, Extraction, DeterministicResolution}"

type_synonym validator = "task_type \<Rightarrow> bool"

text \<open>A judge scores a prediction against a reference under a rubric; the call may raise.\<close>

type_synonym judge = "string \<Rightarrow> string \<Rightarrow> string \<Rightarrow> rat res"

record grade_inputs =
  gi_case_id :: string
  gi_candidate_model :: string
  gi_incumbent_prediction :: string
  gi_candidate_prediction :: string
  gi_task_type :: task_type
  gi_has_outcome_labels :: bool
  gi_has_human_labels :: bool
  gi_judge_validated :: bool
  gi_rubric :: string
  gi_cohort :: string

record case_grade =
  cg_case_id :: string
  cg_candidate_model :: string
  cg_passed :: bool
  cg_label_source :: label_source
  cg_grade :: eval_grade
  cg_incumbent_prediction :: string
  cg_candidate_prediction :: string
  cg_cohort :: string

definition select_label_source :: "grade_inputs \<Rightarrow> validator \<Rightarrow> label_source" where
  "select_label_source inputs validate =
     (if validate (gi_task_type inputs) \<and> gi_has_outcome_labels inputs then OutcomeLabel
      else if gi_has_human_labels inputs then HumanLabeled
      else if gi_judge_validated inputs then LlmJudge
      else Reference)"

definition grade_for_label_source :: "label_source \<Rightarrow> eval_grade" where
  "grade_for_label_source s = (if s \<in> {OutcomeLabel, HumanLabeled} then Reliable else Directional)"

definition passed_for ::
  "grade_inputs \<Rightarrow> label_source \<Rightarrow> judge option \<Rightarrow> bool option \<Rightarrow> bool res" where
  "passed_for inputs s jdg human_verdict =
     (case s of
        OutcomeLabel \<Rightarrow> Inr (gi_candidate_prediction inputs = gi_incumbent_prediction inputs)
      | HumanLabeled \<Rightarrow>
          (case human_verdict of None \<Rightarrow> Inl GroundTruthUnavailableError | Some b \<Rightarrow> Inr b)
      | _ \<Rightarrow>
          (case jdg of
             None \<Rightarrow> Inl JudgeNotValidatedError
           | Some g \<Rightarrow>
               res_bind (g (gi_candidate_prediction inputs) (gi_incumbent_prediction inputs) (gi_rubric inputs))
                 (\<lambda>score. Inr (1 / 2 \<le> score))))"

definition grade_case ::
  "grade_inputs \<Rightarrow> validator \<Rightarrow> judge option \<Rightarrow> bool option \<Rightarrow> case_grade res" where
  "grade_case inputs validate jdg human_verdict =
     (let s = select_label_source inputs validate in
      res_bind (passed_for inputs s jdg human_verdict) (\<lambda>p.
        Inr \<lparr>cg_case_id = gi_case_id inputs, cg_candidate_model = gi_candidate_model inputs,
             cg_passed = p, cg_label_source = s, cg_grade = grade_for_label_source s,
             cg_incumbent_prediction = gi_incumbent_prediction inputs,
             cg_candidate_prediction = gi_candidate_prediction inputs, cg_cohort = gi_cohort inputs\<rparr>))"

section \<open>Case sets\<close>

datatype case_reason =
    NoBoundOutcomes
  | NoComparableOutput nat
  | SomeWithoutText
  | NoCapturedPrompts
  | AllCallsFailed nat
  | CallsFailed nat
  | NoOutcomeRepository
  | NoRawRepository

type_synonym eval_case = "string \<times> string \<times> string"

record case_set =
  cset_cases :: "eval_case list"
  cset_has_outcome_labels :: bool
  cset_has_human_labels :: bool
  cset_reason :: "case_reason option"

definition is_empty_set :: "case_set \<Rightarrow> bool" where
  "is_empty_set cs \<longleftrightarrow> length (cset_cases cs) = 0"

abbreviation default_max_cases :: nat where "default_max_cases \<equiv> 20"
abbreviation default_replay_cases :: nat where "default_replay_cases \<equiv> 10"

definition text_from_raw :: "(string \<times> json) list \<Rightarrow> string \<Rightarrow> string option" where
  "text_from_raw raw key =
     (case dict_get raw key of Some (JStr v) \<Rightarrow> if v \<noteq> [] then Some v else None | _ \<Rightarrow> None)"

definition outcome_case :: "outcome_event \<Rightarrow> eval_case option" where
  "outcome_case oe =
     (case (text_from_raw (oe_raw oe) ''incumbent_output'', text_from_raw (oe_raw oe) ''candidate_output'') of
        (Some i, Some c) \<Rightarrow> Some (oe_id oe, i, c)
      | _ \<Rightarrow> None)"

definition build_case_set :: "outcome_event list \<Rightarrow> nat \<Rightarrow> case_set" where
  "build_case_set outcomes max_cases =
     (let bound = filter (\<lambda>o'. ob_run_id (oe_binding o') \<noteq> None) outcomes in
      if bound = [] then
        \<lparr>cset_cases = [], cset_has_outcome_labels = False, cset_has_human_labels = False,
         cset_reason = Some NoBoundOutcomes\<rparr>
      else
        (let cases = List.map_filter outcome_case (take max_cases bound) in
         if cases = [] then
           \<lparr>cset_cases = [], cset_has_outcome_labels = True, cset_has_human_labels = False,
            cset_reason = Some (NoComparableOutput (length bound))\<rparr>
         else
           \<lparr>cset_cases = cases, cset_has_outcome_labels = True, cset_has_human_labels = False,
            cset_reason = (if length (take max_cases bound) \<le> length cases then None else Some SomeWithoutText)\<rparr>))"

record replay_sample_t =
  rs_record_id :: string
  rs_prompt :: string
  rs_incumbent_output :: string

definition parse_sample :: "string \<times> (string \<times> json) list \<Rightarrow> replay_sample_t option" where
  "parse_sample r =
     (case (dict_get (snd r) ''prompt'', dict_get (snd r) ''response'') of
        (Some (JStr p), Some (JStr a)) \<Rightarrow>
          if p = [] \<or> a = [] then None
          else Some \<lparr>rs_record_id = fst r, rs_prompt = p, rs_incumbent_output = a\<rparr>
      | _ \<Rightarrow> None)"

definition parse_samples :: "(string \<times> (string \<times> json) list) list \<Rightarrow> replay_sample_t list" where
  "parse_samples records = List.map_filter parse_sample records"

text \<open>One live call per sample, in order; a call that raises drops its case and is counted.\<close>

fun replay_loop ::
  "(string \<Rightarrow> string \<Rightarrow> string res) \<Rightarrow> string \<Rightarrow> replay_sample_t list \<Rightarrow> eval_case list \<times> nat" where
  "replay_loop call model [] = ([], 0)"
| "replay_loop call model (s # ss) =
     (case replay_loop call model ss of (cases, failed) \<Rightarrow>
       (case call model (rs_prompt s) of
          Inl _ \<Rightarrow> (cases, failed + 1)
        | Inr out \<Rightarrow> ((rs_record_id s, rs_incumbent_output s, out) # cases, failed)))"

definition build_replay_case_set ::
  "replay_sample_t list \<Rightarrow> (string \<Rightarrow> string \<Rightarrow> string res) \<Rightarrow> string \<Rightarrow> nat \<Rightarrow> case_set" where
  "build_replay_case_set samples call candidate_model max_cases =
     (if samples = [] then
        \<lparr>cset_cases = [], cset_has_outcome_labels = False, cset_has_human_labels = False,
         cset_reason = Some NoCapturedPrompts\<rparr>
      else
        (case replay_loop call candidate_model (take max_cases samples) of (cases, failed) \<Rightarrow>
           if cases = [] then
             \<lparr>cset_cases = [], cset_has_outcome_labels = False, cset_has_human_labels = False,
              cset_reason = Some (AllCallsFailed failed)\<rparr>
           else
             \<lparr>cset_cases = cases, cset_has_outcome_labels = False, cset_has_human_labels = False,
              cset_reason = (if failed \<noteq> 0 then Some (CallsFailed failed) else None)\<rparr>))"

section \<open>The recommendation\<close>

record methodology =
  me_label_source :: label_source
  me_human_labels :: int
  me_n_cases :: int
  me_parity :: rat
  me_delta :: rat

record disagreement =
  di_case_id :: string
  di_cohort :: string
  di_incumbent :: string
  di_candidate :: string
  di_passed :: bool

text \<open>\<open>auto_switch\<close> is the literal \<open>False\<close>: no other value can be built, so it has no field.\<close>

record eval_recommendation =
  er_tenant_id :: tenant_id
  er_recommended_model :: "string option"
  er_incumbent_model :: string
  er_grade :: eval_grade
  er_label_source :: label_source
  er_parity_ci95 :: "rat \<times> rat"
  er_latency_p50_ms :: rat
  er_latency_p95_ms :: rat
  er_latency_p99_ms :: rat
  er_sample_disagreements :: "disagreement list"
  er_gap_distribution :: "(string, int) dict"
  er_pareto_frontier :: "pareto_point list"
  er_methodology :: methodology

definition er_verdict :: "eval_recommendation \<Rightarrow> eval_verdict" where
  "er_verdict r = \<lparr>ev_recommended_model = er_recommended_model r, ev_incumbent_model = er_incumbent_model r,
     ev_grade = er_grade r, ev_label_source = er_label_source r\<rparr>"

definition eval_recommendation_new :: "eval_recommendation \<Rightarrow> eval_recommendation res" where
  "eval_recommendation_new r = res_bind (grade_cap_check (er_verdict r)) (\<lambda>_. Inr r)"

record recommendation_inputs =
  ri_tenant_id :: tenant_id
  ri_recommended_model :: "string option"
  ri_incumbent_model :: string
  ri_label_source :: label_source
  ri_graded_cases :: "case_grade list"
  ri_latency :: percentiles_t
  ri_incumbent_monthly_usd :: rat
  ri_candidate_monthly_usd :: rat
  ri_pareto :: "pareto_point list"
  ri_human_label_count :: int

definition disagreements :: "case_grade list \<Rightarrow> disagreement list" where
  "disagreements cases =
     map (\<lambda>g. \<lparr>di_case_id = cg_case_id g, di_cohort = cg_cohort g, di_incumbent = cg_incumbent_prediction g,
               di_candidate = cg_candidate_prediction g, di_passed = cg_passed g\<rparr>)
       (filter (\<lambda>g. cg_candidate_prediction g \<noteq> cg_incumbent_prediction g) cases)"

definition count_gap :: "(string, int) dict \<Rightarrow> case_grade \<Rightarrow> (string, int) dict" where
  "count_gap gaps g =
     (if \<not> cg_passed g
      then dict_set (cg_cohort g) ((case dict_get gaps (cg_cohort g) of None \<Rightarrow> 0 | Some k \<Rightarrow> k) + 1) gaps
      else gaps)"

definition gap_distribution :: "case_grade list \<Rightarrow> (string, int) dict" where
  "gap_distribution cases = foldl count_gap [] cases"

text \<open>\<open>Decimal(str(value)).quantize(Decimal("0.0001"))\<close>; \<open>repr\<close> is the decimal that \<open>str\<close> prints.\<close>

definition to_money4 :: "(rat \<Rightarrow> rat) \<Rightarrow> rat \<Rightarrow> rat res" where
  "to_money4 repr v = quantize 4 (repr v)"

definition build_recommendation ::
  "libm \<Rightarrow> (rat \<Rightarrow> rat) \<Rightarrow> recommendation_inputs \<Rightarrow> eval_recommendation res" where
  "build_recommendation lm repr inputs =
     (let n = int (length (ri_graded_cases inputs));
          passes = int (length (filter cg_passed (ri_graded_cases inputs)))
      in res_bind (if n \<noteq> 0 then wilson_ci lm passes n else Inr (0, 0)) (\<lambda>(low, high).
         res_bind (to_money4 repr low) (\<lambda>l.
         res_bind (to_money4 repr high) (\<lambda>h.
           let delta = dsub (ri_incumbent_monthly_usd inputs) (ri_candidate_monthly_usd inputs)
           in eval_recommendation_new
                \<lparr>er_tenant_id = ri_tenant_id inputs,
                 er_recommended_model = ri_recommended_model inputs,
                 er_incumbent_model = ri_incumbent_model inputs,
                 er_grade = grade_for_label_source (ri_label_source inputs),
                 er_label_source = ri_label_source inputs,
                 er_parity_ci95 = (l, h),
                 er_latency_p50_ms = p50 (ri_latency inputs),
                 er_latency_p95_ms = p95 (ri_latency inputs),
                 er_latency_p99_ms = p99 (ri_latency inputs),
                 er_sample_disagreements = disagreements (ri_graded_cases inputs),
                 er_gap_distribution = gap_distribution (ri_graded_cases inputs),
                 er_pareto_frontier = ri_pareto inputs,
                 er_methodology = \<lparr>me_label_source = ri_label_source inputs,
                   me_human_labels = ri_human_label_count inputs, me_n_cases = n,
                   me_parity = (if n \<noteq> 0 then dbl (of_int passes / of_int n) else 0), me_delta = delta\<rparr>\<rparr>))))"

section \<open>Properties of grading\<close>

lemma select_label_source_cases:
  "select_label_source inputs validate = OutcomeLabel \<longleftrightarrow>
     validate (gi_task_type inputs) \<and> gi_has_outcome_labels inputs"
  "select_label_source inputs validate = HumanLabeled \<Longrightarrow> gi_has_human_labels inputs"
  by (auto simp: select_label_source_def split: if_splits)

text \<open>
  A graded case carries the reliable grade only off real ground truth: either the
  outcome rung, and then the validator accepts the task type, outcome labels are there
  and the case passed exactly when the two outputs are equal; or the human rung, and
  then human labels are there and the result is the verdict that was supplied. On the
  other rungs a judge's score of at least one half decides and the grade is directional.
  Grading fails only when the scorer the rung needs is missing or itself raises.
\<close>
theorem grade_case_honest:
  "case grade_case inputs validate jdg verdict of
     Inl e \<Rightarrow> e = GroundTruthUnavailableError \<and> verdict = None \<and> gi_has_human_labels inputs
       \<or> e = JudgeNotValidatedError \<and> jdg = None
       \<or> (\<exists>g. jdg = Some g \<and> g (gi_candidate_prediction inputs) (gi_incumbent_prediction inputs)
             (gi_rubric inputs) = Inl e)
   | Inr r \<Rightarrow>
       (if cg_grade r = Reliable
        then validate (gi_task_type inputs) \<and> gi_has_outcome_labels inputs
               \<and> cg_passed r = (gi_candidate_prediction inputs = gi_incumbent_prediction inputs)
             \<or> gi_has_human_labels inputs \<and> verdict = Some (cg_passed r)
        else cg_label_source r \<in> {LlmJudge, Reference}
             \<and> (\<exists>g score. jdg = Some g
                  \<and> g (gi_candidate_prediction inputs) (gi_incumbent_prediction inputs) (gi_rubric inputs) = Inr score
                  \<and> cg_passed r = (1 / 2 \<le> score)))"
proof (cases "grade_case inputs validate jdg verdict")
  case (Inl e)
  then have "passed_for inputs (select_label_source inputs validate) jdg verdict = Inl e"
    by (simp add: grade_case_def Let_def res_bind_eq_Inl)
  then have "e = GroundTruthUnavailableError \<and> verdict = None \<and> gi_has_human_labels inputs
      \<or> e = JudgeNotValidatedError \<and> jdg = None
      \<or> (\<exists>g. jdg = Some g \<and> g (gi_candidate_prediction inputs) (gi_incumbent_prediction inputs)
             (gi_rubric inputs) = Inl e)"
    using select_label_source_cases(2) [of inputs validate]
    by (auto simp: passed_for_def res_bind_eq_Inl split: label_source.splits option.splits)
  with Inl show ?thesis by simp
next
  case (Inr r)
  let ?s = "select_label_source inputs validate"
  from Inr have p: "passed_for inputs ?s jdg verdict = Inr (cg_passed r)"
    and s: "cg_label_source r = ?s" "cg_grade r = grade_for_label_source ?s"
    by (auto simp: grade_case_def Let_def)
  show ?thesis using p s select_label_source_cases [of inputs validate] Inr
    by (cases ?s) (auto simp: passed_for_def grade_for_label_source_def split: option.splits)
qed

section \<open>Properties of case sets\<close>

lemma map_filter_length: "length (List.map_filter f xs) \<le> length xs"
  by (induction xs) (auto simp: List.map_filter_simps split: option.splits)

lemma map_filter_set: "set (List.map_filter f xs) = {y. \<exists>x \<in> set xs. f x = Some y}"
  by (auto simp: List.map_filter_def intro!: image_eqI)

lemma text_from_raw_Some:
  "text_from_raw raw k = Some v \<longleftrightarrow> dict_get raw k = Some (JStr v) \<and> v \<noteq> []"
proof (cases "dict_get raw k")
  case (Some j)
  then show ?thesis by (cases j) (auto simp: text_from_raw_def)
qed (simp add: text_from_raw_def)

text \<open>
  The cases built from recorded outcomes are real and bounded: at most the cap, each
  from an outcome bound to a run that recorded a non-empty text on both sides, under its
  id. Outcome labels are claimed exactly when some outcome is bound, human labels never,
  and an empty set says why it is empty.
\<close>
theorem build_case_set_honest:
  "length (cset_cases (build_case_set outcomes m)) \<le> m
   \<and> set (cset_cases (build_case_set outcomes m)) \<subseteq>
       {(i, a, b). \<exists>oe \<in> set outcomes. oe_id oe = i \<and> ob_run_id (oe_binding oe) \<noteq> None
          \<and> dict_get (oe_raw oe) ''incumbent_output'' = Some (JStr a) \<and> a \<noteq> []
          \<and> dict_get (oe_raw oe) ''candidate_output'' = Some (JStr b) \<and> b \<noteq> []}
   \<and> cset_has_outcome_labels (build_case_set outcomes m) = list_ex (\<lambda>oe. ob_run_id (oe_binding oe) \<noteq> None) outcomes
   \<and> \<not> cset_has_human_labels (build_case_set outcomes m)
   \<and> (if is_empty_set (build_case_set outcomes m) then cset_reason (build_case_set outcomes m) \<noteq> None
      else cset_reason (build_case_set outcomes m) \<in> {None, Some SomeWithoutText})"
proof -
  let ?b = "filter (\<lambda>oe. ob_run_id (oe_binding oe) \<noteq> None) outcomes"
  let ?c = "List.map_filter outcome_case (take m ?b)"
  have len: "length ?c \<le> m" using map_filter_length [of outcome_case "take m ?b"] by simp
  have oc: "outcome_case oe = Some (i, a, b) \<longleftrightarrow> oe_id oe = i
      \<and> dict_get (oe_raw oe) ''incumbent_output'' = Some (JStr a) \<and> a \<noteq> []
      \<and> dict_get (oe_raw oe) ''candidate_output'' = Some (JStr b) \<and> b \<noteq> []" for oe i a b
  proof -
    have "outcome_case oe = Some (i, a, b) \<longleftrightarrow> oe_id oe = i
        \<and> text_from_raw (oe_raw oe) ''incumbent_output'' = Some a
        \<and> text_from_raw (oe_raw oe) ''candidate_output'' = Some b"
      by (auto simp: outcome_case_def split: option.splits)
    then show ?thesis by (simp add: text_from_raw_Some)
  qed
  have "set (take m ?b) \<subseteq> set ?b" by (rule set_take_subset)
  then have sub: "set ?c \<subseteq> {(i, a, b). \<exists>oe \<in> set outcomes. oe_id oe = i \<and> ob_run_id (oe_binding oe) \<noteq> None
          \<and> dict_get (oe_raw oe) ''incumbent_output'' = Some (JStr a) \<and> a \<noteq> []
          \<and> dict_get (oe_raw oe) ''candidate_output'' = Some (JStr b) \<and> b \<noteq> []}"
    by (auto simp: map_filter_set oc)
  have ex: "?b \<noteq> [] \<longleftrightarrow> list_ex (\<lambda>oe. ob_run_id (oe_binding oe) \<noteq> None) outcomes"
    by (auto simp: filter_empty_conv list_ex_iff)
  show ?thesis
  proof (cases "?b = []")
    case True
    then show ?thesis using ex by (simp add: build_case_set_def is_empty_set_def)
  next
    case False
    then show ?thesis using len sub ex
      by (cases "?c = []") (simp_all add: build_case_set_def Let_def is_empty_set_def)
  qed
qed

lemma replay_loop_spec:
  "replay_loop call model ss = (cases, failed) \<Longrightarrow>
     length cases + failed = length ss
     \<and> set cases = {(rs_record_id s, rs_incumbent_output s, out) | s out. s \<in> set ss \<and> call model (rs_prompt s) = Inr out}"
proof (induction ss arbitrary: cases failed)
  case (Cons s ss)
  obtain cs k where r: "replay_loop call model ss = (cs, k)" by (cases "replay_loop call model ss")
  note ih = Cons.IH [OF r]
  show ?case
  proof (cases "call model (rs_prompt s)")
    case (Inl e)
    then have "cases = cs" "failed = k + 1" using Cons.prems r by auto
    with ih Inl show ?thesis by auto
  next
    case (Inr out)
    then have "cases = (rs_record_id s, rs_incumbent_output s, out) # cs" "failed = k" using Cons.prems r by auto
    with ih Inr show ?thesis by auto
  qed
qed simp

text \<open>
  Replay grades only what the candidate really produced: the cases are exactly the
  samples within the cap whose live call returned, each with the incumbent's recorded
  answer and the call's own output; a call that failed is dropped, never scored; and
  replay alone claims neither outcome labels nor human labels.
\<close>
theorem replay_cases_are_live:
  "set (cset_cases (build_replay_case_set samples call model m)) =
     {(rs_record_id s, rs_incumbent_output s, out) | s out.
        s \<in> set (take m samples) \<and> call model (rs_prompt s) = Inr out}
   \<and> length (cset_cases (build_replay_case_set samples call model m)) \<le> m
   \<and> \<not> cset_has_outcome_labels (build_replay_case_set samples call model m)
   \<and> \<not> cset_has_human_labels (build_replay_case_set samples call model m)"
proof -
  obtain cs k where r: "replay_loop call model (take m samples) = (cs, k)"
    by (cases "replay_loop call model (take m samples)")
  note spec = replay_loop_spec [OF r]
  then have "length cs \<le> m" by (metis le_add1 length_take min.cobounded2 order_trans)
  then show ?thesis using spec r
    by (cases "samples = []"; cases "cs = []") (auto simp: build_replay_case_set_def)
qed

section \<open>Properties of the recommendation\<close>

lemma gap_dict_ok: "dict_ok gaps \<Longrightarrow> dict_ok (foldl count_gap gaps cases)"
  by (induction cases arbitrary: gaps) (auto simp: count_gap_def)

lemma gap_get:
  "dict_get (foldl count_gap gaps cases) c =
     (let k = int (length (filter (\<lambda>g. \<not> cg_passed g \<and> cg_cohort g = c) cases)) in
      case dict_get gaps c of Some j \<Rightarrow> Some (j + k) | None \<Rightarrow> if k = 0 then None else Some k)"
proof (induction cases arbitrary: gaps)
  case Nil
  then show ?case by (simp split: option.split)
next
  case (Cons g cases)
  show ?case
  proof (cases "\<not> cg_passed g \<and> cg_cohort g = c")
    case True
    then show ?thesis using Cons [of "count_gap gaps g"]
      by (auto simp: count_gap_def Let_def split: option.splits)
  next
    case False
    then have "dict_get (count_gap gaps g) c = dict_get gaps c" by (auto simp: count_gap_def)
    then show ?thesis using Cons [of "count_gap gaps g"] False by (auto simp: Let_def)
  qed
qed

lemma build_recommendation_fields:
  assumes "build_recommendation lm repr inputs = Inr r"
  shows "er_grade r = grade_for_label_source (ri_label_source inputs)"
    "er_label_source r = ri_label_source inputs" "er_tenant_id r = ri_tenant_id inputs"
    "er_recommended_model r = ri_recommended_model inputs" "er_incumbent_model r = ri_incumbent_model inputs"
    "er_gap_distribution r = gap_distribution (ri_graded_cases inputs)"
    "er_sample_disagreements r = disagreements (ri_graded_cases inputs)"
  using assms by (auto simp: build_recommendation_def Let_def eval_recommendation_new_def)

lemma wilson_ci_is_double:
  "wilson_ci lm s n = Inr (l, h) \<Longrightarrow> is_double l \<and> is_double h"
  using is_double_int [of 0] is_double_int [of 1]
  by (auto simp: wilson_ci_def Let_def fadd_def fsub_def max_def min_def split: if_splits)

text \<open>What printing a double promises: the text reads back as the double, and one prints as one.\<close>

definition decimal_text :: "(rat \<Rightarrow> rat) \<Rightarrow> bool" where
  "decimal_text repr \<longleftrightarrow> (\<forall>x. is_double x \<longrightarrow> dbl (repr x) = x) \<and> repr 1 = 1"

lemma decimal_text_mono:
  assumes r: "decimal_text repr" and d: "is_double x" "is_double y" and le: "x \<le> y"
  shows "repr x \<le> repr y"
proof (cases "x = y")
  case False
  show ?thesis
  proof (rule ccontr)
    assume "\<not> repr x \<le> repr y"
    then have "dbl (repr y) \<le> dbl (repr x)" by (intro dbl.rnd_mono) simp
    then have "y \<le> x" using r d by (simp add: decimal_text_def)
    with le False show False by simp
  qed
qed simp

lemma decimal_text_unit:
  assumes r: "decimal_text repr" and x: "is_double x" "0 \<le> x" "x \<le> 1"
  shows "0 \<le> repr x \<and> repr x \<le> 1"
proof -
  have d: "is_double 0" "is_double 1" using is_double_int [of 0] is_double_int [of 1] by simp_all
  have "dbl (repr 0) = 0" using r d by (simp add: decimal_text_def)
  then have "repr 0 = 0" by simp
  moreover have "repr 1 = 1" using r by (simp add: decimal_text_def)
  ultimately show ?thesis
    using decimal_text_mono [OF r d(1) x(1,2)] decimal_text_mono [OF r x(1) d(2) x(3)] by simp
qed

lemma to_money4_unit:
  assumes "decimal_text repr" "is_double x" "is_double y" "0 \<le> x" "x \<le> y" "y \<le> 1"
  shows "\<exists>a b. to_money4 repr x = Inr a \<and> to_money4 repr y = Inr b \<and> 0 \<le> a \<and> a \<le> b \<and> b \<le> 1"
proof -
  have u: "0 \<le> repr x" "repr x \<le> repr y" "repr y \<le> 1"
    using decimal_text_unit [of repr x] decimal_text_unit [of repr y] decimal_text_mono [of repr x y] assms by auto
  define i where "i = half_even (repr x * 10 ^ 4)"
  define j where "j = half_even (repr y * 10 ^ 4)"
  have i0: "0 \<le> i" unfolding i_def using u(1) by (intro half_even_ge) simp
  have ij: "i \<le> j" unfolding i_def j_def using u(2) by (intro half_even_mono) simp
  have j1: "j \<le> 10000" unfolding j_def using u(3) by (intro half_even_le) simp
  have "to_money4 repr x = Inr (of_int i / 10 ^ 4)" "to_money4 repr y = Inr (of_int j / 10 ^ 4)"
    using i0 ij j1 unfolding to_money4_def quantize_def Let_def i_def [symmetric] j_def [symmetric] by simp_all
  moreover have "0 \<le> rat_of_int i / 10 ^ 4" "rat_of_int i / 10 ^ 4 \<le> of_int j / 10 ^ 4"
    using i0 ij by (simp_all add: divide_right_mono)
  moreover have "rat_of_int j / 10 ^ 4 \<le> 1" using j1 by (simp add: divide_le_eq)
  ultimately show ?thesis by blast
qed

lemma build_recommendation_ok:
  assumes pow: "\<And>x. 0 \<le> x \<Longrightarrow> 0 \<le> m_pow lm x (1 / 2)" and dtx: "decimal_text repr"
  shows "\<exists>r. build_recommendation lm repr inputs = Inr r
    \<and> grade_cap_check (er_verdict r) = Inr (er_verdict r)
    \<and> 0 \<le> fst (er_parity_ci95 r) \<and> fst (er_parity_ci95 r) \<le> snd (er_parity_ci95 r) \<and> snd (er_parity_ci95 r) \<le> 1"
proof -
  let ?n = "int (length (ri_graded_cases inputs))"
  let ?p = "int (length (filter cg_passed (ri_graded_cases inputs)))"
  let ?ci = "if ?n \<noteq> 0 then wilson_ci lm ?p ?n else Inr (0, 0)"
  have "\<exists>l h. ?ci = Inr (l, h) \<and> is_double l \<and> is_double h \<and> 0 \<le> l \<and> l \<le> h \<and> h \<le> 1"
  proof (cases "?n = 0")
    case True
    then show ?thesis using is_double_int [of 0] by auto
  next
    case False
    have "0 < ?n \<and> 0 \<le> ?p \<and> ?p \<le> ?n" using False by simp
    then show ?thesis using wilson_ci_ok [of lm ?n ?p, OF pow] wilson_ci_is_double [of lm ?p ?n] False by fastforce
  qed
  then obtain l h where ci: "?ci = Inr (l, h)" and lh: "is_double l" "is_double h" "0 \<le> l" "l \<le> h" "h \<le> 1"
    by blast
  obtain a b where ab: "to_money4 repr l = Inr a" "to_money4 repr h = Inr b" "0 \<le> a" "a \<le> b" "b \<le> 1"
    using to_money4_unit [OF dtx lh] by blast
  have cap: "grade_cap_check v = Inr v" if "ev_grade v = grade_for_label_source (ev_label_source v)" for v
    using that by (auto simp: grade_cap_check_def grade_for_label_source_def)
  have "\<exists>r. build_recommendation lm repr inputs = Inr r \<and> er_parity_ci95 r = (a, b)"
    unfolding build_recommendation_def Let_def ci
    by (simp add: ab(1,2) eval_recommendation_new_def cap er_verdict_def)
  then obtain r where r: "build_recommendation lm repr inputs = Inr r" "er_parity_ci95 r = (a, b)" by blast
  note f = build_recommendation_fields [OF r(1)]
  have "grade_cap_check (er_verdict r) = Inr (er_verdict r)"
    by (rule cap) (simp add: er_verdict_def f)
  then show ?thesis using r ab(3-5) by auto
qed

text \<open>
  The recommendation artifact can always be built: for every graded set, the empty
  one included, and any label source, with a power function that keeps signs and a
  faithful decimal text of doubles, it is returned and never refused by its own
  validator. Its grade is reliable exactly off an outcome or human label source, its
  interval lies in the unit interval in order, it lists a disagreement for exactly the
  cases whose outputs differ, and a cohort's gap is the number of its failed cases.
\<close>
theorem build_recommendation_total:
  assumes pow: "\<And>x. 0 \<le> x \<Longrightarrow> 0 \<le> m_pow lm x (1 / 2)" and dtx: "decimal_text repr"
  shows "\<exists>r. build_recommendation lm repr inputs = Inr r
    \<and> grade_cap_check (er_verdict r) = Inr (er_verdict r)
    \<and> (er_grade r = Reliable) = (ri_label_source inputs \<in> {OutcomeLabel, HumanLabeled})
    \<and> 0 \<le> fst (er_parity_ci95 r) \<and> fst (er_parity_ci95 r) \<le> snd (er_parity_ci95 r) \<and> snd (er_parity_ci95 r) \<le> 1
    \<and> length (er_sample_disagreements r) =
        length (filter (\<lambda>g. cg_candidate_prediction g \<noteq> cg_incumbent_prediction g) (ri_graded_cases inputs))
    \<and> (\<forall>c. dict_get (er_gap_distribution r) c =
        (let k = int (length (filter (\<lambda>g. \<not> cg_passed g \<and> cg_cohort g = c) (ri_graded_cases inputs)))
         in if k = 0 then None else Some k))"
proof -
  obtain r where r: "build_recommendation lm repr inputs = Inr r"
    "grade_cap_check (er_verdict r) = Inr (er_verdict r)"
    "0 \<le> fst (er_parity_ci95 r)" "fst (er_parity_ci95 r) \<le> snd (er_parity_ci95 r)" "snd (er_parity_ci95 r) \<le> 1"
    using build_recommendation_ok [OF pow dtx, of inputs] by blast
  note f = build_recommendation_fields [OF r(1)]
  have "(er_grade r = Reliable) = (ri_label_source inputs \<in> {OutcomeLabel, HumanLabeled})"
    unfolding f(1) by (simp add: grade_for_label_source_def)
  then show ?thesis using r f(6,7) gap_get [of "[]" "ri_graded_cases inputs"]
    by (auto simp: gap_distribution_def disagreements_def)
qed

theorem build_recommendation_total_witness:
  "\<exists>r. build_recommendation sample_libm id
      \<lparr>ri_tenant_id = ''t'', ri_recommended_model = Some ''small'', ri_incumbent_model = ''large'',
       ri_label_source = LlmJudge, ri_graded_cases = [], ri_latency = \<lparr>p50 = 80, p95 = 180, p99 = 260\<rparr>,
       ri_incumbent_monthly_usd = 1000, ri_candidate_monthly_usd = 250, ri_pareto = [], ri_human_label_count = 60\<rparr> = Inr r
     \<and> er_grade r \<noteq> Reliable"
  using build_recommendation_total [of sample_libm id "\<lparr>ri_tenant_id = ''t'',
     ri_recommended_model = Some ''small'', ri_incumbent_model = ''large'',
     ri_label_source = LlmJudge, ri_graded_cases = [], ri_latency = \<lparr>p50 = 80, p95 = 180, p99 = 260\<rparr>,
     ri_incumbent_monthly_usd = 1000, ri_candidate_monthly_usd = 250, ri_pareto = [], ri_human_label_count = 60\<rparr>"]
  by (auto simp: sample_libm_def decimal_text_def dbl_double)

end
