(* ===== verification/Eval_Switch.thy ===== *)
theory Eval_Switch
  imports Eval_Search Capture_Pricing
begin

text \<open>
  What switching a model would cost and whether it is proven safe (\<open>eval/savings.py\<close>,
  \<open>eval/optimization.py\<close> and the two handlers of \<open>eval/capabilities.py\<close> over them).
  The pricing function is injected in the source; it is an argument here, and the server
  wires \<open>compute_cost_usd\<close> of the capture package. The texts of reasons are reduced to
  which reason it is; decimals on the wire are kept as amounts.

  Shown: an estimate covers exactly the priced traffic of the incumbent and never turns
  a missing price into a number; a switch is called safe only on a decided, powered,
  non-inferior experiment and a lower cost per outcome.
\<close>

section \<open>Savings\<close>

record switch_estimate =
  se_incumbent_model :: string
  se_candidate_model :: string
  se_incumbent_usd :: rat
  se_candidate_usd :: rat
  se_event_count :: int

definition delta_usd :: "switch_estimate \<Rightarrow> rat" where
  "delta_usd s = dsub (se_candidate_usd s) (se_incumbent_usd s)"

definition se_pct_change :: "switch_estimate \<Rightarrow> rat option" where
  "se_pct_change s =
     (if se_incumbent_usd s = 0 then None
      else Some (dmul (ddiv (delta_usd s) (se_incumbent_usd s)) 100))"

datatype no_estimate = NoTraffic | NoPriceCard | NoCosts | NotWired

type_synonym switch_result = "no_estimate + switch_estimate"

type_synonym cost_pricer = "token_vector \<Rightarrow> price_card \<Rightarrow> (rat \<times> string list) res"

fun reprice ::
  "cost_pricer \<Rightarrow> price_card \<Rightarrow> cost_event list \<Rightarrow> rat \<times> rat \<times> int \<Rightarrow> (rat \<times> rat \<times> int) res" where
  "reprice price pc [] acc = Inr acc"
| "reprice price pc (e # es) (incumbent_usd, candidate_usd, priced) =
     (case ce_cost_usd e of
        None \<Rightarrow> reprice price pc es (incumbent_usd, candidate_usd, priced)
      | Some c \<Rightarrow>
          res_bind (price (ce_tokens e) pc) (\<lambda>(candidate_cost, warnings).
            reprice price pc es (dadd incumbent_usd c, dadd candidate_usd candidate_cost, priced + 1)))"

definition estimate_switch ::
  "cost_event list \<Rightarrow> string \<Rightarrow> string \<Rightarrow> string \<Rightarrow> price_card list \<Rightarrow> cost_pricer \<Rightarrow> instant
   \<Rightarrow> switch_result res" where
  "estimate_switch events incumbent_model candidate_model candidate_provider pricebook price now =
     (let incumbent_events = filter (\<lambda>e. ce_model e = incumbent_model) events
      in if incumbent_events = [] then Inr (Inl NoTraffic)
         else
           (case card_for pricebook candidate_provider candidate_model now of
              None \<Rightarrow> Inr (Inl NoPriceCard)
            | Some pc \<Rightarrow>
                res_bind (reprice price pc incumbent_events (0, 0, 0)) (\<lambda>(incumbent_usd, candidate_usd, priced).
                  if priced = 0 then Inr (Inl NoCosts)
                  else Inr (Inr \<lparr>se_incumbent_model = incumbent_model,
                                 se_candidate_model = candidate_model,
                                 se_incumbent_usd = incumbent_usd, se_candidate_usd = candidate_usd,
                                 se_event_count = priced\<rparr>))))"

section \<open>Optimization verdict\<close>

record optimization_verdict =
  ov_incumbent_cost_per_outcome :: "rat option"
  ov_candidate_cost_per_outcome :: "rat option"
  ov_pct_change :: "rat option"
  ov_outcome_verdict :: "non_inferiority_verdict option"
  ov_causal_evidence :: causal_evidence
  ov_safe_to_switch :: bool
  ov_required_n_per_arm :: "int option"

record arms =
  ex_candidate_successes :: "int option"
  ex_candidate_n :: "int option"
  ex_incumbent_successes :: "int option"
  ex_incumbent_n :: "int option"

definition default_alpha :: rat where "default_alpha = lit 5 2"

text \<open>\<open>_ratio\<close>: cost per outcome in whole cents, or nothing without a denominator.\<close>

definition ratio :: "rat \<Rightarrow> int \<Rightarrow> rat option res" where
  "ratio usd outcomes =
     (if outcomes \<le> 0 then Inr None
      else res_bind (quantize 2 (ddiv usd (of_int outcomes))) (\<lambda>q. Inr (Some q)))"

definition pct_change :: "rat option \<Rightarrow> rat option \<Rightarrow> rat option res" where
  "pct_change incumbent candidate =
     (case (incumbent, candidate) of
        (Some i, Some c) \<Rightarrow>
          if i = 0 then Inr None
          else res_bind (quantize 2 (dmul (ddiv (dsub c i) i) 100)) (\<lambda>q. Inr (Some q))
      | _ \<Rightarrow> Inr None)"

definition run_experiment :: "libm \<Rightarrow> arms \<Rightarrow> rat \<Rightarrow> non_inferiority_verdict option res" where
  "run_experiment lm ex margin =
     (case (ex_candidate_successes ex, ex_candidate_n ex, ex_incumbent_successes ex, ex_incumbent_n ex) of
        (Some cs, Some cn, Some is', Some icn) \<Rightarrow>
          res_bind (non_inferiority lm cs cn is' icn margin default_alpha) (\<lambda>v. Inr (Some v))
      | _ \<Rightarrow> Inr None)"

definition required_n :: "libm \<Rightarrow> non_inferiority_verdict option \<Rightarrow> int option res" where
  "required_n lm verdict =
     (case verdict of
        None \<Rightarrow> Inr None
      | Some v \<Rightarrow>
          if ni_decided v then Inr None
          else res_bind (required_sample_size lm (ni_incumbent_rate v) (ni_margin v) default_alpha default_power)
                 (\<lambda>n. Inr (Some n)))"

definition proven :: "non_inferiority_verdict option \<Rightarrow> bool" where
  "proven verdict = (case verdict of None \<Rightarrow> False | Some v \<Rightarrow> ni_decided v \<and> ni_non_inferior v = Some True)"

definition evaluate_switch ::
  "libm \<Rightarrow> rat \<Rightarrow> rat \<Rightarrow> int \<Rightarrow> arms \<Rightarrow> rat \<Rightarrow> optimization_verdict res" where
  "evaluate_switch lm incumbent_usd candidate_usd incumbent_outcomes ex margin =
     res_bind (ratio incumbent_usd incumbent_outcomes) (\<lambda>per_incumbent.
     res_bind (ratio candidate_usd incumbent_outcomes) (\<lambda>per_candidate.
     res_bind (pct_change per_incumbent per_candidate) (\<lambda>pct.
     res_bind (run_experiment lm ex margin) (\<lambda>verdict.
     res_bind (required_n lm verdict) (\<lambda>req.
       let cheaper = (case pct of None \<Rightarrow> False | Some p \<Rightarrow> p < 0)
       in Inr \<lparr>ov_incumbent_cost_per_outcome = per_incumbent,
               ov_candidate_cost_per_outcome = per_candidate,
               ov_pct_change = pct, ov_outcome_verdict = verdict,
               ov_causal_evidence = (if proven verdict then Randomized else Observational),
               ov_safe_to_switch = (proven verdict \<and> cheaper),
               ov_required_n_per_arm = req\<rparr>)))))"

section \<open>Handlers\<close>

record margin_price =
  mp_margin_pp :: rat
  mp_n_per_arm :: int

record evaluate_switch_output =
  eso_incumbent_cost_per_outcome :: "rat option"
  eso_candidate_cost_per_outcome :: "rat option"
  eso_pct_change :: "rat option"
  eso_causal_evidence :: causal_evidence
  eso_safe_to_switch :: bool
  eso_outcome_decided :: "bool option"
  eso_outcome_non_inferior :: "bool option"
  eso_required_n_per_arm :: "int option"
  eso_margin_options :: "margin_price list"

definition margin_options :: "libm \<Rightarrow> rat \<Rightarrow> margin_price list res" where
  "margin_options lm baseline =
     (if 0 < baseline
      then res_traverse (\<lambda>pp.
             res_bind (required_sample_size lm baseline (fdiv pp 100) default_alpha default_power)
               (\<lambda>n. Inr \<lparr>mp_margin_pp = pp, mp_n_per_arm = n\<rparr>))
             [1 / 2, 1, 2, 3, 5]
      else Inr [])"

definition evaluate_switch_handler ::
  "libm \<Rightarrow> rat \<Rightarrow> rat \<Rightarrow> int \<Rightarrow> rat \<Rightarrow> rat \<Rightarrow> arms \<Rightarrow> evaluate_switch_output res" where
  "evaluate_switch_handler lm incumbent_usd candidate_usd incumbent_outcomes margin baseline_rate ex =
     res_bind (evaluate_switch lm incumbent_usd candidate_usd incumbent_outcomes ex margin) (\<lambda>v.
     let baseline = (case ov_outcome_verdict v of None \<Rightarrow> baseline_rate | Some w \<Rightarrow> ni_incumbent_rate w)
     in res_bind (margin_options lm baseline) (\<lambda>options.
          Inr \<lparr>eso_incumbent_cost_per_outcome = ov_incumbent_cost_per_outcome v,
               eso_candidate_cost_per_outcome = ov_candidate_cost_per_outcome v,
               eso_pct_change = ov_pct_change v,
               eso_causal_evidence = ov_causal_evidence v,
               eso_safe_to_switch = ov_safe_to_switch v,
               eso_outcome_decided = map_option ni_decided (ov_outcome_verdict v),
               eso_outcome_non_inferior = Option.bind (ov_outcome_verdict v) ni_non_inferior,
               eso_required_n_per_arm = ov_required_n_per_arm v,
               eso_margin_options = options\<rparr>))"

section \<open>Properties of the estimate\<close>

text \<open>The priced traffic of a model: its events that carry a cost.\<close>

definition priced_traffic :: "string \<Rightarrow> cost_event list \<Rightarrow> cost_event list" where
  "priced_traffic m events = filter (\<lambda>e. ce_model e = m \<and> ce_cost_usd e \<noteq> None) events"

lemma reprice_Inr:
  "reprice price pc es (i, c, n) = Inr (i', c', n') \<Longrightarrow>
     (let ps = filter (\<lambda>e. ce_cost_usd e \<noteq> None) es in
      i' = foldl dadd i (map (\<lambda>e. the (ce_cost_usd e)) ps) \<and> n' = n + int (length ps)
      \<and> (\<exists>qs. res_traverse (\<lambda>e. price (ce_tokens e) pc) ps = Inr qs \<and> c' = foldl dadd c (map fst qs)))"
proof (induction es arbitrary: i c n)
  case (Cons e es)
  show ?case
  proof (cases "ce_cost_usd e")
    case None
    with Cons show ?thesis by (simp add: Let_def)
  next
    case (Some a)
    with Cons.prems obtain q w where q: "price (ce_tokens e) pc = Inr (q, w)"
      "reprice price pc es (dadd i a, dadd c q, n + 1) = Inr (i', c', n')" by auto
    from Cons.IH [OF q(2)] Some q(1) show ?thesis by (auto simp: Let_def)
  qed
qed simp

lemma reprice_unpriced:
  "filter (\<lambda>e. ce_cost_usd e \<noteq> None) es = [] \<Longrightarrow> reprice price pc es acc = Inr acc"
  by (induction es) (cases acc; auto split: if_splits)+

text \<open>
  A switch estimate covers exactly the incumbent's priced events: events of another
  model or without a cost change nothing; the incumbent's side is the decimal sum of
  what those events cost, the candidate's side the sum of the same token counts priced
  on the candidate's card, and the event count says how many there were. Without
  traffic, without a price card or without any cost there is no number at all.
\<close>
theorem estimate_switch_covers_traffic:
  "case estimate_switch events inc cand prov book price now of
     Inl e \<Rightarrow> priced_traffic inc events \<noteq> []
   | Inr (Inl NoTraffic) \<Rightarrow> filter (\<lambda>e. ce_model e = inc) events = []
   | Inr (Inl NoPriceCard) \<Rightarrow> card_for book prov cand now = None
   | Inr (Inl NoCosts) \<Rightarrow> priced_traffic inc events = []
   | Inr (Inl NotWired) \<Rightarrow> False
   | Inr (Inr s) \<Rightarrow> priced_traffic inc events \<noteq> []
       \<and> se_event_count s = int (length (priced_traffic inc events))
       \<and> se_incumbent_usd s = dsum (map (\<lambda>e. the (ce_cost_usd e)) (priced_traffic inc events))
       \<and> (\<exists>pc qs. card_for book prov cand now = Some pc
            \<and> res_traverse (\<lambda>e. price (ce_tokens e) pc) (priced_traffic inc events) = Inr qs
            \<and> se_candidate_usd s = dsum (map fst qs))"
proof -
  let ?es = "filter (\<lambda>e. ce_model e = inc) events"
  have pt: "filter (\<lambda>e. ce_cost_usd e \<noteq> None) ?es = priced_traffic inc events"
    by (simp add: priced_traffic_def conj_commute)
  show ?thesis
  proof (cases "?es = []")
    case True
    then show ?thesis by (simp add: estimate_switch_def)
  next
    case ne: False
    show ?thesis
    proof (cases "card_for book prov cand now")
      case None
      with ne show ?thesis by (simp add: estimate_switch_def)
    next
      case (Some pc)
      show ?thesis
      proof (cases "reprice price pc ?es (0, 0, 0)")
        case (Inl e)
        have "priced_traffic inc events \<noteq> []" using reprice_unpriced [of ?es price pc "(0, 0, 0)"] Inl pt by auto
        with ne Some Inl show ?thesis by (simp add: estimate_switch_def)
      next
        case (Inr r)
        obtain i c n where r: "r = (i, c, n)" by (cases r)
        note rp = reprice_Inr [OF Inr [unfolded r], unfolded pt Let_def]
        show ?thesis
        proof (cases "n = 0")
          case True
          then show ?thesis using ne Some Inr r rp by (simp add: estimate_switch_def)
        next
          case False
          then show ?thesis using ne Some Inr r rp by (auto simp: estimate_switch_def dsum_def)
        qed
      qed
    qed
  qed
qed

section \<open>Properties of the verdict\<close>

lemma dec_neg_iff [simp]: "dec x < 0 \<longleftrightarrow> x < 0"
  using dec.rnd_nonneg [of x] dec.rnd_nonpos [of x] dec.rnd_eq_0_iff [of x]
  by (metis less_eq_rat_def not_less)

lemma pct_change_saving:
  assumes "pct_change (Some i) (Some c) = Inr (Some p)" "p < 0" "0 \<le> i"
  shows "c < i"
proof -
  from assms(1) have q: "i \<noteq> 0" "quantize 2 (dmul (ddiv (dsub c i) i) 100) = Inr p"
    by (auto simp: pct_change_def split: if_splits)
  have "dmul (ddiv (dsub c i) i) 100 < 0"
    using quantize_nonneg [OF q(2)] assms(2) by (auto simp: not_le [symmetric])
  then have "dsub c i / i < 0" by (simp add: dmul_def ddiv_def mult_less_0_iff)
  then have "dsub c i < 0" using q(1) assms(3) by (simp add: divide_less_0_iff)
  then show ?thesis by (simp add: dsub_def)
qed

lemma ratio_nonneg: "ratio usd n = Inr (Some r) \<Longrightarrow> 0 \<le> usd \<Longrightarrow> 0 \<le> r"
proof -
  assume a: "ratio usd n = Inr (Some r)" "0 \<le> usd"
  then have "0 < n" "quantize 2 (ddiv usd (of_int n)) = Inr r"
    by (auto simp: ratio_def split: if_splits)
  moreover have "0 \<le> ddiv usd (of_int n)"
    unfolding ddiv_def using a(2) \<open>0 < n\<close> by (intro dec.rnd_nonneg divide_nonneg_nonneg) auto
  ultimately show ?thesis using quantize_nonneg by blast
qed

lemma run_experiment_Some:
  assumes "run_experiment lm ex margin = Inr (Some v)"
  obtains cs cn ics icn where
    "ex = \<lparr>ex_candidate_successes = Some cs, ex_candidate_n = Some cn,
           ex_incumbent_successes = Some ics, ex_incumbent_n = Some icn\<rparr>"
    "non_inferiority lm cs cn ics icn margin default_alpha = Inr v"
proof (cases ex)
  case (fields a b c d)
  with assms show thesis by (auto simp: run_experiment_def split: option.splits intro!: that)
qed

text \<open>
  C24. The system backs a switch only when all of the following hold: both arms of an
  experiment were supplied, the non-inferiority test on them is decided and passed, the
  sample per arm reaches the size the test needs at the requested margin, and the cost
  per outcome on the candidate is strictly below the incumbent's. Exactly a passed test
  earns the randomized evidence label, and a saving without an experiment stays
  observational.
\<close>
theorem safe_to_switch_proven:
  assumes spent: "0 \<le> incumbent_usd"
    and out: "evaluate_switch_handler lm incumbent_usd candidate_usd outcomes margin baseline ex = Inr r"
    and safe: "eso_safe_to_switch r"
  shows "\<exists>cs cn ics icn req i c.
     ex = \<lparr>ex_candidate_successes = Some cs, ex_candidate_n = Some cn,
           ex_incumbent_successes = Some ics, ex_incumbent_n = Some icn\<rparr>
     \<and> required_sample_size lm (dbl (of_int ics / of_int icn)) margin default_alpha default_power = Inr req
     \<and> req \<le> min cn icn \<and> 0 < min cn icn
     \<and> eso_outcome_decided r = Some True \<and> eso_outcome_non_inferior r = Some True
     \<and> eso_causal_evidence r = Randomized
     \<and> eso_incumbent_cost_per_outcome r = Some i \<and> eso_candidate_cost_per_outcome r = Some c \<and> c < i"
proof -
  from out obtain v where v: "evaluate_switch lm incumbent_usd candidate_usd outcomes ex margin = Inr v"
    and r: "eso_incumbent_cost_per_outcome r = ov_incumbent_cost_per_outcome v"
      "eso_candidate_cost_per_outcome r = ov_candidate_cost_per_outcome v"
      "eso_causal_evidence r = ov_causal_evidence v" "eso_safe_to_switch r = ov_safe_to_switch v"
      "eso_outcome_decided r = map_option ni_decided (ov_outcome_verdict v)"
      "eso_outcome_non_inferior r = Option.bind (ov_outcome_verdict v) ni_non_inferior"
    by (auto simp: evaluate_switch_handler_def Let_def)
  from v obtain pi pc p w where
    pi: "ratio incumbent_usd outcomes = Inr pi" and pc: "ratio candidate_usd outcomes = Inr pc"
    and p: "pct_change pi pc = Inr p" and w: "run_experiment lm ex margin = Inr w"
    and e: "ov_incumbent_cost_per_outcome v = pi" "ov_candidate_cost_per_outcome v = pc"
      "ov_outcome_verdict v = w" "ov_causal_evidence v = (if proven w then Randomized else Observational)"
      "ov_safe_to_switch v \<longleftrightarrow> proven w \<and> (case p of None \<Rightarrow> False | Some q \<Rightarrow> q < 0)"
    by (auto simp: evaluate_switch_def Let_def)
  from safe r(4) e(5) obtain ni q where ni: "w = Some ni" "ni_decided ni" "ni_non_inferior ni = Some True"
    and q: "p = Some q" "q < 0" by (auto simp: proven_def split: option.splits)
  from p q obtain i c where ic: "pi = Some i" "pc = Some c"
    by (auto simp: pct_change_def split: option.splits if_splits)
  have "0 \<le> i" using pi ic(1) spent by (auto intro: ratio_nonneg)
  then have "c < i" using p ic q by (auto intro: pct_change_saving)
  moreover from w ni(1) obtain cs cn ics icn where
    ex: "ex = \<lparr>ex_candidate_successes = Some cs, ex_candidate_n = Some cn,
           ex_incumbent_successes = Some ics, ex_incumbent_n = Some icn\<rparr>"
    and t: "non_inferiority lm cs cn ics icn margin default_alpha = Inr ni"
    by (auto elim: run_experiment_Some)
  from non_inferiority_decided [OF t ni(2)] obtain req where
    "required_sample_size lm (dbl (of_int ics / of_int icn)) margin default_alpha default_power = Inr req"
    "req \<le> min cn icn" "0 < min cn icn" by auto
  ultimately show ?thesis using ex r e ni ic by (auto simp: proven_def)
qed

text \<open>
  A concrete safe switch: with no margin at all the sample-size formula asks for two to
  the 31 units per arm, and a library whose error function is already one gives the
  smallest p-value.
\<close>

definition certain_libm :: libm where
  "certain_libm = \<lparr>m_pow = (\<lambda>x y. 0), m_sqrt = (\<lambda>x. 1), m_log = (\<lambda>x. x), m_erf = (\<lambda>x. 1)\<rparr>"

definition full_arms :: arms where
  "full_arms = \<lparr>ex_candidate_successes = Some (2 ^ 30), ex_candidate_n = Some (2 ^ 31),
     ex_incumbent_successes = Some 0, ex_incumbent_n = Some (2 ^ 31)\<rparr>"

lemma variance_nonneg:
  assumes "0 \<le> p" "p \<le> 1" "0 < n"
  shows "0 \<le> fdiv (fmul p (fsub 1 p)) (fint n)"
  unfolding fdiv_def fmul_def fsub_def using assms fint_pos [of n]
  by (intro dbl.rnd_nonneg divide_nonneg_nonneg mult_nonneg_nonneg) auto

lemma certain_verdict:
  "\<exists>v. non_inferiority certain_libm (2 ^ 30) (2 ^ 31) 0 (2 ^ 31) 0 default_alpha = Inr v
     \<and> ni_decided v \<and> ni_non_inferior v = Some True"
proof -
  let ?p = "dbl (of_int (2 ^ 30) / of_int (2 ^ 31))"
  let ?q = "dbl (of_int 0 / of_int (2 ^ 31))"
  let ?var = "fadd (fdiv (fmul ?p (fsub 1 ?p)) (fint (2 ^ 31))) (fdiv (fmul ?q (fsub 1 ?q)) (fint (2 ^ 31)))"
  have "0 \<le> ?p \<and> ?p \<le> 1" "0 \<le> ?q \<and> ?q \<le> 1" by (rule ratio_unit; simp)+
  then have "0 \<le> fdiv (fmul ?p (fsub 1 ?p)) (fint (2 ^ 31))" "0 \<le> fdiv (fmul ?q (fsub 1 ?q)) (fint (2 ^ 31))"
    by (auto intro!: variance_nonneg)
  then have "0 \<le> ?var" unfolding fadd_def by (intro dbl.rnd_nonneg add_nonneg_nonneg)
  then have se: "fsqrt certain_libm ?var = Inr 1" by (simp add: fsqrt_def certain_libm_def)
  have "fmul (dbl (1 / 2)) (fadd 1 1) = 1"
    using is_double_scaled [of 1 1] is_double_int [of 2] by (simp add: fmul_def fadd_def dbl_double)
  then have cdf: "normal_cdf certain_libm z = 1" for z
    by (simp add: normal_cdf_def certain_libm_def)
  have p: "fsub 1 1 < default_alpha"
    unfolding fsub_def default_alpha_def lit_def by (simp add: dbl.rnd_pos)
  show ?thesis
    using se p unfolding non_inferiority_def Let_def
    by (simp add: cdf required_sample_size_def impossible_sample_def)
qed

lemma quantize_of_int_div: "\<bar>n\<bar> < 10 ^ 28 \<Longrightarrow> quantize k (of_int n / 10 ^ k) = Inr (of_int n / 10 ^ k)"
  by (simp add: quantize_def Let_def)

theorem safe_to_switch_proven_witness:
  "\<exists>r cs cn ics icn req i c. evaluate_switch_handler certain_libm 100 50 10 0 0 full_arms = Inr r
     \<and> eso_safe_to_switch r
     \<and> full_arms = \<lparr>ex_candidate_successes = Some cs, ex_candidate_n = Some cn,
           ex_incumbent_successes = Some ics, ex_incumbent_n = Some icn\<rparr>
     \<and> required_sample_size certain_libm (dbl (of_int ics / of_int icn)) 0 default_alpha default_power = Inr req
     \<and> req \<le> min cn icn \<and> eso_causal_evidence r = Randomized
     \<and> eso_incumbent_cost_per_outcome r = Some i \<and> eso_candidate_cost_per_outcome r = Some c \<and> c < i"
proof -
  obtain v where v: "non_inferiority certain_libm (2 ^ 30) (2 ^ 31) 0 (2 ^ 31) 0 default_alpha = Inr v"
    "ni_decided v" "ni_non_inferior v = Some True" using certain_verdict by blast
  then have w: "run_experiment certain_libm full_arms 0 = Inr (Some v)"
    by (simp add: run_experiment_def full_arms_def)
  have d: "dec 10 = 10" "dec 5 = 5" "dec (- 5) = - 5" "dec (- (1 / 2)) = - (1 / 2)" "dec (- 50) = - 50"
    using dec_exact_int [of 10] dec_exact_int [of 5] dec_exact_int [of "- 5"]
      dec_exact_scaled [of "- 5" 1] dec_exact_int [of "- 50"] by (simp_all add: dec.rnd_exact)
  have r: "ratio 100 10 = Inr (Some 10)" "ratio 50 10 = Inr (Some 5)"
    using quantize_of_int_div [of 1000 2] quantize_of_int_div [of 500 2]
    by (simp_all add: ratio_def ddiv_def d)
  have p: "pct_change (Some 10) (Some 5) = Inr (Some (- 50))"
    using quantize_of_int_div [of "- 5000" 2] by (simp add: pct_change_def ddiv_def dsub_def dmul_def d)
  have rate: "ni_incumbent_rate v = 0" using non_inferiority_decided(4) [OF v(1,2)] by simp
  have "\<exists>r. evaluate_switch_handler certain_libm 100 50 10 0 0 full_arms = Inr r \<and> eso_safe_to_switch r"
    by (simp add: evaluate_switch_handler_def evaluate_switch_def r p w rate v required_n_def
        margin_options_def proven_def Let_def)
  then obtain r where r: "evaluate_switch_handler certain_libm 100 50 10 0 0 full_arms = Inr r"
    "eso_safe_to_switch r" by blast
  from safe_to_switch_proven [OF _ r] show ?thesis using r by auto blast
qed

end
