(* ===== verification/Eval_Service.thy ===== *)
theory Eval_Service
  imports Eval_Grade Eval_Criteria Eval_Switch Raw_Records
begin

text \<open>
  The evaluation service and its capability handlers (\<open>eval/service.py\<close>,
  \<open>eval/capabilities.py\<close>) over the stores they use, with the recommendation repository
  (\<open>store/repositories/eval_recommendation.py\<close>). The injected dependencies are the
  record \<open>eval_service\<close>; an absent repository is a flag. The state is the database, the
  table of raw records and the table of recommendations, whose payload is kept as the
  artifact itself. A query without an ordering returns the rows in the order of the
  table.

  Shown: a case of the funnel passes exactly when every exact check and every judged
  criterion of the run accepts it; a run stores its recommendation under the tenant, and
  reading the incumbent afterwards finds it; other tenants see no change. Also shown: the
  grade of a run on the built-in cases is reliable whenever the caller asks for it, while
  every one of its cases was graded directional.
\<close>

section \<open>Recommendations in the store\<close>

record rec_row =
  rcr_tenant_id :: tenant_id
  rcr_id :: string
  rcr_incumbent_model :: string
  rcr_payload :: eval_recommendation

definition rec_row_id :: "eval_recommendation \<Rightarrow> string" where
  "rec_row_id r = er_incumbent_model r @ ''->'' @
     (case er_recommended_model r of None \<Rightarrow> ''None'' | Some m \<Rightarrow> m)"

definition rec_to_row :: "tenant_id \<Rightarrow> eval_recommendation \<Rightarrow> rec_row" where
  "rec_to_row tid r = \<lparr>rcr_tenant_id = tid, rcr_id = rec_row_id r,
     rcr_incumbent_model = er_incumbent_model r, rcr_payload = r\<rparr>"

fun rec_upsert :: "rec_row list \<Rightarrow> tenant_id \<Rightarrow> eval_recommendation \<Rightarrow> rec_row list" where
  "rec_upsert [] tid r = [rec_to_row tid r]"
| "rec_upsert (x # xs) tid r =
     (if rcr_tenant_id x = tid \<and> rcr_id x = rec_row_id r then rec_to_row tid r # xs
      else x # rec_upsert xs tid r)"

definition list_for_incumbent :: "rec_row list \<Rightarrow> tenant_id \<Rightarrow> string \<Rightarrow> eval_recommendation list" where
  "list_for_incumbent rows tid incumbent =
     map rcr_payload (filter (\<lambda>x. rcr_tenant_id x = tid \<and> rcr_incumbent_model x = incumbent) rows)"

section \<open>The service\<close>

record eval_store =
  es_db :: db
  es_raw :: table
  es_recs :: "rec_row list"

record eval_service =
  sv_validator :: validator
  sv_judge :: judge
  sv_tokenizer :: provider_tokenizer
  sv_call :: "string \<Rightarrow> string \<Rightarrow> string res"
  sv_libm :: libm
  sv_repr :: "rat \<Rightarrow> rat"
  sv_regexes :: regexes
  sv_json_loads :: "string \<Rightarrow> json option"
  sv_outcome_wired :: bool
  sv_raw_wired :: bool
  sv_cost_wired :: bool
  sv_pricebook :: "price_card list option"
  sv_price :: "cost_pricer option"

definition FOREVER :: instant where "FOREVER = 253402214400000000"

definition sv_estimate_eval_cost ::
  "eval_service \<Rightarrow> string \<Rightarrow> string list \<Rightarrow> rat \<Rightarrow> rat \<Rightarrow> cost_estimate res" where
  "sv_estimate_eval_cost sv model cases ip op =
     estimate_smoke_cost (sv_tokenizer sv) model cases ip op default_sample_fraction ''''"

definition sv_estimate_full_run ::
  "eval_service \<Rightarrow> bool \<Rightarrow> string \<Rightarrow> string list \<Rightarrow> rat \<Rightarrow> rat \<Rightarrow> cost_estimate res" where
  "sv_estimate_full_run sv phase1_approved model cases ip op =
     res_bind (sv_estimate_eval_cost sv model (if take 1 cases \<noteq> [] then take 1 cases else cases) ip op) (\<lambda>est.
       estimate_full_run_cost
         \<lparr>p1_estimate = est, p1_approved = phase1_approved, p1_auto_approved = False\<rparr>
         (sv_tokenizer sv) model cases ip op default_sample_fraction None '''')"

definition build_replay_case_set_for ::
  "eval_service \<Rightarrow> eval_store \<Rightarrow> tenant_id \<Rightarrow> string \<Rightarrow> nat \<Rightarrow> case_set res" where
  "build_replay_case_set_for sv st tid candidate_model max_cases =
     (if \<not> sv_raw_wired sv then
        Inr \<lparr>cset_cases = [], cset_has_outcome_labels = False, cset_has_human_labels = False,
             cset_reason = Some NoRawRepository\<rparr>
      else
        res_bind (raw_list_recent (es_raw st) tid (max_cases * 3)) (\<lambda>records.
          Inr (build_replay_case_set (parse_samples records) (sv_call sv) candidate_model max_cases)))"

definition estimate_switch_for ::
  "eval_service \<Rightarrow> eval_store \<Rightarrow> tenant_id \<Rightarrow> string \<Rightarrow> string \<Rightarrow> string \<Rightarrow> instant \<Rightarrow> switch_result res" where
  "estimate_switch_for sv st tid incumbent_model candidate_model candidate_provider now =
     (case (sv_pricebook sv, sv_price sv) of
        (Some book, Some price) \<Rightarrow>
          if \<not> sv_cost_wired sv then Inr (Inl NotWired)
          else
            res_bind (cost_list_in_window (es_db st) tid 0 FOREVER) (\<lambda>events.
              estimate_switch events incumbent_model candidate_model candidate_provider book price now)
      | _ \<Rightarrow> Inr (Inl NotWired))"

definition build_case_set_for :: "eval_service \<Rightarrow> eval_store \<Rightarrow> tenant_id \<Rightarrow> case_set res" where
  "build_case_set_for sv st tid =
     (if \<not> sv_outcome_wired sv then
        Inr \<lparr>cset_cases = [], cset_has_outcome_labels = False, cset_has_human_labels = False,
             cset_reason = Some NoOutcomeRepository\<rparr>
      else
        res_bind (outcome_list_in_window (es_db st) tid 0 FOREVER) (\<lambda>os.
          Inr (build_case_set os default_max_cases)))"

definition default_cases :: "eval_case list" where
  "default_cases =
     map (\<lambda>i. (''c'' @ show_nat i, ''resolved'', ''resolved'')) [0..<18]
     @ map (\<lambda>i. (''c'' @ show_nat i, ''resolved'', ''escalated'')) [18..<20]"

fun task_for_label :: "label_source \<Rightarrow> task_type" where
  "task_for_label OutcomeLabel = Classification"
| "task_for_label HumanLabeled = Summarization"
| "task_for_label LlmJudge = OpenEnded"
| "task_for_label Reference = OpenEnded"

definition use_real :: "case_set option \<Rightarrow> bool" where
  "use_real cset = (case cset of None \<Rightarrow> False | Some cs \<Rightarrow> \<not> is_empty_set cs)"

definition selected_cases :: "case_set option \<Rightarrow> eval_case list \<Rightarrow> eval_case list" where
  "selected_cases cset cases =
     (if use_real cset then cset_cases (the cset) else if cases \<noteq> [] then cases else default_cases)"

definition claimed_outcome_labels :: "case_set option \<Rightarrow> bool" where
  "claimed_outcome_labels cset = (use_real cset \<and> cset_has_outcome_labels (the cset))"

definition claimed_human_labels :: "case_set option \<Rightarrow> bool" where
  "claimed_human_labels cset = (use_real cset \<and> cset_has_human_labels (the cset))"

definition all_criteria :: "regexes \<Rightarrow> string \<Rightarrow> eval_criterion list \<Rightarrow> eval_criterion list" where
  "all_criteria rx criterion imported =
     (let cs = compile_criteria rx [criterion] imported
      in if cs = [] then [compile_criterion rx ''''] else cs)"

text \<open>A case decided without the judge is recorded on the weakest rung.\<close>

definition reference_grade :: "string \<Rightarrow> eval_case \<Rightarrow> bool \<Rightarrow> case_grade" where
  "reference_grade candidate_model c p =
     \<lparr>cg_case_id = fst c, cg_candidate_model = candidate_model, cg_passed = p,
      cg_label_source = Reference, cg_grade = Directional,
      cg_incumbent_prediction = fst (snd c), cg_candidate_prediction = snd (snd c), cg_cohort = ''default''\<rparr>"

definition funnel_inputs ::
  "string \<Rightarrow> label_source \<Rightarrow> bool \<Rightarrow> bool \<Rightarrow> eval_case \<Rightarrow> eval_criterion \<Rightarrow> grade_inputs" where
  "funnel_inputs candidate_model s has_outcome has_human c ec =
     \<lparr>gi_case_id = fst c, gi_candidate_model = candidate_model,
      gi_incumbent_prediction = fst (snd c), gi_candidate_prediction = snd (snd c),
      gi_task_type = task_for_label s, gi_has_outcome_labels = has_outcome,
      gi_has_human_labels = has_human, gi_judge_validated = True, gi_rubric = ec_rubric ec,
      gi_cohort = ''default''\<rparr>"

text \<open>The judged criteria in order, stopping at the first failure.\<close>

fun judge_loop :: "(eval_criterion \<Rightarrow> case_grade res) \<Rightarrow> eval_criterion \<Rightarrow> eval_criterion list \<Rightarrow> case_grade res" where
  "judge_loop grade ec [] = grade ec"
| "judge_loop grade ec (ec' # ecs) =
     res_bind (grade ec) (\<lambda>g. if \<not> cg_passed g then Inr g else judge_loop grade ec' ecs)"

definition funnel_case ::
  "eval_service \<Rightarrow> string \<Rightarrow> label_source \<Rightarrow> bool \<Rightarrow> bool \<Rightarrow> eval_criterion list \<Rightarrow> eval_case \<Rightarrow> case_grade res" where
  "funnel_case sv candidate_model s has_outcome has_human criteria c =
     (if \<not> list_all (\<lambda>ec. fst (evaluate_deterministic ec (snd (snd c)))) criteria
      then Inr (reference_grade candidate_model c False)
      else
        (case filter ec_judge_required criteria of
           [] \<Rightarrow> Inr (reference_grade candidate_model c True)
         | ec # ecs \<Rightarrow>
             judge_loop
               (\<lambda>ec. grade_case (funnel_inputs candidate_model s has_outcome has_human c ec)
                        (sv_validator sv) (Some (sv_judge sv)) (Some has_human))
               ec ecs))"

definition funnel_recommendation ::
  "eval_service \<Rightarrow> tenant_id \<Rightarrow> string \<Rightarrow> string \<Rightarrow> label_source \<Rightarrow> case_grade list \<Rightarrow> eval_recommendation res" where
  "funnel_recommendation sv tid incumbent_model candidate_model s graded =
     build_recommendation (sv_libm sv) (sv_repr sv)
       \<lparr>ri_tenant_id = tid, ri_recommended_model = Some candidate_model,
        ri_incumbent_model = incumbent_model, ri_label_source = s, ri_graded_cases = graded,
        ri_latency = \<lparr>p50 = 80, p95 = 180, p99 = 260\<rparr>,
        ri_incumbent_monthly_usd = 1000, ri_candidate_monthly_usd = 250, ri_pareto = [],
        ri_human_label_count = 60\<rparr>"

definition run_eval_funnel ::
  "eval_service \<Rightarrow> eval_store \<Rightarrow> tenant_id \<Rightarrow> string \<Rightarrow> provider_key_ref \<Rightarrow> string \<Rightarrow> label_source
   \<Rightarrow> eval_case list \<Rightarrow> case_set option \<Rightarrow> string \<Rightarrow> eval_criterion list
   \<Rightarrow> (eval_recommendation \<times> eval_store) res" where
  "run_eval_funnel sv st tid incumbent_model candidate candidate_model s cases cset criterion criteria =
     (let ecs = all_criteria (sv_regexes sv) criterion criteria in
      res_bind (res_traverse
          (funnel_case sv candidate_model s (claimed_outcome_labels cset) (claimed_human_labels cset) ecs)
          (selected_cases cset cases)) (\<lambda>graded.
      res_bind (funnel_recommendation sv tid incumbent_model candidate_model s graded) (\<lambda>r.
        if pk_secret_ref candidate = [] then Inl AssertionError
        else Inr (r, st\<lparr>es_recs := rec_upsert (es_recs st) tid r\<rparr>))))"

definition get_recommendation :: "eval_store \<Rightarrow> tenant_id \<Rightarrow> string \<Rightarrow> eval_recommendation option" where
  "get_recommendation st tid incumbent_model =
     (let rows = list_for_incumbent (es_recs st) tid incumbent_model
      in if rows = [] then None else Some (last rows))"

section \<open>Handlers\<close>

text \<open>The holder of a registry: the service once it is bound.\<close>

definition require_service :: "eval_service option \<Rightarrow> eval_service res" where
  "require_service holder = (case holder of None \<Rightarrow> Inl EvalNotWiredError | Some sv \<Rightarrow> Inr sv)"

fun label_source_value :: "label_source \<Rightarrow> string" where
  "label_source_value OutcomeLabel = ''outcome_label''"
| "label_source_value HumanLabeled = ''human_labeled''"
| "label_source_value LlmJudge = ''llm_judge''"
| "label_source_value Reference = ''reference''"

definition label_source_of :: "string \<Rightarrow> label_source res" where
  "label_source_of s =
     (case filter (\<lambda>l. label_source_value l = s) [OutcomeLabel, HumanLabeled, LlmJudge, Reference] of
        [] \<Rightarrow> Inl ValueError | l # _ \<Rightarrow> Inr l)"

record switch_output =
  so_found :: bool
  so_incumbent_usd :: "rat option"
  so_candidate_usd :: "rat option"
  so_pct_change :: "rat option"
  so_event_count :: int
  so_reason :: "no_estimate option"

definition estimate_switch_handler ::
  "eval_service option \<Rightarrow> eval_store \<Rightarrow> string \<Rightarrow> string \<Rightarrow> string \<Rightarrow> string
   \<Rightarrow> instant \<Rightarrow> switch_output res" where
  "estimate_switch_handler holder st tenant incumbent_model candidate_model candidate_provider now =
     res_bind (require_service holder) (\<lambda>sv.
     res_bind (parse_uuid tenant) (\<lambda>tid.
     res_bind (estimate_switch_for sv st tid incumbent_model candidate_model candidate_provider now) (\<lambda>r.
       case r of
         Inl reason \<Rightarrow> Inr \<lparr>so_found = False, so_incumbent_usd = None, so_candidate_usd = None,
           so_pct_change = None, so_event_count = 0, so_reason = Some reason\<rparr>
       | Inr e \<Rightarrow>
           res_bind (case se_pct_change e of
                       None \<Rightarrow> Inr None
                     | Some p \<Rightarrow> res_bind (quantize 1 p) (\<lambda>q. Inr (Some q))) (\<lambda>pct.
             Inr \<lparr>so_found = True, so_incumbent_usd = Some (se_incumbent_usd e),
                  so_candidate_usd = Some (se_candidate_usd e), so_pct_change = pct,
                  so_event_count = se_event_count e, so_reason = None\<rparr>))))"

record run_eval_input =
  rf_tenant_id :: string
  rf_incumbent_model :: string
  rf_candidate_model :: string
  rf_candidate_provider :: string
  rf_candidate_secret_ref :: string
  rf_label_source :: string
  rf_criterion :: string
  rf_promptfoo_jsonl :: string

definition run_eval_funnel_handler ::
  "eval_service option \<Rightarrow> eval_store \<Rightarrow> run_eval_input
   \<Rightarrow> ((string \<times> bool) \<times> eval_store) res" where
  "run_eval_funnel_handler holder st request =
     res_bind (require_service holder) (\<lambda>sv.
     res_bind (parse_uuid (rf_tenant_id request)) (\<lambda>tid.
     res_bind (build_replay_case_set_for sv st tid (rf_candidate_model request) default_replay_cases) (\<lambda>replayed.
     res_bind (if is_empty_set replayed then build_case_set_for sv st tid else Inr replayed) (\<lambda>cset.
     res_bind (label_source_of (rf_label_source request)) (\<lambda>s.
     res_bind (run_eval_funnel sv st tid (rf_incumbent_model request)
         \<lparr>pk_provider = rf_candidate_provider request, pk_secret_ref = rf_candidate_secret_ref request\<rparr>
         (rf_candidate_model request) s [] (Some cset) (rf_criterion request)
         (if rf_promptfoo_jsonl request \<noteq> []
          then is_criteria (import_promptfoo_tests (sv_regexes sv) (sv_json_loads sv)
                 (splitlines (rf_promptfoo_jsonl request)))
          else [])) (\<lambda>(r, st').
       Inr ((''eval-'' @ rf_tenant_id request @ ''-'' @ rf_candidate_model request, True), st')))))))"

record recommendation_output =
  ro_recommended_model :: "string option"
  ro_incumbent_model :: string
  ro_grade :: "eval_grade option"
  ro_label_source :: "label_source option"
  ro_found :: bool

definition get_recommendation_handler ::
  "eval_service option \<Rightarrow> eval_store \<Rightarrow> string \<Rightarrow> string
   \<Rightarrow> recommendation_output res" where
  "get_recommendation_handler holder st tenant incumbent_model =
     res_bind (require_service holder) (\<lambda>sv.
     res_bind (parse_uuid tenant) (\<lambda>tid.
       Inr (case get_recommendation st tid incumbent_model of
              None \<Rightarrow> \<lparr>ro_recommended_model = None, ro_incumbent_model = incumbent_model,
                        ro_grade = None, ro_label_source = None, ro_found = False\<rparr>
            | Some r \<Rightarrow> \<lparr>ro_recommended_model = er_recommended_model r, ro_incumbent_model = er_incumbent_model r,
                          ro_grade = Some (er_grade r), ro_label_source = Some (er_label_source r),
                          ro_found = True\<rparr>)))"

definition approve_gate_handler :: "eval_service option \<Rightarrow> string \<Rightarrow> bool \<Rightarrow> (string \<times> bool) res" where
  "approve_gate_handler holder phase approved =
     res_bind (require_service holder) (\<lambda>sv. Inr (phase, approved))"

text \<open>The registries that were registered, with what is bound to each.\<close>

type_synonym eval_holders = "(nat, eval_service option) dict"

definition eval_register :: "eval_holders \<Rightarrow> nat \<Rightarrow> eval_holders" where
  "eval_register hs reg = (case dict_get hs reg of None \<Rightarrow> dict_set reg None hs | Some _ \<Rightarrow> hs)"

definition eval_bind_runtime :: "eval_holders \<Rightarrow> nat \<Rightarrow> eval_service \<Rightarrow> eval_holders res" where
  "eval_bind_runtime hs reg sv =
     (case dict_get hs reg of None \<Rightarrow> Inl EvalNotWiredError | Some _ \<Rightarrow> Inr (dict_set reg (Some sv) hs))"

section \<open>Grading a case\<close>

lemma judge_loop_Inr:
  "judge_loop grade ec ecs = Inr g \<Longrightarrow>
     cg_passed g \<longleftrightarrow> list_all (\<lambda>e. \<exists>h. grade e = Inr h \<and> cg_passed h) (ec # ecs)"
proof (induction grade ec ecs rule: judge_loop.induct)
  case (2 grade ec ec' ecs)
  then obtain h where h: "grade ec = Inr h" by auto
  show ?case
  proof (cases "cg_passed h")
    case True
    with 2 h show ?thesis by auto
  next
    case False
    with 2 h show ?thesis by auto
  qed
qed auto

lemma judge_loop_Inl: "judge_loop grade ec ecs = Inl e \<Longrightarrow> \<exists>x \<in> set (ec # ecs). grade x = Inl e"
  by (induction grade ec ecs rule: judge_loop.induct) (auto simp: res_bind_eq_Inl split: if_splits)

lemma judge_loop_grade:
  "judge_loop grade ec ecs = Inr g \<Longrightarrow> \<exists>x \<in> set (ec # ecs). grade x = Inr g"
  by (induction grade ec ecs rule: judge_loop.induct) (auto split: if_splits)

abbreviation judged_by ::
  "eval_service \<Rightarrow> string \<Rightarrow> label_source \<Rightarrow> bool \<Rightarrow> bool \<Rightarrow> eval_case \<Rightarrow> eval_criterion \<Rightarrow> case_grade res" where
  "judged_by sv m s ho hh c ec \<equiv>
     grade_case (funnel_inputs m s ho hh c ec) (sv_validator sv) (Some (sv_judge sv)) (Some hh)"

text \<open>
  C25. The funnel's grading of a case, which decides the exact checks first and stops at
  the first criterion the judge fails, agrees with checking everything: a graded case
  passed exactly when its output satisfies every exact check of every criterion and each
  criterion that needs a judge was judged and passed. It fails to grade only when one of
  those judgements raises.
\<close>
theorem funnel_case_all_criteria:
  "case funnel_case sv m s ho hh criteria c of
     Inl e \<Rightarrow> list_ex (\<lambda>ec. judged_by sv m s ho hh c ec = Inl e) (filter ec_judge_required criteria)
   | Inr g \<Rightarrow>
       cg_passed g = (list_all (\<lambda>ec. list_all (\<lambda>k. check_evaluate k (snd (snd c))) (ec_checks ec)) criteria
         \<and> list_all (\<lambda>ec. \<exists>h. judged_by sv m s ho hh c ec = Inr h \<and> cg_passed h)
             (filter ec_judge_required criteria))"
proof (cases "list_all (\<lambda>ec. fst (evaluate_deterministic ec (snd (snd c)))) criteria")
  case exact: True
  then have ok: "list_all (\<lambda>ec. list_all (\<lambda>k. check_evaluate k (snd (snd c))) (ec_checks ec)) criteria"
    by (simp add: list_all_iff evaluate_deterministic_iff)
  show ?thesis
  proof (cases "filter ec_judge_required criteria")
    case Nil
    with exact ok show ?thesis by (simp add: funnel_case_def reference_grade_def)
  next
    case (Cons ec ecs)
    let ?g = "\<lambda>ec. judged_by sv m s ho hh c ec"
    have e: "funnel_case sv m s ho hh criteria c = judge_loop ?g ec ecs"
      using exact Cons by (simp add: funnel_case_def)
    show ?thesis
    proof (cases "judge_loop ?g ec ecs")
      case (Inl x)
      then have "list_ex (\<lambda>ec. ?g ec = Inl x) (ec # ecs)" using judge_loop_Inl [OF Inl] by (auto simp: list_ex_iff)
      then show ?thesis unfolding e Inl Cons by simp
    next
      case (Inr g)
      then show ?thesis unfolding e Inr Cons using judge_loop_Inr [OF Inr] ok by simp
    qed
  qed
next
  case False
  then have "\<not> list_all (\<lambda>ec. list_all (\<lambda>k. check_evaluate k (snd (snd c))) (ec_checks ec)) criteria"
    by (simp add: list_all_iff evaluate_deterministic_iff)
  with False show ?thesis by (simp add: funnel_case_def reference_grade_def)
qed

section \<open>Storing and reading recommendations\<close>

lemma rec_upsert_other:
  "tid' \<noteq> tid \<Longrightarrow> list_for_incumbent (rec_upsert rows tid r) tid' m = list_for_incumbent rows tid' m"
  by (induction rows tid r rule: rec_upsert.induct) (auto simp: list_for_incumbent_def rec_to_row_def)

lemma rec_upsert_in: "r \<in> set (list_for_incumbent (rec_upsert rows tid r) tid (er_incumbent_model r))"
proof -
  have "rec_to_row tid r \<in> set (rec_upsert rows tid r)"
    by (induction rows tid r rule: rec_upsert.induct) auto
  then show ?thesis
    by (force simp: list_for_incumbent_def rec_to_row_def intro!: image_eqI [where x = "rec_to_row tid r"])
qed

lemma list_for_incumbent_model:
  assumes "\<forall>x \<in> set rows. rcr_incumbent_model x = er_incumbent_model (rcr_payload x)"
    and "r \<in> set (list_for_incumbent rows tid m)"
  shows "er_incumbent_model r = m"
  using assms by (auto simp: list_for_incumbent_def)

definition recs_ok :: "rec_row list \<Rightarrow> bool" where
  "recs_ok rows \<longleftrightarrow> distinct (map (\<lambda>x. (rcr_tenant_id x, rcr_id x)) rows)
     \<and> (\<forall>x \<in> set rows. x = rec_to_row (rcr_tenant_id x) (rcr_payload x))"

lemma rec_upsert_keys:
  "(\<lambda>x. (rcr_tenant_id x, rcr_id x)) ` set (rec_upsert rows tid r) =
     insert (tid, rec_row_id r) ((\<lambda>x. (rcr_tenant_id x, rcr_id x)) ` set rows)"
  by (induction rows tid r rule: rec_upsert.induct) (auto simp: rec_to_row_def)

lemma rec_upsert_rows:
  "set (rec_upsert rows tid r) \<subseteq> insert (rec_to_row tid r) (set rows)"
  by (induction rows tid r rule: rec_upsert.induct) auto

lemma rec_upsert_distinct:
  "distinct (map (\<lambda>x. (rcr_tenant_id x, rcr_id x)) rows)
   \<Longrightarrow> distinct (map (\<lambda>x. (rcr_tenant_id x, rcr_id x)) (rec_upsert rows tid r))"
proof (induction rows tid r rule: rec_upsert.induct)
  case (2 x xs tid r)
  show ?case
  proof (cases "rcr_tenant_id x = tid \<and> rcr_id x = rec_row_id r")
    case True
    then show ?thesis using 2 by (simp add: rec_to_row_def)
  next
    case False
    have "(rcr_tenant_id x, rcr_id x) \<notin> (\<lambda>x. (rcr_tenant_id x, rcr_id x)) ` set (rec_upsert xs tid r)"
      unfolding rec_upsert_keys using 2 False by auto
    then show ?thesis using 2 False by auto
  qed
qed simp

lemma rec_upsert_ok: "recs_ok rows \<Longrightarrow> recs_ok (rec_upsert rows tid r)"
proof -
  assume a: "recs_ok rows"
  have "x = rec_to_row (rcr_tenant_id x) (rcr_payload x)" if "x \<in> set (rec_upsert rows tid r)" for x
    using that rec_upsert_rows [of rows tid r] a by (auto simp: recs_ok_def) (auto simp: rec_to_row_def)
  then show ?thesis using a by (auto simp: recs_ok_def intro: rec_upsert_distinct)
qed

section \<open>A run of the funnel\<close>

text \<open>What a run relies on: the power function keeps signs, doubles print faithfully, the judge answers.\<close>

definition service_ok :: "eval_service \<Rightarrow> bool" where
  "service_ok sv \<longleftrightarrow> (\<forall>x. 0 \<le> x \<longrightarrow> 0 \<le> m_pow (sv_libm sv) x (1 / 2)) \<and> decimal_text (sv_repr sv)
     \<and> (\<forall>p r u. \<exists>score. sv_judge sv p r u = Inr score)"

lemma judged_by_total: "service_ok sv \<Longrightarrow> \<exists>g. judged_by sv m s ho hh c ec = Inr g"
proof -
  assume sv: "service_ok sv"
  let ?i = "funnel_inputs m s ho hh c ec"
  obtain score where "sv_judge sv (gi_candidate_prediction ?i) (gi_incumbent_prediction ?i) (gi_rubric ?i) = Inr score"
    using sv unfolding service_ok_def by blast
  then show ?thesis
    by (cases "select_label_source ?i (sv_validator sv)") (simp_all add: grade_case_def passed_for_def Let_def)
qed

lemma judge_loop_total: "(\<And>x. \<exists>g. grade x = Inr g) \<Longrightarrow> \<exists>g. judge_loop grade ec ecs = Inr g"
proof (cases "judge_loop grade ec ecs")
  case (Inl e)
  assume "\<And>x. \<exists>g. grade x = Inr g"
  with judge_loop_Inl [OF Inl] show ?thesis by (metis Inl_Inr_False)
qed simp

lemma funnel_case_total:
  assumes "service_ok sv"
  shows "\<exists>g. funnel_case sv m s ho hh criteria c = Inr g"
proof (cases "list_all (\<lambda>ec. fst (evaluate_deterministic ec (snd (snd c)))) criteria")
  case True
  show ?thesis
  proof (cases "filter ec_judge_required criteria")
    case Nil
    with True show ?thesis by (simp add: funnel_case_def)
  next
    case (Cons ec ecs)
    have "\<exists>g. judge_loop (judged_by sv m s ho hh c) ec ecs = Inr g"
      by (rule judge_loop_total, rule judged_by_total [OF assms])
    with True Cons show ?thesis by (simp add: funnel_case_def)
  qed
qed (simp add: funnel_case_def)

lemma funnel_cases_total:
  assumes "service_ok sv"
  shows "\<exists>gs. res_traverse (funnel_case sv m s ho hh criteria) cs = Inr gs"
proof (induction cs)
  case (Cons c cs)
  then show ?case using funnel_case_total [OF assms, of m s ho hh criteria c] by auto
qed simp

lemma funnel_recommendation_total:
  assumes "service_ok sv"
  shows "\<exists>r. funnel_recommendation sv tid inc m s graded = Inr r \<and> er_incumbent_model r = inc
     \<and> er_tenant_id r = tid \<and> er_grade r = grade_for_label_source s"
proof -
  have pow: "0 \<le> m_pow (sv_libm sv) x (1 / 2)" if "0 \<le> x" for x using assms that by (simp add: service_ok_def)
  have dt: "decimal_text (sv_repr sv)" using assms by (simp add: service_ok_def)
  from build_recommendation_ok [OF pow dt] obtain r where r: "funnel_recommendation sv tid inc m s graded = Inr r"
    unfolding funnel_recommendation_def by blast
  then show ?thesis
    unfolding funnel_recommendation_def using build_recommendation_fields [of "sv_libm sv" "sv_repr sv" _ r] by fastforce
qed

lemma get_recommendation_Some:
  assumes "recs_ok (es_recs st)" "list_for_incumbent (es_recs st) tid inc \<noteq> []"
  shows "\<exists>x. get_recommendation st tid inc = Some x \<and> er_incumbent_model x = inc"
proof -
  let ?l = "list_for_incumbent (es_recs st) tid inc"
  have "\<forall>x \<in> set (es_recs st). rcr_incumbent_model x = er_incumbent_model (rcr_payload x)"
    using assms(1) by (auto simp: recs_ok_def rec_to_row_def)
      (metis rec_row.select_convs(3))
  then have "er_incumbent_model (last ?l) = inc"
    using assms(2) last_in_set list_for_incumbent_model by blast
  then show ?thesis using assms(2) by (simp add: get_recommendation_def Let_def)
qed

lemma run_eval_funnel_ok:
  assumes sv: "service_ok sv" and key: "pk_secret_ref cand \<noteq> []" and ok: "recs_ok (es_recs st)"
  shows "\<exists>r st'. run_eval_funnel sv st tid inc cand m s cases cset criterion criteria = Inr (r, st')
    \<and> er_tenant_id r = tid \<and> er_incumbent_model r = inc
    \<and> recs_ok (es_recs st') \<and> r \<in> set (list_for_incumbent (es_recs st') tid inc)
    \<and> es_db st' = es_db st \<and> es_raw st' = es_raw st
    \<and> (\<forall>other. other = tid \<or> (\<forall>i. list_for_incumbent (es_recs st') other i = list_for_incumbent (es_recs st) other i))
    \<and> (\<exists>x. get_recommendation st' tid inc = Some x \<and> er_incumbent_model x = inc)"
proof -
  obtain gs where gs: "res_traverse (funnel_case sv m s (claimed_outcome_labels cset) (claimed_human_labels cset)
      (all_criteria (sv_regexes sv) criterion criteria)) (selected_cases cset cases) = Inr gs"
    using funnel_cases_total [OF sv] by blast
  obtain r where r: "funnel_recommendation sv tid inc m s gs = Inr r" "er_incumbent_model r = inc" "er_tenant_id r = tid"
    using funnel_recommendation_total [OF sv] by blast
  let ?st = "st\<lparr>es_recs := rec_upsert (es_recs st) tid r\<rparr>"
  have run: "run_eval_funnel sv st tid inc cand m s cases cset criterion criteria = Inr (r, ?st)"
    using gs r(1) key by (simp add: run_eval_funnel_def Let_def)
  have ok': "recs_ok (es_recs ?st)" using ok by (simp add: rec_upsert_ok)
  have mem: "r \<in> set (list_for_incumbent (es_recs ?st) tid inc)"
    using rec_upsert_in [of r "es_recs st" tid] r(2) by simp
  then have "\<exists>x. get_recommendation ?st tid inc = Some x \<and> er_incumbent_model x = inc"
    using ok' by (intro get_recommendation_Some) auto
  moreover have "other = tid \<or> (\<forall>i. list_for_incumbent (es_recs ?st) other i = list_for_incumbent (es_recs st) other i)" for other
    by (cases "other = tid") (simp_all add: rec_upsert_other)
  ultimately show ?thesis using run r ok' mem by auto
qed

text \<open>
  C26. A run of the funnel always produces a recommendation when the judge answers and a
  key reference is given: for any cases, criteria and label source it returns one for
  the tenant and the incumbent, keeps the recommendation table well formed (one row per
  tenant and comparison), makes the new artifact readable under the incumbent, leaves
  the other tables and every other tenant's recommendations as they were, and from then
  on asking for the incumbent's recommendation finds one.
\<close>
theorem run_eval_funnel_stores:
  assumes sv: "service_ok sv" and key: "pk_secret_ref cand \<noteq> []" and ok: "recs_ok (es_recs st)"
  shows "\<exists>r st'. run_eval_funnel sv st tid inc cand m s cases cset criterion criteria = Inr (r, st')
    \<and> er_tenant_id r = tid \<and> er_incumbent_model r = inc
    \<and> recs_ok (es_recs st') \<and> r \<in> set (list_for_incumbent (es_recs st') tid inc)
    \<and> es_db st' = es_db st \<and> es_raw st' = es_raw st
    \<and> (\<forall>other. other = tid \<or> (\<forall>i. list_for_incumbent (es_recs st') other i = list_for_incumbent (es_recs st) other i))
    \<and> (\<exists>x. get_recommendation st' tid inc = Some x \<and> er_incumbent_model x = inc)"
  by (rule run_eval_funnel_ok [OF assms])

definition sample_service :: eval_service where
  "sample_service = \<lparr>sv_validator = is_reconstructible_task, sv_judge = (\<lambda>p r u. Inr 1),
     sv_tokenizer = \<lparr>count_input_tokens = (\<lambda>m t. int (length t)), sample_output_tokens = (\<lambda>m t. 7)\<rparr>,
     sv_call = (\<lambda>m p. Inr p), sv_libm = sample_libm, sv_repr = id,
     sv_regexes = \<lparr>rx_max_words = (\<lambda>t. None), rx_min_words = (\<lambda>t. None), rx_must_not_contain = (\<lambda>t. []),
       rx_must_contain = (\<lambda>t. []), rx_remainder_word = (\<lambda>t. True), py_repr = id\<rparr>,
     sv_json_loads = (\<lambda>t. None), sv_outcome_wired = True, sv_raw_wired = True, sv_cost_wired = True,
     sv_pricebook = None, sv_price = None\<rparr>"

definition sample_store :: eval_store where
  "sample_store = \<lparr>es_db = empty_db, es_raw = [], es_recs = []\<rparr>"

definition sample_key :: provider_key_ref where
  "sample_key = \<lparr>pk_provider = ''anthropic'', pk_secret_ref = ''ANTHROPIC_API_KEY''\<rparr>"

lemma sample_service_ok: "service_ok sample_service"
  by (simp add: service_ok_def sample_service_def sample_libm_def decimal_text_def dbl_double)

theorem run_eval_funnel_stores_witness:
  "\<exists>r st'. run_eval_funnel sample_service sample_store ''t1'' ''large'' sample_key ''small'' LlmJudge
       [(''c1'', ''yes'', ''yes'')] None '''' [] = Inr (r, st')
     \<and> r \<in> set (list_for_incumbent (es_recs st') ''t1'' ''large'')
     \<and> (\<exists>x. get_recommendation st' ''t1'' ''large'' = Some x)"
proof -
  have "pk_secret_ref sample_key \<noteq> []" "recs_ok (es_recs sample_store)"
    by (simp_all add: sample_key_def sample_store_def recs_ok_def)
  from run_eval_funnel_stores [OF sample_service_ok this] show ?thesis by blast
qed

section \<open>Claimed and earned grades\<close>

lemma grade_without_labels:
  assumes "judged_by sv m s False False c ec = Inr g"
  shows "cg_grade g = Directional"
  using assms
  by (auto simp: grade_case_def Let_def select_label_source_def grade_for_label_source_def funnel_inputs_def)

lemma funnel_case_without_labels:
  assumes "funnel_case sv m s False False criteria c = Inr g"
  shows "cg_grade g = Directional"
proof (cases "list_all (\<lambda>ec. fst (evaluate_deterministic ec (snd (snd c)))) criteria")
  case True
  show ?thesis
  proof (cases "filter ec_judge_required criteria")
    case Nil
    with True assms show ?thesis by (auto simp: funnel_case_def reference_grade_def)
  next
    case (Cons ec ecs)
    then have "judge_loop (judged_by sv m s False False c) ec ecs = Inr g"
      using True assms by (simp add: funnel_case_def)
    from judge_loop_grade [OF this] show ?thesis by (auto dest: grade_without_labels)
  qed
qed (use assms in \<open>auto simp: funnel_case_def reference_grade_def\<close>)

text \<open>
  The grade of a run is the caller's claim, not what its cases earned: with no real
  case set the run grades the twenty built-in cases and every one of them is graded
  directional, yet when the caller names an outcome or human label source the
  recommendation it returns and stores is graded reliable.
\<close>
theorem default_cases_graded_reliable:
  assumes sv: "service_ok sv" and key: "pk_secret_ref cand \<noteq> []" and cs: "\<not> use_real cset"
    and s: "s \<in> {OutcomeLabel, HumanLabeled}"
  shows "\<exists>graded r st'. res_traverse (funnel_case sv m s False False (all_criteria (sv_regexes sv) criterion criteria))
        default_cases = Inr graded
    \<and> length graded = 20 \<and> list_all (\<lambda>g. cg_grade g = Directional) graded
    \<and> run_eval_funnel sv st tid inc cand m s [] cset criterion criteria = Inr (r, st')
    \<and> er_grade r = Reliable \<and> me_human_labels (er_methodology r) = 60"
proof -
  obtain gs where gs: "res_traverse (funnel_case sv m s False False (all_criteria (sv_regexes sv) criterion criteria))
      default_cases = Inr gs" using funnel_cases_total [OF sv] by blast
  obtain r where r: "funnel_recommendation sv tid inc m s gs = Inr r" "er_grade r = grade_for_label_source s"
    using funnel_recommendation_total [OF sv] by blast
  have "length gs = 20" using res_traverse_length [OF gs] by (simp add: default_cases_def)
  moreover have "list_all (\<lambda>g. cg_grade g = Directional) gs"
    unfolding list_all_length using funnel_case_without_labels res_traverse_nth [OF gs]
    by (metis gs res_traverse_length)
  moreover have "run_eval_funnel sv st tid inc cand m s [] cset criterion criteria
      = Inr (r, st\<lparr>es_recs := rec_upsert (es_recs st) tid r\<rparr>)"
    using gs r(1) key cs
    by (simp add: run_eval_funnel_def Let_def selected_cases_def claimed_outcome_labels_def claimed_human_labels_def)
  moreover have "me_human_labels (er_methodology r) = 60"
    using r(1) by (auto simp: funnel_recommendation_def build_recommendation_def Let_def eval_recommendation_new_def)
  moreover have "er_grade r = Reliable" using r(2) s by (auto simp: grade_for_label_source_def)
  ultimately show ?thesis using gs by blast
qed

theorem default_cases_graded_reliable_witness:
  "\<exists>r st'. run_eval_funnel sample_service sample_store ''t1'' ''large'' sample_key ''small'' OutcomeLabel
       [] None '''' [] = Inr (r, st') \<and> er_grade r = Reliable"
proof -
  have "pk_secret_ref sample_key \<noteq> []" "\<not> use_real None" by (simp_all add: sample_key_def use_real_def)
  from default_cases_graded_reliable [OF sample_service_ok this, of OutcomeLabel] show ?thesis by blast
qed

text \<open>
  The recommendation read back need not be the one stored last: storing a newer
  comparison for a model pair that was stored before replaces its row in place, so after
  comparing a second candidate and then the first again, the read returns the second.
\<close>
theorem get_recommendation_not_latest:
  assumes "a \<noteq> b" "er_incumbent_model r1 = inc" "er_incumbent_model r2 = inc" "er_incumbent_model r3 = inc"
    "er_recommended_model r1 = Some a" "er_recommended_model r2 = Some b" "er_recommended_model r3 = Some a"
  shows "get_recommendation \<lparr>es_db = d, es_raw = w,
      es_recs = rec_upsert (rec_upsert (rec_upsert [] tid r1) tid r2) tid r3\<rparr> tid inc = Some r2"
  using assms
  by (simp add: rec_row_id_def rec_to_row_def get_recommendation_def list_for_incumbent_def Let_def)

theorem get_recommendation_not_latest_witness:
  "\<exists>r2 :: eval_recommendation. er_recommended_model r2 = Some ''mid''
     \<and> (\<exists>d w recs. get_recommendation \<lparr>es_db = d, es_raw = w, es_recs = recs\<rparr> ''t1'' ''large'' = Some r2)"
proof -
  obtain r :: eval_recommendation where r: "funnel_recommendation sample_service ''t1'' ''large'' ''small'' LlmJudge [] = Inr r"
    using funnel_recommendation_total [OF sample_service_ok] by blast
  let ?a = "r\<lparr>er_incumbent_model := ''large'', er_recommended_model := Some ''small''\<rparr>"
  let ?b = "r\<lparr>er_incumbent_model := ''large'', er_recommended_model := Some ''mid''\<rparr>"
  have "get_recommendation \<lparr>es_db = empty_db, es_raw = [],
      es_recs = rec_upsert (rec_upsert (rec_upsert [] ''t1'' ?a) ''t1'' ?b) ''t1'' ?a\<rparr> ''t1'' ''large'' = Some ?b"
    by (rule get_recommendation_not_latest [where a = "''small''" and b = "''mid''"]) simp_all
  then show ?thesis by (intro exI [of _ ?b]) auto
qed

end
