(* ===== verification/Eval_Dataset.thy ===== *)
theory Eval_Dataset
  imports Eval_Grade Python_Text "HOL-Library.Sublist" "HOL-Library.Multiset"
begin

text \<open>
  The evaluation data (\<open>eval/dataset.py\<close>) and the discovery of agents
  (\<open>eval/discover.py\<close>), with the store of datasets (\<open>store/repositories/eval_dataset.py\<close>).
  The injected random source passes its state along; SHA-256, the prompt skeleton and the
  embedding key are arguments.

  Shown: a dataset keeps every outcome-bound trace, reaches the requested size when there
  are traces for it and represents every stratum the budget has room for; a validated
  judge agrees with at least nine in ten labels of either kind; discovery puts every call
  in exactly one cluster, and two calls together exactly when their identity agrees.
\<close>

section \<open>Datasets\<close>

datatype stratum = Frequent | LongTail | Adversarial | Failure

fun stratum_value :: "stratum \<Rightarrow> string" where
  "stratum_value Frequent = ''frequent''"
| "stratum_value LongTail = ''long_tail''"
| "stratum_value Adversarial = ''adversarial''"
| "stratum_value Failure = ''failure''"

record trace_record =
  tr_trace_id :: string
  tr_inputs :: "(string \<times> json) list"
  tr_incumbent_output :: string
  tr_stratum :: stratum
  tr_is_outcome_bound :: bool
  tr_outcome_label :: "bool option"
  tr_label_source :: label_source

record dataset_case =
  dk_id :: string
  dk_inputs :: "(string \<times> json) list"
  dk_label_source :: label_source
  dk_source_trace_id :: "string option"

record eval_dataset =
  ed_tenant_id :: tenant_id
  ed_id :: string
  ed_name :: string
  ed_version :: int
  ed_cases :: "dataset_case list"

type_synonym 's rng = "'s \<Rightarrow> trace_record list \<Rightarrow> nat \<Rightarrow> trace_record list \<times> 's"

definition to_case :: "trace_record \<Rightarrow> dataset_case" where
  "to_case t =
     \<lparr>dk_id = ''case-'' @ tr_trace_id t,
      dk_inputs = dict_set ''_eval_outcome_label'' (case tr_outcome_label t of None \<Rightarrow> JNull | Some b \<Rightarrow> JBool b)
        (dict_set ''_eval_reference_output'' (JStr (tr_incumbent_output t))
          (dict_set ''_eval_stratum'' (JStr (stratum_value (tr_stratum t))) (tr_inputs t))),
      dk_label_source = tr_label_source t, dk_source_trace_id = Some (tr_trace_id t)\<rparr>"

text \<open>The pass over the strata in the order of their text, until the budget is spent.\<close>

definition strata_present :: "trace_record list \<Rightarrow> stratum list" where
  "strata_present remainder = sort_key stratum_value (remdups (map tr_stratum remainder))"

fun pick_strata ::
  "'s rng \<Rightarrow> nat \<Rightarrow> trace_record list \<Rightarrow> stratum list \<Rightarrow> trace_record list \<Rightarrow> 's \<Rightarrow> trace_record list \<times> 's" where
  "pick_strata sample budget remainder [] selected s = (selected, s)"
| "pick_strata sample budget remainder (st # sts) selected s =
     (if budget \<le> length selected then (selected, s)
      else
        (case sample s (filter (\<lambda>t. tr_stratum t = st) remainder) 1 of
           (picks, s') \<Rightarrow> pick_strata sample budget remainder sts (selected @ [hd picks]) s'))"

definition sample_stratified ::
  "'s rng \<Rightarrow> trace_record list \<Rightarrow> nat \<Rightarrow> 's \<Rightarrow> trace_record list \<times> 's" where
  "sample_stratified sample remainder budget s =
     (case pick_strata sample budget remainder (strata_present remainder) [] s of (selected, s1) \<Rightarrow>
        (let leftover = filter (\<lambda>t. tr_trace_id t \<notin> tr_trace_id ` set selected) remainder;
             fill = budget - length selected
         in if fill \<noteq> 0 \<and> leftover \<noteq> []
            then (case sample s1 leftover (min fill (length leftover)) of (extra, s2) \<Rightarrow>
                    (take budget (selected @ extra), s2))
            else (take budget selected, s1)))"

definition build_dataset ::
  "'s rng \<Rightarrow> tenant_id \<Rightarrow> string \<Rightarrow> trace_record list \<Rightarrow> int \<Rightarrow> int \<Rightarrow> 's \<Rightarrow> eval_dataset \<times> 's" where
  "build_dataset sample tid name traces target_size prior_version s =
     (let outcome_bound = filter tr_is_outcome_bound traces;
          remainder = filter (\<lambda>t. \<not> tr_is_outcome_bound t) traces;
          budget = nat (max 0 (target_size - int (length outcome_bound)));
          (extra, s') = (if budget \<noteq> 0 \<and> remainder \<noteq> [] then sample_stratified sample remainder budget s else ([], s))
      in (\<lparr>ed_tenant_id = tid, ed_id = name @ ''-v'' @ show_int (prior_version + 1), ed_name = name,
           ed_version = prior_version + 1, ed_cases = map to_case (outcome_bound @ extra)\<rparr>, s'))"

definition stratum_of :: "dataset_case \<Rightarrow> stratum res" where
  "stratum_of c =
     (case dict_get (dk_inputs c) ''_eval_stratum'' of
        None \<Rightarrow> Inl KeyError
      | Some (JStr v) \<Rightarrow>
          (case filter (\<lambda>s. stratum_value s = v) [Frequent, LongTail, Adversarial, Failure] of
             [] \<Rightarrow> Inl ValueError | s # _ \<Rightarrow> Inr s)
      | Some _ \<Rightarrow> Inl ValueError)"

definition reference_output_of :: "dataset_case \<Rightarrow> string res" where
  "reference_output_of c =
     (case dict_get (dk_inputs c) ''_eval_reference_output'' of
        None \<Rightarrow> Inl KeyError | Some (JStr v) \<Rightarrow> Inr v | Some _ \<Rightarrow> Inl AssertionError)"

section \<open>Judge validation\<close>

record human_label =
  hl_case_id :: string
  hl_prediction :: string
  hl_reference :: string
  hl_human_positive :: bool

record judge_validation =
  jv_tpr :: rat
  jv_tnr :: rat
  jv_n :: int
  jv_validated :: bool

definition judge_pass :: "(string, rat) dict \<Rightarrow> rat \<Rightarrow> human_label \<Rightarrow> bool" where
  "judge_pass judge_scores threshold l \<longleftrightarrow>
     threshold \<le> (case dict_get judge_scores (hl_case_id l) of None \<Rightarrow> 0 | Some x \<Rightarrow> x)"

definition count_of :: "('a \<Rightarrow> bool) \<Rightarrow> 'a list \<Rightarrow> int" where
  "count_of P xs = int (length (filter P xs))"

definition int_ratio :: "int \<Rightarrow> int \<Rightarrow> rat" where
  "int_ratio a n = (if n \<noteq> 0 then dbl (of_int a / of_int n) else 0)"

definition validate_judge :: "human_label list \<Rightarrow> (string, rat) dict \<Rightarrow> rat \<Rightarrow> judge_validation res" where
  "validate_judge labels judge_scores threshold =
     (if \<not> (0 < threshold \<and> threshold < 1) then Inl ValueError
      else
        (let jp = judge_pass judge_scores threshold;
             n = int (length labels);
             tp = count_of (\<lambda>l. hl_human_positive l \<and> jp l) labels;
             fn = count_of (\<lambda>l. hl_human_positive l \<and> \<not> jp l) labels;
             fp = count_of (\<lambda>l. \<not> hl_human_positive l \<and> jp l) labels;
             tn = count_of (\<lambda>l. \<not> hl_human_positive l \<and> \<not> jp l) labels;
             tpr = int_ratio tp (tp + fn);
             tnr = int_ratio tn (tn + fp)
         in Inr \<lparr>jv_tpr = tpr, jv_tnr = tnr, jv_n = n,
                 jv_validated = (50 \<le> n \<and> lit 9 1 \<le> tpr \<and> lit 9 1 \<le> tnr)\<rparr>))"

section \<open>Discovery\<close>

definition TASK_CUES :: "(task_type \<times> string list) list" where
  "TASK_CUES =
     [(Classification, [''classify'', ''categorize'', ''categorise'', ''label as'', ''is this'']),
      (Extraction, [''extract'', ''parse'', ''pull the'', ''find the field'']),
      (DeterministicResolution, [''resolve'', ''look up'', ''compute'', ''calculate'']),
      (Summarization, [''summarize'', ''summarise'', ''tl;dr'', ''condense''])]"

definition detect_task_type :: "string \<Rightarrow> task_type" where
  "detect_task_type prompt =
     (case filter (\<lambda>(t, cues). list_ex (\<lambda>cue. sublist cue (lower prompt)) cues) TASK_CUES of
        [] \<Rightarrow> OpenEnded | (t, _) # _ \<Rightarrow> t)"

record captured_call =
  cc_id :: string
  cc_call_site :: string
  cc_tool_names :: "string list"
  cc_template_id :: "string option"
  cc_prompt :: string

record cluster_candidate =
  cl_cluster_id :: string
  cl_member_ids :: "string list"
  cl_skeleton_hash :: string
  cl_task_type :: task_type
  cl_confidence :: rat
  cl_confirmed :: bool

record discover_host =
  dh_sha256 :: "string \<Rightarrow> string"
  dh_templatize :: "string \<Rightarrow> string"
  dh_embed_key :: "(string \<Rightarrow> string) option"

definition tool_set_fingerprint :: "discover_host \<Rightarrow> string list \<Rightarrow> string" where
  "tool_set_fingerprint h tools = dh_sha256 h (join_with '','' (sort (remdups tools)))"

definition skeleton_hash :: "discover_host \<Rightarrow> string \<Rightarrow> string" where
  "skeleton_hash h prompt = dh_sha256 h (dh_templatize h prompt)"

definition identity_key :: "discover_host \<Rightarrow> captured_call \<Rightarrow> string" where
  "identity_key h c =
     (case cc_template_id c of
        Some t \<Rightarrow> ''tmpl:'' @ t
      | None \<Rightarrow>
          if cc_call_site c \<noteq> [] then ''site:'' @ cc_call_site c
          else if cc_tool_names c \<noteq> [] then ''tools:'' @ tool_set_fingerprint h (cc_tool_names c)
          else
            (case dh_embed_key h of
               None \<Rightarrow> ''drain:'' @ skeleton_hash h (cc_prompt c)
             | Some e \<Rightarrow> ''embed:'' @ dh_sha256 h (e (cc_prompt c))))"

definition cluster_confidence :: "string \<Rightarrow> rat" where
  "cluster_confidence key =
     (if prefix ''tmpl:'' key \<or> prefix ''site:'' key \<or> prefix ''tools:'' key then lit 95 2 else lit 7 1)"

definition cluster_of :: "discover_host \<Rightarrow> string \<times> captured_call list \<Rightarrow> cluster_candidate" where
  "cluster_of h b =
     (let ordered = sort_key cc_id (snd b)
      in \<lparr>cl_cluster_id = fst b, cl_member_ids = map cc_id ordered,
          cl_skeleton_hash = skeleton_hash h (cc_prompt (hd ordered)),
          cl_task_type = detect_task_type (cc_prompt (hd ordered)),
          cl_confidence = cluster_confidence (fst b), cl_confirmed = False\<rparr>)"

definition call_buckets :: "discover_host \<Rightarrow> captured_call list \<Rightarrow> (string, captured_call list) dict" where
  "call_buckets h calls = foldl (\<lambda>d c. dict_push (identity_key h c) c d) [] calls"

definition discover_clusters :: "discover_host \<Rightarrow> captured_call list \<Rightarrow> cluster_candidate list" where
  "discover_clusters h calls =
     (if calls = [] then [] else map (cluster_of h) (sort_key fst (call_buckets h calls)))"

text \<open>The request's call sites and prompts are paired; the longer list is cut.\<close>

definition calls_from :: "string list \<Rightarrow> string list \<Rightarrow> captured_call list" where
  "calls_from call_sites prompts =
     map (\<lambda>(i, site, prompt). \<lparr>cc_id = ''call-'' @ show_nat i, cc_call_site = site, cc_tool_names = [],
            cc_template_id = None, cc_prompt = prompt\<rparr>)
       (zip [0..<min (length call_sites) (length prompts)] (zip call_sites prompts))"

definition discover_agents_handler ::
  "discover_host option \<Rightarrow> string list \<Rightarrow> string list \<Rightarrow> (string list \<times> int) res" where
  "discover_agents_handler holder call_sites prompts =
     (case holder of
        None \<Rightarrow> Inl EvalNotWiredError
      | Some h \<Rightarrow>
          (let clusters = discover_clusters h (calls_from call_sites prompts)
           in Inr (map cl_cluster_id clusters, int (length clusters))))"

section \<open>Stratified sampling\<close>

text \<open>What \<open>random.Random.sample\<close> promises: as many elements as asked for, from different positions.\<close>

definition rng_ok :: "'s rng \<Rightarrow> bool" where
  "rng_ok sample \<longleftrightarrow> (\<forall>s pool k. k \<le> length pool \<longrightarrow>
     length (fst (sample s pool k)) = k \<and> mset (fst (sample s pool k)) \<subseteq># mset pool)"

lemma distinct_submset:
  assumes "mset xs \<subseteq># mset ys" "distinct ys"
  shows "distinct xs"
  unfolding distinct_count_atmost_1
proof
  fix a
  have "count (mset xs) a \<le> count (mset ys) a" using assms(1) by (rule mset_subset_eq_count)
  also have "\<dots> \<le> 1" using assms(2) by (simp add: distinct_count_atmost_1)
  finally have "count (mset xs) a \<le> 1" .
  moreover have "0 < count (mset xs) a \<longleftrightarrow> a \<in> set xs" by (simp only: count_greater_zero_iff set_mset_mset)
  ultimately show "count (mset xs) a = (if a \<in> set xs then 1 else 0)" by (simp only: split: if_split) linarith
qed

lemma rng_ok_set:
  assumes "rng_ok sample" "k \<le> length pool"
  shows "length (fst (sample s pool k)) = k" "set (fst (sample s pool k)) \<subseteq> set pool"
    "distinct pool \<Longrightarrow> distinct (fst (sample s pool k))"
  using assms set_mset_mono [of "mset (fst (sample s pool k))" "mset pool"]
  unfolding rng_ok_def by (auto intro: distinct_submset)

lemma pick_strata_spec:
  assumes "rng_ok sample" "set sts \<subseteq> tr_stratum ` set remainder"
    "pick_strata sample budget remainder sts selected s = (selected', s')"
  shows "\<exists>ps. selected' = selected @ ps \<and> map tr_stratum ps = take (budget - length selected) sts
    \<and> set ps \<subseteq> set remainder"
  using assms(2,3)
proof (induction sts arbitrary: selected s)
  case (Cons st sts)
  show ?case
  proof (cases "budget \<le> length selected")
    case True
    then show ?thesis using Cons.prems by auto
  next
    case False
    let ?pool = "filter (\<lambda>t. tr_stratum t = st) remainder"
    obtain picks s1 where p: "sample s ?pool 1 = (picks, s1)" by (cases "sample s ?pool 1")
    have "?pool \<noteq> []" using Cons.prems(1) by (auto simp: filter_empty_conv)
    then have "1 \<le> length ?pool" by (cases ?pool) auto
    from rng_ok_set(1,2) [OF assms(1) this, of s] p have pk: "length picks = 1" "set picks \<subseteq> set ?pool" by auto
    then have h: "hd picks \<in> set ?pool" by (cases picks) auto
    from Cons.prems(2) p False have
      "pick_strata sample budget remainder sts (selected @ [hd picks]) s1 = (selected', s')" by simp
    from Cons.IH [OF _ this] Cons.prems(1) obtain ps where
      ps: "selected' = (selected @ [hd picks]) @ ps" "set ps \<subseteq> set remainder"
        "map tr_stratum ps = take (budget - length (selected @ [hd picks])) sts" by auto
    have "budget - length selected = Suc (budget - length (selected @ [hd picks]))" using False by simp
    then show ?thesis using ps h by (intro exI [of _ "hd picks # ps"]) auto
  qed
qed simp

lemma strata_present_set [simp]: "set (strata_present r) = tr_stratum ` set r"
  by (simp add: strata_present_def)

lemma strata_present_distinct: "distinct (strata_present r)"
  by (simp add: strata_present_def)

lemma strata_present_length: "length (strata_present r) \<le> length r"
  by (simp add: strata_present_def) (metis length_map length_remdups_leq)

lemma filter_ids_length:
  assumes "distinct (map f xs)" "set ps \<subseteq> set xs" "distinct ps"
  shows "length (filter (\<lambda>t. f t \<notin> f ` set ps) xs) = length xs - length ps"
proof -
  have inj: "inj_on f (set xs)" using assms(1) by (simp add: distinct_map)
  have "{x \<in> set xs. f x \<notin> f ` set ps} = set xs - set ps"
    using inj assms(2) by (auto dest: inj_onD)
  then have "set (filter (\<lambda>t. f t \<notin> f ` set ps) xs) = set xs - set ps" by simp
  moreover have "distinct xs" using assms(1) by (simp add: distinct_map)
  ultimately show ?thesis using assms(2,3)
    by (metis card_Diff_subset distinct_card distinct_filter finite_set)
qed

lemma sample_stratified_spec:
  assumes rng: "rng_ok sample" and ids: "distinct (map tr_trace_id r)"
    and res: "sample_stratified sample r budget s = (out, s')"
  shows "length out = min budget (length r) \<and> set out \<subseteq> set r \<and> distinct (map tr_trace_id out)
    \<and> (length (strata_present r) \<le> budget \<longrightarrow> tr_stratum ` set out = tr_stratum ` set r)"
proof -
  obtain sel s1 where ps: "pick_strata sample budget r (strata_present r) [] s = (sel, s1)"
    by (cases "pick_strata sample budget r (strata_present r) [] s")
  from pick_strata_spec [OF rng _ ps] have
    sel: "map tr_stratum sel = take budget (strata_present r)" "set sel \<subseteq> set r" by auto
  have len: "length sel = min budget (length (strata_present r))"
    using arg_cong [OF sel(1), of length] by simp
  have "distinct (map tr_stratum sel)" unfolding sel(1) using strata_present_distinct by (rule distinct_take)
  then have dsel: "distinct sel" by (simp add: distinct_map)
  have inj: "inj_on tr_trace_id (set r)" using ids by (simp add: distinct_map)
  have dr: "distinct r" using ids by (simp add: distinct_map)
  have dids: "distinct (map tr_trace_id sel)" using dsel sel(2) inj by (auto simp: distinct_map intro: inj_on_subset)
  let ?left = "filter (\<lambda>t. tr_trace_id t \<notin> tr_trace_id ` set sel) r" and ?fill = "budget - length sel"
  have left: "length ?left = length r - length sel" using filter_ids_length [OF ids sel(2) dsel] .
  have cover: "tr_stratum ` set sel = tr_stratum ` set r" if "length (strata_present r) \<le> budget"
    using arg_cong [OF sel(1), of set] that by simp
  have small: "length sel \<le> budget" "length sel \<le> length r" using len strata_present_length [of r] by auto
  show ?thesis
  proof (cases "?fill \<noteq> 0 \<and> ?left \<noteq> []")
    case False
    then have out: "out = sel" using res ps small(1) by (auto simp: sample_stratified_def)
    have "length sel = min budget (length r)" using False left small by (auto simp del: length_filter_conv_card)
    then show ?thesis using sel(2) dids cover out by auto
  next
    case True
    let ?k = "min ?fill (length ?left)"
    obtain extra s2 where ex: "sample s1 ?left ?k = (extra, s2)" by (cases "sample s1 ?left ?k")
    have k: "?k \<le> length ?left" by simp
    from rng_ok_set [OF rng k, of s1] ex dr have e: "length extra = ?k" "set extra \<subseteq> set ?left" "distinct extra" by auto
    have n: "length (sel @ extra) = min budget (length r)" using e(1) left small by auto
    then have out: "out = sel @ extra" using res ps True ex by (auto simp: sample_stratified_def Let_def)
    have "distinct (map tr_trace_id extra)" using e(2,3) inj by (auto simp: distinct_map intro: inj_on_subset)
    moreover have "tr_trace_id t \<notin> tr_trace_id ` set sel" if "t \<in> set extra" for t
      using subsetD [OF e(2) that] by simp
    then have "tr_trace_id ` set sel \<inter> tr_trace_id ` set extra = {}" unfolding disjoint_iff by (metis imageE)
    ultimately have "distinct (map tr_trace_id out)" using dids unfolding out by simp
    then show ?thesis using n sel(2) e(2) cover unfolding out by auto
  qed
qed

definition chosen_budget :: "trace_record list \<Rightarrow> int \<Rightarrow> nat" where
  "chosen_budget traces target = nat (max 0 (target - int (length (filter tr_is_outcome_bound traces))))"

text \<open>
  Building a dataset from traces with different identifiers, with any source of
  randomness that samples without replacement: the outcome-bound traces come first and
  all of them are kept; the rest of the budget is filled as far as there are traces, so
  the size is the number of bound traces plus the smaller of the budget and the number of
  others; no trace is used twice and every case links back to its trace; and every stratum
  among the other traces is represented whenever the budget has room for one of each.
  The version is one above the previous one.
\<close>
theorem build_dataset_covers:
  assumes rng: "rng_ok sample" and ids: "distinct (map tr_trace_id traces)"
    and res: "build_dataset sample tid name traces target prior s = (ds, s')"
  shows "\<exists>extra. ed_cases ds = map to_case (filter tr_is_outcome_bound traces @ extra)
    \<and> set extra \<subseteq> {t \<in> set traces. \<not> tr_is_outcome_bound t}
    \<and> length extra = min (chosen_budget traces target) (length (filter (\<lambda>t. \<not> tr_is_outcome_bound t) traces))
    \<and> distinct (map dk_source_trace_id (ed_cases ds))
    \<and> (length (strata_present (filter (\<lambda>t. \<not> tr_is_outcome_bound t) traces)) \<le> chosen_budget traces target
        \<longrightarrow> {t \<in> set traces. \<not> tr_is_outcome_bound t \<and> tr_stratum t \<notin> tr_stratum ` set extra} = {})
    \<and> ed_version ds = prior + 1 \<and> ed_tenant_id ds = tid"
proof -
  let ?b = "filter tr_is_outcome_bound traces" and ?r = "filter (\<lambda>t. \<not> tr_is_outcome_bound t) traces"
  let ?k = "chosen_budget traces target"
  obtain extra s1 where ex: "(if ?k \<noteq> 0 \<and> ?r \<noteq> [] then sample_stratified sample ?r ?k s else ([], s)) = (extra, s1)"
    by (cases "if ?k \<noteq> 0 \<and> ?r \<noteq> [] then sample_stratified sample ?r ?k s else ([], s)")
  have ds: "ed_cases ds = map to_case (?b @ extra)" "ed_version ds = prior + 1" "ed_tenant_id ds = tid"
    using res ex unfolding build_dataset_def Let_def chosen_budget_def [symmetric] by auto
  have rids: "distinct (map tr_trace_id ?r)" "distinct (map tr_trace_id ?b)" using ids by (auto simp: distinct_map_filter)
  have spec: "length extra = min ?k (length ?r) \<and> set extra \<subseteq> set ?r \<and> distinct (map tr_trace_id extra)
    \<and> (length (strata_present ?r) \<le> ?k \<longrightarrow> tr_stratum ` set extra = tr_stratum ` set ?r)"
  proof (cases "?k \<noteq> 0 \<and> ?r \<noteq> []")
    case True
    then have "sample_stratified sample ?r ?k s = (extra, s1)" using ex by simp
    then show ?thesis by (rule sample_stratified_spec [OF rng rids(1)])
  next
    case False
    then have "extra = []" using ex by auto
    moreover have "?k = 0 \<or> ?r = []" using False by blast
    ultimately show ?thesis by (elim disjE) (simp_all add: strata_present_def image_iff)
  qed
  have inj: "inj_on tr_trace_id (set traces)" using ids by (simp add: distinct_map)
  have "tr_trace_id x \<noteq> tr_trace_id y" if "x \<in> set ?b" "y \<in> set extra" for x y
  proof
    assume "tr_trace_id x = tr_trace_id y"
    moreover have y: "y \<in> set ?r" using spec that(2) by blast
    ultimately have "x = y" using inj that(1) by (auto dest: inj_onD)
    with that(1) y show False by simp
  qed
  then have "tr_trace_id ` set ?b \<inter> tr_trace_id ` set extra = {}" by blast
  then have "distinct (map tr_trace_id (?b @ extra))" using rids(2) spec by simp
  moreover have "map dk_source_trace_id (ed_cases ds) = map Some (map tr_trace_id (?b @ extra))"
    unfolding ds(1) by (simp add: to_case_def)
  ultimately have "distinct (map dk_source_trace_id (ed_cases ds))" by (metis distinct_map inj_Some inj_on_subset subset_UNIV)
  then show ?thesis using spec ds by (intro exI [of _ extra]) auto
qed

text \<open>Taking a prefix is a source of randomness that samples without replacement.\<close>

definition take_rng :: "nat rng" where
  "take_rng s pool k = (take k pool, Suc s)"

lemma take_rng_ok: "rng_ok take_rng"
proof -
  have "mset (take k pool) \<subseteq># mset (take k pool @ drop k pool)" for k and pool :: "trace_record list"
    unfolding mset_append by simp
  then show ?thesis by (simp add: rng_ok_def take_rng_def)
qed

definition sample_trace :: "string \<Rightarrow> stratum \<Rightarrow> bool \<Rightarrow> trace_record" where
  "sample_trace i st b = \<lparr>tr_trace_id = i, tr_inputs = [], tr_incumbent_output = ''ok'', tr_stratum = st,
     tr_is_outcome_bound = b, tr_outcome_label = (if b then Some True else None), tr_label_source = Reference\<rparr>"

theorem build_dataset_covers_witness:
  "\<exists>extra. ed_cases (fst (build_dataset take_rng ''t'' ''d''
        [sample_trace ''a'' Frequent True, sample_trace ''b'' Failure False] 2 0 0))
      = map to_case (filter tr_is_outcome_bound [sample_trace ''a'' Frequent True, sample_trace ''b'' Failure False] @ extra)
    \<and> length extra = 1"
proof -
  let ?ts = "[sample_trace ''a'' Frequent True, sample_trace ''b'' Failure False]"
  obtain ds s' where r: "build_dataset take_rng ''t'' ''d'' ?ts 2 0 0 = (ds, s')"
    by (cases "build_dataset take_rng ''t'' ''d'' ?ts 2 0 0")
  have "distinct (map tr_trace_id ?ts)" by (simp add: sample_trace_def)
  from build_dataset_covers [OF take_rng_ok this r] show ?thesis
    unfolding r by (auto simp: chosen_budget_def sample_trace_def)
qed

section \<open>Validated judges\<close>

lemma count_of_nonneg [simp]: "0 \<le> count_of P xs"
  by (simp add: count_of_def)

lemma rate_at_least:
  assumes "lit 9 1 \<le> int_ratio a n" "0 \<le> a" "a \<le> n" "n \<le> 2 ^ 40"
  shows "0 < n \<and> 9 * n \<le> 10 * a"
proof -
  let ?u = "1 / 2 ^ 53 :: rat"
  have u: "(2::rat) powi (1 - 53) / 2 = ?u" by (simp add: power_int_def power_divide)
  have "0 < lit 9 1" unfolding lit_def by (rule dbl.rnd_pos) simp
  then have n: "0 < n" using assms by (auto simp: int_ratio_def split: if_splits)
  have lo: "9 / 10 - 9 / 10 * ?u \<le> lit 9 1"
  proof -
    have e: "\<bar>dbl (9 / 10) - 9 / 10\<bar> \<le> 9 / 10 * ?u" using dbl.rnd_error [of "9 / 10"] unfolding u by simp
    have "lit 9 1 = dbl (9 / 10)" by (simp add: lit_def)
    then show ?thesis using e abs_ge_minus_self [of "dbl (9 / 10) - 9 / 10"] by linarith
  qed
  have x: "0 \<le> rat_of_int a / of_int n" "rat_of_int a / of_int n \<le> 1" using assms n by simp_all
  have "dbl (of_int a / of_int n) - of_int a / of_int n \<le> \<bar>of_int a / of_int n\<bar> * ?u"
    using dbl.rnd_error [of "of_int a / of_int n"] unfolding u by linarith
  also have "\<dots> \<le> 1 * ?u" using x by (intro mult_right_mono) auto
  finally have hi: "int_ratio a n \<le> of_int a / of_int n + ?u" using n by (simp add: int_ratio_def)
  have "9 / 10 - 2 * ?u \<le> rat_of_int a / of_int n" using lo hi assms(1) by simp
  then have "(9 / 10 - 2 * ?u) * of_int n \<le> rat_of_int a" using n by (simp add: pos_le_divide_eq)
  then have "9 * rat_of_int n - 20 * ?u * of_int n \<le> 10 * of_int a" by (simp add: algebra_simps)
  moreover have "20 * ?u * rat_of_int n < 1"
  proof -
    have "rat_of_int n \<le> of_int (2 ^ 40)" using assms(4) by (simp only: of_int_le_iff)
    then have "20 * ?u * rat_of_int n \<le> 20 * ?u * 2 ^ 40" by (intro mult_left_mono) auto
    also have "\<dots> < 1" by simp
    finally show ?thesis .
  qed
  ultimately have "rat_of_int (9 * n) < of_int (10 * a + 1)" by simp
  then have "9 * n < 10 * a + 1" by (simp only: of_int_less_iff)
  with n show ?thesis by simp
qed

text \<open>
  A judge counts as validated only with at least fifty labels, at least one of each
  kind, and agreement with nine in ten of the human positives and with nine in ten of the
  human negatives, exactly and not only up to rounding; a label the judge has no score
  for counts as a negative judgement. A threshold outside the open unit interval raises.
\<close>
theorem validated_judge_agrees:
  assumes "int (length labels) \<le> 2 ^ 40"
  shows "case validate_judge labels scores threshold of
      Inl e \<Rightarrow> e = ValueError \<and> (threshold \<le> 0 \<or> 1 \<le> threshold)
    | Inr v \<Rightarrow>
        (if jv_validated v
         then 50 \<le> length labels
           \<and> 0 < count_of hl_human_positive labels \<and> 0 < count_of (\<lambda>l. \<not> hl_human_positive l) labels
           \<and> 9 * count_of hl_human_positive labels
               \<le> 10 * count_of (\<lambda>l. hl_human_positive l \<and> judge_pass scores threshold l) labels
           \<and> 9 * count_of (\<lambda>l. \<not> hl_human_positive l) labels
               \<le> 10 * count_of (\<lambda>l. \<not> hl_human_positive l \<and> \<not> judge_pass scores threshold l) labels
         else jv_n v = int (length labels))"
proof (cases "0 < threshold \<and> threshold < 1")
  case False
  then show ?thesis by (auto simp: validate_judge_def)
next
  case True
  let ?jp = "judge_pass scores threshold"
  have split: "count_of (\<lambda>l. P l \<and> Q l) labels + count_of (\<lambda>l. P l \<and> \<not> Q l) labels = count_of P labels"
    for P Q :: "human_label \<Rightarrow> bool"
    unfolding count_of_def by (induction labels) auto
  have le: "count_of P labels \<le> 2 ^ 40" for P
    using assms length_filter_le [of P labels] unfolding count_of_def by linarith
  have pos: "count_of (\<lambda>l. hl_human_positive l \<and> ?jp l) labels + count_of (\<lambda>l. hl_human_positive l \<and> \<not> ?jp l) labels
      = count_of hl_human_positive labels" by (rule split)
  have neg: "count_of (\<lambda>l. \<not> hl_human_positive l \<and> \<not> ?jp l) labels + count_of (\<lambda>l. \<not> hl_human_positive l \<and> ?jp l) labels
      = count_of (\<lambda>l. \<not> hl_human_positive l) labels"
    using split [of "\<lambda>l. \<not> hl_human_positive l" ?jp] by simp
  have sub: "count_of (\<lambda>l. P l \<and> Q l) labels \<le> count_of P labels" for P Q
    using split [of P Q] count_of_nonneg [of "\<lambda>l. P l \<and> \<not> Q l" labels] by linarith
  show ?thesis
    using True rate_at_least [of "count_of (\<lambda>l. hl_human_positive l \<and> ?jp l) labels" "count_of hl_human_positive labels"]
      rate_at_least [of "count_of (\<lambda>l. \<not> hl_human_positive l \<and> \<not> ?jp l) labels" "count_of (\<lambda>l. \<not> hl_human_positive l) labels"]
      sub [of hl_human_positive ?jp] sub [of "\<lambda>l. \<not> hl_human_positive l" "\<lambda>l. \<not> ?jp l"] le
    by (simp add: validate_judge_def Let_def pos neg)
qed

theorem validated_judge_agrees_witness:
  "case validate_judge [] [] (1 / 2) of
     Inl e \<Rightarrow> e = ValueError \<and> ((1 / 2 :: rat) \<le> 0 \<or> 1 \<le> (1 / 2 :: rat))
   | Inr v \<Rightarrow> if jv_validated v then 50 \<le> length ([] :: human_label list) else jv_n v = 0"
  using validated_judge_agrees [where labels = "[]" and scores = "[]" and threshold = "1 / 2"]
  by (simp add: validate_judge_def Let_def)

section \<open>Clusters\<close>

lemma push_all_at:
  "dict_at (foldl (\<lambda>d c. dict_push (f c) c d) d cs) k = dict_at d k @ filter (\<lambda>c. f c = k) cs"
  by (induction cs arbitrary: d) auto

lemma push_all_keys: "fst ` set (foldl (\<lambda>d c. dict_push (f c) c d) d cs) = fst ` set d \<union> f ` set cs"
  by (induction cs arbitrary: d) auto

lemma push_all_ok: "dict_ok d \<Longrightarrow> dict_ok (foldl (\<lambda>d c. dict_push (f c) c d) d cs)"
  by (induction cs arbitrary: d) auto

lemma call_buckets_entry:
  assumes "(k, ms) \<in> set (call_buckets h calls)"
  shows "ms = filter (\<lambda>c. identity_key h c = k) calls"
proof -
  have "dict_ok (call_buckets h calls)" unfolding call_buckets_def by (rule push_all_ok) simp
  then have "dict_get (call_buckets h calls) k = Some ms" using assms by (rule dict_ok_get)
  then have "ms = dict_at (call_buckets h calls) k" by (simp add: dict_at_def)
  then show ?thesis unfolding call_buckets_def by (simp add: push_all_at)
qed

lemma discover_cluster_ids:
  "distinct (map cl_cluster_id (discover_clusters h calls))"
  "sorted (map cl_cluster_id (discover_clusters h calls))"
  "cl_cluster_id ` set (discover_clusters h calls) = identity_key h ` set calls"
proof -
  have e: "map cl_cluster_id (discover_clusters h calls) = map fst (sort_key fst (call_buckets h calls))"
    by (auto simp: discover_clusters_def cluster_of_def Let_def call_buckets_def o_def)
  have "dict_ok (call_buckets h calls)" unfolding call_buckets_def by (rule push_all_ok) simp
  then have "distinct (map fst (call_buckets h calls))" by (simp add: dict_ok_def)
  then show "distinct (map cl_cluster_id (discover_clusters h calls))"
    unfolding e by (metis distinct_map distinct_sort set_sort)
  show "sorted (map cl_cluster_id (discover_clusters h calls))" unfolding e by simp
  have "cl_cluster_id ` set (discover_clusters h calls) = fst ` set (call_buckets h calls)"
    using arg_cong [OF e, of set] by simp
  then show "cl_cluster_id ` set (discover_clusters h calls) = identity_key h ` set calls"
    unfolding call_buckets_def push_all_keys by simp
qed

lemma discover_cluster_members:
  assumes "cl \<in> set (discover_clusters h calls)"
  shows "cl_member_ids cl = map cc_id (sort_key cc_id (filter (\<lambda>c. identity_key h c = cl_cluster_id cl) calls))
    \<and> \<not> cl_confirmed cl"
proof -
  from assms obtain k ms where km: "(k, ms) \<in> set (call_buckets h calls)" "cl = cluster_of h (k, ms)"
    by (auto simp: discover_clusters_def split: if_splits)
  show ?thesis unfolding km(2) using call_buckets_entry [OF km(1)] by (simp add: cluster_of_def Let_def)
qed

text \<open>
  Discovery is total and deterministic: the clusters come sorted with different
  identifiers, each is a proposal that is not confirmed and lists, in order, the members
  that share its identity, and every call is in exactly one cluster; two calls are in
  the same cluster exactly when their identities agree, whatever the hash does.
\<close>
theorem discover_clusters_partition:
  "distinct (map cl_cluster_id (discover_clusters h calls)) \<and> sorted (map cl_cluster_id (discover_clusters h calls))
   \<and> list_all (\<lambda>cl. \<not> cl_confirmed cl \<and> cl_member_ids cl \<noteq> [] \<and> sorted (cl_member_ids cl)
        \<and> mset (cl_member_ids cl) = mset (map cc_id (filter (\<lambda>c. identity_key h c = cl_cluster_id cl) calls)))
      (discover_clusters h calls)
   \<and> list_all (\<lambda>c. \<exists>!cl. cl \<in> set (discover_clusters h calls) \<and> cl_cluster_id cl = identity_key h c) calls"
proof (intro conjI)
  let ?cls = "discover_clusters h calls"
  show "distinct (map cl_cluster_id ?cls)" "sorted (map cl_cluster_id ?cls)" by (rule discover_cluster_ids)+
  show "list_all (\<lambda>cl. \<not> cl_confirmed cl \<and> cl_member_ids cl \<noteq> [] \<and> sorted (cl_member_ids cl)
        \<and> mset (cl_member_ids cl) = mset (map cc_id (filter (\<lambda>c. identity_key h c = cl_cluster_id cl) calls))) ?cls"
    unfolding list_all_iff
  proof
    fix cl assume cl: "cl \<in> set ?cls"
    note m = discover_cluster_members [OF cl]
    have "cl_cluster_id cl \<in> identity_key h ` set calls" using cl discover_cluster_ids(3) [of h calls] by blast
    then have "filter (\<lambda>c. identity_key h c = cl_cluster_id cl) calls \<noteq> []" by (auto simp: filter_empty_conv)
    then have "sort_key cc_id (filter (\<lambda>c. identity_key h c = cl_cluster_id cl) calls) \<noteq> []"
      by (metis length_0_conv length_sort)
    then show "\<not> cl_confirmed cl \<and> cl_member_ids cl \<noteq> [] \<and> sorted (cl_member_ids cl)
        \<and> mset (cl_member_ids cl) = mset (map cc_id (filter (\<lambda>c. identity_key h c = cl_cluster_id cl) calls))"
      using m by simp
  qed
  show "list_all (\<lambda>c. \<exists>!cl. cl \<in> set ?cls \<and> cl_cluster_id cl = identity_key h c) calls"
    unfolding list_all_iff
  proof
    fix c assume "c \<in> set calls"
    then have "identity_key h c \<in> cl_cluster_id ` set ?cls" using discover_cluster_ids(3) [of h calls] by blast
    moreover have "inj_on cl_cluster_id (set ?cls)" using discover_cluster_ids(1) [of h calls] by (simp add: distinct_map)
    ultimately obtain cl where cl: "cl \<in> set ?cls" "cl_cluster_id cl = identity_key h c"
      and inj: "inj_on cl_cluster_id (set ?cls)" by auto
    show "\<exists>!cl. cl \<in> set ?cls \<and> cl_cluster_id cl = identity_key h c"
    proof (rule ex1I [of _ cl])
      show "cl \<in> set ?cls \<and> cl_cluster_id cl = identity_key h c" using cl by simp
      show "x = cl" if "x \<in> set ?cls \<and> cl_cluster_id x = identity_key h c" for x
        using inj_onD [OF inj, of x cl] that cl by simp
    qed
  qed
qed

lemma tool_set_fingerprint_set: "set a = set b \<Longrightarrow> tool_set_fingerprint h a = tool_set_fingerprint h b"
proof -
  assume "set a = set b"
  then have "sort (remdups a) = sort (remdups b)"
    by (intro sorted_distinct_set_unique) auto
  then show ?thesis by (simp add: tool_set_fingerprint_def)
qed

end
