(* ===== verification/Surface_Registry.thy ===== *)
theory Surface_Registry
  imports Baggage "HOL-Library.Word"
begin

unbundle bit_operations_syntax

text \<open>
  The capability registry (\<open>packages/capabilities\<close>), its assembly
  (\<open>agent_integrability/discovery.py\<close>) and its MCP projection (\<open>apps/mcp\<close>).

  A capability's input model is a record of functions: its field names, its JSON schema and
  the two validations pydantic offers (of a Python value and of JSON text); \<open>'i\<close> is the type
  of validated inputs and \<open>'s\<close> the state the handlers work on. A handler receives what the
  surface put into the context variables and returns the dumped output model or the
  exception it raised, with the state it leaves.
\<close>

section \<open>Surfaces and modes\<close>

text \<open>\<open>Surface\<close> is a flag mask of four bits.\<close>

type_synonym surface = "4 word"

definition API :: surface where "API = 1"
definition MCP :: surface where "MCP = 2"
definition CLI :: surface where "CLI = 4"
definition NOTIFY :: surface where "NOTIFY = 8"

text \<open>\<open>flag in mask\<close>.\<close>

definition surface_in :: "surface \<Rightarrow> surface \<Rightarrow> bool" where
  "surface_in s m \<longleftrightarrow> s AND m = s"

datatype mode = RequestResponse | Streaming | AsyncJob | WebhookInbound

section \<open>Declarations\<close>

type_synonym payload = "(string, json) dict"

record 'i input_model =
  im_fields :: "string list"
  im_schema :: json
  im_validate :: "payload \<Rightarrow> 'i option"
  im_validate_json :: "payload \<Rightarrow> 'i option"

text \<open>The context a surface sets around a handler: the metric tenant and the transport signals.\<close>

record scope =
  sp_metric_tenant :: "tenant_id option"
  sp_signals :: request_signals

definition no_scope :: scope where
  "no_scope = \<lparr>sp_metric_tenant = None, sp_signals = no_signals\<rparr>"

record ('i, 's) capability_spec =
  cp_name :: string
  cp_input_model :: "'i input_model"
  cp_output_schema :: json
  cp_handler :: "scope \<Rightarrow> 'i \<Rightarrow> 's \<Rightarrow> payload res \<times> 's"
  cp_description :: string
  cp_surfaces :: surface
  cp_mode :: mode
  cp_examples :: "json list"

definition capability ::
  "string \<Rightarrow> 'i input_model \<Rightarrow> json \<Rightarrow> (scope \<Rightarrow> 'i \<Rightarrow> 's \<Rightarrow> payload res \<times> 's) \<Rightarrow> string \<Rightarrow> surface \<Rightarrow> mode \<Rightarrow> json list
     \<Rightarrow> ('i, 's) capability_spec res" where
  "capability name input_model output_model handler description surfaces mode examples =
     (if strip description = [] then Inl CapabilityDeclarationError
      else if surfaces = 0 then Inl CapabilityDeclarationError
      else if mode = WebhookInbound \<and> surface_in CLI surfaces then Inl CapabilityDeclarationError
      else Inr \<lparr>cp_name = name, cp_input_model = input_model, cp_output_schema = output_model, cp_handler = handler,
        cp_description = description, cp_surfaces = surfaces, cp_mode = mode, cp_examples = examples\<rparr>)"

section \<open>The registry\<close>

type_synonym ('i, 's) registry = "(string, ('i, 's) capability_spec) dict"

definition register :: "('i, 's) capability_spec \<Rightarrow> ('i, 's) registry \<Rightarrow> ('i, 's) registry res" where
  "register spec reg =
     (if dict_get reg (cp_name spec) \<noteq> None then Inl DuplicateCapabilityError
      else Inr (dict_set (cp_name spec) spec reg))"

definition registry_all :: "('i, 's) registry \<Rightarrow> ('i, 's) capability_spec list" where
  "registry_all reg = map snd reg"

definition for_surface :: "surface \<Rightarrow> ('i, 's) registry \<Rightarrow> ('i, 's) capability_spec list" where
  "for_surface s reg = filter (\<lambda>spec. surface_in s (cp_surfaces spec)) (map snd reg)"

text \<open>
  A module's \<open>register(registry)\<close> calls \<open>registry.register\<close> for each of its capabilities in
  turn, through whichever class the registry has; what was added before a raise stays.
\<close>

type_synonym ('i, 's) adder = "('i, 's) capability_spec \<Rightarrow> ('i, 's) registry \<Rightarrow> ('i, 's) registry res"

fun register_specs ::
  "('i, 's) adder \<Rightarrow> ('i, 's) capability_spec list \<Rightarrow> ('i, 's) registry \<Rightarrow> unit res \<times> ('i, 's) registry" where
  "register_specs add [] reg = (Inr (), reg)"
| "register_specs add (spec # specs) reg =
     (case add spec reg of Inl e \<Rightarrow> (Inl e, reg) | Inr reg' \<Rightarrow> register_specs add specs reg')"

text \<open>
  Push registration. \<open>load\<close> is the import system: the capabilities a module's callable
  \<open>register\<close> adds, \<open>None\<close> when it exposes none, or the import error.
\<close>

fun discover_and_register ::
  "('i, 's) adder \<Rightarrow> (string \<Rightarrow> ('i, 's) capability_spec list option res) \<Rightarrow> string list \<Rightarrow> ('i, 's) registry
     \<Rightarrow> unit res \<times> ('i, 's) registry" where
  "discover_and_register add load [] reg = (Inr (), reg)"
| "discover_and_register add load (m # ms) reg =
     (case load m of
        Inl e \<Rightarrow> (Inl e, reg)
      | Inr None \<Rightarrow> (Inl MissingRegisterError, reg)
      | Inr (Some specs) \<Rightarrow> (case register_specs add specs reg of
          (Inl e, reg') \<Rightarrow> (Inl e, reg')
        | (Inr _, reg') \<Rightarrow> discover_and_register add load ms reg'))"

section \<open>The canonical registry\<close>

definition DEFAULT_CAPABILITY_MODULES :: "string list" where
  "DEFAULT_CAPABILITY_MODULES =
     [''valuemaxx.capture.capabilities'', ''valuemaxx.outcomes.capabilities'', ''valuemaxx.attribution.capabilities'',
      ''valuemaxx.reconciliation.capabilities'', ''valuemaxx.allocation.capabilities'',
      ''valuemaxx.metrics.capabilities'', ''valuemaxx.eval.capabilities'', ''valuemaxx.onboarding.service'',
      ''valuemaxx.store.capabilities'']"

definition KNOWN_DUPLICATE_NAMES :: "string list" where
  "KNOWN_DUPLICATE_NAMES = [''validate_outcome_rule'']"

definition known_present :: "('i, 's) registry \<Rightarrow> string list" where
  "known_present reg = map cp_name (registry_all reg)"

definition discovery_register :: "('i, 's) capability_spec \<Rightarrow> ('i, 's) registry \<Rightarrow> ('i, 's) registry res" where
  "discovery_register spec reg =
     (if cp_name spec \<in> set (known_present reg) \<and> cp_name spec \<in> set KNOWN_DUPLICATE_NAMES then Inr reg
      else register spec reg)"

definition register_modules ::
  "('i, 's) adder \<Rightarrow> (string \<Rightarrow> ('i, 's) capability_spec list option res) \<Rightarrow> string list \<Rightarrow> ('i, 's) registry
     \<Rightarrow> unit res \<times> ('i, 's) registry" where
  "register_modules = discover_and_register"

definition build_default_registry ::
  "(string \<Rightarrow> ('i, 's) capability_spec list option res) \<Rightarrow> ('i, 's) capability_spec list \<Rightarrow> ('i, 's) registry res" where
  "build_default_registry load scaffold_caps =
     (case register_modules discovery_register load DEFAULT_CAPABILITY_MODULES [] of
        (Inl e, _) \<Rightarrow> Inl e
      | (Inr _, reg) \<Rightarrow> (case register_specs discovery_register scaffold_caps reg of
          (Inl e, _) \<Rightarrow> Inl e | (Inr _, reg') \<Rightarrow> Inr reg'))"

section \<open>The MCP projection\<close>

record mcp_tool =
  mt_name :: string
  mt_description :: string
  mt_input_schema :: json

definition project_capability :: "('i, 's) capability_spec \<Rightarrow> mcp_tool" where
  "project_capability cap =
     \<lparr>mt_name = cp_name cap, mt_description = cp_description cap, mt_input_schema = im_schema (cp_input_model cap)\<rparr>"

definition project_tools :: "('i, 's) registry \<Rightarrow> mcp_tool list" where
  "project_tools reg = map project_capability (for_surface MCP reg)"

record ('i, 's) mcp_server =
  ms_tools :: "mcp_tool list"
  ms_by_name :: "(string, ('i, 's) capability_spec) dict"

definition mcp_server_new :: "('i, 's) registry \<Rightarrow> ('i, 's) mcp_server" where
  "mcp_server_new reg =
     \<lparr>ms_tools = project_tools reg,
      ms_by_name = foldl (\<lambda>m cap. dict_set (cp_name cap) cap m) [] (for_surface MCP reg)\<rparr>"

definition list_tools :: "('i, 's) mcp_server \<Rightarrow> mcp_tool list" where
  "list_tools server = ms_tools server"

definition call_tool :: "('i, 's) mcp_server \<Rightarrow> string \<Rightarrow> payload \<Rightarrow> 's \<Rightarrow> payload res \<times> 's" where
  "call_tool server name arguments s =
     (case dict_get (ms_by_name server) name of
        None \<Rightarrow> (Inl UnknownToolError, s)
      | Some cap \<Rightarrow> (case im_validate (cp_input_model cap) arguments of
          None \<Rightarrow> (Inl ValidationError, s)
        | Some req \<Rightarrow> cp_handler cap no_scope req s))"

section \<open>Registration\<close>

definition registry_ok :: "('i, 's) registry \<Rightarrow> bool" where
  "registry_ok reg \<longleftrightarrow> dict_ok reg \<and> list_all (\<lambda>(k, c). k = cp_name c) reg"

abbreviation entry :: "('i, 's) capability_spec \<Rightarrow> string \<times> ('i, 's) capability_spec" where
  "entry c \<equiv> (cp_name c, c)"

lemma registry_ok_Nil [simp]: "registry_ok []"
  by (simp add: registry_ok_def)

lemma registry_ok_snoc: "registry_ok reg \<Longrightarrow> cp_name c \<notin> fst ` set reg \<Longrightarrow> registry_ok (reg @ [entry c])"
  by (auto simp: registry_ok_def dict_ok_def)

lemma registry_names: "registry_ok reg \<Longrightarrow> map fst reg = map cp_name (registry_all reg)"
  by (auto simp: registry_ok_def registry_all_def list_all_iff)

lemma registry_entries: "registry_ok reg \<Longrightarrow> reg = map entry (registry_all reg)"
  unfolding registry_ok_def registry_all_def by (induction reg) (auto simp: dict_ok_def)

lemma dict_set_snoc: "k \<notin> fst ` set d \<Longrightarrow> dict_set k v d = d @ [(k, v)]"
  by (induction d) auto

lemma register_eq:
  "register c reg = (if cp_name c \<in> fst ` set reg then Inl DuplicateCapabilityError else Inr (reg @ [entry c]))"
  by (auto simp: register_def dict_set_snoc map_of_eq_None_iff)

lemma discovery_register_eq:
  assumes "registry_ok reg"
  shows "discovery_register c reg =
    (if cp_name c \<in> fst ` set reg
     then if cp_name c \<in> set KNOWN_DUPLICATE_NAMES then Inr reg else Inl DuplicateCapabilityError
     else Inr (reg @ [entry c]))"
proof -
  have "set (known_present reg) = fst ` set reg"
    using registry_names [OF assms] unfolding known_present_def by (metis list.set_map)
  then show ?thesis by (simp add: discovery_register_def register_eq)
qed

text \<open>
  What assembly relies on: an adder appends an unseen name and never replaces a seen one.
\<close>

locale registrar =
  fixes add :: "('i, 's) capability_spec \<Rightarrow> ('i, 's) registry \<Rightarrow> ('i, 's) registry res"
  assumes add_new: "registry_ok reg \<Longrightarrow> cp_name c \<notin> fst ` set reg \<Longrightarrow> add c reg = Inr (reg @ [entry c])"
    and add_seen: "registry_ok reg \<Longrightarrow> cp_name c \<in> fst ` set reg \<Longrightarrow>
      add c reg = Inl DuplicateCapabilityError \<or> add c reg = Inr reg"
begin

lemma register_specs_extends:
  assumes "registry_ok reg"
  shows "\<exists>new. snd (register_specs add cs reg) = reg @ map entry new \<and> registry_ok (reg @ map entry new) \<and>
     set new \<subseteq> set cs \<and>
     (case fst (register_specs add cs reg) of
        Inl e \<Rightarrow> e = DuplicateCapabilityError
      | Inr _ \<Rightarrow> cp_name ` set cs \<subseteq> fst ` set (reg @ map entry new))"
  using assms
proof (induction cs arbitrary: reg)
  case Nil
  then show ?case by (intro exI [of _ "[]"]) simp
next
  case (Cons c cs)
  show ?case
  proof (cases "cp_name c \<in> fst ` set reg")
    case seen: True
    from add_seen [OF Cons.prems seen] show ?thesis
    proof
      assume "add c reg = Inl DuplicateCapabilityError"
      with Cons.prems show ?thesis by (intro exI [of _ "[]"]) simp
    next
      assume a: "add c reg = Inr reg"
      obtain new where n: "snd (register_specs add cs reg) = reg @ map entry new" "registry_ok (reg @ map entry new)"
        "set new \<subseteq> set cs" "case fst (register_specs add cs reg) of Inl e \<Rightarrow> e = DuplicateCapabilityError
        | Inr _ \<Rightarrow> cp_name ` set cs \<subseteq> fst ` set (reg @ map entry new)"
        using Cons.IH [OF Cons.prems] by blast
      then show ?thesis using a seen by (intro exI [of _ new]) (auto split: sum.splits)
    qed
  next
    case False
    let ?r = "reg @ [entry c]"
    obtain new where n: "snd (register_specs add cs ?r) = ?r @ map entry new" "registry_ok (?r @ map entry new)"
      "set new \<subseteq> set cs" "case fst (register_specs add cs ?r) of Inl e \<Rightarrow> e = DuplicateCapabilityError
      | Inr _ \<Rightarrow> cp_name ` set cs \<subseteq> fst ` set (?r @ map entry new)"
      using Cons.IH [OF registry_ok_snoc [OF Cons.prems False]] by blast
    then show ?thesis using add_new [OF Cons.prems False]
      by (intro exI [of _ "c # new"]) (auto split: sum.splits)
  qed
qed

lemma discover_extends:
  assumes "registry_ok reg"
  shows "\<exists>new. snd (discover_and_register add load ms reg) = reg @ map entry new \<and> registry_ok (reg @ map entry new)"
  using assms
proof (induction ms arbitrary: reg)
  case Nil
  then show ?case by (intro exI [of _ "[]"]) simp
next
  case (Cons m ms)
  have stop: "\<exists>new. reg = reg @ map entry new \<and> registry_ok (reg @ map entry new)"
    using Cons.prems by (intro exI [of _ "[]"]) simp
  show ?case
  proof (cases "load m")
    case (Inl e)
    then show ?thesis using stop by simp
  next
    case (Inr loaded)
    show ?thesis
    proof (cases loaded)
      case None
      then show ?thesis using Inr stop by simp
    next
      case (Some cs)
      obtain new where n: "snd (register_specs add cs reg) = reg @ map entry new" "registry_ok (reg @ map entry new)"
        using register_specs_extends [OF Cons.prems, of cs] by blast
      obtain r reg' where r: "register_specs add cs reg = (r, reg')" by fastforce
      obtain new' where n': "snd (discover_and_register add load ms reg') = reg' @ map entry new'"
        "registry_ok (reg' @ map entry new')"
        using Cons.IH [of reg'] n r by auto
      have reg': "reg' = reg @ map entry new" using n(1) r by simp
      have "snd (discover_and_register add load (m # ms) reg) = (case r of Inl _ \<Rightarrow> reg' | Inr _ \<Rightarrow> reg' @ map entry new')"
        using Inr Some r n'(1) by (cases r) simp_all
      then show ?thesis using n n' reg' by (cases r) (auto intro: exI [of _ new] exI [of _ "new @ new'"])
    qed
  qed
qed

end

interpretation plain: registrar register
  by unfold_locales (simp_all add: register_eq)

interpretation discovery: registrar discovery_register
  by unfold_locales (simp_all add: discovery_register_eq)

section \<open>The canonical registry in closed form\<close>

text \<open>Every capability the modules declare, in registration order.\<close>

definition declarations ::
  "(string \<Rightarrow> ('i, 's) capability_spec list option res) \<Rightarrow> string list \<Rightarrow> ('i, 's) capability_spec list" where
  "declarations load ms = concat (map (\<lambda>m. case load m of Inr (Some cs) \<Rightarrow> cs | _ \<Rightarrow> []) ms)"

text \<open>No name is declared twice, the documented ones apart.\<close>

definition only_known_duplicates :: "string list \<Rightarrow> ('i, 's) capability_spec list \<Rightarrow> bool" where
  "only_known_duplicates seen cs \<longleftrightarrow>
     list_all (\<lambda>n. n \<in> set KNOWN_DUPLICATE_NAMES \<or> n \<notin> set seen \<and> count_list (map cp_name cs) n = 1) (map cp_name cs)"

lemma once_or_known_Cons:
  "list_all (\<lambda>m. m \<in> K \<or> m \<notin> S \<and> count_list (n # ns) m = 1) (n # ns) \<longleftrightarrow>
     (n \<in> S \<longrightarrow> n \<in> K) \<and> list_all (\<lambda>m. m \<in> K \<or> m \<notin> insert n S \<and> count_list ns m = 1) ns"
proof (cases "n \<in> K")
  case True
  have "(m \<in> K \<or> m \<notin> S \<and> count_list (n # ns) m = 1) = (m \<in> K \<or> m \<notin> insert n S \<and> count_list ns m = 1)" for m
    using True by (cases "m = n") auto
  with True show ?thesis by simp
next
  case n: False
  show ?thesis
  proof (cases "n \<in> set ns")
    case True
    then have "count_list ns n \<noteq> 0" by (simp add: count_list_0_iff)
    with True n show ?thesis by (auto simp: list_all_iff)
  next
    case False
    then have "count_list ns n = 0" by (simp add: count_list_0_iff)
    moreover have "list_all (\<lambda>m. m \<in> K \<or> m \<notin> S \<and> count_list (n # ns) m = 1) ns =
        list_all (\<lambda>m. m \<in> K \<or> m \<notin> insert n S \<and> count_list ns m = 1) ns"
      using False by (intro list.pred_cong) auto
    ultimately show ?thesis using n by simp
  qed
qed

lemma only_known_Cons:
  "only_known_duplicates seen (c # cs) \<longleftrightarrow>
     (cp_name c \<in> set seen \<longrightarrow> cp_name c \<in> set KNOWN_DUPLICATE_NAMES) \<and>
     only_known_duplicates (cp_name c # seen) cs"
  unfolding only_known_duplicates_def list.map(2) once_or_known_Cons by simp

lemma only_known_seen: "set seen = set seen' \<Longrightarrow> only_known_duplicates seen cs = only_known_duplicates seen' cs"
  by (simp add: only_known_duplicates_def)

lemma dedup_by_seen: "set seen = set seen' \<Longrightarrow> dedup_by f seen xs = dedup_by f seen' xs"
  by (induction f seen xs arbitrary: seen' rule: dedup_by.induct) auto

lemma discovery_specs:
  assumes "registry_ok reg"
  shows "if only_known_duplicates (map fst reg) cs
     then register_specs discovery_register cs reg = (Inr (), reg @ map entry (dedup_by cp_name (map fst reg) cs))
     else fst (register_specs discovery_register cs reg) = Inl DuplicateCapabilityError"
  using assms
proof (induction cs arbitrary: reg)
  case Nil
  then show ?case by (simp add: only_known_duplicates_def)
next
  case (Cons c cs)
  note eq = discovery_register_eq [OF Cons.prems, of c]
  show ?case
  proof (cases "cp_name c \<in> fst ` set reg")
    case True
    then have s: "set (cp_name c # map fst reg) = set (map fst reg)" by (simp add: insert_absorb)
    note seen = dedup_by_seen [OF s, of cp_name cs] only_known_seen [OF s, of cs]
    show ?thesis using True eq seen Cons.IH [OF Cons.prems] by (auto simp: only_known_Cons split: if_splits)
  next
    case False
    have s: "set (map fst (reg @ [entry c])) = set (cp_name c # map fst reg)" by auto
    note seen = dedup_by_seen [OF s, of cp_name cs] only_known_seen [OF s, of cs]
    show ?thesis
      using False eq seen Cons.IH [OF registry_ok_snoc [OF Cons.prems False]] by (auto simp: only_known_Cons split: if_splits)
  qed
qed

lemma register_specs_append:
  "register_specs add (cs @ ds) reg = (case register_specs add cs reg of
     (Inl e, reg') \<Rightarrow> (Inl e, reg') | (Inr _, reg') \<Rightarrow> register_specs add ds reg')"
  by (induction cs arbitrary: reg) (auto split: sum.splits)

lemma discover_declarations:
  assumes "list_all (\<lambda>m. \<exists>cs. load m = Inr (Some cs)) ms"
  shows "discover_and_register add load ms reg = register_specs add (declarations load ms) reg"
  using assms
  by (induction ms arbitrary: reg) (auto simp: declarations_def register_specs_append split: prod.splits sum.splits)

lemma default_registry_eq:
  assumes "list_all (\<lambda>m. \<exists>cs. load m = Inr (Some cs)) DEFAULT_CAPABILITY_MODULES"
  shows "build_default_registry load scaffold_caps =
    (let cs = declarations load DEFAULT_CAPABILITY_MODULES @ scaffold_caps in
     if only_known_duplicates [] cs then Inr (map entry (dedup_by cp_name [] cs)) else Inl DuplicateCapabilityError)"
proof -
  let ?cs = "declarations load DEFAULT_CAPABILITY_MODULES"
  have "build_default_registry load scaffold_caps =
      (case register_specs discovery_register (?cs @ scaffold_caps) [] of (Inl e, _) \<Rightarrow> Inl e | (Inr _, reg) \<Rightarrow> Inr reg)"
    unfolding build_default_registry_def register_modules_def discover_declarations [OF assms] register_specs_append
    by (auto split: prod.splits sum.splits)
  then show ?thesis using discovery_specs [of "[]" "?cs @ scaffold_caps"]
    by (auto simp: Let_def split: prod.splits sum.splits if_splits)
qed

text \<open>
  C38. The canonical registry: when every module exposes its \<open>register\<close>, assembly succeeds
  exactly when no capability name is declared twice, except for the documented duplicate;
  the registry then holds every declared name once, in declaration order, with the first
  declaration of it. Nothing is overwritten.
\<close>

theorem default_registry_first_wins:
  assumes "list_all (\<lambda>m. \<exists>cs. load m = Inr (Some cs)) DEFAULT_CAPABILITY_MODULES"
  shows "build_default_registry load scaffold_caps =
    (let cs = declarations load DEFAULT_CAPABILITY_MODULES @ scaffold_caps in
     if only_known_duplicates [] cs then Inr (map entry (dedup_by cp_name [] cs)) else Inl DuplicateCapabilityError)"
  by (rule default_registry_eq [OF assms])

definition sample_model :: "payload input_model" where
  "sample_model = \<lparr>im_fields = [''tenant_id''], im_schema = JNull, im_validate = Some, im_validate_json = Some\<rparr>"

definition sample_spec :: "string \<Rightarrow> surface \<Rightarrow> mode \<Rightarrow> (payload, payload list) capability_spec" where
  "sample_spec name surfaces mode =
     \<lparr>cp_name = name, cp_input_model = sample_model, cp_output_schema = JNull,
      cp_handler = (\<lambda>sc i s. (Inr i, s @ [i])), cp_description = name, cp_surfaces = surfaces, cp_mode = mode,
      cp_examples = []\<rparr>"

definition sample_load :: "string \<Rightarrow> (payload, payload list) capability_spec list option res" where
  "sample_load m = Inr (Some
     (if m = ''valuemaxx.outcomes.capabilities'' then [sample_spec ''validate_outcome_rule'' API RequestResponse]
      else if m = ''valuemaxx.onboarding.service'' then [sample_spec ''validate_outcome_rule'' 15 RequestResponse]
      else []))"

theorem default_registry_first_wins_witness:
  "build_default_registry sample_load [sample_spec ''scaffold'' MCP RequestResponse] =
     Inr [entry (sample_spec ''validate_outcome_rule'' API RequestResponse), entry (sample_spec ''scaffold'' MCP RequestResponse)]"
proof -
  have "list_all (\<lambda>m. \<exists>cs. sample_load m = Inr (Some cs)) DEFAULT_CAPABILITY_MODULES"
    by (simp add: sample_load_def DEFAULT_CAPABILITY_MODULES_def)
  from default_registry_first_wins [OF this, of "[sample_spec ''scaffold'' MCP RequestResponse]"]
  have "build_default_registry sample_load [sample_spec ''scaffold'' MCP RequestResponse] =
      (let cs = declarations sample_load DEFAULT_CAPABILITY_MODULES @ [sample_spec ''scaffold'' MCP RequestResponse] in
       if only_known_duplicates [] cs then Inr (map entry (dedup_by cp_name [] cs)) else Inl DuplicateCapabilityError)" .
  also have "\<dots> = Inr [entry (sample_spec ''validate_outcome_rule'' API RequestResponse),
      entry (sample_spec ''scaffold'' MCP RequestResponse)]"
    by (simp add: declarations_def sample_load_def DEFAULT_CAPABILITY_MODULES_def only_known_duplicates_def
        KNOWN_DUPLICATE_NAMES_def sample_spec_def Let_def)
  finally show ?thesis .
qed

section \<open>The MCP surface\<close>

lemma foldl_entries:
  "distinct (map cp_name cs) \<Longrightarrow> fst ` set d \<inter> cp_name ` set cs = {} \<Longrightarrow>
     foldl (\<lambda>m cap. dict_set (cp_name cap) cap m) d cs = d @ map entry cs"
proof (induction cs arbitrary: d)
  case (Cons c cs)
  have "dict_set (cp_name c) c d = d @ [entry c]" using Cons.prems(2) by (intro dict_set_snoc) auto
  with Cons show ?case by auto
qed simp

lemma registry_filter:
  assumes "registry_ok reg"
  shows "map entry (filter P (map snd reg)) = filter (P \<circ> snd) reg"
  using assms unfolding registry_ok_def by (induction reg) (auto simp: dict_ok_def)

lemma map_of_filter_snd:
  "distinct (map fst d) \<Longrightarrow>
     map_of (filter (P \<circ> snd) d) k = (case map_of d k of Some v \<Rightarrow> if P v then Some v else None | None \<Rightarrow> None)"
proof (induction d)
  case (Cons p d)
  have "map_of d (fst p) = None" using Cons.prems by (simp add: map_of_eq_None_iff)
  with Cons show ?case by (cases p) (auto split: option.splits)
qed simp

lemma server_by_name:
  assumes "registry_ok reg"
  shows "ms_by_name (mcp_server_new reg) = filter (\<lambda>p. surface_in MCP (cp_surfaces (snd p))) reg"
proof -
  have "distinct (map cp_name (map snd reg))"
    using registry_names [OF assms] assms unfolding registry_ok_def dict_ok_def registry_all_def by metis
  then have "distinct (map cp_name (for_surface MCP reg))" unfolding for_surface_def by (rule distinct_map_filter)
  then show ?thesis
    using registry_filter [OF assms, of "\<lambda>c. surface_in MCP (cp_surfaces c)"]
    by (simp add: mcp_server_new_def foldl_entries for_surface_def comp_def)
qed

lemma mcp_call:
  assumes "registry_ok reg"
  shows "call_tool (mcp_server_new reg) name arguments s =
       (case dict_get reg name of
          None \<Rightarrow> (Inl UnknownToolError, s)
        | Some cap \<Rightarrow>
            if \<not> surface_in MCP (cp_surfaces cap) then (Inl UnknownToolError, s)
            else case im_validate (cp_input_model cap) arguments of
              None \<Rightarrow> (Inl ValidationError, s)
            | Some req \<Rightarrow> cp_handler cap no_scope req s)"
proof -
  have "distinct (map fst reg)" using assms by (simp add: registry_ok_def dict_ok_def)
  from map_of_filter_snd [OF this, of "\<lambda>c. surface_in MCP (cp_surfaces c)" name]
  show ?thesis unfolding call_tool_def server_by_name [OF assms] by (auto simp: comp_def split: option.splits)
qed

text \<open>
  The MCP surface is the registry filtered by its flag: the listed tools are, in
  registration order, exactly the capabilities that declare MCP, and a call by name runs the
  registered handler on the validated arguments when the capability declares MCP. An unknown
  name, a capability off the surface and invalid arguments leave the state as it is.
\<close>

theorem mcp_projects_registry:
  assumes "registry_ok reg"
  shows "map mt_name (list_tools (mcp_server_new reg)) =
       map cp_name (filter (\<lambda>c. surface_in MCP (cp_surfaces c)) (registry_all reg)) \<and>
     call_tool (mcp_server_new reg) name arguments s =
       (case dict_get reg name of
          None \<Rightarrow> (Inl UnknownToolError, s)
        | Some cap \<Rightarrow>
            if \<not> surface_in MCP (cp_surfaces cap) then (Inl UnknownToolError, s)
            else case im_validate (cp_input_model cap) arguments of
              None \<Rightarrow> (Inl ValidationError, s)
            | Some req \<Rightarrow> cp_handler cap no_scope req s)"
  unfolding mcp_call [OF assms]
  by (simp add: list_tools_def mcp_server_new_def project_tools_def project_capability_def for_surface_def
      registry_all_def comp_def)

theorem mcp_projects_registry_witness:
  "call_tool (mcp_server_new [entry (sample_spec ''a'' API RequestResponse), entry (sample_spec ''b'' MCP RequestResponse)])
     ''a'' [] [] = (Inl UnknownToolError, [])"
proof -
  let ?r = "[entry (sample_spec ''a'' API RequestResponse), entry (sample_spec ''b'' MCP RequestResponse)]"
  have ok: "registry_ok ?r" by (simp add: registry_ok_def dict_ok_def sample_spec_def)
  have "\<not> surface_in MCP API" by (simp add: surface_in_def MCP_def API_def)
  with mcp_projects_registry [OF ok, of "''a''" "[]" "[]"] show ?thesis by (simp add: sample_spec_def)
qed

end
