(* ===== verification/Job_Store.thy ===== *)
theory Job_Store
  imports Surface_Registry
begin

text \<open>
  The background jobs of the API (\<open>apps/api/jobs.py\<close>). Job objects live in a heap, because
  a running thread keeps its object while the store maps identifiers to objects; a thread is
  the address of its job with the work it runs. The two locks make each marking, each
  snapshot and each access of the map one atomic step. The history of a store is an
  inductive relation whose steps are submissions, completions of any thread, and changes of
  the state by the rest of the program, in any order.
\<close>

section \<open>Jobs\<close>

datatype job_status = Running | Succeeded | Failed

text \<open>The message of a failed job is represented by the exception it quotes.\<close>

record job =
  jb_job_id :: string
  jb_tenant_id :: tenant_id
  jb_status :: job_status
  jb_result :: "payload option"
  jb_error :: "error option"

definition mark_succeeded :: "payload \<Rightarrow> job \<Rightarrow> job" where
  "mark_succeeded r j = j\<lparr>jb_status := Succeeded, jb_result := Some r\<rparr>"

definition mark_failed :: "error \<Rightarrow> job \<Rightarrow> job" where
  "mark_failed e j = j\<lparr>jb_status := Failed, jb_error := Some e\<rparr>"

record job_snapshot =
  sn_job_id :: string
  sn_status :: job_status
  sn_result :: "payload option"
  sn_error :: "error option"

definition snapshot :: "job \<Rightarrow> job_snapshot" where
  "snapshot j = \<lparr>sn_job_id = jb_job_id j, sn_status = jb_status j, sn_result = jb_result j, sn_error = jb_error j\<rparr>"

section \<open>The store\<close>

type_synonym 's work = "'s \<Rightarrow> payload res \<times> 's"

record 's job_store =
  js_heap :: "job list"
  js_jobs :: "(string, nat) dict"
  js_threads :: "(nat \<times> 's work) list"

definition job_store_new :: "'s job_store" where
  "job_store_new = \<lparr>js_heap = [], js_jobs = [], js_threads = []\<rparr>"

text \<open>\<open>new_id\<close> is the generated identifier.\<close>

definition submit :: "tenant_id \<Rightarrow> 's work \<Rightarrow> string \<Rightarrow> 's job_store \<Rightarrow> string \<times> 's job_store" where
  "submit tenant w new_id js =
     (new_id,
      js\<lparr>js_heap := js_heap js @ [\<lparr>jb_job_id = new_id, jb_tenant_id = tenant, jb_status = Running, jb_result = None,
           jb_error = None\<rparr>],
         js_jobs := dict_set new_id (length (js_heap js)) (js_jobs js),
         js_threads := js_threads js @ [(length (js_heap js), w)]\<rparr>)"

text \<open>The body of a thread, run to its end: the thread at position \<open>i\<close> finishes.\<close>

definition run_thread :: "nat \<Rightarrow> 's job_store \<times> 's \<Rightarrow> 's job_store \<times> 's" where
  "run_thread i st = (case st of (js, s) \<Rightarrow>
     (case js_threads js ! i of (a, w) \<Rightarrow>
        (case w s of (out, s') \<Rightarrow>
           (js\<lparr>js_heap := (js_heap js)[a := (case out of
                  Inl e \<Rightarrow> mark_failed e (js_heap js ! a) | Inr r \<Rightarrow> mark_succeeded r (js_heap js ! a))],
               js_threads := take i (js_threads js) @ drop (Suc i) (js_threads js)\<rparr>, s'))))"

definition job_get :: "tenant_id \<Rightarrow> string \<Rightarrow> 's job_store \<Rightarrow> job_snapshot res" where
  "job_get tenant job_id js =
     (case dict_get (js_jobs js) job_id of
        None \<Rightarrow> Inl JobNotFoundError
      | Some a \<Rightarrow> if jb_tenant_id (js_heap js ! a) \<noteq> tenant then Inl JobNotFoundError
          else Inr (snapshot (js_heap js ! a)))"

section \<open>Histories\<close>

datatype 's job_event =
    Submitted tenant_id string "'s work"
  | Finished nat
  | Changed 's

inductive history :: "'s job_event list \<Rightarrow> 's job_store \<times> 's \<Rightarrow> bool" where
  empty: "history [] (job_store_new, s)"
| submitted: "history tr (js, s) \<Longrightarrow> history (tr @ [Submitted t i w]) (snd (submit t w i js), s)"
| finished: "history tr (js, s) \<Longrightarrow> n < length (js_threads js) \<Longrightarrow> history (tr @ [Finished n]) (run_thread n (js, s))"
| changed: "history tr (js, s) \<Longrightarrow> history (tr @ [Changed s']) (js, s')"

text \<open>The submissions of a history; the job at address \<open>a\<close> is the \<open>a\<close>-th of them.\<close>

definition submissions :: "'s job_event list \<Rightarrow> (tenant_id \<times> string \<times> 's work) list" where
  "submissions tr = concat (map (\<lambda>ev. case ev of Submitted t i w \<Rightarrow> [(t, i, w)] | _ \<Rightarrow> []) tr)"

text \<open>A job's fields agree with its status, and with an outcome its work can have.\<close>

definition job_accounted :: "'s work \<Rightarrow> job \<Rightarrow> bool" where
  "job_accounted w j \<longleftrightarrow> (case jb_status j of
     Running \<Rightarrow> jb_result j = None \<and> jb_error j = None
   | Succeeded \<Rightarrow> jb_error j = None \<and> (\<exists>r s s'. jb_result j = Some r \<and> w s = (Inr r, s'))
   | Failed \<Rightarrow> jb_result j = None \<and> (\<exists>e s s'. jb_error j = Some e \<and> w s = (Inl e, s')))"

definition heap_ok :: "(tenant_id \<times> string \<times> 's work) list \<Rightarrow> 's job_store \<Rightarrow> bool" where
  "heap_ok subs js \<longleftrightarrow> length (js_heap js) = length subs \<and>
     (\<forall>a < length subs. jb_tenant_id (js_heap js ! a) = fst (subs ! a) \<and> jb_job_id (js_heap js ! a) = fst (snd (subs ! a)) \<and>
        job_accounted (snd (snd (subs ! a))) (js_heap js ! a) \<and>
        (jb_status (js_heap js ! a) = Running \<longleftrightarrow> a \<in> fst ` set (js_threads js)))"

definition threads_ok :: "(tenant_id \<times> string \<times> 's work) list \<Rightarrow> 's job_store \<Rightarrow> bool" where
  "threads_ok subs js \<longleftrightarrow> distinct (map fst (js_threads js)) \<and>
     (\<forall>p \<in> set (js_threads js). fst p < length subs \<and> snd p = snd (snd (subs ! fst p)))"

text \<open>The map sends an identifier to the latest submission that got it.\<close>

definition jobs_ok :: "(tenant_id \<times> string \<times> 's work) list \<Rightarrow> 's job_store \<Rightarrow> bool" where
  "jobs_ok subs js \<longleftrightarrow> (\<forall>i. case dict_get (js_jobs js) i of
     None \<Rightarrow> \<forall>b < length subs. fst (snd (subs ! b)) \<noteq> i
   | Some a \<Rightarrow> a < length subs \<and> fst (snd (subs ! a)) = i \<and> (\<forall>b < length subs. fst (snd (subs ! b)) = i \<longrightarrow> b \<le> a))"

definition store_ok :: "(tenant_id \<times> string \<times> 's work) list \<Rightarrow> 's job_store \<Rightarrow> bool" where
  "store_ok subs js \<longleftrightarrow> heap_ok subs js \<and> threads_ok subs js \<and> jobs_ok subs js"

section \<open>Every history keeps the invariant\<close>

lemma submissions_snoc [simp]:
  "submissions (tr @ [Submitted t i w]) = submissions tr @ [(t, i, w)]"
  "submissions (tr @ [Finished n]) = submissions tr"
  "submissions (tr @ [Changed s]) = submissions tr"
  "submissions [] = []"
  by (simp_all add: submissions_def)

lemma set_remove_nth:
  assumes "distinct (map fst xs)" "n < length xs"
  shows "set (take n xs @ drop (Suc n) xs) = {p \<in> set xs. fst p \<noteq> fst (xs ! n)}"
proof -
  have xs: "xs = take n xs @ xs ! n # drop (Suc n) xs" using assms(2) by (simp add: id_take_nth_drop)
  have "distinct (map fst (take n xs @ xs ! n # drop (Suc n) xs))" using assms(1) xs by simp
  then have "fst (xs ! n) \<notin> fst ` (set (take n xs) \<union> set (drop (Suc n) xs))" by auto
  then have "fst p \<noteq> fst (xs ! n)" if "p \<in> set (take n xs) \<union> set (drop (Suc n) xs)" for p
    using that by (metis image_eqI)
  moreover have "set xs = insert (xs ! n) (set (take n xs) \<union> set (drop (Suc n) xs))" by (subst xs) auto
  ultimately show ?thesis by auto
qed

lemma distinct_remove_nth: "distinct (map fst xs) \<Longrightarrow> distinct (map fst (take n xs @ drop (Suc n) xs))"
proof -
  assume d: "distinct (map fst xs)"
  have "distinct (take n (map fst xs) @ drop (Suc n) (map fst xs))"
    using d set_take_disj_set_drop_if_distinct [OF d, of n "Suc n"] by simp
  then show ?thesis by (simp add: take_map drop_map)
qed

lemma submit_ok:
  assumes "store_ok subs js"
  shows "store_ok (subs @ [(t, i, w)]) (snd (submit t w i js))"
proof -
  have h: "heap_ok subs js" and th: "threads_ok subs js" and jb: "jobs_ok subs js"
    using assms by (simp_all add: store_ok_def)
  have len: "length (js_heap js) = length subs" using h by (simp add: heap_ok_def)
  have new: "length subs \<notin> fst ` set (js_threads js)" using th by (auto simp: threads_ok_def)
  have "heap_ok (subs @ [(t, i, w)]) (snd (submit t w i js))"
    using h new len by (auto simp: heap_ok_def submit_def nth_append less_Suc_eq job_accounted_def)
  moreover have "threads_ok (subs @ [(t, i, w)]) (snd (submit t w i js))"
    using th new len by (auto simp: threads_ok_def submit_def nth_append)
  moreover have "jobs_ok (subs @ [(t, i, w)]) (snd (submit t w i js))"
    using jb len unfolding jobs_ok_def submit_def by (fastforce simp: nth_append less_Suc_eq split: option.splits)
  ultimately show ?thesis by (simp add: store_ok_def)
qed

lemma run_thread_ok:
  assumes "store_ok subs js" "n < length (js_threads js)"
  shows "store_ok subs (fst (run_thread n (js, s)))"
proof -
  have h: "heap_ok subs js" and th: "threads_ok subs js" and jb: "jobs_ok subs js"
    using assms(1) by (simp_all add: store_ok_def)
  obtain a w where aw: "js_threads js ! n = (a, w)" by fastforce
  then have "(a, w) \<in> set (js_threads js)" using assms(2) nth_mem by metis
  then have a: "a < length subs" "w = snd (snd (subs ! a))" "a \<in> fst ` set (js_threads js)"
    using th by (force simp: threads_ok_def)+
  then have run: "job_accounted w (js_heap js ! a)" "jb_status (js_heap js ! a) = Running"
    using h by (auto simp: heap_ok_def)
  have al: "a < length (js_heap js)" using a(1) h by (simp add: heap_ok_def)
  obtain out s' where o: "w s = (out, s')" by fastforce
  define j where "j = (case out of Inl e \<Rightarrow> mark_failed e (js_heap js ! a) | Inr r \<Rightarrow> mark_succeeded r (js_heap js ! a))"
  define rest where "rest = take n (js_threads js) @ drop (Suc n) (js_threads js)"
  have st: "fst (run_thread n (js, s)) = js\<lparr>js_heap := (js_heap js)[a := j], js_threads := rest\<rparr>"
    using aw o by (simp add: run_thread_def j_def rest_def)
  have j: "jb_status j \<noteq> Running" "job_accounted w j" "jb_tenant_id j = jb_tenant_id (js_heap js ! a)"
    "jb_job_id j = jb_job_id (js_heap js ! a)"
    using run o unfolding j_def job_accounted_def mark_failed_def mark_succeeded_def by (cases out; auto)+
  have d: "distinct (map fst (js_threads js))" using th by (simp add: threads_ok_def)
  have rest: "set rest = {p \<in> set (js_threads js). fst p \<noteq> a}" "distinct (map fst rest)"
    unfolding rest_def using set_remove_nth [OF d assms(2)] distinct_remove_nth [OF d] aw by simp_all
  have fst_rest: "b \<in> fst ` set rest \<longleftrightarrow> b \<in> fst ` set (js_threads js) \<and> b \<noteq> a" for b
    unfolding rest(1) by force
  have "heap_ok subs (js\<lparr>js_heap := (js_heap js)[a := j], js_threads := rest\<rparr>)"
    unfolding heap_ok_def
  proof (intro conjI allI impI)
    show "length (js_heap (js\<lparr>js_heap := (js_heap js)[a := j], js_threads := rest\<rparr>)) = length subs"
      using h by (simp add: heap_ok_def)
  next
    fix b assume b: "b < length subs"
    have hb: "jb_tenant_id (js_heap js ! b) = fst (subs ! b)" "jb_job_id (js_heap js ! b) = fst (snd (subs ! b))"
      "job_accounted (snd (snd (subs ! b))) (js_heap js ! b)"
      "jb_status (js_heap js ! b) = Running \<longleftrightarrow> b \<in> fst ` set (js_threads js)"
      using h b by (simp_all add: heap_ok_def)
    let ?j = "js_heap (js\<lparr>js_heap := (js_heap js)[a := j], js_threads := rest\<rparr>) ! b"
    have jj: "?j = (if b = a then j else js_heap js ! b)" using al by (simp add: nth_list_update)
    show "jb_tenant_id ?j = fst (subs ! b)" "jb_job_id ?j = fst (snd (subs ! b))"
      "job_accounted (snd (snd (subs ! b))) ?j"
      unfolding jj using hb j a(2) by auto
    show "jb_status ?j = Running \<longleftrightarrow>
        b \<in> fst ` set (js_threads (js\<lparr>js_heap := (js_heap js)[a := j], js_threads := rest\<rparr>))"
      unfolding jj using hb(4) j(1) fst_rest by simp
  qed
  moreover have "threads_ok subs (js\<lparr>js_heap := (js_heap js)[a := j], js_threads := rest\<rparr>)"
    using th rest by (auto simp: threads_ok_def)
  moreover have "jobs_ok subs (js\<lparr>js_heap := (js_heap js)[a := j], js_threads := rest\<rparr>)"
    using jb by (simp add: jobs_ok_def)
  ultimately show ?thesis unfolding st by (simp add: store_ok_def)
qed

lemma history_ok: "history tr st \<Longrightarrow> store_ok (submissions tr) (fst st)"
proof (induction rule: history.induct)
  case (empty s)
  then show ?case by (simp add: store_ok_def heap_ok_def threads_ok_def jobs_ok_def job_store_new_def)
next
  case (submitted tr js s t i w)
  then show ?case by (simp add: submit_ok)
next
  case (finished tr js s n)
  then show ?case by (simp add: run_thread_ok)
next
  case (changed tr js s s')
  then show ?case by simp
qed

section \<open>What a poll sees\<close>

text \<open>A snapshot of a job's state, against the work that was submitted.\<close>

definition snapshot_accounted :: "'s work \<Rightarrow> job_snapshot \<Rightarrow> bool" where
  "snapshot_accounted w sn \<longleftrightarrow> (case sn_status sn of
     Running \<Rightarrow> sn_result sn = None \<and> sn_error sn = None
   | Succeeded \<Rightarrow> sn_error sn = None \<and> (\<exists>r s s'. sn_result sn = Some r \<and> w s = (Inr r, s'))
   | Failed \<Rightarrow> sn_result sn = None \<and> (\<exists>e s s'. sn_error sn = Some e \<and> w s = (Inl e, s')))"

lemma snapshot_accounted_eq: "snapshot_accounted w (snapshot j) = job_accounted w j"
  by (cases "jb_status j") (simp_all add: snapshot_accounted_def job_accounted_def snapshot_def)

text \<open>\<open>a\<close> is the last submission that got the identifier \<open>i\<close>.\<close>

definition latest_submission :: "(tenant_id \<times> string \<times> 's work) list \<Rightarrow> string \<Rightarrow> nat \<Rightarrow> bool" where
  "latest_submission subs i a \<longleftrightarrow> a < length subs \<and> fst (snd (subs ! a)) = i \<and>
     (\<forall>b < length subs. fst (snd (subs ! b)) = i \<longrightarrow> b \<le> a)"

lemma latest_unique: "latest_submission subs i a \<Longrightarrow> latest_submission subs i b \<Longrightarrow> a = b"
  by (auto simp: latest_submission_def intro: le_antisym)

lemma jobs_latest:
  assumes "jobs_ok subs js"
  shows "dict_get (js_jobs js) i = Some a \<longleftrightarrow> latest_submission subs i a"
proof
  assume "dict_get (js_jobs js) i = Some a"
  then show "latest_submission subs i a"
    using assms [unfolded jobs_ok_def, rule_format, of i] by (simp add: latest_submission_def)
next
  assume l: "latest_submission subs i a"
  then obtain b where b: "dict_get (js_jobs js) i = Some b"
    using assms [unfolded jobs_ok_def, rule_format, of i] by (auto simp: latest_submission_def split: option.splits)
  then have "latest_submission subs i b"
    using assms [unfolded jobs_ok_def, rule_format, of i] by (simp add: latest_submission_def)
  with l have "a = b" by (rule latest_unique)
  with b show "dict_get (js_jobs js) i = Some a" by simp
qed

lemma job_get_iff:
  assumes "store_ok subs js"
  shows "job_get t i js = Inr sn \<longleftrightarrow>
     (\<exists>a. latest_submission subs i a \<and> fst (subs ! a) = t \<and> sn = snapshot (js_heap js ! a))"
    and "job_get t i js = Inl e \<longleftrightarrow> e = JobNotFoundError \<and> \<not> (\<exists>a. latest_submission subs i a \<and> fst (subs ! a) = t)"
proof -
  have h: "heap_ok subs js" and jb: "jobs_ok subs js" using assms by (simp_all add: store_ok_def)
  have t: "jb_tenant_id (js_heap js ! a) = fst (subs ! a)" if "latest_submission subs i a" for a
    using h that by (simp add: heap_ok_def latest_submission_def)
  show "job_get t i js = Inr sn \<longleftrightarrow>
     (\<exists>a. latest_submission subs i a \<and> fst (subs ! a) = t \<and> sn = snapshot (js_heap js ! a))"
    unfolding job_get_def using jobs_latest [OF jb, of i] t latest_unique [of subs i] by (auto split: option.splits)
  show "job_get t i js = Inl e \<longleftrightarrow> e = JobNotFoundError \<and> \<not> (\<exists>a. latest_submission subs i a \<and> fst (subs ! a) = t)"
    unfolding job_get_def using jobs_latest [OF jb, of i] t latest_unique [of subs i] by (auto split: option.splits)
qed

text \<open>
  C29. Polls are tenant-scoped and truthful, in every interleaving of submissions and
  completions: a tenant that polls an identifier gets an answer exactly when the latest
  submission under it is its own, and the answer is either still running with nothing to
  report, or carries the output, or the exception, that the submitted work really produced.
  Otherwise the poll fails as for an unknown job.
\<close>

theorem job_poll_isolated:
  assumes "history tr (js, s)"
  shows "case job_get t i js of
       Inl e \<Rightarrow> e = JobNotFoundError \<and> (\<nexists>a. latest_submission (submissions tr) i a \<and> fst (submissions tr ! a) = t)
     | Inr sn \<Rightarrow> \<exists>a w. latest_submission (submissions tr) i a \<and> submissions tr ! a = (t, i, w) \<and>
         sn_job_id sn = i \<and> snapshot_accounted w sn"
proof -
  have ok: "store_ok (submissions tr) js" using history_ok [OF assms] by simp
  show ?thesis
  proof (cases "job_get t i js")
    case (Inl e)
    then show ?thesis using job_get_iff(2) [OF ok, of t i e] by auto
  next
    case (Inr sn)
    then obtain a where a: "latest_submission (submissions tr) i a" "fst (submissions tr ! a) = t"
      "sn = snapshot (js_heap js ! a)"
      using job_get_iff(1) [OF ok] by blast
    let ?w = "snd (snd (submissions tr ! a))"
    have "job_accounted ?w (js_heap js ! a)" "jb_job_id (js_heap js ! a) = i" "submissions tr ! a = (t, i, ?w)"
      using ok a(1,2) by (auto simp: store_ok_def heap_ok_def latest_submission_def prod_eq_iff)
    then have "submissions tr ! a = (t, i, ?w)" "sn_job_id sn = i" "snapshot_accounted ?w sn"
      using a(3) by (simp_all add: snapshot_accounted_eq, simp add: snapshot_def)
    with a(1) show ?thesis unfolding Inr by auto
  qed
qed

definition echo_work :: "payload \<Rightarrow> payload list work" where
  "echo_work p s = (Inr p, s @ [p])"

definition two_tenants :: "payload list job_event list" where
  "two_tenants = [Submitted ''t1'' ''j1'' (echo_work [(''a'', JInt 1)]), Submitted ''t2'' ''j2'' (\<lambda>s. (Inl KeyError, s)), Finished 0]"

definition two_tenants_store :: "payload list job_store" where
  "two_tenants_store = fst (run_thread 0 (snd (submit ''t2'' (\<lambda>s. (Inl KeyError, s)) ''j2''
     (snd (submit ''t1'' (echo_work [(''a'', JInt 1)]) ''j1'' job_store_new))), []))"

lemma two_tenants_history: "history two_tenants (two_tenants_store, [[(''a'', JInt 1)]])"
proof -
  let ?w = "echo_work [(''a'', JInt 1)]" and ?v = "\<lambda>s :: payload list. (Inl KeyError :: payload res, s)"
  let ?js = "snd (submit ''t2'' ?v ''j2'' (snd (submit ''t1'' ?w ''j1'' job_store_new)))"
  have "history ((([] @ [Submitted ''t1'' ''j1'' ?w]) @ [Submitted ''t2'' ''j2'' ?v]) @ [Finished 0]) (run_thread 0 (?js, []))"
    by (intro history.intros) (simp add: submit_def)
  moreover have "run_thread 0 (?js, []) = (two_tenants_store, [[(''a'', JInt 1)]])"
    by (simp add: two_tenants_store_def run_thread_def submit_def job_store_new_def echo_work_def)
  ultimately show ?thesis by (simp add: two_tenants_def)
qed

theorem job_poll_isolated_witness:
  "job_get ''t2'' ''j1'' two_tenants_store = Inl JobNotFoundError \<and>
   (\<exists>sn. job_get ''t1'' ''j1'' two_tenants_store = Inr sn \<and> sn_result sn = Some [(''a'', JInt 1)] \<and> sn_job_id sn = ''j1'')"
proof -
  have g: "job_get ''t2'' ''j1'' two_tenants_store = Inl JobNotFoundError"
    "map_sum id sn_result (job_get ''t1'' ''j1'' two_tenants_store) = Inr (Some [(''a'', JInt 1)])"
    by (simp_all add: two_tenants_store_def run_thread_def submit_def job_store_new_def echo_work_def job_get_def
        mark_succeeded_def snapshot_def)
  then obtain sn where "job_get ''t1'' ''j1'' two_tenants_store = Inr sn" "sn_result sn = Some [(''a'', JInt 1)]"
    by (cases "job_get ''t1'' ''j1'' two_tenants_store") auto
  with g job_poll_isolated [OF two_tenants_history, where t = "''t1''" and i = "''j1''"] show ?thesis by auto
qed

section \<open>Completion\<close>

lemma run_thread_other:
  "n < length (js_threads js) \<Longrightarrow> a \<noteq> fst (js_threads js ! n) \<Longrightarrow> js_heap (fst (run_thread n (js, s))) ! a = js_heap js ! a"
  by (auto simp: run_thread_def split: prod.splits)

text \<open>
  C30. A job that is still running always has its thread: whatever happened so far, there is a
  thread whose completion makes the next poll report that work's outcome at the current
  state, without touching any other job; and a job once finished is never changed by a
  later completion.
\<close>

theorem job_completes:
  assumes "history tr (js, s)" "job_get t i js = Inr sn"
  shows "if sn_status sn = Running
     then \<exists>n w. n < length (js_threads js) \<and> (t, i, w) \<in> set (submissions tr) \<and>
       job_get t i (fst (run_thread n (js, s))) = Inr (case fst (w s) of
          Inl e \<Rightarrow> sn\<lparr>sn_status := Failed, sn_error := Some e\<rparr>
        | Inr r \<Rightarrow> sn\<lparr>sn_status := Succeeded, sn_result := Some r\<rparr>) \<and>
       (\<forall>t' i'. i' \<noteq> i \<longrightarrow> job_get t' i' (fst (run_thread n (js, s))) = job_get t' i' js)
     else \<forall>n < length (js_threads js). job_get t i (fst (run_thread n (js, s))) = Inr sn"
proof -
  let ?subs = "submissions tr"
  have ok: "store_ok ?subs js" using history_ok [OF assms(1)] by simp
  have h: "heap_ok ?subs js" and th: "threads_ok ?subs js" and jb: "jobs_ok ?subs js"
    using ok by (simp_all add: store_ok_def)
  obtain a where a: "latest_submission ?subs i a" "fst (?subs ! a) = t" "sn = snapshot (js_heap js ! a)"
    using assms(2) job_get_iff(1) [OF ok] by blast
  have al: "a < length ?subs" "a < length (js_heap js)" using a(1) h by (auto simp: latest_submission_def heap_ok_def)
  have status: "sn_status sn = Running \<longleftrightarrow> a \<in> fst ` set (js_threads js)"
    using h al(1) a(3) by (simp add: heap_ok_def snapshot_def)
  have get: "job_get t' i' (fst (run_thread n (js, s))) =
      (case dict_get (js_jobs js) i' of None \<Rightarrow> Inl JobNotFoundError
       | Some b \<Rightarrow> let j = js_heap (fst (run_thread n (js, s))) ! b in
           if jb_tenant_id j \<noteq> t' then Inl JobNotFoundError else Inr (snapshot j))" for t' i' n
    by (simp add: job_get_def run_thread_def Let_def split: prod.splits option.splits)
  have ja: "dict_get (js_jobs js) i = Some a" using jobs_latest [OF jb] a(1) by blast
  have ta: "jb_tenant_id (js_heap js ! a) = t" using h al(1) a(2) by (simp add: heap_ok_def)
  show ?thesis
  proof (cases "sn_status sn = Running")
    case True
    then obtain n where n: "n < length (js_threads js)" "fst (js_threads js ! n) = a"
      using status by (metis (no_types, lifting) image_iff in_set_conv_nth)
    define w where "w = snd (js_threads js ! n)"
    have w: "js_threads js ! n = (a, w)" using n(2) by (auto simp: w_def)
    have "w = snd (snd (?subs ! a))" using th n w by (metis threads_ok_def nth_mem fst_conv snd_conv)
    then have "?subs ! a = (t, i, w)" using a(1,2) by (auto simp: latest_submission_def prod_eq_iff)
    then have mem: "(t, i, w) \<in> set ?subs" using al(1) nth_mem by metis
    have heap: "js_heap (fst (run_thread n (js, s))) ! a = (case fst (w s) of
        Inl e \<Rightarrow> mark_failed e (js_heap js ! a) | Inr r \<Rightarrow> mark_succeeded r (js_heap js ! a))"
      using w al(2) by (simp add: run_thread_def split: prod.splits)
    have this_job: "job_get t i (fst (run_thread n (js, s))) = Inr (case fst (w s) of
          Inl e \<Rightarrow> sn\<lparr>sn_status := Failed, sn_error := Some e\<rparr>
        | Inr r \<Rightarrow> sn\<lparr>sn_status := Succeeded, sn_result := Some r\<rparr>)"
      unfolding get ja using ta a(3)
      by (cases "fst (w s)") (simp_all add: heap Let_def mark_failed_def mark_succeeded_def snapshot_def)
    have others: "job_get t' i' (fst (run_thread n (js, s))) = job_get t' i' js" if "i' \<noteq> i" for t' i'
    proof (cases "dict_get (js_jobs js) i'")
      case None
      then show ?thesis unfolding get by (simp add: job_get_def)
    next
      case (Some b)
      then have "b \<noteq> a" using jobs_latest [OF jb, of i' b] a(1) that by (auto simp: latest_submission_def)
      then have "js_heap (fst (run_thread n (js, s))) ! b = js_heap js ! b" using run_thread_other [OF n(1)] n(2) by simp
      then show ?thesis unfolding get using Some by (simp add: job_get_def Let_def)
    qed
    show ?thesis using True n(1) mem this_job others by auto
  next
    case False
    have "job_get t i (fst (run_thread n (js, s))) = Inr sn" if n: "n < length (js_threads js)" for n
    proof -
      have "a \<noteq> fst (js_threads js ! n)" using False status n by (metis image_eqI nth_mem)
      then show ?thesis unfolding get ja using run_thread_other [OF n] ta a(3) by (simp add: Let_def)
    qed
    with False show ?thesis by simp
  qed
qed

theorem job_completes_witness:
  "\<exists>n. job_get ''t2'' ''j2'' (fst (run_thread n (two_tenants_store, [[(''a'', JInt 1)]]))) =
     Inr \<lparr>sn_job_id = ''j2'', sn_status = Failed, sn_result = None, sn_error = Some KeyError\<rparr>"
proof -
  let ?sn = "\<lparr>sn_job_id = ''j2'', sn_status = Running, sn_result = None, sn_error = None\<rparr>"
  have g: "job_get ''t2'' ''j2'' two_tenants_store = Inr ?sn"
    by (simp add: two_tenants_store_def run_thread_def submit_def job_store_new_def echo_work_def job_get_def
        mark_succeeded_def snapshot_def)
  have only: "w = (\<lambda>s. (Inl KeyError, s))" if "(''t2'', ''j2'', w) \<in> set (submissions two_tenants)" for w
    using that by (auto simp: submissions_def two_tenants_def)
  from job_completes [OF two_tenants_history g] obtain n w where
    "(''t2'', ''j2'', w) \<in> set (submissions two_tenants)"
    "job_get ''t2'' ''j2'' (fst (run_thread n (two_tenants_store, [[(''a'', JInt 1)]]))) =
       Inr (case fst (w [[(''a'', JInt 1)]]) of
          Inl e \<Rightarrow> ?sn\<lparr>sn_status := Failed, sn_error := Some e\<rparr>
        | Inr r \<Rightarrow> ?sn\<lparr>sn_status := Succeeded, sn_result := Some r\<rparr>)"
    by auto
  with only [of w] show ?thesis by (intro exI [of _ n]) simp
qed

end
