(* ===== verification/Api_Routes.thy ===== *)
theory Api_Routes
  imports Job_Store Attribution Capture_Ingest
begin

text \<open>
  The HTTP surface (\<open>apps/api\<close>): key authentication, webhook signatures, the projection of
  the registry onto routes by mode, the OTLP collector, the job poll, \<open>POST /outcome\<close>,
  \<open>POST /v1/alias\<close> and the MCP transport.

  A route is a function from a request and a state to its answer and the state it leaves.
  An answer is the body of a success, an \<open>HTTPException\<close> with its status, or an exception no
  handler catches (which the framework turns into a 500). \<open>host\<close> collects what a route takes
  from its surroundings: the JSON parser, the HMAC, \<open>datetime.fromisoformat\<close>, the clock, a
  generated UUID and \<open>str\<close> of compound values.
\<close>

section \<open>Requests and answers\<close>

datatype http_error = HTTPException nat | Raised error

type_synonym 'a http = "http_error + 'a"

record http_request =
  hq_api_key :: "string option"
  hq_ingest_key :: "string option"
  hq_signature :: "string option"
  hq_baggage :: "string option"
  hq_body :: string
  hq_strict :: bool

text \<open>An aware \<open>datetime\<close> is its instant with its offset from UTC; a naive one has no offset.\<close>

record host =
  ho_loads :: "string \<Rightarrow> json res"
  ho_hexdigest :: "string \<Rightarrow> string \<Rightarrow> string"
  ho_fromisoformat :: "string \<Rightarrow> (instant \<times> duration option) option"
  ho_now :: instant
  ho_uuid4 :: string
  ho_py :: py_host

section \<open>Authentication and signatures\<close>

type_synonym authenticator = "(string, tenant_id) dict"

definition resolve_tenant :: "authenticator \<Rightarrow> string option \<Rightarrow> tenant_id res" where
  "resolve_tenant keys api_key = (case api_key of
     None \<Rightarrow> Inl AuthError
   | Some k \<Rightarrow> if k = [] then Inl AuthError
       else case dict_get keys k of None \<Rightarrow> Inl AuthError | Some t \<Rightarrow> Inr t)"

definition resolve_key :: "authenticator \<Rightarrow> string option \<Rightarrow> tenant_id http" where
  "resolve_key auth api_key = (case resolve_tenant auth api_key of Inl _ \<Rightarrow> Inl (HTTPException 401) | Inr t \<Rightarrow> Inr t)"

text \<open>\<open>ingest_key or api_key\<close>.\<close>

definition either_key :: "http_request \<Rightarrow> string option" where
  "either_key q = (case hq_ingest_key q of Some k \<Rightarrow> if k = [] then hq_api_key q else Some k | None \<Rightarrow> hq_api_key q)"

definition verify_signature :: "(string \<Rightarrow> string \<Rightarrow> string) \<Rightarrow> string \<Rightarrow> string \<Rightarrow> string \<Rightarrow> unit res" where
  "verify_signature hexdigest secret raw_body signature =
     res_bind (compare_digest (hexdigest secret raw_body) signature) (\<lambda>same.
       if same then Inr () else Inl WebhookSignatureError)"

section \<open>Payloads\<close>

fun as_dict :: "json \<Rightarrow> payload" where
  "as_dict (JObj m) = m"
| "as_dict _ = []"

definition request_payload :: "host \<Rightarrow> http_request \<Rightarrow> payload http" where
  "request_payload ho q = (case ho_loads ho (hq_body q) of Inl e \<Rightarrow> Inl (Raised e) | Inr v \<Rightarrow> Inr (as_dict v))"

definition scope_payload :: "payload \<Rightarrow> tenant_id \<Rightarrow> ('i, 's) capability_spec \<Rightarrow> payload" where
  "scope_payload p tenant cap =
     (if ''tenant_id'' \<in> set (im_fields (cp_input_model cap)) then dict_set ''tenant_id'' (JStr tenant) p else p)"

definition validate_payload :: "('i, 's) capability_spec \<Rightarrow> payload \<Rightarrow> 'i http" where
  "validate_payload cap p = (case im_validate_json (cp_input_model cap) p of
     None \<Rightarrow> Inl (HTTPException 422) | Some i \<Rightarrow> Inr i)"

definition parse_raw :: "host \<Rightarrow> string \<Rightarrow> payload http" where
  "parse_raw ho raw_body = (case ho_loads ho (if raw_body = [] then ''{}'' else raw_body) of
     Inl e \<Rightarrow> if e = JSONDecodeError then Inl (HTTPException 422) else Inl (Raised e)
   | Inr v \<Rightarrow> Inr (as_dict v))"

definition tenant_scope :: "tenant_id \<Rightarrow> scope" where
  "tenant_scope tenant = (case parse_uuid tenant of
     Inl _ \<Rightarrow> no_scope | Inr t \<Rightarrow> no_scope\<lparr>sp_metric_tenant := Some t\<rparr>)"

definition run_handler ::
  "('i, 's) capability_spec \<Rightarrow> scope \<Rightarrow> 'i \<Rightarrow> 's \<Rightarrow> payload http \<times> 's" where
  "run_handler cap sc i s = (case cp_handler cap sc i s of (Inl e, s') \<Rightarrow> (Inl (Raised e), s') | (Inr p, s') \<Rightarrow> (Inr p, s'))"

section \<open>Routes by mode\<close>

definition request_response ::
  "host \<Rightarrow> authenticator \<Rightarrow> ('i, 's) capability_spec \<Rightarrow> http_request \<Rightarrow> 's \<Rightarrow> payload http \<times> 's" where
  "request_response ho auth cap q s =
     (case resolve_key auth (hq_api_key q) of Inl e \<Rightarrow> (Inl e, s) | Inr tenant \<Rightarrow>
     (case request_payload ho q of Inl e \<Rightarrow> (Inl e, s) | Inr p \<Rightarrow>
     (case validate_payload cap (scope_payload p tenant cap) of Inl e \<Rightarrow> (Inl e, s) | Inr i \<Rightarrow>
        run_handler cap (tenant_scope tenant) i s)))"

definition async_job ::
  "host \<Rightarrow> authenticator \<Rightarrow> ('i, 's) capability_spec \<Rightarrow> http_request \<Rightarrow> 's job_store \<Rightarrow> payload http \<times> 's job_store" where
  "async_job ho auth cap q js =
     (case resolve_key auth (hq_api_key q) of Inl e \<Rightarrow> (Inl e, js) | Inr tenant \<Rightarrow>
     (case request_payload ho q of Inl e \<Rightarrow> (Inl e, js) | Inr p \<Rightarrow>
     (case validate_payload cap (scope_payload p tenant cap) of Inl e \<Rightarrow> (Inl e, js) | Inr i \<Rightarrow>
     (case submit tenant (cp_handler cap no_scope i) (ho_uuid4 ho) js of (job_id, js') \<Rightarrow>
        (Inr [(''job_id'', JStr job_id)], js')))))"

definition webhook_receiver ::
  "host \<Rightarrow> authenticator \<Rightarrow> string \<Rightarrow> ('i, 's) capability_spec \<Rightarrow> http_request \<Rightarrow> 's \<Rightarrow> payload http \<times> 's" where
  "webhook_receiver ho auth secret cap q s =
     (case resolve_key auth (hq_api_key q) of Inl e \<Rightarrow> (Inl e, s) | Inr tenant \<Rightarrow>
     (case verify_signature (ho_hexdigest ho) secret (hq_body q) (case hq_signature q of None \<Rightarrow> [] | Some x \<Rightarrow> x) of
        Inl e \<Rightarrow> (Inl (if e = WebhookSignatureError then HTTPException 401 else Raised e), s)
      | Inr _ \<Rightarrow>
     (case parse_raw ho (hq_body q) of Inl e \<Rightarrow> (Inl e, s) | Inr p \<Rightarrow>
     (case validate_payload cap (scope_payload p tenant cap) of Inl e \<Rightarrow> (Inl e, s) | Inr i \<Rightarrow>
        run_handler cap no_scope i s))))"

text \<open>The body of the stream is a single server-sent event carrying the output.\<close>

definition streaming ::
  "host \<Rightarrow> authenticator \<Rightarrow> ('i, 's) capability_spec \<Rightarrow> http_request \<Rightarrow> 's \<Rightarrow> payload http \<times> 's" where
  "streaming ho auth cap q s =
     (case resolve_key auth (hq_api_key q) of Inl e \<Rightarrow> (Inl e, s) | Inr tenant \<Rightarrow>
     (case request_payload ho q of Inl e \<Rightarrow> (Inl e, s) | Inr p \<Rightarrow>
     (case validate_payload cap (scope_payload p tenant cap) of Inl e \<Rightarrow> (Inl e, s) | Inr i \<Rightarrow>
        run_handler cap no_scope i s)))"

text \<open>\<open>GET /jobs/{job_id}\<close>.\<close>

definition poll_job :: "authenticator \<Rightarrow> http_request \<Rightarrow> string \<Rightarrow> 's job_store \<Rightarrow> job_snapshot http" where
  "poll_job auth q job_id js =
     (case resolve_key auth (hq_api_key q) of Inl e \<Rightarrow> Inl e | Inr tenant \<Rightarrow>
     (case job_get tenant job_id js of Inl _ \<Rightarrow> Inl (HTTPException 404) | Inr sn \<Rightarrow> Inr sn))"

text \<open>\<open>POST /v1/traces\<close>; \<open>holder\<close> is the ingest runtime bound for the registry.\<close>

definition otlp_collect ::
  "host \<Rightarrow> authenticator \<Rightarrow> ingest_runtime option option \<Rightarrow> (nat \<Rightarrow> span_clock) \<Rightarrow> http_request \<Rightarrow> ingest_store
     \<Rightarrow> payload http \<times> ingest_store" where
  "otlp_collect ho auth holder clk q st =
     (case resolve_key auth (either_key q) of Inl e \<Rightarrow> (Inl e, st) | Inr tenant \<Rightarrow>
     (case parse_raw ho (hq_body q) of Inl e \<Rightarrow> (Inl e, st) | Inr body \<Rightarrow>
     (case parse_uuid tenant of Inl e \<Rightarrow> (Inl (Raised e), st) | Inr tid \<Rightarrow>
     (case collect (ho_py ho) holder tid (JObj body) clk st of
        (Inl e, st') \<Rightarrow> (Inl (if e = IngestNotWiredError then HTTPException 503 else Raised e), st')
      | (Inr _, st') \<Rightarrow> (Inr [], st')))))"

section \<open>The route table\<close>

text \<open>What each path of the app is mounted to, with its success status.\<close>

datatype ('i, 's) endpoint =
    Capability "('i, 's) capability_spec"
  | PollJob
  | OtlpCollect
  | OutcomeAlias "('i, 's) capability_spec"
  | EntityAlias

record ('i, 's) route =
  rt_path :: string
  rt_status :: nat
  rt_endpoint :: "('i, 's) endpoint"

fun success_status :: "mode \<Rightarrow> nat" where
  "success_status AsyncJob = 202"
| "success_status _ = 200"

definition mount_capability :: "('i, 's) capability_spec \<Rightarrow> ('i, 's) route" where
  "mount_capability cap = \<lparr>rt_path = ''/'' @ cp_name cap, rt_status = success_status (cp_mode cap), rt_endpoint = Capability cap\<rparr>"

definition mount_outcome_alias_route :: "('i, 's) registry \<Rightarrow> ('i, 's) route list" where
  "mount_outcome_alias_route reg = (case find (\<lambda>c. cp_name c = ''bind_outcome'') (registry_all reg) of
     None \<Rightarrow> [] | Some cap \<Rightarrow> [\<lparr>rt_path = ''/outcome'', rt_status = 200, rt_endpoint = OutcomeAlias cap\<rparr>])"

definition mount_capabilities :: "('i, 's) registry \<Rightarrow> ('i, 's) route list" where
  "mount_capabilities reg =
     (let caps = for_surface API reg in
      map mount_capability caps
      @ (if \<exists>c \<in> set caps. cp_mode c = AsyncJob then [\<lparr>rt_path = ''/jobs/{job_id}'', rt_status = 200, rt_endpoint = PollJob\<rparr>] else [])
      @ [\<lparr>rt_path = ''/v1/traces'', rt_status = 200, rt_endpoint = OtlpCollect\<rparr>]
      @ mount_outcome_alias_route reg
      @ [\<lparr>rt_path = ''/v1/alias'', rt_status = 200, rt_endpoint = EntityAlias\<rparr>])"

text \<open>A request to a mounted capability, by its mode.\<close>

definition capability_route ::
  "host \<Rightarrow> authenticator \<Rightarrow> string \<Rightarrow> ('i, 's) capability_spec \<Rightarrow> http_request \<Rightarrow> 's job_store \<times> 's
     \<Rightarrow> payload http \<times> 's job_store \<times> 's" where
  "capability_route ho auth secret cap q st = (case st of (js, s) \<Rightarrow> (case cp_mode cap of
     RequestResponse \<Rightarrow> (case request_response ho auth cap q s of (r, s') \<Rightarrow> (r, js, s'))
   | AsyncJob \<Rightarrow> (case async_job ho auth cap q js of (r, js') \<Rightarrow> (r, js', s))
   | WebhookInbound \<Rightarrow> (case webhook_receiver ho auth secret cap q s of (r, s') \<Rightarrow> (r, js, s'))
   | Streaming \<Rightarrow> (case streaming ho auth cap q s of (r, s') \<Rightarrow> (r, js, s'))))"

section \<open>\<open>POST /outcome\<close>\<close>

definition OUTCOME_MAX_AGE :: duration where "OUTCOME_MAX_AGE = 35 * day_us"
definition OUTCOME_MAX_SKEW :: duration where "OUTCOME_MAX_SKEW = 300000000"

text \<open>\<open>datetime.isoformat()\<close> of an aware instant with its offset.\<close>

definition iso_naive :: "int \<Rightarrow> string" where
  "iso_naive t = (let us = t mod day_us; secs = us div 1000000 in
     date_text (t div day_us) @ ''T'' @ zero_pad 2 (show_int (secs div 3600)) @ '':''
     @ zero_pad 2 (show_int (secs div 60 mod 60)) @ '':'' @ zero_pad 2 (show_int (secs mod 60)) @ micros_text (us mod 1000000))"

definition offset_text :: "duration \<Rightarrow> string" where
  "offset_text off = (let us = \<bar>off\<bar>; secs = us div 1000000 in
     (if off < 0 then ''-'' else ''+'') @ zero_pad 2 (show_int (secs div 3600)) @ '':'' @ zero_pad 2 (show_int (secs div 60 mod 60))
     @ (if us mod 60000000 = 0 then [] else '':'' @ zero_pad 2 (show_int (secs mod 60)) @ micros_text (us mod 1000000)))"

definition iso_text :: "instant \<times> duration \<Rightarrow> string" where
  "iso_text d = (case d of (t, off) \<Rightarrow> iso_naive (t + off) @ offset_text off)"

definition validated_occurred_at :: "host \<Rightarrow> json \<Rightarrow> (instant \<times> duration) http" where
  "validated_occurred_at ho raw = (case raw of
     JNull \<Rightarrow> Inr (ho_now ho, 0)
   | JStr s \<Rightarrow> (case ho_fromisoformat ho (replace_str ''Z'' ''+00:00'' s) of
       None \<Rightarrow> Inl (HTTPException 422)
     | Some (t, None) \<Rightarrow> Inl (HTTPException 422)
     | Some (t, Some off) \<Rightarrow>
         if t < ho_now ho - OUTCOME_MAX_AGE \<or> ho_now ho + OUTCOME_MAX_SKEW < t then Inl (HTTPException 422)
         else Inr (t, off))
   | _ \<Rightarrow> Inl (HTTPException 422))"

text \<open>\<open>float(n)\<close> of an integer: out of the range of a double it raises.\<close>

definition float_of_int :: "int \<Rightarrow> rat res" where
  "float_of_int i = (if \<bar>i\<bar> < 2 ^ 1024 - 2 ^ 970 then Inr (dbl (of_int i)) else Inl OverflowError)"

definition window_hint :: "payload \<Rightarrow> payload res" where
  "window_hint p = (case attr_get p ''entity_window_days'' of
     JInt i \<Rightarrow> if i \<le> 0 then Inr []
       else res_bind (float_of_int i) (\<lambda>x. Inr [(''entity_window_seconds'', JFloat (dbl (x * 86400)))])
   | JFloat x \<Rightarrow> if x \<le> 0 then Inr [] else Inr [(''entity_window_seconds'', JFloat (dbl (x * 86400)))]
   | _ \<Rightarrow> Inr [])"

definition json_truthy :: "json \<Rightarrow> bool" where
  "json_truthy v = truthy (pval_of_json v)"

fun nonempty_text :: "json \<Rightarrow> string option" where
  "nonempty_text (JStr s) = (if s = [] then None else Some s)"
| "nonempty_text _ = None"

definition or_default :: "json \<Rightarrow> string \<Rightarrow> json" where
  "or_default v d = (if json_truthy v then v else JStr d)"

definition entity_pairs :: "host \<Rightarrow> json \<Rightarrow> (string \<times> string) list" where
  "entity_pairs ho entity = map (\<lambda>(k, v). (k, json_str (ho_py ho) v)) (as_dict entity)"

text \<open>\<open>{**d, **e}\<close>.\<close>

definition dict_merge :: "('k, 'v) dict \<Rightarrow> ('k, 'v) dict \<Rightarrow> ('k, 'v) dict" where
  "dict_merge d e = foldl (\<lambda>acc (k, v). dict_set k v acc) d e"

definition event_id :: "host \<Rightarrow> payload \<Rightarrow> outcome_id" where
  "event_id ho p = ''oe_'' @ (case nonempty_text (attr_get p ''identifier'') of Some i \<Rightarrow> i | None \<Rightarrow> ho_uuid4 ho)"

definition outcome_body ::
  "host \<Rightarrow> tenant_id \<Rightarrow> payload \<Rightarrow> string \<Rightarrow> instant \<times> duration \<Rightarrow> payload \<Rightarrow> payload" where
  "outcome_body ho tenant p name occurred_at hint =
     [(''tenant_id'', JStr tenant),
      (''id'', JStr (event_id ho p)),
      (''name'', JStr name),
      (''signal_class'', or_default (attr_get p ''signal'') ''outcome_confirmed''),
      (''value'', attr_get p ''value''),
      (''occurred_at'', JStr (iso_text occurred_at)),
      (''binding'', JObj [(''run_id'', opt_json JStr (nonempty_text (attr_get p ''run_id''))), (''tier'', JNull), (''bound_by'', JNull)]),
      (''entity_keys'', JList (map (\<lambda>(k, v). JList [JStr k, JStr v]) (entity_pairs ho (attr_get p ''entity'')))),
      (''correlation_id'', attr_get p ''correlation_id''),
      (''source'', or_default (attr_get p ''source'') ''rest''),
      (''raw'', JObj (dict_merge (as_dict (attr_get p ''raw'')) hint))]"

text \<open>Why an event did not attach; the hints' wording is kept as a constructor each.\<close>

datatype attachment = ByRunId | ByEntity | EntityUnmatched | RunUnmatched | NoKey

record outcome_reply =
  op_body :: payload
  op_attached :: bool
  op_attachment :: attachment

definition with_attachment :: "payload \<Rightarrow> bool \<Rightarrow> bool \<Rightarrow> outcome_reply" where
  "with_attachment body had_run_id had_entity =
     (let attached = attr_get body ''run_id'' \<noteq> JNull in
      \<lparr>op_body = body, op_attached = attached,
       op_attachment = (if attached then (if had_run_id then ByRunId else ByEntity)
         else if had_entity then EntityUnmatched else if had_run_id then RunUnmatched else NoKey)\<rparr>)"

definition outcome_alias ::
  "host \<Rightarrow> authenticator \<Rightarrow> ('i, 's) capability_spec \<Rightarrow> http_request \<Rightarrow> 's \<Rightarrow> outcome_reply http \<times> 's" where
  "outcome_alias ho auth cap q s =
     (case resolve_key auth (hq_api_key q) of Inl e \<Rightarrow> (Inl e, s) | Inr tenant \<Rightarrow>
     (case request_payload ho q of Inl e \<Rightarrow> (Inl e, s) | Inr p \<Rightarrow>
     (case nonempty_text (attr_get p ''name'') of None \<Rightarrow> (Inl (HTTPException 422), s) | Some name \<Rightarrow>
     let rid = nonempty_text (attr_get p ''run_id''); entity = attr_get p ''entity'' in
     (case validated_occurred_at ho (attr_get p ''occurred_at'') of Inl e \<Rightarrow> (Inl e, s) | Inr occurred_at \<Rightarrow>
     if hq_strict q \<and> rid = None \<and> \<not> json_truthy entity then (Inl (HTTPException 422), s)
     else (case window_hint p of Inl e \<Rightarrow> (Inl (Raised e), s) | Inr hint \<Rightarrow>
     (case validate_payload cap (outcome_body ho tenant p name occurred_at hint) of Inl e \<Rightarrow> (Inl e, s) | Inr i \<Rightarrow>
     (case run_handler cap (no_scope\<lparr>sp_signals := request_scope (hq_baggage q) None\<rparr>) i s of
        (Inl e, s') \<Rightarrow> (Inl e, s')
      | (Inr body, s') \<Rightarrow> (Inr (with_attachment body (rid \<noteq> None) (entity_pairs ho entity \<noteq> [])), s'))))))))"

section \<open>\<open>POST /v1/alias\<close>\<close>

definition entity_key_of :: "host \<Rightarrow> json \<Rightarrow> entity_key http" where
  "entity_key_of ho raw = (case raw of
     JObj [(k, v)] \<Rightarrow>
       if k = [] \<or> v = JNull \<or> json_str (ho_py ho) v = [] then Inl (HTTPException 422) else Inr (k, json_str (ho_py ho) v)
   | _ \<Rightarrow> Inl (HTTPException 422))"

datatype alias_reply = AliasIgnored | AliasRecorded entity_key entity_key

text \<open>\<open>wired\<close>: the store bridge published its alias repository.\<close>

definition entity_alias_route ::
  "host \<Rightarrow> authenticator \<Rightarrow> bool \<Rightarrow> http_request \<Rightarrow> db \<Rightarrow> alias_reply http \<times> db" where
  "entity_alias_route ho auth wired q d =
     (case resolve_key auth (hq_api_key q) of Inl e \<Rightarrow> (Inl e, d) | Inr tenant \<Rightarrow>
     if \<not> wired then (Inl (HTTPException 503), d) else
     (case request_payload ho q of Inl e \<Rightarrow> (Inl e, d) | Inr p \<Rightarrow>
     (case entity_key_of ho (attr_get p ''from'') of Inl e \<Rightarrow> (Inl e, d) | Inr source \<Rightarrow>
     (case entity_key_of ho (attr_get p ''to'') of Inl e \<Rightarrow> (Inl e, d) | Inr target \<Rightarrow>
     if source = target then (Inr AliasIgnored, d)
     else (case parse_uuid tenant of Inl _ \<Rightarrow> (Inl (HTTPException 422), d) | Inr scoped \<Rightarrow>
     (case alias_append d scoped \<lparr>ea_source = source, ea_target = target\<rparr> (ho_now ho) of
        Inl e \<Rightarrow> (Inl (Raised e), d)
      | Inr d' \<Rightarrow> (Inr (AliasRecorded source target), d')))))))"

section \<open>The MCP transport\<close>

datatype rpc_reply =
    RpcError json int
  | RpcInitialize json
  | RpcAck json
  | RpcTools json "mcp_tool list"
  | RpcToolError json
  | RpcToolResult json payload

definition PARSE_ERROR :: int where "PARSE_ERROR = - 32700"
definition INVALID_REQUEST :: int where "INVALID_REQUEST = - 32600"
definition METHOD_NOT_FOUND :: int where "METHOD_NOT_FOUND = - 32601"
definition INVALID_PARAMS :: int where "INVALID_PARAMS = - 32602"

definition is_value_or_type_error :: "error \<Rightarrow> bool" where
  "is_value_or_type_error e \<longleftrightarrow> e \<in> {ValueError, TypeError, JSONDecodeError, UnicodeDecodeError}"

definition mcp_handle ::
  "host \<Rightarrow> authenticator \<Rightarrow> ('i, 's) mcp_server \<Rightarrow> http_request \<Rightarrow> 's \<Rightarrow> rpc_reply http \<times> 's" where
  "mcp_handle ho auth server q s =
     (case resolve_tenant auth (either_key q) of Inl _ \<Rightarrow> (Inl (HTTPException 401), s) | Inr _ \<Rightarrow>
     (case ho_loads ho (hq_body q) of
        Inl e \<Rightarrow> if is_value_or_type_error e then (Inr (RpcError JNull PARSE_ERROR), s) else (Inl (Raised e), s)
      | Inr v \<Rightarrow>
     let envelope = as_dict v; rpc_id = attr_get envelope ''id''; params = as_dict (attr_get envelope ''params'') in
     (case attr_get envelope ''method'' of
        JStr meth \<Rightarrow>
          if meth = ''initialize'' then (Inr (RpcInitialize rpc_id), s)
          else if meth = ''notifications/initialized'' \<or> meth = ''initialized'' then (Inr (RpcAck rpc_id), s)
          else if meth = ''tools/list'' then (Inr (RpcTools rpc_id (list_tools server)), s)
          else if meth = ''tools/call'' then
            (case attr_get params ''name'' of
               JStr name \<Rightarrow> (case call_tool server name (as_dict (attr_get params ''arguments'')) s of
                 (Inr out, s') \<Rightarrow> (Inr (RpcToolResult rpc_id out), s')
               | (Inl e, s') \<Rightarrow>
                   if e = UnknownToolError then (Inr (RpcError rpc_id INVALID_PARAMS), s')
                   else if e = ValidationError then (Inr (RpcToolError rpc_id), s')
                   else (Inl (Raised e), s'))
             | _ \<Rightarrow> (Inr (RpcError rpc_id INVALID_PARAMS), s))
          else (Inr (RpcError rpc_id METHOD_NOT_FOUND), s)
      | _ \<Rightarrow> (Inr (RpcError rpc_id INVALID_REQUEST), s))))"

section \<open>The \<open>bind_outcome\<close> capability\<close>

text \<open>
  \<open>OutcomeEvent.model_validate_json\<close>: strict fields, no extra ones. The readers of UUIDs,
  decimals and datetimes are pydantic's, fields of \<open>pydantic\<close>; a datetime read without an
  offset is refused by the model's own validator.
\<close>

record pydantic =
  pd_uuid :: "json \<Rightarrow> tenant_id option"
  pd_decimal :: "json \<Rightarrow> rat option"
  pd_datetime :: "json \<Rightarrow> (instant \<times> duration option) option"

fun str_field :: "json option \<Rightarrow> string option" where
  "str_field (Some (JStr s)) = Some s"
| "str_field _ = None"

fun opt_field :: "(json \<Rightarrow> 'a option) \<Rightarrow> json option \<Rightarrow> 'a option option" where
  "opt_field f None = None"
| "opt_field f (Some JNull) = Some None"
| "opt_field f (Some v) = map_option Some (f v)"

definition enum_field :: "(string \<Rightarrow> 'a res) \<Rightarrow> json \<Rightarrow> 'a option" where
  "enum_field f v = (case v of JStr s \<Rightarrow> (case f s of Inl _ \<Rightarrow> None | Inr x \<Rightarrow> Some x) | _ \<Rightarrow> None)"

fun pair_field :: "json \<Rightarrow> entity_key option" where
  "pair_field (JList [JStr a, JStr b]) = Some (a, b)"
| "pair_field _ = None"

fun all_some :: "'a option list \<Rightarrow> 'a list option" where
  "all_some [] = Some []"
| "all_some (None # xs) = None"
| "all_some (Some x # xs) = map_option ((#) x) (all_some xs)"

definition causal_of :: "string \<Rightarrow> causal_evidence res" where
  "causal_of s = (if s = ''observational'' then Inr Observational else if s = ''holdout'' then Inr Holdout
     else if s = ''randomized'' then Inr Randomized else Inl ValueError)"

definition only_fields :: "string list \<Rightarrow> payload \<Rightarrow> bool" where
  "only_fields fs p \<longleftrightarrow> list_all (\<lambda>(k, v). k \<in> set fs) p"

definition validate_binding :: "json option \<Rightarrow> outcome_binding option" where
  "validate_binding v = (case v of
     Some (JObj m) \<Rightarrow>
       if \<not> only_fields [''run_id'', ''tier'', ''bound_by'', ''causal_evidence''] m then None else
       Option.bind (opt_field (str_field \<circ> Some) (dict_get m ''run_id'')) (\<lambda>r.
       Option.bind (opt_field (enum_field tier_of) (dict_get m ''tier'')) (\<lambda>t.
       Option.bind (opt_field (str_field \<circ> Some) (dict_get m ''bound_by'')) (\<lambda>b.
       Option.bind (case dict_get m ''causal_evidence'' of None \<Rightarrow> Some Observational | Some c \<Rightarrow> enum_field causal_of c) (\<lambda>c.
         Some \<lparr>ob_run_id = r, ob_tier = t, ob_bound_by = b, ob_causal_evidence = c\<rparr>))))
   | _ \<Rightarrow> None)"

definition OUTCOME_FIELDS :: "string list" where
  "OUTCOME_FIELDS = [''tenant_id'', ''id'', ''name'', ''signal_class'', ''value'', ''occurred_at'', ''binding'',
     ''entity_keys'', ''correlation_id'', ''source'', ''raw'']"

definition aware :: "(instant \<times> duration option) option \<Rightarrow> instant option" where
  "aware d = (case d of Some (t, Some off) \<Rightarrow> Some t | _ \<Rightarrow> None)"

definition validate_outcome_event :: "pydantic \<Rightarrow> payload \<Rightarrow> outcome_event option" where
  "validate_outcome_event pd p =
     (if \<not> only_fields OUTCOME_FIELDS p then None else
      Option.bind (Option.bind (dict_get p ''tenant_id'') (pd_uuid pd)) (\<lambda>tid.
      Option.bind (str_field (dict_get p ''id'')) (\<lambda>i.
      Option.bind (str_field (dict_get p ''name'')) (\<lambda>name.
      Option.bind (Option.bind (dict_get p ''signal_class'') (enum_field signal_of)) (\<lambda>sig.
      Option.bind (opt_field (pd_decimal pd) (dict_get p ''value'')) (\<lambda>v.
      Option.bind (Option.bind (dict_get p ''occurred_at'') (aware \<circ> pd_datetime pd)) (\<lambda>t.
      Option.bind (validate_binding (dict_get p ''binding'')) (\<lambda>b.
      Option.bind (Option.bind (Option.bind (dict_get p ''entity_keys'') as_obj_list) (\<lambda>ks. all_some (map pair_field ks))) (\<lambda>keys.
      Option.bind (opt_field (str_field \<circ> Some) (dict_get p ''correlation_id'')) (\<lambda>c.
      Option.bind (str_field (dict_get p ''source'')) (\<lambda>src.
      Option.bind (Option.bind (dict_get p ''raw'') as_obj_dict) (\<lambda>raw.
        Some \<lparr>oe_tenant_id = tid, oe_id = i, oe_name = name, oe_signal_class = sig, oe_value = v, oe_occurred_at = t,
              oe_binding = b, oe_entity_keys = remdups keys, oe_correlation_id = c, oe_source = src, oe_raw = raw\<rparr>))))))))))))"

text \<open>
  The capability as \<open>attribution/capabilities.py\<close> registers it, over the SQL store; no run is
  ambient in the server. \<open>pd\<close> reads JSON text, \<open>pdv\<close> the same values as Python objects.
  \<open>new_id\<close> is the identifier a review item would get.
\<close>

definition bind_outcome_spec ::
  "pydantic \<Rightarrow> pydantic \<Rightarrow> attribution_runtime option \<Rightarrow> string \<Rightarrow> instant \<Rightarrow> (outcome_event, db) capability_spec" where
  "bind_outcome_spec pd pdv holder new_id now =
     \<lparr>cp_name = ''bind_outcome'',
      cp_input_model = \<lparr>im_fields = OUTCOME_FIELDS, im_schema = JNull, im_validate = validate_outcome_event pdv,
        im_validate_json = validate_outcome_event pd\<rparr>,
      cp_output_schema = JNull,
      cp_handler = (\<lambda>sc e d.
        case bind_outcome_handler holder \<lparr>rq_signals = sp_signals sc, rq_active_run_id = None, rq_new_id = new_id, rq_now = now\<rparr> d e of
          Inl err \<Rightarrow> (Inl err, d) | Inr (r, d') \<Rightarrow> (Inr (as_dict (result_dump r)), d')),
      cp_description = ''Bind an outcome event to the agent run that produced it via the binding cascade (exact->deterministic->candidate->likely), returning the tier-labeled attribution result.'',
      cp_surfaces = API OR MCP OR CLI, cp_mode = RequestResponse, cp_examples = []\<rparr>"

section \<open>The tenant comes from the key\<close>

lemma dict_set_twice [simp]: "dict_set k v (dict_set k w d) = dict_set k v d"
  by (induction d) auto

lemma scope_payload_tenant:
  "''tenant_id'' \<in> set (im_fields (cp_input_model cap)) \<Longrightarrow> dict_get (scope_payload p t cap) ''tenant_id'' = Some (JStr t)"
  by (simp add: scope_payload_def)

lemma validate_payload_Inr: "validate_payload cap p = Inr i \<longleftrightarrow> im_validate_json (cp_input_model cap) p = Some i"
  by (simp add: validate_payload_def split: option.splits)

lemma resolve_key_Inr: "resolve_key auth k = Inr t \<longleftrightarrow> resolve_tenant auth k = Inr t"
  by (simp add: resolve_key_def split: sum.splits)

lemma tenant_scope_metric: "sp_metric_tenant (tenant_scope t) = (case parse_uuid t of Inl _ \<Rightarrow> None | Inr u \<Rightarrow> Some u)"
  by (simp add: tenant_scope_def no_scope_def split: sum.splits)

text \<open>What a route did: it refused the request and changed nothing, or it ran the handler on
  an input validated from a payload that names the tenant of the key.\<close>

definition acted_as_key_tenant ::
  "host \<Rightarrow> authenticator \<Rightarrow> ('i, 's) capability_spec \<Rightarrow> http_request \<Rightarrow> 's job_store \<times> 's
     \<Rightarrow> payload http \<times> 's job_store \<times> 's \<Rightarrow> bool" where
  "acted_as_key_tenant ho auth cap q st out \<longleftrightarrow>
     (\<exists>e. out = (Inl e, st)) \<or>
     (\<exists>t p i. resolve_tenant auth (hq_api_key q) = Inr t \<and> dict_get p ''tenant_id'' = Some (JStr t) \<and>
        im_validate_json (cp_input_model cap) p = Some i \<and>
        (if cp_mode cap = AsyncJob
         then out = (Inr [(''job_id'', JStr (ho_uuid4 ho))],
                snd (submit t (cp_handler cap no_scope i) (ho_uuid4 ho) (fst st)), snd st)
         else out = (let (r, s') = run_handler cap (if cp_mode cap = RequestResponse then tenant_scope t else no_scope) i (snd st)
                in (r, fst st, s'))))"

text \<open>
  C27. The tenant is never trusted from the body. On every mode of capability route, for a
  capability whose input has a tenant: a request without a known key is refused and changes
  nothing, and whenever the handler runs, or a job is queued, it is on an input validated
  from a payload whose tenant is the one the key maps to, whatever the body claimed.
\<close>

theorem route_acts_as_key_tenant:
  assumes "''tenant_id'' \<in> set (im_fields (cp_input_model cap))"
  shows "acted_as_key_tenant ho auth cap q st (capability_route ho auth secret cap q st)"
proof -
  obtain js s where st: "st = (js, s)" by fastforce
  note routes = capability_route_def request_response_def async_job_def webhook_receiver_def streaming_def st
  show ?thesis
  proof (cases "resolve_key auth (hq_api_key q)")
    case (Inl e)
    then show ?thesis by (cases "cp_mode cap") (simp_all add: acted_as_key_tenant_def routes)
  next
    case (Inr t)
    then have t: "resolve_tenant auth (hq_api_key q) = Inr t" by (simp add: resolve_key_Inr)
    have ran: "acted_as_key_tenant ho auth cap q st out"
      if "validate_payload cap (scope_payload p t cap) = Inr i"
        "if cp_mode cap = AsyncJob
         then out = (Inr [(''job_id'', JStr (ho_uuid4 ho))],
                snd (submit t (cp_handler cap no_scope i) (ho_uuid4 ho) js), s)
         else out = (let (r, s') = run_handler cap (if cp_mode cap = RequestResponse then tenant_scope t else no_scope) i s
                in (r, js, s'))" for p i out
      using that t scope_payload_tenant [OF assms, of p t] unfolding acted_as_key_tenant_def st validate_payload_Inr
      by (intro disjI2 exI [of _ t] exI [of _ "scope_payload p t cap"] exI [of _ i]) simp
    have refused: "acted_as_key_tenant ho auth cap q st (Inl e, js, s)" for e
      by (simp add: acted_as_key_tenant_def st)
    show ?thesis
      using Inr ran refused
      by (cases "cp_mode cap")
        (auto simp: routes submit_def Let_def split: sum.splits prod.splits)
  qed
qed

text \<open>A \<open>tenant_id\<close> smuggled into the body has no effect at all.\<close>

theorem forged_tenant_ignored:
  assumes "''tenant_id'' \<in> set (im_fields (cp_input_model cap))" "cp_mode cap \<noteq> WebhookInbound"
    and "ho_loads ho (hq_body q) = Inr (JObj m)" "ho_loads ho forged = Inr (JObj (dict_set ''tenant_id'' x m))"
  shows "capability_route ho auth secret cap (q\<lparr>hq_body := forged\<rparr>) st = capability_route ho auth secret cap q st"
proof -
  have "request_payload ho (q\<lparr>hq_body := forged\<rparr>) = Inr (dict_set ''tenant_id'' x m)" "request_payload ho q = Inr m"
    using assms(3,4) by (simp_all add: request_payload_def)
  moreover have "scope_payload (dict_set ''tenant_id'' x m) t cap = scope_payload m t cap" for t
    using assms(1) by (simp add: scope_payload_def)
  ultimately show ?thesis
    using assms(2) by (cases "cp_mode cap"; cases "resolve_key auth (hq_api_key q)"; cases st)
      (simp_all add: capability_route_def request_response_def async_job_def streaming_def)
qed

text \<open>An unsigned webhook body is neither parsed nor dispatched.\<close>

lemma webhook_unverified:
  assumes "verify_signature (ho_hexdigest ho) secret (hq_body q) (case hq_signature q of None \<Rightarrow> [] | Some x \<Rightarrow> x) \<noteq> Inr ()"
  shows "\<exists>e. webhook_receiver ho auth secret cap q s = (Inl e, s)"
    and "webhook_receiver (ho\<lparr>ho_loads := f\<rparr>) auth secret cap q s = webhook_receiver ho auth secret cap q s"
  using assms by (auto simp: webhook_receiver_def split: sum.splits)

definition sample_host_env :: host where
  "sample_host_env = \<lparr>ho_loads = (\<lambda>b. if b = ''A'' then Inr (JObj [(''tenant_id'', JStr ''other''), (''x'', JInt 1)])
       else if b = ''B'' then Inr (JObj [(''tenant_id'', JStr ''mine''), (''x'', JInt 1)]) else Inl JSONDecodeError),
     ho_hexdigest = (\<lambda>k b. k @ b), ho_fromisoformat = (\<lambda>s. None), ho_now = 0, ho_uuid4 = ''u1'', ho_py = sample_host\<rparr>"

definition sample_http :: "string \<Rightarrow> http_request" where
  "sample_http body = \<lparr>hq_api_key = Some ''key'', hq_ingest_key = None, hq_signature = None, hq_baggage = None,
     hq_body = body, hq_strict = False\<rparr>"

theorem route_acts_as_key_tenant_witness:
  "\<exists>t p. resolve_tenant [(''key'', ''mine'')] (Some ''key'') = Inr t \<and> dict_get p ''tenant_id'' = Some (JStr t) \<and>
     snd (snd (capability_route sample_host_env [(''key'', ''mine'')] [] (sample_spec ''echo'' API Streaming)
       (sample_http ''A'') (job_store_new, []))) = [p]"
proof -
  let ?cap = "sample_spec ''echo'' API Streaming" and ?out = "\<lambda>q. capability_route sample_host_env [(''key'', ''mine'')] []
     (sample_spec ''echo'' API Streaming) q (job_store_new, [])"
  have "''tenant_id'' \<in> set (im_fields (cp_input_model ?cap))" by (simp add: sample_spec_def sample_model_def)
  from route_acts_as_key_tenant [OF this, of sample_host_env "[(''key'', ''mine'')]" "sample_http ''A''" "(job_store_new, [])" "[]"]
  have "acted_as_key_tenant sample_host_env [(''key'', ''mine'')] ?cap (sample_http ''A'') (job_store_new, []) (?out (sample_http ''A''))" .
  moreover have "fst (?out (sample_http ''A'')) = Inr [(''tenant_id'', JStr ''mine''), (''x'', JInt 1)]"
    by code_simp
  ultimately show ?thesis
    unfolding acted_as_key_tenant_def
    by (auto simp: sample_spec_def sample_model_def run_handler_def sample_http_def Let_def split: prod.splits)
qed

theorem forged_tenant_ignored_witness:
  "capability_route sample_host_env [(''key'', ''mine'')] [] (sample_spec ''echo'' API RequestResponse)
     (sample_http ''B'') (job_store_new, []) =
   capability_route sample_host_env [(''key'', ''mine'')] [] (sample_spec ''echo'' API RequestResponse)
     (sample_http ''A'') (job_store_new, [])"
proof -
  have "(sample_http ''A'')\<lparr>hq_body := ''B''\<rparr> = sample_http ''B''" by (simp add: sample_http_def)
  moreover have "''tenant_id'' \<in> set (im_fields (cp_input_model (sample_spec ''echo'' API RequestResponse)))"
    "cp_mode (sample_spec ''echo'' API RequestResponse) \<noteq> WebhookInbound"
    "ho_loads sample_host_env (hq_body (sample_http ''A'')) = Inr (JObj [(''tenant_id'', JStr ''other''), (''x'', JInt 1)])"
    "ho_loads sample_host_env ''B'' = Inr (JObj (dict_set ''tenant_id'' (JStr ''mine'') [(''tenant_id'', JStr ''other''), (''x'', JInt 1)]))"
    by (simp_all add: sample_spec_def sample_model_def sample_host_env_def sample_http_def)
  ultimately show ?thesis
    using forged_tenant_ignored [of "sample_spec ''echo'' API RequestResponse" sample_host_env "sample_http ''A''"]
    by metis
qed

section \<open>What the MCP transport does with the key\<close>

text \<open>
  The MCP transport authenticates but does not scope: any two keys it accepts get the same
  answer and the same effect for the same call, so a tenant's key reaches another tenant's
  data by naming it in the arguments, and a capability that takes its tenant from the
  request scope runs without one.
\<close>

theorem mcp_key_not_scoped:
  assumes "resolve_tenant auth (either_key q) = Inr t" "resolve_tenant auth (either_key q') = Inr t'" "hq_body q' = hq_body q"
  shows "mcp_handle ho auth server q' s = mcp_handle ho auth server q s"
  using assms by (simp add: mcp_handle_def)

theorem mcp_key_not_scoped_witness:
  "mcp_handle sample_host_env [(''key'', ''mine''), (''theirs'', ''other'')] (mcp_server_new [entry (sample_spec ''echo'' MCP Streaming)])
     ((sample_http ''A'')\<lparr>hq_api_key := Some ''theirs''\<rparr>) [] =
   mcp_handle sample_host_env [(''key'', ''mine''), (''theirs'', ''other'')] (mcp_server_new [entry (sample_spec ''echo'' MCP Streaming)])
     (sample_http ''A'') []"
proof -
  have "resolve_tenant [(''key'', ''mine''), (''theirs'', ''other'')] (either_key (sample_http ''A'')) = Inr ''mine''"
    "resolve_tenant [(''key'', ''mine''), (''theirs'', ''other'')] (either_key ((sample_http ''A'')\<lparr>hq_api_key := Some ''theirs''\<rparr>)) = Inr ''other''"
    by (simp_all add: resolve_tenant_def either_key_def sample_http_def)
  from mcp_key_not_scoped [OF this] show ?thesis by simp
qed

text \<open>
  C39. A strict input model cannot be called over MCP: the transport validates the decoded
  arguments as Python objects, where a strict UUID field accepts only UUID objects, so every
  call of \<open>bind_outcome\<close> is answered with a tool error and nothing is recorded.
\<close>

theorem mcp_strict_model_uncallable:
  assumes "\<forall>v. pd_uuid pdv v = None" "registry_ok reg"
    and "dict_get reg ''bind_outcome'' = Some (bind_outcome_spec pd pdv holder new_id now)"
  shows "call_tool (mcp_server_new reg) ''bind_outcome'' arguments d = (Inl ValidationError, d)"
proof -
  have "surface_in MCP (API OR MCP OR CLI)" by (simp add: surface_in_def MCP_def API_def CLI_def)
  moreover have "validate_outcome_event pdv arguments = None"
    using assms(1) by (cases "dict_get arguments ''tenant_id''") (simp_all add: validate_outcome_event_def)
  ultimately show ?thesis
    using mcp_call [OF assms(2), of "''bind_outcome''" arguments d] assms(3) by (simp add: bind_outcome_spec_def)
qed

section \<open>A posted outcome is recorded once and answered truthfully\<close>

lemma put_other_key:
  "(t, i) \<noteq> (tid, key m) \<Longrightarrow>
     filter (\<lambda>(t', x). t' = t \<and> key x = i) (put key tid m ms) = filter (\<lambda>(t', x). t' = t \<and> key x = i) ms"
proof -
  assume ne: "(t, i) \<noteq> (tid, key m)"
  then have "filter (\<lambda>(t', x). t' = t \<and> key x = i) (map (\<lambda>(t, x). if t = tid \<and> key x = key m then (tid, m) else (t, x)) ms) =
      filter (\<lambda>(t', x). t' = t \<and> key x = i) ms"
    by (induction ms) (auto split: if_splits)
  with ne show ?thesis by (auto simp: put_def)
qed

lemma handler_outcome_frame:
  assumes "run_table_ok d" "outcome_table_ok d" "bind_outcome_handler (Some rt) q d e = Inr (r, d')"
    and "(t, i) \<noteq> (oe_tenant_id e, oe_id e)"
  shows "outcome_get d' t i = outcome_get d t i"
proof -
  obtain d1 d2 where h: "persist rt d2 e r = Inr d'" "db_outcome_event d2 = db_outcome_event d"
    using handler_Inr [OF assms(1,3)] by metis
  obtain ms where ms: "db_outcome_event d = outcome_rows ms" "distinct (map (\<lambda>(t, m). (t, oe_id m)) ms)"
    using assms(2) by (auto simp: outcome_table_ok_def)
  have ms2: "db_outcome_event d2 = outcome_rows ms" using ms(1) h(2) by simp
  let ?b = "bound_outcome e r"
  have "db_outcome_event d' = outcome_rows ms \<or> db_outcome_event d' = outcome_rows (put oe_id (oe_tenant_id e) ?b ms)"
    using h(1) ms2 by (auto simp: persist_def outcome_upsert_rows [OF ms2 ms(2)] split: if_splits)
  moreover have "oe_id ?b = oe_id e" by (simp add: bound_outcome_def)
  ultimately have "filter (\<lambda>r. row_get r ''id'' = CStr i) (require_tenant t (db_outcome_event d')) =
      filter (\<lambda>r. row_get r ''id'' = CStr i) (require_tenant t (db_outcome_event d))"
    using put_other_key [of t i "oe_tenant_id e" oe_id ?b ms] assms(4) ms(1) by (auto simp: outcome_rows_filter)
  then show ?thesis by (simp add: outcome_get_def)
qed

lemma outcome_body_event:
  assumes "validate_outcome_event pd (outcome_body ho tenant p name occ hint) = Some e"
  shows "pd_uuid pd (JStr tenant) = Some (oe_tenant_id e)" "oe_id e = event_id ho p"
    "oe_binding e = outcome_binding_default (nonempty_text (attr_get p ''run_id'')) None None"
    "aware (pd_datetime pd (JStr (iso_text occ))) = Some (oe_occurred_at e)"
  using assms unfolding validate_outcome_event_def outcome_body_def
  by (auto simp: bind_eq_Some_conv validate_binding_def only_fields_def outcome_binding_default_def opt_json_def
      split: if_splits option.splits)

lemma result_dump_run_id: "attr_get (as_dict (result_dump r)) ''run_id'' = opt_json JStr (ar_run_id r)"
  by (simp add: result_dump_def attr_get_def)

text \<open>The steps of a successful post.\<close>

lemma outcome_alias_Inr:
  assumes "outcome_alias ho auth (bind_outcome_spec pd pdv holder new_id now) q d = (Inr reply, d')"
    and "request_payload ho q = Inr p"
  obtains t name occ hint e r where "resolve_tenant auth (hq_api_key q) = Inr t"
    "validated_occurred_at ho (attr_get p ''occurred_at'') = Inr occ"
    "validate_outcome_event pd (outcome_body ho t p name occ hint) = Some e"
    "bind_outcome_handler holder \<lparr>rq_signals = request_scope (hq_baggage q) None, rq_active_run_id = None,
       rq_new_id = new_id, rq_now = now\<rparr> d e = Inr (r, d')"
    "reply = with_attachment (as_dict (result_dump r)) (nonempty_text (attr_get p ''run_id'') \<noteq> None)
       (entity_pairs ho (attr_get p ''entity'') \<noteq> [])"
  using assms
  by (auto simp: outcome_alias_def Let_def validate_payload_Inr resolve_key_Inr run_handler_def bind_outcome_spec_def
      split: sum.splits option.splits prod.splits if_splits)

text \<open>
  C28. A successful \<open>POST /outcome\<close> writes one outcome row, that of the key's tenant and of the
  caller's identifier, so an at-least-once sender replaces its own row; every other outcome
  row, and every run and review item of other tenants, is left alone. The reply's
  \<open>attached\<close> is the stored binding. A caller that names a run always gets it, exactly bound:
  the run is registered on first sight, so the answer \<open>run_unmatched\<close> never occurs, although
  no spend may have been captured under that run.
\<close>

theorem post_outcome_recorded:
  assumes "run_table_ok d" "outcome_table_ok d" "rt_outcome_repo rt" "request_payload ho q = Inr p"
    and "outcome_alias ho auth (bind_outcome_spec pd pdv (Some rt) new_id now) q d = (Inr reply, d')"
  shows "\<exists>t tid x. resolve_tenant auth (hq_api_key q) = Inr t \<and> pd_uuid pd (JStr t) = Some tid \<and>
     outcome_get d' tid (event_id ho p) = Inr (Some x) \<and>
     (op_attached reply \<longleftrightarrow> ob_run_id (oe_binding x) \<noteq> None) \<and>
     (case nonempty_text (attr_get p ''run_id'') of
        Some rid \<Rightarrow> ob_run_id (oe_binding x) = Some rid \<and> ob_tier (oe_binding x) = Some Exact \<and> op_attachment reply = ByRunId
      | None \<Rightarrow> op_attachment reply \<in> {ByEntity, EntityUnmatched, NoKey}) \<and>
     (\<forall>t' i. (t', i) \<noteq> (tid, event_id ho p) \<longrightarrow> outcome_get d' t' i = outcome_get d t' i) \<and>
     (\<forall>t' i. t' \<noteq> tid \<longrightarrow> run_get d' t' i = run_get d t' i \<and> review_list_pending d' t' = review_list_pending d t')"
proof -
  obtain t name occ hint e r where h: "resolve_tenant auth (hq_api_key q) = Inr t"
    "validate_outcome_event pd (outcome_body ho t p name occ hint) = Some e"
    "bind_outcome_handler (Some rt) \<lparr>rq_signals = request_scope (hq_baggage q) None, rq_active_run_id = None,
       rq_new_id = new_id, rq_now = now\<rparr> d e = Inr (r, d')"
    "reply = with_attachment (as_dict (result_dump r)) (nonempty_text (attr_get p ''run_id'') \<noteq> None)
       (entity_pairs ho (attr_get p ''entity'') \<noteq> [])"
    using outcome_alias_Inr [OF assms(5,4)] by metis
  note body = outcome_body_event [OF h(2)]
  let ?x = "stored_outcome (oe_tenant_id e) (bound_outcome e r)"
  have bind: "oe_binding ?x = outcome_binding_default (ar_run_id r) (ar_tier r) (ar_bound_by r)"
    by (simp add: stored_outcome_def bound_outcome_def outcome_binding_default_def)
  have reply: "op_attached reply \<longleftrightarrow> ar_run_id r \<noteq> None"
    by (auto simp: h(4) with_attachment_def result_dump_run_id opt_json_def Let_def split: option.splits)
  have attach: "case nonempty_text (attr_get p ''run_id'') of
        Some rid \<Rightarrow> ar_run_id r = Some rid \<and> ar_tier r = Some Exact \<and> op_attachment reply = ByRunId
      | None \<Rightarrow> op_attachment reply \<in> {ByEntity, EntityUnmatched, NoKey}"
  proof (cases "nonempty_text (attr_get p ''run_id'')")
    case None
    then show ?thesis by (simp add: h(4) with_attachment_def Let_def)
  next
    case (Some rid)
    then have "rid \<noteq> []" by (cases "attr_get p ''run_id''") (auto split: if_splits)
    moreover have "ob_run_id (oe_binding e) = Some rid" using body(3) Some by (simp add: outcome_binding_default_def)
    ultimately have "ar_run_id r = Some rid" "ar_tier r = Some Exact"
      using handler_binds_asserted [OF assms(1,2), of e rid rt "\<lparr>rq_signals = request_scope (hq_baggage q) None,
          rq_active_run_id = None, rq_new_id = new_id, rq_now = now\<rparr>"] h(3) by simp_all
    then show ?thesis using Some reply by (simp add: h(4) with_attachment_def Let_def)
  qed
  have "outcome_get d' (oe_tenant_id e) (event_id ho p) = Inr (Some ?x)"
    using handler_persists(1) [OF assms(1-3) h(3)] body(2) by simp
  moreover have "outcome_get d' t' i = outcome_get d t' i" if "(t', i) \<noteq> (oe_tenant_id e, event_id ho p)" for t' i
    using handler_outcome_frame [OF assms(1,2) h(3)] that body(2) by simp
  moreover have "run_get d' t' i = run_get d t' i" "review_list_pending d' t' = review_list_pending d t'"
    if "t' \<noteq> oe_tenant_id e" for t' i
    using handler_other_tenants(1,3) [OF assms(1,2) h(3) that] by simp_all
  moreover have "ob_run_id (oe_binding ?x) = ar_run_id r" "ob_tier (oe_binding ?x) = ar_tier r"
    by (simp_all add: bind outcome_binding_default_def)
  ultimately show ?thesis
    using h(1) body(1) reply attach
    by (intro exI [of _ t] exI [of _ "oe_tenant_id e"] exI [of _ ?x]) (auto split: option.splits)
qed

definition lenient :: pydantic where
  "lenient = \<lparr>pd_uuid = (\<lambda>v. case v of JStr s \<Rightarrow> Some s | _ \<Rightarrow> None), pd_decimal = (\<lambda>v. None),
     pd_datetime = (\<lambda>v. Some (0, Some 0))\<rparr>"

definition strict_python :: pydantic where
  "strict_python = \<lparr>pd_uuid = (\<lambda>v. None), pd_decimal = (\<lambda>v. None), pd_datetime = (\<lambda>v. None)\<rparr>"

definition outcome_host :: host where
  "outcome_host = sample_host_env\<lparr>ho_loads := (\<lambda>b. Inr (JObj [(''name'', JStr ''closed''), (''identifier'', JStr ''7''),
     (''run_id'', JStr ''r9'')]))\<rparr>"

theorem post_outcome_recorded_witness:
  "\<exists>reply d' x. outcome_alias outcome_host [(''key'', ''t'')] (bind_outcome_spec lenient strict_python (Some sample_runtime) ''q'' 0)
       (sample_http []) sample_db = (Inr reply, d') \<and> op_attachment reply = ByRunId \<and>
     outcome_get d' ''t'' ''oe_7'' = Inr (Some x) \<and> ob_run_id (oe_binding x) = Some ''r9'' \<and>
     outcome_get d' ''t2'' ''oe_7'' = outcome_get sample_db ''t2'' ''oe_7''"
proof -
  let ?out = "outcome_alias outcome_host [(''key'', ''t'')] (bind_outcome_spec lenient strict_python (Some sample_runtime) ''q'' 0)
       (sample_http []) sample_db"
  let ?p = "[(''name'', JStr ''closed''), (''identifier'', JStr ''7''), (''run_id'', JStr ''r9'')]"
  have "map_sum id (\<lambda>r. ()) (fst ?out) = Inr ()" by code_simp
  then obtain reply d' where out: "?out = (Inr reply, d')" by (cases ?out; cases "fst ?out") auto
  have p: "request_payload outcome_host (sample_http []) = Inr ?p" by (simp add: request_payload_def outcome_host_def)
  have i: "event_id outcome_host ?p = ''oe_7''" by (simp add: event_id_def attr_get_def)
  have "rt_outcome_repo sample_runtime" by (simp add: sample_runtime_def)
  from post_outcome_recorded [OF sample_db_ok(1,2) this p out] out show ?thesis
    unfolding i by (auto simp: attr_get_def lenient_def resolve_tenant_def sample_http_def)
qed

theorem mcp_strict_model_uncallable_witness:
  "call_tool (mcp_server_new [entry (bind_outcome_spec lenient strict_python None [] 0)]) ''bind_outcome''
     [(''tenant_id'', JStr ''t'')] empty_db = (Inl ValidationError, empty_db)"
  by (rule mcp_strict_model_uncallable [where pdv = strict_python])
    (simp_all add: strict_python_def registry_ok_def dict_ok_def bind_outcome_spec_def)

text \<open>An accepted timestamp lies between 35 days ago and 5 minutes ahead; the rest is a 422.\<close>

lemma occurred_at_window:
  "case validated_occurred_at ho raw of
     Inl e \<Rightarrow> e = HTTPException 422
   | Inr (t, off) \<Rightarrow> ho_now ho - OUTCOME_MAX_AGE \<le> t \<and> t \<le> ho_now ho + OUTCOME_MAX_SKEW"
  by (auto simp: validated_occurred_at_def OUTCOME_MAX_AGE_def OUTCOME_MAX_SKEW_def day_us_def
      split: json.splits option.splits)

end
