(* ===== verification/Presentation.thy ===== *)
theory Presentation
  imports Surface_Registry Store_Rows
begin

text \<open>
  Where numbers leave the program as text: the digests of \<open>apps/notify\<close> (models, builder,
  corrections, the two sinks) and the command-line surface (\<open>apps/cli/projection.py\<close>,
  \<open>render.py\<close>). The text of a \<open>Decimal\<close> and the JSON printer are arguments.
\<close>

section \<open>Digest models\<close>

definition FORBIDDEN_FIELD_MARKERS :: "string list" where
  "FORBIDDEN_FIELD_MARKERS =
     [''raw'', ''prompt'', ''response'', ''email'', ''customer_id'', ''user_id'', ''pii'', ''content'']"

fun contains :: "string \<Rightarrow> string \<Rightarrow> bool" where
  "contains pat [] = (pat = [])"
| "contains pat (c # cs) = (take (length pat) (c # cs) = pat \<or> contains pat cs)"

definition assert_no_raw_or_pii_fields :: "string list \<Rightarrow> unit res" where
  "assert_no_raw_or_pii_fields model_fields =
     (if \<exists>f \<in> set model_fields. \<exists>m \<in> set FORBIDDEN_FIELD_MARKERS. contains m (lower f) then Inl ValueError else Inr ())"

record digest_metric =
  dm_name :: string
  dm_value :: rat
  dm_unit :: string
  dm_minimum_tier :: binding_tier
  dm_confidence_distribution :: "(binding_tier, int) dict"
  dm_provenance_breakdown :: "(provenance, rat) dict"
  dm_pct_unallocated :: "rat option"

definition DIGEST_METRIC_FIELDS :: "string list" where
  "DIGEST_METRIC_FIELDS = [''name'', ''value'', ''unit'', ''minimum_tier'', ''confidence_distribution'',
     ''provenance_breakdown'', ''pct_unallocated'']"

definition digest_metric_check :: "digest_metric \<Rightarrow> digest_metric res" where
  "digest_metric_check m =
     res_bind (assert_no_raw_or_pii_fields DIGEST_METRIC_FIELDS) (\<lambda>_.
     res_bind (rollup_confidence_new (dm_minimum_tier m) (dm_confidence_distribution m)) (\<lambda>_. Inr m))"

text \<open>The only reason a correction can have is \<open>outcome_retracted\<close>.\<close>

record correction =
  co_metric_name :: string
  co_previous_value :: rat
  co_corrected_value :: rat
  co_affected_outcome_id :: outcome_id

record digest =
  dg_tenant_id :: tenant_id
  dg_period :: string
  dg_metrics :: "digest_metric list"
  dg_corrections :: "correction list"
  dg_generated_at :: string

definition DIGEST_FIELDS :: "string list" where
  "DIGEST_FIELDS = [''tenant_id'', ''period'', ''metrics'', ''corrections'', ''generated_at'']"

definition digest_check :: "digest \<Rightarrow> digest res" where
  "digest_check d = res_bind (assert_no_raw_or_pii_fields DIGEST_FIELDS) (\<lambda>_. Inr d)"

section \<open>Builder and corrections\<close>

fun TIER_RANK :: "binding_tier \<Rightarrow> int" where
  "TIER_RANK Likely = 0"
| "TIER_RANK Candidate = 1"
| "TIER_RANK Deterministic = 2"
| "TIER_RANK Exact = 3"

record rollup_view =
  rv_name :: string
  rv_value :: rat
  rv_unit :: string
  rv_confidence :: rollup_confidence
  rv_provenance_breakdown :: "(provenance, rat) dict"
  rv_pct_unallocated :: "rat option"

definition build_digest_metric :: "rollup_view \<Rightarrow> digest_metric res" where
  "build_digest_metric v = digest_metric_check
     \<lparr>dm_name = rv_name v, dm_value = rv_value v, dm_unit = rv_unit v,
      dm_minimum_tier = rc_minimum_tier (rv_confidence v),
      dm_confidence_distribution = rc_distribution (rv_confidence v),
      dm_provenance_breakdown = rv_provenance_breakdown v, dm_pct_unallocated = rv_pct_unallocated v\<rparr>"

definition filter_by_minimum_tier :: "binding_tier \<Rightarrow> digest_metric list \<Rightarrow> digest_metric list" where
  "filter_by_minimum_tier floor_tier ms = filter (\<lambda>m. TIER_RANK floor_tier \<le> TIER_RANK (dm_minimum_tier m)) ms"

text \<open>A passed correction may be any object; only \<open>Correction\<close> instances are kept.\<close>

definition build_digest ::
  "tenant_id \<Rightarrow> string \<Rightarrow> rollup_view list \<Rightarrow> correction option list \<Rightarrow> string \<Rightarrow> digest res" where
  "build_digest tid period rollups corrections generated_at =
     res_bind (res_traverse build_digest_metric rollups) (\<lambda>ms.
       digest_check \<lparr>dg_tenant_id = tid, dg_period = period, dg_metrics = ms,
         dg_corrections = List.map_filter (\<lambda>c. c) corrections, dg_generated_at = generated_at\<rparr>)"

definition correction_for_retraction :: "string \<Rightarrow> rat \<Rightarrow> rat \<Rightarrow> outcome_id \<Rightarrow> correction option" where
  "correction_for_retraction metric_name previous_value recomputed_value retracted_outcome_id =
     (if previous_value = recomputed_value then None
      else Some \<lparr>co_metric_name = metric_name, co_previous_value = previous_value,
        co_corrected_value = recomputed_value, co_affected_outcome_id = retracted_outcome_id\<rparr>)"

section \<open>Sinks\<close>

definition em_dash :: string where "em_dash = [CHR 0xE2, CHR 0x80, CHR 0x94]"

definition dist_text :: "(binding_tier, int) dict \<Rightarrow> string" where
  "dist_text d = join_with '', '' (map (\<lambda>(t, n). tier_value t @ '':'' @ show_int n) (sort_key (\<lambda>p. tier_value (fst p)) d))"

definition format_metric_line :: "(rat \<Rightarrow> string) \<Rightarrow> digest_metric \<Rightarrow> string" where
  "format_metric_line sd m =
     dm_name m @ '': '' @ sd (dm_value m) @ '' '' @ dm_unit m @ '' [tier='' @ tier_value (dm_minimum_tier m)
     @ '' dist={'' @ dist_text (dm_confidence_distribution m) @ ''}]''"

definition format_correction_line :: "(rat \<Rightarrow> string) \<Rightarrow> correction \<Rightarrow> string" where
  "format_correction_line sd c =
     ''CORRECTION (outcome_retracted) '' @ co_metric_name c @ '': '' @ sd (co_previous_value c) @ '' -> ''
     @ sd (co_corrected_value c) @ '' (outcome '' @ co_affected_outcome_id c @ '')''"

definition format_digest_lines :: "(rat \<Rightarrow> string) \<Rightarrow> digest \<Rightarrow> string list" where
  "format_digest_lines sd d =
     [''AI margin digest '' @ em_dash @ '' '' @ dg_period d]
     @ map (format_metric_line sd) (dg_metrics d) @ map (format_correction_line sd) (dg_corrections d)"

definition newline :: char where "newline = CHR 10"

definition render_slack :: "(rat \<Rightarrow> string) \<Rightarrow> digest \<Rightarrow> (string, string) dict" where
  "render_slack sd d = [(''text'', join_with [newline] (format_digest_lines sd d))]"

definition render_email :: "(rat \<Rightarrow> string) \<Rightarrow> digest \<Rightarrow> (string, string) dict" where
  "render_email sd d =
     [(''subject'', ''AI margin digest '' @ em_dash @ '' '' @ dg_period d),
      (''body'', join_with [newline] (format_digest_lines sd d))]"

section \<open>The command line\<close>

text \<open>\<open>name.replace("_", "-")\<close>.\<close>

definition command_name :: "string \<Rightarrow> string" where
  "command_name name = map (\<lambda>c. if c = CHR ''_'' then CHR ''-'' else c) name"

text \<open>
  An output model as the renderer inspects it: models with named fields, tuples, and leaves
  with their JSON value. A tier is the leaf with its value.
\<close>

datatype mval = MLeaf json | MTuple "mval list" | MModel "(string \<times> mval) list"

fun attr_of :: "mval \<Rightarrow> string \<Rightarrow> mval option" where
  "attr_of (MModel fs) k = map_of fs k"
| "attr_of _ k = None"

definition has_flat_confidence :: "(string \<times> mval) list \<Rightarrow> bool" where
  "has_flat_confidence fs \<longleftrightarrow> list_all (\<lambda>n. n \<in> fst ` set fs) [''minimum_tier'', ''confidence_distribution'']"

fun first_cell_confident :: "mval \<Rightarrow> bool" where
  "first_cell_confident (MTuple (c # _)) = (attr_of c ''confidence'' \<noteq> None)"
| "first_cell_confident _ = False"

definition has_nested_confidence :: "(string \<times> mval) list \<Rightarrow> bool" where
  "has_nested_confidence fs \<longleftrightarrow> ''confidence'' \<in> fst ` set fs \<or> list_ex (\<lambda>(k, v). first_cell_confident v) fs"

definition is_rollup_output :: "(string \<times> mval) list \<Rightarrow> bool" where
  "is_rollup_output fs \<longleftrightarrow> has_flat_confidence fs \<or> has_nested_confidence fs"

fun tier_leaf :: "mval option \<Rightarrow> string option" where
  "tier_leaf (Some (MLeaf (JStr s))) = Some s"
| "tier_leaf _ = None"

definition headline_tier :: "(string \<times> mval) list \<Rightarrow> string option" where
  "headline_tier fs = (case tier_leaf (map_of fs ''minimum_tier'') of
     Some t \<Rightarrow> Some t
   | None \<Rightarrow> tier_leaf (Option.bind (map_of fs ''confidence'') (\<lambda>c. attr_of c ''minimum_tier'')))"

fun dump :: "mval \<Rightarrow> json" where
  "dump (MLeaf v) = v"
| "dump (MTuple xs) = JList (map dump xs)"
| "dump (MModel fs) = JObj (map (\<lambda>(k, v). (k, dump v)) fs)"

definition render_output :: "(json \<Rightarrow> string) \<Rightarrow> (string \<times> mval) list \<Rightarrow> string" where
  "render_output dumps fs =
     (let body = dumps (dump (MModel fs)) in
      if is_rollup_output fs then
        (case headline_tier fs of
           Some t \<Rightarrow> ''minimum_tier: '' @ t @ [newline] @ body
         | None \<Rightarrow> ''minimum_tier: (per-cell, see confidence below)'' @ [newline] @ body)
      else body)"

text \<open>
  One CLI command: \<open>loads\<close> reads \<open>--json-input\<close>; an object without a tenant gets the one of
  \<open>--tenant\<close>. The handler's output is what the renderer prints.
\<close>

definition cli_command ::
  "(string \<Rightarrow> json res) \<Rightarrow> ('i, 's) capability_spec \<Rightarrow> string \<Rightarrow> string \<Rightarrow> 's \<Rightarrow> payload res \<times> 's" where
  "cli_command loads cap tenant json_input s =
     (case loads json_input of
        Inl e \<Rightarrow> (Inl e, s)
      | Inr (JObj m) \<Rightarrow>
          (case im_validate (cp_input_model cap) (if dict_get m ''tenant_id'' = None then dict_set ''tenant_id'' (JStr tenant) m else m) of
             None \<Rightarrow> (Inl ValidationError, s)
           | Some i \<Rightarrow> cp_handler cap no_scope i s)
      | Inr _ \<Rightarrow> (Inl ValidationError, s))"

definition cli_commands :: "('i, 's) registry \<Rightarrow> (string \<times> ('i, 's) capability_spec) list" where
  "cli_commands reg = map (\<lambda>cap. (command_name (cp_name cap), cap)) (for_surface CLI reg)"

section \<open>Properties\<close>

lemma digest_fields_clean:
  "assert_no_raw_or_pii_fields DIGEST_METRIC_FIELDS = Inr ()" "assert_no_raw_or_pii_fields DIGEST_FIELDS = Inr ()"
  by code_simp+

lemma digest_metric_check_eq:
  "digest_metric_check m = res_bind (rollup_confidence_new (dm_minimum_tier m) (dm_confidence_distribution m)) (\<lambda>_. Inr m)"
  by (simp add: digest_metric_check_def digest_fields_clean)

definition view_consistent :: "rollup_view \<Rightarrow> bool" where
  "view_consistent v \<longleftrightarrow>
     rollup_confidence_new (rc_minimum_tier (rv_confidence v)) (rc_distribution (rv_confidence v)) = Inr (rv_confidence v)"

definition metric_of_view :: "rollup_view \<Rightarrow> digest_metric" where
  "metric_of_view v = \<lparr>dm_name = rv_name v, dm_value = rv_value v, dm_unit = rv_unit v,
      dm_minimum_tier = rc_minimum_tier (rv_confidence v),
      dm_confidence_distribution = rc_distribution (rv_confidence v),
      dm_provenance_breakdown = rv_provenance_breakdown v, dm_pct_unallocated = rv_pct_unallocated v\<rparr>"

lemma rollup_new_cases: "rollup_confidence_new m d = Inr \<lparr>rc_minimum_tier = m, rc_distribution = d\<rparr> \<or> rollup_confidence_new m d = Inl ValueError"
  by (cases "map fst (filter (\<lambda>(t, n). 0 < n) d)") (auto simp: rollup_confidence_new_def Let_def)

lemma build_digest_metric_eq: "build_digest_metric v = (if view_consistent v then Inr (metric_of_view v) else Inl ValueError)"
  using rollup_new_cases [of "rc_minimum_tier (rv_confidence v)" "rc_distribution (rv_confidence v)"]
  by (auto simp: build_digest_metric_def digest_metric_check_eq view_consistent_def metric_of_view_def)

lemma traverse_views:
  "res_traverse build_digest_metric vs = (if list_all view_consistent vs then Inr (map metric_of_view vs) else Inl ValueError)"
  by (induction vs) (auto simp: build_digest_metric_eq)

text \<open>
  No number without its confidence. Building a digest succeeds exactly when every rollup's
  headline tier is the least trusted tier present in its distribution; each metric then
  carries name, value, tier and distribution unchanged and in order, and its line ends with
  the tier and the whole distribution.
\<close>

theorem digest_keeps_confidence:
  "case build_digest tid period views cs gen of
     Inl e \<Rightarrow> e = ValueError \<and> \<not> list_all view_consistent views
   | Inr d \<Rightarrow> dg_tenant_id d = tid \<and>
       list_all (\<lambda>v. view_consistent v \<and> rollup_confidence_ok (rv_confidence v)) views \<and>
       map (\<lambda>m. (dm_name m, dm_value m, dm_minimum_tier m, dm_confidence_distribution m)) (dg_metrics d) =
         map (\<lambda>v. (rv_name v, rv_value v, rc_minimum_tier (rv_confidence v), rc_distribution (rv_confidence v))) views \<and>
       list_all2 (\<lambda>line v. \<exists>number. line = number @ '' [tier='' @ tier_value (rc_minimum_tier (rv_confidence v))
           @ '' dist={'' @ dist_text (rc_distribution (rv_confidence v)) @ ''}]'')
         (take (length views) (tl (format_digest_lines sd d))) views"
proof (cases "list_all view_consistent views")
  case True
  then have "build_digest tid period views cs gen = Inr \<lparr>dg_tenant_id = tid, dg_period = period,
      dg_metrics = map metric_of_view views, dg_corrections = List.map_filter (\<lambda>c. c) cs, dg_generated_at = gen\<rparr>"
    by (simp add: build_digest_def traverse_views digest_check_def digest_fields_clean)
  moreover have "rollup_confidence_ok (rv_confidence v)" if "view_consistent v" for v
    using that by (simp add: view_consistent_def rollup_confidence_new_Inr_iff)
  moreover have "list_all2 (\<lambda>line v. \<exists>number. line = number @ '' [tier='' @ tier_value (rc_minimum_tier (rv_confidence v))
      @ '' dist={'' @ dist_text (rc_distribution (rv_confidence v)) @ ''}]'') (map (format_metric_line sd) (map metric_of_view views)) views"
    by (auto simp: list_all2_conv_all_nth format_metric_line_def metric_of_view_def
        intro!: exI [of _ "rv_name _ @ '': '' @ sd (rv_value _) @ '' '' @ rv_unit _"])
  ultimately show ?thesis using True
    by (auto simp: format_digest_lines_def metric_of_view_def comp_def list_all_iff)
next
  case False
  then show ?thesis by (simp add: build_digest_def traverse_views)
qed

text \<open>The display floor keeps exactly the metrics at or above it, unchanged and in order.\<close>

lemma filter_by_minimum_tier_order:
  "filter_by_minimum_tier floor_tier ms = filter (\<lambda>m. floor_tier \<le> dm_minimum_tier m) ms"
proof -
  have "TIER_RANK a \<le> TIER_RANK b \<longleftrightarrow> a \<le> b" for a b by (cases a; cases b) (simp_all add: tier_order_defs)
  then show ?thesis by (simp add: filter_by_minimum_tier_def)
qed

text \<open>A rendered rollup always starts with its tier, the model's own one where it has one.\<close>

lemma render_rollup_headline:
  "is_rollup_output fs \<Longrightarrow> \<exists>t. render_output dumps fs = ''minimum_tier: '' @ t @ [newline] @ dumps (dump (MModel fs)) \<and>
     (case headline_tier fs of Some h \<Rightarrow> t = h | None \<Rightarrow> t = ''(per-cell, see confidence below)'')"
  by (cases "headline_tier fs") (auto simp: render_output_def Let_def)

text \<open>Command names stay distinct as long as no capability name contains a hyphen.\<close>

lemma command_name_inj:
  assumes "CHR ''-'' \<notin> set a" "CHR ''-'' \<notin> set b" "command_name a = command_name b"
  shows "a = b"
  using assms
proof (induction a arbitrary: b)
  case Nil
  then show ?case by (simp add: command_name_def)
next
  case (Cons c a)
  then obtain d b' where "b = d # b'" by (auto simp: command_name_def)
  with Cons show ?case by (auto simp: command_name_def split: if_splits)
qed

lemma cli_commands_distinct:
  assumes "registry_ok reg" "list_all (\<lambda>c. CHR ''-'' \<notin> set (cp_name c)) (registry_all reg)"
  shows "distinct (map fst (cli_commands reg))"
proof -
  let ?cs = "for_surface CLI reg"
  have names: "distinct (map cp_name (map snd reg))"
    using registry_names [OF assms(1)] assms(1) unfolding registry_ok_def dict_ok_def registry_all_def by metis
  then have "distinct (map cp_name ?cs)" unfolding for_surface_def by (rule distinct_map_filter)
  moreover have "inj_on command_name (set (map cp_name ?cs))"
  proof (rule inj_onI)
    fix x y assume "x \<in> set (map cp_name ?cs)" "y \<in> set (map cp_name ?cs)" "command_name x = command_name y"
    moreover have "CHR ''-'' \<notin> set z" if "z \<in> set (map cp_name ?cs)" for z
      using assms(2) that by (fastforce simp: for_surface_def registry_all_def list_all_iff)
    ultimately show "x = y" using command_name_inj by blast
  qed
  ultimately have "distinct (map command_name (map cp_name ?cs))" by (subst distinct_map) blast
  then show ?thesis by (simp add: cli_commands_def comp_def)
qed

end
