(* ===== verification/Store_Results.thy ===== *)
theory Store_Results
  imports Allocation Reconciliation
begin

text \<open>
  The rest of the tables a model is stored in (\<open>store/mappers.py\<close>,
  \<open>store/repositories/attribution.py\<close>, the rollup of \<open>allocation.py\<close>, and the rows behind
  \<open>reconciliation.py\<close>), with the numeric type of money columns (\<open>types_pg.py\<close>).

  Attribution results and rollups are one row per tenant and key: the locale \<open>keyed_table\<close>
  states the contract of their mappers, and its lemma, that reads see the last write, holds for
  both. A rollup is one JSON document; \<open>dec_text\<close> is \<open>str\<close> of a decimal. A JSON object keeps
  the order of its keys here, which no reader depends on.

  The rows of reconciliation records refine the append-only log of \<open>Store\<close> while their amounts
  fit the money columns; the last theorem shows that the factor of an ordinary true-up does not.
\<close>

section \<open>One row per tenant and key\<close>

text \<open>\<open>one_or_none\<close> of the tenant's rows with a key.\<close>

definition fetch_one :: "string \<Rightarrow> (row \<Rightarrow> 'm res) \<Rightarrow> table \<Rightarrow> tenant_id \<Rightarrow> string \<Rightarrow> 'm option res" where
  "fetch_one col read tbl tid k =
     (case filter (\<lambda>r. row_get r col = CStr k) (require_tenant tid tbl) of
        [] \<Rightarrow> Inr None
      | [r] \<Rightarrow> res_bind (read r) (\<lambda>m. Inr (Some m))
      | _ \<Rightarrow> Inl MultipleResultsFound)"

text \<open>A history of committed writes, and the last one under a tenant and key.\<close>

fun write_all :: "('m \<Rightarrow> 's \<Rightarrow> 's res) \<Rightarrow> 'm list \<Rightarrow> 's \<Rightarrow> 's res" where
  "write_all f [] tbl = Inr tbl"
| "write_all f (m # ms) tbl = res_bind (f m tbl) (write_all f ms)"

definition last_put :: "('m \<Rightarrow> string) \<Rightarrow> (tenant_id \<times> 'm) list \<Rightarrow> tenant_id \<Rightarrow> string \<Rightarrow> 'm option" where
  "last_put key ws t k = map_of (rev (map (\<lambda>(t, m). ((t, key m), m)) ws)) (t, k)"

locale keyed_table =
  fixes enc :: "tenant_id \<Rightarrow> 'm \<Rightarrow> row" and key :: "'m \<Rightarrow> string" and col :: string and cols :: "string list"
    and read :: "row \<Rightarrow> 'm res" and ok :: "'m \<Rightarrow> bool" and norm :: "tenant_id \<Rightarrow> 'm \<Rightarrow> 'm"
  assumes enc_names: "map fst (enc t m) = cols"
    and names_distinct: "distinct cols"
    and enc_tenant: "row_get (enc t m) ''tenant_id'' = CUuid t"
    and enc_key: "row_get (enc t m) col = CStr (key m)"
    and read_enc: "ok m \<Longrightarrow> read (enc t m) = Inr (norm t m)"

sublocale keyed_table \<subseteq> row_codec enc key "[''tenant_id'', col]" cols
  by unfold_locales (auto simp: enc_names names_distinct agree_def enc_tenant enc_key)

context keyed_table
begin

abbreviation store :: "(tenant_id \<times> 'm) list \<Rightarrow> table" where
  "store ms \<equiv> map (\<lambda>(t, m). enc t m) ms"

abbreviation put_all :: "(tenant_id \<times> 'm) list \<Rightarrow> (tenant_id \<times> 'm) list \<Rightarrow> (tenant_id \<times> 'm) list" where
  "put_all ws ms \<equiv> foldl (\<lambda>ms (t, m). put key t m ms) ms ws"

lemma put_all_distinct:
  "distinct (map (\<lambda>(t, m). (t, key m)) ms) \<Longrightarrow> distinct (map (\<lambda>(t, m). (t, key m)) (put_all ws ms))"
  by (induction ws arbitrary: ms) (auto intro: put_distinct)

lemma put_all_mem: "(t, m) \<in> set (put_all ws []) \<longleftrightarrow> last_put key ws t (key m) = Some m"
proof (induction ws rule: rev_induct)
  case (snoc w ws)
  obtain t' m' where w: "w = (t', m')" by (cases w)
  have "distinct (map (\<lambda>(t, m). (t, key m)) (put_all ws []))" by (rule put_all_distinct) simp
  from put_mem [OF this, of t m t' m'] snoc show ?case by (auto simp: w last_put_def)
qed (simp add: last_put_def)

lemma write_all_store:
  assumes "distinct (map (\<lambda>(t, m). (t, key m)) ms)"
  shows "write_all (\<lambda>(t, m). upsert_stmt [[''tenant_id'', col]] [''tenant_id'', col] (enc t m)) ws (store ms) =
    Inr (store (put_all ws ms))"
  using assms
proof (induction ws arbitrary: ms)
  case (Cons w ws)
  obtain t m where w: "w = (t, m)" by (cases w)
  show ?case
    using upsert_key_only [OF Cons.prems, of t m] Cons.IH [OF put_distinct [OF Cons.prems]] by (simp add: w)
qed simp

lemma fetch_store:
  assumes "distinct (map (\<lambda>(t, m). (t, key m)) ms)" and "list_all (\<lambda>(t, m). ok m) ms"
  shows "fetch_one col read (store ms) t k =
    Inr (map_option (norm t) (map_of (map (\<lambda>(t, m). ((t, key m), m)) ms) (t, k)))"
proof -
  have f: "filter (\<lambda>r. row_get r col = CStr k) (require_tenant t (store ms)) =
      store (filter (\<lambda>(t', m). t' = t \<and> key m = k) ms)"
    by (simp add: require_tenant_def filter_map o_def case_prod_unfold enc_tenant enc_key conj_commute)
  from assms(1) show ?thesis
  proof (cases rule: filter_key_cases [of key ms t k])
    case (1 m)
    have "map_of (map (\<lambda>(t, m). ((t, key m), m)) ms) (t, k) = Some m"
      using 1(1,2) assms(1) by (intro map_of_is_SomeI) (force simp: case_prod_unfold o_def)+
    moreover have "ok m" using assms(2) 1(1) by (auto simp: list_all_iff)
    ultimately show ?thesis by (simp add: fetch_one_def f 1 read_enc)
  next
    case 2
    then have "map_of (map (\<lambda>(t, m). ((t, key m), m)) ms) (t, k) = None"
      by (force simp: map_of_eq_None_iff)
    with 2 show ?thesis by (simp add: fetch_one_def f)
  qed
qed

text \<open>Reads see, under each tenant and key, the last write.\<close>

lemma last_write_read:
  assumes "list_all (\<lambda>(t, m). ok m) ws"
  shows "\<exists>tbl. write_all (\<lambda>(t, m). upsert_stmt [[''tenant_id'', col]] [''tenant_id'', col] (enc t m)) ws [] = Inr tbl \<and>
    (\<forall>t k. fetch_one col read tbl t k = Inr (map_option (norm t) (last_put key ws t k)))"
proof -
  let ?ms = "put_all ws []"
  have d: "distinct (map (\<lambda>(t, m). (t, key m)) ?ms)" by (rule put_all_distinct) simp
  have in_ws: "last_put key ws t k = Some m \<Longrightarrow> (t, m) \<in> set ws \<and> key m = k" for t k m
    unfolding last_put_def by (drule map_of_SomeD) auto
  have "list_all (\<lambda>(t, m). ok m) ?ms"
    using assms in_ws put_all_mem [of _ _ ws] by (fastforce simp: list_all_iff)
  note fetched = fetch_store [OF d this]
  have iff: "map_of (map (\<lambda>(t, m). ((t, key m), m)) ?ms) (t, k) = Some m \<longleftrightarrow> last_put key ws t k = Some m" for t k m
  proof
    assume "map_of (map (\<lambda>(t, m). ((t, key m), m)) ?ms) (t, k) = Some m"
    then have "(t, m) \<in> set ?ms" "key m = k" by (auto dest: map_of_SomeD)
    then show "last_put key ws t k = Some m" using put_all_mem [of t m ws] by simp
  next
    assume l: "last_put key ws t k = Some m"
    then have "(t, m) \<in> set ?ms" using put_all_mem [of t m ws] in_ws [OF l] by simp
    then show "map_of (map (\<lambda>(t, m). ((t, key m), m)) ?ms) (t, k) = Some m"
      using in_ws [OF l] d by (intro map_of_is_SomeI) (force simp: case_prod_unfold o_def)+
  qed
  have "map_of (map (\<lambda>(t, m). ((t, key m), m)) ?ms) (t, k) = last_put key ws t k" for t k
    by (rule option_eqI) (rule iff)
  with write_all_store [of "[]" ws] fetched show ?thesis by auto
qed

end


section \<open>Attribution results\<close>

definition result_to_row :: "tenant_id \<Rightarrow> attribution_result \<Rightarrow> row" where
  "result_to_row tid r =
    [(''outcome_id'', CStr (ar_outcome_id r)),
     (''tenant_id'', CUuid tid),
     (''run_id'', opt_cell CStr (ar_run_id r)),
     (''tier'', opt_cell (\<lambda>t. CStr (tier_value t)) (ar_tier r)),
     (''bound_by'', opt_cell CStr (ar_bound_by r)),
     (''candidates'', CList (map candidate_dump (ar_candidates r))),
     (''review_required'', CBool (ar_review_required r))]"

fun json_obj :: "json \<Rightarrow> (string \<times> json) list res" where
  "json_obj (JObj m) = Inr m"
| "json_obj _ = Inl AssertionError"

fun json_text :: "json \<Rightarrow> string res" where
  "json_text (JStr s) = Inr s"
| "json_text _ = Inl AssertionError"

text \<open>\<open>float(_as_number(v))\<close>; an integer is read as the float of its value.\<close>

fun json_number :: "json \<Rightarrow> rat res" where
  "json_number (JFloat q) = Inr q"
| "json_number (JInt i) = Inr (of_int i)"
| "json_number _ = Inl AssertionError"

definition item_at :: "(string \<times> json) list \<Rightarrow> string \<Rightarrow> json res" where
  "item_at m k = (case dict_get m k of None \<Rightarrow> Inl KeyError | Some v \<Rightarrow> Inr v)"

definition row_to_candidate :: "json \<Rightarrow> attribution_candidate res" where
  "row_to_candidate raw =
     res_bind (json_obj raw) (\<lambda>item.
     res_bind (res_bind (item_at item ''run_id'') json_text) (\<lambda>rid.
     res_bind (res_bind (res_bind (item_at item ''tier'') json_text) tier_of) (\<lambda>tier.
     res_bind (res_bind (item_at item ''score'') json_number) (\<lambda>score.
     res_bind (res_bind (item_at item ''rationale'') json_text) (\<lambda>why.
       Inr \<lparr>ac_run_id = rid, ac_tier = tier, ac_score = score, ac_rationale = why\<rparr>)))))"

definition row_to_result :: "row \<Rightarrow> attribution_result res" where
  "row_to_result r =
     res_bind (res_bind (row_at r ''run_id'') as_opt_str) (\<lambda>rid.
     res_bind (res_bind (row_at r ''tier'') as_opt_str) (\<lambda>tier.
     res_bind (res_bind (res_bind (row_at r ''candidates'') as_json_list) (res_traverse row_to_candidate)) (\<lambda>cands.
     res_bind (res_bind (row_at r ''tenant_id'') as_tenant) (\<lambda>tid.
     res_bind (res_bind (row_at r ''outcome_id'') as_str) (\<lambda>oid.
     res_bind (opt_tier_of tier) (\<lambda>tier'.
     res_bind (res_bind (row_at r ''bound_by'') as_opt_str) (\<lambda>by'.
     res_bind (res_bind (row_at r ''review_required'') as_bool) (\<lambda>rv.
       Inr \<lparr>ar_tenant_id = tid, ar_outcome_id = oid, ar_run_id = rid, ar_tier = tier', ar_bound_by = by',
         ar_candidates = cands, ar_review_required = rv\<rparr>))))))))"

definition result_conflict :: "string list" where
  "result_conflict = [''tenant_id'', ''outcome_id'']"

definition result_upsert :: "tenant_id \<times> attribution_result \<Rightarrow> table \<Rightarrow> table res" where
  "result_upsert = (\<lambda>(tid, r). upsert_stmt [result_conflict] result_conflict (result_to_row tid r))"

definition result_for_outcome :: "table \<Rightarrow> tenant_id \<Rightarrow> outcome_id \<Rightarrow> attribution_result option res" where
  "result_for_outcome = fetch_one ''outcome_id'' row_to_result"

lemma candidates_roundtrip: "res_traverse row_to_candidate (map candidate_dump cs) = Inr cs"
  by (induction cs) (simp_all add: row_to_candidate_def candidate_dump_def item_at_def row_simps)

interpretation result_table: keyed_table result_to_row ar_outcome_id "''outcome_id''"
  "[''outcome_id'', ''tenant_id'', ''run_id'', ''tier'', ''bound_by'', ''candidates'', ''review_required'']"
  row_to_result "\<lambda>r. True" "\<lambda>t r. r\<lparr>ar_tenant_id := t\<rparr>"
proof
  show "row_to_result (result_to_row t r) = Inr (r\<lparr>ar_tenant_id := t\<rparr>)" for t r
    using opt_tier_roundtrip [of "ar_tier r"]
    by (simp add: row_to_result_def result_to_row_def row_at_def row_simps candidates_roundtrip)
qed (simp_all add: result_to_row_def row_get_def)

text \<open>
  The attribution result repository keeps one result per tenant and outcome: after any
  history of writes, reading an outcome under a tenant gives the last result written there,
  candidates, scores and review flag included, stamped with the writing tenant, and nothing
  when none was written. No write is refused.
\<close>

theorem result_store_last_write:
  "\<exists>tbl. write_all result_upsert ws [] = Inr tbl \<and>
    (\<forall>t k. result_for_outcome tbl t k =
      Inr (map_option (\<lambda>r. r\<lparr>ar_tenant_id := t\<rparr>) (last_put ar_outcome_id ws t k)))"
  using result_table.last_write_read [of ws]
  by (simp add: result_upsert_def result_for_outcome_def result_conflict_def list_all_iff case_prod_unfold)


section \<open>Allocation rollups\<close>

text \<open>\<open>model_dump(mode="json")\<close>: enums and decimals are text.\<close>

definition line_dump :: "(rat \<Rightarrow> string) \<Rightarrow> allocated_line \<Rightarrow> json" where
  "line_dump dec_text l = JObj
    [(''tier'', JStr (allocation_tier_value (al_tier l))),
     (''label'', JStr (provenance_value (al_label l))),
     (''amount_usd'', JStr (dec_text (al_amount_usd l))),
     (''allocation_key'', opt_json JStr (al_allocation_key l)),
     (''confidence'', JStr (confidence_value (al_confidence l))),
     (''sensitivity_pct'', opt_json (\<lambda>d. JStr (dec_text d)) (al_sensitivity_pct l)),
     (''rule_version'', opt_json JStr (al_rule_version l)),
     (''quarantined'', JBool (al_quarantined l))]"

definition confidence_dump :: "rollup_confidence \<Rightarrow> json" where
  "confidence_dump c = JObj
    [(''minimum_tier'', JStr (tier_value (rc_minimum_tier c))),
     (''confidence_distribution'', JObj (map (\<lambda>(t, n). (tier_value t, JInt n)) (rc_distribution c)))]"

definition breakdown_dump :: "(rat \<Rightarrow> string) \<Rightarrow> provenance_breakdown \<Rightarrow> json" where
  "breakdown_dump dec_text b = JObj
    [(''reconciled_usd'', JStr (dec_text (pb_reconciled_usd b))),
     (''provisional_usd'', JStr (dec_text (pb_provisional_usd b))),
     (''estimate_only_usd'', JStr (dec_text (pb_estimate_only_usd b)))]"

definition rollup_dump :: "(rat \<Rightarrow> string) \<Rightarrow> allocated_rollup \<Rightarrow> (string \<times> json) list" where
  "rollup_dump dec_text r =
    [(''tenant_id'', JStr (arl_tenant_id r)),
     (''run_id'', JStr (arl_run_id r)),
     (''lines'', JList (map (line_dump dec_text) (arl_lines r))),
     (''pct_unallocated'', JStr (dec_text (arl_pct_unallocated r))),
     (''confidence'', confidence_dump (arl_confidence r)),
     (''provenance_breakdown'', breakdown_dump dec_text (arl_provenance_breakdown r))]"

text \<open>
  \<open>model_validate(payload, strict=False)\<close>: an object with exactly the declared fields; text is
  read as the enum, decimal or identifier the field declares, and the model validators run.
\<close>

definition closed_obj :: "string list \<Rightarrow> json \<Rightarrow> (string \<times> json) list res" where
  "closed_obj names j = (case j of
     JObj m \<Rightarrow> if set (map fst m) = set names then Inr m else Inl ValueError
   | _ \<Rightarrow> Inl ValueError)"

definition member :: "(string \<times> json) list \<Rightarrow> string \<Rightarrow> json" where
  "member m k = (case dict_get m k of None \<Rightarrow> JNull | Some v \<Rightarrow> v)"

fun lax_text :: "json \<Rightarrow> string res" where
  "lax_text (JStr s) = Inr s"
| "lax_text _ = Inl ValueError"

fun lax_decimal :: "json \<Rightarrow> rat res" where
  "lax_decimal (JStr s) = (case parse_decimal s of None \<Rightarrow> Inl ValueError | Some v \<Rightarrow> Inr v)"
| "lax_decimal (JInt i) = Inr (of_int i)"
| "lax_decimal _ = Inl ValueError"

fun lax_bool :: "json \<Rightarrow> bool res" where
  "lax_bool (JBool b) = Inr b"
| "lax_bool _ = Inl ValueError"

fun lax_int :: "json \<Rightarrow> int res" where
  "lax_int (JInt i) = Inr i"
| "lax_int _ = Inl ValueError"

definition lax_opt :: "(json \<Rightarrow> 'a res) \<Rightarrow> json \<Rightarrow> 'a option res" where
  "lax_opt f j = (if j = JNull then Inr None else res_bind (f j) (\<lambda>v. Inr (Some v)))"

definition line_fields :: "string list" where
  "line_fields = [''tier'', ''label'', ''amount_usd'', ''allocation_key'', ''confidence'', ''sensitivity_pct'',
     ''rule_version'', ''quarantined'']"

definition validate_line :: "json \<Rightarrow> allocated_line res" where
  "validate_line j =
     res_bind (closed_obj line_fields j) (\<lambda>m.
     res_bind (res_bind (lax_text (member m ''tier'')) allocation_tier_of) (\<lambda>tier.
     res_bind (res_bind (lax_text (member m ''label'')) provenance_of) (\<lambda>label.
     res_bind (lax_decimal (member m ''amount_usd'')) (\<lambda>amount.
     res_bind (lax_opt lax_text (member m ''allocation_key'')) (\<lambda>key.
     res_bind (res_bind (lax_text (member m ''confidence'')) confidence_of) (\<lambda>conf.
     res_bind (lax_opt lax_decimal (member m ''sensitivity_pct'')) (\<lambda>sens.
     res_bind (lax_opt lax_text (member m ''rule_version'')) (\<lambda>rule.
     res_bind (lax_bool (member m ''quarantined'')) (\<lambda>qu.
       allocated_line_check \<lparr>al_tier = tier, al_label = label, al_amount_usd = amount, al_allocation_key = key,
         al_confidence = conf, al_sensitivity_pct = sens, al_rule_version = rule, al_quarantined = qu\<rparr>)))))))))"

fun validate_counts :: "json \<Rightarrow> (binding_tier, int) dict res" where
  "validate_counts (JObj m) = res_traverse (\<lambda>(k, v). res_bind (tier_of k) (\<lambda>t. res_bind (lax_int v) (\<lambda>n. Inr (t, n)))) m"
| "validate_counts _ = Inl ValueError"

definition validate_confidence :: "json \<Rightarrow> rollup_confidence res" where
  "validate_confidence j =
     res_bind (closed_obj [''minimum_tier'', ''confidence_distribution''] j) (\<lambda>m.
     res_bind (res_bind (lax_text (member m ''minimum_tier'')) tier_of) (\<lambda>t.
     res_bind (validate_counts (member m ''confidence_distribution'')) (\<lambda>ns. rollup_confidence_new t ns)))"

definition validate_breakdown :: "json \<Rightarrow> provenance_breakdown res" where
  "validate_breakdown j =
     res_bind (closed_obj [''reconciled_usd'', ''provisional_usd'', ''estimate_only_usd''] j) (\<lambda>m.
     res_bind (lax_decimal (member m ''reconciled_usd'')) (\<lambda>a.
     res_bind (lax_decimal (member m ''provisional_usd'')) (\<lambda>b.
     res_bind (lax_decimal (member m ''estimate_only_usd'')) (\<lambda>c.
       Inr \<lparr>pb_reconciled_usd = a, pb_provisional_usd = b, pb_estimate_only_usd = c\<rparr>))))"

fun validate_lines :: "json \<Rightarrow> allocated_line list res" where
  "validate_lines (JList js) = res_traverse validate_line js"
| "validate_lines _ = Inl ValueError"

definition rollup_fields :: "string list" where
  "rollup_fields = [''tenant_id'', ''run_id'', ''lines'', ''pct_unallocated'', ''confidence'', ''provenance_breakdown'']"

definition validate_rollup :: "json \<Rightarrow> allocated_rollup res" where
  "validate_rollup j =
     res_bind (closed_obj rollup_fields j) (\<lambda>m.
     res_bind (res_bind (lax_text (member m ''tenant_id'')) parse_uuid) (\<lambda>tid.
     res_bind (lax_text (member m ''run_id'')) (\<lambda>rid.
     res_bind (validate_lines (member m ''lines'')) (\<lambda>lines.
     res_bind (lax_decimal (member m ''pct_unallocated'')) (\<lambda>pct.
     res_bind (validate_confidence (member m ''confidence'')) (\<lambda>conf.
     res_bind (validate_breakdown (member m ''provenance_breakdown'')) (\<lambda>bd.
       Inr \<lparr>arl_tenant_id = tid, arl_run_id = rid, arl_lines = lines, arl_pct_unallocated = pct,
         arl_confidence = conf, arl_provenance_breakdown = bd\<rparr>)))))))"

definition rollup_to_row :: "(rat \<Rightarrow> string) \<Rightarrow> tenant_id \<Rightarrow> allocated_rollup \<Rightarrow> row" where
  "rollup_to_row dec_text tid r =
     [(''run_id'', CStr (arl_run_id r)), (''tenant_id'', CUuid tid), (''payload'', CObj (rollup_dump dec_text r))]"

definition row_to_rollup :: "row \<Rightarrow> allocated_rollup res" where
  "row_to_rollup r = res_bind (res_bind (row_at r ''payload'') as_json_obj) (\<lambda>m. validate_rollup (JObj m))"

definition rollup_conflict :: "string list" where
  "rollup_conflict = [''tenant_id'', ''run_id'']"

definition rollup_upsert :: "(rat \<Rightarrow> string) \<Rightarrow> tenant_id \<times> allocated_rollup \<Rightarrow> table \<Rightarrow> table res" where
  "rollup_upsert dec_text = (\<lambda>(tid, r). upsert_stmt [rollup_conflict] rollup_conflict (rollup_to_row dec_text tid r))"

definition get_rollup :: "table \<Rightarrow> tenant_id \<Rightarrow> run_id \<Rightarrow> allocated_rollup option res" where
  "get_rollup = fetch_one ''run_id'' row_to_rollup"


definition rollup_decimals :: "allocated_rollup \<Rightarrow> rat list" where
  "rollup_decimals r =
     arl_pct_unallocated r # pb_reconciled_usd (arl_provenance_breakdown r) # pb_provisional_usd (arl_provenance_breakdown r)
     # pb_estimate_only_usd (arl_provenance_breakdown r)
     # concat (map (\<lambda>l. al_amount_usd l # (case al_sensitivity_pct l of None \<Rightarrow> [] | Some d \<Rightarrow> [d])) (arl_lines r))"

definition storable :: "(rat \<Rightarrow> string) \<Rightarrow> allocated_rollup \<Rightarrow> bool" where
  "storable dec_text r \<longleftrightarrow> parse_uuid (arl_tenant_id r) = Inr (arl_tenant_id r) \<and>
     list_all allocated_line_ok (arl_lines r) \<and> rollup_confidence_ok (arl_confidence r) \<and>
     list_all (\<lambda>v. parse_decimal (dec_text v) = Some v) (rollup_decimals r)"

lemma lax_opt_simps [simp]: "lax_opt f JNull = Inr None" "lax_opt lax_text (opt_json JStr x) = Inr x"
  by (simp_all add: lax_opt_def opt_json_def split: option.split)

lemma validate_line_dump:
  assumes "allocated_line_ok l" and "parse_decimal (dec_text (al_amount_usd l)) = Some (al_amount_usd l)"
    and "\<And>d. al_sensitivity_pct l = Some d \<Longrightarrow> parse_decimal (dec_text d) = Some d"
  shows "validate_line (line_dump dec_text l) = Inr l"
proof -
  have "lax_opt lax_decimal (opt_json (\<lambda>d. JStr (dec_text d)) (al_sensitivity_pct l)) = Inr (al_sensitivity_pct l)"
    using assms(3) by (cases "al_sensitivity_pct l") (simp_all add: opt_json_def lax_opt_def)
  then show ?thesis using assms(1,2)
    by (cases l) (simp add: validate_line_def line_dump_def closed_obj_def line_fields_def member_def row_simps
        allocated_line_check_Inr_iff)
qed

lemma validate_lines_dump:
  assumes "list_all allocated_line_ok ls"
    and "\<And>l. l \<in> set ls \<Longrightarrow> parse_decimal (dec_text (al_amount_usd l)) = Some (al_amount_usd l)"
    and "\<And>l d. l \<in> set ls \<Longrightarrow> al_sensitivity_pct l = Some d \<Longrightarrow> parse_decimal (dec_text d) = Some d"
  shows "res_traverse validate_line (map (line_dump dec_text) ls) = Inr ls"
proof -
  have "validate_line (line_dump dec_text l) = Inr l" if "l \<in> set ls" for l
    using assms that by (intro validate_line_dump) (auto simp: list_all_iff)
  then have "res_traverse validate_line (map (line_dump dec_text) xs) = Inr xs" if "set xs \<subseteq> set ls" for xs
    using that by (induction xs) auto
  then show ?thesis by simp
qed

lemma validate_confidence_dump:
  assumes "rollup_confidence_ok c"
  shows "validate_confidence (confidence_dump c) = Inr c"
proof -
  have "res_traverse (\<lambda>(k, v). res_bind (tier_of k) (\<lambda>t. res_bind (lax_int v) (\<lambda>n. Inr (t, n))))
      (map (\<lambda>(t, n). (tier_value t, JInt n)) xs) = Inr xs" for xs
    by (induction xs) (auto simp: row_simps)
  moreover have "rollup_confidence_new (rc_minimum_tier c) (rc_distribution c) = Inr c"
    using assms by (cases c) (simp add: rollup_confidence_new_Inr_iff)
  ultimately show ?thesis
    by (simp add: validate_confidence_def confidence_dump_def closed_obj_def member_def row_simps)
qed

lemma validate_rollup_dump:
  assumes "storable dec_text r"
  shows "validate_rollup (JObj (rollup_dump dec_text r)) = Inr r"
proof -
  have d: "parse_decimal (dec_text v) = Some v" if "v \<in> set (rollup_decimals r)" for v
    using assms that by (auto simp: storable_def list_all_iff)
  have lines: "res_traverse validate_line (map (line_dump dec_text) (arl_lines r)) = Inr (arl_lines r)"
  proof (rule validate_lines_dump)
    show "list_all allocated_line_ok (arl_lines r)" using assms by (simp add: storable_def)
    fix l assume l: "l \<in> set (arl_lines r)"
    then show "parse_decimal (dec_text (al_amount_usd l)) = Some (al_amount_usd l)"
      by (intro d) (auto simp: rollup_decimals_def)
    fix v assume v: "al_sensitivity_pct l = Some v"
    show "parse_decimal (dec_text v) = Some v" by (rule d) (use l v in \<open>force simp: rollup_decimals_def\<close>)
  qed
  have "validate_breakdown (breakdown_dump dec_text (arl_provenance_breakdown r)) = Inr (arl_provenance_breakdown r)"
    by (simp add: validate_breakdown_def breakdown_dump_def closed_obj_def member_def d rollup_decimals_def)
  moreover have "parse_decimal (dec_text (arl_pct_unallocated r)) = Some (arl_pct_unallocated r)"
    by (rule d) (simp add: rollup_decimals_def)
  moreover have "validate_confidence (confidence_dump (arl_confidence r)) = Inr (arl_confidence r)"
    by (rule validate_confidence_dump) (use assms in \<open>simp add: storable_def\<close>)
  ultimately show ?thesis using assms lines
    by (simp add: validate_rollup_def rollup_dump_def closed_obj_def rollup_fields_def member_def storable_def)
qed

interpretation rollup_table: keyed_table "rollup_to_row dec_text" arl_run_id "''run_id''"
  "[''run_id'', ''tenant_id'', ''payload'']" row_to_rollup "storable dec_text" "\<lambda>t r. r"
  for dec_text
  by unfold_locales (simp_all add: rollup_to_row_def row_get_def row_to_rollup_def row_at_def validate_rollup_dump)

lemma allocate_run_confidence:
  assumes "allocate_run tid rid events config weights tc = Inr r"
  shows "rollup_confidence_ok (arl_confidence r)"
proof -
  obtain t1 t2 t3 where "build_rollup tid rid t1 (concat t2) t3 tc = Inr r" by (rule allocate_run_Inr [OF assms])
  from build_rollup_Inr(2) [OF this] show ?thesis
    using lines_confidence_Inr allocate_run_lines [OF assms] by blast
qed

text \<open>A rollup the allocator computed is a valid document once its tenant and decimals are text that reads back.\<close>

lemma allocated_storable:
  assumes "allocate_run tid rid events config weights tc = Inr r" and "parse_uuid tid = Inr tid"
    and "list_all (\<lambda>v. parse_decimal (dec_text v) = Some v) (rollup_decimals r)"
  shows "storable dec_text r"
proof -
  have "list_all allocated_line_ok (arl_lines r)"
    using allocate_run_lines [OF assms(1)] by (simp add: list_all_iff)
  moreover have "rollup_confidence_ok (arl_confidence r)"
    using allocate_run_confidence [OF assms(1)] .
  moreover have "arl_tenant_id r = tid" using assms(1) by (auto simp: allocate_run_def build_rollup_def Let_def)
  ultimately show ?thesis using assms(2,3) by (simp add: storable_def)
qed

text \<open>
  C34. A computed rollup survives storage: after any history of writes of rollups the allocator
  computed, reading a run under a tenant gives exactly the last rollup written there, with its
  lines, confidence and breakdown revalidated, whenever each decimal of a stored rollup is
  written as text that reads back. The document keeps the rollup's own tenant, whichever
  tenant it is filed under.
\<close>

theorem rollup_store_last_write:
  assumes "list_all (\<lambda>(t, r). (\<exists>events config weights tc.
      allocate_run (arl_tenant_id r) (arl_run_id r) events config weights tc = Inr r) \<and>
    parse_uuid (arl_tenant_id r) = Inr (arl_tenant_id r) \<and>
    list_all (\<lambda>v. parse_decimal (dec_text v) = Some v) (rollup_decimals r)) ws"
  shows "\<exists>tbl. write_all (rollup_upsert dec_text) ws [] = Inr tbl \<and>
    (\<forall>t k. get_rollup tbl t k = Inr (last_put arl_run_id ws t k))"
proof -
  have "list_all (\<lambda>(t, r). storable dec_text r) ws"
    using assms allocated_storable unfolding list_all_iff by fast
  from rollup_table.last_write_read [OF this] show ?thesis
    by (simp add: rollup_upsert_def get_rollup_def rollup_conflict_def option.map_ident)
qed


definition sample_tenant :: tenant_id where
  "sample_tenant = ''00000000-0000-0000-0000-000000000001''"

definition empty_rollup :: allocated_rollup where
  "empty_rollup = \<lparr>arl_tenant_id = sample_tenant, arl_run_id = ''r1'', arl_lines = [], arl_pct_unallocated = 0,
     arl_confidence = \<lparr>rc_minimum_tier = Exact, rc_distribution = [(Exact, 1)]\<rparr>,
     arl_provenance_breakdown = \<lparr>pb_reconciled_usd = 0, pb_provisional_usd = 0, pb_estimate_only_usd = 0\<rparr>\<rparr>"

lemma sample_tenant_uuid: "parse_uuid sample_tenant = Inr sample_tenant"
  by code_simp

lemma empty_rollup_allocated:
  "allocate_run sample_tenant ''r1'' [] \<lparr>cfg_tenant_id = sample_tenant, cfg_inputs = []\<rparr> [] 0 = Inr empty_rollup"
proof -
  have "rollup_confidence_new Exact [(Exact, 1)] = Inr \<lparr>rc_minimum_tier = Exact, rc_distribution = [(Exact, 1)]\<rparr>"
    by (simp add: rollup_confidence_new_Inr_iff rollup_confidence_ok_def)
  then show ?thesis
    by (simp add: allocate_run_def direct_lines_def inputs_for_tier_def tier3_lines_def build_rollup_def
        lines_confidence_def dsum_def dadd_def empty_rollup_def)
qed

theorem rollup_store_last_write_witness:
  "\<exists>tbl. write_all (rollup_upsert (\<lambda>v. ''0'')) [(''t'', empty_rollup)] [] = Inr tbl \<and>
    get_rollup tbl ''t'' ''r1'' = Inr (Some empty_rollup) \<and> get_rollup tbl ''u'' ''r1'' = Inr None"
proof -
  have "parse_decimal ''0'' = Some 0" by code_simp
  then have "list_all (\<lambda>v. parse_decimal ''0'' = Some v) (rollup_decimals empty_rollup)"
    by (simp add: rollup_decimals_def empty_rollup_def)
  moreover have "\<exists>events config weights tc. allocate_run (arl_tenant_id empty_rollup) (arl_run_id empty_rollup)
      events config weights tc = Inr empty_rollup"
    using empty_rollup_allocated by (auto simp: empty_rollup_def)
  moreover have "parse_uuid (arl_tenant_id empty_rollup) = Inr (arl_tenant_id empty_rollup)"
    by (simp add: empty_rollup_def sample_tenant_uuid)
  ultimately have "\<exists>tbl. write_all (rollup_upsert (\<lambda>v. ''0'')) [(''t'', empty_rollup)] [] = Inr tbl \<and>
      (\<forall>t k. get_rollup tbl t k = Inr (last_put arl_run_id [(''t'', empty_rollup)] t k))"
    by (intro rollup_store_last_write) simp
  then show ?thesis by (auto simp: last_put_def empty_rollup_def)
qed


section \<open>Rows of reconciliation records\<close>

definition recon_to_row :: "tenant_id \<Rightarrow> reconciliation_record \<Rightarrow> row" where
  "recon_to_row tid r = (case rec_match_key r of (provider, project, model_name, token_class, day) \<Rightarrow>
    [(''id'', CStr (rec_id r)),
     (''tenant_id'', CUuid tid),
     (''match_provider'', CStr provider),
     (''match_project'', CStr project),
     (''match_model'', CStr model_name),
     (''match_token_class'', CStr token_class),
     (''match_day'', CStr day),
     (''estimated_total'', CDec (rec_estimated_total r)),
     (''billed_total'', CDec (rec_billed_total r)),
     (''proration_factor'', CDec (rec_proration_factor r)),
     (''drift_pct'', CDec (rec_drift_pct r)),
     (''drift_cause_ranked'', CStrs (rec_drift_cause_ranked r)),
     (''created_at'', CTime (rec_created_at r))])"

definition row_to_recon :: "row \<Rightarrow> reconciliation_record res" where
  "row_to_recon r =
     res_bind (res_bind (row_at r ''tenant_id'') as_tenant) (\<lambda>tid.
     res_bind (res_bind (row_at r ''id'') as_str) (\<lambda>i.
     res_bind (res_bind (row_at r ''match_provider'') as_str) (\<lambda>a.
     res_bind (res_bind (row_at r ''match_project'') as_str) (\<lambda>b.
     res_bind (res_bind (row_at r ''match_model'') as_str) (\<lambda>c.
     res_bind (res_bind (row_at r ''match_token_class'') as_str) (\<lambda>d.
     res_bind (res_bind (row_at r ''match_day'') as_str) (\<lambda>e.
     res_bind (res_bind (row_at r ''estimated_total'') as_decimal) (\<lambda>est.
     res_bind (res_bind (row_at r ''billed_total'') as_decimal) (\<lambda>billed.
     res_bind (res_bind (row_at r ''proration_factor'') as_decimal) (\<lambda>factor.
     res_bind (res_bind (row_at r ''drift_pct'') as_decimal) (\<lambda>drift.
     res_bind (res_bind (row_at r ''drift_cause_ranked'') str_tuple_from_json) (\<lambda>causes.
     res_bind (res_bind (row_at r ''created_at'') as_dt) (\<lambda>created.
       Inr \<lparr>rec_tenant_id = tid, rec_id = i, rec_match_key = (a, b, c, d, e), rec_estimated_total = est,
         rec_billed_total = billed, rec_proration_factor = factor, rec_drift_pct = drift,
         rec_drift_cause_ranked = causes, rec_created_at = created\<rparr>)))))))))))))"

text \<open>
  A \<open>money()\<close> column is \<open>NUMERIC(20, 10)\<close>: \<open>numeric\<close> is what the database makes of a decimal
  written to it.
\<close>

definition RECON_MONEY :: "string list" where
  "RECON_MONEY = [''estimated_total'', ''billed_total'', ''proration_factor'', ''drift_pct'']"

fun numeric_cell :: "(rat \<Rightarrow> rat res) \<Rightarrow> cell \<Rightarrow> cell res" where
  "numeric_cell numeric (CDec v) = res_bind (numeric v) (\<lambda>w. Inr (CDec w))"
| "numeric_cell numeric c = Inr c"

definition write_money :: "(rat \<Rightarrow> rat res) \<Rightarrow> string list \<Rightarrow> row \<Rightarrow> row res" where
  "write_money numeric money_cols r = res_traverse (\<lambda>(c, v).
     if c \<in> set money_cols then res_bind (numeric_cell numeric v) (\<lambda>w. Inr (c, w)) else Inr (c, v)) r"

definition recon_row_append ::
  "(rat \<Rightarrow> rat res) \<Rightarrow> tenant_id \<times> reconciliation_record \<Rightarrow> table \<Rightarrow> table res" where
  "recon_row_append numeric = (\<lambda>(tid, r) tbl.
     res_bind (write_money numeric RECON_MONEY (recon_to_row tid r)) (\<lambda>row. insert_row [tenant_pk] row tbl))"

definition has_match_key :: "match_key \<Rightarrow> row \<Rightarrow> bool" where
  "has_match_key k r = (case k of (provider, project, model_name, token_class, day) \<Rightarrow>
     row_get r ''match_provider'' = CStr provider \<and> row_get r ''match_project'' = CStr project \<and>
     row_get r ''match_model'' = CStr model_name \<and> row_get r ''match_token_class'' = CStr token_class \<and>
     row_get r ''match_day'' = CStr day)"

fun cell_time :: "cell \<Rightarrow> int" where
  "cell_time (CTime t) = t"
| "cell_time _ = 0"

definition recon_rows_for_key :: "table \<Rightarrow> tenant_id \<Rightarrow> match_key \<Rightarrow> reconciliation_record list res" where
  "recon_rows_for_key tbl tid k =
     res_traverse row_to_recon
       (sort_key (\<lambda>r. - cell_time (row_get r ''created_at'')) (filter (has_match_key k) (require_tenant tid tbl)))"

text \<open>What every database with that type does: a value with ten decimals and ten digits before them is kept.\<close>

definition money_exact :: "(rat \<Rightarrow> rat res) \<Rightarrow> bool" where
  "money_exact numeric \<longleftrightarrow> (\<forall>v. quantized 10 v \<longrightarrow> \<bar>v\<bar> < 10 ^ 10 \<longrightarrow> numeric v = Inr v)"

definition recon_fits :: "reconciliation_record \<Rightarrow> bool" where
  "recon_fits r \<longleftrightarrow> list_all (\<lambda>v. quantized 10 v \<and> \<bar>v\<bar> < 10 ^ 10)
     [rec_estimated_total r, rec_billed_total r, rec_proration_factor r, rec_drift_pct r]"

lemma recon_row_get [row_simps]:
  "row_get (recon_to_row t r) ''id'' = CStr (rec_id r)"
  "row_get (recon_to_row t r) ''tenant_id'' = CUuid t"
  "row_get (recon_to_row t r) ''created_at'' = CTime (rec_created_at r)"
  by (cases "rec_match_key r"; simp add: row_get_def recon_to_row_def)+

lemma has_match_key_row [row_simps]: "has_match_key k (recon_to_row t r) \<longleftrightarrow> rec_match_key r = k"
  by (cases "rec_match_key r"; cases k) (auto simp: has_match_key_def row_get_def recon_to_row_def)

lemma row_to_recon_to_row [row_simps]: "row_to_recon (recon_to_row t r) = Inr (r\<lparr>rec_tenant_id := t\<rparr>)"
  by (cases r; cases "rec_match_key r") (simp add: row_to_recon_def recon_to_row_def row_at_def)

lemma write_money_fits:
  assumes "money_exact numeric" and "recon_fits r"
  shows "write_money numeric RECON_MONEY (recon_to_row t r) = Inr (recon_to_row t r)"
  using assms by (cases "rec_match_key r") (simp add: write_money_def RECON_MONEY_def recon_to_row_def recon_fits_def
      money_exact_def)


abbreviation recon_row :: "reconciliation_record \<Rightarrow> row" where
  "recon_row r \<equiv> recon_to_row (rec_tenant_id r) r"

definition recon_rel :: "table \<Rightarrow> db \<Rightarrow> bool" where
  "recon_rel tbl d \<longleftrightarrow> tbl = map recon_row (db_reconciliation d) \<and>
     distinct (map (\<lambda>r. (rec_tenant_id r, rec_id r)) (db_reconciliation d))"

lemma recon_to_row_stamped: "recon_to_row t (r\<lparr>rec_tenant_id := u\<rparr>) = recon_to_row t r"
  by (simp add: recon_to_row_def)

lemma recon_rows_unique:
  "unique_on tenant_pk (map recon_row rs) \<longleftrightarrow> distinct (map (\<lambda>r. (rec_tenant_id r, rec_id r)) rs)"
  by (induction rs) (auto simp: agree_def tenant_pk_def row_simps)

lemma recon_append_step:
  assumes "money_exact numeric" and "recon_fits r" and "recon_rel tbl d"
  shows "(\<exists>e. recon_row_append numeric (t, r) tbl = Inl e \<and> recon_append d t r = Inl e) \<or>
    (\<exists>tbl' d'. recon_row_append numeric (t, r) tbl = Inr tbl' \<and> recon_append d t r = Inr d' \<and> recon_rel tbl' d')"
proof -
  let ?log = "db_reconciliation d @ [r\<lparr>rec_tenant_id := t\<rparr>]"
  have tbl: "tbl @ [recon_to_row t r] = map recon_row ?log"
    using assms(3) by (simp add: recon_rel_def recon_to_row_stamped)
  have w: "recon_row_append numeric (t, r) tbl = commit [tenant_pk] (map recon_row ?log)"
    using write_money_fits [OF assms(1,2), of t] by (simp add: recon_row_append_def insert_row_def tbl)
  let ?taken = "\<exists>q \<in> set (db_reconciliation d). rec_id q = rec_id r \<and> rec_tenant_id q = t"
  have d: "distinct (map (\<lambda>r. (rec_tenant_id r, rec_id r)) ?log) \<longleftrightarrow> \<not> ?taken"
    using assms(3) by (auto simp: recon_rel_def)
  then have u: "unique_on tenant_pk (map recon_row ?log) \<longleftrightarrow> \<not> ?taken" by (simp only: recon_rows_unique)
  show ?thesis
  proof (cases ?taken)
    case True
    with u show ?thesis unfolding w commit_def recon_append_def by simp
  next
    case False
    then have "recon_append d t r = Inr (d\<lparr>db_reconciliation := ?log\<rparr>)" by (auto simp: recon_append_def)
    moreover have "recon_rel (map recon_row ?log) (d\<lparr>db_reconciliation := ?log\<rparr>)"
      using d False by (simp add: recon_rel_def)
    ultimately show ?thesis using u False unfolding w commit_def by simp
  qed
qed

lemma recon_read:
  assumes "recon_rel tbl d"
  shows "recon_rows_for_key tbl t k = Inr (recon_list_for_match_key d t k)"
proof -
  have f: "filter (has_match_key k) (require_tenant t (map recon_row rs)) =
      map recon_row (filter (\<lambda>r. rec_tenant_id r = t \<and> rec_match_key r = k) rs)" for rs
    by (induction rs) (auto simp: require_tenant_def row_simps)
  have ins: "insort_key (\<lambda>r. - cell_time (row_get r ''created_at'')) (recon_row r) (map recon_row rs) =
      map recon_row (insort_key (\<lambda>r. - rec_created_at r) r rs)" for r rs
    by (induction rs) (auto simp: row_simps)
  have s: "sort_key (\<lambda>r. - cell_time (row_get r ''created_at'')) (map recon_row rs) =
      map recon_row (sort_key (\<lambda>r. - rec_created_at r) rs)" for rs
    by (induction rs) (simp_all add: ins)
  have "res_traverse row_to_recon (map recon_row rs) = Inr rs" for rs
    by (induction rs) (simp_all add: row_simps)
  with assms show ?thesis
    by (simp add: recon_rel_def recon_rows_for_key_def recon_list_for_match_key_def newest_first_def f s)
qed

text \<open>
  C35. Within the precision of the money columns, the rows of reconciliation records refine the
  append-only log. For a history whose records have amounts, factor and drift of at most ten
  decimals, below ten thousand million, and a column that keeps such values: the SQL table and
  the log refuse the same history with the same error, or both take it and answer every match
  key of every tenant alike, newest first. A true-up may compute a factor with more decimals;
  such a record is outside this property, and the next one shows what happens to it.
\<close>

theorem recon_rows_refine:
  assumes "money_exact numeric"
    and "list_all (\<lambda>(t, r). recon_fits r) ws"
  shows "case write_all (recon_row_append numeric) ws [] of
      Inl e \<Rightarrow> write_all (\<lambda>(t, r) d. recon_append d t r) ws empty_db = Inl e
    | Inr tbl \<Rightarrow> \<exists>d. write_all (\<lambda>(t, r) d. recon_append d t r) ws empty_db = Inr d \<and>
        (\<forall>t k. recon_rows_for_key tbl t k = Inr (recon_list_for_match_key d t k))"
proof -
  have "case write_all (recon_row_append numeric) ws tbl of
      Inl e \<Rightarrow> write_all (\<lambda>(t, r) d. recon_append d t r) ws d = Inl e
    | Inr tbl' \<Rightarrow> \<exists>d'. write_all (\<lambda>(t, r) d. recon_append d t r) ws d = Inr d' \<and> recon_rel tbl' d'"
    if "recon_rel tbl d" for tbl d
    using that assms(2)
  proof (induction ws arbitrary: tbl d)
    case (Cons w ws)
    obtain t r where w: "w = (t, r)" by (cases w)
    with Cons.prems have fits: "recon_fits r" "list_all (\<lambda>(t, r). recon_fits r) ws" by auto
    from recon_append_step [OF assms(1) fits(1) Cons.prems(1), of t] show ?case
    proof (elim disjE exE conjE)
      fix tbl' d' assume step: "recon_row_append numeric (t, r) tbl = Inr tbl'" "recon_append d t r = Inr d'" "recon_rel tbl' d'"
      have "write_all (recon_row_append numeric) (w # ws) tbl = write_all (recon_row_append numeric) ws tbl'"
        "write_all (\<lambda>(t, r) d. recon_append d t r) (w # ws) d = write_all (\<lambda>(t, r) d. recon_append d t r) ws d'"
        by (simp_all add: w step)
      then show ?thesis using Cons.IH [OF step(3) fits(2)] by (simp only:)
    qed (simp add: w)
  qed simp
  moreover have "recon_rel [] empty_db" by (simp add: recon_rel_def empty_db_def)
  ultimately show ?thesis using recon_read by (fastforce split: sum.splits)
qed


definition sample_record :: reconciliation_record where
  "sample_record = \<lparr>rec_tenant_id = ''t'', rec_id = ''x'', rec_match_key = sample_key, rec_estimated_total = 2,
     rec_billed_total = 2, rec_proration_factor = 1, rec_drift_pct = 0, rec_drift_cause_ranked = [], rec_created_at = 0\<rparr>"

lemma quantize_money_exact: "money_exact (quantize 10)"
  unfolding money_exact_def
proof (intro allI impI)
  fix v :: rat
  assume q: "quantized 10 v" and b: "\<bar>v\<bar> < 10 ^ 10"
  obtain n where n: "v = of_int n / 10 ^ 10" using q by (auto simp: quantized_def)
  have "\<bar>v\<bar> * 10 ^ 10 < 10 ^ 10 * 10 ^ 10" by (rule mult_strict_right_mono [OF b]) simp
  then have "\<bar>of_int n :: rat\<bar> < of_int (10 ^ 20)" by (simp add: n abs_mult)
  then have "\<bar>n\<bar> < 10 ^ 20" by (simp only: of_int_abs [symmetric] of_int_less_iff)
  then show "quantize 10 v = Inr v" by (simp add: quantize_def n)
qed

theorem recon_rows_refine_witness:
  "\<exists>tbl. write_all (recon_row_append (quantize 10)) [(''t'', sample_record)] [] = Inr tbl \<and>
    recon_rows_for_key tbl ''t'' sample_key = Inr [sample_record]"
proof -
  have "quantized 10 (of_int n :: rat)" for n
    unfolding quantized_def by (rule exI [of _ "n * 10 ^ 10"]) simp
  from this [of 2] this [of 1] have "list_all (\<lambda>(t, r). recon_fits r) [(''t'', sample_record)]"
    by (simp add: recon_fits_def sample_record_def)
  note ref = recon_rows_refine [OF quantize_money_exact this]
  have log: "write_all (\<lambda>(t, r) d. recon_append d t r) [(''t'', sample_record)] empty_db =
      Inr (empty_db\<lparr>db_reconciliation := [sample_record]\<rparr>)"
    by (simp add: recon_append_def empty_db_def sample_record_def)
  have "\<exists>tbl. write_all (recon_row_append (quantize 10)) [(''t'', sample_record)] [] = Inr tbl \<and>
      (\<forall>t k. recon_rows_for_key tbl t k =
        Inr (recon_list_for_match_key (empty_db\<lparr>db_reconciliation := [sample_record]\<rparr>) t k))"
    using ref unfolding log
    by (cases "write_all (recon_row_append (quantize 10)) [(''t'', sample_record)] []") (simp_all del: split_paired_All)
  then show ?thesis
    by (elim ex_forward) (simp add: recon_list_for_match_key_def newest_first_def sample_record_def sample_key_def)
qed

text \<open>What the type lets a column hold: ten decimals.\<close>

definition money_scaled :: "(rat \<Rightarrow> rat res) \<Rightarrow> bool" where
  "money_scaled numeric \<longleftrightarrow> (\<forall>v w. numeric v = Inr w \<longrightarrow> quantized 10 w)"

definition factor_quantized :: "row \<Rightarrow> bool" where
  "factor_quantized row \<longleftrightarrow> (\<exists>v. row_at row ''proration_factor'' = Inr (CDec v) \<and> quantized 10 v)"

lemma written_factor:
  assumes "money_scaled numeric" and "write_money numeric RECON_MONEY (recon_to_row t r) = Inr row"
  shows "factor_quantized row"
  using assms by (cases "rec_match_key r")
    (auto simp: write_money_def RECON_MONEY_def recon_to_row_def row_at_def factor_quantized_def money_scaled_def)

lemma written_factors:
  assumes "money_scaled numeric" and "write_all (recon_row_append numeric) ws tbl = Inr tbl'"
    and "list_all factor_quantized tbl"
  shows "list_all factor_quantized tbl'"
  using assms(2,3)
proof (induction ws arbitrary: tbl)
  case (Cons w ws)
  obtain t r where w: "w = (t, r)" by (cases w)
  then obtain row where row: "write_money numeric RECON_MONEY (recon_to_row t r) = Inr row"
    "write_all (recon_row_append numeric) ws (tbl @ [row]) = Inr tbl'"
    using Cons.prems(1) by (auto simp: recon_row_append_def insert_row_def commit_def split: if_splits)
  show ?case
    by (rule Cons.IH [OF row(2)]) (use Cons.prems(2) written_factor [OF assms(1) row(1)] in simp)
qed simp

lemma row_to_recon_factor:
  "row_to_recon row = Inr r \<Longrightarrow> factor_quantized row \<Longrightarrow> quantized 10 (rec_proration_factor r)"
  by (auto simp: row_to_recon_def factor_quantized_def)

text \<open>
  C36. The proration factor of an ordinary true-up does not survive storage: the column keeps ten
  decimals of a factor the service computes to twenty-eight digits. Whenever the quotient of
  the billed and the estimated total has more than ten decimals, the record the service returned
  is not among the records read back for its match key, whatever history was stored.
\<close>

theorem proration_factor_not_stored:
  assumes "money_scaled numeric"
    and "reconcile_match_key d t k rows billed new_id now = Inr (o', d')"
    and "0 < dsum (map er_estimated_usd rows)" and "\<not> quantized 10 (ddiv billed (dsum (map er_estimated_usd rows)))"
    and "write_all (recon_row_append numeric) ws [] = Inr tbl" and "recon_rows_for_key tbl t k = Inr rs"
  shows "ro_record o' \<notin> set rs"
proof
  assume "ro_record o' \<in> set rs"
  then obtain row where row: "row \<in> set tbl" "row_to_recon row = Inr (ro_record o')"
    using assms(6) res_traverse_member by (fastforce simp: recon_rows_for_key_def require_tenant_def)
  have "factor_quantized row"
    using written_factors [OF assms(1,5)] row(1) by (simp add: list_all_iff)
  then have "quantized 10 (rec_proration_factor (ro_record o'))" by (rule row_to_recon_factor [OF row(2)])
  moreover have "rec_proration_factor (ro_record o') = ddiv billed (dsum (map er_estimated_usd rows))"
    using assms(2,3) by (auto simp: reconcile_match_key_def proration_factor_def Let_def split: if_splits)
  ultimately show False using assms(4) by simp
qed

lemma third_not_quantized: "\<not> quantized 10 (ddiv 10 3)"
proof
  assume "quantized 10 (ddiv 10 3)"
  then obtain n where n: "ddiv 10 3 = of_int n / 10 ^ 10" by (auto simp: quantized_def)
  have "ddiv 10 3 = 3333333333333333333333333333 / 10 ^ 27" by code_simp
  with n have "(of_int (n * 10 ^ 17) :: rat) = of_int 3333333333333333333333333333" by simp
  then have "n * 10 ^ 17 = 3333333333333333333333333333" by (simp only: of_int_eq_iff)
  then have "(n * 10000000000000000) * 10 = 3333333333333333333333333333" by simp
  then have "3333333333333333333333333333 mod 10 = (0 :: int)" by (metis mod_mult_self2_is_0)
  then show False by simp
qed

definition truncate :: "rat \<Rightarrow> rat" where
  "truncate v = of_int \<lfloor>v * 10 ^ 10\<rfloor> / 10 ^ 10"

lemma write_truncated:
  "write_money (\<lambda>v. Inr (truncate v)) RECON_MONEY (recon_to_row t r) =
     Inr (recon_to_row t (r\<lparr>rec_estimated_total := truncate (rec_estimated_total r),
       rec_billed_total := truncate (rec_billed_total r), rec_proration_factor := truncate (rec_proration_factor r),
       rec_drift_pct := truncate (rec_drift_pct r)\<rparr>))"
  by (cases "rec_match_key r") (simp add: write_money_def RECON_MONEY_def recon_to_row_def)

lemma one_row_read:
  assumes "rec_match_key r = k"
  shows "recon_rows_for_key [recon_to_row t r] t k = Inr [r\<lparr>rec_tenant_id := t\<rparr>]"
  using assms by (simp add: recon_rows_for_key_def require_tenant_def row_simps)

theorem proration_factor_not_stored_witness:
  "\<exists>o' d' tbl rs. reconcile_match_key empty_db ''t'' sample_key sample_estimates 10 ''x'' 0 = Inr (o', d') \<and>
    write_all (recon_row_append (\<lambda>v. Inr (truncate v))) [(''t'', ro_record o')] [] = Inr tbl \<and>
    recon_rows_for_key tbl ''t'' sample_key = Inr rs \<and> rs \<noteq> [] \<and> ro_record o' \<notin> set rs"
proof -
  obtain o' d' where r: "reconcile_match_key empty_db ''t'' sample_key sample_estimates 10 ''x'' 0 = Inr (o', d')"
    and k: "rec_match_key (ro_record o') = sample_key"
    using reconcile_match_key_sums [OF sample_reconcile, of sample_key 0] by blast
  have q: "money_scaled (\<lambda>v. Inr (truncate v))"
    unfolding money_scaled_def quantized_def truncate_def by blast
  have three: "dsum (map er_estimated_usd sample_estimates) = 3" unfolding sample_estimates_def by code_simp
  obtain tbl r' where w: "write_all (recon_row_append (\<lambda>v. Inr (truncate v))) [(''t'', ro_record o')] [] = Inr tbl"
    and tbl: "tbl = [recon_to_row ''t'' r']" "rec_match_key r' = sample_key"
    using k by (simp add: recon_row_append_def write_truncated insert_row_def commit_def)
  have read: "recon_rows_for_key tbl ''t'' sample_key = Inr [r'\<lparr>rec_tenant_id := ''t''\<rparr>]"
    unfolding tbl(1) by (rule one_row_read [OF tbl(2)])
  have "0 < dsum (map er_estimated_usd sample_estimates)"
    "\<not> quantized 10 (ddiv 10 (dsum (map er_estimated_usd sample_estimates)))"
    using third_not_quantized by (simp_all add: three)
  from proration_factor_not_stored [OF q r this w read] r w read show ?thesis by blast
qed

end
