(* ===== verification/Python_Regex.thy ===== *)
theory Python_Regex
  imports Python_Text
begin

text \<open>
  The part of \<open>re\<close> the program uses: literals, character classes with a greedy count,
  sequence, alternation and the word boundary, on ASCII text.

  A pattern runs at a position, the character before it and the text after it, and returns
  the positions where it can stop in the order the backtracking matcher tries them, so the
  head of the list is the match. \<open>re_search\<close>, \<open>re_sub\<close> and \<open>re_spans\<close> are \<open>search\<close>, \<open>sub\<close>
  and \<open>finditer\<close> for patterns that never match the empty string: they scan from the left and
  continue after each match.

  The lemmas say what replacing text by a marker keeps: a pattern that cannot read a
  character never matches across it (\<open>re_run_cut\<close>), and a pattern absent from a text stays
  absent when parts of it are masked (locale \<open>masked_pattern\<close>).
\<close>

section \<open>Patterns and positions\<close>

datatype regex =
    REps
  | RSet "char \<Rightarrow> bool" nat "nat option"
  | RSeq regex regex
  | RAlt regex regex
  | RBoundary

type_synonym position = "char option \<times> string"

definition advance :: "nat \<Rightarrow> char option \<Rightarrow> string \<Rightarrow> position" where
  "advance j p s = (if j = 0 then p else Some (s ! (j - 1)), drop j s)"

definition is_word :: "char \<Rightarrow> bool" where
  "is_word c \<longleftrightarrow> (CHR ''a'' \<le> c \<and> c \<le> CHR ''z'') \<or> (CHR ''A'' \<le> c \<and> c \<le> CHR ''Z'') \<or> is_digit c
     \<or> c = CHR ''_''"

definition at_boundary :: "char option \<Rightarrow> string \<Rightarrow> bool" where
  "at_boundary p s \<longleftrightarrow>
     (case p of None \<Rightarrow> False | Some c \<Rightarrow> is_word c) \<noteq> (case s of [] \<Rightarrow> False | c # _ \<Rightarrow> is_word c)"

definition greedy_counts :: "nat \<Rightarrow> nat option \<Rightarrow> nat \<Rightarrow> nat list" where
  "greedy_counts lo hi k = rev [lo..<Suc (case hi of None \<Rightarrow> k | Some h \<Rightarrow> min h k)]"

primrec re_run :: "regex \<Rightarrow> char option \<Rightarrow> string \<Rightarrow> position list" where
  "re_run REps p s = [(p, s)]"
| "re_run (RSet P lo hi) p s =
     map (\<lambda>j. advance j p s) (greedy_counts lo hi (length (takeWhile P s)))"
| "re_run (RSeq a b) p s = concat (map (\<lambda>(q, t). re_run b q t) (re_run a p s))"
| "re_run (RAlt a b) p s = re_run a p s @ re_run b p s"
| "re_run RBoundary p s = (if at_boundary p s then [(p, s)] else [])"

definition one_of :: "(char \<Rightarrow> bool) \<Rightarrow> regex" where
  "one_of P = RSet P 1 (Some 1)"

primrec re_text :: "string \<Rightarrow> regex" where
  "re_text [] = REps"
| "re_text (c # cs) = RSeq (one_of (\<lambda>d. d = c)) (re_text cs)"

text \<open>A literal under \<open>(?i)\<close>, given in lower case.\<close>

primrec ci_text :: "string \<Rightarrow> regex" where
  "ci_text [] = REps"
| "ci_text (c # cs) = RSeq (one_of (\<lambda>d. lower_char d = c)) (ci_text cs)"

section \<open>Search, substitution, iteration\<close>

fun re_search :: "regex \<Rightarrow> char option \<Rightarrow> string \<Rightarrow> bool" where
  "re_search r p [] = (re_run r p [] \<noteq> [])"
| "re_search r p (c # s) = (re_run r p (c # s) \<noteq> [] \<or> re_search r (Some c) s)"

text \<open>The scan of \<open>sub\<close>: the matcher gives the replacement and the position after a match.\<close>

function scan_sub :: "(char option \<Rightarrow> string \<Rightarrow> (string \<times> position) option) \<Rightarrow> char option \<Rightarrow> string \<Rightarrow> string" where
  "scan_sub m p [] = []"
| "scan_sub m p (c # s) =
     (case m p (c # s) of
        None \<Rightarrow> c # scan_sub m (Some c) s
      | Some (new, q, t) \<Rightarrow>
          if length t \<le> length s then new @ scan_sub m q t else c # scan_sub m (Some c) s)"
  by pat_completeness auto
termination by (relation "measure (\<lambda>(m, p, s). length s)") auto

definition re_matcher :: "regex \<Rightarrow> string \<Rightarrow> char option \<Rightarrow> string \<Rightarrow> (string \<times> position) option" where
  "re_matcher r new p s = (case re_run r p s of [] \<Rightarrow> None | pos # _ \<Rightarrow> Some (new, pos))"

definition re_sub :: "regex \<Rightarrow> string \<Rightarrow> string \<Rightarrow> string" where
  "re_sub r new s = scan_sub (re_matcher r new) None s"

function re_spans :: "regex \<Rightarrow> char option \<Rightarrow> nat \<Rightarrow> string \<Rightarrow> (nat \<times> nat) list" where
  "re_spans r p i [] = []"
| "re_spans r p i (c # s) =
     (case re_run r p (c # s) of
        [] \<Rightarrow> re_spans r (Some c) (Suc i) s
      | (q, t) # _ \<Rightarrow>
          if length t \<le> length s
          then (let j = i + (Suc (length s) - length t) in (i, j) # re_spans r q j t)
          else re_spans r (Some c) (Suc i) s)"
  by pat_completeness auto
termination by (relation "measure (\<lambda>(r, p, i, s). length s)") auto

section \<open>Matches and barriers\<close>

lemma re_search_Nil [simp]: "re_search r p [] \<longleftrightarrow> re_run r p [] \<noteq> []"
  by simp

text \<open>A pattern that reads no \<open>c\<close> and looks at no boundary.\<close>

primrec avoids :: "char \<Rightarrow> regex \<Rightarrow> bool" where
  "avoids c REps = True"
| "avoids c (RSet P lo hi) = (\<not> P c)"
| "avoids c (RSeq a b) = (avoids c a \<and> avoids c b)"
| "avoids c (RAlt a b) = (avoids c a \<and> avoids c b)"
| "avoids c RBoundary = False"

lemma avoids_text [simp]: "avoids c (re_text s) \<longleftrightarrow> c \<notin> set s"
  by (induction s) (auto simp: one_of_def)

lemma avoids_one_of [simp]: "avoids c (one_of P) \<longleftrightarrow> \<not> P c"
  by (simp add: one_of_def)

lemma re_text_run:
  "re_run (re_text w) p s = (if take (length w) s = w then [advance (length w) p s] else [])"
proof (induction w arbitrary: p s)
  case (Cons c w)
  show ?case
  proof (cases s)
    case Nil
    then show ?thesis by (simp add: one_of_def greedy_counts_def)
  next
    case (Cons d s')
    have "re_run (one_of (\<lambda>d. d = c)) p (d # s') = (if d = c then [(Some d, s')] else [])"
      by (simp add: one_of_def greedy_counts_def advance_def)
    with Cons show ?thesis by (simp add: Cons.IH advance_def nth_Cons')
  qed
qed (simp add: advance_def)

text \<open>How much a match reads at least.\<close>

primrec min_read :: "regex \<Rightarrow> nat" where
  "min_read REps = 0"
| "min_read (RSet P lo hi) = lo"
| "min_read (RSeq a b) = min_read a + min_read b"
| "min_read (RAlt a b) = min (min_read a) (min_read b)"
| "min_read RBoundary = 0"

lemma min_read_text [simp]: "min_read (re_text w) = length w"
  by (induction w) (simp_all add: one_of_def)

lemma min_read_one_of [simp]: "min_read (one_of P) = 1"
  by (simp add: one_of_def)

lemma takeWhile_barrier: "\<not> P c \<Longrightarrow> takeWhile P (x @ c # y) = takeWhile P x"
  by (induction x) auto

lemma greedy_counts_set:
  "j \<in> set (greedy_counts lo hi k) \<longleftrightarrow> lo \<le> j \<and> j \<le> k \<and> (case hi of None \<Rightarrow> True | Some h \<Rightarrow> j \<le> h)"
  by (auto simp: greedy_counts_def split: option.splits)

lemma advance_append: "j \<le> length x \<Longrightarrow> advance j p (x @ y) = (fst (advance j p x), drop j x @ y)"
  by (auto simp: advance_def nth_append)

lemma takeWhile_append_length: "length (takeWhile P x) \<le> length (takeWhile P (x @ z))"
  by (induction x) auto

lemma re_run_min_read: "(q, t) \<in> set (re_run r p s) \<Longrightarrow> length t + min_read r \<le> length s"
proof (induction r arbitrary: p q s t)
  case (RSet P lo hi)
  then obtain j where "lo \<le> j" "j \<le> length (takeWhile P s)" "t = drop j s"
    by (auto simp: greedy_counts_set advance_def)
  with length_takeWhile_le [of P s] show ?case by simp
next
  case (RSeq a b)
  then obtain q1 t1 where 1: "(q1, t1) \<in> set (re_run a p s)" "(q, t) \<in> set (re_run b q1 t1)" by auto
  with RSeq.IH(1) [OF 1(1)] RSeq.IH(2) [OF 1(2)] show ?case by simp
next
  case (RAlt a b)
  then consider "(q, t) \<in> set (re_run a p s)" | "(q, t) \<in> set (re_run b p s)" by auto
  then have "length t + min_read a \<le> length s \<or> length t + min_read b \<le> length s"
    using RAlt.IH by cases blast+
  then show ?case by auto
qed (auto split: if_splits)

lemma re_run_cut:
  assumes "avoids c r" "(q, t) \<in> set (re_run r p (x @ c # y))"
  shows "\<exists>x'. t = x' @ c # y \<and> (q, x' @ z) \<in> set (re_run r p (x @ z))"
  using assms
proof (induction r arbitrary: p q t x)
  case (RSet P lo hi)
  then obtain j where j: "j \<in> set (greedy_counts lo hi (length (takeWhile P x)))"
    "(q, t) = advance j p (x @ c # y)"
    by (auto simp: takeWhile_barrier)
  then have le: "j \<le> length x"
    using length_takeWhile_le [of P x] by (auto simp: greedy_counts_set)
  have "j \<in> set (greedy_counts lo hi (length (takeWhile P (x @ z))))"
    using j(1) takeWhile_append_length [of P x z] by (auto simp: greedy_counts_set)
  then have "advance j p (x @ z) \<in> set (re_run (RSet P lo hi) p (x @ z))" by simp
  then show ?case using j(2) by (auto simp: advance_append [OF le])
next
  case (RSeq a b)
  then obtain q1 t1 where 1: "(q1, t1) \<in> set (re_run a p (x @ c # y))" "(q, t) \<in> set (re_run b q1 t1)"
    by auto
  have av: "avoids c a" "avoids c b" using RSeq.prems(1) by simp_all
  from RSeq.IH(1) [OF av(1) 1(1)]
  obtain x1 where x1: "t1 = x1 @ c # y" "(q1, x1 @ z) \<in> set (re_run a p (x @ z))" by blast
  from RSeq.IH(2) [OF av(2)] 1(2) x1(1)
  obtain x2 where x2: "t = x2 @ c # y" "(q, x2 @ z) \<in> set (re_run b q1 (x1 @ z))" by blast
  have "(q, x2 @ z) \<in> set (re_run (RSeq a b) p (x @ z))" using x1(2) x2(2) by force
  with x2(1) show ?case by blast
next
  case (RAlt a b)
  then consider "(q, t) \<in> set (re_run a p (x @ c # y))" | "(q, t) \<in> set (re_run b p (x @ c # y))" by auto
  then show ?case
  proof cases
    case 1
    then show ?thesis using RAlt.IH(1) [of q t p x] RAlt.prems(1) by (auto simp del: re_run.simps(2))
  next
    case 2
    then show ?thesis using RAlt.IH(2) [of q t p x] RAlt.prems(1) by (auto simp del: re_run.simps(2))
  qed
qed simp_all

lemma re_run_prev: "avoids c r \<Longrightarrow> (re_run r p s = []) = (re_run r q s = [])"
proof -
  have "avoids c r \<Longrightarrow> map snd (re_run r p s) = map snd (re_run r q s)"
  proof (induction r arbitrary: p q s)
    case (RSeq a b)
    have "map snd (concat (map (\<lambda>(q, t). re_run b q t) xs)) = map snd (concat (map (\<lambda>(q, t). re_run b q t) ys))"
      if "map snd xs = map snd ys" for xs ys
      using that
    proof (induction xs arbitrary: ys)
      case (Cons x xs)
      then obtain y ys' where y: "ys = y # ys'" "snd x = snd y" "map snd xs = map snd ys'" by (cases ys) auto
      have "map snd (re_run b (fst x) (snd x)) = map snd (re_run b (fst y) (snd x))"
        using RSeq.IH(2) RSeq.prems by simp
      with y Cons.IH [OF y(3)] show ?case by (simp add: case_prod_beta)
    qed simp
    moreover have "map snd (re_run a p s) = map snd (re_run a q s)" using RSeq by simp
    ultimately show ?case unfolding re_run.simps by blast
  next
    case (RAlt a b)
    then have "map snd (re_run a p s) = map snd (re_run a q s)" "map snd (re_run b p s) = map snd (re_run b q s)"
      by simp_all
    then show ?case by simp
  qed (simp_all add: advance_def comp_def)
  moreover assume "avoids c r"
  ultimately show ?thesis by (metis map_is_Nil_conv)
qed

lemma re_search_prev: "avoids c r \<Longrightarrow> re_search r p s = re_search r q s"
  using re_run_prev [of c r p s q] by (cases s) simp_all

lemma re_run_extend:
  assumes "avoids c r" "(q, t) \<in> set (re_run r p x)"
  shows "(q, t @ z) \<in> set (re_run r p (x @ z))"
  using assms
proof (induction r arbitrary: p q t x)
  case (RSet P lo hi)
  then obtain j where j: "j \<in> set (greedy_counts lo hi (length (takeWhile P x)))" "(q, t) = advance j p x" by auto
  then have le: "j \<le> length x" using length_takeWhile_le [of P x] by (auto simp: greedy_counts_set)
  have "j \<in> set (greedy_counts lo hi (length (takeWhile P (x @ z))))"
    using j(1) takeWhile_append_length [of P x z] by (auto simp: greedy_counts_set)
  then have "advance j p (x @ z) \<in> set (re_run (RSet P lo hi) p (x @ z))" by simp
  moreover have "advance j p (x @ z) = (q, t @ z)" using j(2) by (simp add: advance_append [OF le]) (simp add: advance_def)
  ultimately show ?case by simp
next
  case (RSeq a b)
  then obtain q1 t1 where 1: "(q1, t1) \<in> set (re_run a p x)" "(q, t) \<in> set (re_run b q1 t1)" by auto
  have av: "avoids c a" "avoids c b" using RSeq.prems(1) by simp_all
  from RSeq.IH(1) [OF av(1) 1(1)] RSeq.IH(2) [OF av(2) 1(2)] show ?case by force
next
  case (RAlt a b)
  then consider "(q, t) \<in> set (re_run a p x)" | "(q, t) \<in> set (re_run b p x)" by auto
  then show ?case
  proof cases
    case 1
    with RAlt.IH(1) RAlt.prems(1) show ?thesis by (simp del: re_run.simps(2))
  next
    case 2
    with RAlt.IH(2) RAlt.prems(1) show ?thesis by (simp del: re_run.simps(2))
  qed
qed simp_all

lemma re_search_extend:
  assumes "avoids c r" "re_search r p x"
  shows "re_search r p (x @ z)"
proof -
  have run: "re_run r p (y @ z) \<noteq> []" if "re_run r p y \<noteq> []" for p y
  proof -
    obtain q t where "(q, t) \<in> set (re_run r p y)" using \<open>re_run r p y \<noteq> []\<close> by (cases "re_run r p y") auto
    from re_run_extend [OF assms(1) this, of z] show ?thesis by auto
  qed
  from assms(2) show ?thesis
  proof (induction x arbitrary: p)
    case Nil
    with run [of p "[]"] have "re_run r p z \<noteq> []" by simp
    then show ?case by (cases z) simp_all
  next
    case (Cons a x)
    with run [of p "a # x"] show ?case by auto
  qed
qed

lemma re_search_append:
  "re_search r p (x @ y) \<Longrightarrow> (\<And>x1 x2 q. x = x1 @ x2 \<Longrightarrow> x2 \<noteq> [] \<Longrightarrow> re_run r q (x2 @ y) = [])
     \<Longrightarrow> \<exists>q. re_search r q y"
proof (induction x arbitrary: p)
  case (Cons c x)
  have "re_run r p (c # x @ y) = []" using Cons.prems(2) [of "[]" "c # x" p] by simp
  then have "re_search r (Some c) (x @ y)" using Cons.prems(1) by simp
  moreover have "re_run r q (x2 @ y) = []" if "x = x1 @ x2" "x2 \<noteq> []" for x1 x2 q
    using Cons.prems(2) [of "c # x1" x2 q] that by simp
  ultimately show ?case using Cons.IH by blast
qed auto

section \<open>Masked text\<close>

text \<open>\<open>masked u s t\<close>: \<open>t\<close> is \<open>s\<close> with disjoint parts replaced by the marker \<open>u\<close>.\<close>

inductive masked :: "string \<Rightarrow> string \<Rightarrow> string \<Rightarrow> bool" for u where
  masked_Nil: "masked u [] []"
| masked_keep: "masked u s t \<Longrightarrow> masked u (c # s) (c # t)"
| masked_hide: "masked u s t \<Longrightarrow> masked u (x @ s) (u @ t)"

lemma masked_refl [simp]: "masked u s s"
  by (induction s) (auto intro: masked.intros)

lemma masked_append: "masked u a b \<Longrightarrow> masked u c d \<Longrightarrow> masked u (a @ c) (b @ d)"
proof (induction rule: masked.induct)
  case (masked_hide s t x)
  then have "masked u (x @ (s @ c)) (u @ (t @ d))" by (intro masked.masked_hide) simp
  then show ?case by simp
qed (auto intro: masked.intros)

lemma masked_whole: "masked u s u"
  using masked_hide [OF masked_Nil, of u s] by simp

lemma masked_first:
  assumes "masked u s t"
  shows "s = t \<or> (\<exists>x s' t'. s = x @ s' \<and> t = x @ u @ t')"
  using assms
proof (induction rule: masked.induct)
  case (masked_keep s t c)
  then show ?case by (metis append_Cons)
next
  case (masked_hide s t x)
  then show ?case by (metis append_Nil)
qed simp

lemma masked_replace: "old \<noteq> [] \<Longrightarrow> masked u s (replace_str old u s)"
proof (induction old u s rule: replace_str.induct)
  case (2 old new c cs)
  show ?case
  proof (cases "take (length old) (c # cs) = old")
    case True
    have "c # cs = old @ drop (length old - 1) cs"
      using True \<open>old \<noteq> []\<close> by (metis append_take_drop_id drop_Cons' length_greater_0_conv not_gr0)
    moreover have "masked new (old @ drop (length old - 1) cs) (new @ replace_str old new (drop (length old - 1) cs))"
      by (rule masked_hide) (use 2 True in simp)
    ultimately have "masked new (c # cs) (new @ replace_str old new (drop (length old - 1) cs))" by argo
    then show ?thesis using True by simp
  qed (use 2 in \<open>auto intro: masked.intros\<close>)
qed (auto intro: masked.intros)

lemma scan_sub_masked:
  assumes "\<And>p s new q t. m p s = Some (new, q, t) \<Longrightarrow> \<exists>x. s = x @ t \<and> masked u x new"
  shows "masked u s (scan_sub m p s)"
  using assms
proof (induction m p s rule: scan_sub.induct [case_names Nil Cons])
  case (Cons m p c s)
  show ?case
  proof (cases "m p (c # s)")
    case (Some r)
    obtain new q t where r: "r = (new, q, t)" by (cases r)
    show ?thesis
    proof (cases "length t \<le> length s")
      case True
      obtain x where x: "c # s = x @ t" "masked u x new" using Cons.prems [of p "c # s"] Some r by blast
      have "masked u t (scan_sub m q t)" using Cons.IH(2) [OF Some r [symmetric] refl True] Cons.prems by blast
      then have "masked u (x @ t) (new @ scan_sub m q t)" by (rule masked_append [OF x(2)])
      then have "masked u (c # s) (new @ scan_sub m q t)" using x(1) by simp
      then show ?thesis using Some r True by simp
    next
      case False
      then show ?thesis using Cons.IH(3) [OF Some r [symmetric] refl False] Cons.prems Some r by (simp add: masked_keep)
    qed
  qed (use Cons.IH(1) Cons.prems in \<open>auto intro: masked_keep\<close>)
qed simp

lemma re_run_suffix: "(q, t) \<in> set (re_run r p s) \<Longrightarrow> \<exists>x. s = x @ t"
proof (induction r arbitrary: p q s t)
  case (RSet P lo hi)
  then show ?case by (auto simp: advance_def) (metis append_take_drop_id)
next
  case (RSeq a b)
  then obtain q1 t1 where "(q1, t1) \<in> set (re_run a p s)" "(q, t) \<in> set (re_run b q1 t1)" by auto
  then obtain x1 x2 where "s = x1 @ t1" "t1 = x2 @ t" using RSeq.IH by blast
  then show ?case by simp
qed (auto split: if_splits)

lemma re_matcher_suffix:
  "re_matcher r u p s = Some (new, q, t) \<Longrightarrow> \<exists>x. s = x @ t \<and> masked u x new"
  using re_run_suffix [of q t r p s]
  by (auto simp: re_matcher_def masked_whole split: list.splits)

lemma re_sub_masked: "masked u s (re_sub r u s)"
  unfolding re_sub_def by (rule scan_sub_masked) (rule re_matcher_suffix)

lemma re_sub_absent: "\<not> re_search r p s \<Longrightarrow> scan_sub (re_matcher r u) p s = s"
  by (induction s arbitrary: p) (auto simp: re_matcher_def)

text \<open>
  What a pattern and a marker must satisfy for a masked text to stay free of the pattern: the
  pattern cannot read the first character of the marker, no match starts inside the marker,
  and a match is never empty.
\<close>

locale masked_pattern =
  fixes r :: regex and u :: string
  assumes marker: "u \<noteq> []" "avoids (hd u) r"
    and no_start: "i < length u \<Longrightarrow> re_run r p (drop i u @ t) = []"
    and consumes: "(q, t) \<in> set (re_run r p s) \<Longrightarrow> length t < length s"
begin

lemma search_prev: "re_search r p s \<Longrightarrow> re_search r q s"
  using re_search_prev [OF marker(2)] by blast

lemma match_masked:
  assumes "masked u s t" "re_run r p t \<noteq> []"
  shows "re_run r p s \<noteq> []"
  using masked_first [OF assms(1)]
proof (elim disjE exE conjE)
  fix x s' t'
  assume st: "s = x @ s'" "t = x @ u @ t'"
  obtain q z where "(q, z) \<in> set (re_run r p (x @ hd u # tl u @ t'))"
    using assms(2) marker(1) unfolding st by (cases u) (fastforce simp: neq_Nil_conv)+
  from re_run_cut [OF marker(2) this, of s'] show ?thesis unfolding st by auto
qed (use assms(2) in simp)

lemma search_marker: "re_search r p (u @ t) \<Longrightarrow> re_search r q t"
proof -
  assume s: "re_search r p (u @ t)"
  have "re_run r p' (x2 @ t) = []" if "u = x1 @ x2" "x2 \<noteq> []" for x1 x2 p'
    using no_start [of "length x1" p' t] that by simp
  with re_search_append [OF s] search_prev show "re_search r q t" by blast
qed

lemma search_suffix: "re_search r p s \<Longrightarrow> re_search r q (x @ s)"
proof (induction x arbitrary: q)
  case Nil
  then show ?case using search_prev by simp
qed simp

lemma search_masked:
  assumes "masked u s t" "re_search r p t"
  shows "re_search r p s"
  using assms
proof (induction arbitrary: p rule: masked.induct)
  case (masked_keep s t c)
  have m: "masked u (c # s) (c # t)" using masked_keep.hyps by (rule masked.masked_keep)
  from masked_keep.prems consider "re_run r p (c # t) \<noteq> []" | "re_search r (Some c) t" by auto
  then show ?case
  proof cases
    case 1
    with match_masked [OF m] show ?thesis by simp
  next
    case 2
    with masked_keep.IH show ?thesis by simp
  qed
next
  case (masked_hide s t x)
  then show ?case using search_marker search_suffix by blast
qed

lemma sub_clean: "\<not> re_search r p (scan_sub (re_matcher r u) q s)"
proof (induction s arbitrary: p q rule: length_induct)
  case (1 s)
  show ?case
  proof (cases s)
    case Nil
    then show ?thesis using consumes [of _ _ p "[]"] by (cases "re_run r p []") auto
  next
    case (Cons c s')
    let ?out = "scan_sub (re_matcher r u) q (c # s')"
    show ?thesis
    proof (cases "re_run r q (c # s')")
      case Nil
      have out: "?out = c # scan_sub (re_matcher r u) (Some c) s'" using Nil by (simp add: re_matcher_def)
      have "masked u (c # s') ?out" by (rule scan_sub_masked) (rule re_matcher_suffix)
      then have "re_run r q ?out = []" using match_masked Nil by blast
      then have "re_run r p ?out = []" using re_run_prev [OF marker(2)] by blast
      moreover have "\<not> re_search r (Some c) (scan_sub (re_matcher r u) (Some c) s')" using 1 Cons by simp
      ultimately show ?thesis unfolding Cons out by simp
    next
      case (Cons pos _)
      obtain q' t where pos: "pos = (q', t)" by (cases pos)
      then have le: "length t \<le> length s'" using consumes [of q' t q "c # s'"] Cons by simp
      then have "?out = u @ scan_sub (re_matcher r u) q' t" using Cons pos by (simp add: re_matcher_def)
      moreover have "\<not> re_search r p (scan_sub (re_matcher r u) q' t)" using 1 \<open>s = c # s'\<close> le by simp
      ultimately show ?thesis using search_marker \<open>s = c # s'\<close> by metis
    qed
  qed
qed

end

end
