(* ===== verification/Onboarding_Redact.thy ===== *)
theory Onboarding_Redact
  imports Python_Regex Eval_Stats
begin

text \<open>
  Secret detection and redaction (\<open>packages/onboarding\<close>, \<open>redact.py\<close>, with the patterns of
  \<open>rules.py\<close>): the five key shapes, the assignment shape, and the entropy test for long runs.

  Text is ASCII. The logarithm of the C library is the parameter \<open>log2\<close>; \<open>float_sum\<close> is the
  compensated sum of Python 3.12.

  The main theorem: whatever the text, no key shape and no high-entropy run is left after
  \<open>redact\<close>. The assignment shape is left by design of the replacement, which the gate that
  follows does not know: two theorems record what that means.
\<close>

section \<open>Patterns\<close>

definition REDACTION_PLACEHOLDER :: string where
  "REDACTION_PLACEHOLDER = ''[REDACTED]''"

definition is_upper :: "char \<Rightarrow> bool" where
  "is_upper c \<longleftrightarrow> CHR ''A'' \<le> c \<and> c \<le> CHR ''Z''"

definition is_lower :: "char \<Rightarrow> bool" where
  "is_lower c \<longleftrightarrow> CHR ''a'' \<le> c \<and> c \<le> CHR ''z''"

definition key_char :: "char \<Rightarrow> bool" where
  "key_char c \<longleftrightarrow> is_word c \<or> c = CHR ''-''"

definition bearer_char :: "char \<Rightarrow> bool" where
  "bearer_char c \<longleftrightarrow> key_char c \<or> c = CHR ''.''"

definition admin_key :: regex where
  "admin_key = RSeq (re_text ''sk-ant-admin'') (RSeq (RSet is_digit 2 (Some 2)) (RSeq (re_text ''-'') (RSet key_char 6 None)))"

definition anthropic_key :: regex where
  "anthropic_key = RSeq (re_text ''sk-ant-'') (RSet key_char 6 None)"

definition openai_key :: regex where
  "openai_key = RSeq (re_text ''sk-'') (RSet key_char 16 None)"

definition aws_key :: regex where
  "aws_key = RSeq (re_text ''AKIA'') (RSet (\<lambda>c. is_digit c \<or> is_upper c) 16 (Some 16))"

definition bearer_token :: regex where
  "bearer_token = RSeq (re_text ''Bearer'') (RSeq (RSet is_space 1 None) (RSet bearer_char 16 None))"

definition REDACT_PREFIX_PATTERNS :: "regex list" where
  "REDACT_PREFIX_PATTERNS = [admin_key, anthropic_key, openai_key, aws_key, bearer_token]"

definition dash_opt :: regex where
  "dash_opt = RSet (\<lambda>c. c = CHR ''_'' \<or> c = CHR ''-'') 0 (Some 1)"

definition REDACT_SECRET_NAME_ALT :: regex where
  "REDACT_SECRET_NAME_ALT =
     RAlt (RSeq (ci_text ''api'') (RSeq dash_opt (ci_text ''key'')))
    (RAlt (ci_text ''secret'')
    (RAlt (ci_text ''password'')
    (RAlt (ci_text ''passwd'')
    (RAlt (ci_text ''token'')
    (RAlt (RSeq (ci_text ''auth'') (RSeq dash_opt (ci_text ''token'')))
    (RAlt (RSeq (ci_text ''access'') (RSeq dash_opt (ci_text ''key'')))
          (RSeq (ci_text ''client'') (RSeq dash_opt (ci_text ''secret'')))))))))"

text \<open>The assignment pattern in two parts, so that the group \<open>val\<close> is what the second reads.\<close>

definition assignment_head :: regex where
  "assignment_head =
     RSeq RBoundary (RSeq REDACT_SECRET_NAME_ALT (RSeq RBoundary
       (RSeq (RSet is_space 0 None)
       (RSeq (one_of (\<lambda>c. c = CHR '':'' \<or> c = CHR ''='')) (RSet is_space 0 None)))))"

definition quoted :: "char \<Rightarrow> regex" where
  "quoted d = RSeq (re_text [d]) (RSeq (RSet (\<lambda>c. c \<noteq> d) 6 None) (re_text [d]))"

definition assignment_val :: regex where
  "assignment_val = RAlt (quoted (CHR 0x22)) (RAlt (quoted (CHR 0x27))
     (RSet (\<lambda>c. \<not> is_space c \<and> c \<noteq> CHR 0x27 \<and> c \<noteq> CHR 0x22) 6 None))"

definition entropy_char :: "char \<Rightarrow> bool" where
  "entropy_char c \<longleftrightarrow> key_char c \<or> c = CHR ''+'' \<or> c = CHR ''=''"

definition REDACT_HIGH_ENTROPY_PATTERN :: regex where
  "REDACT_HIGH_ENTROPY_PATTERN = RSet entropy_char 40 None"

section \<open>Entropy\<close>

text \<open>\<open>sum\<close> of floats: Neumaier's running compensation, added at the end when it is not 0.\<close>

definition sum_step :: "rat \<times> rat \<Rightarrow> rat \<Rightarrow> rat \<times> rat" where
  "sum_step a x = (case a of (s, c) \<Rightarrow>
     let t = fadd s x in
     (t, fadd c (if \<bar>x\<bar> \<le> \<bar>s\<bar> then fadd (fsub s t) x else fadd (fsub x t) s)))"

definition float_sum :: "rat list \<Rightarrow> rat" where
  "float_sum xs = (case xs of [] \<Rightarrow> 0 | x # xs' \<Rightarrow>
     (case foldl sum_step (x, 0) xs' of (s, c) \<Rightarrow> if c = 0 then s else fadd s c))"

definition char_counts :: "string \<Rightarrow> (char, int) dict" where
  "char_counts token = foldl (\<lambda>d c. dict_set c ((case dict_get d c of None \<Rightarrow> 0 | Some n \<Rightarrow> n) + 1) d) [] token"

definition shannon_entropy :: "(rat \<Rightarrow> rat) \<Rightarrow> string \<Rightarrow> rat" where
  "shannon_entropy log2 token =
     (if token = [] then 0
      else - float_sum (map (\<lambda>(_, c). let f = fdiv (of_int c) (of_int (int (length token))) in fmul f (log2 f))
             (char_counts token)))"

definition is_high_entropy_secret :: "(rat \<Rightarrow> rat) \<Rightarrow> string \<Rightarrow> bool" where
  "is_high_entropy_secret log2 token =
     (if length token < 40 then False
      else if \<not> (list_ex is_upper token \<and> list_ex is_lower token \<and> list_ex is_digit token) then False
      else shannon_entropy log2 token \<ge> 7 / 2)"

definition high_entropy_spans :: "(rat \<Rightarrow> rat) \<Rightarrow> string \<Rightarrow> (nat \<times> nat) list" where
  "high_entropy_spans log2 text =
     filter (\<lambda>(a, b). is_high_entropy_secret log2 (take (b - a) (drop a text)))
       (re_spans REDACT_HIGH_ENTROPY_PATTERN None 0 text)"

section \<open>Detection and redaction\<close>

definition contains_secret :: "(rat \<Rightarrow> rat) \<Rightarrow> string \<Rightarrow> bool" where
  "contains_secret log2 text =
     (if list_ex (\<lambda>p. re_search p None text) REDACT_PREFIX_PATTERNS then True
      else if re_search (RSeq assignment_head assignment_val) None text then True
      else high_entropy_spans log2 text \<noteq> [])"

definition assignment_matcher :: "char option \<Rightarrow> string \<Rightarrow> (string \<times> position) option" where
  "assignment_matcher p s =
     (case concat (map (\<lambda>(q, t). map (\<lambda>pos. (t, pos)) (re_run assignment_val q t)) (re_run assignment_head p s)) of
        [] \<Rightarrow> None
      | (t, q', t') # _ \<Rightarrow>
          Some (replace_str (take (length t - length t') t) REDACTION_PLACEHOLDER (take (length s - length t') s), q', t'))"

definition splice :: "nat \<times> nat \<Rightarrow> string \<Rightarrow> string" where
  "splice ab cleaned = take (fst ab) cleaned @ REDACTION_PLACEHOLDER @ drop (snd ab) cleaned"

definition redact :: "(rat \<Rightarrow> rat) \<Rightarrow> string \<Rightarrow> string" where
  "redact log2 text =
     (let cleaned = foldl (\<lambda>t p. re_sub p REDACTION_PLACEHOLDER t) text REDACT_PREFIX_PATTERNS;
          cleaned' = scan_sub assignment_matcher None cleaned
      in foldl (\<lambda>t ab. splice ab t) cleaned' (rev (high_entropy_spans log2 cleaned')))"

definition assert_no_secret :: "(rat \<Rightarrow> rat) \<Rightarrow> string \<Rightarrow> unit res" where
  "assert_no_secret log2 text = (if contains_secret log2 text then Inl SecretEncounteredError else Inr ())"

section \<open>What redaction leaves\<close>

lemma marker_split:
  assumes "i < length REDACTION_PLACEHOLDER"
  obtains "drop i REDACTION_PLACEHOLDER \<in> {''[REDACTED]'', ''REDACTED]'', ''EDACTED]'', ''DACTED]'',
    ''ACTED]'', ''CTED]'', ''TED]'', ''ED]'', ''D]'', '']''}"
proof -
  have "i < 10" using assms by (simp add: REDACTION_PLACEHOLDER_def)
  then have "i \<in> {0, 1, 2, 3, 4, 5, 6, 7, 8, 9}" by auto
  then show thesis using that by (auto simp: REDACTION_PLACEHOLDER_def)
qed

lemma text_key_pattern:
  assumes "avoids (CHR ''['') b" "w = c # d # w'" "c \<in> {CHR ''s'', CHR ''B''} \<or> (c = CHR ''A'' \<and> d = CHR ''K'')"
    "CHR ''['' \<notin> set w"
  shows "masked_pattern (RSeq (re_text w) b) REDACTION_PLACEHOLDER"
proof
  show "REDACTION_PLACEHOLDER \<noteq> []" by (simp add: REDACTION_PLACEHOLDER_def)
  show "avoids (hd REDACTION_PLACEHOLDER) (RSeq (re_text w) b)"
    using assms(1,4) by (simp add: REDACTION_PLACEHOLDER_def)
next
  fix i p t
  assume "i < length REDACTION_PLACEHOLDER"
  then have "take (length w) (drop i REDACTION_PLACEHOLDER @ t) \<noteq> w"
    by (rule marker_split) (use assms(2,3) in auto)
  then show "re_run (RSeq (re_text w) b) p (drop i REDACTION_PLACEHOLDER @ t) = []"
    by (simp only: re_run.simps re_text_run if_False list.map concat.simps)
next
  fix q t p s
  assume "(q, t) \<in> set (re_run (RSeq (re_text w) b) p s)"
  from re_run_min_read [OF this] show "length t < length s" using assms(2) by simp
qed

lemmas class_defs = key_char_def bearer_char_def entropy_char_def is_word_def is_upper_def is_lower_def is_digit_def
  is_space_def

interpretation admin: masked_pattern admin_key REDACTION_PLACEHOLDER
  unfolding admin_key_def by (rule text_key_pattern [OF _ refl]) (simp_all add: class_defs)

interpretation anthropic: masked_pattern anthropic_key REDACTION_PLACEHOLDER
  unfolding anthropic_key_def by (rule text_key_pattern [OF _ refl]) (simp_all add: class_defs)

interpretation openai: masked_pattern openai_key REDACTION_PLACEHOLDER
  unfolding openai_key_def by (rule text_key_pattern [OF _ refl]) (simp_all add: class_defs)

interpretation aws: masked_pattern aws_key REDACTION_PLACEHOLDER
  unfolding aws_key_def by (rule text_key_pattern [OF _ refl]) (simp_all add: class_defs)

interpretation bearer: masked_pattern bearer_token REDACTION_PLACEHOLDER
  unfolding bearer_token_def by (rule text_key_pattern [OF _ refl]) (simp_all add: class_defs)

lemma assignment_matcher_masked:
  assumes "assignment_matcher p s = Some (new, q, t)"
  shows "\<exists>x. s = x @ t \<and> masked REDACTION_PLACEHOLDER x new"
proof -
  let ?runs = "concat (map (\<lambda>(q, t). map (\<lambda>pos. (t, pos)) (re_run assignment_val q t)) (re_run assignment_head p s))"
  obtain t0 rest where r: "?runs = (t0, q, t) # rest"
    and new: "new = replace_str (take (length t0 - length t) t0) REDACTION_PLACEHOLDER (take (length s - length t) s)"
    using assms by (auto simp: assignment_matcher_def split: list.splits)
  then have "(t0, q, t) \<in> set ?runs" by simp
  then obtain q0 where h: "(q0, t0) \<in> set (re_run assignment_head p s)" "(q, t) \<in> set (re_run assignment_val q0 t0)"
    by auto
  obtain a b where ab: "s = a @ t0" "t0 = b @ t"
    using re_run_suffix [OF h(1)] re_run_suffix [OF h(2)] by blast
  have "0 < min_read assignment_val" by (simp add: assignment_val_def quoted_def)
  with re_run_min_read [OF h(2)] have "take (length t0 - length t) t0 \<noteq> []" by auto
  then have "masked REDACTION_PLACEHOLDER (take (length s - length t) s) new"
    unfolding new by (rule masked_replace)
  with ab show ?thesis by auto
qed

lemma redact_masked_prefixes:
  "masked REDACTION_PLACEHOLDER t (scan_sub assignment_matcher None t)"
  by (rule scan_sub_masked) (rule assignment_matcher_masked)

text \<open>
  The long runs of credential characters in a text, and the text with the secret ones masked:
  what the spans and the splices from the right compute.
\<close>

function long_runs :: "string \<Rightarrow> string list" where
  "long_runs [] = []"
| "long_runs (c # s) =
     (let k = length (takeWhile entropy_char (c # s))
      in if 40 \<le> k then take k (c # s) # long_runs (drop k (c # s)) else long_runs s)"
  by pat_completeness auto
termination by (relation "measure length") auto

function mask_runs :: "(string \<Rightarrow> bool) \<Rightarrow> string \<Rightarrow> string" where
  "mask_runs f [] = []"
| "mask_runs f (c # s) =
     (let k = length (takeWhile entropy_char (c # s))
      in if 40 \<le> k then (if f (take k (c # s)) then REDACTION_PLACEHOLDER else take k (c # s)) @ mask_runs f (drop k (c # s))
         else c # mask_runs f s)"
  by pat_completeness auto
termination by (relation "measure (\<lambda>(f, s). length s)") auto

lemma entropy_run:
  "re_run REDACT_HIGH_ENTROPY_PATTERN p s =
     (let k = length (takeWhile entropy_char s)
      in if 40 \<le> k then advance k p s # map (\<lambda>j. advance j p s) (rev [40..<k]) else [])"
  by (simp add: REDACT_HIGH_ENTROPY_PATTERN_def greedy_counts_def Let_def)

lemma entropy_step:
  fixes c :: char and s :: string
  defines "k \<equiv> length (takeWhile entropy_char (c # s))"
  shows "re_spans REDACT_HIGH_ENTROPY_PATTERN p i (c # s) =
     (if 40 \<le> k then (i, i + k) # re_spans REDACT_HIGH_ENTROPY_PATTERN (fst (advance k p (c # s))) (i + k) (drop k (c # s))
      else re_spans REDACT_HIGH_ENTROPY_PATTERN (Some c) (Suc i) s)"
proof -
  have "k \<le> Suc (length s)" unfolding k_def using length_takeWhile_le [of entropy_char "c # s"] by simp
  moreover have "length (drop k (c # s)) \<le> length s" if "40 \<le> k" using that by simp
  ultimately show ?thesis
    unfolding re_spans.simps entropy_run Let_def k_def [symmetric] by (auto simp: advance_def)
qed

lemma entropy_spans_runs:
  "map (\<lambda>(a, b). take (b - a) (drop a (pre @ s))) (re_spans REDACT_HIGH_ENTROPY_PATTERN p (length pre) s) = long_runs s"
proof (induction s arbitrary: pre p rule: length_induct)
  case (1 s)
  show ?case
  proof (cases s)
    case (Cons c s')
    let ?k = "length (takeWhile entropy_char (c # s'))"
    show ?thesis
    proof (cases "40 \<le> ?k")
      case True
      then have "length (drop ?k (c # s')) < length s" using Cons by simp
      with 1 have "map (\<lambda>(a, b). take (b - a) (drop a ((pre @ take ?k (c # s')) @ drop ?k (c # s'))))
        (re_spans REDACT_HIGH_ENTROPY_PATTERN q (length (pre @ take ?k (c # s'))) (drop ?k (c # s'))) =
        long_runs (drop ?k (c # s'))" for q by blast
      moreover have "length (pre @ take ?k (c # s')) = length pre + ?k"
        using length_takeWhile_le [of entropy_char "c # s'"] by simp
      ultimately show ?thesis using Cons True by (simp only: entropy_step long_runs.simps Let_def) simp
    next
      case False
      have "length s' < length s" using Cons by simp
      with 1 have "map (\<lambda>(a, b). take (b - a) (drop a ((pre @ [c]) @ s')))
        (re_spans REDACT_HIGH_ENTROPY_PATTERN q (length (pre @ [c])) s') = long_runs s'" for q
        by blast
      with False Cons show ?thesis by (simp only: entropy_step long_runs.simps Let_def) simp
    qed
  qed simp
qed

lemma high_entropy_spans_runs:
  "high_entropy_spans log2 s = [] \<longleftrightarrow> filter (is_high_entropy_secret log2) (long_runs s) = []"
  using entropy_spans_runs [of "[]" s None]
  by (simp add: high_entropy_spans_def filter_empty_conv flip: entropy_spans_runs [of "[]" s None]) (auto split: prod.splits)

lemma splice_spans:
  assumes "\<And>a b. (a, b) \<in> set spans \<Longrightarrow> g (a, b) = f (take (b - a) (drop a (pre @ s)))"
    and "spans = re_spans REDACT_HIGH_ENTROPY_PATTERN p (length pre) s"
  shows "foldr splice (filter g spans) (pre @ s) = pre @ mask_runs f s"
  using assms
proof (induction s arbitrary: pre p spans rule: length_induct)
  case (1 s)
  show ?case
  proof (cases s)
    case (Cons c s')
    let ?k = "length (takeWhile entropy_char (c # s'))"
    show ?thesis
    proof (cases "40 \<le> ?k")
      case True
      let ?w = "take ?k (c # s')" and ?r = "drop ?k (c # s')" and ?q = "fst (advance ?k p (c # s'))"
      let ?spans = "re_spans REDACT_HIGH_ENTROPY_PATTERN ?q (length (pre @ ?w)) ?r"
      have lw: "length (pre @ ?w) = length pre + ?k"
        using length_takeWhile_le [of entropy_char "c # s'"] by simp
      have sp: "spans = (length pre, length pre + ?k) # ?spans"
        using 1(3) Cons True unfolding lw by (simp only: entropy_step if_True)
      have g: "g (length pre, length pre + ?k) = f ?w" using 1(2) sp Cons by simp
      have "length ?r < length s" using Cons True by simp
      moreover have "\<And>a b. (a, b) \<in> set ?spans \<Longrightarrow> g (a, b) = f (take (b - a) (drop a ((pre @ ?w) @ ?r)))"
        using 1(2) sp Cons by simp
      ultimately have "foldr splice (filter g ?spans) ((pre @ ?w) @ ?r) = (pre @ ?w) @ mask_runs f ?r" using 1(1) by blast
      then have rest: "foldr splice (filter g ?spans) (pre @ c # s') = pre @ ?w @ mask_runs f ?r" by simp
      have cut: "splice (length pre, length pre + ?k) (pre @ ?w @ x) = pre @ REDACTION_PLACEHOLDER @ x" for x
        unfolding splice_def using lw by simp
      have out: "mask_runs f (c # s') = (if f ?w then REDACTION_PLACEHOLDER else ?w) @ mask_runs f ?r"
        using True by (simp only: mask_runs.simps Let_def if_True)
      show ?thesis
      proof (cases "f ?w")
        case True
        then have "filter g spans = (length pre, length pre + ?k) # filter g ?spans" using g sp by simp
        then show ?thesis unfolding Cons out using True by (simp only: foldr.simps comp_apply rest cut if_True)
      next
        case False
        then have "filter g spans = filter g ?spans" using g sp by simp
        then show ?thesis unfolding Cons out using False by (simp only: rest if_False)
      qed
    next
      case False
      let ?spans = "re_spans REDACT_HIGH_ENTROPY_PATTERN (Some c) (length (pre @ [c])) s'"
      have sp: "spans = ?spans" using 1(3) Cons False by (simp only: entropy_step if_False) simp
      have "length s' < length s" using Cons by simp
      moreover have "\<And>a b. (a, b) \<in> set ?spans \<Longrightarrow> g (a, b) = f (take (b - a) (drop a ((pre @ [c]) @ s')))"
        using 1(2) sp Cons by simp
      ultimately have "foldr splice (filter g ?spans) ((pre @ [c]) @ s') = (pre @ [c]) @ mask_runs f s'" using 1(1) by blast
      then show ?thesis using False Cons sp by (simp only: mask_runs.simps Let_def if_False) simp
    qed
  qed (use 1 in simp)
qed

lemma mask_runs_masked: "masked REDACTION_PLACEHOLDER s (mask_runs f s)"
proof (induction f s rule: mask_runs.induct)
  case (2 f c s)
  let ?k = "length (takeWhile entropy_char (c # s))"
  show ?case
  proof (cases "40 \<le> ?k")
    case True
    have "masked REDACTION_PLACEHOLDER (take ?k (c # s)) (if f (take ?k (c # s)) then REDACTION_PLACEHOLDER else take ?k (c # s))"
      by (simp add: masked_whole)
    from masked_append [OF this 2(1) [OF refl True]] show ?thesis
      using True by (simp only: mask_runs.simps Let_def if_True append_take_drop_id)
  next
    case False
    from masked_keep [OF 2(2) [OF refl False], of c] show ?thesis
      using False by (simp only: mask_runs.simps Let_def if_False)
  qed
qed simp

lemma mask_runs_short:
  "length (takeWhile entropy_char s) < 40 \<Longrightarrow> takeWhile entropy_char (mask_runs f s) = takeWhile entropy_char s"
  by (induction s) auto

lemma long_runs_marker: "long_runs (REDACTION_PLACEHOLDER @ s) = long_runs s"
  by (simp add: REDACTION_PLACEHOLDER_def class_defs Let_def)

lemma takeWhile_take: "takeWhile P (take (length (takeWhile P s)) s @ t) = take (length (takeWhile P s)) s @ takeWhile P t"
  by (induction s) auto

lemma drop_takeWhile_hd: "drop (length (takeWhile P s)) s = d # s' \<Longrightarrow> \<not> P d"
  by (induction s) (auto split: if_splits)

lemma mask_runs_no_secret: "filter f (long_runs (mask_runs f s)) = []"
proof (induction f s rule: mask_runs.induct)
  case (2 f c s)
  let ?k = "length (takeWhile entropy_char (c # s))" and ?w = "take (length (takeWhile entropy_char (c # s))) (c # s)"
    and ?r = "drop (length (takeWhile entropy_char (c # s))) (c # s)"
  show ?case
  proof (cases "40 \<le> ?k")
    case True
    note IH = 2(1) [OF refl True]
    show ?thesis
    proof (cases "f ?w")
      case yes: True
      then have "mask_runs f (c # s) = REDACTION_PLACEHOLDER @ mask_runs f ?r"
        using True by (simp only: mask_runs.simps Let_def if_True)
      with IH show ?thesis by (simp add: long_runs_marker)
    next
      case no: False
      have out: "mask_runs f (c # s) = ?w @ mask_runs f ?r"
        using True no by (simp only: mask_runs.simps Let_def if_True if_False)
      have stop: "takeWhile entropy_char (mask_runs f ?r) = []"
      proof (cases ?r)
        case (Cons d s')
        then have "takeWhile entropy_char ?r = []" using drop_takeWhile_hd [OF Cons] by (simp only: Cons takeWhile.simps if_False)
        with mask_runs_short [of ?r f] show ?thesis by simp
      qed simp
      then have tw: "takeWhile entropy_char (?w @ mask_runs f ?r) = ?w" using takeWhile_take [of entropy_char "c # s"] by simp
      obtain d w' where w: "?w = d # w'" using True by (cases ?w) auto
      have lw: "length ?w = ?k" using length_takeWhile_le [of entropy_char "c # s"] by simp
      have "long_runs (?w @ mask_runs f ?r) = ?w # long_runs (mask_runs f ?r)"
      proof -
        have "long_runs (d # w' @ mask_runs f ?r) = take (length ?w) (d # w' @ mask_runs f ?r)
          # long_runs (drop (length ?w) (d # w' @ mask_runs f ?r))"
          using tw True lw unfolding w append_Cons by (simp only: long_runs.simps Let_def) simp
        then show ?thesis unfolding w by simp
      qed
      then show ?thesis using IH no unfolding out by simp
    qed
  next
    case False
    note IH = 2(2) [OF refl False]
    have out: "mask_runs f (c # s) = c # mask_runs f s" using False by (simp only: mask_runs.simps Let_def if_False)
    have "length (takeWhile entropy_char (c # mask_runs f s)) < 40"
      using mask_runs_short [of "c # s" f] False unfolding out by simp
    then have "long_runs (c # mask_runs f s) = long_runs (mask_runs f s)" by (simp only: long_runs.simps Let_def) simp
    with IH show ?thesis unfolding out by simp
  qed
qed simp

lemma redact_eq:
  "redact log2 text = mask_runs (is_high_entropy_secret log2) (scan_sub assignment_matcher None
     (foldl (\<lambda>t p. re_sub p REDACTION_PLACEHOLDER t) text REDACT_PREFIX_PATTERNS))"
proof -
  have "foldl (\<lambda>t ab. splice ab t) s (rev (high_entropy_spans log2 s)) = mask_runs (is_high_entropy_secret log2) s" for s
    using splice_spans [where pre = "[]" and s = s and f = "is_high_entropy_secret log2" and p = None, OF _ refl]
    by (simp add: high_entropy_spans_def foldl_conv_foldr)
  then show ?thesis by (simp add: redact_def)
qed

lemma re_sub_keeps:
  assumes "masked_pattern r REDACTION_PLACEHOLDER" "\<not> re_search r p t"
  shows "\<not> re_search r p (re_sub r' REDACTION_PLACEHOLDER t)"
  using masked_pattern.search_masked [OF assms(1) re_sub_masked] assms(2) by blast

lemma prefix_patterns: "r \<in> set REDACT_PREFIX_PATTERNS \<Longrightarrow> masked_pattern r REDACTION_PLACEHOLDER"
  using admin.masked_pattern_axioms anthropic.masked_pattern_axioms openai.masked_pattern_axioms
    aws.masked_pattern_axioms bearer.masked_pattern_axioms by (auto simp: REDACT_PREFIX_PATTERNS_def)

lemma subs_clean:
  assumes "\<And>r. r \<in> set rs \<Longrightarrow> masked_pattern r REDACTION_PLACEHOLDER" "r \<in> set rs"
  shows "\<not> re_search r p (foldl (\<lambda>t r. re_sub r REDACTION_PLACEHOLDER t) text rs)"
  using assms
proof (induction rs rule: rev_induct)
  case (snoc r' rs)
  show ?case
  proof (cases "r = r'")
    case True
    then show ?thesis using masked_pattern.sub_clean [OF snoc.prems(1)] by (simp add: re_sub_def)
  next
    case False
    then show ?thesis using snoc by (simp add: re_sub_keeps)
  qed
qed simp

lemma redact_prefix_clean:
  assumes "r \<in> set REDACT_PREFIX_PATTERNS"
  shows "\<not> re_search r p (redact log2 text)"
proof -
  note search_masked = masked_pattern.search_masked [OF prefix_patterns [OF assms]]
  show ?thesis
    unfolding redact_eq
    using subs_clean [OF prefix_patterns assms] search_masked [OF mask_runs_masked]
      search_masked [OF redact_masked_prefixes] by blast
qed

text \<open>
  Whatever the text, after redaction none of the five key shapes is found in it and no
  run of credential characters passes the entropy test, for every logarithm of the C library.
\<close>

theorem redact_no_key_survives:
  "\<not> list_ex (\<lambda>r. re_search r None (redact log2 text)) REDACT_PREFIX_PATTERNS \<and>
   high_entropy_spans log2 (redact log2 text) = []"
  using redact_prefix_clean mask_runs_no_secret
  by (auto simp: list_ex_iff high_entropy_spans_runs redact_eq)

lemma assignment_matcher_None:
  "assignment_matcher p s = None \<longleftrightarrow> re_run (RSeq assignment_head assignment_val) p s = []"
proof -
  have "assignment_matcher p s = None \<longleftrightarrow>
    concat (map (\<lambda>(q, t). map (\<lambda>pos. (t, pos)) (re_run assignment_val q t)) (re_run assignment_head p s)) = []"
    unfolding assignment_matcher_def
    by (cases "concat (map (\<lambda>(q, t). map (\<lambda>pos. (t, pos)) (re_run assignment_val q t)) (re_run assignment_head p s))")
      (simp_all only: list.case prod.case split_paired_all, simp_all)
  also have "\<dots> \<longleftrightarrow> re_run (RSeq assignment_head assignment_val) p s = []"
    by (simp add: case_prod_beta)
  finally show ?thesis .
qed

lemma assignment_absent:
  "\<not> re_search (RSeq assignment_head assignment_val) p s \<Longrightarrow> scan_sub assignment_matcher p s = s"
proof (induction s arbitrary: p)
  case (Cons c s)
  then have "assignment_matcher p (c # s) = None" unfolding assignment_matcher_None by (simp only: re_search.simps) blast
  moreover have "\<not> re_search (RSeq assignment_head assignment_val) (Some c) s" using Cons.prems by (simp only: re_search.simps) blast
  ultimately show ?case using Cons.IH by simp
qed simp

lemma mask_runs_absent: "filter f (long_runs s) = [] \<Longrightarrow> mask_runs f s = s"
proof (induction f s rule: mask_runs.induct)
  case (2 f c s)
  let ?k = "length (takeWhile entropy_char (c # s))"
  show ?case
  proof (cases "40 \<le> ?k")
    case True
    then have "\<not> f (take ?k (c # s))" "filter f (long_runs (drop ?k (c # s))) = []"
      using 2(3) by (simp_all only: long_runs.simps Let_def if_True filter.simps) (simp_all split: if_splits)
    with 2(1) [OF refl True] show ?thesis
      using True by (simp only: mask_runs.simps Let_def if_True if_False append_take_drop_id)
  next
    case False
    then have "filter f (long_runs s) = []" using 2(3) by (simp only: long_runs.simps Let_def if_False)
    with 2(2) [OF refl False] False show ?thesis by (simp only: mask_runs.simps Let_def if_False)
  qed
qed simp

lemma redact_clean_unchanged:
  assumes "\<not> contains_secret log2 text"
  shows "redact log2 text = text"
proof -
  have none: "\<forall>r\<in>set REDACT_PREFIX_PATTERNS. \<not> re_search r None text"
    "\<not> re_search (RSeq assignment_head assignment_val) None text" "high_entropy_spans log2 text = []"
    using assms by (auto simp: contains_secret_def list_ex_iff split: if_splits)
  have "foldl (\<lambda>t p. re_sub p REDACTION_PLACEHOLDER t) text rs = text" if "set rs \<subseteq> set REDACT_PREFIX_PATTERNS" for rs
    using that none(1) by (induction rs) (simp_all add: re_sub_def re_sub_absent)
  from this [of REDACT_PREFIX_PATTERNS] show ?thesis
    unfolding redact_eq using assignment_absent [OF none(2)] mask_runs_absent none(3)
    by (simp add: high_entropy_spans_runs)
qed

text \<open>
  An assignment stays an assignment after its value was replaced, and the gate that follows
  still takes the placeholder for a secret: text that was redacted first is refused, where the
  module describes the placeholder as not secret-shaped.
\<close>

theorem redacted_assignment_refused:
  "redact log2 ''password=hunter22'' = ''password=[REDACTED]'' \<and>
   assert_no_secret log2 (redact log2 ''password=hunter22'') = Inl SecretEncounteredError"
  by code_simp

text \<open>
  Redaction is not idempotent: the quotes that ended the value are gone after the first pass,
  so the second pass reads on to the next blank and removes what followed the value.
\<close>

theorem redact_not_idempotent:
  "let s = ''f(token='' @ [CHR 0x22] @ ''abc12345'' @ [CHR 0x22] @ '', x=1)'' in
   redact log2 s = ''f(token=[REDACTED], x=1)'' \<and> redact log2 (redact log2 s) = ''f(token=[REDACTED] x=1)''"
  by code_simp

end
