(* ===== verification/Onboarding_Scan.thy ===== *)
theory Onboarding_Scan
  imports Onboarding_Redact "HOL-Library.Sublist" "HOL-Library.Multiset" "HOL-Library.List_Lexorder" "HOL-Library.Char_ord"
begin

text \<open>
  The scan of a codebase (\<open>packages/onboarding\<close>): the rules of \<open>rules.py\<close>, the walk over the
  source files and the classification of Python functions in \<open>scan.py\<close>, and of TypeScript
  nodes in \<open>ts_scan.py\<close>.

  The file system is a tree without symbolic links: a directory has its entries or cannot be
  listed, a file has its decoded text or the error of reading it. The two parsers are
  parameters. A Python node carries its line and its source segment, a tree-sitter node its
  type, text, line and children with their field names. The order in which the interpreter
  iterates over the set of echoing systems is the parameter \<open>echo_order\<close>.

  The lemmas: the walk finds exactly the source files outside the pruned directories, in
  order; a symbol or snippet of a scan holds no key shape; a file that is not UTF-8 stops the
  scan, where the module promises a warning.
\<close>

section \<open>Models\<close>

datatype site_kind = RunBoundary | StatusSetter | MarkFunction | OrmWrite | ExternalWrite | WebhookHandler

record scan_site =
  ss_kind :: site_kind
  ss_file :: string
  ss_line :: int
  ss_symbol :: string
  ss_snippet :: string
  ss_system :: "string option"
  ss_echoes_metadata :: bool
  ss_entity_ids :: "string list"

record scan_result =
  sx_run_boundaries :: "scan_site list"
  sx_outcome_sites :: "scan_site list"
  sx_entity_ids :: "string list"
  sx_warnings :: "string list"

section \<open>Rules\<close>

definition TS_LLM_CALLS :: "string list" where
  "TS_LLM_CALLS = [''generateText'', ''streamText'', ''generateObject'', ''streamObject'', ''embed'']"

definition TS_PROVIDER_CALLS :: "string list" where
  "TS_PROVIDER_CALLS = [''createOpenAI'', ''createAnthropic'', ''createGoogleGenerativeAI'', ''createGateway'']"

definition ORM_WRITES :: "string list" where
  "ORM_WRITES = [''save'', ''update'', ''insert'', ''create'', ''upsert'', ''delete'']"

definition MARK_PREFIXES :: "string list" where
  "MARK_PREFIXES = [''mark'', ''close'', ''complete'', ''finalize'']"

definition MARK_REQUIRES_OBJECT_SUFFIX :: bool where
  "MARK_REQUIRES_OBJECT_SUFFIX = True"

definition TS_SUFFIXES :: "string list" where
  "TS_SUFFIXES = [''.ts'', ''.tsx'', ''.js'', ''.mjs'', ''.cjs'', ''.jsx'']"

definition ECHOING_SYSTEMS :: "string list" where
  "ECHOING_SYSTEMS = [''stripe'', ''hubspot'', ''zendesk'']"

definition EXTERNAL_SYSTEMS :: "(string, string) dict" where
  "EXTERNAL_SYSTEMS =
     [(''stripe'', ''stripe''), (''hubspot'', ''hubspot''), (''zendesk'', ''zendesk''),
      (''salesforce'', ''salesforce''), (''sendgrid'', ''sendgrid''), (''twilio'', ''twilio''),
      (''calendar'', ''calendar'')]"

definition IGNORED_DIRS :: "string list" where
  "IGNORED_DIRS =
     [''node_modules'', ''.git'', ''.worktrees'', ''.claude'', ''.codex'', ''.cursor'', ''.stellar'',
      ''dist'', ''build'', ''.next'', ''.nuxt'', ''.venv'', ''venv'', ''__pycache__'', ''coverage'',
      ''.wrangler'', ''.pytest_cache'', ''.mypy_cache'', ''.ruff_cache'', ''.tmp'', ''vendor'', ''target'']"

definition IGNORED_TEST_DIRS :: "string list" where
  "IGNORED_TEST_DIRS =
     [''tests'', ''test'', ''__tests__'', ''e2e'', ''fixtures'', ''__fixtures__'', ''__mocks__'', ''testdata'']"

definition IGNORED_FILE_INFIXES :: "string list" where
  "IGNORED_FILE_INFIXES =
     [''.test'', ''.spec'', ''_test'', ''_spec'', ''.fixture'', ''.mock'', ''.stories'']"

definition MODULE_SYMBOL :: string where
  "MODULE_SYMBOL = ''<module>''"

definition ENTITY_ID_EXCLUSIONS :: "string list" where
  "ENTITY_ID_EXCLUSIONS = [''uuid'', ''guid'']"

text \<open>The loop over the prefixes: a bare stem returns at once, another continuation goes on.\<close>

fun is_outcome_transition_name :: "string \<Rightarrow> string list \<Rightarrow> bool" where
  "is_outcome_transition_name name [] = False"
| "is_outcome_transition_name name (p # stems) =
     (if \<not> prefix p (lower name) then is_outcome_transition_name name stems
      else case drop (length p) name of
        [] \<Rightarrow> False
      | c # _ \<Rightarrow>
          if \<not> MARK_REQUIRES_OBJECT_SUFFIX then True
          else if c = CHR ''_'' \<or> is_upper c then True
          else is_outcome_transition_name name stems)"

text \<open>\<open>s.rfind('.')\<close>; no dot is \<open>None\<close>.\<close>

definition rfind_dot :: "string \<Rightarrow> nat option" where
  "rfind_dot s =
     (if CHR ''.'' \<in> set s then Some (length s - 1 - length (takeWhile (\<lambda>c. c \<noteq> CHR ''.'') (rev s))) else None)"

definition strip_extension :: "string \<Rightarrow> string" where
  "strip_extension stem = (case rfind_dot stem of Some dot \<Rightarrow> if 0 < dot then take dot stem else stem | None \<Rightarrow> stem)"

definition is_test_path :: "string \<Rightarrow> bool" where
  "is_test_path relative_path =
     (let normalized = map (\<lambda>c. if c = CHR 0x5C then CHR ''/'' else c) relative_path;
          segments = split_on (CHR ''/'') normalized
      in if list_ex (\<lambda>segment. List.member IGNORED_TEST_DIRS segment) (butlast segments) then True
         else let filename = last segments;
                  stem = (if prefix ''.'' filename then hd (split_on (CHR ''.'') filename) else filename)
              in list_ex (\<lambda>infx. sublist infx (strip_extension stem)) IGNORED_FILE_INFIXES)"

section \<open>The source files\<close>

datatype fs_entry =
    FileEntry (entry_name: string) "string res"
  | DirEntry (entry_name: string) "fs_entry list option"

type_synonym path = "string list"

text \<open>\<open>PurePath.suffix\<close>.\<close>

definition path_suffix :: "string \<Rightarrow> string" where
  "path_suffix name = (case rfind_dot name of
     Some i \<Rightarrow> if 0 < i \<and> i < length name - 1 then drop i name else [] | None \<Rightarrow> [])"

definition ignored_dir :: "string \<Rightarrow> bool" where
  "ignored_dir name \<longleftrightarrow> List.member IGNORED_DIRS name \<or> List.member IGNORED_TEST_DIRS name \<or> prefix ''.'' name"

definition source_file :: "string list \<Rightarrow> string \<Rightarrow> bool" where
  "source_file sfxs name \<longleftrightarrow> List.member sfxs (path_suffix name) \<and> \<not> is_test_path name"

text \<open>One directory: the directories pushed, in order, and the files found, with their text.\<close>

fun push_dirs :: "path \<Rightarrow> fs_entry list \<Rightarrow> (path \<times> fs_entry list option) list" where
  "push_dirs path [] = []"
| "push_dirs path (DirEntry name es # rest) =
     (if ignored_dir name then push_dirs path rest else (path @ [name], es) # push_dirs path rest)"
| "push_dirs path (FileEntry _ _ # rest) = push_dirs path rest"

fun found_files :: "string list \<Rightarrow> path \<Rightarrow> fs_entry list \<Rightarrow> (path \<times> string res) list" where
  "found_files sfxs path [] = []"
| "found_files sfxs path (FileEntry name body # rest) =
     (if source_file sfxs name then (path @ [name], body) # found_files sfxs path rest
      else found_files sfxs path rest)"
| "found_files sfxs path (DirEntry _ _ # rest) = found_files sfxs path rest"

fun stack_size :: "(path \<times> fs_entry list option) list \<Rightarrow> nat" where
  "stack_size [] = 0"
| "stack_size ((_, None) # stack) = 1 + stack_size stack"
| "stack_size ((_, Some es) # stack) = 1 + sum_list (map size es) + stack_size stack"

lemma stack_size_append [simp]: "stack_size (a @ b) = stack_size a + stack_size b"
  by (induction a rule: stack_size.induct) auto

lemma stack_size_rev [simp]: "stack_size (rev a) = stack_size a"
  by (induction a rule: stack_size.induct) auto

lemma size_option_entries: "stack_size [(p, es)] \<le> size (DirEntry n es)"
  by (cases es) (auto simp: size_list_conv_sum_list sum_list_mono)

lemma push_dirs_size: "stack_size (push_dirs path es) \<le> sum_list (map size es)"
proof (induction path es rule: push_dirs.induct)
  case (2 path name es rest)
  have "stack_size ((path @ [name], es) # push_dirs path rest) = stack_size [(path @ [name], es)] + stack_size (push_dirs path rest)"
    by (cases es) simp_all
  then show ?case using 2 size_option_entries [of "path @ [name]" es name] by auto
qed auto

lemma sort_key_size: "sum_list (map size (sort_key f es)) = sum_list (map size (es :: fs_entry list))"
  by (metis mset_map mset_sort sum_mset_sum_list)

text \<open>The top of the stack is the head of the list.\<close>

function walk_dirs :: "string list \<Rightarrow> (path \<times> fs_entry list option) list \<Rightarrow> (path \<times> string res) list \<Rightarrow> (path \<times> string res) list" where
  "walk_dirs sfxs [] found = found"
| "walk_dirs sfxs ((_, None) # stack) found = walk_dirs sfxs stack found"
| "walk_dirs sfxs ((path, Some es) # stack) found =
     (let entries = sort_key entry_name es
      in walk_dirs sfxs (rev (push_dirs path entries) @ stack) (found @ found_files sfxs path entries))"
  by pat_completeness auto
termination
proof (relation "measure (\<lambda>(_, stack, _). stack_size stack)", goal_cases)
  case (3 sfxs path es stack found x)
  have "stack_size (push_dirs path x) \<le> sum_list (map size es)"
    using push_dirs_size [of path x] sort_key_size [of entry_name es] 3 by simp
  then show ?case by simp
qed auto

definition iter_source_files :: "fs_entry list option \<Rightarrow> string list \<Rightarrow> (path \<times> string res) list" where
  "iter_source_files repo sfxs = sort_key fst (walk_dirs sfxs [([], repo)] [])"

text \<open>What the walk should find: the files below a directory that no pruned directory hides.\<close>

inductive source_at :: "string list \<Rightarrow> path \<Rightarrow> fs_entry list option \<Rightarrow> path \<times> string res \<Rightarrow> bool" for sfxs where
  here: "FileEntry name body \<in> set es \<Longrightarrow> source_file sfxs name \<Longrightarrow> source_at sfxs dir (Some es) (dir @ [name], body)"
| below: "DirEntry name es' \<in> set es \<Longrightarrow> \<not> ignored_dir name \<Longrightarrow> source_at sfxs (dir @ [name]) es' f
     \<Longrightarrow> source_at sfxs dir (Some es) f"

inductive_simps source_at_simps:
  "source_at sfxs dir None f"
  "source_at sfxs dir (Some es) f"

lemma set_push_dirs:
  "set (push_dirs path es) = {(path @ [name], es') | name es'. DirEntry name es' \<in> set es \<and> \<not> ignored_dir name}"
  by (induction path es rule: push_dirs.induct) auto

lemma set_found_files:
  "set (found_files sfxs path es) = {(path @ [name], body) | name body. FileEntry name body \<in> set es \<and> source_file sfxs name}"
  by (induction sfxs path es rule: found_files.induct) auto

lemma walk_dirs_set:
  "set (walk_dirs sfxs stack found) = set found \<union> {f. \<exists>d es. (d, es) \<in> set stack \<and> source_at sfxs d es f}"
proof (induction sfxs stack found rule: walk_dirs.induct)
  case (2 sfxs d stack found)
  then show ?case by (auto simp: source_at_simps)
next
  case (3 sfxs path es stack found)
  let ?entries = "sort_key entry_name es"
  let ?at = "\<lambda>ds. {f. \<exists>d es. (d, es) \<in> set ds \<and> source_at sfxs d es f}"
  have here: "{f. source_at sfxs path (Some es) f} = set (found_files sfxs path ?entries) \<union> ?at (push_dirs path ?entries)"
    unfolding set_push_dirs set_found_files source_at_simps(2) by auto blast
  have "?at ((path, Some es) # stack) = {f. source_at sfxs path (Some es) f} \<union> ?at stack" by auto
  moreover have "?at (rev (push_dirs path ?entries) @ stack) = ?at (push_dirs path ?entries) \<union> ?at stack"
    unfolding set_append set_rev by blast
  moreover have "set (walk_dirs sfxs ((path, Some es) # stack) found) =
    set (found @ found_files sfxs path ?entries) \<union> ?at (rev (push_dirs path ?entries) @ stack)"
    using 3 [OF refl] by (simp add: Let_def)
  ultimately show ?case by (simp only: here set_append Un_assoc)
qed simp

text \<open>
  The walk lists exactly the files with a source suffix that are not tests and lie below
  no pruned directory (dependencies, builds, caches, test trees, dot directories), each with
  its content, in the order of their paths, and it always ends.
\<close>

theorem iter_source_files_exact:
  "set (iter_source_files repo sfxs) = {f. source_at sfxs [] repo f} \<and>
   sorted (map fst (iter_source_files repo sfxs))"
  by (simp add: iter_source_files_def walk_dirs_set)

lemma transition_name_exclusive:
  assumes "distinct stems" "\<And>p q. p \<in> set stems \<Longrightarrow> q \<in> set stems \<Longrightarrow> prefix p n \<Longrightarrow> prefix q n \<Longrightarrow> p = q"
    and "n = lower name"
  shows "is_outcome_transition_name name stems \<longleftrightarrow>
    (\<exists>p c rest. p \<in> set stems \<and> prefix p n \<and> drop (length p) name = c # rest \<and> (c = CHR ''_'' \<or> is_upper c))"
  using assms
proof (induction stems)
  case (Cons p stems)
  show ?case
  proof (cases "prefix p n")
    case True
    then have none: "\<not> prefix q n" if "q \<in> set stems" for q using Cons.prems(1,2) that by fastforce
    with Cons have "\<not> is_outcome_transition_name name stems" by auto
    with True none show ?thesis
      using Cons.prems(3) by (auto simp: MARK_REQUIRES_OBJECT_SUFFIX_def split: list.splits)
  next
    case False
    with Cons show ?thesis by auto
  qed
qed simp

text \<open>A name is an outcome transition exactly when a stem is followed by an underscore or a capital.\<close>

lemma is_outcome_transition_name_iff:
  "is_outcome_transition_name name MARK_PREFIXES \<longleftrightarrow>
     (\<exists>p c rest. p \<in> set MARK_PREFIXES \<and> prefix p (lower name) \<and> drop (length p) name = c # rest \<and>
        (c = CHR ''_'' \<or> is_upper c))"
  by (rule transition_name_exclusive) (auto simp: MARK_PREFIXES_def prefix_def)

section \<open>Python sources\<close>

text \<open>
  A node with its line and source segment. \<open>PyFunctionDef\<close> is a function or an asynchronous
  one, with the names of \<open>args.args\<close>; the children follow the order of the node's fields.
\<close>

type_synonym py_pos = "int \<times> string"

datatype py_node =
    PyAssign py_pos "py_node list" "py_node list"
  | PyCall py_pos py_node "py_node list"
  | PyFunctionDef py_pos string "string list" "py_node list"
  | PyAttribute py_pos py_node string
  | PyName py_pos string
  | PyOther py_pos "py_node list"

fun py_position :: "py_node \<Rightarrow> py_pos" where
  "py_position (PyAssign pos _ _) = pos"
| "py_position (PyCall pos _ _) = pos"
| "py_position (PyFunctionDef pos _ _ _) = pos"
| "py_position (PyAttribute pos _ _) = pos"
| "py_position (PyName pos _) = pos"
| "py_position (PyOther pos _) = pos"

fun py_children :: "py_node \<Rightarrow> py_node list" where
  "py_children (PyAssign _ targets rest) = targets @ rest"
| "py_children (PyCall _ func args) = func # args"
| "py_children (PyFunctionDef _ _ _ body) = body"
| "py_children (PyAttribute _ v _) = [v]"
| "py_children (PyName _ _) = []"
| "py_children (PyOther _ cs) = cs"

lemma sum_list_Suc: "sum_list (map (\<lambda>c. Suc (f c)) xs) = sum_list (map f xs) + length xs"
  by (induction xs) simp_all

lemma py_children_size: "sum_list (map (\<lambda>c. Suc (size c)) (py_children n)) \<le> size n"
  by (cases n) (simp_all add: size_list_conv_sum_list sum_list_Suc)

text \<open>\<open>ast.walk\<close>: breadth first, the queue extended by the children before a node is yielded.\<close>

function py_walk :: "py_node list \<Rightarrow> py_node list" where
  "py_walk [] = []"
| "py_walk (n # todo) = n # py_walk (todo @ py_children n)"
  by pat_completeness auto
termination
  by (relation "measure (\<lambda>todo. sum_list (map (\<lambda>c. Suc (size c)) todo))")
    (use py_children_size in \<open>auto simp: less_Suc_eq_le\<close>)

definition ORM_WRITE_METHODS :: "string list" where
  "ORM_WRITE_METHODS = [''save'', ''commit'', ''flush'', ''add'']"

definition PY_MARK_PREFIXES :: "string list" where
  "PY_MARK_PREFIXES = [''mark_'', ''resolve'', ''close'', ''complete'', ''finalize'']"

definition LLM_CALL_HINTS :: "string list" where
  "LLM_CALL_HINTS = [''complete'', ''completions'', ''create'', ''messages'', ''chat'', ''invoke'', ''generate'']"

definition LLM_CLIENT_HINTS :: "string list" where
  "LLM_CLIENT_HINTS = [''anthropic'', ''openai'', ''client'', ''llm'', ''agent'']"

definition detect_echoes_metadata :: "string \<Rightarrow> bool" where
  "detect_echoes_metadata system = List.member ECHOING_SYSTEMS system"

text \<open>Appending each new name once.\<close>

definition add_new :: "string list \<Rightarrow> string list \<Rightarrow> string list" where
  "add_new ids found = foldl (\<lambda>ids e. if List.member ids e then ids else ids @ [e]) ids found"

definition entity_ids_in_scope :: "string list \<Rightarrow> string list" where
  "entity_ids_in_scope args = add_new [] (filter (\<lambda>a. suffix ''_id'' a) args)"

fun root_name :: "py_node \<Rightarrow> string option" where
  "root_name (PyAttribute _ v _) = root_name v"
| "root_name (PyName _ i) = Some i"
| "root_name _ = None"

fun call_root_name :: "py_node \<Rightarrow> string option" where
  "call_root_name (PyCall _ func _) = root_name func"
| "call_root_name _ = None"

fun call_attr_name :: "py_node \<Rightarrow> string option" where
  "call_attr_name (PyCall _ (PyAttribute _ _ a) _) = Some a"
| "call_attr_name (PyCall _ (PyName _ i) _) = Some i"
| "call_attr_name _ = None"

definition make_site :: "(rat \<Rightarrow> rat) \<Rightarrow> site_kind \<Rightarrow> string \<Rightarrow> py_pos \<Rightarrow> string \<Rightarrow> scan_site" where
  "make_site log2 kind file pos symbol =
     \<lparr>ss_kind = kind, ss_file = file, ss_line = fst pos, ss_symbol = redact log2 symbol,
      ss_snippet = redact log2 (snd pos), ss_system = None, ss_echoes_metadata = False, ss_entity_ids = []\<rparr>"

fun status_targets :: "py_node list \<Rightarrow> nat" where
  "status_targets [] = 0"
| "status_targets (PyAttribute _ _ a # ts) = (if a = ''status'' then 1 else 0) + status_targets ts"
| "status_targets (_ # ts) = status_targets ts"

definition status_setter_sites :: "(rat \<Rightarrow> rat) \<Rightarrow> string \<Rightarrow> string \<Rightarrow> py_pos \<Rightarrow> py_node list \<Rightarrow> scan_site list" where
  "status_setter_sites log2 file symbol pos targets =
     replicate (status_targets targets) (make_site log2 StatusSetter file pos symbol)"

definition is_llm_call :: "string option \<Rightarrow> string option \<Rightarrow> bool" where
  "is_llm_call rt attr =
     ((case rt of None \<Rightarrow> False | Some r \<Rightarrow> List.member LLM_CLIENT_HINTS (lower r) \<and>
        (case attr of None \<Rightarrow> True | Some a \<Rightarrow> List.member LLM_CALL_HINTS a))
      \<or> (case rt of None \<Rightarrow> False | Some r \<Rightarrow> List.member LLM_CLIENT_HINTS (lower r) \<and> attr = None))"

definition classify_call :: "(rat \<Rightarrow> rat) \<Rightarrow> string \<Rightarrow> string \<Rightarrow> py_node \<Rightarrow> scan_site option \<times> bool" where
  "classify_call log2 file symbol call =
     (let rt = call_root_name call; attr = call_attr_name call; pos = py_position call in
      case Option.bind rt (dict_get EXTERNAL_SYSTEMS) of
        Some system \<Rightarrow>
          (Some ((make_site log2 ExternalWrite file pos symbol)
             \<lparr>ss_system := Some system, ss_echoes_metadata := detect_echoes_metadata system\<rparr>), False)
      | None \<Rightarrow>
          if (case attr of None \<Rightarrow> False | Some a \<Rightarrow> List.member ORM_WRITE_METHODS a)
          then (Some (make_site log2 OrmWrite file pos symbol), False)
          else (None, is_llm_call rt attr))"

definition is_webhook_handler :: "string \<Rightarrow> string list \<Rightarrow> bool" where
  "is_webhook_handler name args =
     (let n = lower name in
      if sublist ''webhook'' n \<or> sublist ''callback'' n then True
      else sublist ''hook'' n \<and> list_ex (\<lambda>a. List.member [''request'', ''payload'', ''event''] a) args)"

definition is_mark_function :: "string \<Rightarrow> bool" where
  "is_mark_function name = list_ex (\<lambda>p. prefix p (lower name) \<or> lower name = p) PY_MARK_PREFIXES"

text \<open>The loop over the nodes of one function: the sites in order, and whether a model is called.\<close>

fun scan_nodes :: "(rat \<Rightarrow> rat) \<Rightarrow> string \<Rightarrow> string \<Rightarrow> py_node list \<Rightarrow> scan_site list \<times> bool" where
  "scan_nodes log2 file symbol [] = ([], False)"
| "scan_nodes log2 file symbol (PyAssign pos targets rest # ns) =
     (case scan_nodes log2 file symbol ns of (sites, b) \<Rightarrow> (status_setter_sites log2 file symbol pos targets @ sites, b))"
| "scan_nodes log2 file symbol (PyCall pos func args # ns) =
     (case scan_nodes log2 file symbol ns of (sites, b) \<Rightarrow>
      case classify_call log2 file symbol (PyCall pos func args) of (site, boundary) \<Rightarrow>
        ((case site of None \<Rightarrow> sites | Some x \<Rightarrow> x # sites), boundary \<or> b))"
| "scan_nodes log2 file symbol (n # ns) = scan_nodes log2 file symbol ns"

fun scan_function :: "(rat \<Rightarrow> rat) \<Rightarrow> string \<Rightarrow> py_node \<Rightarrow> scan_site list \<times> scan_site list \<times> string list" where
  "scan_function log2 file (PyFunctionDef pos name args body) =
     (let entity_ids = entity_ids_in_scope args in
      case scan_nodes log2 file name (py_walk [PyFunctionDef pos name args body]) of (sites, is_run_boundary) \<Rightarrow>
        ((if is_run_boundary
          then [(make_site log2 RunBoundary file pos name)\<lparr>ss_entity_ids := entity_ids\<rparr>] else []),
         sites
         @ (if is_webhook_handler name args then [make_site log2 WebhookHandler file pos name] else [])
         @ (if is_mark_function name then [make_site log2 MarkFunction file pos name] else []),
         entity_ids))"
| "scan_function log2 file _ = ([], [], [])"

section \<open>TypeScript sources\<close>

datatype ts_node = TsNode (ts_type: string) (ts_text: string) (ts_row: int) (ts_fields: "(string option \<times> ts_node) list")

definition child_by_field_name :: "ts_node \<Rightarrow> string \<Rightarrow> ts_node option" where
  "child_by_field_name n field = map_option snd (find (\<lambda>(f, _). f = Some field) (ts_fields n))"

definition ts_children :: "ts_node \<Rightarrow> ts_node list" where
  "ts_children n = map snd (ts_fields n)"

definition callee_name :: "ts_node \<Rightarrow> string option" where
  "callee_name call = (case child_by_field_name call ''function'' of
     None \<Rightarrow> None
   | Some fn \<Rightarrow>
       if ts_type fn = ''identifier'' then Some (ts_text fn)
       else if ts_type fn = ''member_expression''
       then map_option ts_text (child_by_field_name fn ''property'')
       else None)"

definition symbol_of_parent :: "ts_node \<Rightarrow> string option" where
  "symbol_of_parent cur =
     (let declared = (if List.member [''function_declaration'', ''method_definition'', ''generator_function_declaration''] (ts_type cur)
                      then map_option ts_text (child_by_field_name cur ''name'') else None)
      in case declared of
        Some name \<Rightarrow> Some name
      | None \<Rightarrow>
          if ts_type cur = ''variable_declarator''
          then (case child_by_field_name cur ''value'' of
              None \<Rightarrow> None
            | Some val \<Rightarrow>
                if List.member [''arrow_function'', ''function_expression''] (ts_type val)
                then map_option ts_text (child_by_field_name cur ''name'') else None)
          else None)"

text \<open>The loop over the parents, innermost first.\<close>

fun enclosing_symbol :: "ts_node list \<Rightarrow> string" where
  "enclosing_symbol [] = MODULE_SYMBOL"
| "enclosing_symbol (cur # parents) = (case symbol_of_parent cur of Some name \<Rightarrow> name | None \<Rightarrow> enclosing_symbol parents)"

definition looks_like_id :: "string \<Rightarrow> bool" where
  "looks_like_id name =
     (let low = lower name in (suffix ''id'' low \<and> 2 < length name) \<or> suffix ''_id'' low)"

text \<open>
  The stack loops of the scan: a node is popped with its parents, and its children are pushed
  so that the last is popped next.
\<close>

lemma ts_children_size: "sum_list (map (\<lambda>c. Suc (size c)) (ts_children n)) \<le> size n"
proof (cases n)
  case (TsNode t x r fs)
  have "sum_list (map (\<lambda>c. Suc (size c)) (map snd fs)) \<le> size_list (size_prod (\<lambda>_. 0) size) fs"
    by (induction fs) auto
  with TsNode show ?thesis by (simp add: ts_children_def)
qed

function ts_pop_order :: "(ts_node \<times> ts_node list) list \<Rightarrow> (ts_node \<times> ts_node list) list" where
  "ts_pop_order [] = []"
| "ts_pop_order ((n, parents) # stack) =
     (n, parents) # ts_pop_order (rev (map (\<lambda>c. (c, n # parents)) (ts_children n)) @ stack)"
  by pat_completeness auto
termination
proof (relation "measure (\<lambda>stack. sum_list (map (\<lambda>(n, _). Suc (size n)) stack))", goal_cases)
  case (2 n parents stack)
  have "sum_list (map (\<lambda>(n, _). Suc (size n)) (rev (map (\<lambda>c. (c, n # parents)) (ts_children n)))) =
    sum_list (map (\<lambda>c. Suc (size c)) (ts_children n))"
    by (simp add: rev_map [symmetric] comp_def sum_list_rev)
  with ts_children_size [of n] show ?case by (simp add: less_Suc_eq_le)
qed simp

definition entity_ids_in_file :: "ts_node \<Rightarrow> string list" where
  "entity_ids_in_file rt =
     add_new [] (filter (\<lambda>name. looks_like_id name \<and> \<not> List.member ENTITY_ID_EXCLUSIONS name)
       (map (\<lambda>(n, _). ts_text n) (filter (\<lambda>(n, _). ts_type n = ''identifier'') (ts_pop_order [(rt, [])]))))"

definition ts_site :: "(rat \<Rightarrow> rat) \<Rightarrow> site_kind \<Rightarrow> string \<Rightarrow> ts_node \<Rightarrow> ts_node list \<Rightarrow> string option \<Rightarrow> scan_site" where
  "ts_site log2 kind file node parents system =
     \<lparr>ss_kind = kind, ss_file = file, ss_line = ts_row node + 1,
      ss_symbol = redact log2 (enclosing_symbol parents),
      ss_snippet = take 200 (redact log2 (ts_text node)), ss_system = system,
      ss_echoes_metadata = (case system of None \<Rightarrow> False | Some s \<Rightarrow> s \<noteq> [] \<and> List.member ECHOING_SYSTEMS s),
      ss_entity_ids = []\<rparr>"

definition system_for_call :: "string list \<Rightarrow> ts_node \<Rightarrow> string option" where
  "system_for_call echo_order call = (case child_by_field_name call ''function'' of
     None \<Rightarrow> None
   | Some fn \<Rightarrow>
       if ts_type fn \<noteq> ''member_expression'' then None
       else case child_by_field_name fn ''object'' of
         None \<Rightarrow> None
       | Some obj \<Rightarrow> find (\<lambda>system. sublist system (lower (ts_text obj))) echo_order)"

definition call_sites :: "(rat \<Rightarrow> rat) \<Rightarrow> string list \<Rightarrow> string \<Rightarrow> ts_node \<Rightarrow> ts_node list \<Rightarrow> scan_site list \<times> scan_site list" where
  "call_sites log2 echo_order file n parents =
     (let name = callee_name n; is_in = (\<lambda>names. case name of None \<Rightarrow> False | Some x \<Rightarrow> List.member names x) in
      if is_in TS_LLM_CALLS \<or> is_in TS_PROVIDER_CALLS
      then ([ts_site log2 RunBoundary file n parents None], [])
      else if is_in ORM_WRITES
      then ([], [ts_site log2 ExternalWrite file n parents (system_for_call echo_order n)])
      else if (case name of None \<Rightarrow> False | Some x \<Rightarrow> is_outcome_transition_name x MARK_PREFIXES)
      then ([], [ts_site log2 MarkFunction file n parents None])
      else ([], case system_for_call echo_order n of
          None \<Rightarrow> []
        | Some system \<Rightarrow> [ts_site log2 ExternalWrite file n parents (Some system)]))"

definition assignment_sites :: "(rat \<Rightarrow> rat) \<Rightarrow> string \<Rightarrow> ts_node \<Rightarrow> ts_node list \<Rightarrow> scan_site list" where
  "assignment_sites log2 file n parents = (case child_by_field_name n ''left'' of
     None \<Rightarrow> []
   | Some left \<Rightarrow>
       if ts_type left \<noteq> ''member_expression'' then []
       else case child_by_field_name left ''property'' of
         None \<Rightarrow> []
       | Some prop \<Rightarrow> if ts_text prop = ''status'' then [ts_site log2 StatusSetter file n parents None] else [])"

definition ts_node_sites :: "(rat \<Rightarrow> rat) \<Rightarrow> string list \<Rightarrow> string \<Rightarrow> ts_node \<times> ts_node list \<Rightarrow> scan_site list \<times> scan_site list" where
  "ts_node_sites log2 echo_order file np = (case np of (n, parents) \<Rightarrow>
     if ts_type n = ''call_expression'' then call_sites log2 echo_order file n parents
     else if ts_type n = ''assignment_expression'' then ([], assignment_sites log2 file n parents)
     else ([], []))"

definition scan_ts_tree :: "(rat \<Rightarrow> rat) \<Rightarrow> string list \<Rightarrow> string \<Rightarrow> ts_node \<Rightarrow> scan_site list \<times> scan_site list \<times> string list" where
  "scan_ts_tree log2 echo_order file rt =
     (let sites = map (ts_node_sites log2 echo_order file) (ts_pop_order [(rt, [])])
      in (concat (map fst sites), concat (map snd sites), entity_ids_in_file rt))"

section \<open>The scan\<close>

text \<open>
  \<open>py_parse\<close> is \<open>ast.parse\<close>, with the message of a syntax error; \<open>ts_parse\<close> is the tree-sitter
  parser with the exception it may raise and its text.
\<close>

record parsers =
  py_parse :: "string \<Rightarrow> string + py_node"
  ts_parse :: "string \<Rightarrow> (error \<times> string) + ts_node"

definition scan_empty :: scan_result where
  "scan_empty = \<lparr>sx_run_boundaries = [], sx_outcome_sites = [], sx_entity_ids = [], sx_warnings = []\<rparr>"

definition scan_add :: "scan_result \<Rightarrow> scan_site list \<times> scan_site list \<times> string list \<Rightarrow> scan_result" where
  "scan_add acc found = (case found of (bs, os, ids) \<Rightarrow>
     acc\<lparr>sx_run_boundaries := sx_run_boundaries acc @ bs, sx_outcome_sites := sx_outcome_sites acc @ os,
         sx_entity_ids := add_new (sx_entity_ids acc) ids\<rparr>)"

definition scan_warn :: "scan_result \<Rightarrow> string \<Rightarrow> scan_result" where
  "scan_warn acc w = acc\<lparr>sx_warnings := sx_warnings acc @ [w]\<rparr>"

definition relative_name :: "path \<Rightarrow> string" where
  "relative_name p = join_with ''/'' p"

fun is_function :: "py_node \<Rightarrow> bool" where
  "is_function (PyFunctionDef _ _ _ _) = True"
| "is_function _ = False"

definition scan_py_file :: "(rat \<Rightarrow> rat) \<Rightarrow> parsers \<Rightarrow> scan_result \<Rightarrow> path \<times> string res \<Rightarrow> scan_result res" where
  "scan_py_file log2 ps acc f =
     res_bind (snd f) (\<lambda>text. let rel = relative_name (fst f) in
       case py_parse ps text of
         Inl msg \<Rightarrow> Inr (scan_warn acc (''skipped unparseable file '' @ rel @ '': '' @ msg))
       | Inr tree \<Rightarrow>
           Inr (foldl scan_add acc (map (scan_function log2 rel) (filter is_function (py_walk [tree])))))"

definition scan_ts_file :: "(rat \<Rightarrow> rat) \<Rightarrow> string list \<Rightarrow> parsers \<Rightarrow> scan_result \<Rightarrow> path \<times> string res \<Rightarrow> scan_result res" where
  "scan_ts_file log2 echo_order ps acc f =
     res_bind (snd f) (\<lambda>text. let rel = relative_name (fst f) in
       case ts_parse ps text of
         Inl (e, msg) \<Rightarrow>
           if e = ValueError \<or> e = RuntimeError
           then Inr (scan_warn acc (''skipped unscannable TS file '' @ rel @ '': '' @ msg))
           else Inl e
       | Inr rt \<Rightarrow> Inr (scan_add acc (scan_ts_tree log2 echo_order rel rt)))"

fun scan_files :: "(scan_result \<Rightarrow> path \<times> string res \<Rightarrow> scan_result res) \<Rightarrow> scan_result \<Rightarrow> (path \<times> string res) list \<Rightarrow> scan_result res" where
  "scan_files step acc [] = Inr acc"
| "scan_files step acc (f # fs) = res_bind (step acc f) (\<lambda>acc'. scan_files step acc' fs)"

definition scan_codebase :: "(rat \<Rightarrow> rat) \<Rightarrow> string list \<Rightarrow> parsers \<Rightarrow> fs_entry list option \<Rightarrow> scan_result res" where
  "scan_codebase log2 echo_order ps repo =
     res_bind (scan_files (scan_py_file log2 ps) scan_empty (iter_source_files repo [''.py''])) (\<lambda>acc.
     scan_files (scan_ts_file log2 echo_order ps) acc (iter_source_files repo TS_SUFFIXES))"

section \<open>What a scan reveals\<close>

definition no_key :: "string \<Rightarrow> bool" where
  "no_key s \<longleftrightarrow> \<not> list_ex (\<lambda>r. re_search r None s) REDACT_PREFIX_PATTERNS"

lemma no_key_redact [simp]: "no_key (redact log2 s)"
  using redact_prefix_clean by (auto simp: no_key_def list_ex_iff)

lemma no_key_append: "no_key (x @ z) \<Longrightarrow> no_key x"
  using re_search_extend [OF masked_pattern.marker(2) [OF prefix_patterns]]
  by (auto simp: no_key_def list_ex_iff)

lemma no_key_take [simp]: "no_key s \<Longrightarrow> no_key (take n s)"
  using no_key_append [of "take n s" "drop n s"] by simp

definition site_clean :: "scan_site \<Rightarrow> bool" where
  "site_clean s \<longleftrightarrow> no_key (ss_symbol s) \<and> no_key (ss_snippet s)"

definition scan_clean :: "scan_result \<Rightarrow> bool" where
  "scan_clean r \<longleftrightarrow> list_all site_clean (sx_run_boundaries r) \<and> list_all site_clean (sx_outcome_sites r)"

lemma make_site_clean [simp]: "site_clean (make_site log2 kind fl pos symbol)"
  by (simp add: site_clean_def make_site_def)

lemma ts_site_clean [simp]: "site_clean (ts_site log2 kind fl n parents system)"
  by (simp add: site_clean_def ts_site_def)

lemma site_clean_update [simp]:
  "site_clean (s\<lparr>ss_system := a\<rparr>) = site_clean s" "site_clean (s\<lparr>ss_echoes_metadata := b\<rparr>) = site_clean s"
  "site_clean (s\<lparr>ss_entity_ids := c\<rparr>) = site_clean s"
  by (simp_all add: site_clean_def)

lemma classify_call_clean: "classify_call log2 fl symbol call = (Some s, b) \<Longrightarrow> site_clean s"
  by (auto simp: classify_call_def Let_def split: option.splits if_splits)

lemma scan_nodes_clean: "list_all site_clean (fst (scan_nodes log2 fl symbol ns))"
proof (induction log2 fl symbol ns rule: scan_nodes.induct)
  case (2 log2 fl symbol pos targets rest ns)
  then show ?case by (auto simp: status_setter_sites_def list_all_iff split: prod.splits)
next
  case (3 log2 fl symbol pos func args ns)
  obtain s b where "classify_call log2 fl symbol (PyCall pos func args) = (s, b)" by (cases "classify_call log2 fl symbol (PyCall pos func args)")
  then show ?case using 3 classify_call_clean [of log2 fl symbol "PyCall pos func args"]
    by (auto split: prod.splits option.splits)
qed auto

definition found_clean :: "scan_site list \<times> scan_site list \<times> string list \<Rightarrow> bool" where
  "found_clean f \<longleftrightarrow> list_all site_clean (fst f) \<and> list_all site_clean (fst (snd f))"

lemma scan_function_clean: "found_clean (scan_function log2 fl n)"
proof (cases n)
  case (PyFunctionDef pos name args body)
  obtain sites b where sites: "scan_nodes log2 fl name (py_walk [n]) = (sites, b)"
    by (cases "scan_nodes log2 fl name (py_walk [n])")
  then have "list_all site_clean sites" using scan_nodes_clean [of log2 fl name "py_walk [n]"] by simp
  with sites show ?thesis unfolding PyFunctionDef by (simp add: Let_def found_clean_def)
qed (simp_all add: found_clean_def)

lemma ts_node_sites_clean:
  "list_all site_clean (fst (ts_node_sites log2 eo fl np)) \<and> list_all site_clean (snd (ts_node_sites log2 eo fl np))"
  by (auto simp: ts_node_sites_def call_sites_def assignment_sites_def Let_def split: prod.splits option.splits)

lemma scan_ts_tree_clean: "found_clean (scan_ts_tree log2 eo fl rt)"
  using ts_node_sites_clean [of log2 eo fl] by (auto simp: scan_ts_tree_def Let_def list_all_iff found_clean_def)

lemma scan_add_clean: "scan_clean acc \<Longrightarrow> found_clean found \<Longrightarrow> scan_clean (scan_add acc found)"
  by (cases found) (simp add: scan_add_def scan_clean_def found_clean_def)

lemma scan_warn_clean [simp]: "scan_clean (scan_warn acc w) = scan_clean acc"
  by (simp add: scan_warn_def scan_clean_def)

lemma scan_adds_clean:
  "scan_clean acc \<Longrightarrow> scan_clean (foldl scan_add acc (map (scan_function log2 fl) ns))"
  by (induction ns arbitrary: acc) (simp_all add: scan_add_clean scan_function_clean)

lemma scan_py_file_clean: "scan_py_file log2 ps acc f = Inr r \<Longrightarrow> scan_clean acc \<Longrightarrow> scan_clean r"
  using scan_adds_clean
  by (cases "snd f"; cases "py_parse ps (projr (snd f))") (auto simp: scan_py_file_def Let_def)

lemma scan_ts_file_clean:
  assumes "scan_ts_file log2 eo ps acc f = Inr r" "scan_clean acc"
  shows "scan_clean r"
proof -
  obtain src where t: "snd f = Inr src" using assms(1) by (cases "snd f") (auto simp: scan_ts_file_def)
  show ?thesis
  proof (cases "ts_parse ps src")
    case (Inl x)
    obtain e msg where "x = (e, msg)" by (cases x)
    with assms t Inl show ?thesis by (auto simp: scan_ts_file_def Let_def split: if_splits)
  next
    case (Inr rt)
    then have "r = scan_add acc (scan_ts_tree log2 eo (relative_name (fst f)) rt)"
      using assms(1) t by (simp add: scan_ts_file_def Let_def)
    then show ?thesis using scan_add_clean [OF assms(2) scan_ts_tree_clean] by simp
  qed
qed

lemma scan_files_clean:
  assumes "\<And>acc f r. step acc f = Inr r \<Longrightarrow> scan_clean acc \<Longrightarrow> scan_clean r"
  shows "scan_files step acc fs = Inr r \<Longrightarrow> scan_clean acc \<Longrightarrow> scan_clean r"
  using assms by (induction fs arbitrary: acc) auto

lemma scan_codebase_clean: "scan_codebase log2 eo ps repo = Inr r \<Longrightarrow> scan_clean r"
proof -
  assume "scan_codebase log2 eo ps repo = Inr r"
  then obtain acc where acc: "scan_files (scan_py_file log2 ps) scan_empty (iter_source_files repo [''.py'']) = Inr acc"
    "scan_files (scan_ts_file log2 eo ps) acc (iter_source_files repo TS_SUFFIXES) = Inr r"
    by (auto simp: scan_codebase_def)
  have "scan_clean scan_empty" by (simp add: scan_clean_def scan_empty_def)
  then have "scan_clean acc" using scan_files_clean [OF _ acc(1)] scan_py_file_clean by blast
  then show "scan_clean r" using scan_files_clean [OF _ acc(2)] scan_ts_file_clean by blast
qed

lemma scan_files_error:
  assumes "(p, Inl e) \<in> set fs" "\<And>acc f e'. snd f = Inl e' \<Longrightarrow> step acc f = Inl e'"
  shows "\<exists>e'. scan_files step acc fs = Inl e'"
  using assms(1)
proof (induction fs arbitrary: acc)
  case (Cons f fs)
  show ?case
  proof (cases "step acc f")
    case (Inr acc')
    then have "f \<noteq> (p, Inl e)" using assms(2) [of f e acc] by auto
    with Cons Inr show ?thesis by auto
  qed simp
qed simp

text \<open>
  C31. A secret met in the source is not echoed by the scan: no symbol and no snippet of a
  reported site, Python or TypeScript, contains one of the key shapes, whatever the files
  hold and whatever the parsers return.
\<close>

theorem scan_echoes_no_key:
  assumes "scan_codebase log2 echo_order ps repo = Inr r"
    and "s \<in> set (sx_run_boundaries r @ sx_outcome_sites r)"
  shows "no_key (ss_symbol s) \<and> no_key (ss_snippet s)"
  using scan_codebase_clean [OF assms(1)] assms(2)
  by (auto simp: scan_clean_def list_all_iff site_clean_def)

text \<open>A repository of one function that calls a model with a key written in the source.\<close>

definition sample_parsers :: parsers where
  "sample_parsers = \<lparr>py_parse = (\<lambda>src. Inr (PyOther (0, src)
       [PyFunctionDef (1, src) ''answer'' [''ticket_id''] [PyCall (2, ''client.chat(sk-ant-abcdef)'')
          (PyAttribute (2, ''client.chat'') (PyName (2, ''client'') ''client'') ''chat'') []]])),
     ts_parse = (\<lambda>_. Inl (ValueError, ''no grammar''))\<rparr>"

definition sample_repo :: "fs_entry list option" where
  "sample_repo = Some [FileEntry ''app.py'' (Inr ''client.chat(sk-ant-abcdef)'')]"

theorem scan_echoes_no_key_witness:
  "\<exists>r s. scan_codebase (\<lambda>x. x) ECHOING_SYSTEMS sample_parsers sample_repo = Inr r \<and>
     s \<in> set (sx_run_boundaries r @ sx_outcome_sites r) \<and> ss_snippet s = ''client.chat([REDACTED])'' \<and>
     no_key (ss_symbol s) \<and> no_key (ss_snippet s)"
proof -
  let ?s = "\<lparr>ss_kind = RunBoundary, ss_file = ''app.py'', ss_line = 1, ss_symbol = ''answer'',
    ss_snippet = ''client.chat([REDACTED])'', ss_system = None, ss_echoes_metadata = False, ss_entity_ids = [''ticket_id'']\<rparr>"
  let ?r = "\<lparr>sx_run_boundaries = [?s], sx_outcome_sites = [], sx_entity_ids = [''ticket_id''], sx_warnings = []\<rparr>"
  have run: "scan_codebase (\<lambda>x. x) ECHOING_SYSTEMS sample_parsers sample_repo = Inr ?r"
    by code_simp
  have "?s \<in> set (sx_run_boundaries ?r @ sx_outcome_sites ?r)" by simp
  with run scan_echoes_no_key [OF run this] show ?thesis by (intro exI [of _ ?r] exI [of _ ?s]) simp
qed

text \<open>
  One source file that cannot be decoded ends the whole scan with the error of reading it;
  only a parse error becomes a warning.
\<close>

theorem undecodable_file_stops_scan:
  assumes "source_at [''.py''] [] repo (p, Inl e)"
  shows "\<exists>e'. scan_codebase log2 echo_order ps repo = Inl e'"
proof -
  have "(p, Inl e) \<in> set (iter_source_files repo [''.py''])"
    using assms by (simp add: iter_source_files_def walk_dirs_set)
  from scan_files_error [OF this, of "scan_py_file log2 ps" scan_empty]
  show ?thesis by (auto simp: scan_codebase_def scan_py_file_def)
qed

theorem undecodable_file_stops_scan_witness:
  "\<exists>e'. scan_codebase (\<lambda>x. x) ECHOING_SYSTEMS sample_parsers
     (Some [DirEntry ''src'' (Some [FileEntry ''latin1.py'' (Inl UnicodeDecodeError)])]) = Inl e'"
  by (rule undecodable_file_stops_scan [where e = UnicodeDecodeError and p = "[''src'', ''latin1.py'']"])
    (auto simp: source_at_simps intro!: source_at.here [where dir = "[''src'']", simplified],
      code_simp+)

text \<open>
  The walk of a function enters the functions nested in it, which are scanned again on their
  own: a write in a nested function is reported twice, the first time under the outer name.
\<close>

theorem nested_write_reported_twice:
  "let inner = PyFunctionDef (2, ''inner'') ''inner'' [] [PyCall (3, ''db.save()'')
         (PyAttribute (3, ''db.save'') (PyName (3, ''db'') ''db'') ''save'') []];
       outer = PyFunctionDef (1, ''outer'') ''outer'' [] [inner]
   in map (\<lambda>s. (ss_line s, ss_symbol s)) (concat (map (\<lambda>f. fst (snd (scan_function log2 ''app.py'' f)))
        (filter is_function (py_walk [outer])))) = [(3, ''outer''), (3, ''inner'')]"
  by code_simp

end
