(* ===== verification/Onboarding.thy ===== *)
theory Onboarding
  imports Onboarding_Scan Outcome_Rules Surface_Registry
begin

unbundle bit_operations_syntax

text \<open>
  The onboarding agent after the scan (\<open>packages/onboarding\<close>): proposing rules
  (\<open>propose.py\<close>), drafting one from a request (\<open>suggest.py\<close>), checking a rule (\<open>validate.py\<close>),
  rendering (\<open>render.py\<close>), the reviewable diff (\<open>diff.py\<close>), the pull request (\<open>github_app.py\<close>),
  the preview (\<open>dryrun.py\<close>) and the service that wires them (\<open>service.py\<close>).

  The seams the service is built from are parameters: the signal mapper, the predicate
  validator, the rollup reader, and \<open>yaml.safe_dump\<close>. Names follow the source; a rule's
  \<open>confirmed\<close> flag is kept as a field although only \<open>False\<close> is allowed.

  The lemmas: a proposal has one unconfirmed rule per bindable site, with the tier its
  wiring can reach and the mapper's signal, and each such rule validates; the body of a pull
  request built from a scan holds no key shape; a suggestion's confidence stays in range.
  The theorems named as errors record where the seams do not fit.
\<close>

section \<open>Models\<close>

datatype rule_match_kind = MStatusSetter | MMarkFunction | MOrmWrite | MExternalWrite | MWebhook

definition match_kind_value :: "rule_match_kind \<Rightarrow> string" where
  "match_kind_value k = (case k of MStatusSetter \<Rightarrow> ''status_setter'' | MMarkFunction \<Rightarrow> ''mark_function''
     | MOrmWrite \<Rightarrow> ''orm_write'' | MExternalWrite \<Rightarrow> ''external_write'' | MWebhook \<Rightarrow> ''webhook'')"

record injection_block =
  ri_system :: string
  ri_target_field :: string
  ri_write_site :: string

record rule_candidate =
  rc_name :: string
  rc_match_kind :: rule_match_kind
  rc_match_target :: string
  rc_when :: string
  rc_signal :: signal_class
  rc_tier :: binding_tier
  rc_run_id_injection :: "injection_block option"
  rc_warnings :: "string list"
  rc_confirmed :: bool

record proposal =
  pr_rules :: "rule_candidate list"
  pr_entity_ids :: "string list"
  pr_shared_costs_present :: bool
  pr_warnings :: "string list"

record suggested_rule =
  sg_natural_language :: string
  sg_rule :: rule_candidate
  sg_confidence :: rat
  sg_confirmed :: bool

record diff_hunk =
  dh_file :: string
  dh_header :: string
  dh_lines :: "string list"

record pull_request =
  pq_branch :: string
  pq_title :: string
  pq_body :: string

record cost_per_outcome =
  cpo_cost_usd :: "rat option"
  cpo_minimum_tier :: binding_tier
  cpo_confidence_distribution :: "(binding_tier, int) dict"

record dry_run_preview =
  dp_outcome_name :: string
  dp_cost_per_outcome_usd :: "rat option"
  dp_minimum_tier :: binding_tier
  dp_confidence_distribution :: "(binding_tier, int) dict"

type_synonym signal_mapper = "string \<Rightarrow> string \<Rightarrow> string res"

section \<open>Propose\<close>

definition INJECTED_RUN_ID_FIELD :: string where
  "INJECTED_RUN_ID_FIELD = ''metadata.atm_run_id''"

definition SITE_TO_MATCH :: "(site_kind, rule_match_kind) dict" where
  "SITE_TO_MATCH = [(StatusSetter, MStatusSetter), (MarkFunction, MMarkFunction), (OrmWrite, MOrmWrite),
     (ExternalWrite, MExternalWrite), (WebhookHandler, MWebhook)]"

definition IN_PROCESS_SITES :: "site_kind list" where
  "IN_PROCESS_SITES = [StatusSetter, MarkFunction, OrmWrite]"

definition site_match_kind :: "scan_site \<Rightarrow> rule_match_kind res" where
  "site_match_kind site = (case dict_get SITE_TO_MATCH (ss_kind site) of None \<Rightarrow> Inl KeyError | Some k \<Rightarrow> Inr k)"

definition signal_for :: "signal_mapper \<Rightarrow> scan_site \<Rightarrow> signal_class res" where
  "signal_for mapper site =
     res_bind (site_match_kind site) (\<lambda>k. res_bind (mapper (match_kind_value k) []) signal_of)"

definition default_when :: "scan_site \<Rightarrow> string" where
  "default_when site =
     (if ss_kind site = StatusSetter then ''args.status != None''
      else if ss_kind site = WebhookHandler then ''event.type != None''
      else ''True'')"

definition site_system :: "scan_site \<Rightarrow> string" where
  "site_system site = (case ss_system site of None \<Rightarrow> ''unknown'' | Some s \<Rightarrow> if s = [] then ''unknown'' else s)"

definition no_echo_warning :: "string \<Rightarrow> string" where
  "no_echo_warning system = system
     @ '' does not echo injected metadata; deterministic T3 binding is unavailable. Falling back to entity-id matching (candidate/T4); a human must confirm before this is trusted.''"

definition site_wiring :: "(rat \<Rightarrow> rat) \<Rightarrow> scan_site \<Rightarrow> binding_tier \<times> injection_block option \<times> string list" where
  "site_wiring log2 site =
     (if List.member IN_PROCESS_SITES (ss_kind site) then (Exact, None, [])
      else if ss_kind site = WebhookHandler then (Deterministic, None, [])
      else if ss_kind site = ExternalWrite \<and> ss_echoes_metadata site
      then (Deterministic,
            Some \<lparr>ri_system = redact log2 (site_system site), ri_target_field = INJECTED_RUN_ID_FIELD,
                  ri_write_site = redact log2 (ss_symbol site)\<rparr>, [])
      else (Candidate, None, [no_echo_warning (redact log2 (site_system site))]))"

definition rule_for_site :: "(rat \<Rightarrow> rat) \<Rightarrow> signal_mapper \<Rightarrow> scan_site \<Rightarrow> rule_candidate res" where
  "rule_for_site log2 mapper site =
     res_bind (site_match_kind site) (\<lambda>match_kind.
     res_bind (signal_for mapper site) (\<lambda>signal.
     case site_wiring log2 site of (tier, injection, warnings) \<Rightarrow>
       Inr \<lparr>rc_name = redact log2 (ss_symbol site), rc_match_kind = match_kind,
            rc_match_target = redact log2 (ss_file site @ '':'' @ ss_symbol site),
            rc_when = redact log2 (default_when site), rc_signal = signal, rc_tier = tier,
            rc_run_id_injection = injection, rc_warnings = warnings, rc_confirmed = False\<rparr>))"

definition bindable :: "scan_site \<Rightarrow> bool" where
  "bindable site \<longleftrightarrow> ss_symbol site \<noteq> MODULE_SYMBOL"

definition skipped_warning :: "int \<Rightarrow> string" where
  "skipped_warning dropped = show_int dropped
     @ '' outcome site(s) were skipped: they sit at module scope, not inside a named function, so no rule could bind to them.''"

definition build_proposal :: "(rat \<Rightarrow> rat) \<Rightarrow> signal_mapper \<Rightarrow> bool \<Rightarrow> scan_result \<Rightarrow> proposal res" where
  "build_proposal log2 mapper shared_costs_inputs scan =
     (let sites = filter bindable (sx_outcome_sites scan);
          dropped = length (sx_outcome_sites scan) - length sites
      in res_bind (res_traverse (rule_for_site log2 mapper) sites) (\<lambda>rules.
         Inr \<lparr>pr_rules = rules, pr_entity_ids = map (redact log2) (sx_entity_ids scan),
              pr_shared_costs_present = shared_costs_inputs,
              pr_warnings = map (redact log2) (sx_warnings scan)
                @ (if dropped \<noteq> 0 then [skipped_warning (int dropped)] else [])\<rparr>))"

section \<open>Suggest\<close>

definition FLOOR_CONFIDENCE :: rat where "FLOOR_CONFIDENCE = lit 1 1"
definition MAX_CONFIDENCE :: rat where "MAX_CONFIDENCE = lit 95 2"

text \<open>\<open>re.compile("[a-z0-9]+").findall\<close>.\<close>

definition token_char :: "char \<Rightarrow> bool" where
  "token_char c \<longleftrightarrow> is_lower c \<or> is_digit c"

fun words :: "string \<Rightarrow> string \<Rightarrow> string list" where
  "words cur [] = (if cur = [] then [] else [cur])"
| "words cur (c # s) =
     (if token_char c then words (cur @ [c]) s
      else if cur = [] then words [] s else cur # words [] s)"

definition tokens_of :: "string \<Rightarrow> string list" where
  "tokens_of s = remdups (concat (map (\<lambda>raw. raw # filter (\<lambda>part. part \<noteq> []) (split_on (CHR ''_'') raw)) (words [] (lower s))))"

definition score_site :: "string list \<Rightarrow> scan_site \<Rightarrow> rat" where
  "score_site request_tokens site =
     (let site_tokens = tokens_of (ss_symbol site) in
      if site_tokens = [] then 0
      else fdiv (of_nat (length (filter (\<lambda>t. t \<in> set request_tokens) site_tokens))) (of_nat (length site_tokens)))"

definition match_confidence :: "rat \<Rightarrow> rat" where
  "match_confidence score =
     (if score \<le> 0 then FLOOR_CONFIDENCE
      else min MAX_CONFIDENCE (fadd FLOOR_CONFIDENCE (fmul score (fsub MAX_CONFIDENCE FLOOR_CONFIDENCE))))"

definition best_site :: "string list \<Rightarrow> scan_site list \<Rightarrow> rat \<times> scan_site" where
  "best_site request_tokens sites =
     (let scored = map (\<lambda>site. (score_site request_tokens site, site)) sites in first_max fst (hd scored) (tl scored))"

definition suggest_attribution_rule :: "(rat \<Rightarrow> rat) \<Rightarrow> signal_mapper \<Rightarrow> string \<Rightarrow> scan_result \<Rightarrow> suggested_rule res" where
  "suggest_attribution_rule log2 mapper natural_language scan =
     (let clean_nl = redact log2 natural_language; request_tokens = tokens_of clean_nl in
      if sx_outcome_sites scan = []
      then res_bind (mapper ''status_setter'' []) (\<lambda>s. res_bind (signal_of s) (\<lambda>signal.
        Inr \<lparr>sg_natural_language = clean_nl,
             sg_rule = \<lparr>rc_name = ''unmatched'', rc_match_kind = MStatusSetter, rc_match_target = [], rc_when = ''True'',
               rc_signal = signal, rc_tier = Likely, rc_run_id_injection = None, rc_warnings = [], rc_confirmed = False\<rparr>,
             sg_confidence = FLOOR_CONFIDENCE, sg_confirmed = False\<rparr>))
      else case best_site request_tokens (sx_outcome_sites scan) of (best_score, best) \<Rightarrow>
        res_bind (build_proposal log2 mapper False
          \<lparr>sx_run_boundaries = [], sx_outcome_sites = [best], sx_entity_ids = sx_entity_ids scan, sx_warnings = []\<rparr>) (\<lambda>p.
        case pr_rules p of
          [] \<Rightarrow> Inl IndexError
        | rule # _ \<Rightarrow> Inr \<lparr>sg_natural_language = clean_nl, sg_rule = rule, sg_confidence = match_confidence best_score,
            sg_confirmed = False\<rparr>))"

section \<open>Validate\<close>

text \<open>Every exception of the predicate validator leaves as \<open>UnsafePredicateError\<close>.\<close>

definition validate_rule :: "(string \<Rightarrow> unit res) \<Rightarrow> signal_mapper \<Rightarrow> rule_candidate \<Rightarrow> unit res" where
  "validate_rule validator mapper rule = (case validator (rc_when rule) of
     Inl _ \<Rightarrow> Inl UnsafePredicateError
   | Inr _ \<Rightarrow>
       res_bind (mapper (match_kind_value (rc_match_kind rule)) []) (\<lambda>s.
       res_bind (signal_of s) (\<lambda>expected.
       if rc_signal rule \<noteq> expected then Inl UnsafePredicateError else Inr ())))"

section \<open>Render\<close>

definition rule_mapping :: "(rat \<Rightarrow> rat) \<Rightarrow> rule_candidate \<Rightarrow> json" where
  "rule_mapping log2 rule = JObj (
     [(''name'', JStr (redact log2 (rc_name rule))),
      (''match_kind'', JStr (match_kind_value (rc_match_kind rule))),
      (''match_target'', JStr (redact log2 (rc_match_target rule))),
      (''when'', JStr (redact log2 (rc_when rule))),
      (''signal'', JStr (signal_value (rc_signal rule))),
      (''tier'', JStr (tier_value (rc_tier rule)))]
     @ (case rc_run_id_injection rule of None \<Rightarrow> [] | Some block \<Rightarrow>
         [(''run_id_injection'', JObj [(''system'', JStr (redact log2 (ri_system block))),
            (''target_field'', JStr (redact log2 (ri_target_field block))),
            (''write_site'', JStr (redact log2 (ri_write_site block)))])])
     @ (if rc_warnings rule = [] then []
        else [(''warnings'', JList (map (\<lambda>w. JStr (redact log2 w)) (rc_warnings rule)))]))"

definition yaml_dump :: "(json \<Rightarrow> string) \<Rightarrow> (rat \<Rightarrow> rat) \<Rightarrow> json \<Rightarrow> string" where
  "yaml_dump dump log2 payload = redact log2 (dump payload)"

definition outcomes_payload :: "(rat \<Rightarrow> rat) \<Rightarrow> proposal \<Rightarrow> json" where
  "outcomes_payload log2 p = JObj
     [(''version'', JInt 1),
      (''outcomes'', JList (map (rule_mapping log2) (sort_key rc_name (pr_rules p)))),
      (''entity_ids'', JList (map JStr (sort (map (redact log2) (pr_entity_ids p)))))]"

definition render_outcomes_yaml :: "(json \<Rightarrow> string) \<Rightarrow> (rat \<Rightarrow> rat) \<Rightarrow> proposal \<Rightarrow> string" where
  "render_outcomes_yaml dump log2 p = yaml_dump dump log2 (outcomes_payload log2 p)"

definition render_shared_costs_yaml :: "(json \<Rightarrow> string) \<Rightarrow> (rat \<Rightarrow> rat) \<Rightarrow> proposal \<Rightarrow> string option" where
  "render_shared_costs_yaml dump log2 p =
     (if \<not> pr_shared_costs_present p then None
      else Some (yaml_dump dump log2 (JObj [(''version'', JInt 1), (''shared_costs'', JList []),
        (''note'', JStr ''operator-supplied Tier-2/3 inputs (GPU seconds, monthly bills) go here'')])))"

definition nl :: string where "nl = [CHR 0x0A]"

definition render_agents_md_snippet :: "(rat \<Rightarrow> rat) \<Rightarrow> proposal \<Rightarrow> string" where
  "render_agents_md_snippet log2 p =
     (let joined = join_with '', '' (sort (map (\<lambda>r. redact log2 (rc_name r)) (pr_rules p)));
          names = (if joined = [] then ''(none)'' else joined)
      in ''## valuemaxx outcomes'' @ nl @ nl
         @ ''This repo declares cost-per-outcome rules in `outcomes.yaml` (read by the valuemaxx SDK at `init()`). Proposed outcomes: ''
         @ names @ ''.'' @ nl @ nl
         @ ''These rules are UNCONFIRMED until a human reviews the generated diff.'' @ nl)"

section \<open>The reviewable diff\<close>

definition INIT_LINE :: string where
  "INIT_LINE = ''import valuemaxx; valuemaxx.init()  # added by the onboarding agent''"

definition init_hunk :: "scan_site \<Rightarrow> diff_hunk" where
  "init_hunk boundary =
     (let line = show_int (ss_line boundary) in
      \<lparr>dh_file = ss_file boundary,
       dh_header = ''@@ -'' @ line @ '',0 +'' @ line @ '',1 @@ '' @ ss_symbol boundary,
       dh_lines = [''+    '' @ INIT_LINE]\<rparr>)"

text \<open>\<open>str.splitlines\<close> on ASCII text: a carriage return and line feed are one line end.\<close>

definition is_line_end :: "char \<Rightarrow> bool" where
  "is_line_end c \<longleftrightarrow> (let n = of_char c :: nat in (10 \<le> n \<and> n \<le> 13) \<or> (28 \<le> n \<and> n \<le> 30))"

fun py_lines :: "string \<Rightarrow> string \<Rightarrow> string list" where
  "py_lines cur [] = (if cur = [] then [] else [cur])"
| "py_lines cur (c # s) =
     (if c = CHR 0x0D \<and> s \<noteq> [] \<and> hd s = CHR 0x0A then cur # py_lines [] (tl s)
      else if is_line_end c then cur # py_lines [] s
      else py_lines (cur @ [c]) s)"

definition outcomes_yaml_hunk :: "(json \<Rightarrow> string) \<Rightarrow> (rat \<Rightarrow> rat) \<Rightarrow> proposal \<Rightarrow> diff_hunk" where
  "outcomes_yaml_hunk dump log2 p =
     (let body = py_lines [] (render_outcomes_yaml dump log2 p) in
      \<lparr>dh_file = ''outcomes.yaml'', dh_header = ''@@ -0,0 +1,'' @ show_int (int (length body)) @ '' @@'',
       dh_lines = map (\<lambda>line. ''+'' @ line) body\<rparr>)"

definition finalize_hunk :: "(rat \<Rightarrow> rat) \<Rightarrow> bool \<Rightarrow> diff_hunk \<Rightarrow> diff_hunk res" where
  "finalize_hunk log2 redact_first hunk0 =
     (let hunk = (if redact_first
        then \<lparr>dh_file = redact log2 (dh_file hunk0), dh_header = redact log2 (dh_header hunk0),
              dh_lines = map (redact log2) (dh_lines hunk0)\<rparr> else hunk0)
      in res_bind (assert_no_secret log2 (dh_file hunk)) (\<lambda>_.
         res_bind (assert_no_secret log2 (dh_header hunk)) (\<lambda>_.
         res_bind (res_traverse (assert_no_secret log2) (dh_lines hunk)) (\<lambda>_. Inr hunk))))"

definition build_reviewable_diff ::
  "(json \<Rightarrow> string) \<Rightarrow> (rat \<Rightarrow> rat) \<Rightarrow> proposal \<Rightarrow> scan_result \<Rightarrow> bool \<Rightarrow> diff_hunk list res" where
  "build_reviewable_diff dump log2 p scan redact_first =
     res_bind (res_traverse (\<lambda>boundary. finalize_hunk log2 redact_first (init_hunk boundary)) (sx_run_boundaries scan)) (\<lambda>hunks.
     res_bind (finalize_hunk log2 redact_first (outcomes_yaml_hunk dump log2 p)) (\<lambda>h. Inr (hunks @ [h])))"

section \<open>The GitHub App\<close>

definition ALLOWED_SCOPES :: "string list" where
  "ALLOWED_SCOPES = [''contents:read'', ''pull_requests:write'']"

definition assert_scopes :: "string list \<Rightarrow> unit res" where
  "assert_scopes scopes = (if list_ex (\<lambda>s. \<not> List.member ALLOWED_SCOPES s) scopes then Inl GithubScopeError else Inr ())"

definition read_file :: "(string, string) dict \<Rightarrow> string \<Rightarrow> string" where
  "read_file repo_files path = (case dict_get repo_files path of None \<Rightarrow> [] | Some t \<Rightarrow> t)"

definition hunk_body :: "(rat \<Rightarrow> rat) \<Rightarrow> diff_hunk \<Rightarrow> string list res" where
  "hunk_body log2 hunk =
     res_bind (assert_no_secret log2 (dh_file hunk)) (\<lambda>_.
     res_bind (assert_no_secret log2 (dh_header hunk)) (\<lambda>_.
     res_bind (res_traverse (assert_no_secret log2) (dh_lines hunk)) (\<lambda>_.
     Inr ([''--- '' @ dh_file hunk, dh_header hunk] @ dh_lines hunk))))"

definition open_pr :: "(rat \<Rightarrow> rat) \<Rightarrow> string \<Rightarrow> string \<Rightarrow> diff_hunk list \<Rightarrow> pull_request res" where
  "open_pr log2 branch title hunks =
     res_bind (res_traverse (hunk_body log2) hunks) (\<lambda>bodies.
     Inr \<lparr>pq_branch = branch, pq_title = title, pq_body = join_with nl (concat bodies)\<rparr>)"

section \<open>Preview\<close>

definition dry_run :: "(string \<Rightarrow> cost_per_outcome option res) \<Rightarrow> string \<Rightarrow> dry_run_preview res" where
  "dry_run reader outcome_name =
     res_bind (reader outcome_name) (\<lambda>result. Inr (case result of
       None \<Rightarrow> \<lparr>dp_outcome_name = outcome_name, dp_cost_per_outcome_usd = None, dp_minimum_tier = Likely,
         dp_confidence_distribution = [(Likely, 1)]\<rparr>
     | Some c \<Rightarrow> \<lparr>dp_outcome_name = outcome_name, dp_cost_per_outcome_usd = cpo_cost_usd c,
         dp_minimum_tier = cpo_minimum_tier c, dp_confidence_distribution = cpo_confidence_distribution c\<rparr>))"

section \<open>The service\<close>

record onboarding_service =
  os_signal_mapper :: signal_mapper
  os_predicate_validator :: "string \<Rightarrow> unit res"
  os_rollup_reader :: "string \<Rightarrow> cost_per_outcome option res"
  os_parsers :: parsers
  os_echo_order :: "string list"
  os_dump :: "json \<Rightarrow> string"
  os_log2 :: "rat \<Rightarrow> rat"

definition service_scan :: "onboarding_service \<Rightarrow> fs_entry list option \<Rightarrow> scan_result res" where
  "service_scan sv root_dir = scan_codebase (os_log2 sv) (os_echo_order sv) (os_parsers sv) root_dir"

definition service_propose :: "onboarding_service \<Rightarrow> scan_result \<Rightarrow> bool \<Rightarrow> (proposal \<times> diff_hunk list \<times> string) res" where
  "service_propose sv scan shared_costs_inputs =
     res_bind (build_proposal (os_log2 sv) (os_signal_mapper sv) shared_costs_inputs scan) (\<lambda>p.
     res_bind (build_reviewable_diff (os_dump sv) (os_log2 sv) p scan True) (\<lambda>diff.
     Inr (p, diff, render_outcomes_yaml (os_dump sv) (os_log2 sv) p)))"

definition service_suggest :: "onboarding_service \<Rightarrow> string \<Rightarrow> scan_result \<Rightarrow> suggested_rule res" where
  "service_suggest sv natural_language scan =
     suggest_attribution_rule (os_log2 sv) (os_signal_mapper sv) natural_language scan"

definition service_validate :: "onboarding_service \<Rightarrow> rule_candidate \<Rightarrow> bool res" where
  "service_validate sv rule =
     res_bind (validate_rule (os_predicate_validator sv) (os_signal_mapper sv) rule) (\<lambda>_. Inr True)"

definition service_dry_run :: "onboarding_service \<Rightarrow> string \<Rightarrow> dry_run_preview res" where
  "service_dry_run sv outcome_name = dry_run (os_rollup_reader sv) outcome_name"

text \<open>
  The capabilities as \<open>register\<close> adds them: the request models and the response schemas are
  parameters, and every handler raises.
\<close>

definition unbound :: "scope \<Rightarrow> 'i \<Rightarrow> 's \<Rightarrow> payload res \<times> 's" where
  "unbound sc request st = (Inl NotImplementedError, st)"

definition onboarding_capabilities ::
  "(string \<Rightarrow> 'i input_model) \<Rightarrow> (string \<Rightarrow> json) \<Rightarrow> ('i, 's) capability_spec res list" where
  "onboarding_capabilities inp out =
     (let rr = API OR MCP OR CLI; all_surfaces = API OR MCP OR CLI OR NOTIFY in
      [capability ''scan_codebase'' (inp ''ScanRequest'') (out ''ScanResult'') unbound
         ''Read-only AST scan of a codebase for run boundaries and outcome sites.'' rr RequestResponse [],
       capability ''suggest_attribution_rule'' (inp ''SuggestRequest'') (out ''SuggestResponse'') unbound
         ''Draft an UNCONFIRMED attribution rule from a natural-language request.'' all_surfaces RequestResponse [],
       capability ''validate_outcome_rule'' (inp ''ValidateRequest'') (out ''ValidateResponse'') unbound
         ''Validate a proposed outcome rule against the safe-predicate allowlist.'' rr RequestResponse [],
       capability ''dry_run_outcomes'' (inp ''DryRunRequest'') (out ''DryRunPreview'') unbound
         ''Preview cost-per-outcome for a proposed outcome (carries H7 confidence).'' all_surfaces AsyncJob [],
       capability ''propose_onboarding_diff'' (inp ''ProposeRequest'') (out ''ProposeResponse'') unbound
         ''Propose candidate outcome rules + a hunks-only reviewable diff.'' rr RequestResponse []])"

section \<open>Proposals\<close>

lemma case_result_Inr: "(case r of Inl _ \<Rightarrow> False | Inr x \<Rightarrow> P x) \<Longrightarrow> \<exists>x. r = Inr x \<and> P x"
  by (cases r) simp_all

lemma signal_of_Inr_iff: "signal_of s = Inr c \<longleftrightarrow> s = signal_value c"
  by (cases c) (auto simp: signal_of_def)

lemma signal_for_Inr:
  "signal_for mapper site = Inr c \<longleftrightarrow>
     (\<exists>k. site_match_kind site = Inr k \<and> mapper (match_kind_value k) [] = Inr (signal_value c))"
  by (auto simp: signal_for_def signal_of_Inr_iff)

definition site_rule_ok :: "signal_mapper \<Rightarrow> scan_site \<Rightarrow> rule_candidate \<Rightarrow> bool" where
  "site_rule_ok mapper site rule \<longleftrightarrow>
     \<not> rc_confirmed rule \<and>
     mapper (match_kind_value (rc_match_kind rule)) [] = Inr (signal_value (rc_signal rule)) \<and>
     (rc_tier rule = Exact) = (ss_kind site \<in> {StatusSetter, MarkFunction, OrmWrite}) \<and>
     (rc_tier rule = Candidate) = (ss_kind site = ExternalWrite \<and> \<not> ss_echoes_metadata site) \<and>
     rc_tier rule \<noteq> Likely \<and>
     (rc_run_id_injection rule \<noteq> None) = (ss_kind site = ExternalWrite \<and> ss_echoes_metadata site) \<and>
     (rc_warnings rule \<noteq> []) = (rc_tier rule = Candidate)"

lemma rule_for_site_ok:
  assumes "rule_for_site log2 mapper site = Inr rule"
  shows "site_rule_ok mapper site rule"
proof -
  obtain k c where k: "site_match_kind site = Inr k" and c: "mapper (match_kind_value k) [] = Inr (signal_value c)"
    and rule: "(case site_wiring log2 site of (tier, injection, warnings) \<Rightarrow>
       Inr \<lparr>rc_name = redact log2 (ss_symbol site), rc_match_kind = k,
            rc_match_target = redact log2 (ss_file site @ '':'' @ ss_symbol site),
            rc_when = redact log2 (default_when site), rc_signal = c, rc_tier = tier,
            rc_run_id_injection = injection, rc_warnings = warnings, rc_confirmed = False\<rparr>) = (Inr rule :: rule_candidate res)"
    using assms unfolding rule_for_site_def by (auto simp: signal_for_Inr)
  have "ss_kind site \<noteq> RunBoundary" using k by (auto simp: site_match_kind_def SITE_TO_MATCH_def)
  then show ?thesis using rule c
    by (cases "ss_kind site") (auto simp: site_rule_ok_def site_wiring_def IN_PROCESS_SITES_def split: if_splits)
qed

lemma build_proposal_rules:
  "build_proposal log2 mapper b scan = Inr p \<Longrightarrow>
     res_traverse (rule_for_site log2 mapper) (filter bindable (sx_outcome_sites scan)) = Inr (pr_rules p)"
  by (auto simp: build_proposal_def Let_def)

text \<open>
  A proposal has exactly one rule per outcome site inside a named function, in the order of
  the scan: unconfirmed, with the signal the system maps its kind to, exact only for a write
  the process itself makes, with a run id injection only where the system echoes it, and with a
  warning exactly when the tier falls back to matching entities.
\<close>

theorem proposal_rules_honest:
  assumes "build_proposal log2 mapper b scan = Inr p"
  shows "list_all2 (site_rule_ok mapper) (filter bindable (sx_outcome_sites scan)) (pr_rules p)"
proof -
  note r = build_proposal_rules [OF assms]
  show ?thesis
    unfolding list_all2_conv_all_nth
    using res_traverse_length [OF r] res_traverse_nth [OF r] rule_for_site_ok [of log2 mapper] by simp
qed

definition sample_scan :: scan_result where
  "sample_scan = \<lparr>sx_run_boundaries = [],
     sx_outcome_sites =
       [\<lparr>ss_kind = ExternalWrite, ss_file = ''pay.py'', ss_line = 4, ss_symbol = ''charge'', ss_snippet = '''',
         ss_system = Some ''stripe'', ss_echoes_metadata = True, ss_entity_ids = []\<rparr>,
        \<lparr>ss_kind = OrmWrite, ss_file = ''pay.py'', ss_line = 9, ss_symbol = ''<module>'', ss_snippet = '''',
         ss_system = None, ss_echoes_metadata = False, ss_entity_ids = []\<rparr>],
     sx_entity_ids = [], sx_warnings = []\<rparr>"

definition sample_mapper :: signal_mapper where
  "sample_mapper k declared = Inr (signal_value ActionAttempted)"

theorem proposal_rules_honest_witness:
  "\<exists>p. build_proposal (\<lambda>x. x) sample_mapper False sample_scan = Inr p \<and> map rc_name (pr_rules p) = [''charge''] \<and>
     list_all2 (site_rule_ok sample_mapper) (filter bindable (sx_outcome_sites sample_scan)) (pr_rules p)"
proof -
  have "case build_proposal (\<lambda>x. x) sample_mapper False sample_scan of Inl _ \<Rightarrow> False | Inr p \<Rightarrow> map rc_name (pr_rules p) = [''charge'']"
    by code_simp
  from case_result_Inr [OF this]
  obtain p where p: "build_proposal (\<lambda>x. x) sample_mapper False sample_scan = Inr p" "map rc_name (pr_rules p) = [''charge'']"
    by (elim exE conjE)
  show ?thesis by (intro exI [of _ p] conjI p proposal_rules_honest [OF p(1)])
qed

lemma redact_default_when: "redact log2 (default_when site) = default_when site"
proof -
  have "redact log2 ''args.status != None'' = ''args.status != None'' \<and>
    redact log2 ''event.type != None'' = ''event.type != None'' \<and> redact log2 ''True'' = ''True''" by code_simp
  then show ?thesis by (simp add: default_when_def)
qed

text \<open>Every rule a proposal holds passes validation by the same mapper, if the three default predicates are safe.\<close>

lemma proposed_rules_validate:
  assumes "build_proposal log2 mapper b scan = Inr p" "rule \<in> set (pr_rules p)"
    and "\<And>w. w \<in> {''args.status != None'', ''event.type != None'', ''True''} \<Longrightarrow> validator w = Inr ()"
  shows "validate_rule validator mapper rule = Inr ()"
proof -
  obtain i where i: "i < length (pr_rules p)" "rule = pr_rules p ! i" using assms(2) by (metis in_set_conv_nth)
  note r = build_proposal_rules [OF assms(1)]
  obtain site where site: "rule_for_site log2 mapper site = Inr rule"
    using res_traverse_nth [OF r] res_traverse_length [OF r] i by auto
  then have w: "rc_when rule = default_when site"
    by (cases "site_wiring log2 site") (auto simp: rule_for_site_def redact_default_when)
  have "validator (rc_when rule) = Inr ()" unfolding w by (rule assms(3)) (simp add: default_when_def)
  with rule_for_site_ok [OF site] show ?thesis
    by (simp add: validate_rule_def site_rule_ok_def)
qed

text \<open>
  The mapper of the outcomes package cannot be the one that is injected: it refuses the empty
  declaration that onboarding passes, so with it no site yields a rule and no rule validates.
\<close>

theorem outcomes_mapper_never_fits:
  "(\<exists>e. rule_for_site log2 map_signal site = Inl e) \<and> (\<exists>e. validate_rule validator map_signal rule = Inl e)"
proof -
  have m: "map_signal k [] = Inl ValueError" for k
    by (simp add: map_signal_def parse_declared_def signal_of_def)
  have "\<exists>e. rule_for_site log2 map_signal site = Inl e"
    by (cases "site_match_kind site") (simp_all add: rule_for_site_def signal_for_def m)
  moreover have "\<exists>e. validate_rule validator map_signal rule = Inl e"
    by (cases "validator (rc_when rule)") (simp_all add: validate_rule_def m)
  ultimately show ?thesis ..
qed

section \<open>Suggestions\<close>

text \<open>A request whose best site sits at module scope has no rule to return.\<close>

theorem module_site_suggestion_raises:
  "suggest_attribution_rule log2 mapper request
     \<lparr>sx_run_boundaries = [], sx_outcome_sites = [site\<lparr>ss_symbol := MODULE_SYMBOL\<rparr>], sx_entity_ids = ids, sx_warnings = ws\<rparr>
   = Inl IndexError"
  by (simp add: suggest_attribution_rule_def best_site_def build_proposal_def bindable_def Let_def)

lemma confidence_constants: "0 < FLOOR_CONFIDENCE" "FLOOR_CONFIDENCE \<le> MAX_CONFIDENCE" "MAX_CONFIDENCE \<le> 1"
  "is_double FLOOR_CONFIDENCE"
proof -
  show "is_double FLOOR_CONFIDENCE" by (simp add: FLOOR_CONFIDENCE_def lit_def)
  show "0 < FLOOR_CONFIDENCE" unfolding FLOOR_CONFIDENCE_def lit_def by (rule dbl.rnd_pos) simp
  show "FLOOR_CONFIDENCE \<le> MAX_CONFIDENCE" unfolding FLOOR_CONFIDENCE_def MAX_CONFIDENCE_def lit_def
    by (rule dbl.rnd_mono) simp
  show "MAX_CONFIDENCE \<le> 1" unfolding MAX_CONFIDENCE_def lit_def by (rule dbl_le) (use is_double_int [of 1] in simp_all)
qed

lemma match_confidence_range: "FLOOR_CONFIDENCE \<le> match_confidence score \<and> match_confidence score \<le> 1"
proof (cases "score \<le> 0")
  case False
  have "0 \<le> fsub MAX_CONFIDENCE FLOOR_CONFIDENCE" unfolding fsub_def by (rule dbl.rnd_nonneg) (use confidence_constants(2) in simp)
  then have "0 \<le> fmul score (fsub MAX_CONFIDENCE FLOOR_CONFIDENCE)"
    unfolding fmul_def by (intro dbl.rnd_nonneg mult_nonneg_nonneg) (use False in simp_all)
  then have "FLOOR_CONFIDENCE \<le> fadd FLOOR_CONFIDENCE (fmul score (fsub MAX_CONFIDENCE FLOOR_CONFIDENCE))"
    unfolding fadd_def by (intro dbl_ge) (simp_all add: confidence_constants(4))
  with False confidence_constants show ?thesis by (simp add: match_confidence_def min_def)
qed (use confidence_constants in \<open>simp add: match_confidence_def\<close>)

section \<open>The body of a pull request\<close>

lemma re_run_set_iff: "re_run (RSet P lo None) p s \<noteq> [] \<longleftrightarrow> lo \<le> length (takeWhile P s)"
  by (auto simp: greedy_counts_def)

lemma re_run_seq_iff:
  "re_run (RSeq a b) p s \<noteq> [] \<longleftrightarrow> (\<exists>x\<in>set (re_run a p s). re_run b (fst x) (snd x) \<noteq> [])"
  by (simp add: case_prod_beta)

lemma bearer_char_not_space: "bearer_char c \<Longrightarrow> \<not> is_space c"
  by (auto simp: class_defs Let_def less_eq_char_def)

lemma drop_takeWhile_split:
  "j \<le> length (takeWhile P s) \<Longrightarrow> drop j s = drop j (takeWhile P s) @ dropWhile P s"
  by (metis diff_is_0_eq drop_0 drop_append takeWhile_dropWhile_id)

text \<open>A bearer token: the word, blanks, and sixteen characters of a token right after them.\<close>

lemma bearer_run_iff:
  "re_run bearer_token p s \<noteq> [] \<longleftrightarrow>
     (\<exists>w. s = ''Bearer'' @ w \<and> 1 \<le> length (takeWhile is_space w) \<and> 16 \<le> length (takeWhile bearer_char (dropWhile is_space w)))"
proof
  assume "re_run bearer_token p s \<noteq> []"
  then have run: "re_run (RSeq (re_text ''Bearer'') (RSeq (RSet is_space 1 None) (RSet bearer_char 16 None))) p s \<noteq> []"
    unfolding bearer_token_def .
  have t: "take (length ''Bearer'') s = ''Bearer''"
  proof (rule ccontr)
    assume n: "take (length ''Bearer'') s \<noteq> ''Bearer''"
    from run show False unfolding re_run.simps(3) [of "re_text ''Bearer''"] re_text_run if_not_P [OF n] by simp
  qed
  have six: "length ''Bearer'' = 6" by simp
  define w where "w = drop 6 s"
  have s: "s = ''Bearer'' @ w" unfolding w_def using t append_take_drop_id [of 6 s] six by metis
  have r: "re_run (RSeq (RSet is_space 1 None) (RSet bearer_char 16 None)) (fst (advance 6 p s)) w \<noteq> []"
    using run unfolding re_run.simps(3) [of "re_text ''Bearer''"] re_text_run if_P [OF t] six
    by (simp add: advance_def w_def del: re_run.simps)
  obtain x where x: "x \<in> set (re_run (RSet is_space 1 None) (fst (advance 6 p s)) w)"
    "re_run (RSet bearer_char 16 None) (fst x) (snd x) \<noteq> []" using r unfolding re_run_seq_iff by blast
  obtain q u where "x = (q, u)" by (cases x)
  with x have qu: "(q, u) \<in> set (re_run (RSet is_space 1 None) (fst (advance 6 p s)) w)"
    "re_run (RSet bearer_char 16 None) q u \<noteq> []" by simp_all
  from qu(1) obtain j where j: "1 \<le> j" "j \<le> length (takeWhile is_space w)" "u = drop j w"
    by (auto simp: greedy_counts_set advance_def)
  have sixteen: "16 \<le> length (takeWhile bearer_char u)" using qu(2) unfolding re_run_set_iff .
  have u: "u = drop j (takeWhile is_space w) @ dropWhile is_space w" using drop_takeWhile_split [OF j(2)] j(3) by simp
  have "drop j (takeWhile is_space w) = []"
  proof (cases "drop j (takeWhile is_space w)")
    case (Cons c cs)
    then have "c \<in> set (takeWhile is_space w)" by (metis in_set_dropD list.set_intros(1))
    then have "is_space c" by (rule set_takeWhileD [THEN conjunct2])
    then have "takeWhile bearer_char u = []" using u Cons bearer_char_not_space by auto
    with sixteen show ?thesis by simp
  qed
  with u have "u = dropWhile is_space w" by simp
  with s j sixteen show "\<exists>w. s = ''Bearer'' @ w \<and> 1 \<le> length (takeWhile is_space w) \<and>
      16 \<le> length (takeWhile bearer_char (dropWhile is_space w))" by auto
next
  assume "\<exists>w. s = ''Bearer'' @ w \<and> 1 \<le> length (takeWhile is_space w) \<and> 16 \<le> length (takeWhile bearer_char (dropWhile is_space w))"
  then obtain w where w: "s = ''Bearer'' @ w" "1 \<le> length (takeWhile is_space w)"
    "16 \<le> length (takeWhile bearer_char (dropWhile is_space w))" by blast
  let ?j = "length (takeWhile is_space w)" and ?p = "fst (advance 6 p s)"
  have "?j \<in> set (greedy_counts 1 None (length (takeWhile is_space w)))" using w(2) by (simp add: greedy_counts_set)
  then have in1: "advance ?j ?p w \<in> set (re_run (RSet is_space 1 None) ?p w)" by simp
  have snd_adv: "snd (advance ?j ?p w) = dropWhile is_space w"
    by (simp add: advance_def) (metis append_eq_conv_conj takeWhile_dropWhile_id)
  have "re_run (RSet bearer_char 16 None) (fst (advance ?j ?p w)) (snd (advance ?j ?p w)) \<noteq> []"
    unfolding snd_adv re_run_set_iff by (rule w(3))
  with in1 have "re_run (RSeq (RSet is_space 1 None) (RSet bearer_char 16 None)) ?p w \<noteq> []"
    unfolding re_run_seq_iff by blast
  then show "re_run bearer_token p s \<noteq> []"
    unfolding bearer_token_def re_run.simps(3) [of "re_text ''Bearer''"] re_text_run using w(1) by (simp add: advance_def)
qed

definition line_guard :: "string \<Rightarrow> bool" where
  "line_guard y \<longleftrightarrow> length (takeWhile bearer_char (dropWhile is_space y)) < 16"

lemma takeWhile_stop: "\<not> P c \<Longrightarrow> takeWhile P (x @ c # y) = takeWhile P x"
  by (rule takeWhile_barrier)

lemma bearer_across:
  assumes "re_run bearer_token p (x @ CHR 0x0A # y) \<noteq> []" "line_guard y"
  shows "re_run bearer_token p x \<noteq> []"
proof -
  obtain w where w: "x @ CHR 0x0A # y = ''Bearer'' @ w" "1 \<le> length (takeWhile is_space w)"
    "16 \<le> length (takeWhile bearer_char (dropWhile is_space w))"
    using assms(1) unfolding bearer_run_iff by blast
  obtain w' where w': "x = ''Bearer'' @ w'" "w = w' @ CHR 0x0A # y"
  proof -
    consider us where "x = ''Bearer'' @ us" "us @ CHR 0x0A # y = w"
      | us where "x @ us = ''Bearer''" "CHR 0x0A # y = us @ w"
      using w(1) unfolding append_eq_append_conv2 by blast
    then show thesis
    proof cases
      case 1
      with that show thesis by simp
    next
      case (2 us)
      show thesis
      proof (cases us)
        case Nil
        with 2 that [of "[]"] show thesis by simp
      next
        case (Cons c us')
        then have "CHR 0x0A \<in> set ''Bearer''" using 2 by (metis append_Cons in_set_conv_decomp list.inject)
        then show thesis by simp
      qed
    qed
  qed
  have sp: "is_space (CHR 0x0A)" "\<not> bearer_char (CHR 0x0A)" by (simp_all add: class_defs)
  have "\<not> list_all is_space w'"
  proof
    assume "list_all is_space w'"
    then have "dropWhile is_space w = dropWhile is_space y" using sp(1) unfolding w'(2) by (induction w') auto
    with w(3) assms(2) show False by (simp add: line_guard_def)
  qed
  then have d: "dropWhile is_space w = dropWhile is_space w' @ CHR 0x0A # y" "w' \<noteq> []"
    unfolding w'(2) by (induction w') auto
  have "16 \<le> length (takeWhile bearer_char (dropWhile is_space w'))"
    using w(3) unfolding d(1) takeWhile_stop [of bearer_char, OF sp(2)] .
  moreover have "1 \<le> length (takeWhile is_space w')" using w(2) d(2) unfolding w'(2) by (cases w') (auto split: if_splits)
  ultimately show ?thesis unfolding bearer_run_iff using w'(1) by blast
qed

lemma newline_avoided:
  "r \<in> {admin_key, anthropic_key, openai_key, aws_key} \<Longrightarrow> avoids (CHR 0x0A) r"
  by (auto simp: admin_key_def anthropic_key_def openai_key_def aws_key_def class_defs)

lemma no_key_iff: "no_key s \<longleftrightarrow> (\<forall>r\<in>set REDACT_PREFIX_PATTERNS. \<forall>p. \<not> re_search r p s)"
  using masked_pattern.search_prev [OF prefix_patterns] unfolding no_key_def list_ex_iff by blast

lemma run_across:
  assumes "r \<in> set REDACT_PREFIX_PATTERNS" "re_run r p (x @ CHR 0x0A # y) \<noteq> []" "line_guard y"
  shows "re_run r p x \<noteq> []"
proof (cases "r = bearer_token")
  case True
  with bearer_across assms(2,3) show ?thesis by blast
next
  case False
  then have av: "avoids (CHR 0x0A) r" using assms(1) by (intro newline_avoided) (auto simp: REDACT_PREFIX_PATTERNS_def)
  obtain q t where "(q, t) \<in> set (re_run r p (x @ CHR 0x0A # y))" using assms(2) by (cases "re_run r p (x @ CHR 0x0A # y)") auto
  from re_run_cut [OF av this, of "[]"] show ?thesis by auto
qed

lemma no_key_join:
  assumes "no_key x" "no_key y" "line_guard y"
  shows "no_key (x @ nl @ y)"
  unfolding no_key_iff
proof (intro ballI allI notI)
  fix r p
  assume r: "r \<in> set REDACT_PREFIX_PATTERNS" and s: "re_search r p (x @ nl @ y)"
  note mp = prefix_patterns [OF r]
  have none: "re_run r q (x2 @ nl @ y) = []" if "x = x1 @ x2" for x1 x2 q
  proof (rule ccontr)
    assume "re_run r q (x2 @ nl @ y) \<noteq> []"
    then have "re_run r q x2 \<noteq> []" using run_across [OF r _ assms(3)] by (simp add: nl_def)
    then have "re_search r q x2" by (cases x2) auto
    then have "re_search r p x" unfolding that by (rule masked_pattern.search_suffix [OF mp])
    with assms(1) r show False unfolding no_key_iff by blast
  qed
  from re_search_append [OF s] none obtain q where q: "re_search r q (nl @ y)" by blast
  have "re_run r q (nl @ y) = []" using none [of x "[]"] by simp
  with q have "re_search r (Some (CHR 0x0A)) y" by (simp add: nl_def)
  with assms(2) r show False unfolding no_key_iff by blast
qed

definition line_start :: "string \<Rightarrow> bool" where
  "line_start y \<longleftrightarrow> (\<exists>c z. y = c # z \<and> \<not> is_space c \<and> \<not> bearer_char c) \<or> (\<exists>z. y = ''--- '' @ z)"

lemma line_start_guard: "line_start y \<Longrightarrow> line_guard (y @ z)"
  by (auto simp: line_start_def line_guard_def class_defs)

lemma join_no_key:
  assumes "list_all no_key xs" "list_all line_start xs"
  shows "no_key (join_with nl xs)"
  using assms
proof (induction xs rule: induct_list012)
  case 1
  have "no_key []" by code_simp
  then show ?case by simp
next
  case (3 x y zs)
  have "line_guard (join_with nl (y # zs))"
    using 3(4) line_start_guard [of y "[]"] line_start_guard [of y "nl @ join_with nl zs"] by (cases zs) auto
  with 3 show ?case using no_key_join [of x "join_with nl (y # zs)"] by simp
qed simp

definition starts_plain :: "string \<Rightarrow> bool" where
  "starts_plain y \<longleftrightarrow> (\<exists>c z. y = c # z \<and> \<not> is_space c \<and> \<not> bearer_char c)"

lemma masked_starts_plain:
  assumes "masked REDACTION_PLACEHOLDER s t" "starts_plain s"
  shows "starts_plain t"
proof -
  have ph: "starts_plain (REDACTION_PLACEHOLDER @ z)" for z
    by (simp add: starts_plain_def REDACTION_PLACEHOLDER_def class_defs)
  from masked_first [OF assms(1)] show ?thesis
  proof (elim disjE exE conjE)
    fix x s' t' assume "s = x @ s'" "t = x @ REDACTION_PLACEHOLDER @ t'"
    with assms(2) ph [of t'] show ?thesis by (cases x) (auto simp: starts_plain_def)
  qed (use assms(2) in simp)
qed

lemma redact_starts_plain:
  assumes "starts_plain s"
  shows "starts_plain (redact log2 s)"
proof -
  have "starts_plain t \<Longrightarrow> starts_plain (foldl (\<lambda>t p. re_sub p REDACTION_PLACEHOLDER t) t rs)" for t rs
    by (induction rs arbitrary: t) (simp_all add: masked_starts_plain [OF re_sub_masked])
  from masked_starts_plain [OF redact_masked_prefixes this [OF assms]] show ?thesis
    unfolding redact_eq by (rule masked_starts_plain [OF mask_runs_masked])
qed

lemma starts_plain_line: "starts_plain y \<Longrightarrow> line_start y"
  by (auto simp: starts_plain_def line_start_def)

lemma assert_no_secret_Inr: "assert_no_secret log2 s = Inr u \<Longrightarrow> no_key s"
  by (auto simp: assert_no_secret_def contains_secret_def no_key_def split: if_splits)

lemma assert_all_Inr: "res_traverse (assert_no_secret log2) xs = Inr us \<Longrightarrow> list_all no_key xs"
  using res_traverse_nth [of "assert_no_secret log2" xs us] res_traverse_length [of "assert_no_secret log2" xs us]
    assert_no_secret_Inr [of log2]
  by (metis list_all_length)

definition hunk_plain :: "diff_hunk \<Rightarrow> bool" where
  "hunk_plain h \<longleftrightarrow> starts_plain (dh_header h) \<and> list_all starts_plain (dh_lines h)"

lemma finalize_plain: "finalize_hunk log2 rf h = Inr h' \<Longrightarrow> hunk_plain h \<Longrightarrow> hunk_plain h'"
  by (auto simp: finalize_hunk_def Let_def hunk_plain_def redact_starts_plain list_all_iff split: if_splits)

lemma init_hunk_plain: "hunk_plain (init_hunk b)"
  by (simp add: hunk_plain_def init_hunk_def Let_def starts_plain_def class_defs)

lemma yaml_hunk_plain: "hunk_plain (outcomes_yaml_hunk dump log2 p)"
  by (simp add: hunk_plain_def outcomes_yaml_hunk_def Let_def starts_plain_def class_defs list_all_iff)

lemma diff_plain:
  assumes "build_reviewable_diff dump log2 p scan rf = Inr hunks"
  shows "list_all hunk_plain hunks"
proof -
  obtain hs h where hs: "res_traverse (\<lambda>b. finalize_hunk log2 rf (init_hunk b)) (sx_run_boundaries scan) = Inr hs"
    and h: "finalize_hunk log2 rf (outcomes_yaml_hunk dump log2 p) = Inr h" "hunks = hs @ [h]"
    using assms by (auto simp: build_reviewable_diff_def)
  have "hunk_plain (hs ! i)" if "i < length hs" for i
    using res_traverse_nth [OF hs] res_traverse_length [OF hs] that finalize_plain [OF _ init_hunk_plain] by metis
  then have "list_all hunk_plain hs" by (simp add: list_all_length)
  with finalize_plain [OF h(1) yaml_hunk_plain] h(2) show ?thesis by simp
qed

lemma file_line_no_key: "no_key f \<Longrightarrow> no_key (''--- '' @ f)"
proof -
  assume f: "no_key f"
  have "re_run r p (c # s) = []" if "r \<in> set REDACT_PREFIX_PATTERNS" "c \<in> {CHR ''-'', CHR '' ''}" for r p c s
    using that unfolding REDACT_PREFIX_PATTERNS_def
    by (auto simp: admin_key_def anthropic_key_def openai_key_def aws_key_def bearer_token_def one_of_def greedy_counts_def)
  with f show ?thesis unfolding no_key_iff by simp
qed

lemma hunk_body_lines:
  assumes "hunk_body log2 h = Inr ls" "hunk_plain h"
  shows "list_all no_key ls \<and> list_all line_start ls"
proof -
  obtain u1 u2 us where u: "assert_no_secret log2 (dh_file h) = Inr u1" "assert_no_secret log2 (dh_header h) = Inr u2"
    "res_traverse (assert_no_secret log2) (dh_lines h) = Inr us"
    and ls: "ls = [''--- '' @ dh_file h, dh_header h] @ dh_lines h"
    using assms(1) by (auto simp: hunk_body_def)
  have "list_all line_start (dh_lines h)" "line_start (dh_header h)"
    using assms(2) starts_plain_line by (auto simp: hunk_plain_def list_all_iff)
  moreover have "line_start (''--- '' @ dh_file h)" by (auto simp: line_start_def)
  ultimately show ?thesis
    using file_line_no_key [OF assert_no_secret_Inr [OF u(1)]] assert_no_secret_Inr [OF u(2)] assert_all_Inr [OF u(3)]
    unfolding ls by simp
qed

lemma open_pr_no_key:
  assumes "open_pr log2 branch title hunks = Inr pr" "list_all hunk_plain hunks"
  shows "no_key (pq_body pr)"
proof -
  obtain bodies where b: "res_traverse (hunk_body log2) hunks = Inr bodies" "pq_body pr = join_with nl (concat bodies)"
    using assms(1) by (auto simp: open_pr_def)
  have "list_all no_key (bodies ! i) \<and> list_all line_start (bodies ! i)" if "i < length bodies" for i
    using res_traverse_nth [OF b(1)] res_traverse_length [OF b(1)] that hunk_body_lines assms(2)
    by (metis list_all_length)
  then have "list_all no_key ls \<and> list_all line_start ls" if "ls \<in> set bodies" for ls
    using that unfolding in_set_conv_nth by blast
  then have "list_all no_key (concat bodies)" "list_all line_start (concat bodies)"
    by (auto simp: list_all_iff)
  then show ?thesis unfolding b(2) by (rule join_no_key)
qed

text \<open>
  C32. The pull request the agent opens carries no key: whatever the scanned source, the
  proposal and the YAML writer give, the body of a pull request made from a reviewable diff
  contains none of the key shapes, not even one that would form across two lines.
\<close>

theorem pull_request_carries_no_key:
  assumes "build_reviewable_diff dump log2 p scan redact_first = Inr hunks"
    and "open_pr log2 branch title hunks = Inr pr"
  shows "no_key (pq_body pr)"
  by (rule open_pr_no_key [OF assms(2) diff_plain [OF assms(1)]])

definition sample_proposal :: proposal where
  "sample_proposal = \<lparr>pr_rules = [], pr_entity_ids = [''ticket_id''], pr_shared_costs_present = False, pr_warnings = []\<rparr>"

definition sample_boundaries :: scan_result where
  "sample_boundaries = \<lparr>sx_run_boundaries =
     [\<lparr>ss_kind = RunBoundary, ss_file = ''app.py'', ss_line = 3, ss_symbol = ''answer'', ss_snippet = '''',
       ss_system = None, ss_echoes_metadata = False, ss_entity_ids = []\<rparr>],
     sx_outcome_sites = [], sx_entity_ids = [], sx_warnings = []\<rparr>"

theorem pull_request_carries_no_key_witness:
  "\<exists>hunks pr. build_reviewable_diff (\<lambda>_. ''version: 1'') (\<lambda>x. x) sample_proposal sample_boundaries False = Inr hunks \<and>
     open_pr (\<lambda>x. x) ''agent'' ''Outcomes'' hunks = Inr pr \<and> pq_body pr \<noteq> [] \<and> no_key (pq_body pr)"
proof -
  have "case build_reviewable_diff (\<lambda>_. ''version: 1'') (\<lambda>x. x) sample_proposal sample_boundaries False of
      Inl _ \<Rightarrow> False | Inr hunks \<Rightarrow> (case open_pr (\<lambda>x. x) ''agent'' ''Outcomes'' hunks of Inl _ \<Rightarrow> False | Inr pr \<Rightarrow> pq_body pr \<noteq> [])"
    by code_simp
  from case_result_Inr [OF this] obtain hunks where
    h: "build_reviewable_diff (\<lambda>_. ''version: 1'') (\<lambda>x. x) sample_proposal sample_boundaries False = Inr hunks"
    and c: "case open_pr (\<lambda>x. x) ''agent'' ''Outcomes'' hunks of Inl _ \<Rightarrow> False | Inr pr \<Rightarrow> pq_body pr \<noteq> []"
    by (elim exE conjE)
  from case_result_Inr [OF c] obtain pr where pr: "open_pr (\<lambda>x. x) ''agent'' ''Outcomes'' hunks = Inr pr" "pq_body pr \<noteq> []"
    by (elim exE conjE)
  show ?thesis
    by (intro exI [of _ hunks] exI [of _ pr] conjI h pr pull_request_carries_no_key [OF h pr(1)])
qed

text \<open>
  The gate of \<open>open_pr\<close> looks at one line at a time: for a diff that was not built by this
  package, a bearer token split over two lines passes it and stands whole in the body.
\<close>

theorem open_pr_misses_split_token:
  "case open_pr log2 b t [\<lparr>dh_file = ''a'', dh_header = ''h'', dh_lines = [''Bearer'', ''abcdefghijklmnop'']\<rparr>] of
     Inl _ \<Rightarrow> False | Inr pr \<Rightarrow> \<not> no_key (pq_body pr)"
  by code_simp

end
