(* ===== verification/Reconciliation_Edges.thy ===== *)
theory Reconciliation_Edges
  imports Reconciliation Capture_Ingest
begin

text \<open>
  How billed totals reach reconciliation (\<open>packages/reconciliation\<close>): the CSV upload
  (\<open>manual_csv.py\<close>), the provider cost clients (\<open>provider_api.py\<close>) and the two capability
  handlers (\<open>capabilities.py\<close>).

  \<open>csv.reader\<close> is its state machine for the default dialect, fed one character and one end of
  line at a time; the limit on the size of a field is not modelled. The transport of a client
  is a parameter, \<open>json_str\<close> of \<open>Capture_Ingest\<close> is \<open>str\<close> of a JSON value. Decimals that cross
  a capability as text are represented by their values in the responses, and the special
  values (NaN, infinities) only where the clients let them through.

  The lemmas: every row written with quoted fields is read back as it was, whatever the
  fields contain; the reconciled amounts of the day handler sum to the invoice; three
  theorems record inputs that escape the typed errors the modules promise.
\<close>

section \<open>The CSV reader\<close>

datatype csv_state = StartRecord | StartField | InField | InQuoted | QuoteInQuoted | EatCrnl

text \<open>State, current field, fields of the record; \<open>None\<close> is the end of a line.\<close>

type_synonym csv_machine = "csv_state \<times> string \<times> string list"

definition csv_start :: csv_machine where
  "csv_start = (StartRecord, [], [])"

abbreviation quote :: char where "quote \<equiv> CHR 0x22"
abbreviation comma :: char where "comma \<equiv> CHR 0x2C"
abbreviation line_feed :: char where "line_feed \<equiv> CHR 0x0A"

definition is_crnl :: "char \<Rightarrow> bool" where
  "is_crnl c \<longleftrightarrow> c = line_feed \<or> c = CHR 0x0D"

definition start_field :: "char \<Rightarrow> csv_machine \<Rightarrow> csv_machine" where
  "start_field c m = (case m of (st, field, cells) \<Rightarrow>
     if is_crnl c then (EatCrnl, [], cells @ [field])
     else if c = quote then (InQuoted, field, cells)
     else if c = comma then (StartField, [], cells @ [field])
     else (InField, field @ [c], cells))"

fun csv_char :: "char \<Rightarrow> csv_machine \<Rightarrow> csv_machine res" where
  "csv_char c (StartRecord, field, cells) =
     (if is_crnl c then Inr (EatCrnl, field, cells) else Inr (start_field c (StartField, field, cells)))"
| "csv_char c (StartField, field, cells) = Inr (start_field c (StartField, field, cells))"
| "csv_char c (InField, field, cells) =
     (if is_crnl c then Inr (EatCrnl, [], cells @ [field])
      else if c = comma then Inr (StartField, [], cells @ [field])
      else Inr (InField, field @ [c], cells))"
| "csv_char c (InQuoted, field, cells) =
     (if c = quote then Inr (QuoteInQuoted, field, cells) else Inr (InQuoted, field @ [c], cells))"
| "csv_char c (QuoteInQuoted, field, cells) =
     (if c = quote then Inr (InQuoted, field @ [c], cells)
      else if c = comma then Inr (StartField, [], cells @ [field])
      else if is_crnl c then Inr (EatCrnl, [], cells @ [field])
      else Inr (InField, field @ [c], cells))"
| "csv_char c (EatCrnl, field, cells) =
     (if is_crnl c then Inr (EatCrnl, field, cells) else Inl CsvError)"

fun csv_eol :: "csv_machine \<Rightarrow> csv_machine" where
  "csv_eol (StartRecord, field, cells) = (StartRecord, field, cells)"
| "csv_eol (InQuoted, field, cells) = (InQuoted, field, cells)"
| "csv_eol (EatCrnl, field, cells) = (StartRecord, field, cells)"
| "csv_eol (_, field, cells) = (StartRecord, [], cells @ [field])"

text \<open>
  The records of the text, in order: \<open>mid\<close> tells whether characters of the current line were
  read. A record ends when a line leaves the machine at its start; at the end of the text an
  open quoted field is closed. After an error nothing more is read.
\<close>

definition csv_finish :: "csv_machine \<Rightarrow> string list res list" where
  "csv_finish m = (case m of (st, field, cells) \<Rightarrow>
     if field \<noteq> [] \<or> st = InQuoted then [Inr (cells @ [field])] else [])"

fun csv_rows :: "csv_machine \<Rightarrow> bool \<Rightarrow> string \<Rightarrow> string list res list" where
  "csv_rows m mid [] =
     (if mid
      then (case csv_eol m of (st, field, cells) \<Rightarrow>
        if st = StartRecord then [Inr cells] else csv_finish (st, field, cells))
      else csv_finish m)"
| "csv_rows m mid (c # s) = (case csv_char c m of
     Inl e \<Rightarrow> [Inl e]
   | Inr m' \<Rightarrow>
       if c = line_feed
       then (case csv_eol m' of (st, field, cells) \<Rightarrow>
         if st = StartRecord then Inr cells # csv_rows csv_start False s
         else csv_rows (st, field, cells) False s)
       else csv_rows m' True s)"

definition csv_reader :: "string \<Rightarrow> string list res list" where
  "csv_reader s = csv_rows csv_start False s"

text \<open>\<open>DictReader\<close>: columns a short row lacks are \<open>None\<close>; the surplus of a long row is not read.\<close>

definition dict_row :: "string list \<Rightarrow> string list \<Rightarrow> (string, string option) dict" where
  "dict_row fieldnames row =
     foldl (\<lambda>d k. dict_set k None d) (foldl (\<lambda>d (k, v). dict_set k (Some v) d) [] (zip fieldnames row))
       (drop (length row) fieldnames)"

definition csv_header :: "string list res list \<Rightarrow> string list res" where
  "csv_header rows = (case rows of [] \<Rightarrow> Inr [] | r # _ \<Rightarrow> r)"

section \<open>The manual upload\<close>

definition REQUIRED_COLUMNS :: "string list" where
  "REQUIRED_COLUMNS = [''provider'', ''project'', ''model'', ''token_class'', ''day'', ''billed_usd'']"

text \<open>\<open>record[k]\<close>, known to be a column.\<close>

definition csv_cell :: "(string, string option) dict \<Rightarrow> string \<Rightarrow> string option" where
  "csv_cell d k = (case dict_get d k of None \<Rightarrow> None | Some v \<Rightarrow> v)"

text \<open>
  An amount that is not a numeral is rejected here, a special value by the model; both are
  \<open>ManualCsvError\<close>. \<open>None\<close> has no \<open>strip\<close>.
\<close>

definition parse_amount :: "string option \<Rightarrow> rat res" where
  "parse_amount raw = (case raw of
     None \<Rightarrow> Inl AttributeError
   | Some s \<Rightarrow> (case parse_decimal (strip s) of None \<Rightarrow> Inl ManualCsvError | Some v \<Rightarrow> Inr v))"

definition manual_row_of :: "tenant_id \<Rightarrow> (string, string option) dict \<Rightarrow> rat \<Rightarrow> manual_row res" where
  "manual_row_of tid d billed =
     (case (csv_cell d ''provider'', csv_cell d ''project'', csv_cell d ''model'', csv_cell d ''token_class'', csv_cell d ''day'') of
        (Some p, Some q, Some m, Some t, Some y) \<Rightarrow>
          (case manual_row_check \<lparr>mr_tenant_id = tid, mr_match_key = (p, q, m, t, y), mr_billed_usd = billed,
             mr_provenance = ManualReconciled\<rparr> of Inl _ \<Rightarrow> Inl ManualCsvError | Inr r \<Rightarrow> Inr r)
      | _ \<Rightarrow> Inl ManualCsvError)"

fun manual_rows :: "tenant_id \<Rightarrow> string list \<Rightarrow> string list res list \<Rightarrow> manual_row list res" where
  "manual_rows tid header [] = Inr []"
| "manual_rows tid header (Inl e # rows) = Inl e"
| "manual_rows tid header (Inr row # rows) =
     (if row = [] then manual_rows tid header rows
      else let d = dict_row header row in
        res_bind (parse_amount (csv_cell d ''billed_usd'')) (\<lambda>billed.
        res_bind (manual_row_of tid d billed) (\<lambda>r.
        res_bind (manual_rows tid header rows) (\<lambda>rs. Inr (r # rs)))))"

definition parse_manual_csv :: "string \<Rightarrow> tenant_id \<Rightarrow> manual_row list res" where
  "parse_manual_csv body tid =
     (let rows = csv_reader body in
      res_bind (csv_header rows) (\<lambda>header.
      if filter (\<lambda>c. \<not> List.member header c) REQUIRED_COLUMNS \<noteq> [] then Inl ManualCsvError
      else manual_rows tid header (tl rows)))"

section \<open>Provider cost clients\<close>

text \<open>A decimal with the special values \<open>Decimal\<close> also reads.\<close>

datatype py_decimal = DFinite rat | DNaN | DInfinity bool

definition parse_special :: "string \<Rightarrow> py_decimal option" where
  "parse_special s = (case take_sign (lower (filter (\<lambda>c. c \<noteq> CHR ''_'') (strip s))) of (neg, u) \<Rightarrow>
     if u = ''inf'' \<or> u = ''infinity'' then Some (DInfinity neg)
     else if take 3 u = ''nan'' \<and> list_all is_digit (drop 3 u) then Some DNaN
     else if take 4 u = ''snan'' \<and> list_all is_digit (drop 4 u) then Some DNaN
     else None)"

definition cost_amount :: "py_host \<Rightarrow> json \<Rightarrow> py_decimal res" where
  "cost_amount h raw = (let s = json_str h raw in
     case parse_decimal s of Some v \<Rightarrow> Inr (DFinite v)
   | None \<Rightarrow> (case parse_special s of Some d \<Rightarrow> Inr d | None \<Rightarrow> Inl ProviderCostApiError))"

record billed_total =
  bt_provider :: string
  bt_project :: string
  bt_model :: string
  bt_token_class :: string
  bt_day :: string
  bt_billed_usd :: py_decimal

definition require_admin_key :: "string \<Rightarrow> string res" where
  "require_admin_key key = (if key = [] \<or> strip key = [] then Inl AdminKeyRequiredError else Inr key)"

definition obj_items :: "json \<Rightarrow> (string, json) dict option" where
  "obj_items v = (case v of JObj m \<Rightarrow> Some m | _ \<Rightarrow> None)"

definition api_rows :: "json \<Rightarrow> (string, json) dict list res" where
  "api_rows payload = (case obj_items payload of
     None \<Rightarrow> Inl ProviderCostApiError
   | Some body \<Rightarrow> (case dict_get body ''data'' of
       None \<Rightarrow> Inl ProviderCostApiError
     | Some (JList items) \<Rightarrow> Inr (List.map_filter obj_items items)
     | Some _ \<Rightarrow> Inl ProviderCostApiError))"

definition api_field :: "(string, json) dict \<Rightarrow> string \<Rightarrow> json \<Rightarrow> json" where
  "api_field row k dflt = (case dict_get row k of None \<Rightarrow> dflt | Some v \<Rightarrow> v)"

definition openai_amount :: "(string, json) dict \<Rightarrow> json" where
  "openai_amount row = (case api_field row ''amount'' JNull of
     JObj m \<Rightarrow> api_field m ''value'' JNull | v \<Rightarrow> v)"

definition openai_total :: "py_host \<Rightarrow> string \<Rightarrow> (string, json) dict \<Rightarrow> billed_total res" where
  "openai_total h day row =
     res_bind (cost_amount h (openai_amount row)) (\<lambda>billed.
     Inr \<lparr>bt_provider = ''openai'', bt_project = json_str h (api_field row ''project_id'' (JStr [])),
          bt_model = json_str h (api_field row ''model'' (JStr [])),
          bt_token_class = json_str h (api_field row ''line_item'' (JStr [])), bt_day = day, bt_billed_usd = billed\<rparr>)"

definition anthropic_total :: "py_host \<Rightarrow> string \<Rightarrow> (string, json) dict \<Rightarrow> billed_total res" where
  "anthropic_total h day row =
     res_bind (cost_amount h (api_field row ''cost_usd'' JNull)) (\<lambda>billed.
     Inr \<lparr>bt_provider = ''anthropic'', bt_project = json_str h (api_field row ''workspace_id'' (JStr [])),
          bt_model = json_str h (api_field row ''model'' (JStr [])),
          bt_token_class = json_str h (api_field row ''token_class'' (JStr [])), bt_day = day, bt_billed_usd = billed\<rparr>)"

text \<open>
  A client is its admin key, checked when it is built; a fetch sends one request. The
  transport gets the URL and the headers.
\<close>

type_synonym cost_transport = "string \<Rightarrow> (string, string) dict \<Rightarrow> json res"

definition openai_fetch :: "py_host \<Rightarrow> cost_transport \<Rightarrow> string \<Rightarrow> string \<Rightarrow> billed_total list res" where
  "openai_fetch h get admin_key day =
     res_bind (require_admin_key admin_key) (\<lambda>key.
     res_bind (get (''https://api.openai.com/v1/organization/costs?date='' @ day) [(''Authorization'', ''Bearer '' @ key)]) (\<lambda>payload.
     res_bind (api_rows payload) (\<lambda>rows. res_traverse (openai_total h day) rows)))"

definition anthropic_fetch :: "py_host \<Rightarrow> cost_transport \<Rightarrow> string \<Rightarrow> string \<Rightarrow> billed_total list res" where
  "anthropic_fetch h get admin_key day =
     res_bind (require_admin_key admin_key) (\<lambda>key.
     res_bind (get (''https://api.anthropic.com/v1/organizations/cost_report?starting_at='' @ day)
       [(''x-api-key'', key), (''anthropic-version'', ''2023-06-01'')]) (\<lambda>payload.
     res_bind (api_rows payload) (\<lambda>rows. res_traverse (anthropic_total h day) rows)))"

section \<open>Capability handlers\<close>

record reconcile_day_input =
  di_tenant_id :: string
  di_day :: string
  di_match_key :: "string list"
  di_estimates :: "(string, string) dict"
  di_billed_total :: string

record reconcile_day_output =
  do_record_id :: string
  do_estimated_total :: rat
  do_billed_total :: rat
  do_proration_factor :: rat
  do_drift_pct :: rat
  do_drift_causes :: "string list"
  do_reconciled_by_request :: "(string, rat) dict"

text \<open>\<open>Decimal(text)\<close> in a handler, for a numeral; \<open>datetime.now\<close> is \<open>now\<close>.\<close>

definition decimal_arg :: "string \<Rightarrow> rat res" where
  "decimal_arg s = (case parse_decimal s of None \<Rightarrow> Inl InvalidOperation | Some v \<Rightarrow> Inr v)"

definition match_key_arg :: "string list \<Rightarrow> match_key res" where
  "match_key_arg ps = (case ps of [a, b, c, d, e] \<Rightarrow> Inr (a, b, c, d, e) | _ \<Rightarrow> Inl ValueError)"

definition reconcile_day_handler :: "reconcile_day_input \<Rightarrow> instant \<Rightarrow> reconcile_day_output res" where
  "reconcile_day_handler q now =
     res_bind (parse_uuid (di_tenant_id q)) (\<lambda>tid.
     res_bind (match_key_arg (di_match_key q)) (\<lambda>k.
     res_bind (res_traverse (\<lambda>(rid, v). res_bind (decimal_arg v) (\<lambda>x.
         Inr \<lparr>er_request_id = rid, er_match_key = k, er_estimated_usd = x\<rparr>)) (di_estimates q)) (\<lambda>rows.
     res_bind (decimal_arg (di_billed_total q)) (\<lambda>billed.
     res_bind (reconcile_match_key empty_db tid k rows billed
         (di_day q @ '':'' @ join_with ''|'' (di_match_key q) @ '':1'') now) (\<lambda>(o', _).
     let r = ro_record o' in
     Inr \<lparr>do_record_id = rec_id r, do_estimated_total = rec_estimated_total r, do_billed_total = rec_billed_total r,
          do_proration_factor = rec_proration_factor r, do_drift_pct = rec_drift_pct r,
          do_drift_causes = rec_drift_cause_ranked r, do_reconciled_by_request = ro_reconciled_by_request o'\<rparr>)))))"

record cost_breakdown_output =
  cb_breakdown :: provenance_breakdown
  cb_total_usd :: rat
  cb_pct_reconciled :: rat

definition cost_breakdown_handler :: "string \<Rightarrow> string \<Rightarrow> string \<Rightarrow> cost_breakdown_output res" where
  "cost_breakdown_handler reconciled provisional estimate_only =
     res_bind (decimal_arg reconciled) (\<lambda>a.
     res_bind (decimal_arg provisional) (\<lambda>b.
     res_bind (decimal_arg estimate_only) (\<lambda>c.
     res_bind (build_breakdown [\<lparr>sl_state = StateProviderReconciled, sl_amount = a\<rparr>, \<lparr>sl_state = StateProvisional, sl_amount = b\<rparr>,
         \<lparr>sl_state = StateEstimateOnly, sl_amount = c\<rparr>] []) (\<lambda>v. let bd = rv_breakdown v in
     Inr \<lparr>cb_breakdown = bd, cb_total_usd = total_usd bd, cb_pct_reconciled = pct_reconciled bd\<rparr>))))"

section \<open>Reading back a written row\<close>

text \<open>A field between quotes, with the quotes inside doubled; a row ended by a line feed.\<close>

definition csv_field :: "string \<Rightarrow> string" where
  "csv_field f = quote # concat (map (\<lambda>c. if c = quote then [quote, quote] else [c]) f) @ [quote]"

fun csv_line :: "string list \<Rightarrow> string" where
  "csv_line [] = [line_feed]"
| "csv_line [f] = csv_field f @ [line_feed]"
| "csv_line (f # fs) = csv_field f @ comma # csv_line fs"

definition csv_text :: "string list list \<Rightarrow> string" where
  "csv_text rows = concat (map csv_line rows)"

lemma csv_rows_mid: "csv_rows m b (c # s) = csv_rows m b' (c # s)"
  by simp

lemma quoted_step: "csv_rows (InQuoted, field, cells) b (c # s) =
  (if c = quote then csv_rows (QuoteInQuoted, field, cells) True s
   else csv_rows (InQuoted, field @ [c], cells) (c \<noteq> line_feed) s)"
  by simp

lemma read_quoted:
  "csv_rows (InQuoted, field, cells) b (concat (map (\<lambda>c. if c = quote then [quote, quote] else [c]) f) @ quote # s) =
     csv_rows (QuoteInQuoted, field @ f, cells) True s"
proof (induction f arbitrary: field b)
  case (Cons c f)
  show ?case
  proof (cases "c = quote")
    case True
    have "csv_rows (InQuoted, field, cells) b (quote # quote # r) = csv_rows (InQuoted, field @ [quote], cells) True r" for r
      by simp
    with True Cons.IH [of "field @ [quote]" True] show ?thesis by (simp del: csv_rows.simps)
  next
    case False
    with Cons.IH [of "field @ [c]"] show ?thesis by (simp add: quoted_step del: csv_rows.simps)
  qed
qed (simp add: quoted_step del: csv_rows.simps)

lemma read_field:
  assumes "st \<in> {StartRecord, StartField}"
  shows "csv_rows (st, [], cells) b (csv_field f @ s) = csv_rows (QuoteInQuoted, f, cells) True s"
proof -
  have "csv_rows (st, [], cells) b (quote # r) = csv_rows (InQuoted, [], cells) True r" for r
    using assms by (auto simp: start_field_def is_crnl_def)
  then show ?thesis using read_quoted [of "[]" cells True f s] by (simp add: csv_field_def del: csv_rows.simps)
qed

lemma read_line:
  assumes "fs \<noteq> []" "st \<in> {StartRecord, StartField}"
  shows "csv_rows (st, [], cells) b (csv_line fs @ s) = Inr (cells @ fs) # csv_rows csv_start False s"
  using assms
proof (induction fs arbitrary: st cells b rule: csv_line.induct)
  case (2 f)
  have "csv_rows (QuoteInQuoted, f, cells) True (line_feed # s) = Inr (cells @ [f]) # csv_rows csv_start False s"
    by (simp add: is_crnl_def)
  then show ?case using read_field [OF 2(2), of cells b f] by (simp del: csv_rows.simps)
next
  case (3 f g fs)
  have "csv_rows (QuoteInQuoted, f, cells) True (comma # r) = csv_rows (StartField, [], cells @ [f]) True r" for r
    by (simp add: is_crnl_def)
  then show ?case using read_field [OF 3(3), of cells b f] 3(1) [of StartField "cells @ [f]" True] by (simp del: csv_rows.simps)
qed simp

lemma csv_reader_text: "list_all (\<lambda>r. r \<noteq> []) rows \<Longrightarrow> csv_reader (csv_text rows) = map Inr rows"
  unfolding csv_reader_def
proof (induction rows)
  case (Cons r rows)
  then have "csv_rows (StartRecord, [], []) False (csv_line r @ csv_text rows) = Inr r # csv_rows csv_start False (csv_text rows)"
    using read_line [of r StartRecord "[]" False "csv_text rows"] by simp
  with Cons show ?case by (simp add: csv_text_def csv_start_def del: csv_rows.simps)
qed (simp add: csv_text_def csv_start_def csv_finish_def)

text \<open>The header and the rows an upload of the given rows consists of.\<close>

definition upload_row :: "string \<times> manual_row \<Rightarrow> string list" where
  "upload_row ar = (case mr_match_key (snd ar) of (p, q, m, t, y) \<Rightarrow> [p, q, m, t, y, fst ar])"

definition upload_ok :: "tenant_id \<Rightarrow> string \<times> manual_row \<Rightarrow> bool" where
  "upload_ok tid ar \<longleftrightarrow> parse_decimal (strip (fst ar)) = Some (mr_billed_usd (snd ar)) \<and> 0 \<le> mr_billed_usd (snd ar) \<and>
     mr_tenant_id (snd ar) = tid \<and> mr_provenance (snd ar) = ManualReconciled"

lemma upload_cells:
  "csv_cell (dict_row REQUIRED_COLUMNS [p, q, m, t, y, a]) k =
     (if k = ''provider'' then Some p else if k = ''project'' then Some q else if k = ''model'' then Some m
      else if k = ''token_class'' then Some t else if k = ''day'' then Some y else if k = ''billed_usd'' then Some a else None)"
  by (simp add: csv_cell_def dict_row_def REQUIRED_COLUMNS_def)

lemma manual_rows_upload:
  "list_all (upload_ok tid) ars \<Longrightarrow> manual_rows tid REQUIRED_COLUMNS (map (\<lambda>ar. Inr (upload_row ar)) ars) = Inr (map snd ars)"
proof (induction ars)
  case (Cons ar ars)
  obtain a r where ar: "ar = (a, r)" by (cases ar)
  obtain p q m t y where k: "mr_match_key r = (p, q, m, t, y)" by (cases "mr_match_key r")
  have ok: "parse_decimal (strip a) = Some (mr_billed_usd r)" "\<not> mr_billed_usd r < 0" "mr_tenant_id r = tid" "mr_provenance r = ManualReconciled"
    using Cons.prems by (auto simp: upload_ok_def ar)
  have "\<lparr>mr_tenant_id = tid, mr_match_key = (p, q, m, t, y), mr_billed_usd = mr_billed_usd r, mr_provenance = ManualReconciled\<rparr> = r"
    using ok(3,4) k by (cases r) simp
  then have "manual_row_of tid (dict_row REQUIRED_COLUMNS [p, q, m, t, y, a]) (mr_billed_usd r) = Inr r"
    using ok(2,4) by (simp add: manual_row_of_def upload_cells manual_row_check_def)
  moreover have "parse_amount (csv_cell (dict_row REQUIRED_COLUMNS [p, q, m, t, y, a]) ''billed_usd'') = Inr (mr_billed_usd r)"
    by (simp add: parse_amount_def upload_cells ok(1))
  ultimately show ?case using Cons ar k by (simp add: upload_row_def Let_def)
qed simp

text \<open>
  C33. An upload is read back exactly: rows written with quoted fields, whatever commas,
  quotes or line ends the provider, project, model, token class or day contain, become those
  manual rows in order, labelled \<open>manual_reconciled\<close> for the tenant of the upload.
\<close>

theorem manual_csv_roundtrip:
  assumes "list_all (upload_ok tid) ars"
  shows "parse_manual_csv (csv_text (REQUIRED_COLUMNS # map upload_row ars)) tid = Inr (map snd ars)"
proof -
  have "upload_row ar \<noteq> []" for ar by (cases "mr_match_key (snd ar)") (simp add: upload_row_def)
  then have "csv_reader (csv_text (REQUIRED_COLUMNS # map upload_row ars)) =
    Inr REQUIRED_COLUMNS # map (\<lambda>ar. Inr (upload_row ar)) ars"
    by (subst csv_reader_text) (auto simp: list_all_iff REQUIRED_COLUMNS_def)
  moreover have "filter (\<lambda>c. \<not> List.member REQUIRED_COLUMNS c) REQUIRED_COLUMNS = []"
    by (simp add: REQUIRED_COLUMNS_def)
  ultimately show ?thesis
    using manual_rows_upload [OF assms] by (simp add: parse_manual_csv_def csv_header_def)
qed

theorem manual_csv_roundtrip_witness:
  "parse_manual_csv (csv_text [REQUIRED_COLUMNS, [''aws'', ''team, a'', ''claude'', ''output'', ''2026-01-01'', ''12.5'']]) ''t'' =
     Inr [\<lparr>mr_tenant_id = ''t'', mr_match_key = (''aws'', ''team, a'', ''claude'', ''output'', ''2026-01-01''),
       mr_billed_usd = 25 / 2, mr_provenance = ManualReconciled\<rparr>]"
proof -
  let ?r = "\<lparr>mr_tenant_id = ''t'', mr_match_key = (''aws'', ''team, a'', ''claude'', ''output'', ''2026-01-01''),
       mr_billed_usd = 25 / 2, mr_provenance = ManualReconciled\<rparr>"
  have "parse_decimal (strip ''12.5'') = Some (25 / 2)" by code_simp
  then have "list_all (upload_ok ''t'') [(''12.5'', ?r)]" by (simp add: upload_ok_def)
  from manual_csv_roundtrip [OF this] show ?thesis by (simp add: upload_row_def)
qed

text \<open>
  Two malformed uploads escape as other exceptions than \<open>ManualCsvError\<close>: a row without its
  amount column, and lines that end in a lone carriage return.
\<close>

theorem manual_csv_untyped_errors:
  "parse_manual_csv (''provider,project,model,token_class,day,billed_usd'' @ [line_feed] @ ''aws,p,m,output,d'') tid = Inl AttributeError \<and>
   parse_manual_csv (''provider,project,model,token_class,day,billed_usd'' @ [CHR 0x0D] @ ''aws,p,m,output,d,1'') tid = Inl CsvError"
  by code_simp

text \<open>
  A cost API amount of not-a-number becomes a billed total instead of the typed error, and an
  absent project given as null becomes the text \<open>None\<close>.
\<close>

theorem cost_api_accepts_nan:
  "openai_total h day [(''project_id'', JNull), (''amount'', JObj [(''value'', JStr ''NaN'')])] =
     Inr \<lparr>bt_provider = ''openai'', bt_project = ''None'', bt_model = [], bt_token_class = [], bt_day = day, bt_billed_usd = DNaN\<rparr>"
  by code_simp

section \<open>The day handler\<close>

text \<open>
  The \<open>reconcile_day\<close> capability returns one amount per request of its estimates, in
  their order, and the amounts sum to the billed total exactly.
\<close>

theorem reconcile_day_handler_exact:
  assumes "parse_uuid (di_tenant_id q) = Inr tid" "length (di_match_key q) = 5" "distinct (map fst (di_estimates q))"
    and "res_traverse decimal_arg (map snd (di_estimates q)) = Inr es" "decimal_arg (di_billed_total q) = Inr billed"
    and "prorate_domain es billed"
  shows "\<exists>out. reconcile_day_handler q now = Inr out \<and> do_billed_total out = billed \<and>
     map fst (do_reconciled_by_request out) = map fst (di_estimates q) \<and>
     sum_list (map snd (do_reconciled_by_request out)) = billed"
proof -
  obtain k where k: "match_key_arg (di_match_key q) = Inr k"
    using assms(2) by (auto simp: match_key_arg_def length_Suc_conv numeral_eq_Suc)
  let ?row = "\<lambda>(rid, v). res_bind (decimal_arg v) (\<lambda>x. Inr \<lparr>er_request_id = rid, er_match_key = k, er_estimated_usd = x\<rparr>)"
  have rows: "\<exists>rows. res_traverse ?row l = Inr rows \<and> map er_request_id rows = map fst l \<and> map er_estimated_usd rows = xs"
    if "res_traverse decimal_arg (map snd l) = Inr xs" for l xs
    using that
  proof (induction l arbitrary: xs)
    case (Cons p l)
    obtain rid v where p: "p = (rid, v)" by (cases p)
    with Cons.prems obtain x ys where x: "decimal_arg v = Inr x" "res_traverse decimal_arg (map snd l) = Inr ys" "xs = x # ys"
      by (cases "decimal_arg v"; cases "res_traverse decimal_arg (map snd l)") auto
    from Cons.IH [OF x(2)] x p show ?case by force
  qed simp
  from rows [OF assms(4)] obtain rs where rs: "res_traverse ?row (di_estimates q) = Inr rs"
    "map er_request_id rs = map fst (di_estimates q)" "map er_estimated_usd rs = es" by blast
  have "prorate_domain (map er_estimated_usd rs) billed" "distinct (map er_request_id rs)" using assms(3,6) rs by simp_all
  from reconcile_match_key_sums [OF this, of empty_db "di_day q @ '':'' @ join_with ''|'' (di_match_key q) @ '':1''" tid k now]
  obtain o' d' where o': "reconcile_match_key empty_db tid k rs billed (di_day q @ '':'' @ join_with ''|'' (di_match_key q) @ '':1'') now = Inr (o', d')"
    "rec_billed_total (ro_record o') = billed" "map fst (ro_reconciled_by_request o') = map er_request_id rs"
    "sum_list (map snd (ro_reconciled_by_request o')) = billed"
    by (auto simp: empty_db_def)
  show ?thesis
    unfolding reconcile_day_handler_def using assms(1,5) k rs(1,2) o' by (simp add: Let_def)
qed

definition sample_day_input :: reconcile_day_input where
  "sample_day_input = \<lparr>di_tenant_id = uuid_text 0, di_day = ''2026-01-01'',
     di_match_key = [''openai'', ''p'', ''m'', ''output'', ''2026-01-01''],
     di_estimates = [(''a'', ''1''), (''b'', ''1''), (''c'', ''1'')], di_billed_total = ''10''\<rparr>"

theorem reconcile_day_handler_exact_witness:
  "\<exists>out. reconcile_day_handler sample_day_input 0 = Inr out \<and> map fst (do_reconciled_by_request out) = [''a'', ''b'', ''c''] \<and>
     sum_list (map snd (do_reconciled_by_request out)) = 10"
proof -
  let ?q = sample_day_input
  have u: "parse_uuid (di_tenant_id ?q) = Inr (uuid_text 0)" by (simp add: sample_day_input_def parse_uuid_text)
  have d: "decimal_arg ''1'' = Inr 1" "decimal_arg ''10'' = Inr 10" by code_simp+
  have e: "res_traverse decimal_arg (map snd (di_estimates ?q)) = Inr [1, 1, 1]" "decimal_arg (di_billed_total ?q) = Inr 10"
    by (simp_all add: sample_day_input_def d)
  have p: "prorate_domain [1, 1, 1] 10" using sample_reconcile(1) by (simp add: sample_estimates_def)
  have m: "length (di_match_key ?q) = 5" "distinct (map fst (di_estimates ?q))" by (simp_all add: sample_day_input_def)
  from reconcile_day_handler_exact [OF u m e p, of 0] show ?thesis by (auto simp: sample_day_input_def)
qed

end
