(* ===== verification/Capability_Catalog.thy ===== *)
theory Capability_Catalog
  imports Onboarding Allocation Reconciliation_Edges
begin

text \<open>
  The capabilities the packages declare: their \<open>register\<close> functions (\<open>capabilities.py\<close> of
  capture, outcomes, attribution, reconciliation, allocation, metrics and eval, and
  \<open>scaffold_caps.py\<close>), assembled by the canonical registry, and the handlers that belong to no
  other theory: \<open>allocated_cost_rollup\<close>, the two rule handlers of outcomes, and the two
  scaffolds.

  A declaration carries its name, description, surfaces and mode; the request models, response
  schemas, examples and handlers are parameters indexed by their names in the source. A dash
  outside ASCII in a description is written \<open>--\<close>.

  The theorems: assembly succeeds and yields each name once, with the working declaration of
  the one name two packages share; the rule handlers answer every document.
\<close>

unbundle bit_operations_syntax

section \<open>Declarations\<close>

type_synonym ('i, 's) handler = "scope \<Rightarrow> 'i \<Rightarrow> 's \<Rightarrow> payload res \<times> 's"

type_synonym ('i, 's) declared =
  "(string \<Rightarrow> 'i input_model) \<Rightarrow> (string \<Rightarrow> json) \<Rightarrow> (string \<Rightarrow> json list) \<Rightarrow> (string \<Rightarrow> ('i, 's) handler)
     \<Rightarrow> ('i, 's) capability_spec res list"

definition capture_capabilities :: "('i, 's) declared" where
  "capture_capabilities inp out exs hdl =
     [capability ''ingest_otlp_span'' (inp ''IngestOtlpSpanInput'') (out ''IngestOtlpSpanOutput'') (hdl ''capture.ingest_otlp_span'')
        ''Ingest one OTLP span as a CostEvent (universal/TS producer path).''
        (API) RequestResponse [],
      capability ''list_cost_sources'' (inp ''ListCostSourcesInput'') (out ''ListCostSourcesOutput'') (hdl ''capture.list_cost_sources'')
        ''List the wired cost sources (authoritative spend / reconciled actuals).''
        (API OR MCP OR CLI) RequestResponse [],
      capability ''capture_healthcheck'' (inp ''CaptureHealthcheckInput'') (out ''CaptureHealthcheckOutput'') (hdl ''capture.capture_healthcheck'')
        ''Report capture liveness and the effective capture granularity.''
        (API OR MCP OR CLI) RequestResponse []]"

definition outcomes_capabilities :: "('i, 's) declared" where
  "outcomes_capabilities inp out exs hdl =
     [capability ''ingest_webhook_outcome'' (inp ''IngestWebhookOutcomeRequest'') (out ''IngestWebhookOutcomeResponse'') (hdl ''outcomes.ingest_webhook_outcome'')
        ''Ingest an inbound outcome webhook: verify signature + ingest key before parse, then bind run_id via T3 echo or fall back to T4 entity (labeled).''
        (API) WebhookInbound [],
      capability ''validate_outcome_rule'' (inp ''ValidateOutcomeRuleRequest'') (out ''ValidateOutcomeRuleResponse'') (hdl ''outcomes.validate_outcome_rule'')
        ''Validate an outcomes.yaml document through the safe loader and AST allowlist; an eval/exec/dunder predicate is rejected, never executed.''
        (API OR MCP OR CLI) RequestResponse [],
      capability ''list_outcome_rules'' (inp ''ListOutcomeRulesRequest'') (out ''ListOutcomeRulesResponse'') (hdl ''outcomes.list_outcome_rules'')
        ''Summarize the rules declared in an outcomes.yaml document.''
        (API OR MCP OR CLI) RequestResponse []]"

definition attribution_capabilities :: "('i, 's) declared" where
  "attribution_capabilities inp out exs hdl =
     [capability ''bind_outcome'' (inp ''OutcomeEvent'') (out ''AttributionResult'') (hdl ''attribution.bind_outcome'')
        ''Bind an outcome event to the agent run that produced it via the binding cascade (exact->deterministic->candidate->likely), returning the tier-labeled attribution result.''
        (API OR MCP OR CLI) RequestResponse [],
      capability ''list_review_queue'' (inp ''OutcomeEvent'') (out ''AttributionResult'') (hdl ''attribution.list_review_queue'')
        ''Return the pending review attribution result for the given (tenant-scoped) outcome -- a candidate/likely/unbound binding awaiting human confirmation. Advisory, never billing-grade.''
        (API OR MCP OR CLI) RequestResponse []]"

definition reconciliation_capabilities :: "('i, 's) declared" where
  "reconciliation_capabilities inp out exs hdl =
     [capability ''reconcile_day'' (inp ''ReconcileDayInput'') (out ''ReconcileDayOutput'') (hdl ''reconciliation.reconcile_day'')
        (''Reconcile one match key'' @ [CHR 0x27] @ ''s per-request estimates against the authoritative billed total: prorate so the reconciled values sum exactly to the invoice, append an additive reconciliation record (never an update to the estimate), and surface any >10% drift.'')
        (API OR MCP OR CLI) RequestResponse [],
      capability ''cost_breakdown'' (inp ''CostBreakdownInput'') (out ''CostBreakdownOutput'') (hdl ''reconciliation.cost_breakdown'')
        ''Project a mixed reconciliation-state cost window into the honest reconciled / provisional / estimate_only breakdown, never collapsing an estimate into a billed number.''
        (API OR MCP OR CLI) RequestResponse []]"

definition allocation_capabilities :: "('i, 's) declared" where
  "allocation_capabilities inp out exs hdl =
     [capability ''allocated_cost_rollup'' (inp ''AllocatedCostRollupInput'') (out ''AllocatedCostRollupOutput'') (hdl ''allocation.allocated_cost_rollup'')
        (''Allocate one run'' @ [CHR 0x27] @ ''s fully-loaded cost across the three tiers (direct/measured, shared-proportional by declared key, fixed overhead with idle GPU quarantined beside the unit cost). Returns pct_unallocated and both H7 confidence fields; never smears idle capacity into the unit cost.'')
        (API OR MCP OR CLI) RequestResponse []]"

definition metrics_capabilities :: "('i, 's) declared" where
  "metrics_capabilities inp out exs hdl =
     [capability ''run_metric'' (inp ''MetricDefinition'') (out ''MetricResult'') (hdl ''metrics.run_metric'')
        ''Validate, compile, and run a user-defined metric (a typed allowlist DSL: filter -> outcome -> join -> measure), returning a result whose every cell carries the conservative confidence (minimum_tier + distribution) and excludes candidate/likely and retracted outcomes from the billing-grade denominator.''
        (API OR MCP OR CLI) RequestResponse []]"

definition eval_capabilities :: "('i, 's) declared" where
  "eval_capabilities inp out exs hdl =
     [capability ''discover_agents'' (inp ''DiscoverAgentsInput'') (out ''DiscoverAgentsOutput'') (hdl ''eval.discover_agents'')
        ''Cluster captured LLM calls into agent/prompt clusters via the deterministic group-by backbone + Drain skeletons. Every cluster is unconfirmed (human-confirm is onboarding).''
        (API OR MCP OR CLI) RequestResponse (exs ''_DISCOVER_EXAMPLE''),
      capability ''import_promptfoo_suite'' (inp ''ImportPromptfooInput'') (out ''ImportPromptfooOutput'') (hdl ''eval.import_promptfoo_suite'')
        ''Import an existing promptfoo suite as eval criteria: llm-rubric assertions become judge-scored criteria (the rubric text used verbatim), contains/not-contains become exact checks. Every unsupported assertion type is returned, never approximated.''
        (API OR MCP OR CLI) RequestResponse (exs ''_IMPORT_EXAMPLE''),
      capability ''evaluate_switch'' (inp ''EvaluateSwitchInput'') (out ''EvaluateSwitchOutput'') (hdl ''eval.evaluate_switch'')
        ''Decide whether switching models improves cost PER OUTCOME, and label how provable that is. A repricing alone stays observational and is never safe_to_switch; only a POWERED non-inferiority test on the outcome rate earns the randomized label. Returns what each confidence margin would cost in units per arm, so a team can pick a bar it can afford to prove.''
        (API OR MCP OR CLI) RequestResponse (exs ''_EVALUATE_SWITCH_EXAMPLE''),
      capability ''estimate_switch_cost'' (inp ''EstimateSwitchInput'') (out ''EstimateSwitchOutput'') (hdl ''eval.estimate_switch_cost'')
        (''Project what today'' @ [CHR 0x27] @ ''s traffic would cost on a different model, by repricing the incumbent'' @ [CHR 0x27] @ ''s OWN observed token vectors against the candidate'' @ [CHR 0x27] @ ''s price card. Always ESTIMATED (list price over traffic the candidate never served); returns no number when the model cannot be priced, rather than a misleading zero.'')
        (API OR MCP OR CLI) RequestResponse (exs ''_ESTIMATE_EXAMPLE''),
      capability ''run_eval_funnel'' (inp ''RunEvalFunnelInput'') (out ''RunEvalFunnelOutput'') (hdl ''eval.run_eval_funnel'')
        ''Run the full eval funnel (discover->dataset->grade->search->cost-gate->recommend) for one candidate against the incumbent. Long-running: returns a job id to poll. Never auto-switches.''
        (API OR MCP OR CLI) AsyncJob (exs ''_RUN_EXAMPLE''),
      capability ''get_recommendation'' (inp ''GetRecommendationInput'') (out ''GetRecommendationOutput'') (hdl ''eval.get_recommendation'')
        ''Return the latest eval recommendation for an incumbent model (parity, confidence grade, label source) within the tenant scope. Aggregate-only, safe for NOTIFY digests.''
        (API OR MCP OR CLI OR NOTIFY) RequestResponse (exs ''_GET_EXAMPLE''),
      capability ''approve_gate'' (inp ''ApproveGateInput'') (out ''ApproveGateOutput'') (hdl ''eval.approve_gate'')
        ''Record a human cost-gate approval for an eval phase (smoke=phase 1, confirmation=phase 2). The estimate is the consent; phase 2 is only reachable after phase 1 is approved.''
        (API OR MCP OR CLI) RequestResponse (exs ''_APPROVE_EXAMPLE'')]"

definition scaffold_capabilities :: "('i, 's) declared" where
  "scaffold_capabilities inp out exs hdl =
     [capability ''scaffold_outcome_rule'' (inp ''ScaffoldOutcomeRuleInput'') (out ''ScaffoldOutcomeRuleOutput'') (hdl ''scaffold.scaffold_outcome_rule'')
        ''Draft an outcomes.yaml rule from a description. Returns an UNCONFIRMED candidate (binding tier candidate) a human confirms; never auto-applied.''
        (API OR MCP OR CLI) RequestResponse [],
      capability ''validate_init'' (inp ''ValidateInitInput'') (out ''ValidateInitOutput'') (hdl ''scaffold.validate_init'')
        ''Validate that an SDK init snippet calls valuemaxx.init().''
        (API OR MCP OR CLI) RequestResponse []]"

section \<open>The catalogue\<close>

text \<open>What a module's \<open>register\<close> adds; a declaration that raised ends it.\<close>

definition module_capabilities ::
  "(string \<Rightarrow> 'i input_model) \<Rightarrow> (string \<Rightarrow> json) \<Rightarrow> (string \<Rightarrow> json list) \<Rightarrow> (string \<Rightarrow> ('i, 's) handler)
     \<Rightarrow> string \<Rightarrow> ('i, 's) capability_spec list option res" where
  "module_capabilities inp out exs hdl m =
     (let all_of = (\<lambda>ds. res_bind (res_traverse (\<lambda>d. d) ds) (\<lambda>specs. Inr (Some specs))) in
      if m = ''valuemaxx.capture.capabilities'' then all_of (capture_capabilities inp out exs hdl)
      else if m = ''valuemaxx.outcomes.capabilities'' then all_of (outcomes_capabilities inp out exs hdl)
      else if m = ''valuemaxx.attribution.capabilities'' then all_of (attribution_capabilities inp out exs hdl)
      else if m = ''valuemaxx.reconciliation.capabilities'' then all_of (reconciliation_capabilities inp out exs hdl)
      else if m = ''valuemaxx.allocation.capabilities'' then all_of (allocation_capabilities inp out exs hdl)
      else if m = ''valuemaxx.metrics.capabilities'' then all_of (metrics_capabilities inp out exs hdl)
      else if m = ''valuemaxx.eval.capabilities'' then all_of (eval_capabilities inp out exs hdl)
      else if m = ''valuemaxx.onboarding.service'' then all_of (onboarding_capabilities inp out)
      else if m = ''valuemaxx.store.capabilities'' then Inr (Some [])
      else Inl RuntimeError)"

section \<open>Allocation\<close>

record rollup_input =
  ai_tenant_id :: string
  ai_run_id :: string
  ai_measured_costs :: "string list"
  ai_shared_costs_yaml :: string
  ai_weights :: "(string, string) dict"
  ai_total_true_cost_estimate :: string

record rollup_output =
  ao_measured_total :: string
  ao_allocated_total :: string
  ao_quarantined_idle_usd :: string
  ao_pct_unallocated :: string
  ao_minimum_tier :: string
  ao_confidence_distribution :: "(string, int) dict"
  ao_line_count :: int

definition ZERO_TOKENS :: token_vector where
  "ZERO_TOKENS = \<lparr>tv_input_uncached = 0, tv_cache_read = 0, tv_cache_write_5m = 0, tv_cache_write_1h = 0,
     tv_output = 0, tv_reasoning = 0\<rparr>"

definition synthetic_event :: "tenant_id \<Rightarrow> run_id \<Rightarrow> instant \<Rightarrow> nat \<times> string \<Rightarrow> cost_event res" where
  "synthetic_event tid rid now ir = (case ir of (index, raw) \<Rightarrow>
     let name = rid @ ''-'' @ show_nat index in
     res_bind (decimal_arg raw) (\<lambda>cost. Inr
       \<lparr>ce_tenant_id = tid, ce_id = name, ce_run_id = rid, ce_attempt_id = name, ce_provider = ''aggregate'',
        ce_model = ''aggregate'', ce_tokens = ZERO_TOKENS, ce_granularity = PerAttempt,
        ce_provenance = \<lparr>pl_provenance = Measured, pl_record_id = None, pl_note = None\<rparr>, ce_cost_usd = Some cost,
        ce_is_streaming = False, ce_partial_recovered = False, ce_billing_uncertain_abort = False,
        ce_provenance_warnings = [], ce_occurred_at = now, ce_latency_ms = None\<rparr>))"

definition synthetic_events :: "tenant_id \<Rightarrow> run_id \<Rightarrow> instant \<Rightarrow> string list \<Rightarrow> cost_event list res" where
  "synthetic_events tid rid now costs = res_traverse (synthetic_event tid rid now) (enumerate 0 costs)"

text \<open>
  The plain text of a decimal: no exponent, no trailing zeros. \<open>decimal_places\<close> counts the
  digits after the point from the denominator.
\<close>

function decimal_places :: "int \<Rightarrow> nat" where
  "decimal_places d = (if 1 < gcd d 10 \<and> 0 < d then Suc (decimal_places (d div gcd d 10)) else 0)"
  by pat_completeness auto
termination
proof (relation "measure nat", goal_cases)
  case (2 d)
  then show ?case by (simp add: int_div_less_self)
qed simp

declare decimal_places.simps [simp del]

definition plain :: "rat \<Rightarrow> string" where
  "plain v = (if v = of_int \<lfloor>v\<rfloor> then show_int \<lfloor>v\<rfloor> else show_fixed (decimal_places (snd (quotient_of v))) v)"

definition allocated_cost_rollup :: "(string \<Rightarrow> json) \<Rightarrow> rollup_input \<Rightarrow> instant \<Rightarrow> rollup_output res" where
  "allocated_cost_rollup safe_load q now =
     res_bind (parse_uuid (ai_tenant_id q)) (\<lambda>tid.
     res_bind (load_shared_costs safe_load (ai_shared_costs_yaml q) tid) (\<lambda>config.
     res_bind (res_traverse (\<lambda>(k, v). res_bind (decimal_arg v) (\<lambda>w. Inr (k, w))) (ai_weights q)) (\<lambda>weights.
     res_bind (synthetic_events tid (ai_run_id q) now (ai_measured_costs q)) (\<lambda>events.
     res_bind (direct_lines events) (\<lambda>tier1.
     res_bind (res_traverse (\<lambda>shared. tier2_lines shared weights) (inputs_for_tier config SharedProportional)) (\<lambda>t2s.
     let t2 = concat t2s in
     res_bind (tier3_lines (inputs_for_tier config FixedOverhead)) (\<lambda>tier3.
     res_bind (decimal_arg (ai_total_true_cost_estimate q)) (\<lambda>estimate.
     res_bind (build_rollup tid (ai_run_id q) tier1 t2 tier3 estimate) (\<lambda>rollup.
     Inr \<lparr>ao_measured_total = plain (t1_measured_total tier1),
          ao_allocated_total = plain (dadd (dsum (map al_amount_usd t2)) (t3_fixed_overhead_in_unit_usd tier3)),
          ao_quarantined_idle_usd = plain (t3_quarantined_idle_usd tier3),
          ao_pct_unallocated = plain (arl_pct_unallocated rollup),
          ao_minimum_tier = tier_value (rc_minimum_tier (arl_confidence rollup)),
          ao_confidence_distribution = map (\<lambda>(t, n). (tier_value t, n))
            (filter (\<lambda>(t, n). 0 < n) (rc_distribution (arl_confidence rollup))),
          ao_line_count = int (length (arl_lines rollup))\<rparr>)))))))))"

section \<open>Outcome rules\<close>

text \<open>The error text of a response is represented by the error.\<close>

record validate_rules_response =
  vr_ok :: bool
  vr_rule_count :: int
  vr_error :: "error option"

record rule_summary =
  su_name :: string
  su_match_kind :: string
  su_signal :: string

definition is_rule_error :: "error \<Rightarrow> bool" where
  "is_rule_error e \<longleftrightarrow> e = OutcomeRuleSchemaError \<or> e = PredicateValidationError"

definition validate_outcome_rule_handler ::
  "(string \<Rightarrow> json option) \<Rightarrow> (string \<Rightarrow> py_ast option) \<Rightarrow> string \<Rightarrow> validate_rules_response res" where
  "validate_outcome_rule_handler safe_load parse yaml_text =
     (case load_rules safe_load (safe_validate parse) yaml_text of
        Inl e \<Rightarrow> if is_rule_error e then Inr \<lparr>vr_ok = False, vr_rule_count = 0, vr_error = Some e\<rparr> else Inl e
      | Inr rules \<Rightarrow> Inr \<lparr>vr_ok = True, vr_rule_count = int (length rules), vr_error = None\<rparr>)"

definition summarize :: "outcome_rule \<Rightarrow> rule_summary res" where
  "summarize r = res_bind (match_kind (or_match r)) (\<lambda>k.
     Inr \<lparr>su_name = or_name r, su_match_kind = k, su_signal = or_signal r\<rparr>)"

definition list_outcome_rules_handler ::
  "(string \<Rightarrow> json option) \<Rightarrow> (string \<Rightarrow> py_ast option) \<Rightarrow> string \<Rightarrow> (rule_summary list \<times> error option) res" where
  "list_outcome_rules_handler safe_load parse yaml_text =
     (case load_rules safe_load (safe_validate parse) yaml_text of
        Inl e \<Rightarrow> if is_rule_error e then Inr ([], Some e) else Inl e
      | Inr rules \<Rightarrow> res_bind (res_traverse summarize rules) (\<lambda>ss. Inr (ss, None)))"

text \<open>The descriptor of the inbound webhook: never verified, never accepted.\<close>

definition ingest_webhook_outcome_handler :: "bool \<times> bool \<times> string option" where
  "ingest_webhook_outcome_handler = (False, False, None)"

section \<open>Scaffolds\<close>

record scaffold_output =
  so_draft_yaml :: string
  so_confirmed :: bool
  so_binding_tier :: string
  so_note :: string

definition scaffold_outcome_rule :: "string \<Rightarrow> string \<Rightarrow> string \<Rightarrow> scaffold_output" where
  "scaffold_outcome_rule outcome_name description signal_hint =
     \<lparr>so_draft_yaml = ''outcomes:'' @ nl @ ''  - name: '' @ outcome_name @ nl @ ''    # description: '' @ description @ nl
        @ ''    # signal_hint (NOT authoritative; system maps signal_class): '' @ signal_hint @ nl
        @ ''    match:'' @ nl @ ''      kind: entity_key  # confirm the durable id this binds on'' @ nl,
      so_confirmed = False, so_binding_tier = ''candidate'',
      so_note = ''UNCONFIRMED draft. Review and confirm before applying; valuemaxx never auto-applies a scaffolded rule, and signal_class/binding tier are system-owned.''\<rparr>"

definition validate_init :: "string \<Rightarrow> bool \<times> string option" where
  "validate_init snippet =
     (if sublist ''valuemaxx.init('' snippet then (True, None)
      else (False, Some ''snippet does not call valuemaxx.init(); add it at the app entrypoint''))"

section \<open>The catalogue assembles\<close>

type_synonym ('i, 's) cap_view = "string \<times> ('i, 's) handler \<times> surface \<times> mode"

definition view :: "('i, 's) capability_spec \<Rightarrow> ('i, 's) cap_view" where
  "view c = (cp_name c, cp_handler c, cp_surfaces c, cp_mode c)"

lemma strip_ne: "\<not> is_space c \<Longrightarrow> strip (c # s) \<noteq> []"
  by (simp add: strip_def lstrip_def dropWhile_eq_Nil_conv)

lemma capability_accepted:
  assumes "\<not> is_space c" and "surfaces \<noteq> 0" and "mode \<noteq> WebhookInbound \<or> \<not> surface_in CLI surfaces"
  shows "\<exists>spec. capability name i out h (c # d) surfaces mode exs = Inr spec \<and> view spec = (name, h, surfaces, mode)"
  using assms strip_ne [of c d] by (auto simp: capability_def view_def)

definition declares :: "('i, 's) capability_spec res list \<Rightarrow> ('i, 's) cap_view list \<Rightarrow> bool" where
  "declares ds vs \<longleftrightarrow> (\<exists>specs. res_traverse (\<lambda>d. d) ds = Inr specs \<and> map view specs = vs)"

lemma declares_Nil: "declares [] []"
  by (simp add: declares_def)

lemma declares_Cons: "\<exists>spec. d = Inr spec \<and> view spec = v \<Longrightarrow> declares ds vs \<Longrightarrow> declares (d # ds) (v # vs)"
  by (auto simp: declares_def)

lemmas capability_accepted_append = capability_accepted [where d = "d @ e" for d e, folded append_Cons]

lemmas declares_intros = declares_Nil declares_Cons capability_accepted capability_accepted_append

lemma surface_masks: "API \<noteq> 0" "API OR MCP OR CLI \<noteq> 0" "API OR MCP OR CLI OR NOTIFY \<noteq> 0" "\<not> surface_in CLI API"
  by (simp_all add: API_def MCP_def CLI_def NOTIFY_def surface_in_def)

text \<open>What each module declares.\<close>

definition capture_views :: "(string \<Rightarrow> ('i, 's) handler) \<Rightarrow> ('i, 's) cap_view list" where
  "capture_views hdl =
     [(''ingest_otlp_span'', hdl ''capture.ingest_otlp_span'', API, RequestResponse),
      (''list_cost_sources'', hdl ''capture.list_cost_sources'', API OR MCP OR CLI, RequestResponse),
      (''capture_healthcheck'', hdl ''capture.capture_healthcheck'', API OR MCP OR CLI, RequestResponse)]"

definition outcomes_views :: "(string \<Rightarrow> ('i, 's) handler) \<Rightarrow> ('i, 's) cap_view list" where
  "outcomes_views hdl =
     [(''ingest_webhook_outcome'', hdl ''outcomes.ingest_webhook_outcome'', API, WebhookInbound),
      (''validate_outcome_rule'', hdl ''outcomes.validate_outcome_rule'', API OR MCP OR CLI, RequestResponse),
      (''list_outcome_rules'', hdl ''outcomes.list_outcome_rules'', API OR MCP OR CLI, RequestResponse)]"

definition attribution_views :: "(string \<Rightarrow> ('i, 's) handler) \<Rightarrow> ('i, 's) cap_view list" where
  "attribution_views hdl =
     [(''bind_outcome'', hdl ''attribution.bind_outcome'', API OR MCP OR CLI, RequestResponse),
      (''list_review_queue'', hdl ''attribution.list_review_queue'', API OR MCP OR CLI, RequestResponse)]"

definition reconciliation_views :: "(string \<Rightarrow> ('i, 's) handler) \<Rightarrow> ('i, 's) cap_view list" where
  "reconciliation_views hdl =
     [(''reconcile_day'', hdl ''reconciliation.reconcile_day'', API OR MCP OR CLI, RequestResponse),
      (''cost_breakdown'', hdl ''reconciliation.cost_breakdown'', API OR MCP OR CLI, RequestResponse)]"

definition allocation_views :: "(string \<Rightarrow> ('i, 's) handler) \<Rightarrow> ('i, 's) cap_view list" where
  "allocation_views hdl =
     [(''allocated_cost_rollup'', hdl ''allocation.allocated_cost_rollup'', API OR MCP OR CLI, RequestResponse)]"

definition metrics_views :: "(string \<Rightarrow> ('i, 's) handler) \<Rightarrow> ('i, 's) cap_view list" where
  "metrics_views hdl =
     [(''run_metric'', hdl ''metrics.run_metric'', API OR MCP OR CLI, RequestResponse)]"

definition eval_views :: "(string \<Rightarrow> ('i, 's) handler) \<Rightarrow> ('i, 's) cap_view list" where
  "eval_views hdl =
     [(''discover_agents'', hdl ''eval.discover_agents'', API OR MCP OR CLI, RequestResponse),
      (''import_promptfoo_suite'', hdl ''eval.import_promptfoo_suite'', API OR MCP OR CLI, RequestResponse),
      (''evaluate_switch'', hdl ''eval.evaluate_switch'', API OR MCP OR CLI, RequestResponse),
      (''estimate_switch_cost'', hdl ''eval.estimate_switch_cost'', API OR MCP OR CLI, RequestResponse),
      (''run_eval_funnel'', hdl ''eval.run_eval_funnel'', API OR MCP OR CLI, AsyncJob),
      (''get_recommendation'', hdl ''eval.get_recommendation'', API OR MCP OR CLI OR NOTIFY, RequestResponse),
      (''approve_gate'', hdl ''eval.approve_gate'', API OR MCP OR CLI, RequestResponse)]"

definition onboarding_views :: "(string \<Rightarrow> ('i, 's) handler) \<Rightarrow> ('i, 's) cap_view list" where
  "onboarding_views hdl =
     [(''scan_codebase'', unbound, API OR MCP OR CLI, RequestResponse),
      (''suggest_attribution_rule'', unbound, API OR MCP OR CLI OR NOTIFY, RequestResponse),
      (''validate_outcome_rule'', unbound, API OR MCP OR CLI, RequestResponse),
      (''dry_run_outcomes'', unbound, API OR MCP OR CLI OR NOTIFY, AsyncJob),
      (''propose_onboarding_diff'', unbound, API OR MCP OR CLI, RequestResponse)]"

definition scaffold_views :: "(string \<Rightarrow> ('i, 's) handler) \<Rightarrow> ('i, 's) cap_view list" where
  "scaffold_views hdl =
     [(''scaffold_outcome_rule'', hdl ''scaffold.scaffold_outcome_rule'', API OR MCP OR CLI, RequestResponse),
      (''validate_init'', hdl ''scaffold.validate_init'', API OR MCP OR CLI, RequestResponse)]"

lemma modules_declare:
  shows "declares (capture_capabilities inp out exs hdl) (capture_views hdl)"
    and "declares (outcomes_capabilities inp out exs hdl) (outcomes_views hdl)"
    and "declares (attribution_capabilities inp out exs hdl) (attribution_views hdl)"
    and "declares (reconciliation_capabilities inp out exs hdl) (reconciliation_views hdl)"
    and "declares (allocation_capabilities inp out exs hdl) (allocation_views hdl)"
    and "declares (metrics_capabilities inp out exs hdl) (metrics_views hdl)"
    and "declares (eval_capabilities inp out exs hdl) (eval_views hdl)"
    and "declares (onboarding_capabilities inp out) (onboarding_views hdl)"
    and "declares (scaffold_capabilities inp out exs hdl) (scaffold_views hdl)"
  unfolding capture_capabilities_def capture_views_def outcomes_capabilities_def outcomes_views_def attribution_capabilities_def attribution_views_def reconciliation_capabilities_def reconciliation_views_def allocation_capabilities_def allocation_views_def metrics_capabilities_def metrics_views_def eval_capabilities_def eval_views_def onboarding_capabilities_def onboarding_views_def scaffold_capabilities_def scaffold_views_def Let_def
  by (intro declares_intros surface_masks; simp add: is_space_def surface_masks)+


lemma dedup_view: "map view (dedup_by cp_name seen cs) = dedup_by fst seen (map view cs)"
  by (induction cs arbitrary: seen) (auto simp: view_def)

lemma names_of_view: "map cp_name cs = map fst (map view cs)"
  by (simp add: view_def comp_def)

lemma surface_of_view:
  "map cp_name (for_surface s (map entry cs)) = map fst (filter (\<lambda>v. surface_in s (fst (snd (snd v)))) (map view cs))"
  by (induction cs) (auto simp: for_surface_def view_def)

lemma handler_of_view:
  "map_option cp_handler (dict_get (map entry cs) n) = map_option fst (map_of (map view cs) n)"
  by (induction cs) (auto simp: view_def)

lemma loaded_views:
  "declares ds vs \<Longrightarrow> \<exists>specs. res_bind (res_traverse (\<lambda>d. d) ds) (\<lambda>specs. Inr (Some specs)) = Inr (Some specs) \<and> map view specs = vs"
  by (auto simp: declares_def)

definition module_views :: "(string \<Rightarrow> ('i, 's) handler) \<Rightarrow> ('i, 's) cap_view list" where
  "module_views hdl = concat [capture_views hdl, outcomes_views hdl, attribution_views hdl, reconciliation_views hdl,
     allocation_views hdl, metrics_views hdl, eval_views hdl, onboarding_views hdl]"

lemma modules_load:
  "list_all (\<lambda>m. \<exists>cs. module_capabilities inp out exs hdl m = Inr (Some cs)) DEFAULT_CAPABILITY_MODULES \<and>
   map view (declarations (module_capabilities inp out exs hdl) DEFAULT_CAPABILITY_MODULES) = module_views hdl"
proof -
  note l = modules_declare(1-7) [where inp = inp and out = out and exs = exs and hdl = hdl, THEN loaded_views]
    modules_declare(8) [where inp = inp and out = out and hdl = hdl, THEN loaded_views]
  from l show ?thesis
    by (elim exE conjE)
      (simp add: DEFAULT_CAPABILITY_MODULES_def module_capabilities_def Let_def declarations_def module_views_def)
qed


definition CATALOG :: "string list" where
  "CATALOG =
     [''ingest_otlp_span'', ''list_cost_sources'', ''capture_healthcheck'', ''ingest_webhook_outcome'',
      ''validate_outcome_rule'', ''list_outcome_rules'', ''bind_outcome'', ''list_review_queue'', ''reconcile_day'',
      ''cost_breakdown'', ''allocated_cost_rollup'', ''run_metric'', ''discover_agents'', ''import_promptfoo_suite'',
      ''evaluate_switch'', ''estimate_switch_cost'', ''run_eval_funnel'', ''get_recommendation'', ''approve_gate'',
      ''scan_codebase'', ''suggest_attribution_rule'', ''dry_run_outcomes'', ''propose_onboarding_diff'',
      ''scaffold_outcome_rule'', ''validate_init'']"

lemmas view_defs = module_views_def capture_views_def outcomes_views_def attribution_views_def
  reconciliation_views_def allocation_views_def metrics_views_def eval_views_def onboarding_views_def scaffold_views_def

lemma catalog_only_known:
  "map view cs = module_views hdl @ scaffold_views hdl \<Longrightarrow> only_known_duplicates [] cs"
  unfolding only_known_duplicates_def names_of_view by (simp add: view_defs KNOWN_DUPLICATE_NAMES_def)

definition catalog_views :: "(string \<Rightarrow> ('i, 's) handler) \<Rightarrow> ('i, 's) cap_view list" where
  "catalog_views hdl = dedup_by fst [] (module_views hdl @ scaffold_views hdl)"

lemma catalog_views_eq:
  "catalog_views hdl = concat [capture_views hdl, outcomes_views hdl, attribution_views hdl, reconciliation_views hdl,
     allocation_views hdl, metrics_views hdl, eval_views hdl,
     filter (\<lambda>v. fst v \<noteq> ''validate_outcome_rule'') (onboarding_views hdl), scaffold_views hdl]"
  by (simp add: catalog_views_def view_defs)

lemma catalog_names: "map fst (catalog_views hdl) = CATALOG"
  by (simp add: catalog_views_eq view_defs CATALOG_def)

lemma surface_in_masks:
  "surface_in API (API OR MCP OR CLI)" "surface_in API (API OR MCP OR CLI OR NOTIFY)" "surface_in API API"
  "surface_in MCP (API OR MCP OR CLI)" "surface_in MCP (API OR MCP OR CLI OR NOTIFY)" "\<not> surface_in MCP API"
  "surface_in CLI (API OR MCP OR CLI)" "surface_in CLI (API OR MCP OR CLI OR NOTIFY)" "\<not> surface_in CLI API"
  "\<not> surface_in NOTIFY (API OR MCP OR CLI)" "surface_in NOTIFY (API OR MCP OR CLI OR NOTIFY)" "\<not> surface_in NOTIFY API"
  by (simp_all add: API_def MCP_def CLI_def NOTIFY_def surface_in_def)

lemma mode_of_view:
  "map cp_name (filter (\<lambda>c. cp_mode c = m) cs) = map fst (filter (\<lambda>v. snd (snd (snd v)) = m) (map view cs))"
  by (induction cs) (auto simp: view_def)

text \<open>
  C37. The canonical registry of this program: assembly succeeds, the catalogue has twenty-five
  names and each of them once. Every one is served by the API; every one is an MCP tool and a CLI
  command except the two ingestion endpoints; three reach the digest. One is called by inbound
  webhooks, two run as jobs, and none streams. The name two packages declare, \<open>validate_outcome_rule\<close>,
  is the outcomes declaration, which works; the other four onboarding capabilities are the unbound
  descriptors, whose call always raises.
\<close>

theorem catalog_assembles:
  "\<exists>scaffold specs. res_traverse (\<lambda>d. d) (scaffold_capabilities inp out exs hdl) = Inr scaffold \<and>
    build_default_registry (module_capabilities inp out exs hdl) scaffold = Inr (map entry specs) \<and>
    map cp_name specs = CATALOG \<and> distinct CATALOG \<and>
    map cp_name (for_surface API (map entry specs)) = CATALOG \<and>
    map cp_name (for_surface MCP (map entry specs)) =
      filter (\<lambda>n. n \<notin> {''ingest_otlp_span'', ''ingest_webhook_outcome''}) CATALOG \<and>
    map cp_name (for_surface CLI (map entry specs)) =
      filter (\<lambda>n. n \<notin> {''ingest_otlp_span'', ''ingest_webhook_outcome''}) CATALOG \<and>
    map cp_name (for_surface NOTIFY (map entry specs)) =
      [''get_recommendation'', ''suggest_attribution_rule'', ''dry_run_outcomes''] \<and>
    map cp_name (filter (\<lambda>c. cp_mode c = WebhookInbound) specs) = [''ingest_webhook_outcome''] \<and>
    map cp_name (filter (\<lambda>c. cp_mode c = AsyncJob) specs) = [''run_eval_funnel'', ''dry_run_outcomes''] \<and>
    map cp_name (filter (\<lambda>c. cp_mode c = Streaming) specs) = [] \<and>
    map_option cp_handler (dict_get (map entry specs) ''validate_outcome_rule'') =
      Some (hdl ''outcomes.validate_outcome_rule'') \<and>
    map (\<lambda>n. map_option cp_handler (dict_get (map entry specs) n))
      [''scan_codebase'', ''suggest_attribution_rule'', ''dry_run_outcomes'', ''propose_onboarding_diff''] =
      replicate 4 (Some unbound)"
proof -
  let ?load = "module_capabilities inp out exs hdl"
  obtain scaffold where sc: "res_traverse (\<lambda>d. d) (scaffold_capabilities inp out exs hdl) = Inr scaffold"
    and sv: "map view scaffold = scaffold_views hdl"
    using modules_declare(9) [of inp out exs hdl] by (auto simp: declares_def)
  define cs where "cs = declarations ?load DEFAULT_CAPABILITY_MODULES @ scaffold"
  have views: "map view cs = module_views hdl @ scaffold_views hdl"
    using modules_load [of inp out exs hdl] sv by (simp add: cs_def)
  let ?specs = "dedup_by cp_name [] cs"
  have v: "map view ?specs = catalog_views hdl" unfolding dedup_view views catalog_views_def ..
  have "build_default_registry ?load scaffold = Inr (map entry ?specs)"
    using default_registry_eq [OF conjunct1 [OF modules_load [of inp out exs hdl]], of scaffold] catalog_only_known [OF views]
    by (simp add: cs_def Let_def)
  moreover have "map cp_name ?specs = CATALOG" unfolding names_of_view v by (rule catalog_names)
  moreover have "map cp_name (for_surface API (map entry ?specs)) = CATALOG"
    "map cp_name (for_surface MCP (map entry ?specs)) =
      filter (\<lambda>n. n \<notin> {''ingest_otlp_span'', ''ingest_webhook_outcome''}) CATALOG"
    "map cp_name (for_surface CLI (map entry ?specs)) =
      filter (\<lambda>n. n \<notin> {''ingest_otlp_span'', ''ingest_webhook_outcome''}) CATALOG"
    "map cp_name (for_surface NOTIFY (map entry ?specs)) =
      [''get_recommendation'', ''suggest_attribution_rule'', ''dry_run_outcomes'']"
    unfolding surface_of_view v by (simp_all add: catalog_views_eq view_defs surface_in_masks CATALOG_def)
  moreover have "map cp_name (filter (\<lambda>c. cp_mode c = WebhookInbound) ?specs) = [''ingest_webhook_outcome'']"
    "map cp_name (filter (\<lambda>c. cp_mode c = AsyncJob) ?specs) = [''run_eval_funnel'', ''dry_run_outcomes'']"
    "map cp_name (filter (\<lambda>c. cp_mode c = Streaming) ?specs) = []"
    unfolding mode_of_view v by (simp_all add: catalog_views_eq view_defs)
  moreover have "map_option cp_handler (dict_get (map entry ?specs) n) = map_option fst (map_of (catalog_views hdl) n)" for n
    unfolding v [symmetric] by (rule handler_of_view)
  ultimately show ?thesis using sc
    by (intro exI [of _ scaffold] exI [of _ ?specs])
      (simp add: catalog_views_eq view_defs numeral_eq_Suc CATALOG_def)
qed


section \<open>The rule handlers\<close>

text \<open>\<open>fails_in P r\<close>: when \<open>r\<close> raises, its error satisfies \<open>P\<close>.\<close>

definition fails_in :: "(error \<Rightarrow> bool) \<Rightarrow> 'a res \<Rightarrow> bool" where
  "fails_in P r \<longleftrightarrow> (case r of Inl e \<Rightarrow> P e | Inr _ \<Rightarrow> True)"

lemma fails_in_simps [simp]: "fails_in P (Inr x)" "fails_in P (Inl e) = P e"
  by (simp_all add: fails_in_def)

lemma fails_in_bind: "fails_in P r \<Longrightarrow> (\<And>x. fails_in P (f x)) \<Longrightarrow> fails_in P (res_bind r f)"
  by (cases r) auto

lemma fails_in_traverse: "(\<And>x. fails_in P (f x)) \<Longrightarrow> fails_in P (res_traverse f xs)"
  by (induction xs) (auto intro!: fails_in_bind)

lemma rule_error_simps [simp]: "is_rule_error OutcomeRuleSchemaError" "is_rule_error PredicateValidationError"
  by (simp_all add: is_rule_error_def)

lemma fails_safe_validate: "fails_in is_rule_error (safe_validate parse s)"
  by (auto simp: safe_validate_def parse_expr_def validate_tree_def split: option.split intro!: fails_in_bind)

lemma fails_mapping: "fails_in is_rule_error (as_mapping j)" "fails_in is_rule_error (as_text k)"
  by (cases j rule: as_mapping.cases; simp) (cases k; simp)

lemma fails_opt_text: "fails_in is_rule_error (opt_text m k)"
  by (auto simp: opt_text_def fails_mapping intro!: fails_in_bind split: option.split)

lemma fails_kind: "fails_in is_rule_error (match_spec_check m)" "fails_in is_rule_error (match_kind m)"
  by (auto simp: match_spec_check_def match_kind_def split: option.split)

lemmas fails_intros = fails_in_bind fails_in_traverse fails_safe_validate fails_mapping fails_opt_text fails_kind

lemma fails_build_match: "fails_in is_rule_error (build_match (safe_validate parse) raw)"
  unfolding build_match_def by (intro fails_intros) (simp split: option.split add: fails_safe_validate)

lemma fails_build_bind: "fails_in is_rule_error (build_bind (safe_validate parse) raw)"
  unfolding build_bind_def by (auto intro!: fails_intros split: option.split prod.split)

lemma fails_build_injection: "fails_in is_rule_error (build_injection raw)"
  unfolding build_injection_def by (auto intro!: fails_intros split: option.split)

lemma fails_validated_expr: "fails_in is_rule_error (validated_expr (safe_validate parse) raw)"
  unfolding validated_expr_def by (auto intro!: fails_intros split: option.split)

lemma fails_validated_signal: "fails_in is_rule_error (validated_signal raw kind)"
  unfolding validated_signal_def by (auto intro!: fails_intros split: sum.split)

lemma fails_build_rule: "fails_in is_rule_error (build_rule (safe_validate parse) raw)"
proof -
  have named: "fails_in is_rule_error (case dict_get rule ''name'' of
      Some (JStr name) \<Rightarrow> if name = [] then Inl OutcomeRuleSchemaError else k name | _ \<Rightarrow> Inl OutcomeRuleSchemaError)"
    if "\<And>name. fails_in is_rule_error (k name)" for rule and k :: "string \<Rightarrow> outcome_rule res"
    using that by (auto split: option.split json.split)
  show ?thesis
    unfolding build_rule_def
    by (intro named fails_intros fails_build_match fails_build_bind fails_build_injection fails_validated_expr
        fails_validated_signal) simp_all
qed

lemma fails_load_rules: "fails_in is_rule_error (load_rules safe_load (safe_validate parse) y)"
  unfolding load_rules_def
  by (auto intro!: fails_intros fails_build_rule split: option.split json.split)

lemma rule_summarized:
  assumes "rule_ok parse r"
  shows "\<exists>s. summarize r = Inr s \<and> su_name s \<noteq> [] \<and> su_match_kind s \<in> set MATCH_KINDS \<and>
    (su_signal s = signal_value ActionAttempted \<or> su_signal s = signal_value OutcomeConfirmed)"
proof -
  obtain k t where "match_kind (or_match r) = Inr k" "k \<in> set MATCH_KINDS"
    using assms one_kind [of "or_match r"] by (auto simp: rule_ok_def)
  with assms show ?thesis by (simp add: summarize_def rule_ok_def)
qed

lemma rules_summarized:
  assumes "list_all (rule_ok parse) rules"
  shows "\<exists>ss. res_traverse summarize rules = Inr ss \<and> length ss = length rules \<and>
    list_all (\<lambda>s. su_name s \<noteq> [] \<and> su_match_kind s \<in> set MATCH_KINDS \<and>
      (su_signal s = signal_value ActionAttempted \<or> su_signal s = signal_value OutcomeConfirmed)) ss"
  using assms
proof (induction rules)
  case (Cons r rules)
  then obtain s where "summarize r = Inr s" "su_name s \<noteq> []" "su_match_kind s \<in> set MATCH_KINDS"
    "su_signal s = signal_value ActionAttempted \<or> su_signal s = signal_value OutcomeConfirmed"
    using rule_summarized [of parse r] by auto
  with Cons show ?case by auto
qed simp

text \<open>
  The two rule handlers answer every document: whatever the YAML, neither raises; they
  agree on whether it loads, the error they report is one of the two rule errors, and on
  success the counted rules are the summarized ones, each with a name, one of the five match
  kinds, and a signal a rule may declare.
\<close>

theorem rule_handlers_answer:
  "\<exists>resp ss err. validate_outcome_rule_handler safe_load parse y = Inr resp \<and>
    list_outcome_rules_handler safe_load parse y = Inr (ss, err) \<and>
    vr_error resp = err \<and> vr_ok resp = (err = None) \<and> vr_rule_count resp = int (length ss) \<and>
    pred_option is_rule_error err \<and>
    list_all (\<lambda>s. su_name s \<noteq> [] \<and> su_match_kind s \<in> set MATCH_KINDS \<and>
      (su_signal s = signal_value ActionAttempted \<or> su_signal s = signal_value OutcomeConfirmed)) ss"
proof (cases "load_rules safe_load (safe_validate parse) y")
  case (Inl e)
  then have "is_rule_error e" using fails_load_rules [of safe_load parse y] by simp
  with Inl show ?thesis by (simp add: validate_outcome_rule_handler_def list_outcome_rules_handler_def)
next
  case (Inr rules)
  then have "list_all (rule_ok parse) rules" using load_rules_ok by (auto simp: list_all_iff)
  from rules_summarized [OF this] Inr show ?thesis
    by (auto simp: validate_outcome_rule_handler_def list_outcome_rules_handler_def)
qed

section \<open>Proposed rules and the loader\<close>

lemma unmatched_rule_refused:
  "build_rule validate (rule_mapping log2 r) = Inl OutcomeRuleSchemaError"
  by (auto simp: build_rule_def rule_mapping_def build_match_def split: option.split)

text \<open>
  C38. The onboarding agent's output is not the SDK's input: the \<open>outcomes.yaml\<close> it renders
  for a proposal with a rule writes \<open>match_kind\<close> and \<open>match_target\<close>, and the loader asks for
  a \<open>match\<close> mapping. When the YAML library reads the rendered text back as the document it was
  rendered from, loading it is a schema error, whatever the predicate validator.
\<close>

theorem rendered_outcomes_never_load:
  assumes "safe_load (render_outcomes_yaml dump log2 p) = Some (outcomes_payload log2 p)" and "pr_rules p \<noteq> []"
  shows "load_rules safe_load validate (render_outcomes_yaml dump log2 p) = Inl OutcomeRuleSchemaError"
proof -
  obtain r rs where "sort_key rc_name (pr_rules p) = r # rs"
    using assms(2) by (metis length_0_conv length_sort neq_Nil_conv)
  with assms(1) show ?thesis
    by (simp add: load_rules_def outcomes_payload_def unmatched_rule_refused)
qed

definition sample_dump :: "json \<Rightarrow> string" where
  "sample_dump j = ''doc''"

definition one_rule :: proposal where
  "one_rule = \<lparr>pr_rules =
     [\<lparr>rc_name = ''ticket_solved'', rc_match_kind = MExternalWrite, rc_match_target = ''zendesk'', rc_when = ''True'',
       rc_signal = ActionAttempted, rc_tier = Candidate, rc_run_id_injection = None, rc_warnings = [], rc_confirmed = False\<rparr>],
     pr_entity_ids = [], pr_shared_costs_present = False, pr_warnings = []\<rparr>"

theorem rendered_outcomes_never_load_witness:
  "load_rules (\<lambda>s. Some (outcomes_payload (\<lambda>x. x) one_rule)) (safe_validate (\<lambda>e. None))
     (render_outcomes_yaml sample_dump (\<lambda>x. x) one_rule) = Inl OutcomeRuleSchemaError"
  by (rule rendered_outcomes_never_load) (simp_all add: one_rule_def)

end
