(* ===== verification/Entry_Points.thy ===== *)
theory Entry_Points
  imports Capability_Catalog Api_Routes Metrics_Grammar Eval_Criteria Capture_Stream
begin

text \<open>
  Where a user enters the program: the settings of the server (\<open>apps/server\<close>), the metrics the
  dashboard asks for (\<open>apps/api/dashboard.py\<close>), the commands of the CLI
  (\<open>apps/cli/main.py\<close>), and the SDK (\<open>sdks/python\<close>): its reversible scaffolder, \<open>init\<close> and
  the scope of a run.

  A repository is a dictionary from file names to contents. Reading a file in text mode
  translates its line ends; writing is to a file system whose line end is the line feed.
  \<open>unified_diff\<close> is that of \<open>difflib\<close>, the scan is an argument, and what \<open>init\<close> calls to
  instrument a client or to install a wrapper is an argument that may raise.

  The theorems: the development key is accepted only when no key is configured; the dashboard
  asks only for metrics the grammar accepts; reverting the scaffold restores a file exactly
  when it has no carriage return; \<open>init\<close> never raises on valid settings; the onboarding command
  prints no key and confirms nothing.
\<close>

section \<open>Settings\<close>

definition DEV_INGEST_KEY :: string where "DEV_INGEST_KEY = ''dev''"
definition DEV_TENANT_ID :: string where "DEV_TENANT_ID = ''00000000-0000-4000-8000-000000000001''"

record server_settings =
  sv_database_url :: string
  sv_ingest_keys :: "(string, string) dict"
  sv_webhook_secret :: string
  sv_eval_judge_api_key :: string
  sv_host :: string
  sv_port :: int
  sv_capture_content :: bool

definition default_settings :: server_settings where
  "default_settings = \<lparr>sv_database_url = ''sqlite+aiosqlite:///./valuemaxx.db'', sv_ingest_keys = [],
     sv_webhook_secret = ''dev-webhook-secret'', sv_eval_judge_api_key = [], sv_host = ''127.0.0.1'', sv_port = 8000,
     sv_capture_content = False\<rparr>"

definition is_using_dev_fallback :: "server_settings \<Rightarrow> bool" where
  "is_using_dev_fallback s \<longleftrightarrow> sv_ingest_keys s = []"

definition resolved_ingest_keys :: "server_settings \<Rightarrow> authenticator" where
  "resolved_ingest_keys s = (if sv_ingest_keys s \<noteq> [] then sv_ingest_keys s else [(DEV_INGEST_KEY, DEV_TENANT_ID)])"

text \<open>
  There is no anonymous tenant: the server resolves exactly the configured keys; with
  none configured it resolves exactly the development key, to the fixed development tenant, and
  as soon as one key is configured the development key is refused unless it is one of them.
\<close>

theorem dev_key_only_without_keys:
  "resolve_tenant (resolved_ingest_keys s) key =
    (case key of None \<Rightarrow> Inl AuthError
     | Some k \<Rightarrow>
         if k = [] then Inl AuthError
         else if is_using_dev_fallback s then (if k = ''dev'' then Inr DEV_TENANT_ID else Inl AuthError)
         else (case dict_get (sv_ingest_keys s) k of None \<Rightarrow> Inl AuthError | Some t \<Rightarrow> Inr t))"
  by (simp add: resolve_tenant_def resolved_ingest_keys_def is_using_dev_fallback_def DEV_INGEST_KEY_def split: option.split)

section \<open>Dashboard metrics\<close>

definition SPEND_BY_MODEL :: metric_definition where
  "SPEND_BY_MODEL = \<lparr>md_name = ''spend_by_model'', md_numerator = ''total_cost_usd'',
     md_denominator = ''verified_outcome_count'', md_filters = [], md_group_by = [''model'']\<rparr>"

definition SPEND_BY_AGENT :: metric_definition where
  "SPEND_BY_AGENT = \<lparr>md_name = ''spend_by_agent'', md_numerator = ''total_cost_usd'',
     md_denominator = ''verified_outcome_count'', md_filters = [], md_group_by = [''agent_name'']\<rparr>"

definition OUTCOME_VOLUME :: metric_definition where
  "OUTCOME_VOLUME = \<lparr>md_name = ''outcome_volume'', md_numerator = ''outcome_count'',
     md_denominator = ''attempt_count'', md_filters = [], md_group_by = [''outcome_name'']\<rparr>"

definition COST_PER_OUTCOME :: metric_definition where
  "COST_PER_OUTCOME = \<lparr>md_name = ''cost_per_outcome'', md_numerator = ''total_cost_usd'',
     md_denominator = ''verified_outcome_count'', md_filters = [], md_group_by = [''outcome_name'']\<rparr>"

definition dashboard_metrics :: "metric_definition list" where
  "dashboard_metrics = [SPEND_BY_MODEL, SPEND_BY_AGENT, COST_PER_OUTCOME, OUTCOME_VOLUME]"

text \<open>
  The dashboard asks only for what the grammar accepts: each of its four metrics compiles, and
  each one that divides a cost divides it by the verified outcomes.
\<close>

theorem dashboard_metrics_compile:
  "list_all (\<lambda>d. case compile_plan d of
      Inl _ \<Rightarrow> False
    | Inr p \<Rightarrow> qp_name p = md_name d \<and> (qp_numerator p = TotalCostUsd) = (qp_denominator p = VerifiedOutcomeCount))
    dashboard_metrics"
  by code_simp

section \<open>The scaffolder\<close>

text \<open>Text mode reads a carriage return, alone or before a line feed, as a line feed.\<close>

definition CR :: char where "CR = CHR 0x0D"
definition LF :: char where "LF = CHR 0x0A"

fun universal_newlines :: "string \<Rightarrow> string" where
  "universal_newlines [] = []"
| "universal_newlines [c] = [if c = CR then LF else c]"
| "universal_newlines (c # d # cs) =
     (if c = CR then (if d = LF then LF # universal_newlines cs else LF # universal_newlines (d # cs))
      else c # universal_newlines (d # cs))"

text \<open>\<open>text.find(pat)\<close>.\<close>

fun find_str :: "string \<Rightarrow> string \<Rightarrow> nat option" where
  "find_str pat [] = (if pat = [] then Some 0 else None)"
| "find_str pat (c # cs) = (if prefix pat (c # cs) then Some 0 else map_option Suc (find_str pat cs))"

definition BEGIN :: string where
  "BEGIN = ''# >>> valuemaxx init (auto-scaffolded; remove with `valuemaxx scaffold revert`)'' @ [LF]"

definition END :: string where
  "END = ''# <<< valuemaxx init'' @ [LF]"

text \<open>The representation of a name without quotes, backslashes or control characters.\<close>

definition name_repr :: "string \<Rightarrow> string" where
  "name_repr s = [CHR 0x27] @ s @ [CHR 0x27]"

definition block_lines :: "string \<Rightarrow> string \<Rightarrow> string" where
  "block_lines tenant_env ingest_env =
     ''import os'' @ [LF] @ ''import valuemaxx.sdk as valuemaxx'' @ [LF] @ ''valuemaxx.init('' @ [LF]
     @ ''    tenant_id=os.environ['' @ name_repr tenant_env @ ''],'' @ [LF]
     @ ''    ingest_key=os.environ['' @ name_repr ingest_env @ ''],'' @ [LF]
     @ ''    endpoint=os.environ.get(\"VALUEMAXX_ENDPOINT\", \"https://ingest.valuemaxx.dev\"),'' @ [LF]
     @ '')'' @ [LF]"

definition scaffold_block :: "string \<Rightarrow> string \<Rightarrow> string" where
  "scaffold_block tenant_env ingest_env = BEGIN @ block_lines tenant_env ingest_env @ END"

definition scaffold_inject :: "string \<Rightarrow> string \<Rightarrow> string \<Rightarrow> string" where
  "scaffold_inject tenant_env ingest_env contents =
     (let original = universal_newlines contents in
      if sublist BEGIN original then contents else scaffold_block tenant_env ingest_env @ original)"

definition scaffold_revert :: "string \<Rightarrow> string" where
  "scaffold_revert contents =
     (let t = universal_newlines contents in
      case find_str BEGIN t of
        None \<Rightarrow> contents
      | Some start \<Rightarrow> (case find_str END (drop start t) of
          None \<Rightarrow> contents
        | Some k \<Rightarrow> take start t @ drop (start + k + length END) t))"

lemma universal_newlines_id: "CR \<notin> set s \<Longrightarrow> universal_newlines s = s"
  by (induction s rule: universal_newlines.induct) auto

lemma universal_newlines_no_CR: "CR \<notin> set (universal_newlines s)"
  by (induction s rule: universal_newlines.induct) (auto simp: CR_def LF_def)

lemma find_str_at:
  assumes "pat \<noteq> []" and "hd pat \<notin> set xs"
  shows "find_str pat (xs @ pat @ ys) = Some (length xs)"
  using assms(2)
proof (induction xs)
  case Nil
  from assms(1) show ?case by (cases pat) auto
next
  case (Cons x xs)
  with assms(1) show ?case by (cases pat) auto
qed

lemma CR_block: "CR \<notin> set tenant_env \<Longrightarrow> CR \<notin> set ingest_env \<Longrightarrow> CR \<notin> set (scaffold_block tenant_env ingest_env)"
  by (simp add: scaffold_block_def BEGIN_def END_def block_lines_def name_repr_def CR_def LF_def)

text \<open>A name of an environment variable: no mark of a comment, no carriage return.\<close>

definition env_name :: "string \<Rightarrow> bool" where
  "env_name s \<longleftrightarrow> CHR ''#'' \<notin> set s \<and> CR \<notin> set s"

lemma find_END:
  assumes "env_name tenant_env" and "env_name ingest_env"
  shows "find_str END (scaffold_block tenant_env ingest_env @ s) = Some (length (BEGIN @ block_lines tenant_env ingest_env))"
proof -
  obtain rest where b: "BEGIN = CHR ''#'' # CHR '' '' # CHR ''>'' # rest" "CHR ''#'' \<notin> set rest"
    by (simp add: BEGIN_def LF_def)
  have "hd END = CHR ''#''" "END \<noteq> []" by (simp_all add: END_def)
  moreover have "CHR ''#'' \<notin> set (CHR '' '' # CHR ''>'' # rest @ block_lines tenant_env ingest_env)"
    using assms b(2) by (simp add: env_name_def block_lines_def name_repr_def LF_def)
  ultimately have "find_str END ((CHR '' '' # CHR ''>'' # rest @ block_lines tenant_env ingest_env) @ END @ s) =
      Some (length (CHR '' '' # CHR ''>'' # rest @ block_lines tenant_env ingest_env))"
    by (intro find_str_at) simp_all
  moreover have "\<not> prefix END (CHR ''#'' # CHR '' '' # CHR ''>'' # z)" for z by (simp add: END_def)
  ultimately show ?thesis by (simp add: scaffold_block_def b(1))
qed

lemma revert_block:
  assumes "env_name tenant_env" and "env_name ingest_env" and "CR \<notin> set s"
  shows "scaffold_revert (scaffold_block tenant_env ingest_env @ s) = s"
proof -
  have t: "universal_newlines (scaffold_block tenant_env ingest_env @ s) = scaffold_block tenant_env ingest_env @ s"
    using assms CR_block by (intro universal_newlines_id) (simp add: env_name_def)
  have "find_str BEGIN (scaffold_block tenant_env ingest_env @ s) = Some 0"
    using find_str_at [of BEGIN "[]" "block_lines tenant_env ingest_env @ END @ s"] by (simp add: scaffold_block_def BEGIN_def)
  then show ?thesis
    by (simp add: scaffold_revert_def t find_END [OF assms(1,2)]) (simp add: scaffold_block_def)
qed

text \<open>
  C39. The scaffold is idempotent and reversible: injecting twice is injecting once, and
  reverting an injected file gives the original text with its line ends translated, hence the
  original bytes exactly when the file has no carriage return.
\<close>

theorem scaffold_roundtrip:
  assumes "env_name tenant_env" and "env_name ingest_env" and "\<not> sublist BEGIN (universal_newlines contents)"
  shows "scaffold_inject tenant_env ingest_env (scaffold_inject tenant_env ingest_env contents) =
      scaffold_inject tenant_env ingest_env contents \<and>
    scaffold_revert (scaffold_inject tenant_env ingest_env contents) = universal_newlines contents \<and>
    (scaffold_revert (scaffold_inject tenant_env ingest_env contents) = contents \<longleftrightarrow> CR \<notin> set contents)"
proof -
  let ?s = "universal_newlines contents" and ?b = "scaffold_block tenant_env ingest_env"
  have i: "scaffold_inject tenant_env ingest_env contents = ?b @ ?s"
    using assms(3) by (simp add: scaffold_inject_def)
  have "CR \<notin> set (?b @ ?s)"
    using CR_block assms(1,2) universal_newlines_no_CR [of contents] by (simp add: env_name_def)
  then have "universal_newlines (?b @ ?s) = ?b @ ?s" by (rule universal_newlines_id)
  moreover have "sublist BEGIN (?b @ ?s)" unfolding scaffold_block_def by (simp add: sublist_append)
  ultimately have "scaffold_inject tenant_env ingest_env (?b @ ?s) = ?b @ ?s" by (simp add: scaffold_inject_def)
  moreover have "scaffold_revert (?b @ ?s) = ?s"
    by (rule revert_block [OF assms(1,2) universal_newlines_no_CR])
  moreover have "?s = contents \<longleftrightarrow> CR \<notin> set contents"
    using universal_newlines_id universal_newlines_no_CR by metis
  ultimately show ?thesis by (simp only: i)
qed

theorem scaffold_roundtrip_witness:
  "scaffold_revert (scaffold_inject ''T'' ''K'' (''x = 1'' @ [CR, LF])) = ''x = 1'' @ [LF] \<and>
   scaffold_revert (scaffold_inject ''T'' ''K'' (''x = 1'' @ [LF])) = ''x = 1'' @ [LF]"
proof -
  have n: "env_name ''T''" "env_name ''K''" by (simp_all add: env_name_def CR_def)
  have f: "\<not> sublist BEGIN (universal_newlines (''x = 1'' @ [CR, LF]))"
    "\<not> sublist BEGIN (universal_newlines (''x = 1'' @ [LF]))" by code_simp+
  have "universal_newlines (''x = 1'' @ [CR, LF]) = ''x = 1'' @ [LF]"
    "universal_newlines (''x = 1'' @ [LF]) = ''x = 1'' @ [LF]" by code_simp+
  with scaffold_roundtrip [OF n f(1)] scaffold_roundtrip [OF n f(2)] show ?thesis by simp
qed


section \<open>The SDK\<close>

text \<open>\<open>track.run\<close>: the body runs with the run id as the ambient one; the previous one is put back.\<close>

definition track_run :: "run_id \<Rightarrow> (run_id option \<Rightarrow> 'a res \<times> run_id option) \<Rightarrow> run_id option \<Rightarrow> 'a res \<times> run_id option" where
  "track_run rid body ambient = (case body (Some rid) of (result, _) \<Rightarrow> (result, ambient))"

record effective_config =
  ef_tenant_id :: tenant_id
  ef_endpoint :: string
  ef_capture_content :: bool
  ef_service_name :: string
  ef_max_queue_size :: int

record 'h init_result =
  in_capture_patched :: bool
  in_granularity :: string
  in_warnings :: "string list"
  in_effective :: effective_config
  in_handle :: "'h option"

text \<open>The settings of \<open>init\<close> without the key, which no result carries.\<close>

definition init_config_check :: "effective_config \<Rightarrow> effective_config res" where
  "init_config_check c =
     (if prefix ''http://'' (ef_endpoint c) \<or> prefix ''https://'' (ef_endpoint c) then Inr c else Inl ValueError)"

definition unresolved_warnings :: "string \<Rightarrow> string list \<Rightarrow> string list" where
  "unresolved_warnings channel unresolved =
     map (\<lambda>target. ''valuemaxx: '' @ channel @ '' not importable at init (run_id will NOT round-trip): '' @ target) unresolved"

text \<open>
  The steps of \<open>init\<close>, each a change of the result so far: the instrumentation when a client, a
  sink and an extractor are given, then the two installers when there is something to install.
  A step that raises ends them and leaves the result as it was.
\<close>

type_synonym 'h init_step = "'h init_result \<Rightarrow> 'h init_result res"

definition instrument_step :: "(capture_granularity \<Rightarrow> 'h res) option \<Rightarrow> 'h init_step" where
  "instrument_step instrument r = (case instrument of
     None \<Rightarrow> Inr r
   | Some f \<Rightarrow> res_bind (res_bind (granularity_of (in_granularity r)) f) (\<lambda>h.
       Inr (r\<lparr>in_handle := Some h, in_capture_patched := True\<rparr>)))"

definition install_step :: "string \<Rightarrow> string list res option \<Rightarrow> 'h init_step" where
  "install_step channel report r = (case report of
     None \<Rightarrow> Inr r
   | Some installed \<Rightarrow> res_bind installed (\<lambda>unresolved.
       Inr (r\<lparr>in_warnings := in_warnings r @ unresolved_warnings channel unresolved\<rparr>)))"

fun init_steps :: "'h init_step list \<Rightarrow> 'h init_result \<Rightarrow> error option \<times> 'h init_result" where
  "init_steps [] r = (None, r)"
| "init_steps (s # ss) r = (case s r of Inl e \<Rightarrow> (Some e, r) | Inr r' \<Rightarrow> init_steps ss r')"

definition suppressed :: "(error \<Rightarrow> string) \<Rightarrow> error \<Rightarrow> string" where
  "suppressed err_text e = ''valuemaxx init suppressed an internal error (fail-open): '' @ err_text e"

definition sdk_init ::
  "(error \<Rightarrow> string) \<Rightarrow> effective_config \<Rightarrow> (string \<times> string) list \<Rightarrow> bool \<Rightarrow> (capture_granularity \<Rightarrow> 'h res) option
     \<Rightarrow> string list res option \<Rightarrow> string list res option \<Rightarrow> 'h init_result res" where
  "sdk_init err_text config installed_versions client_given instrument injection baggage =
     res_bind (init_config_check config) (\<lambda>effective.
       let selftest = version_selftest installed_versions client_given;
           r0 = \<lparr>in_capture_patched = False, in_granularity = granularity_value (st_granularity selftest),
                 in_warnings = st_warnings selftest, in_effective = effective, in_handle = None\<rparr>
       in case init_steps [instrument_step instrument, install_step ''run_id injection sdk_call'' injection,
              install_step ''baggage target'' baggage] r0 of
            (None, r) \<Rightarrow> Inr r
          | (Some e, r) \<Rightarrow> Inr (r\<lparr>in_warnings := in_warnings r @ [suppressed err_text e]\<rparr>))"

lemma granularity_selftest:
  "granularity_of (granularity_value (st_granularity (version_selftest vs c))) = Inr (st_granularity (version_selftest vs c))"
  by (rule granularity_roundtrip)

text \<open>
  What a caller reads of a sequence of steps: the warnings of the steps that ran, up to the
  first one that raised, whose error is announced as suppressed; nothing after it ran.
\<close>

fun announced :: "(error \<Rightarrow> string) \<Rightarrow> string list res list \<Rightarrow> string list" where
  "announced err_text [] = []"
| "announced err_text (Inl e # outs) = [suppressed err_text e]"
| "announced err_text (Inr ws # outs) = ws @ announced err_text outs"

lemma step_cases:
  obtains "report = None" | e where "report = Some (Inl e)" | ws where "report = Some (Inr ws)"
  by (metis option.exhaust sum.exhaust)

text \<open>
  C40. The SDK fails open: with an http endpoint \<open>init\<close> returns whatever the steps inside it do. It
  reports capture as patched, with a handle, exactly when the client was instrumented, and echoes the
  settings it validated. Its warnings are exactly those of the self-test followed by what the steps
  announce: the targets that stayed unresolved, and the error of the first of the client
  instrumentation, the run id injection and the baggage installer that raised, as suppressed.
  Any other endpoint raises.
\<close>

theorem init_fails_open:
  "if prefix ''http://'' (ef_endpoint config) \<or> prefix ''https://'' (ef_endpoint config)
   then \<exists>r. sdk_init err_text config versions client_given instrument injection baggage = Inr r \<and>
     in_effective r = config \<and>
     in_granularity r = granularity_value (st_granularity (version_selftest versions client_given)) \<and>
     in_handle r = (case instrument of None \<Rightarrow> None | Some f \<Rightarrow>
       (case f (st_granularity (version_selftest versions client_given)) of Inl _ \<Rightarrow> None | Inr h \<Rightarrow> Some h)) \<and>
     in_capture_patched r = (in_handle r \<noteq> None) \<and>
     in_warnings r = st_warnings (version_selftest versions client_given) @ announced err_text
       [case instrument of None \<Rightarrow> Inr []
          | Some f \<Rightarrow> map_sum id (\<lambda>_. []) (f (st_granularity (version_selftest versions client_given))),
        case injection of None \<Rightarrow> Inr [] | Some report \<Rightarrow> map_sum id (unresolved_warnings ''run_id injection sdk_call'') report,
        case baggage of None \<Rightarrow> Inr [] | Some report \<Rightarrow> map_sum id (unresolved_warnings ''baggage target'') report]
   else sdk_init err_text config versions client_given instrument injection baggage = Inl ValueError"
proof -
  note defs = sdk_init_def init_config_check_def Let_def instrument_step_def install_step_def granularity_selftest
  consider (none) "instrument = None" | (fails) f e where "instrument = Some f"
      "f (st_granularity (version_selftest versions client_given)) = Inl e"
    | (works) f h where "instrument = Some f" "f (st_granularity (version_selftest versions client_given)) = Inr h"
    by (metis option.exhaust sum.exhaust)
  then show ?thesis
  proof cases
    case none
    then show ?thesis by (cases injection rule: step_cases; cases baggage rule: step_cases) (simp_all add: defs)
  next
    case fails
    then show ?thesis by (simp add: defs)
  next
    case works
    then show ?thesis by (cases injection rule: step_cases; cases baggage rule: step_cases) (simp_all add: defs)
  qed
qed

section \<open>The CLI\<close>

definition FRAMEWORK_MARKERS :: "(string \<times> string) list" where
  "FRAMEWORK_MARKERS = [(''fastapi'', ''main.py''), (''django'', ''manage.py''), (''express'', ''package.json'')]"

definition TENANT_ENV :: string where "TENANT_ENV = ''VALUEMAXX_TENANT_ID''"
definition INGEST_ENV :: string where "INGEST_ENV = ''VALUEMAXX_INGEST_KEY''"

type_synonym repo = "(string, string) dict"

definition detect_framework :: "repo \<Rightarrow> string" where
  "detect_framework repo = (case find (\<lambda>(f, marker). dict_get repo marker \<noteq> None) FRAMEWORK_MARKERS of
     None \<Rightarrow> ''unknown'' | Some (f, _) \<Rightarrow> f)"

definition entry_file :: "repo \<Rightarrow> string option" where
  "entry_file repo =
     map_option snd (find (\<lambda>(f, marker). suffix ''.py'' marker \<and> dict_get repo marker \<noteq> None) FRAMEWORK_MARKERS)"

text \<open>The preview injects into a copy of the text as it was read.\<close>

definition scaffold_preview :: "string \<Rightarrow> string" where
  "scaffold_preview contents = universal_newlines (scaffold_inject TENANT_ENV INGEST_ENV (universal_newlines contents))"

definition cli_init :: "(string \<Rightarrow> string \<Rightarrow> string \<Rightarrow> string) \<Rightarrow> repo \<Rightarrow> bool \<Rightarrow> string list \<times> repo" where
  "cli_init unified_diff repo apply =
     (let detected = ''valuemaxx init: detected framework='' @ detect_framework repo in
      case entry_file repo of
        None \<Rightarrow> ([detected, ''init: no Python entrypoint found to scaffold; add a main.py/manage.py or wire `valuemaxx.init()` by hand.''], repo)
      | Some rel \<Rightarrow>
          let contents = (case dict_get repo rel of None \<Rightarrow> [] | Some t \<Rightarrow> t) in
          if apply then ([detected, ''init: scaffolded `valuemaxx.init()` into '' @ rel @ '' (reversible).''],
            dict_set rel (scaffold_inject TENANT_ENV INGEST_ENV contents) repo)
          else let diff = unified_diff rel (universal_newlines contents) (scaffold_preview contents) in
            (detected # (if diff = [] then [''init: '' @ rel @ '' is already scaffolded (no changes).'']
               else [''init: reviewable diff for '' @ rel @ '' (apply with --apply):'', diff]), repo))"

definition resolve_database_url :: "string option \<Rightarrow> (string, string) dict \<Rightarrow> string option" where
  "resolve_database_url db environ = (if db \<noteq> None then db else dict_get environ ''DATABASE_URL'')"

text \<open>The signal of a rule is the system's; what was declared is ignored.\<close>

definition CONFIRMING :: "string list" where
  "CONFIRMING = [''status_setter'', ''mark_function'', ''orm_write'', ''webhook'']"

definition onboarding_map_signal :: signal_mapper where
  "onboarding_map_signal kind declared =
     Inr (if kind \<in> set CONFIRMING then ''outcome_confirmed'' else ''action_attempted'')"

definition hunk_text :: "diff_hunk \<Rightarrow> string list" where
  "hunk_text h = [''--- '' @ dh_file h, ''+++ '' @ dh_file h, dh_header h] @ dh_lines h"

definition render_diff :: "diff_hunk list \<Rightarrow> string" where
  "render_diff hunks = join_with nl (concat (map hunk_text hunks))"

text \<open>The pipeline of \<open>onboard\<close> after the scan: the proposal, its YAML and the diff, as printed.\<close>

definition cli_onboard :: "(json \<Rightarrow> string) \<Rightarrow> (rat \<Rightarrow> rat) \<Rightarrow> scan_result \<Rightarrow> (proposal \<times> string \<times> string) res" where
  "cli_onboard dump log2 scan =
     res_bind (build_proposal log2 onboarding_map_signal False scan) (\<lambda>p.
     let outcomes_yaml = render_outcomes_yaml dump log2 p in
     res_bind (build_reviewable_diff dump log2 p scan True) (\<lambda>diff. Inr (p, outcomes_yaml, render_diff diff)))"

text \<open>
  The init command edits only on request, and exactly as previewed: without \<open>--apply\<close> the
  repository is unchanged; with it only the entry file changes, and its new text is the one the
  preview showed.
\<close>

theorem cli_init_reviewed:
  "snd (cli_init unified_diff repo False) = repo \<and>
   (case entry_file repo of
      None \<Rightarrow> snd (cli_init unified_diff repo True) = repo
    | Some rel \<Rightarrow> (\<exists>contents. dict_get repo rel = Some contents \<and>
        snd (cli_init unified_diff repo True) = dict_set rel (scaffold_inject TENANT_ENV INGEST_ENV contents) repo \<and>
        universal_newlines (scaffold_inject TENANT_ENV INGEST_ENV contents) = scaffold_preview contents))"
proof -
  have same: "universal_newlines (scaffold_inject TENANT_ENV INGEST_ENV contents) = scaffold_preview contents" for contents
  proof (cases "sublist BEGIN (universal_newlines contents)")
    case True
    then show ?thesis
      using universal_newlines_id [OF universal_newlines_no_CR, of contents]
      by (simp add: scaffold_inject_def scaffold_preview_def)
  next
    case False
    then show ?thesis
      using universal_newlines_id [OF universal_newlines_no_CR, of contents]
      by (simp add: scaffold_inject_def scaffold_preview_def)
  qed
  have "\<exists>contents. dict_get repo rel = Some contents" if "entry_file repo = Some rel" for rel
    using that by (auto simp: entry_file_def FRAMEWORK_MARKERS_def split: if_splits)
  then show ?thesis
    using same by (auto simp: cli_init_def Let_def split: option.split)
qed

lemma plus_line_no_key: "no_key f \<Longrightarrow> no_key (''+++ '' @ f)"
proof -
  assume f: "no_key f"
  have "re_run r p (c # s) = []" if "r \<in> set REDACT_PREFIX_PATTERNS" "c \<in> {CHR ''+'', CHR '' ''}" for r p c s
    using that unfolding REDACT_PREFIX_PATTERNS_def
    by (auto simp: admin_key_def anthropic_key_def openai_key_def aws_key_def bearer_token_def one_of_def greedy_counts_def)
  with f show ?thesis unfolding no_key_iff by simp
qed

lemma finalized_no_key:
  assumes "finalize_hunk log2 rf h0 = Inr h"
  shows "no_key (dh_file h)" "no_key (dh_header h)" "list_all no_key (dh_lines h)"
proof -
  obtain u1 u2 us where "assert_no_secret log2 (dh_file h) = Inr u1" "assert_no_secret log2 (dh_header h) = Inr u2"
    "res_traverse (assert_no_secret log2) (dh_lines h) = Inr us"
    using assms by (auto simp: finalize_hunk_def Let_def)
  then show "no_key (dh_file h)" "no_key (dh_header h)" "list_all no_key (dh_lines h)"
    using assert_no_secret_Inr assert_all_Inr by blast+
qed

lemma diff_hunks_no_key:
  assumes "build_reviewable_diff dump log2 p scan rf = Inr hunks" and "h \<in> set hunks"
  shows "list_all no_key (hunk_text h)"
proof -
  obtain h0 where "finalize_hunk log2 rf h0 = Inr h"
    using assms res_traverse_member unfolding build_reviewable_diff_def by fastforce
  note nk = finalized_no_key [OF this]
  from file_line_no_key [OF nk(1)] plus_line_no_key [OF nk(1)] nk show ?thesis by (simp add: hunk_text_def)
qed

lemma hunk_text_starts: "hunk_plain h \<Longrightarrow> list_all line_start (hunk_text h)"
  using starts_plain_line by (auto simp: hunk_text_def hunk_plain_def list_all_iff line_start_def class_defs)

lemma render_diff_no_key:
  assumes "build_reviewable_diff dump log2 p scan rf = Inr hunks"
  shows "no_key (render_diff hunks)"
  unfolding render_diff_def
  using diff_hunks_no_key [OF assms] diff_plain [OF assms] hunk_text_starts
  by (intro join_no_key) (auto simp: list_all_iff)


lemma proposal_rule_sites:
  assumes "build_proposal log2 mapper b scan = Inr p" and "r \<in> set (pr_rules p)"
  obtains site where "site_rule_ok mapper site r"
proof -
  from res_traverse_member [OF build_proposal_rules [OF assms(1)] assms(2)]
  show thesis using rule_for_site_ok that by blast
qed

lemma onboarding_signal:
  "onboarding_map_signal (match_kind_value k) [] = Inr (signal_value c) \<longleftrightarrow>
     (if k = MExternalWrite then c = ActionAttempted else c = OutcomeConfirmed)"
  by (cases k; cases c) (simp_all add: onboarding_map_signal_def match_kind_value_def CONFIRMING_def)

text \<open>
  What the onboarding command prints is for review and carries no key: neither the YAML nor
  the diff holds any of the key shapes, no rule is confirmed, and a rule claims a confirmed
  outcome exactly when its site is not a bare write to an external system.
\<close>

theorem cli_onboard_safe:
  assumes "cli_onboard dump log2 scan = Inr (p, outcomes_yaml, diff)"
  shows "no_key outcomes_yaml \<and> no_key diff \<and>
    list_all (\<lambda>r. \<not> rc_confirmed r \<and> rc_signal r = (if rc_match_kind r = MExternalWrite then ActionAttempted else OutcomeConfirmed))
      (pr_rules p)"
proof -
  obtain hunks where p: "build_proposal log2 onboarding_map_signal False scan = Inr p"
    and y: "outcomes_yaml = render_outcomes_yaml dump log2 p"
    and h: "build_reviewable_diff dump log2 p scan True = Inr hunks" "diff = render_diff hunks"
    using assms by (auto simp: cli_onboard_def Let_def)
  have "no_key outcomes_yaml"
    unfolding y render_outcomes_yaml_def yaml_dump_def by (rule no_key_redact)
  moreover have "no_key diff" unfolding h(2) by (rule render_diff_no_key [OF h(1)])
  moreover have "\<not> rc_confirmed r \<and>
      rc_signal r = (if rc_match_kind r = MExternalWrite then ActionAttempted else OutcomeConfirmed)"
    if r: "r \<in> set (pr_rules p)" for r
  proof -
    obtain site where "site_rule_ok onboarding_map_signal site r" by (rule proposal_rule_sites [OF p r])
    then show ?thesis using onboarding_signal [of "rc_match_kind r" "rc_signal r"]
      by (auto simp: site_rule_ok_def split: if_splits)
  qed
  ultimately show ?thesis by (simp add: list_all_iff)
qed

theorem cli_onboard_safe_witness:
  "\<exists>p outcomes_yaml diff. cli_onboard (\<lambda>_. ''version: 1'') (\<lambda>x. x) sample_scan = Inr (p, outcomes_yaml, diff) \<and>
    map rc_signal (pr_rules p) = [ActionAttempted] \<and> diff \<noteq> [] \<and> no_key diff"
proof -
  have "case cli_onboard (\<lambda>_. ''version: 1'') (\<lambda>x. x) sample_scan of
      Inl _ \<Rightarrow> False | Inr r \<Rightarrow> map rc_signal (pr_rules (fst r)) = [ActionAttempted] \<and> snd (snd r) \<noteq> []"
    by code_simp
  from case_result_Inr [OF this] obtain r where
    r: "cli_onboard (\<lambda>_. ''version: 1'') (\<lambda>x. x) sample_scan = Inr r"
      "map rc_signal (pr_rules (fst r)) = [ActionAttempted]" "snd (snd r) \<noteq> []" by (elim exE conjE)
  obtain p y d where pyd: "r = (p, y, d)" by (cases r)
  from r(2,3) show ?thesis
    using cli_onboard_safe [OF r(1) [unfolded pyd]] r(1) by (auto simp: pyd)
qed

text \<open>A promptfoo suite as it is read: the criteria and the skipped assertions of every file.\<close>

datatype suite_file = YamlFile string | LinesFile string | UnreadableFile string

fun collect_suite ::
  "regexes \<Rightarrow> (string \<Rightarrow> string + json) \<Rightarrow> suite_file list \<Rightarrow> string list \<times> imported_suite \<Rightarrow> string list \<times> imported_suite" where
  "collect_suite rx safe_load [] acc = acc"
| "collect_suite rx safe_load (UnreadableFile exc # files) acc = collect_suite rx safe_load files acc"
| "collect_suite rx safe_load (YamlFile t # files) (lines, suite) =
     (let config = import_promptfoo_config rx safe_load t in
      collect_suite rx safe_load files (lines, \<lparr>is_criteria = is_criteria suite @ is_criteria config,
        is_unsupported = is_unsupported suite @ is_unsupported config\<rparr>))"
| "collect_suite rx safe_load (LinesFile t # files) (lines, suite) =
     collect_suite rx safe_load files (lines @ splitlines t, suite)"

definition import_suite ::
  "regexes \<Rightarrow> (string \<Rightarrow> json option) \<Rightarrow> (string \<Rightarrow> string + json) \<Rightarrow> suite_file list \<Rightarrow> imported_suite option" where
  "import_suite rx json_loads safe_load files =
     (case collect_suite rx safe_load files ([], empty_suite) of (lines, s) \<Rightarrow>
        if lines = [] \<and> is_criteria s = [] \<and> is_unsupported s = [] then None
        else let from_jsonl = import_promptfoo_tests rx json_loads lines in
          Some \<lparr>is_criteria = is_criteria s @ is_criteria from_jsonl,
                is_unsupported = is_unsupported s @ is_unsupported from_jsonl\<rparr>)"

text \<open>The skipped kinds with how often each occurs, as the command lists them.\<close>

definition skipped_counts :: "imported_suite \<Rightarrow> (string \<times> int) list" where
  "skipped_counts s = map (\<lambda>k. (k, int (count_list (is_unsupported s) k))) (sort (remdups (is_unsupported s)))"

lemma skipped_counts_total: "sum_list (map snd (skipped_counts s)) = int (length (is_unsupported s))"
proof -
  have "sum_list (map (\<lambda>k. int (count_list xs k)) (sort (remdups xs))) = int (length xs)" for xs :: "string list"
  proof -
    have "sum_list (map (\<lambda>k. int (count_list xs k)) (sort (remdups xs))) = (\<Sum>k\<in>set xs. int (count_list xs k))"
      by (subst sum_list_distinct_conv_sum_set) simp_all
    also have "\<dots> = int (length xs)" by (simp only: of_nat_sum [symmetric] sum_count_set [OF subset_refl finite_set])
    finally show ?thesis .
  qed
  then show ?thesis by (simp add: skipped_counts_def o_def)
qed

end
