(* ===== verification/Spec2Isabelle.thy ===== *)
theory Spec2Isabelle
  imports Attribution Reconciliation Allocation Metrics_Executor Outcome_Repository Capture_Ingest
    Eval_Service Eval_Dataset Api_Routes Presentation Store_Results Entry_Points
begin

text \<open>
  A verification library for valuemaxx, which meters the cost of AI agents, joins it to
  business outcomes and publishes cost-per-outcome metrics that must not overstate what is
  known. The library models the Python packages under \<open>src/packages\<close>, the surfaces under
  \<open>src/apps\<close> and the SDK under \<open>src/sdks/python\<close> as executable HOL functions and proves that the numbers and bindings they
  publish are what they claim.

  \<^bold>\<open>The program and how its parts interact.\<close> A cost event is captured per provider
  attempt and stored under (tenant, run, attempt). An outcome arrives later and is bound to
  a run by the attribution cascade, which trusts an explicit id, then a run id carried in a
  W3C baggage header or echoed by the caller, then a shared entity key near in time, then a
  language-model judge; what is not billing-grade goes to a review queue. Metrics read the
  stored events and outcomes of one tenant and divide cost by verified outcomes. Provider
  invoices are reconciled against estimates by proration; shared costs are allocated over
  runs; both use the same largest-remainder split. An onboarding agent scans a customer's
  source, proposes outcome rules and opens a pull request; each package declares its
  operations as capabilities, which the registry projects onto the HTTP, MCP, command-line
  and digest surfaces.

  \<^bold>\<open>Theories and the code they model\<close> (paths below \<open>src/packages/<p>/src/valuemaxx/<p>\<close>).
  \<^item> \<open>Prelude\<close>: exceptions as values of \<open>error\<close>, results as sums, Python dictionaries in
    insertion order, \<open>min\<close>/\<open>max\<close> with a key, first-seen de-duplication.
  \<^item> \<open>Rounding\<close>: \<open>decimal\<close> with 28 digits and half-even rounding, \<open>quantize\<close>, and binary
    doubles, as one significand rounding on rationals; the locale \<open>rounding\<close> carries the laws
    and is interpreted for both. Money is a rational that these operations round.
  \<^item> \<open>Core_Types\<close>: \<open>core\<close> enums, models with their validators as constructors into results,
    \<open>rollup.py\<close>, \<open>tokens.py\<close>, \<open>pricing.py\<close>. \<open>Alias\<close>: \<open>core/alias.py\<close> with its worklist loop.
  \<^item> \<open>Python_Text\<close>: \<open>str\<close> methods, number and date formatting and parsing.
  \<^item> \<open>Store_Rows\<close>, \<open>Store\<close>: \<open>store/mappers.py\<close>, \<open>tables.py\<close> constraints, \<open>tenant_guard.py\<close> and
    the repositories. A table is a list of rows, a statement a function into a result. The
    locale \<open>row_codec\<close> (a mapper the upsert statement can rely on) is interpreted for runs,
    cost events and outcomes; \<open>run_repository\<close> (what the cascade needs of runs) for the table.
  \<^item> \<open>Baggage\<close>: the header producer (\<open>outcomes/instrument/baggage.py\<close>) and parser. \<open>Cascade\<close>:
    the five resolvers and \<open>cascade.py\<close>. \<open>Attribution\<close>: the two capability handlers.
  \<^item> \<open>Money_Split\<close>: the largest-remainder split, in the locale \<open>largest_remainder\<close>, interpreted
    in \<open>Reconciliation\<close> (proration, drift, match keys, breakdown, service) and \<open>Allocation\<close>
    (configuration, the three tiers, rollup, stored lines).
  \<^item> \<open>Metrics_Grammar\<close>: the closed metric language and its compiler. \<open>Metrics_Executor\<close>:
    propagation, executor, the \<open>run_metric\<close> handler, and the ports as the server wires them.
  \<^item> \<open>Outcome_Predicate\<close>: the predicate language of outcome rules over a Python syntax tree.
    \<open>Outcome_Rules\<close>: rule files, signal classes, the emitter, the function wrapper, the run id
    injection and the webhook receiver. \<open>Outcome_Repository\<close>: retraction over the interface
    \<open>outcome_repository\<close>, interpreted for the SQL and the in-memory repository.
  \<^item> \<open>Raw_Records\<close>: \<open>store/repositories/raw_record.py\<close>. \<open>Capture_Pricing\<close>: cost arithmetic, price
    book, refusals. \<open>Capture_Stream\<close>: stream accumulators, self-test, transport wrapper and
    emitter, with the life of a client as an inductive relation and the locale \<open>cost_sink\<close>
    (what the emitter needs of a repository) interpreted for the SQL table. \<open>Capture_Ingest\<close>:
    OTLP decoding, span conversion and both ingest entry points.
  \<^item> \<open>Eval_Stats\<close>, \<open>Eval_Search\<close>, \<open>Eval_Switch\<close>: the statistics in double arithmetic, successive
    halving, the estimates and decisions of the cost gate, repricing and the
    switch verdict. \<open>Eval_Criteria\<close>: user criteria and promptfoo suites. \<open>Eval_Grade\<close>: rungs,
    case sets, replay and the recommendation. \<open>Eval_Dataset\<close>: datasets, judge validation and
    discovery. \<open>Eval_Service\<close>: the service, its handlers and the recommendation repository.
  \<^item> \<open>Surface_Registry\<close>: \<open>packages/capabilities\<close> (declaration, registry, discovery) and the tool
    server of \<open>apps/mcp\<close>; the locale \<open>registrar\<close> is interpreted for the plain and the
    first-wins registration. \<open>Job_Store\<close>: \<open>apps/api\<close>, \<open>jobs.py\<close>, with the job threads as an
    inductive relation. \<open>Api_Routes\<close>: authentication, tenant scoping, the route of each mode,
    webhooks, the outcome, alias and OTLP endpoints. \<open>Presentation\<close>: \<open>packages/notify\<close> digests
    and the command projection of \<open>apps/cli\<close>.
  \<^item> \<open>Store_Results\<close>: attribution results, rollups and reconciliation records as rows, the
    money columns with their scale; the locale \<open>keyed_table\<close> extends \<open>row_codec\<close> to a table
    read by its key and is interpreted for results and rollups.
  \<^item> \<open>Python_Regex\<close>: the part of \<open>re\<close> the code uses, as a backtracking matcher that returns
    its matches in order. \<open>Onboarding_Redact\<close>, \<open>Onboarding_Scan\<close>, \<open>Onboarding\<close>: \<open>packages/onboarding\<close>,
    redaction, the file walk and both classifiers, proposals, suggestions, rendering, diffs
    and the pull request.
  \<^item> \<open>Reconciliation_Edges\<close>: the billing upload with the states of Python's CSV reader, the
    provider cost replies, the \<open>reconcile_day\<close> handler. \<open>Capability_Catalog\<close>: what every
    package declares, assembled by the registry, and the outcome rule handlers.
    \<open>Entry_Points\<close>: server settings, dashboard requests, the SDK (\<open>init\<close>, scaffold, \<open>run\<close>)
    and the commands of \<open>apps/cli\<close>.
  \<^item> This theory: the run id followed from the outbound header to the stored binding.

  \<^bold>\<open>What the lemmas show.\<close> Attribution: a binding skips review exactly when it is
  billing-grade, it names a run that exists, the entity tier picks the strictly nearest run,
  and an id stamped on a request binds the outcome exactly. Store: an upsert is a keyed
  write, rows round-trip, retraction is a tombstone. Money: prorated and allocated shares
  sum to the amount, a prorated share is within two storage units of its proportion, the
  totals of a rollup are those of its lines, percentages stay in range, idle capacity never
  enters a unit cost.
  Metrics: accepted definitions are exactly the reference grammar, a cell counts what it
  says, a retraction always raises the re-emit flag, and a tenant's answer depends on that
  tenant's rows alone. Outcomes: a webhook is processed only after its signature verified, a
  predicate reads no name outside its roots and no dunder attribute, a wrapped call behaves as the call. Capture: a
  stream's last usage is what is recorded, an ingested batch stores exactly its attempts.
  Evaluation: intervals and percentiles stay in range under rounding, a winner clears both
  gates and is cheapest, a switch is safe only on a powered experiment, a case passes
  exactly when all criteria hold, and a run always stores what a read finds. Surfaces: a
  request acts as the tenant of its key whatever its body says, a job is seen by its own
  tenant only and reports what its handler returned, a posted outcome is recorded once, the
  first declaration of a capability wins, and a digest keeps both confidence fields.
  Onboarding: no key of a scanned source reaches a report, a rendered file or a pull
  request, and a proposal is unconfirmed. Entry points: an upload is read back exactly,
  the scaffold is reversible, \<open>init\<close> never fails for its instrumentation and announces every
  error it suppresses. The theorems named
  as errors record where the code departs from its own documentation.

  \<^bold>\<open>Bounds and fuel.\<close> No definition uses fuel. The alias worklist terminates because each
  round adds a known key, the file walk because the directories it still holds get smaller,
  the text loops (substitution, credential runs) because each round consumes text; the other
  loops are structural. Exactness of the money splits is
  stated for amounts below the range where 28 digits hold ten decimal places
  (\<open>prorate_domain\<close>, \<open>allocate_domain\<close>). Instants are microseconds since the epoch.

  \<^bold>\<open>Not modelled.\<close> SQLAlchemy, the database driver and the migrations; column scales outside
  the reconciliation records; the frameworks under the surfaces (FastAPI, the MCP transport
  library, typer); the HTML and script of the dashboard and the documentation text that
  \<open>llms_txt.py\<close> and \<open>agents_md_writer.py\<close> generate; the store bridge of the server, which
  forwards each repository call to an event loop in another thread; the HTTP clients of the
  model and cost providers; patching of client libraries and of the thread pool. Parameters
  of the definitions that call them are the language-model judge, the YAML reader and writer,
  the JSON reader, the Python and TypeScript parsers, \<open>difflib\<close>, HMAC, the tokenizer, and the
  logarithm, root, power and error function of the C library. Asynchronous scheduling is
  modelled only for jobs and the emitter, whose drain is one step; elsewhere each repository
  call is one atomic step.
  The generated identifiers and the clock are arguments.
\<close>

section \<open>A run id carried across a service hop\<close>

lemma request_scope_produced:
  assumes "header_safe rid" "rid \<noteq> []"
  shows "\<exists>m. rs_baggage (request_scope (Some (with_run_id_member (Some (JStr s)) rid)) None) = Some m \<and>
     dict_get m BAGGAGE_RUN_ID_KEY = Some rid"
    and "carried_run_id (request_scope (Some (with_run_id_member (Some (JStr s)) rid)) None) = Some rid"
proof -
  let ?h = "with_run_id_member (Some (JStr s)) rid"
  have p: "dict_get (parse_baggage_header (Some ?h)) BAGGAGE_RUN_ID_KEY = Some rid"
    by (simp add: parse_produced [OF assms(1)])
  then have ne: "parse_baggage_header (Some ?h) \<noteq> []" by auto
  moreover have "?h \<noteq> []"
  proof
    assume "?h = []"
    then have "parse_baggage_header (Some ?h) = []" by (simp add: parse_baggage_header_def strip_def lstrip_def)
    with ne show False by simp
  qed
  ultimately show "\<exists>m. rs_baggage (request_scope (Some ?h) None) = Some m \<and> dict_get m BAGGAGE_RUN_ID_KEY = Some rid"
    "carried_run_id (request_scope (Some ?h) None) = Some rid"
    using p assms(2) by (simp_all add: request_scope_def carried_run_id_def Let_def)
qed

text \<open>
  C7. From the outbound call to the stored binding: a run id the producer stamps on an
  outbound header, whatever the header already held, binds the outcome posted by the
  receiving service exactly to that run, without review, before or after the run's own
  spans arrive.
\<close>

theorem baggage_hop_binds_exact:
  assumes "run_table_ok d" "header_safe rid" "rid \<noteq> []"
    and "rq_signals q = request_scope (Some (with_run_id_member (Some (JStr s)) rid)) None"
    and "rq_active_run_id q = None" "ob_run_id (oe_binding e) = None"
    and "bind_outcome_handler (Some rt) q d e = Inr (r, d')"
  shows "ar_run_id r = Some rid \<and> ar_tier r = Some Exact \<and> ar_bound_by r = Some ''BaggageResolver'' \<and>
     \<not> ar_review_required r"
proof -
  let ?sig = "rq_signals q"
  have sig: "carried_run_id ?sig = Some rid" unfolding assms(4) by (rule request_scope_produced(2) [OF assms(2,3)])
  have ec: "rs_echoed_run_id ?sig = None" by (simp add: assms(4) request_scope_def Let_def)
  obtain m where m: "rs_baggage ?sig = Some m" "dict_get m BAGGAGE_RUN_ID_KEY = Some rid"
    using request_scope_produced(1) [OF assms(2,3)] unfolding assms(4) by blast
  have asr: "asserted_run_id ?sig e = Some rid" using assms(6) sig by (simp add: asserted_run_id_def)
  obtain d1 d2 where h: "ensure_run_exists d ?sig e = Inr d1" "run_table_ok d1"
    "cascade_bind (runtime_cascade rt q) d1 e None (Some m) None = Inr (r, d2)"
    using handler_Inr [OF assms(1,7)] assms(6) m(1) ec by metis
  have "run_view d1 (oe_tenant_id e) rid \<noteq> None"
    using ensure_run_exists_effect [OF assms(1), of ?sig e] asr h(1) by (auto split: option.splits)
  then have live: "run_get d1 (oe_tenant_id e) rid \<noteq> Inr None" by (simp add: run_repo.get_view [OF h(2)])
  obtain ctx where ctx: "resolve_context_of e None (Some m) None = Inr ctx"
    using h(3) by (auto simp: cascade_bind_def)
  have "strip rid = rid" using assms(2) by (simp add: header_safe_def strip_stripped)
  then have "carried_signals (rq_active_run_id q) ctx = [(''BaggageResolver'', Exact, rid)]"
    using resolve_context_of_Inr [OF ctx] assms(3,5) m(2)
    by (simp add: carried_signals_def ambient_signal_def baggage_signal_def)
  then have f: "find (\<lambda>(n, t, i). run_get d1 (oe_tenant_id e) i \<noteq> Inr None) (carried_signals (rq_active_run_id q) ctx) =
      Some (''BaggageResolver'', Exact, rid)"
    using live by simp
  have res: "ar_run_id r = Some rid \<and> ar_tier r = Some Exact \<and> ar_bound_by r = Some ''BaggageResolver''"
    using cascade_live_aux [OF h(2) ctx, where q = q and rt = rt] h(3) unfolding f by auto
  moreover have "\<not> ar_review_required r"
    using cascade_bind_honest_aux [OF h(3)] res
    by (auto simp: is_billing_grade_result_def billing_grade_tier_def split: if_splits)
  ultimately show ?thesis by blast
qed

theorem baggage_hop_binds_exact_witness:
  "\<exists>r d'. bind_outcome_handler (Some sample_runtime)
       (sample_request\<lparr>rq_signals := request_scope (Some (with_run_id_member (Some (JStr ''a=1'')) ''new'')) None\<rparr>)
       empty_db sample_outcome = Inr (r, d') \<and> ar_run_id r = Some ''new'' \<and> ar_tier r = Some Exact"
proof -
  let ?q = "sample_request\<lparr>rq_signals := request_scope (Some (with_run_id_member (Some (JStr ''a=1'')) ''new'')) None\<rparr>"
  have "map_sum id (\<lambda>(r, d'). ()) (bind_outcome_handler (Some sample_runtime) ?q empty_db sample_outcome) = Inr ()"
    by code_simp
  then obtain r d' where b: "bind_outcome_handler (Some sample_runtime) ?q empty_db sample_outcome = Inr (r, d')"
    by (cases "bind_outcome_handler (Some sample_runtime) ?q empty_db sample_outcome") auto
  have safe: "header_safe ''new''" by (simp add: header_safe_def stripped_def is_space_def)
  have "ar_run_id r = Some ''new'' \<and> ar_tier r = Some Exact \<and> ar_bound_by r = Some ''BaggageResolver'' \<and> \<not> ar_review_required r"
    by (rule baggage_hop_binds_exact [OF empty_db_ok(1) safe _ _ _ _ b])
      (simp_all add: sample_request_def sample_outcome_def outcome_binding_default_def)
  with b show ?thesis by blast
qed

end
